(* ===== verification/Znet_Prelude.thy ===== *)
theory Znet_Prelude
  imports Main "HOL-Library.Word"
begin

unbundle bit_operations_syntax

text \<open>
  The vocabulary the component theories share: the machine integers of
  \<^verbatim>\<open>src/znet/z_stl_compat.h\<close> (\<open>u8\<close> to \<open>u64\<close>, \<open>byte\<close>), memory blocks as lists of
  bytes with the two memory operations the sources use (\<open>memcpy_at\<close> writes a block at an
  offset, \<open>block_at\<close> reads one), the byte decomposition of words, and the generic lemmas about
  them.  In-memory sizes, offsets and cursors are \<open>nat\<close>, since they index buffers that
  exist; values that travel on the wire or are attacker controlled keep their machine width.

  Collections: \<open>mem_simps\<close> for reads after writes, \<open>word_simps\<close> for facts about words.
\<close>

named_theorems mem_simps
named_theorems word_simps

type_synonym byte = "8 word"
type_synonym u8 = "8 word"
type_synonym u16 = "16 word"
type_synonym u32 = "32 word"
type_synonym u64 = "64 word"

subsection \<open>Blocks of memory\<close>

definition block_at :: "nat \<Rightarrow> nat \<Rightarrow> 'a list \<Rightarrow> 'a list" where
  "block_at off n xs = take n (drop off xs)"

definition memcpy_at :: "nat \<Rightarrow> 'a list \<Rightarrow> 'a list \<Rightarrow> 'a list" where
  "memcpy_at off src dst = take off dst @ src @ drop (off + length src) dst"

lemma length_block_at [simp]: "length (block_at off n xs) = min n (length xs - off)"
  by (simp add: block_at_def)

lemma block_0 [simp]: "block_at off 0 xs = []"
  by (simp add: block_at_def)

lemma block_all [simp]: "block_at 0 (length xs) xs = xs"
  by (simp add: block_at_def)

lemma length_memcpy_at [simp]:
  "off + length src \<le> length dst \<Longrightarrow> length (memcpy_at off src dst) = length dst"
  by (simp add: memcpy_at_def)

lemma memcpy_at_Nil [simp]: "memcpy_at off [] dst = dst"
  by (simp add: memcpy_at_def)

lemma block_memcpy_same [mem_simps]:
  "off + length src \<le> length dst \<Longrightarrow> n = length src \<Longrightarrow>
   block_at off n (memcpy_at off src dst) = src"
  by (simp add: block_at_def memcpy_at_def)

lemma block_memcpy_before [mem_simps]:
  "off + length src \<le> length dst \<Longrightarrow> o' + n \<le> off \<Longrightarrow>
   block_at o' n (memcpy_at off src dst) = block_at o' n dst"
proof -
  assume a: "off + length src \<le> length dst" "o' + n \<le> off"
  then have "n \<le> length (drop o' (take off dst))" by simp
  moreover have "take n (drop o' (take off dst)) = take n (drop o' dst)"
    using a by (simp add: drop_take min_absorb1)
  moreover have "drop o' (take off dst @ src @ drop (off + length src) dst) =
      drop o' (take off dst) @ src @ drop (off + length src) dst"
    using a by simp
  ultimately show ?thesis
    by (simp only: block_at_def memcpy_at_def take_append) simp
qed

lemma block_memcpy_after [mem_simps]:
  "off + length src \<le> length dst \<Longrightarrow> off + length src \<le> o' \<Longrightarrow>
   block_at o' n (memcpy_at off src dst) = block_at o' n dst"
  by (simp add: block_at_def memcpy_at_def)

lemma nth_memcpy_at:
  assumes "off + length src \<le> length dst" and "i < length dst"
  shows "memcpy_at off src dst ! i =
    (if off \<le> i \<and> i < off + length src then src ! (i - off) else dst ! i)"
  using assms by (auto simp: memcpy_at_def nth_append)

lemma memcpy_at_absorb [mem_simps]:
  "length a = length b \<Longrightarrow> off + length b \<le> length dst \<Longrightarrow>
   memcpy_at off a (memcpy_at off b dst) = memcpy_at off a dst"
  by (simp add: memcpy_at_def)

lemma take_memcpy_at [mem_simps]:
  "off + length src \<le> length dst \<Longrightarrow> off + length src \<le> n \<Longrightarrow>
   take n (memcpy_at off src dst) = memcpy_at off src (take n dst)"
  by (simp add: memcpy_at_def drop_take min_absorb1 min_absorb2 diff_diff_add)

lemma block_append_left [mem_simps]:
  "off + n \<le> length xs \<Longrightarrow> block_at off n (xs @ ys) = block_at off n xs"
  by (simp add: block_at_def)

lemma block_append_right [mem_simps]:
  "length xs \<le> off \<Longrightarrow> block_at off n (xs @ ys) = block_at (off - length xs) n ys"
  by (simp add: block_at_def)

lemma block_nth: "off < length xs \<Longrightarrow> block_at off 1 xs = [xs ! off]"
  by (simp add: block_at_def take_Suc_conv_app_nth Cons_nth_drop_Suc [symmetric])

text \<open>Writes into a block that is given as a concatenation of its fields.\<close>

named_theorems layout_simps

lemma memcpy_append_skip [layout_simps]:
  "length xs \<le> off \<Longrightarrow> memcpy_at off src (xs @ ys) = xs @ memcpy_at (off - length xs) src ys"
  by (simp add: memcpy_at_def)

lemma memcpy_append_here [layout_simps]:
  "length xs = length src \<Longrightarrow> memcpy_at 0 src (xs @ ys) = src @ ys"
  by (simp add: memcpy_at_def)

lemma memcpy_all [layout_simps]: "length xs = length src \<Longrightarrow> memcpy_at 0 src xs = src"
  by (simp add: memcpy_at_def)

lemma memcpy_Cons_skip [layout_simps]:
  "0 < off \<Longrightarrow> memcpy_at off src (x # ys) = x # memcpy_at (off - 1) src ys"
  by (cases off) (simp_all add: memcpy_at_def)

lemma update_append_skip [layout_simps]:
  "length xs \<le> i \<Longrightarrow> (xs @ ys)[i := v] = xs @ ys[i - length xs := v]"
  by (simp add: list_update_append)

lemma update_Cons_skip [layout_simps]: "0 < i \<Longrightarrow> (x # xs)[i := v] = x # xs[i - 1 := v]"
  by (cases i) simp_all

lemma nth_append_skip [layout_simps]: "length xs \<le> i \<Longrightarrow> (xs @ ys) ! i = ys ! (i - length xs)"
  by (simp add: nth_append)

lemma block_Cons_skip [layout_simps]:
  "0 < off \<Longrightarrow> block_at off n (x # xs) = block_at (off - 1) n xs"
  by (cases off) (simp_all add: block_at_def)

lemma block_append_skip [layout_simps]:
  "length xs \<le> off \<Longrightarrow> block_at off n (xs @ ys) = block_at (off - length xs) n ys"
  by (simp add: block_at_def)

lemma block_append_here [layout_simps]: "length xs = n \<Longrightarrow> block_at 0 n (xs @ ys) = xs"
  by (simp add: block_at_def)

lemma block_here [layout_simps]: "length xs = n \<Longrightarrow> block_at 0 n xs = xs"
  by (simp add: block_at_def)

subsection \<open>Words as little-endian blocks of bytes\<close>

definition word_bytes :: "'a::len word \<Rightarrow> byte list" where
  "word_bytes v = map (\<lambda>i. ucast (drop_bit (8 * i) v)) [0..<LENGTH('a) div 8]"

primrec bytes_word :: "byte list \<Rightarrow> 'a::len word" where
  "bytes_word [] = 0"
| "bytes_word (b # bs) = ucast b OR push_bit 8 (bytes_word bs)"

lemma unat_bound: "unat (w :: 'a::len word) < 2 ^ LENGTH('a)"
  by (rule unsigned_less)

lemma length_word_bytes [simp]: "length (word_bytes (v :: 'a::len word)) = LENGTH('a) div 8"
  by (simp add: word_bytes_def)

lemma bit_bytes_word:
  "bit (bytes_word bs :: 'a::len word) n \<longleftrightarrow>
   n < LENGTH('a) \<and> n < 8 * length bs \<and> bit (bs ! (n div 8)) (n mod 8)"
proof (induction bs arbitrary: n)
  case Nil
  then show ?case by simp
next
  case (Cons b bs)
  show ?case
  proof (cases "n < 8")
    case True
    then show ?thesis
      by (auto simp: bit_or_iff bit_push_bit_iff bit_ucast_iff)
  next
    case False
    then obtain m where m: "n = m + 8" by (metis add.commute le_Suc_ex not_less)
    have "\<not> bit b (m + 8)" using bit_imp_le_length by fastforce
    moreover have "(m + 8) div 8 = Suc (m div 8)" by simp
    ultimately show ?thesis using Cons.IH [of m]
      by (auto simp: m bit_or_iff bit_push_bit_iff bit_ucast_iff dest: bit_imp_le_length)
  qed
qed

lemma nth_word_bytes:
  "i < LENGTH('a) div 8 \<Longrightarrow> word_bytes (v :: 'a::len word) ! i = ucast (drop_bit (8 * i) v)"
  by (simp add: word_bytes_def)

lemma bytes_word_bytes [word_simps]:
  assumes "8 dvd LENGTH('a::len)"
  shows "bytes_word (word_bytes v) = (v :: 'a word)"
proof (rule bit_word_eqI)
  fix n assume n: "n < LENGTH('a)"
  from assms n have "n div 8 < LENGTH('a) div 8" by (auto elim!: dvdE)
  moreover from assms n have "n < 8 * (LENGTH('a) div 8)" by simp
  ultimately show "bit (bytes_word (word_bytes v) :: 'a word) n \<longleftrightarrow> bit v n"
    using n by (simp add: bit_bytes_word nth_word_bytes bit_ucast_iff bit_drop_bit_eq)
qed

lemma word_bytes_word [word_simps]:
  assumes "8 * length bs = LENGTH('a::len)"
  shows "word_bytes (bytes_word bs :: 'a word) = bs"
proof (rule nth_equalityI)
  show "length (word_bytes (bytes_word bs :: 'a word)) = length bs"
    using assms by (metis length_word_bytes nonzero_mult_div_cancel_left zero_neq_numeral)
next
  fix i assume "i < length (word_bytes (bytes_word bs :: 'a word))"
  then have i: "i < LENGTH('a) div 8" and i': "i < length bs" using assms by auto
  show "word_bytes (bytes_word bs :: 'a word) ! i = bs ! i"
  proof (rule bit_word_eqI)
    fix n :: nat assume n: "n < LENGTH(8)"
    then have "8 * i + n < LENGTH('a)" using i' assms by simp
    moreover have "(8 * i + n) div 8 = i" "(8 * i + n) mod 8 = n" using n by auto
    moreover have "8 * i + n < 8 * length bs" using i' n by simp
    ultimately show "bit (word_bytes (bytes_word bs :: 'a word) ! i) n \<longleftrightarrow> bit (bs ! i) n"
      using i n by (simp add: nth_word_bytes bit_ucast_iff bit_drop_bit_eq bit_bytes_word)
  qed
qed

end
