(* ===== verification/Wire_LE.thy ===== *)
theory Wire_LE
  imports Znet_Prelude
begin

text \<open>
  \<^verbatim>\<open>src/znet/z_wire_le.h\<close>: the little-endian encoding of integers on the wire.  The host's
  byte order is the parameter \<open>endian\<close>; a \<^verbatim>\<open>memcpy\<close> between an integer and memory goes through
  the host's representation \<open>host_bytes\<close>/\<open>host_word\<close>, and the byte swaps of the source are
  written out.  The lemmas show that what is stored does not depend on the host, that loads
  invert stores, and that the bounds-checked reads never leave the buffer.
\<close>

datatype endian = LittleEndian | BigEndian

definition host_bytes :: "endian \<Rightarrow> 'a::len word \<Rightarrow> byte list" where
  "host_bytes h v = (case h of LittleEndian \<Rightarrow> word_bytes v | BigEndian \<Rightarrow> rev (word_bytes v))"

definition host_word :: "endian \<Rightarrow> byte list \<Rightarrow> 'a::len word" where
  "host_word h bs = (case h of LittleEndian \<Rightarrow> bytes_word bs | BigEndian \<Rightarrow> bytes_word (rev bs))"

subsection \<open>Byte swaps and host conversions\<close>

definition ByteSwap16 :: "u16 \<Rightarrow> u16" where
  "ByteSwap16 value = push_bit 8 value OR drop_bit 8 value"

definition ByteSwap32 :: "u32 \<Rightarrow> u32" where
  "ByteSwap32 value =
     push_bit 24 (value AND 0x000000FF) OR
     push_bit 8 (value AND 0x0000FF00) OR
     drop_bit 8 (value AND 0x00FF0000) OR
     drop_bit 24 (value AND 0xFF000000)"

definition ByteSwap64 :: "u64 \<Rightarrow> u64" where
  "ByteSwap64 value =
     push_bit 56 (value AND 0x00000000000000FF) OR
     push_bit 40 (value AND 0x000000000000FF00) OR
     push_bit 24 (value AND 0x0000000000FF0000) OR
     push_bit 8 (value AND 0x00000000FF000000) OR
     drop_bit 8 (value AND 0x000000FF00000000) OR
     drop_bit 24 (value AND 0x0000FF0000000000) OR
     drop_bit 40 (value AND 0x00FF000000000000) OR
     drop_bit 56 (value AND 0xFF00000000000000)"

definition NativeLittleEndianFallback :: "endian \<Rightarrow> bool" where
  "NativeLittleEndianFallback h \<longleftrightarrow> hd (host_bytes h (1 :: u16)) = 1"

definition HostToLe16 :: "endian \<Rightarrow> u16 \<Rightarrow> u16" where
  "HostToLe16 h value = (if NativeLittleEndianFallback h then value else ByteSwap16 value)"

definition HostToLe32 :: "endian \<Rightarrow> u32 \<Rightarrow> u32" where
  "HostToLe32 h value = (if NativeLittleEndianFallback h then value else ByteSwap32 value)"

definition HostToLe64 :: "endian \<Rightarrow> u64 \<Rightarrow> u64" where
  "HostToLe64 h value = (if NativeLittleEndianFallback h then value else ByteSwap64 value)"

definition LeToHost16 :: "endian \<Rightarrow> u16 \<Rightarrow> u16" where
  "LeToHost16 h value = HostToLe16 h value"

definition LeToHost32 :: "endian \<Rightarrow> u32 \<Rightarrow> u32" where
  "LeToHost32 h value = HostToLe32 h value"

definition LeToHost64 :: "endian \<Rightarrow> u64 \<Rightarrow> u64" where
  "LeToHost64 h value = HostToLe64 h value"

subsection \<open>Stores, loads, appends and bounds-checked reads\<close>

text \<open>A store takes the buffer and the offset of the pointer it writes through.\<close>

definition StoreU16 :: "endian \<Rightarrow> nat \<Rightarrow> u16 \<Rightarrow> byte list \<Rightarrow> byte list" where
  "StoreU16 h off value out =
     (let encoded = HostToLe16 h value in memcpy_at off (host_bytes h encoded) out)"

definition StoreU32 :: "endian \<Rightarrow> nat \<Rightarrow> u32 \<Rightarrow> byte list \<Rightarrow> byte list" where
  "StoreU32 h off value out =
     (let encoded = HostToLe32 h value in memcpy_at off (host_bytes h encoded) out)"

definition StoreU64 :: "endian \<Rightarrow> nat \<Rightarrow> u64 \<Rightarrow> byte list \<Rightarrow> byte list" where
  "StoreU64 h off value out =
     (let encoded = HostToLe64 h value in memcpy_at off (host_bytes h encoded) out)"

definition LoadU16 :: "endian \<Rightarrow> byte list \<Rightarrow> nat \<Rightarrow> u16" where
  "LoadU16 h data off = (let encoded = host_word h (block_at off 2 data) in LeToHost16 h encoded)"

definition LoadU32 :: "endian \<Rightarrow> byte list \<Rightarrow> nat \<Rightarrow> u32" where
  "LoadU32 h data off = (let encoded = host_word h (block_at off 4 data) in LeToHost32 h encoded)"

definition LoadU64 :: "endian \<Rightarrow> byte list \<Rightarrow> nat \<Rightarrow> u64" where
  "LoadU64 h data off = (let encoded = host_word h (block_at off 8 data) in LeToHost64 h encoded)"

definition AppendU16 :: "endian \<Rightarrow> byte list \<Rightarrow> u16 \<Rightarrow> byte list" where
  "AppendU16 h out value = (let start = length out in StoreU16 h start value (out @ replicate 2 0))"

definition AppendU32 :: "endian \<Rightarrow> byte list \<Rightarrow> u32 \<Rightarrow> byte list" where
  "AppendU32 h out value = (let start = length out in StoreU32 h start value (out @ replicate 4 0))"

definition AppendU64 :: "endian \<Rightarrow> byte list \<Rightarrow> u64 \<Rightarrow> byte list" where
  "AppendU64 h out value = (let start = length out in StoreU64 h start value (out @ replicate 8 0))"

text \<open>A read returns the value and the advanced cursor; \<open>None\<close> is the source's \<^verbatim>\<open>false\<close>.\<close>

definition ReadU16 :: "endian \<Rightarrow> byte list \<Rightarrow> nat \<Rightarrow> (u16 \<times> nat) option" where
  "ReadU16 h data cursor =
     (if cursor + 2 > length data then None else Some (LoadU16 h data cursor, cursor + 2))"

definition ReadU32 :: "endian \<Rightarrow> byte list \<Rightarrow> nat \<Rightarrow> (u32 \<times> nat) option" where
  "ReadU32 h data cursor =
     (if cursor + 4 > length data then None else Some (LoadU32 h data cursor, cursor + 4))"

definition ReadU64 :: "endian \<Rightarrow> byte list \<Rightarrow> nat \<Rightarrow> (u64 \<times> nat) option" where
  "ReadU64 h data cursor =
     (if cursor + 8 > length data then None else Some (LoadU64 h data cursor, cursor + 8))"

subsection \<open>The host's byte order does not show on the wire\<close>

lemma NativeLittleEndianFallback_iff [simp]: "NativeLittleEndianFallback h \<longleftrightarrow> h = LittleEndian"
  by (cases h)
    (simp_all add: NativeLittleEndianFallback_def host_bytes_def word_bytes_def upt_conv_Cons)

lemma byte_masks32:
  "(0x000000FF :: u32) = mask 8" "(0x0000FF00 :: u32) = push_bit 8 (mask 8)"
  "(0x00FF0000 :: u32) = push_bit 16 (mask 8)" "(0xFF000000 :: u32) = push_bit 24 (mask 8)"
  by (simp_all add: mask_eq_exp_minus_1 push_bit_eq_mult)

lemma byte_masks64:
  "(0x00000000000000FF :: u64) = mask 8" "(0x000000000000FF00 :: u64) = push_bit 8 (mask 8)"
  "(0x0000000000FF0000 :: u64) = push_bit 16 (mask 8)"
  "(0x00000000FF000000 :: u64) = push_bit 24 (mask 8)"
  "(0x000000FF00000000 :: u64) = push_bit 32 (mask 8)"
  "(0x0000FF0000000000 :: u64) = push_bit 40 (mask 8)"
  "(0x00FF000000000000 :: u64) = push_bit 48 (mask 8)"
  "(0xFF00000000000000 :: u64) = push_bit 56 (mask 8)"
  by (simp_all add: mask_eq_exp_minus_1 push_bit_eq_mult)

lemma word_bytes_swap16 [word_simps]: "word_bytes (ByteSwap16 v) = rev (word_bytes v)"
  by (simp add: word_bytes_def ByteSwap16_def upt_conv_Cons; intro conjI bit_word_eqI)
     (auto simp: bit_simps)

lemma word_bytes_swap32 [word_simps]: "word_bytes (ByteSwap32 v) = rev (word_bytes v)"
  unfolding ByteSwap32_def byte_masks32
  by (simp add: word_bytes_def upt_conv_Cons; intro conjI bit_word_eqI)
     (auto simp: bit_simps)

lemma word_bytes_swap64 [word_simps]: "word_bytes (ByteSwap64 v) = rev (word_bytes v)"
  unfolding ByteSwap64_def byte_masks64
  by (simp add: word_bytes_def upt_conv_Cons; intro conjI bit_word_eqI)
     (auto simp: bit_simps)

lemma host_word_bytes [word_simps]:
  "8 dvd LENGTH('a::len) \<Longrightarrow> host_word h (host_bytes h v) = (v :: 'a word)"
  by (cases h) (simp_all add: host_word_def host_bytes_def bytes_word_bytes)

lemma length_host_bytes [simp]: "length (host_bytes h (v :: 'a::len word)) = LENGTH('a) div 8"
  by (simp add: host_bytes_def split: endian.split)

lemma host_bytes_le [word_simps]:
  "host_bytes h (HostToLe16 h v16) = word_bytes v16"
  "host_bytes h (HostToLe32 h v32) = word_bytes v32"
  "host_bytes h (HostToLe64 h v64) = word_bytes v64"
  by (cases h; simp add: host_bytes_def HostToLe16_def HostToLe32_def HostToLe64_def word_simps)+

lemma LeToHost_host_word [word_simps]:
  "length bs = 2 \<Longrightarrow> LeToHost16 h (host_word h bs) = bytes_word bs"
  "length bs = 4 \<Longrightarrow> LeToHost32 h (host_word h bs) = bytes_word bs"
  "length bs = 8 \<Longrightarrow> LeToHost64 h (host_word h bs) = bytes_word bs"
proof -
  have swap: "f (bytes_word (rev bs)) = (bytes_word bs :: 'a::len word)"
    if "\<And>v :: 'a word. word_bytes (f v) = rev (word_bytes v)" and "8 * length bs = LENGTH('a)" for f
  proof -
    from that have "word_bytes (f (bytes_word (rev bs))) = bs"
      by (simp add: word_bytes_word)
    then have "bytes_word (word_bytes (f (bytes_word (rev bs)))) = (bytes_word bs :: 'a word)"
      by simp
    moreover have "8 dvd LENGTH('a)" using that(2) by (metis dvd_triv_left)
    ultimately show ?thesis by (simp add: bytes_word_bytes)
  qed
  show "length bs = 2 \<Longrightarrow> LeToHost16 h (host_word h bs) = bytes_word bs"
    by (cases h) (simp_all add: LeToHost16_def HostToLe16_def host_word_def swap word_bytes_swap16)
  show "length bs = 4 \<Longrightarrow> LeToHost32 h (host_word h bs) = bytes_word bs"
    by (cases h) (simp_all add: LeToHost32_def HostToLe32_def host_word_def swap word_bytes_swap32)
  show "length bs = 8 \<Longrightarrow> LeToHost64 h (host_word h bs) = bytes_word bs"
    by (cases h) (simp_all add: LeToHost64_def HostToLe64_def host_word_def swap word_bytes_swap64)
qed

lemma Store_eq [mem_simps]:
  "StoreU16 h off v16 out = memcpy_at off (word_bytes v16) out"
  "StoreU32 h off v32 out = memcpy_at off (word_bytes v32) out"
  "StoreU64 h off v64 out = memcpy_at off (word_bytes v64) out"
  by (simp_all add: StoreU16_def StoreU32_def StoreU64_def host_bytes_le)

lemma Load_eq:
  "off + 2 \<le> length data \<Longrightarrow> LoadU16 h data off = bytes_word (block_at off 2 data)"
  "off + 4 \<le> length data \<Longrightarrow> LoadU32 h data off = bytes_word (block_at off 4 data)"
  "off + 8 \<le> length data \<Longrightarrow> LoadU64 h data off = bytes_word (block_at off 8 data)"
  by (simp_all add: LoadU16_def LoadU32_def LoadU64_def LeToHost_host_word)

lemma Append_eq:
  "AppendU16 h out v16 = out @ word_bytes v16"
  "AppendU32 h out v32 = out @ word_bytes v32"
  "AppendU64 h out v64 = out @ word_bytes v64"
  by (simp_all add: AppendU16_def AppendU32_def AppendU64_def Store_eq memcpy_at_def)

subsection \<open>The codec interface\<close>

text \<open>
  What the packet, file-transfer and peer-to-peer formats rely on: a fixed-width codec whose
  store, append and bounds-checked read agree on one byte image \<open>enc\<close>.
\<close>

locale wire_codec =
  fixes store :: "nat \<Rightarrow> 'v \<Rightarrow> byte list \<Rightarrow> byte list"
    and load :: "byte list \<Rightarrow> nat \<Rightarrow> 'v"
    and append :: "byte list \<Rightarrow> 'v \<Rightarrow> byte list"
    and read :: "byte list \<Rightarrow> nat \<Rightarrow> ('v \<times> nat) option"
    and enc :: "'v \<Rightarrow> byte list"
    and width :: nat
  assumes enc_length: "length (enc v) = width"
    and store_enc: "store off v out = memcpy_at off (enc v) out"
    and load_enc: "off + width \<le> length data \<Longrightarrow> block_at off width data = enc v \<Longrightarrow>
      load data off = v"
    and append_enc: "append out v = out @ enc v"
    and read_load: "read data c =
      (if c + width > length data then None else Some (load data c, c + width))"
begin

lemma load_store:
  "off + width \<le> length out \<Longrightarrow> load (store off v out) off = v"
  by (rule load_enc) (simp_all add: store_enc enc_length block_memcpy_same)

lemma read_append:
  "read (append out v @ rest) (length out) = Some (v, length (append out v))"
proof -
  have "load ((out @ enc v) @ rest) (length out) = v"
    by (rule load_enc) (simp_all add: enc_length block_at_def)
  then show ?thesis by (simp add: read_load append_enc enc_length)
qed

lemma read_Some:
  "read data c = Some (v, c') \<longleftrightarrow> c + width \<le> length data \<and> c' = c + width \<and> v = load data c"
  by (auto simp: read_load)

lemma read_in_bounds: "read data c = Some (v, c') \<Longrightarrow> c' \<le> length data"
  by (auto simp: read_load split: if_splits)

lemma read_None: "read data c = None \<longleftrightarrow> length data < c + width"
  by (auto simp: read_load)

lemma read_at:
  "c = length pre \<Longrightarrow> read (pre @ enc v @ rest) c = Some (v, c + width)"
  using read_append [of pre v rest] by (simp add: append_enc enc_length)

end

interpretation w16: wire_codec "StoreU16 h" "LoadU16 h" "AppendU16 h" "ReadU16 h" word_bytes 2
  for h :: endian
  by unfold_locales
    (simp_all add: Store_eq Append_eq Load_eq ReadU16_def bytes_word_bytes)

interpretation w32: wire_codec "StoreU32 h" "LoadU32 h" "AppendU32 h" "ReadU32 h" word_bytes 4
  for h :: endian
  by unfold_locales
    (simp_all add: Store_eq Append_eq Load_eq ReadU32_def bytes_word_bytes)

interpretation w64: wire_codec "StoreU64 h" "LoadU64 h" "AppendU64 h" "ReadU64 h" word_bytes 8
  for h :: endian
  by unfold_locales
    (simp_all add: Store_eq Append_eq Load_eq ReadU64_def bytes_word_bytes)

lemmas wire_reads = w16.read_at w32.read_at w64.read_at
lemmas wire_read_Some = w16.read_Some w32.read_Some w64.read_Some

end
