(* ===== verification/Packets.thy ===== *)
theory Packets
  imports Wire_LE
begin

text \<open>
  \<^verbatim>\<open>src/znet/z_packets.h\<close> and \<^verbatim>\<open>src/znet/z_packet_bin_fmt.h\<close>: packet types, channels, priorities
  and flags, incoming and outgoing packets, the header layouts, and the peer identifiers of
  \<^verbatim>\<open>src/znet/z_peer.h\<close>.  An enumeration that may hold any value of its underlying type is that
  type with named constants (\<open>PacketType\<close>); one whose values are all named is a datatype.
\<close>

datatype PacketPriority = Low | Medium | High | Critical

definition priority_code :: "PacketPriority \<Rightarrow> u8" where
  "priority_code p = (case p of Low \<Rightarrow> 0 | Medium \<Rightarrow> 1 | High \<Rightarrow> 2 | Critical \<Rightarrow> 3)"

definition priority_of_bits :: "u8 \<Rightarrow> PacketPriority" where
  "priority_of_bits b = (if b = 0 then Low else if b = 1 then Medium else if b = 2 then High else Critical)"

type_synonym PacketType = u16

definition PacketType_Invalid :: PacketType where "PacketType_Invalid = 0"
definition PacketType_Acknowledgement :: PacketType where "PacketType_Acknowledgement = 1"
definition PacketType_ClientHello :: PacketType where "PacketType_ClientHello = 10"
definition PacketType_ServerHello :: PacketType where "PacketType_ServerHello = 11"
definition PacketType_NetworkControl :: PacketType where "PacketType_NetworkControl = 17"
definition PacketType_ClientAuthProof :: PacketType where "PacketType_ClientAuthProof = 18"
definition PacketType_FileTransfer :: PacketType where "PacketType_FileTransfer = 19"
definition PacketType_Message :: PacketType where "PacketType_Message = 100"

lemmas PacketType_defs = PacketType_Invalid_def PacketType_Acknowledgement_def
  PacketType_ClientHello_def PacketType_ServerHello_def PacketType_NetworkControl_def
  PacketType_ClientAuthProof_def PacketType_FileTransfer_def PacketType_Message_def

definition IsSystemMessage :: "PacketType \<Rightarrow> bool" where
  "IsSystemMessage type \<longleftrightarrow> type < PacketType_Message"

datatype PacketChannelType = Control | Data

definition channel_code :: "PacketChannelType \<Rightarrow> u8" where
  "channel_code c = (case c of Control \<Rightarrow> 0 | Data \<Rightarrow> 1)"

record PackageFlags =
  reliable :: bool
  encrypted :: bool
  compressed :: bool
  priority :: PacketPriority
  acknowledged :: bool
  awaiting_ack :: bool
  reserved :: bool

record IncomingPacket =
  ip_channel :: PacketChannelType
  ip_flags :: PackageFlags
  ip_type :: PacketType
  source_peer_id :: u32
  acknowledgement_number :: u32
  sequence_number :: u32
  ip_data :: "byte list"

text \<open>
  The payload union of an outgoing packet: a scalar, or the address of a block of the buffer
  pool together with the bytes the block holds.  \<open>payload_bits\<close> is what reading the scalar
  member yields in either case.
\<close>

datatype packet_payload = Scalar u64 | HeapBlock u64 "byte list"

fun payload_bits :: "packet_payload \<Rightarrow> u64" where
  "payload_bits (Scalar s) = s"
| "payload_bits (HeapBlock addr _) = addr"

record OutgoingPacket =
  op_channel :: PacketChannelType
  op_flags :: PackageFlags
  op_type :: PacketType
  heap_data_size :: u32
  last_send_time :: u32
  destination_peer_id :: u32
  op_payload :: packet_payload

text \<open>The constructors with and without data; \<open>addr\<close> is the block the pool hands out.\<close>

definition OutgoingPacket_with_data ::
  "u64 \<Rightarrow> u32 \<Rightarrow> PacketType \<Rightarrow> PacketChannelType \<Rightarrow> PackageFlags \<Rightarrow> byte list \<Rightarrow> OutgoingPacket" where
  "OutgoingPacket_with_data addr peer_id type channel flags data =
     \<lparr>op_channel = channel, op_flags = flags, op_type = type,
      heap_data_size = of_nat (length data), last_send_time = 0, destination_peer_id = peer_id,
      op_payload = (if (of_nat (length data) :: u32) > 0 then HeapBlock addr data else Scalar 0)\<rparr>"

definition OutgoingPacket_without_data ::
  "u32 \<Rightarrow> PacketType \<Rightarrow> PacketChannelType \<Rightarrow> PackageFlags \<Rightarrow> OutgoingPacket" where
  "OutgoingPacket_without_data peer_id type channel flags =
     \<lparr>op_channel = channel, op_flags = flags, op_type = type, heap_data_size = 0,
      last_send_time = 0, destination_peer_id = peer_id, op_payload = Scalar 0\<rparr>"

subsection \<open>Header layouts\<close>

record header_flags =
  is_reliable :: bool
  is_encrypted :: bool
  is_compressed :: bool
  is_fragmented :: bool
  h_priority :: u8
  h_reserved :: u8

record PacketHeader =
  magic :: u16
  header_checksum :: u16
  total_packet_data_size :: u32
  version :: u8
  h_flags :: header_flags
  h_type :: u16
  alignment :: u16
  padding_number :: u8
  channel_id :: u8
  timestamp :: u32

definition kProtocolVersion :: u8 where "kProtocolVersion = 1"
definition kMagic :: u16 where "kMagic = 0x1337"

definition kPacketHeaderWireSize :: nat where "kPacketHeaderWireSize = 20"
definition kReliableHeaderWireSize :: nat where "kReliableHeaderWireSize = 8"
definition kUncompressedHeaderWireSize :: nat where "kUncompressedHeaderWireSize = 4"
definition kCompressedHeaderWireSize :: nat where "kCompressedHeaderWireSize = 16"

subsection \<open>Peer identifiers\<close>

definition invalid_id :: u32 where "invalid_id = 0xFFFFFFFF"
definition max_id :: u32 where "max_id = invalid_id - 1"
definition to_all :: u32 where "to_all = max_id - 1"
definition to_server :: u32 where "to_server = max_id - 2"

lemmas peer_id_defs = invalid_id_def max_id_def to_all_def to_server_def

lemma priority_of_code [simp]: "priority_of_bits (priority_code p) = p"
  by (cases p) (simp_all add: priority_of_bits_def priority_code_def)

lemma priority_code_and [simp]: "priority_code p AND 3 = priority_code p"
  by (cases p) (simp_all add: priority_code_def)

lemma channel_code_bound: "channel_code c \<le> 1"
  by (cases c) (simp_all add: channel_code_def)

lemma channel_code_inj [simp]: "channel_code a = channel_code b \<longleftrightarrow> a = b"
  by (cases a; cases b) (simp_all add: channel_code_def)

end
