(* ===== verification/Checksum.thy ===== *)
theory Checksum
  imports Znet_Prelude
begin

text \<open>
  The FNV-1a checksum of \<^verbatim>\<open>src/znet/z_packet_serdes.cc\<close> (\<^verbatim>\<open>ComputeChecksum32\<close>) and of
  \<^verbatim>\<open>src/znet/z_file_transporter.cc\<close> (\<^verbatim>\<open>UpdateChecksum\<close>, \<^verbatim>\<open>ComputeChecksum\<close>).  Each step is a
  bijection of the running hash and injective in the byte, so a change of one byte always
  changes the result, in the full hash and in its low sixteen bits.
\<close>

definition kFnv1aOffset :: u32 where "kFnv1aOffset = 2166136261"
definition kFnv1aPrime :: u32 where "kFnv1aPrime = 16777619"

fun UpdateChecksum :: "byte list \<Rightarrow> u32 \<Rightarrow> u32" where
  "UpdateChecksum [] hash = hash"
| "UpdateChecksum (b # data) hash = UpdateChecksum data ((hash XOR ucast b) * kFnv1aPrime)"

definition ComputeChecksum :: "byte list \<Rightarrow> u32" where
  "ComputeChecksum data = UpdateChecksum data kFnv1aOffset"

fun checksum_loop :: "byte list \<Rightarrow> u32 \<Rightarrow> u32" where
  "checksum_loop [] hash = hash"
| "checksum_loop (b # data) hash =
     (let hash = hash XOR ucast b; hash = hash * kFnv1aPrime in checksum_loop data hash)"

definition ComputeChecksum32 :: "byte list \<Rightarrow> u32" where
  "ComputeChecksum32 data = checksum_loop data kFnv1aOffset"

lemma checksum_loop_eq: "checksum_loop data hash = UpdateChecksum data hash"
  by (induction data arbitrary: hash) simp_all

lemma ComputeChecksum32_eq: "ComputeChecksum32 data = ComputeChecksum data"
  by (simp add: ComputeChecksum32_def ComputeChecksum_def checksum_loop_eq)

lemma UpdateChecksum_append:
  "UpdateChecksum (xs @ ys) h = UpdateChecksum ys (UpdateChecksum xs h)"
  by (induction xs arbitrary: h) simp_all

subsection \<open>A single changed byte is always seen\<close>

text \<open>\<open>899433627\<close> is the inverse of the FNV prime modulo \<open>2 ^ 32\<close>.\<close>

lemma prime_inverse: "kFnv1aPrime * 899433627 = 1"
  by (simp add: kFnv1aPrime_def)

lemma low16_mult:
  "(ucast (x * y) :: u16) = ucast (x :: u32) * ucast y"
proof -
  have low: "unat (ucast (w :: u32) :: u16) = unat w mod 2 ^ 16" for w
    by (simp add: unsigned_ucast_eq take_bit_eq_mod)
  have "unat (ucast (x * y) :: u16) = unat (ucast x * ucast y :: u16)"
    by (simp only: low unat_word_ariths) (simp add: mod_mod_cancel mod_mult_eq)
  then show ?thesis by (simp only: word_unat_eq_iff)
qed

lemma low16_xor: "(ucast (x XOR y) :: u16) = ucast (x :: u32) XOR ucast y"
  by (rule bit_word_eqI) (simp add: bit_simps)

text \<open>The low sixteen bits of the hash evolve on their own.\<close>

fun update16 :: "byte list \<Rightarrow> u16 \<Rightarrow> u16" where
  "update16 [] hash = hash"
| "update16 (b # data) hash = update16 data ((hash XOR ucast b) * ucast kFnv1aPrime)"

lemma ucast_UpdateChecksum: "ucast (UpdateChecksum data h) = update16 data (ucast h)"
proof (induction data arbitrary: h)
  case Nil
  then show ?case by simp
next
  case (Cons b data)
  have "(ucast (ucast b :: u32) :: u16) = ucast b"
    by (rule bit_word_eqI) (auto simp: bit_simps)
  with Cons show ?case by (simp add: low16_mult low16_xor)
qed

lemma step16_inj: "(a * ucast kFnv1aPrime :: u16) = b * ucast kFnv1aPrime \<Longrightarrow> a = b"
proof -
  assume eq: "a * ucast kFnv1aPrime = b * ucast kFnv1aPrime"
  have inv: "(ucast kFnv1aPrime :: u16) * ucast (899433627 :: u32) = 1"
    using prime_inverse by (metis low16_mult unsigned_1)
  from eq have "a * ucast kFnv1aPrime * ucast (899433627 :: u32) =
      b * ucast kFnv1aPrime * ucast (899433627 :: u32)" by simp
  then show "a = b" by (simp only: mult.assoc inv mult_1_right)
qed

lemma ucast_byte_inj: "(ucast (a :: byte) :: u16) = ucast b \<Longrightarrow> a = b"
proof (rule bit_word_eqI)
  fix n :: nat assume n: "n < LENGTH(8)" and eq: "(ucast a :: u16) = ucast b"
  have "bit (ucast c :: u16) n \<longleftrightarrow> bit c n" for c :: byte using n by (simp add: bit_simps)
  with eq show "bit a n \<longleftrightarrow> bit b n" by metis
qed

lemma xor_cancel: "(h :: u16) XOR a = h XOR b \<Longrightarrow> a = b" "(a :: u16) XOR h = b XOR h \<Longrightarrow> a = b"
proof -
  have "h XOR (h XOR c) = c" "(c XOR h) XOR h = c" for c :: u16
    by (simp_all add: xor.assoc flip: xor.assoc [of h h])
  then show "h XOR a = h XOR b \<Longrightarrow> a = b" "a XOR h = b XOR h \<Longrightarrow> a = b" by metis+
qed

lemma update16_inj: "update16 data h = update16 data h' \<Longrightarrow> h = h'"
proof (induction data arbitrary: h h')
  case Nil
  then show ?case by simp
next
  case (Cons b data)
  then have "(h XOR ucast b) * ucast kFnv1aPrime = (h' XOR ucast b) * ucast kFnv1aPrime"
    by simp
  then have "h XOR ucast b = h' XOR ucast b" by (rule step16_inj)
  then show ?case by (rule xor_cancel(2))
qed

lemma update16_byte:
  assumes "b \<noteq> b'"
  shows "update16 (xs @ b # ys) h \<noteq> update16 (xs @ b' # ys) h"
proof
  have app: "update16 (us @ vs) g = update16 vs (update16 us g)" for us vs g
    by (induction us arbitrary: g) simp_all
  assume "update16 (xs @ b # ys) h = update16 (xs @ b' # ys) h"
  then have "(update16 xs h XOR ucast b) * ucast kFnv1aPrime =
      (update16 xs h XOR ucast b') * ucast kFnv1aPrime"
    by (auto simp: app dest: update16_inj)
  then have "update16 xs h XOR ucast b = update16 xs h XOR ucast b'" by (rule step16_inj)
  then have "(ucast b :: u16) = ucast b'" by (rule xor_cancel(1))
  with assms ucast_byte_inj show False by blast
qed

lemma low16_checksum_byte_change:
  assumes "i < length data" and "data ! i \<noteq> b"
  shows "(ucast (ComputeChecksum32 (data[i := b])) :: u16) \<noteq> ucast (ComputeChecksum32 data)"
proof -
  have "data = take i data @ data ! i # drop (Suc i) data" using assms(1) by (rule id_take_nth_drop)
  moreover have "data[i := b] = take i data @ b # drop (Suc i) data"
    using assms(1) by (rule upd_conv_take_nth_drop)
  ultimately show ?thesis
    using assms(2) update16_byte [of b "data ! i" "take i data" "drop (Suc i) data"]
    by (metis ComputeChecksum32_eq ComputeChecksum_def ucast_UpdateChecksum)
qed

lemma checksum_byte_change:
  "i < length data \<Longrightarrow> data ! i \<noteq> b \<Longrightarrow> ComputeChecksum32 (data[i := b]) \<noteq> ComputeChecksum32 data"
  using low16_checksum_byte_change by metis

end
