(* ===== verification/Platform.thy ===== *)
theory Platform
  imports Wire_LE
begin

text \<open>
  What the sources call and do not contain: the cryptographic library (OpenSSL or mbedTLS), the
  LZ4 library, the process environment and the byte order of the host, as one record of
  parameters.  The laws a theorem needs of them are the named predicates below; each states
  documented behaviour of the library.
\<close>

record platform =
  host :: endian
  getenv :: "string \<Rightarrow> byte list option"
  sha256_digest :: "byte list \<Rightarrow> byte list option"
  hmac_sha256 :: "byte list \<Rightarrow> byte list \<Rightarrow> byte list option"
  gcm_encrypt :: "byte list \<Rightarrow> byte list \<Rightarrow> byte list \<Rightarrow> byte list \<Rightarrow> (byte list \<times> byte list) option"
  gcm_decrypt :: "byte list \<Rightarrow> byte list \<Rightarrow> byte list \<Rightarrow> byte list \<Rightarrow> byte list \<Rightarrow> byte list option"
  LZ4_compressBound :: "int \<Rightarrow> int"
  LZ4_compress_default :: "byte list \<Rightarrow> int \<Rightarrow> int \<Rightarrow> byte list"
  LZ4_decompress_safe :: "byte list \<Rightarrow> int \<Rightarrow> int \<Rightarrow> byte list option"

text \<open>
  \<open>gcm_encrypt key nonce aad plaintext\<close> gives ciphertext and tag, \<open>gcm_decrypt key nonce aad
  ciphertext tag\<close> the plaintext or \<open>None\<close> when authentication fails.
  \<open>LZ4_compress_default src srcSize dstCapacity\<close> gives the compressed block, empty where the
  library returns a size that is not positive; \<open>LZ4_decompress_safe src srcSize dstCapacity\<close> the
  decompressed bytes, \<open>None\<close> where it returns a negative size.
\<close>

definition as_int :: "nat \<Rightarrow> int" where
  \<comment> \<open>\<^verbatim>\<open>static_cast<int>\<close> of an unsigned size\<close>
  "as_int n = sint (of_nat n :: 32 word)"

definition gcm_lawful :: "platform \<Rightarrow> bool" where
  "gcm_lawful P \<longleftrightarrow> (\<forall>key nonce aad plain cipher tag.
     gcm_encrypt P key nonce aad plain = Some (cipher, tag) \<longrightarrow>
       length cipher = length plain \<and> length tag = 16 \<and>
       gcm_decrypt P key nonce aad cipher tag = Some plain)"

definition lz4_lawful :: "platform \<Rightarrow> bool" where
  "lz4_lawful P \<longleftrightarrow> (\<forall>src srcSize bound capacity block.
     LZ4_compress_default P src srcSize bound = block \<longrightarrow> block \<noteq> [] \<longrightarrow>
     srcSize = int (length src) \<longrightarrow> int (length src) \<le> capacity \<longrightarrow>
       LZ4_decompress_safe P block (int (length block)) capacity = Some src)"

definition hashes_total :: "platform \<Rightarrow> bool" where
  "hashes_total P \<longleftrightarrow>
     (\<forall>m. \<exists>d. sha256_digest P m = Some d \<and> length d = 32) \<and>
     (\<forall>k m. \<exists>d. hmac_sha256 P k m = Some d \<and> length d = 32)"

lemma as_int_small [simp]: "n < 2 ^ 31 \<Longrightarrow> as_int n = int n"
  by (simp add: as_int_def signed_of_nat signed_take_bit_int_eq_self)

lemma gcm_lawfulD:
  assumes "gcm_lawful P" and "gcm_encrypt P key nonce aad plain = Some (cipher, tag)"
  shows "length cipher = length plain" and "length tag = 16"
    and "gcm_decrypt P key nonce aad cipher tag = Some plain"
  using assms unfolding gcm_lawful_def by blast+

definition ascii :: "string \<Rightarrow> byte list" where
  "ascii s = map of_char s"

lemma length_ascii [simp]: "length (ascii s) = length s"
  by (simp add: ascii_def)

subsection \<open>A concrete platform\<close>

text \<open>
  An instance on which the laws hold, for the witnesses: a length-based digest, an identity
  cipher with a constant tag, and a run-length code for short blocks of zeros.
\<close>

definition sample_platform :: platform where
  "sample_platform =
     \<lparr>host = LittleEndian,
      getenv = (\<lambda>name. if name = ''ZNET_PSK'' then Some (ascii ''0123456789abcdef'') else None),
      sha256_digest = (\<lambda>m. Some (replicate 31 0 @ [of_nat (length m)])),
      hmac_sha256 = (\<lambda>k m. Some (replicate 31 0 @ [of_nat (length m)])),
      gcm_encrypt = (\<lambda>k n aad p. Some (p, replicate 16 0)),
      gcm_decrypt = (\<lambda>k n aad c t. Some c),
      LZ4_compressBound = (\<lambda>n. n + 16),
      LZ4_compress_default = (\<lambda>src n bound.
         if length src < 256 \<and> src = replicate (length src) 0 then [of_nat (length src)] else []),
      LZ4_decompress_safe = (\<lambda>block n capacity.
         case block of [b] \<Rightarrow> Some (replicate (unat b) 0) | _ \<Rightarrow> None)\<rparr>"

lemma sample_lawful: "gcm_lawful sample_platform" "lz4_lawful sample_platform"
    "hashes_total sample_platform"
proof -
  show "gcm_lawful sample_platform" by (simp add: gcm_lawful_def sample_platform_def)
  show "hashes_total sample_platform" by (simp add: hashes_total_def sample_platform_def)
  show "lz4_lawful sample_platform"
    by (auto simp: lz4_lawful_def sample_platform_def unat_of_nat)
qed

end
