(* ===== verification/Compression.thy ===== *)
theory Compression
  imports Platform
begin

text \<open>
  \<^verbatim>\<open>src/znet/z_compression_wrapper.h\<close>: \<^verbatim>\<open>ZCompressionContext\<close> around the LZ4 block API.
  \<open>None\<close> is the source's \<^verbatim>\<open>false\<close>.
\<close>

definition kMaxDecompressedSize :: nat where
  "kMaxDecompressedSize = 64 * 1024 * 1024"

definition Compress :: "platform \<Rightarrow> byte list \<Rightarrow> byte list option" where
  "Compress P input_data =
     (if length input_data = 0 then Some []
      else let max_compressed_size = LZ4_compressBound P (as_int (length input_data));
               compressed = LZ4_compress_default P input_data (as_int (length input_data))
                              max_compressed_size
           in if compressed = [] then None else Some compressed)"

definition Decompress :: "platform \<Rightarrow> byte list \<Rightarrow> nat \<Rightarrow> byte list option" where
  "Decompress P data original_size =
     (if original_size > kMaxDecompressedSize then None
      else if length data = 0 \<and> original_size = 0 then Some []
      else case LZ4_decompress_safe P data (as_int (length data)) (as_int original_size) of
             None \<Rightarrow> None
           | Some decompressed \<Rightarrow>
               if length decompressed \<noteq> original_size then None else Some decompressed)"

lemma Decompress_length: "Decompress P data n = Some out \<Longrightarrow> length out = n \<and> n \<le> kMaxDecompressedSize"
  by (auto simp: Decompress_def split: if_splits option.splits)

lemma Decompress_Compress:
  assumes lz4: "lz4_lawful P" and small: "length src \<le> kMaxDecompressedSize"
    and comp: "Compress P src = Some block" and block: "length block < 2 ^ 31"
  shows "Decompress P block (length src) = Some src"
proof (cases "src = []")
  case True
  with comp show ?thesis by (simp add: Compress_def Decompress_def)
next
  case False
  from small have len: "as_int (length src) = int (length src)"
    by (simp add: kMaxDecompressedSize_def)
  from comp False have "LZ4_compress_default P src (int (length src))
      (LZ4_compressBound P (int (length src))) = block" and "block \<noteq> []"
    by (auto simp: Compress_def Let_def len split: if_splits)
  then have "LZ4_decompress_safe P block (int (length block)) (int (length src)) = Some src"
    using lz4 unfolding lz4_lawful_def by blast
  with small block \<open>block \<noteq> []\<close> show ?thesis by (simp add: Decompress_def len)
qed

end
