(* ===== verification/Crypto.thy ===== *)
theory Crypto
  imports Platform
begin

text \<open>
  \<^verbatim>\<open>src/znet/z_crypto_wrapper.cc\<close> and \<^verbatim>\<open>.h\<close>: \<^verbatim>\<open>ZCryptoContext\<close>, the key exchange over a
  pre-shared key and the AES-GCM payload encryption.  Strings and keys are lists of bytes; a
  method that changes the context returns it; the outcome of \<^verbatim>\<open>RandomBytes\<close> is an argument
  (\<open>None\<close> where the generator fails).
\<close>

definition Sha256 :: "platform \<Rightarrow> byte list \<Rightarrow> byte list option" where
  "Sha256 P data =
     (case sha256_digest P data of
        None \<Rightarrow> None
      | Some hash \<Rightarrow> if length hash = 32 then Some hash else None)"

definition kHex :: "byte list" where
  "kHex = ascii ''0123456789abcdef''"

definition BytesToHex :: "byte list \<Rightarrow> byte list" where
  "BytesToHex data = concat (map (\<lambda>b.
     [kHex ! unat (drop_bit 4 b AND 0x0F), kHex ! unat (b AND 0x0F)]) data)"

definition HmacSha256 :: "platform \<Rightarrow> byte list \<Rightarrow> byte list \<Rightarrow> byte list option" where
  "HmacSha256 P key data =
     (case hmac_sha256 P key data of
        None \<Rightarrow> None
      | Some mac \<Rightarrow> if length mac = 32 then Some mac else None)"

record ZCryptoContext =
  encryption_key :: "byte list"
  authentication_key :: "byte list"
  keys_initialized :: bool
  authenticated :: bool
  local_nonce :: "byte list"
  local_challenge :: "byte list"
  server_nonce :: "byte list"
  server_challenge :: "byte list"

definition new_context :: ZCryptoContext where
  "new_context =
     \<lparr>encryption_key = replicate 32 0, authentication_key = replicate 32 0,
      keys_initialized = False, authenticated = False,
      local_nonce = [], local_challenge = [], server_nonce = [], server_challenge = []\<rparr>"

definition DeriveKeyMaterial :: "platform \<Rightarrow> byte list \<Rightarrow> ZCryptoContext \<Rightarrow> bool \<times> ZCryptoContext" where
  "DeriveKeyMaterial P secret c =
     (case Sha256 P secret of
        None \<Rightarrow> (False, c)
      | Some master_key \<Rightarrow>
          (case Sha256 P (ascii ''enc'' @ master_key) of
             None \<Rightarrow> (False, c)
           | Some ek \<Rightarrow>
               (let c1 = c\<lparr>encryption_key := ek\<rparr> in
                case Sha256 P (ascii ''auth'' @ master_key) of
                  None \<Rightarrow> (False, c1)
                | Some ak \<Rightarrow> (True, c1\<lparr>authentication_key := ak\<rparr>))))"

definition EnsureKeyMaterialReady :: "platform \<Rightarrow> ZCryptoContext \<Rightarrow> bool \<times> ZCryptoContext" where
  "EnsureKeyMaterialReady P c =
     (if keys_initialized c then (True, c)
      else case getenv P ''ZNET_PSK'' of
             None \<Rightarrow> (False, c)
           | Some secret \<Rightarrow>
               if secret = [] then (False, c)
               else if length secret < 16 then (False, c)
               else case DeriveKeyMaterial P secret c of
                      (False, c1) \<Rightarrow> (False, c1)
                    | (True, c1) \<Rightarrow> (True, c1\<lparr>keys_initialized := True\<rparr>))"

text \<open>\<^verbatim>\<open>std::string\<close>'s \<^verbatim>\<open>operator<\<close> compares the characters as unsigned bytes.\<close>

fun string_less :: "byte list \<Rightarrow> byte list \<Rightarrow> bool" where
  "string_less xs [] \<longleftrightarrow> False"
| "string_less [] (y # ys) \<longleftrightarrow> True"
| "string_less (x # xs) (y # ys) \<longleftrightarrow> x < y \<or> (x = y \<and> string_less xs ys)"

definition DeriveSessionKeys :: "platform \<Rightarrow> ZCryptoContext \<Rightarrow> bool \<times> ZCryptoContext" where
  "DeriveSessionKeys P c =
     (if local_nonce c = [] \<or> server_nonce c = [] then (False, c)
      else
        let (first_nonce, second_nonce) =
              (if string_less (local_nonce c) (server_nonce c)
               then (local_nonce c, server_nonce c) else (server_nonce c, local_nonce c));
            enc_input = encryption_key c @ first_nonce @ second_nonce @ ascii ''session-enc''
        in case Sha256 P enc_input of
             None \<Rightarrow> (False, c)
           | Some new_enc_key \<Rightarrow>
               let auth_input =
                     authentication_key c @ first_nonce @ second_nonce @ ascii ''session-auth''
               in case Sha256 P auth_input of
                    None \<Rightarrow> (False, c)
                  | Some new_auth_key \<Rightarrow>
                      (True, c\<lparr>encryption_key := new_enc_key,
                               authentication_key := new_auth_key\<rparr>))"

definition InitializeKeyExchange ::
  "platform \<Rightarrow> byte list option \<Rightarrow> byte list option \<Rightarrow> ZCryptoContext \<Rightarrow> bool \<times> ZCryptoContext" where
  "InitializeKeyExchange P rand_nonce rand_challenge c =
     (if keys_initialized c then (True, c)
      else case EnsureKeyMaterialReady P c of
             (False, c1) \<Rightarrow> (False, c1)
           | (True, c1) \<Rightarrow>
               (case rand_nonce of
                  None \<Rightarrow> (False, c1)
                | Some nonce \<Rightarrow>
                    let c2 = c1\<lparr>local_nonce := BytesToHex nonce\<rparr> in
                    (case rand_challenge of
                       None \<Rightarrow> (False, c2)
                     | Some challenge \<Rightarrow> (True, c2\<lparr>local_challenge := BytesToHex challenge\<rparr>))))"

definition GetPublicKey :: "ZCryptoContext \<Rightarrow> byte list" where
  "GetPublicKey c = local_nonce c"

definition GetChallenge :: "ZCryptoContext \<Rightarrow> byte list" where
  "GetChallenge c = local_challenge c"

definition ProcessServerKey ::
  "platform \<Rightarrow> byte list \<Rightarrow> byte list \<Rightarrow> ZCryptoContext \<Rightarrow> ZCryptoContext" where
  "ProcessServerKey P server_key challenge c =
     snd (DeriveSessionKeys P (c\<lparr>server_nonce := server_key, server_challenge := challenge\<rparr>))"

definition exchange_incomplete :: "ZCryptoContext \<Rightarrow> bool" where
  "exchange_incomplete c \<longleftrightarrow>
     server_nonce c = [] \<or> server_challenge c = [] \<or> local_nonce c = [] \<or> local_challenge c = []"

definition VerifyServerResponse ::
  "platform \<Rightarrow> byte list \<Rightarrow> ZCryptoContext \<Rightarrow> bool \<times> ZCryptoContext" where
  "VerifyServerResponse P server_proof c =
     (if exchange_incomplete c then (False, c)
      else let verify_data = local_nonce c @ server_nonce c @ local_challenge c @ server_challenge c
           in case HmacSha256 P (encryption_key c) verify_data of
                None \<Rightarrow> (False, c)
              | Some expected_proof \<Rightarrow>
                  if BytesToHex expected_proof \<noteq> server_proof then (False, c)
                  else (True, c\<lparr>authenticated := True\<rparr>))"

definition GenerateClientProof :: "platform \<Rightarrow> ZCryptoContext \<Rightarrow> byte list" where
  "GenerateClientProof P c =
     (if exchange_incomplete c then []
      else let verify_data = server_nonce c @ local_nonce c @ server_challenge c @ local_challenge c
           in case HmacSha256 P (encryption_key c) verify_data of
                None \<Rightarrow> [] | Some proof \<Rightarrow> BytesToHex proof)"

definition GenerateServerProof :: "platform \<Rightarrow> ZCryptoContext \<Rightarrow> byte list" where
  "GenerateServerProof P c =
     (if exchange_incomplete c then []
      else let verify_data = server_nonce c @ local_nonce c @ server_challenge c @ local_challenge c
           in case HmacSha256 P (encryption_key c) verify_data of
                None \<Rightarrow> [] | Some proof \<Rightarrow> BytesToHex proof)"

definition VerifyClientProof ::
  "platform \<Rightarrow> byte list \<Rightarrow> ZCryptoContext \<Rightarrow> bool \<times> ZCryptoContext" where
  "VerifyClientProof P client_proof c =
     (if server_nonce c = [] \<or> local_nonce c = [] then (False, c)
      else let verify_data = local_nonce c @ server_nonce c @ local_challenge c @ server_challenge c
           in case HmacSha256 P (encryption_key c) verify_data of
                None \<Rightarrow> (False, c)
              | Some expected_proof \<Rightarrow>
                  if BytesToHex expected_proof \<noteq> client_proof then (False, c)
                  else (True, c\<lparr>authenticated := True\<rparr>))"

definition IsAuthenticated :: "ZCryptoContext \<Rightarrow> bool" where
  "IsAuthenticated c = authenticated c"

definition kNonceSize :: nat where "kNonceSize = 12"
definition tag_size :: nat where "tag_size = 16"

definition EncryptPayload ::
  "platform \<Rightarrow> byte list option \<Rightarrow> byte list \<Rightarrow> byte list \<Rightarrow> ZCryptoContext \<Rightarrow>
   byte list option \<times> ZCryptoContext" where
  "EncryptPayload P rand plaintext aad c =
     (case EnsureKeyMaterialReady P c of
        (False, c1) \<Rightarrow> (None, c1)
      | (True, c1) \<Rightarrow>
          (case rand of
             None \<Rightarrow> (None, c1)
           | Some nonce \<Rightarrow>
               if plaintext = [] then (None, c1)
               else case gcm_encrypt P (encryption_key c1) nonce aad plaintext of
                      None \<Rightarrow> (None, c1)
                    | Some (ciphertext, tag) \<Rightarrow> (Some (nonce @ ciphertext @ tag), c1)))"

definition DecryptPayload ::
  "platform \<Rightarrow> byte list \<Rightarrow> byte list \<Rightarrow> ZCryptoContext \<Rightarrow> byte list option \<times> ZCryptoContext" where
  "DecryptPayload P encrypted_data aad c =
     (case EnsureKeyMaterialReady P c of
        (False, c1) \<Rightarrow> (None, c1)
      | (True, c1) \<Rightarrow>
          if length encrypted_data < kNonceSize + tag_size then (None, c1)
          else
            let nonce = take kNonceSize encrypted_data;
                ciphertext_size = length encrypted_data - kNonceSize - tag_size;
                ciphertext = block_at kNonceSize ciphertext_size encrypted_data;
                tag = block_at (kNonceSize + ciphertext_size) tag_size encrypted_data
            in if ciphertext_size = 0 then (None, c1)
               else (gcm_decrypt P (encryption_key c1) nonce aad ciphertext tag, c1))"

subsection \<open>Hexadecimal strings\<close>

lemma length_BytesToHex [simp]: "length (BytesToHex data) = 2 * length data"
  by (induction data) (simp_all add: BytesToHex_def)

lemma BytesToHex_empty [simp]: "BytesToHex data = [] \<longleftrightarrow> data = []"
  by (cases data) (simp_all add: BytesToHex_def)

lemma kHex_inj: "i < 16 \<Longrightarrow> j < 16 \<Longrightarrow> kHex ! i = kHex ! j \<Longrightarrow> i = j"
proof -
  assume ij: "i < 16" "j < 16" and eq: "kHex ! i = kHex ! j"
  have "distinct kHex" by (simp add: kHex_def ascii_def)
  moreover have "length kHex = 16" by (simp add: kHex_def)
  ultimately show "i = j" using ij eq by (simp add: nth_eq_iff_index_eq)
qed

lemma unat_low_nibble: "unat ((b :: byte) AND 0x0F) < 16"
proof -
  have "b AND 0x0F \<le> 0x0F" by (rule word_and_le1)
  then show ?thesis by (simp add: word_le_nat_alt)
qed

lemma nibbles_byte: "push_bit 4 (drop_bit 4 b AND 0x0F) OR (b AND 0x0F) = (b :: byte)"
proof (rule bit_word_eqI)
  fix n :: nat assume n: "n < LENGTH(8)"
  have m: "(0x0F :: byte) = mask 4" by (simp add: mask_eq_exp_minus_1)
  show "bit (push_bit 4 (drop_bit 4 b AND 0x0F) OR (b AND 0x0F)) n = bit b n"
    unfolding m using n by (cases "n < 4") (auto simp: bit_simps)
qed

lemma BytesToHex_inj: "BytesToHex xs = BytesToHex ys \<Longrightarrow> xs = ys"
proof (induction xs arbitrary: ys)
  case Nil
  then have "BytesToHex ys = []" by (simp add: BytesToHex_def)
  then show ?case by simp
next
  case (Cons x xs)
  then have "BytesToHex ys \<noteq> []" by (metis BytesToHex_empty list.discI)
  then obtain y zs where ys: "ys = y # zs" by (cases ys) auto
  from Cons.prems have hi: "kHex ! unat (drop_bit 4 x AND 0x0F) = kHex ! unat (drop_bit 4 y AND 0x0F)"
    and lo: "kHex ! unat (x AND 0x0F) = kHex ! unat (y AND 0x0F)"
    and rest: "BytesToHex xs = BytesToHex zs"
    by (simp_all add: ys BytesToHex_def)
  from hi have "drop_bit 4 x AND 0x0F = drop_bit 4 y AND 0x0F"
    using kHex_inj unat_low_nibble by (metis word_unat_eq_iff)
  moreover from lo have "x AND 0x0F = y AND 0x0F"
    using kHex_inj unat_low_nibble by (metis word_unat_eq_iff)
  ultimately have "x = y" using nibbles_byte by metis
  with Cons.IH [OF rest] show ?case by (simp add: ys)
qed

subsection \<open>Both ends derive the same session\<close>

lemma string_less_asym: "string_less xs ys \<Longrightarrow> \<not> string_less ys xs"
  by (induction xs ys rule: string_less.induct) auto

lemma string_less_total: "\<not> string_less xs ys \<Longrightarrow> \<not> string_less ys xs \<Longrightarrow> xs = ys"
proof (induction xs ys rule: string_less.induct)
  case (1 xs)
  then show ?case by (cases xs) auto
qed auto

text \<open>The order in which \<^verbatim>\<open>DeriveSessionKeys\<close> hashes the two nonces.\<close>

definition sorted_nonces :: "byte list \<Rightarrow> byte list \<Rightarrow> byte list" where
  "sorted_nonces a b = (if string_less a b then a @ b else b @ a)"

lemma sorted_nonces_commute: "sorted_nonces a b = sorted_nonces b a"
  unfolding sorted_nonces_def using string_less_asym string_less_total by fastforce

lemma Sha256_total: "hashes_total P \<Longrightarrow> \<exists>d. Sha256 P m = Some d \<and> length d = 32"
proof -
  assume "hashes_total P"
  then obtain d where "sha256_digest P m = Some d" "length d = 32"
    unfolding hashes_total_def by blast
  then show ?thesis by (simp add: Sha256_def)
qed

lemma HmacSha256_total: "hashes_total P \<Longrightarrow> \<exists>d. HmacSha256 P k m = Some d \<and> length d = 32"
proof -
  assume "hashes_total P"
  then obtain d where "hmac_sha256 P k m = Some d" "length d = 32"
    unfolding hashes_total_def by blast
  then show ?thesis by (simp add: HmacSha256_def)
qed

definition session_key :: "platform \<Rightarrow> byte list \<Rightarrow> byte list \<Rightarrow> byte list \<Rightarrow> string \<Rightarrow> byte list option" where
  "session_key P k a b label = Sha256 P (k @ sorted_nonces a b @ ascii label)"

lemma ProcessServerKey_fields [simp]:
  "local_nonce (ProcessServerKey P k ch c) = local_nonce c"
  "local_challenge (ProcessServerKey P k ch c) = local_challenge c"
  "server_nonce (ProcessServerKey P k ch c) = k"
  "server_challenge (ProcessServerKey P k ch c) = ch"
  "keys_initialized (ProcessServerKey P k ch c) = keys_initialized c"
  "authenticated (ProcessServerKey P k ch c) = authenticated c"
  by (simp_all add: ProcessServerKey_def DeriveSessionKeys_def Let_def split: option.splits if_splits)

lemma ProcessServerKey_keys:
  assumes "hashes_total P" and "local_nonce c \<noteq> []" and "k \<noteq> []"
  shows "session_key P (encryption_key c) (local_nonce c) k ''session-enc'' =
           Some (encryption_key (ProcessServerKey P k ch c))"
    and "session_key P (authentication_key c) (local_nonce c) k ''session-auth'' =
           Some (authentication_key (ProcessServerKey P k ch c))"
proof -
  from Sha256_total [OF assms(1)] obtain e a where
    "session_key P (encryption_key c) (local_nonce c) k ''session-enc'' = Some e"
    "session_key P (authentication_key c) (local_nonce c) k ''session-auth'' = Some a"
    unfolding session_key_def by blast
  then show "session_key P (encryption_key c) (local_nonce c) k ''session-enc'' =
           Some (encryption_key (ProcessServerKey P k ch c))"
    and "session_key P (authentication_key c) (local_nonce c) k ''session-auth'' =
           Some (authentication_key (ProcessServerKey P k ch c))"
    using assms(2,3)
    by (auto simp: ProcessServerKey_def DeriveSessionKeys_def session_key_def sorted_nonces_def
        split: if_splits)
qed

text \<open>Two contexts that hold the same key material, as two processes with the same PSK do.\<close>

definition same_keys :: "ZCryptoContext \<Rightarrow> ZCryptoContext \<Rightarrow> bool" where
  "same_keys c s \<longleftrightarrow> encryption_key c = encryption_key s \<and>
     authentication_key c = authentication_key s"

lemma ProcessServerKey_same_keys:
  assumes total: "hashes_total P" and same: "same_keys c s"
    and ne: "local_nonce c \<noteq> []" "local_nonce s \<noteq> []"
  shows "same_keys (ProcessServerKey P (GetPublicKey s) ch1 c) (ProcessServerKey P (GetPublicKey c) ch2 s)"
proof -
  have sym: "session_key P k a b l = session_key P k b a l" for k a b l
    by (simp add: session_key_def sorted_nonces_commute)
  show ?thesis
    using ProcessServerKey_keys [OF total ne(1) ne(2), of ch1]
      ProcessServerKey_keys [OF total ne(2) ne(1), of ch2] same
      sym [of "encryption_key s" "local_nonce s"] sym [of "authentication_key s" "local_nonce s"]
    by (simp add: same_keys_def GetPublicKey_def)
qed

lemma proofs_verify:
  assumes total: "hashes_total P" and same: "encryption_key c = encryption_key s"
    and cross: "server_nonce c = local_nonce s" "server_nonce s = local_nonce c"
      "server_challenge c = local_challenge s" "server_challenge s = local_challenge c"
    and complete: "\<not> exchange_incomplete c"
  shows "VerifyServerResponse P (GenerateServerProof P s) c = (True, c\<lparr>authenticated := True\<rparr>)"
    and "VerifyClientProof P (GenerateClientProof P c) s = (True, s\<lparr>authenticated := True\<rparr>)"
proof -
  have "\<not> exchange_incomplete s" using complete cross by (auto simp: exchange_incomplete_def)
  moreover have "server_nonce s \<noteq> []" "local_nonce s \<noteq> []"
    using complete cross by (auto simp: exchange_incomplete_def)
  moreover obtain x y where
    "HmacSha256 P (encryption_key s)
       (local_nonce c @ local_nonce s @ local_challenge c @ local_challenge s) = Some x"
    "HmacSha256 P (encryption_key s)
       (local_nonce s @ local_nonce c @ local_challenge s @ local_challenge c) = Some y"
    using HmacSha256_total [OF total] by blast
  ultimately show
    "VerifyServerResponse P (GenerateServerProof P s) c = (True, c\<lparr>authenticated := True\<rparr>)"
    "VerifyClientProof P (GenerateClientProof P c) s = (True, s\<lparr>authenticated := True\<rparr>)"
    using complete
    by (simp_all add: VerifyServerResponse_def GenerateServerProof_def VerifyClientProof_def
        GenerateClientProof_def Let_def same cross)
qed

lemma EnsureKeyMaterialReady_eq:
  assumes "hashes_total P" and "getenv P ''ZNET_PSK'' = Some secret" and "16 \<le> length secret"
  obtains ek ak where
    "EnsureKeyMaterialReady P c =
      (True, if keys_initialized c then c
             else c\<lparr>encryption_key := ek, authentication_key := ak, keys_initialized := True\<rparr>)"
    and "\<And>c'. EnsureKeyMaterialReady P c' =
      (True, if keys_initialized c' then c'
             else c'\<lparr>encryption_key := ek, authentication_key := ak, keys_initialized := True\<rparr>)"
proof -
  from Sha256_total [OF assms(1)] obtain m where m: "Sha256 P secret = Some m" by blast
  from Sha256_total [OF assms(1)] obtain ek ak where
    k: "Sha256 P (ascii ''enc'' @ m) = Some ek" "Sha256 P (ascii ''auth'' @ m) = Some ak" by blast
  have "EnsureKeyMaterialReady P c' =
      (True, if keys_initialized c' then c'
             else c'\<lparr>encryption_key := ek, authentication_key := ak, keys_initialized := True\<rparr>)" for c'
    using assms(2,3) by (auto simp: EnsureKeyMaterialReady_def DeriveKeyMaterial_def m k)
  with that show thesis by blast
qed

text \<open>Two processes that start a key exchange with the same pre-shared key hold the same keys.\<close>

lemma key_exchange_started:
  assumes total: "hashes_total P"
    and psk: "getenv P ''ZNET_PSK'' = Some secret" "16 \<le> length secret"
    and c: "InitializeKeyExchange P (Some nc) (Some chc) new_context = (okc, c)"
    and s: "InitializeKeyExchange P (Some ns) (Some chs) new_context = (oks, s)"
  shows "okc" "oks" "same_keys c s" "local_nonce c = BytesToHex nc" "local_challenge c = BytesToHex chc"
    "local_nonce s = BytesToHex ns" "local_challenge s = BytesToHex chs"
proof -
  obtain ek ak where ready: "\<And>x. EnsureKeyMaterialReady P x =
      (True, if keys_initialized x then x
             else x\<lparr>encryption_key := ek, authentication_key := ak, keys_initialized := True\<rparr>)"
    using EnsureKeyMaterialReady_eq [OF total psk] by metis
  have "okc" "local_nonce c = BytesToHex nc" "local_challenge c = BytesToHex chc"
    "encryption_key c = ek" "authentication_key c = ak"
    using c by (auto simp: InitializeKeyExchange_def new_context_def ready Let_def)
  moreover have "oks" "local_nonce s = BytesToHex ns" "local_challenge s = BytesToHex chs"
    "encryption_key s = ek" "authentication_key s = ak"
    using s by (auto simp: InitializeKeyExchange_def new_context_def ready Let_def)
  ultimately show "okc" "oks" "same_keys c s" "local_nonce c = BytesToHex nc" "local_challenge c = BytesToHex chc"
    "local_nonce s = BytesToHex ns" "local_challenge s = BytesToHex chs" by (auto simp: same_keys_def)
qed

subsection \<open>Payload encryption\<close>

lemma DecryptPayload_EncryptPayload:
  assumes gcm: "gcm_lawful P" and init: "keys_initialized s"
    and same: "encryption_key s = encryption_key c'"
    and enc: "EncryptPayload P (Some nonce) plain aad c = (Some sealed, c')"
    and nonce: "length nonce = kNonceSize"
  shows "DecryptPayload P sealed aad s = (Some plain, s)"
proof -
  from enc obtain ct tag where
    seal: "gcm_encrypt P (encryption_key c') nonce aad plain = Some (ct, tag)"
    and sealed: "sealed = nonce @ ct @ tag" and ne: "plain \<noteq> []"
    by (auto simp: EncryptPayload_def split: prod.splits bool.splits if_splits option.splits)
  from gcm_lawfulD [OF gcm seal] ne nonce same init show ?thesis
    by (simp add: DecryptPayload_def EnsureKeyMaterialReady_def sealed Let_def block_at_def
        kNonceSize_def tag_size_def)
qed

lemma EncryptPayload_length:
  assumes "gcm_lawful P" and "EncryptPayload P (Some nonce) plain aad c = (Some sealed, c')"
  shows "length sealed = length nonce + length plain + tag_size"
  using assms gcm_lawfulD [OF assms(1)]
  by (auto simp: EncryptPayload_def tag_size_def
      split: prod.splits bool.splits if_splits option.splits)

subsection \<open>Properties\<close>

text \<open>C8: two processes with the same pre-shared key that exchange their public nonces and
  challenges end up with the same session keys, and each accepts the proof the other computes:
  the handshake of \<^verbatim>\<open>ZCryptoContext\<close> completes with both ends authenticated.\<close>

theorem handshake_agreement:
  assumes total: "hashes_total P"
    and psk: "getenv P ''ZNET_PSK'' = Some secret" "16 \<le> length secret"
    and rand: "nc \<noteq> []" "chc \<noteq> []" "ns \<noteq> []" "chs \<noteq> []"
    and c: "InitializeKeyExchange P (Some nc) (Some chc) new_context = (okc, c)"
    and s: "InitializeKeyExchange P (Some ns) (Some chs) new_context = (oks, s)"
    and c': "c' = ProcessServerKey P (GetPublicKey s) (GetChallenge s) c"
    and s': "s' = ProcessServerKey P (GetPublicKey c) (GetChallenge c) s"
  shows "okc \<and> oks \<and> same_keys c' s' \<and>
    VerifyServerResponse P (GenerateServerProof P s') c' = (True, c'\<lparr>authenticated := True\<rparr>) \<and>
    VerifyClientProof P (GenerateClientProof P c') s' = (True, s'\<lparr>authenticated := True\<rparr>)"
proof -
  from key_exchange_started [OF total psk c s] rand
  have facts: "okc" "oks" "same_keys c s" "local_nonce c \<noteq> []" "local_nonce s \<noteq> []"
    "local_challenge c \<noteq> []" "local_challenge s \<noteq> []" by auto
  then have same: "same_keys c' s'"
    unfolding c' s' by (intro ProcessServerKey_same_keys total)
  have "\<not> exchange_incomplete c'"
    using facts by (simp add: c' exchange_incomplete_def GetPublicKey_def GetChallenge_def)
  with same facts proofs_verify [OF total, of c' s'] show ?thesis
    by (simp add: c' s' same_keys_def GetPublicKey_def GetChallenge_def)
qed

theorem handshake_agreement_witness:
  "let P = sample_platform;
       c = snd (InitializeKeyExchange P (Some [1]) (Some [2]) new_context);
       s = snd (InitializeKeyExchange P (Some [3]) (Some [4]) new_context);
       c' = ProcessServerKey P (GetPublicKey s) (GetChallenge s) c;
       s' = ProcessServerKey P (GetPublicKey c) (GetChallenge c) s
   in same_keys c' s' \<and>
      VerifyServerResponse P (GenerateServerProof P s') c' = (True, c'\<lparr>authenticated := True\<rparr>)"
proof -
  let ?P = sample_platform
  let ?c = "snd (InitializeKeyExchange ?P (Some [1]) (Some [2]) new_context)"
  let ?s = "snd (InitializeKeyExchange ?P (Some [3]) (Some [4]) new_context)"
  have psk: "getenv ?P ''ZNET_PSK'' = Some (ascii ''0123456789abcdef'')"
    by (simp add: sample_platform_def)
  show ?thesis
    using handshake_agreement [OF sample_lawful(3) psk, of "[1]" "[2]" "[3]" "[4]"
        "fst (InitializeKeyExchange ?P (Some [1]) (Some [2]) new_context)" ?c
        "fst (InitializeKeyExchange ?P (Some [3]) (Some [4]) new_context)" ?s]
    by (simp add: Let_def)
qed

text \<open>An attacker who reflects the client's own proof back to it is not taken for the server:
  where the two nonces have the same length and differ, accepting the reflected proof would be a
  collision of HMAC-SHA-256 on two different messages.\<close>

theorem reflected_proof_needs_collision:
  assumes len: "length (local_nonce c) = length (server_nonce c)"
    and diff: "local_nonce c \<noteq> server_nonce c"
    and complete: "\<not> exchange_incomplete c"
    and proof_made: "GenerateClientProof P c \<noteq> []"
    and accepted: "VerifyServerResponse P (GenerateClientProof P c) c = (True, c')"
  shows "\<exists>m m' mac. m \<noteq> m' \<and> HmacSha256 P (encryption_key c) m = Some mac \<and>
    HmacSha256 P (encryption_key c) m' = Some mac"
proof -
  let ?m = "local_nonce c @ server_nonce c @ local_challenge c @ server_challenge c"
  let ?m' = "server_nonce c @ local_nonce c @ server_challenge c @ local_challenge c"
  from accepted complete obtain e where
    e: "HmacSha256 P (encryption_key c) ?m = Some e" "BytesToHex e = GenerateClientProof P c"
    by (auto simp: VerifyServerResponse_def Let_def split: option.splits if_splits)
  from proof_made complete obtain d where
    d: "HmacSha256 P (encryption_key c) ?m' = Some d" "GenerateClientProof P c = BytesToHex d"
    by (auto simp: GenerateClientProof_def Let_def split: option.splits)
  from e(2) d(2) have "e = d" by (simp add: BytesToHex_inj)
  moreover have "?m \<noteq> ?m'" using len diff by (simp add: append_eq_append_conv)
  ultimately show ?thesis using e(1) d(1) by blast
qed

theorem reflected_proof_needs_collision_witness:
  "let c = new_context\<lparr>local_nonce := [1], server_nonce := [2], local_challenge := [3],
             server_challenge := [4]\<rparr>
   in \<exists>m m' mac. m \<noteq> m' \<and> HmacSha256 sample_platform (encryption_key c) m = Some mac \<and>
        HmacSha256 sample_platform (encryption_key c) m' = Some mac"
proof -
  let ?c = "new_context\<lparr>local_nonce := [1], server_nonce := [2], local_challenge := [3],
             server_challenge := [4]\<rparr>"
  have "\<not> exchange_incomplete ?c" by (simp add: exchange_incomplete_def)
  moreover have "GenerateClientProof sample_platform ?c \<noteq> []"
    "VerifyServerResponse sample_platform (GenerateClientProof sample_platform ?c) ?c =
       (True, ?c\<lparr>authenticated := True\<rparr>)"
    by (simp_all add: GenerateClientProof_def VerifyServerResponse_def exchange_incomplete_def
        HmacSha256_def sample_platform_def)
  ultimately show ?thesis
    using reflected_proof_needs_collision [of ?c sample_platform] by (simp add: Let_def)
qed

text \<open>The server derives each session from the keys of the session before it
  (\<^verbatim>\<open>DeriveSessionKeys\<close> hashes the current key, and one context serves all peers), while a client
  starts from the pre-shared key.  A second client and the server therefore agree on a session
  key only where SHA-256 collides or has a fixed point: the second handshake fails.\<close>

theorem second_client_needs_collision:
  assumes total: "hashes_total P"
    and psk: "same_keys b s"
    and ne: "local_nonce s \<noteq> []" "local_nonce b \<noteq> []" "a \<noteq> []"
    and s1: "s1 = ProcessServerKey P a cha s"
    and s2: "s2 = ProcessServerKey P (GetPublicKey b) (GetChallenge b) s1"
    and b': "b' = ProcessServerKey P (GetPublicKey s1) (GetChallenge s1) b"
    and agree: "encryption_key s2 = encryption_key b'"
  shows "(\<exists>m m' d. m \<noteq> m' \<and> Sha256 P m = Some d \<and> Sha256 P m' = Some d) \<or>
    (\<exists>m. Sha256 P (encryption_key s @ m) = Some (encryption_key s))"
proof -
  let ?x = "sorted_nonces (local_nonce s) (local_nonce b) @ ascii ''session-enc''"
  have k1: "Sha256 P (encryption_key s @ sorted_nonces (local_nonce s) a @ ascii ''session-enc'') =
      Some (encryption_key s1)"
    using ProcessServerKey_keys(1) [OF total ne(1,3), of cha] by (simp add: session_key_def s1)
  have "Sha256 P (encryption_key s1 @ ?x) = Some (encryption_key s2)"
    using ProcessServerKey_keys(1) [OF total, of s1 "local_nonce b" "GetChallenge b"] ne
    by (simp add: session_key_def s2 s1 GetPublicKey_def)
  moreover have "Sha256 P (encryption_key s @ ?x) = Some (encryption_key b')"
    using ProcessServerKey_keys(1) [OF total, of b "local_nonce s" "GetChallenge s1"] ne psk
    by (simp add: session_key_def b' s1 GetPublicKey_def same_keys_def
        sorted_nonces_commute [of "local_nonce b"])
  ultimately have same: "Sha256 P (encryption_key s1 @ ?x) = Sha256 P (encryption_key s @ ?x)"
    and some: "Sha256 P (encryption_key s @ ?x) = Some (encryption_key b')"
    using agree by simp_all
  show ?thesis
  proof (cases "encryption_key s1 = encryption_key s")
    case True
    with k1 show ?thesis by auto
  next
    case False
    then have "encryption_key s1 @ ?x \<noteq> encryption_key s @ ?x" by simp
    with same some show ?thesis by metis
  qed
qed

theorem second_client_needs_collision_witness:
  "(\<exists>m m' d. m \<noteq> m' \<and> Sha256 sample_platform m = Some d \<and> Sha256 sample_platform m' = Some d) \<or>
    (\<exists>m. Sha256 sample_platform (encryption_key new_context @ m) = Some (encryption_key new_context))"
proof -
  let ?P = sample_platform
  let ?s = "new_context\<lparr>local_nonce := [1]\<rparr>" and ?b = "new_context\<lparr>local_nonce := [2]\<rparr>"
  let ?s1 = "ProcessServerKey ?P [3] [] ?s"
  have "same_keys ?b ?s" by (simp add: same_keys_def)
  moreover have "encryption_key (ProcessServerKey ?P (GetPublicKey ?b) (GetChallenge ?b) ?s1) =
      encryption_key (ProcessServerKey ?P (GetPublicKey ?s1) (GetChallenge ?s1) ?b)"
    by (simp add: ProcessServerKey_def DeriveSessionKeys_def Sha256_def sample_platform_def
        GetPublicKey_def GetChallenge_def new_context_def)
  ultimately show ?thesis
    using second_client_needs_collision [OF sample_lawful(3), of ?b ?s "[3]" ?s1 "[]"] by simp
qed

end
