(* ===== verification/Packet_Serdes.thy ===== *)
theory Packet_Serdes
  imports Packets Checksum Compression Crypto
begin

text \<open>
  \<^verbatim>\<open>src/znet/z_packet_serdes.cc\<close> and \<^verbatim>\<open>.h\<close>: \<^verbatim>\<open>PacketBuilder\<close> and \<^verbatim>\<open>PacketUnpacker\<close>.  A buffer is
  a list of bytes, an empty list is the builder's failure, \<open>None\<close> the unpacker's.  The clock and
  the random nonce of a call are arguments; the cryptographic context, which the calls may
  initialise, is passed through.
\<close>

definition kTimeshift :: u32 where "kTimeshift = 1701290985"

definition kHeaderMagicOffset :: nat where "kHeaderMagicOffset = 0"
definition kHeaderChecksumOffset :: nat where "kHeaderChecksumOffset = 2"
definition kHeaderTotalSizeOffset :: nat where "kHeaderTotalSizeOffset = 4"
definition kHeaderVersionOffset :: nat where "kHeaderVersionOffset = 8"
definition kHeaderFlagsOffset :: nat where "kHeaderFlagsOffset = 9"
definition kHeaderTypeOffset :: nat where "kHeaderTypeOffset = 10"
definition kHeaderAlignmentOffset :: nat where "kHeaderAlignmentOffset = 12"
definition kHeaderPaddingOffset :: nat where "kHeaderPaddingOffset = 14"
definition kHeaderChannelOffset :: nat where "kHeaderChannelOffset = 15"
definition kHeaderTimestampOffset :: nat where "kHeaderTimestampOffset = 16"
definition kReliableSequenceOffset :: nat where "kReliableSequenceOffset = 0"
definition kReliableAcknowledgementOffset :: nat where "kReliableAcknowledgementOffset = 4"
definition kCompressedSizeOffset :: nat where "kCompressedSizeOffset = 0"
definition kCompressedOriginalSizeOffset :: nat where "kCompressedOriginalSizeOffset = 4"
definition kCompressedChecksumOffset :: nat where "kCompressedChecksumOffset = 8"
definition kCompressedFlagsOffset :: nat where "kCompressedFlagsOffset = 12"
definition kUncompressedChecksumOffset :: nat where "kUncompressedChecksumOffset = 0"

lemmas wire_offsets =
  kHeaderMagicOffset_def kHeaderChecksumOffset_def kHeaderTotalSizeOffset_def
  kHeaderVersionOffset_def kHeaderFlagsOffset_def kHeaderTypeOffset_def
  kHeaderAlignmentOffset_def kHeaderPaddingOffset_def kHeaderChannelOffset_def
  kHeaderTimestampOffset_def kReliableSequenceOffset_def kReliableAcknowledgementOffset_def
  kCompressedSizeOffset_def kCompressedOriginalSizeOffset_def kCompressedChecksumOffset_def
  kCompressedFlagsOffset_def kUncompressedChecksumOffset_def
  kPacketHeaderWireSize_def kReliableHeaderWireSize_def kUncompressedHeaderWireSize_def
  kCompressedHeaderWireSize_def

definition PackHeaderFlags :: "bool \<Rightarrow> bool \<Rightarrow> bool \<Rightarrow> PacketPriority \<Rightarrow> u8" where
  "PackHeaderFlags rel enc cmp prio =
     (if rel then 1 else 0) OR
     push_bit 1 (if enc then 1 else 0) OR
     push_bit 2 (if cmp then 1 else 0) OR
     push_bit 4 (priority_code prio AND 0x3)"

definition UnpackHeaderFlags :: "u8 \<Rightarrow> header_flags" where
  "UnpackHeaderFlags b =
     \<lparr>is_reliable = (b AND 0x1) \<noteq> 0, is_encrypted = (drop_bit 1 b AND 0x1) \<noteq> 0,
      is_compressed = (drop_bit 2 b AND 0x1) \<noteq> 0, is_fragmented = (drop_bit 3 b AND 0x1) \<noteq> 0,
      h_priority = drop_bit 4 b AND 0x3, h_reserved = drop_bit 6 b AND 0x3\<rparr>"

definition ComputePacketHeaderChecksum :: "platform \<Rightarrow> byte list \<Rightarrow> u16" where
  "ComputePacketHeaderChecksum P header_wire =
     (let header_copy = take kPacketHeaderWireSize header_wire;
          header_copy = StoreU16 (host P) kHeaderChecksumOffset 0 header_copy
      in ucast (ComputeChecksum32 header_copy AND 0xFFFF))"

subsection \<open>PacketBuilder\<close>

text \<open>The additional authenticated data both ends compute over type, channel, flags and numbers.\<close>

definition packet_aad :: "platform \<Rightarrow> u16 \<Rightarrow> u8 \<Rightarrow> u8 \<Rightarrow> u32 \<Rightarrow> u32 \<Rightarrow> byte list" where
  "packet_aad P type channel flags sequence acknowledgement =
     (let aad = replicate 12 0;
          aad = StoreU16 (host P) 0 type aad;
          aad = aad[2 := channel];
          aad = aad[3 := flags];
          aad = StoreU32 (host P) 4 sequence aad
      in StoreU32 (host P) 8 acknowledgement aad)"

definition acknowledgement_of :: "OutgoingPacket \<Rightarrow> u32" where
  "acknowledgement_of packet =
     (if op_type packet = PacketType_Acknowledgement then ucast (payload_bits (op_payload packet)) else 0)"

definition EncryptPayloadIfNeeded ::
  "platform \<Rightarrow> byte list option \<Rightarrow> ZCryptoContext option \<Rightarrow> OutgoingPacket \<Rightarrow> u32 \<Rightarrow> byte list \<Rightarrow>
   byte list option \<times> ZCryptoContext option" where
  "EncryptPayloadIfNeeded P rand crypto packet seq payload =
     (if \<not> encrypted (op_flags packet) then (Some payload, crypto)
      else case crypto of
        None \<Rightarrow> (None, crypto)
      | Some ctx \<Rightarrow>
          let flags = (if reliable (op_flags packet) then 1 else 0) OR
                      (if encrypted (op_flags packet) then push_bit 1 1 else 0) OR
                      (if compressed (op_flags packet) then push_bit 2 1 else 0) OR
                      push_bit 4 (priority_code (priority (op_flags packet)) AND 0x3);
              sequence = (if reliable (op_flags packet) then seq else 0);
              acknowledgement = (if reliable (op_flags packet) then acknowledgement_of packet else 0);
              aad = packet_aad P (op_type packet) (channel_code (op_channel packet)) flags
                      sequence acknowledgement
          in case EncryptPayload P rand payload aad ctx of (result, ctx') \<Rightarrow> (result, Some ctx'))"

definition FillPacketHeader ::
  "platform \<Rightarrow> u64 \<Rightarrow> byte list \<Rightarrow> OutgoingPacket \<Rightarrow> u32 \<Rightarrow> u32 \<Rightarrow> u32 \<Rightarrow> byte list" where
  "FillPacketHeader P now outgoing_data packet payload_size original_payload_size seq =
     (let h = host P; fl = op_flags packet;
          d = StoreU16 h kHeaderMagicOffset kMagic outgoing_data;
          d = StoreU16 h kHeaderChecksumOffset 0 d;
          d = StoreU32 h kHeaderTotalSizeOffset (of_nat (length outgoing_data)) d;
          d = d[kHeaderVersionOffset := kProtocolVersion];
          d = d[kHeaderFlagsOffset :=
                 PackHeaderFlags (reliable fl) (encrypted fl) (compressed fl) (priority fl)];
          d = StoreU16 h kHeaderTypeOffset (op_type packet) d;
          d = StoreU16 h kHeaderAlignmentOffset 0 d;
          d = d[kHeaderPaddingOffset := 0];
          d = d[kHeaderChannelOffset := channel_code (op_channel packet)];
          d = StoreU32 h kHeaderTimestampOffset (ucast (now - ucast kTimeshift)) d;
          p = kPacketHeaderWireSize;
          (d, p) =
            (if reliable fl then
               (StoreU32 h (p + kReliableAcknowledgementOffset) (acknowledgement_of packet)
                  (StoreU32 h (p + kReliableSequenceOffset) seq d),
                p + kReliableHeaderWireSize)
             else (d, p))
      in if compressed fl then
           (let d = StoreU32 h (p + kCompressedSizeOffset) payload_size d;
                d = StoreU32 h (p + kCompressedOriginalSizeOffset) original_payload_size d;
                d = StoreU32 h (p + kCompressedChecksumOffset) 0 d;
                d = d[p + kCompressedFlagsOffset := 1];
                d = d[p + kCompressedFlagsOffset + 1 := 0];
                d = d[p + kCompressedFlagsOffset + 2 := 0]
            in d[p + kCompressedFlagsOffset + 3 := 0])
         else StoreU32 h (p + kUncompressedChecksumOffset) 0 d)"

text \<open>The payload bytes the packet points at: \<open>None\<close> for a null pointer with a non-zero size.\<close>

definition payload_source :: "OutgoingPacket \<Rightarrow> byte list option" where
  "payload_source packet =
     (if heap_data_size packet > 0 then
        (case op_payload packet of
           HeapBlock addr bytes \<Rightarrow>
             if addr = 0 then None else Some (take (unat (heap_data_size packet)) bytes)
         | Scalar _ \<Rightarrow> None)
      else Some [])"

definition compress_stage :: "platform \<Rightarrow> OutgoingPacket \<Rightarrow> byte list \<Rightarrow> OutgoingPacket \<times> byte list" where
  "compress_stage P packet payload =
     (if compressed (op_flags packet) \<and> length payload > 0 then
        (let uncompressed = packet\<lparr>op_flags := (op_flags packet)\<lparr>compressed := False\<rparr>\<rparr> in
         case Compress P payload of
           None \<Rightarrow> (uncompressed, payload)
         | Some compressed_payload \<Rightarrow>
             if length compressed_payload \<ge> length payload then (uncompressed, payload)
             else (packet, compressed_payload))
      else (packet, payload))"

definition size_of_headers :: "OutgoingPacket \<Rightarrow> u32" where
  "size_of_headers packet =
     of_nat kPacketHeaderWireSize +
     (if reliable (op_flags packet) then of_nat kReliableHeaderWireSize else 0) +
     (if compressed (op_flags packet) then of_nat kCompressedHeaderWireSize
      else of_nat kUncompressedHeaderWireSize)"

definition write_checksums :: "platform \<Rightarrow> OutgoingPacket \<Rightarrow> byte list \<Rightarrow> byte list" where
  "write_checksums P packet bytes =
     (if length bytes < kPacketHeaderWireSize then []
      else
        let offset = kPacketHeaderWireSize +
                     (if reliable (op_flags packet) then kReliableHeaderWireSize else 0);
            header_size = (if compressed (op_flags packet) then kCompressedHeaderWireSize
                           else kUncompressedHeaderWireSize);
            checksum_offset = (if compressed (op_flags packet) then kCompressedChecksumOffset
                               else kUncompressedChecksumOffset)
        in if offset + header_size > length bytes then []
           else
             let payload_offset = offset + header_size;
                 payload_checksum = ComputeChecksum32 (drop payload_offset bytes);
                 bytes = StoreU32 (host P) (offset + checksum_offset) payload_checksum bytes;
                 header_checksum = ComputePacketHeaderChecksum P bytes;
                 bytes = StoreU16 (host P) kHeaderChecksumOffset header_checksum bytes
             in if unat (LoadU32 (host P) bytes kHeaderTotalSizeOffset) \<noteq> length bytes then []
                else bytes)"

definition BuildPacket ::
  "platform \<Rightarrow> u64 \<Rightarrow> byte list option \<Rightarrow> ZCryptoContext option \<Rightarrow> OutgoingPacket \<Rightarrow> u32 \<Rightarrow>
   byte list \<times> OutgoingPacket \<times> ZCryptoContext option" where
  "BuildPacket P now rand crypto packet seq =
     (case payload_source packet of
        None \<Rightarrow> ([], packet, crypto)
      | Some source \<Rightarrow>
          let original_payload_size = of_nat (length source) in
          case compress_stage P packet source of (packet, payload) \<Rightarrow>
          case (if encrypted (op_flags packet)
                then EncryptPayloadIfNeeded P rand crypto packet seq payload
                else (Some payload, crypto)) of
            (None, crypto) \<Rightarrow> ([], packet, crypto)
          | (Some payload, crypto) \<Rightarrow>
              if encrypted (op_flags packet) \<and> length payload > 0xFFFFFFFF then ([], packet, crypto)
              else
                let payload_size = of_nat (length payload) in
                if size_of_headers packet > 0xFFFFFFFF - payload_size then ([], packet, crypto)
                else
                  let bytes = replicate (unat (size_of_headers packet + payload_size)) 0;
                      bytes = FillPacketHeader P now bytes packet payload_size
                                original_payload_size seq;
                      bytes = memcpy_at (unat (size_of_headers packet)) payload bytes
                  in (write_checksums P packet bytes, packet, crypto))"

subsection \<open>PacketUnpacker\<close>

definition ValidatePacketHeader :: "PacketHeader \<Rightarrow> nat \<Rightarrow> bool" where
  "ValidatePacketHeader header sz =
     (if sz < kPacketHeaderWireSize then False
      else if magic header \<noteq> kMagic then False
      else if version header \<noteq> kProtocolVersion then False
      else if unat (total_packet_data_size header) \<noteq> sz then False
      else if h_reserved (h_flags header) \<noteq> 0 \<or> is_fragmented (h_flags header) then False
      else if channel_id header > channel_code Data then False
      else if h_priority (h_flags header) > priority_code Critical then False
      else h_type header \<noteq> PacketType_Invalid)"

definition DecryptPayloadIfNeeded ::
  "platform \<Rightarrow> ZCryptoContext option \<Rightarrow> byte list \<Rightarrow> u32 \<Rightarrow> u32 \<Rightarrow> PacketHeader \<Rightarrow>
   byte list option \<times> ZCryptoContext option" where
  "DecryptPayloadIfNeeded P crypto payload sequence acknowledgement header =
     (if \<not> is_encrypted (h_flags header) then (Some payload, crypto)
      else case crypto of
        None \<Rightarrow> (None, crypto)
      | Some ctx \<Rightarrow>
          let flags = (if is_reliable (h_flags header) then 1 else 0) OR
                      (if is_encrypted (h_flags header) then push_bit 1 1 else 0) OR
                      (if is_compressed (h_flags header) then push_bit 2 1 else 0) OR
                      push_bit 4 (h_priority (h_flags header) AND 0x3);
              aad = packet_aad P (h_type header) (channel_id header) flags sequence acknowledgement
          in case DecryptPayload P payload aad ctx of (result, ctx') \<Rightarrow> (result, Some ctx'))"

definition read_header :: "platform \<Rightarrow> byte list \<Rightarrow> PacketHeader" where
  "read_header P in_buffer =
     \<lparr>magic = LoadU16 (host P) in_buffer kHeaderMagicOffset,
      header_checksum = LoadU16 (host P) in_buffer kHeaderChecksumOffset,
      total_packet_data_size = LoadU32 (host P) in_buffer kHeaderTotalSizeOffset,
      version = in_buffer ! kHeaderVersionOffset,
      h_flags = UnpackHeaderFlags (in_buffer ! kHeaderFlagsOffset),
      h_type = LoadU16 (host P) in_buffer kHeaderTypeOffset,
      alignment = LoadU16 (host P) in_buffer kHeaderAlignmentOffset,
      padding_number = in_buffer ! kHeaderPaddingOffset,
      channel_id = in_buffer ! kHeaderChannelOffset,
      timestamp = LoadU32 (host P) in_buffer kHeaderTimestampOffset\<rparr>"

text \<open>
  The reliable header: the sequence and acknowledgement numbers and the offset after it;
  \<open>None\<close> where it is truncated.
\<close>

definition read_reliable_header ::
  "platform \<Rightarrow> header_flags \<Rightarrow> byte list \<Rightarrow> nat \<Rightarrow> (u32 \<times> u32 \<times> nat) option" where
  "read_reliable_header P fl in_buffer offset =
     (if is_reliable fl then
        if offset + kReliableHeaderWireSize > length in_buffer then None
        else Some (LoadU32 (host P) in_buffer (offset + kReliableSequenceOffset),
                   LoadU32 (host P) in_buffer (offset + kReliableAcknowledgementOffset),
                   offset + kReliableHeaderWireSize)
      else Some (0, 0, offset))"

text \<open>The payload header: compressed size, original size, expected checksum, offset after it.\<close>

definition read_payload_header ::
  "platform \<Rightarrow> header_flags \<Rightarrow> byte list \<Rightarrow> nat \<Rightarrow> (u32 \<times> u32 \<times> u32 \<times> nat) option" where
  "read_payload_header P fl in_buffer offset =
     (if is_compressed fl then
        if offset + kCompressedHeaderWireSize > length in_buffer then None
        else if in_buffer ! (offset + kCompressedFlagsOffset) AND NOT 0x1 \<noteq> 0 then None
        else Some (LoadU32 (host P) in_buffer (offset + kCompressedSizeOffset),
                   LoadU32 (host P) in_buffer (offset + kCompressedOriginalSizeOffset),
                   LoadU32 (host P) in_buffer (offset + kCompressedChecksumOffset),
                   offset + kCompressedHeaderWireSize)
      else
        if offset + kUncompressedHeaderWireSize > length in_buffer then None
        else Some (0, 0, LoadU32 (host P) in_buffer (offset + kUncompressedChecksumOffset),
                   offset + kUncompressedHeaderWireSize))"

text \<open>Everything up to the payload checksum: the wire payload, or \<open>None\<close>.\<close>

definition check_packet ::
  "platform \<Rightarrow> byte list \<Rightarrow> (PacketHeader \<times> u32 \<times> u32 \<times> u32 \<times> byte list) option" where
  "check_packet P in_buffer =
     (if length in_buffer < kPacketHeaderWireSize then None
      else
        let header = read_header P in_buffer in
        if \<not> ValidatePacketHeader header (length in_buffer) then None
        else if header_checksum header \<noteq> ComputePacketHeaderChecksum P in_buffer then None
        else if IsSystemMessage (h_type header) \<and> channel_id header \<noteq> channel_code Control then None
        else if \<not> IsSystemMessage (h_type header) \<and> channel_id header \<noteq> channel_code Data then None
        else
          case read_reliable_header P (h_flags header) in_buffer kPacketHeaderWireSize of
            None \<Rightarrow> None
          | Some (seq, ack, offset) \<Rightarrow>
              case read_payload_header P (h_flags header) in_buffer offset of
                None \<Rightarrow> None
              | Some (compressed_size, original_size, expected, offset) \<Rightarrow>
                  if offset > length in_buffer then None
                  else
                    let payload_size = length in_buffer - offset in
                    if is_compressed (h_flags header) \<and> unat compressed_size \<noteq> payload_size then None
                    else if ComputeChecksum32 (drop offset in_buffer) \<noteq> expected then None
                    else Some (header, seq, ack, original_size, drop offset in_buffer))"

definition UnpackPacket ::
  "platform \<Rightarrow> ZCryptoContext option \<Rightarrow> byte list \<Rightarrow> IncomingPacket option \<times> ZCryptoContext option" where
  "UnpackPacket P crypto in_buffer =
     (case check_packet P in_buffer of
        None \<Rightarrow> (None, crypto)
      | Some (header, seq, ack, original_size, payload_data) \<Rightarrow>
          let fl = h_flags header in
          case (if is_encrypted fl then DecryptPayloadIfNeeded P crypto payload_data seq ack header
                else (Some payload_data, crypto)) of
            (None, crypto) \<Rightarrow> (None, crypto)
          | (Some payload_data, crypto) \<Rightarrow>
              case (if is_compressed fl then Decompress P payload_data (unat original_size)
                    else Some payload_data) of
                None \<Rightarrow> (None, crypto)
              | Some payload_data \<Rightarrow>
                  (Some \<lparr>ip_channel = (if channel_id header = channel_code Control then Control else Data),
                         ip_flags = \<lparr>reliable = is_reliable fl, encrypted = is_encrypted fl,
                                     compressed = is_compressed fl,
                                     priority = priority_of_bits (h_priority fl),
                                     acknowledged = False, awaiting_ack = False, reserved = False\<rparr>,
                         ip_type = h_type header, source_peer_id = 0,
                         acknowledgement_number = ack, sequence_number = seq,
                         ip_data = payload_data\<rparr>, crypto))"

subsection \<open>The wire image of a built packet\<close>

definition wire_header :: "u16 \<Rightarrow> u32 \<Rightarrow> PackageFlags \<Rightarrow> u16 \<Rightarrow> PacketChannelType \<Rightarrow> u32 \<Rightarrow> byte list" where
  "wire_header checksum len fl type channel time =
     word_bytes kMagic @ word_bytes checksum @ word_bytes len @
     kProtocolVersion # PackHeaderFlags (reliable fl) (encrypted fl) (compressed fl) (priority fl) #
     word_bytes type @ word_bytes (0 :: u16) @ 0 # channel_code channel # word_bytes time"

definition wire_reliable :: "PackageFlags \<Rightarrow> u32 \<Rightarrow> u32 \<Rightarrow> byte list" where
  "wire_reliable fl seq ack = (if reliable fl then word_bytes seq @ word_bytes ack else [])"

definition wire_payload_header :: "PackageFlags \<Rightarrow> u32 \<Rightarrow> u32 \<Rightarrow> u32 \<Rightarrow> byte list" where
  "wire_payload_header fl size' original checksum =
     (if compressed fl
      then word_bytes size' @ word_bytes original @ word_bytes checksum @ [1, 0, 0, 0]
      else word_bytes checksum)"

lemma length_wire_header [simp]: "length (wire_header cs n fl t c ts) = 20"
  by (simp add: wire_header_def)

lemma length_wire_reliable [simp]: "length (wire_reliable fl s a) = (if reliable fl then 8 else 0)"
  by (simp add: wire_reliable_def)

lemma length_wire_payload_header [simp]:
  "length (wire_payload_header fl s n c) = (if compressed fl then 16 else 4)"
  by (simp add: wire_payload_header_def)

lemma unat_size_of_headers:
  "unat (size_of_headers packet) =
     20 + (if reliable (op_flags packet) then 8 else 0) + (if compressed (op_flags packet) then 16 else 4)"
  by (simp add: size_of_headers_def wire_offsets)

lemma zero_buffer_split:
  assumes "n = unat (size_of_headers packet)"
  shows "replicate (n + m) (0 :: byte) =
     replicate 2 0 @ replicate 2 0 @ replicate 4 0 @ 0 # 0 # replicate 2 0 @ replicate 2 0 @
     0 # 0 # replicate 4 0 @
     (if reliable (op_flags packet) then replicate 4 0 @ replicate 4 0 else []) @
     (if compressed (op_flags packet)
      then replicate 4 0 @ replicate 4 0 @ replicate 4 0 @ [0, 0, 0, 0] else replicate 4 0) @
     replicate m 0"
  by (simp add: assms unat_size_of_headers numeral_eq_Suc)

lemma FillPacketHeader_image:
  assumes "n = unat (size_of_headers packet)" and "len = of_nat (n + m)"
  shows "FillPacketHeader P now (replicate (n + m) 0) packet s orig seq =
    wire_header 0 len (op_flags packet) (op_type packet) (op_channel packet)
        (ucast (now - ucast kTimeshift)) @
      wire_reliable (op_flags packet) seq (acknowledgement_of packet) @
      wire_payload_header (op_flags packet) s orig 0 @ replicate m 0"
proof -
  have len: "len = of_nat (length (replicate (n + m) (0 :: byte)))" using assms(2) by simp
  show ?thesis
    unfolding FillPacketHeader_def Let_def Store_eq wire_offsets len [symmetric]
    unfolding zero_buffer_split [OF assms(1)]
    by (cases "reliable (op_flags packet)"; cases "compressed (op_flags packet)")
      (simp_all add: layout_simps wire_header_def wire_reliable_def wire_payload_header_def)
qed

definition wire_packet ::
  "u32 \<Rightarrow> PackageFlags \<Rightarrow> u16 \<Rightarrow> PacketChannelType \<Rightarrow> u32 \<Rightarrow> u32 \<Rightarrow> u32 \<Rightarrow> u32 \<Rightarrow> byte list \<Rightarrow> byte list" where
  "wire_packet len fl type channel time seq ack orig payload =
     wire_header (ucast (ComputeChecksum32 (wire_header 0 len fl type channel time)))
         len fl type channel time @
       wire_reliable fl seq ack @
       wire_payload_header fl (of_nat (length payload)) orig (ComputeChecksum32 payload) @ payload"

lemma length_wire_packet [simp]:
  "length (wire_packet len fl type channel time seq ack orig payload) =
     20 + (if reliable fl then 8 else 0) + (if compressed fl then 16 else 4) + length payload"
  by (simp add: wire_packet_def)

lemma low_half: "(ucast ((x :: u32) AND 0xFFFF) :: u16) = ucast x"
proof (rule bit_word_eqI)
  have m: "(0xFFFF :: u32) = mask 16" by (simp add: mask_eq_exp_minus_1)
  fix n :: nat assume "n < LENGTH(16)"
  then show "bit (ucast (x AND 0xFFFF) :: u16) n = bit (ucast x :: u16) n"
    unfolding m by (auto simp: bit_simps)
qed

lemma header_checksum_image:
  "ComputePacketHeaderChecksum P (wire_header cs len fl type channel time @ rest) =
     ucast (ComputeChecksum32 (wire_header 0 len fl type channel time))"
  by (simp add: ComputePacketHeaderChecksum_def Let_def low_half Store_eq wire_offsets)
    (simp add: wire_header_def layout_simps)

lemma write_checksums_image:
  assumes len: "unat len = unat (size_of_headers packet) + length payload"
    and fl: "fl = op_flags packet"
  shows "write_checksums P packet
      (wire_header 0 len fl type channel time @ wire_reliable fl seq ack @
       wire_payload_header fl (of_nat (length payload)) orig 0 @ payload) =
    wire_packet len fl type channel time seq ack orig payload"
proof -
  let ?off = "20 + (if reliable fl then 8 else 0) :: nat"
  let ?ph = "wire_payload_header fl (of_nat (length payload)) orig"
  let ?h = "\<lambda>cs. wire_header cs len fl type channel time"
  have drop: "drop (?off + (if compressed fl then 16 else 4))
      (?h 0 @ wire_reliable fl seq ack @ ?ph 0 @ payload) = payload"
    by simp
  have store: "StoreU32 (host P) (?off + (if compressed fl then 8 else 0)) cks
      (?h 0 @ wire_reliable fl seq ack @ ?ph 0 @ payload) =
      ?h 0 @ wire_reliable fl seq ack @ ?ph cks @ payload" for cks
    by (cases "reliable fl"; cases "compressed fl")
      (simp_all add: Store_eq layout_simps wire_payload_header_def)
  have store_h: "StoreU16 (host P) 2 cs (?h 0 @ rest) = ?h cs @ rest" for cs rest
    by (simp add: Store_eq wire_header_def layout_simps)
  have "LoadU32 (host P) (?h cs @ rest) 4 = len" for cs rest
    by (rule w32.load_enc) (simp_all add: wire_header_def layout_simps)
  then show ?thesis
    using len store drop unfolding write_checksums_def Let_def fl [symmetric] wire_offsets
    by (cases "reliable fl"; cases "compressed fl")
      (simp_all add: header_checksum_image store_h wire_packet_def unat_size_of_headers
        fl [symmetric])
qed

lemma payload_source_bound: "payload_source packet = Some src \<Longrightarrow> length src < 2 ^ 32"
  using unat_bound [of "heap_data_size packet"]
  by (auto simp: payload_source_def split: if_splits packet_payload.splits)

lemma compress_stage_shrinks: "compress_stage P packet src = (packet', payload) \<Longrightarrow> length payload \<le> length src"
  by (auto simp: compress_stage_def Let_def split: if_splits option.splits)

lemma compress_stage_fields:
  assumes "compress_stage P packet src = (packet', payload)"
  shows "op_type packet' = op_type packet" "op_channel packet' = op_channel packet"
    "op_payload packet' = op_payload packet" "reliable (op_flags packet') = reliable (op_flags packet)"
    "encrypted (op_flags packet') = encrypted (op_flags packet)"
    "priority (op_flags packet') = priority (op_flags packet)"
    "heap_data_size packet' = heap_data_size packet" "last_send_time packet' = last_send_time packet"
    "destination_peer_id packet' = destination_peer_id packet"
    "acknowledgement_of packet' = acknowledgement_of packet"
  using assms by (auto simp: compress_stage_def Let_def acknowledgement_of_def
      split: if_splits option.splits)

lemma compress_stage_inverse:
  assumes lz4: "lz4_lawful P" and "compress_stage P packet src = (packet', payload)"
    and small: "length src \<le> kMaxDecompressedSize"
  shows "(if compressed (op_flags packet') then Decompress P payload (length src) else Some payload) = Some src"
proof -
  from small have "length b < 2 ^ 31" if "length b < length src" for b :: "byte list"
    using that by (simp add: kMaxDecompressedSize_def)
  then show ?thesis
    using assms Decompress_Compress [OF lz4 small]
    by (auto simp: compress_stage_def Let_def Decompress_def kMaxDecompressedSize_def
        split: if_splits option.splits)
qed

lemma BuildPacket_stages:
  assumes src: "payload_source packet = Some source"
    and cs: "compress_stage P packet source = (q, payload)"
    and enc: "(if encrypted (op_flags q) then EncryptPayloadIfNeeded P rand crypto q seq payload
      else (Some payload, crypto)) = (Some wire, crypto')"
    and size: "unat (size_of_headers q) + length wire < 2 ^ 32"
  shows "BuildPacket P now rand crypto packet seq =
    (wire_packet (of_nat (unat (size_of_headers q) + length wire)) (op_flags q)
       (op_type q) (op_channel q) (ucast (now - ucast kTimeshift)) seq
       (acknowledgement_of q) (of_nat (length source)) wire, q, crypto')"
proof -
  let ?H = "size_of_headers q"
  have "unat (0xFFFFFFFF - of_nat (length wire) :: u32) = 0xFFFFFFFF - length wire"
    using size by (simp add: unat_sub word_le_nat_alt unat_of_nat)
  then have nowrap: "\<not> ?H > 0xFFFFFFFF - of_nat (length wire)"
    using size by (simp add: word_less_nat_alt)
  have sum: "unat (?H + of_nat (length wire)) = unat ?H + length wire"
    using size by (simp add: unat_word_ariths unat_of_nat)
  let ?t = "ucast (now - ucast kTimeshift) :: u32" and ?n = "of_nat (unat ?H + length wire) :: u32"
  let ?pre = "wire_header 0 ?n (op_flags q) (op_type q) (op_channel q) ?t @
      wire_reliable (op_flags q) seq (acknowledgement_of q) @
      wire_payload_header (op_flags q) (of_nat (length wire)) (of_nat (length source)) 0"
  have "length ?pre = unat ?H" by (simp add: unat_size_of_headers)
  then have filled: "memcpy_at (unat ?H) wire (FillPacketHeader P now
        (replicate (unat ?H + length wire) 0) q (of_nat (length wire)) (of_nat (length source)) seq) =
      ?pre @ wire"
    using memcpy_append_skip [of ?pre "unat ?H" wire "replicate (length wire) 0"]
    by (simp add: FillPacketHeader_image [OF refl refl] memcpy_all)
  have "BuildPacket P now rand crypto packet seq = (write_checksums P q (?pre @ wire), q, crypto')"
    using nowrap size unfolding BuildPacket_def src option.case Let_def cs prod.case enc
    by (simp add: sum filled [simplified])
  also have "write_checksums P q (?pre @ wire) = wire_packet ?n (op_flags q) (op_type q) (op_channel q)
      ?t seq (acknowledgement_of q) (of_nat (length source)) wire"
    using size write_checksums_image [of ?n q wire "op_flags q"]
    by (simp add: unat_of_nat del: of_nat_add)
  finally show ?thesis .
qed

lemma BuildPacket_image:
  assumes build: "BuildPacket P now rand crypto packet seq = (bytes, packet', crypto')"
    and ok: "bytes \<noteq> []"
  obtains source payload wire where
    "payload_source packet = Some source" "compress_stage P packet source = (packet', payload)"
    "(if encrypted (op_flags packet') then EncryptPayloadIfNeeded P rand crypto packet' seq payload
      else (Some payload, crypto)) = (Some wire, crypto')"
    "unat (size_of_headers packet') + length wire < 2 ^ 32"
    "bytes = wire_packet (of_nat (unat (size_of_headers packet') + length wire)) (op_flags packet')
       (op_type packet') (op_channel packet') (ucast (now - ucast kTimeshift)) seq
       (acknowledgement_of packet') (of_nat (length source)) wire"
proof -
  from build ok obtain source where src: "payload_source packet = Some source"
    by (auto simp: BuildPacket_def split: option.splits)
  obtain q payload where cs: "compress_stage P packet source = (q, payload)" by fastforce
  obtain res cr where enc: "(if encrypted (op_flags q)
      then EncryptPayloadIfNeeded P rand crypto q seq payload else (Some payload, crypto)) = (res, cr)"
    by fastforce
  note unfolded = build [unfolded BuildPacket_def, simplified src option.case Let_def cs prod.case enc]
  from unfolded ok obtain wire where res: "res = Some wire" by (cases res) auto
  let ?H = "size_of_headers q"
  from unfolded ok res have q: "packet' = q" "crypto' = cr"
    and fits: "\<not> (encrypted (op_flags q) \<and> length wire > 0xFFFFFFFF)"
    and nowrap: "\<not> ?H > 0xFFFFFFFF - of_nat (length wire)"
    by (auto split: if_splits)
  have wire: "length wire < 2 ^ 32"
  proof (cases "encrypted (op_flags q)")
    case True
    with fits show ?thesis by simp
  next
    case False
    with enc res have "wire = payload" by simp
    with compress_stage_shrinks [OF cs] payload_source_bound [OF src] show ?thesis by simp
  qed
  have "unat ?H \<le> unat (0xFFFFFFFF - of_nat (length wire) :: u32)"
    using nowrap by (simp add: word_le_nat_alt not_less)
  also have "\<dots> = 0xFFFFFFFF - length wire"
    using wire by (simp add: unat_sub word_le_nat_alt unat_of_nat)
  finally have size: "unat ?H + length wire < 2 ^ 32" using wire by simp
  show thesis
    using BuildPacket_stages [OF src cs enc [unfolded res] size, of now] build src cs enc [unfolded res] q size
    by (intro that [of source payload wire]) (simp_all only: prod.inject)
qed

subsection \<open>Reading the wire image back\<close>

lemma UnpackHeaderFlags_Pack:
  "UnpackHeaderFlags (PackHeaderFlags r e c p) =
     \<lparr>is_reliable = r, is_encrypted = e, is_compressed = c, is_fragmented = False,
      h_priority = priority_code p, h_reserved = 0\<rparr>"
  by (cases r; cases e; cases c; cases p)
    (simp_all add: UnpackHeaderFlags_def PackHeaderFlags_def priority_code_def)

lemma read_header_image:
  "read_header P (wire_header cs len fl type channel time @ rest) =
     \<lparr>magic = kMagic, header_checksum = cs, total_packet_data_size = len,
      version = kProtocolVersion,
      h_flags = \<lparr>is_reliable = reliable fl, is_encrypted = encrypted fl,
                 is_compressed = compressed fl, is_fragmented = False,
                 h_priority = priority_code (priority fl), h_reserved = 0\<rparr>,
      h_type = type, alignment = 0, padding_number = 0, channel_id = channel_code channel,
      timestamp = time\<rparr>"
  unfolding read_header_def wire_offsets UnpackHeaderFlags_Pack [symmetric]
  by (simp; intro conjI; (rule w16.load_enc w32.load_enc)?)
    (simp_all add: wire_header_def layout_simps)

lemma check_packet_image:
  assumes len: "unat len = length (wire_packet len fl type channel time seq ack orig payload)"
    and type: "type \<noteq> PacketType_Invalid" "IsSystemMessage type \<longleftrightarrow> channel = Control"
  shows "check_packet P (wire_packet len fl type channel time seq ack orig payload) =
    Some (read_header P (wire_packet len fl type channel time seq ack orig payload),
      if reliable fl then seq else 0, if reliable fl then ack else 0,
      if compressed fl then orig else 0, payload)"
proof -
  let ?h = "wire_header (ucast (ComputeChecksum32 (wire_header 0 len fl type channel time)))
      len fl type channel time"
  let ?r = "wire_reliable fl seq ack"
  let ?p = "wire_payload_header fl (of_nat (length payload)) orig (ComputeChecksum32 payload)"
  let ?off = "20 + length ?r"
  have img: "wire_packet len fl type channel time seq ack orig payload = ?h @ ?r @ ?p @ payload"
    by (simp add: wire_packet_def)
  have rel: "reliable fl \<Longrightarrow> LoadU32 (host P) (?h @ ?r @ ?p @ payload) 20 = seq \<and>
      LoadU32 (host P) (?h @ ?r @ ?p @ payload) 24 = ack"
    by (intro conjI w32.load_enc) (simp_all add: wire_reliable_def layout_simps)
  have comp: "compressed fl \<Longrightarrow>
      LoadU32 (host P) (?h @ ?r @ ?p @ payload) ?off = of_nat (length payload) \<and>
      LoadU32 (host P) (?h @ ?r @ ?p @ payload) (?off + 4) = orig \<and>
      LoadU32 (host P) (?h @ ?r @ ?p @ payload) (?off + 8) = ComputeChecksum32 payload \<and>
      (?h @ ?r @ ?p @ payload) ! (?off + 12) = 1"
    by (intro conjI w32.load_enc) (simp_all add: wire_payload_header_def layout_simps)
  have uncomp: "\<not> compressed fl \<Longrightarrow>
      LoadU32 (host P) (?h @ ?r @ ?p @ payload) ?off = ComputeChecksum32 payload"
    by (intro conjI w32.load_enc) (simp_all add: wire_payload_header_def layout_simps)
  have bound: "length payload < 2 ^ 32"
    using len unat_bound [of len] by simp
  have valid: "ValidatePacketHeader (read_header P (?h @ ?r @ ?p @ payload)) (length (?h @ ?r @ ?p @ payload))"
    using len type by (auto simp: ValidatePacketHeader_def read_header_image wire_offsets
        channel_code_def priority_code_def split: PacketChannelType.splits PacketPriority.splits)
  show ?thesis
    using rel comp uncomp valid type bound unfolding img check_packet_def Let_def
    by (cases "reliable fl"; cases "compressed fl"; cases channel)
      (simp_all add: read_header_image header_checksum_image wire_offsets
        read_reliable_header_def read_payload_header_def unat_of_nat channel_code_def)
qed

text \<open>The receiving host may have the other byte order.\<close>

lemma host_irrelevant_libraries:
  "getenv (P\<lparr>host := h\<rparr>) = getenv P" "gcm_decrypt (P\<lparr>host := h\<rparr>) = gcm_decrypt P"
  "LZ4_decompress_safe (P\<lparr>host := h\<rparr>) = LZ4_decompress_safe P"
  by simp_all

lemma host_irrelevant_keys:
  "Sha256 (P\<lparr>host := h\<rparr>) = Sha256 P"
  "DeriveKeyMaterial (P\<lparr>host := h\<rparr>) = DeriveKeyMaterial P"
  "EnsureKeyMaterialReady (P\<lparr>host := h\<rparr>) = EnsureKeyMaterialReady P"
proof -
  show sha: "Sha256 (P\<lparr>host := h\<rparr>) = Sha256 P"
    by (simp add: fun_eq_iff Sha256_def)
  show "DeriveKeyMaterial (P\<lparr>host := h\<rparr>) = DeriveKeyMaterial P"
    by (intro ext) (simp only: DeriveKeyMaterial_def sha)
  then show "EnsureKeyMaterialReady (P\<lparr>host := h\<rparr>) = EnsureKeyMaterialReady P"
    by (intro ext) (simp only: EnsureKeyMaterialReady_def host_irrelevant_libraries)
qed

lemma host_irrelevant:
  "Decompress (P\<lparr>host := h\<rparr>) = Decompress P"
  "DecryptPayload (P\<lparr>host := h\<rparr>) = DecryptPayload P"
  "packet_aad (P\<lparr>host := h\<rparr>) = packet_aad P"
proof -
  show "Decompress (P\<lparr>host := h\<rparr>) = Decompress P"
    by (intro ext) (simp only: Decompress_def host_irrelevant_libraries)
  show "DecryptPayload (P\<lparr>host := h\<rparr>) = DecryptPayload P"
    by (intro ext) (simp only: DecryptPayload_def host_irrelevant_keys host_irrelevant_libraries)
  show "packet_aad (P\<lparr>host := h\<rparr>) = packet_aad P"
    by (simp add: fun_eq_iff packet_aad_def Store_eq)
qed

lemma DecryptPayloadIfNeeded_inverse:
  assumes gcm: "gcm_lawful P" and on: "encrypted (op_flags packet)"
    and enc: "EncryptPayloadIfNeeded P rand crypto packet seq payload = (Some wire, crypto')"
    and keys: "crypto' = Some c" "keys_initialized s" "encryption_key s = encryption_key c"
    and nonce: "rand = Some nonce" "length nonce = kNonceSize"
    and hdr: "header = read_header Q (wire_header cs len (op_flags packet) (op_type packet)
      (op_channel packet) time @ rest)"
    and Q: "Q = P\<lparr>host := h\<rparr>"
  shows "DecryptPayloadIfNeeded Q (Some s) wire
      (if reliable (op_flags packet) then seq else 0)
      (if reliable (op_flags packet) then acknowledgement_of packet else 0) header =
    (Some payload, Some s)"
proof -
  from on enc obtain ctx where ctx: "crypto = Some ctx"
    by (cases crypto) (auto simp: EncryptPayloadIfNeeded_def)
  let ?fl = "(if reliable (op_flags packet) then 1 else 0) OR push_bit 1 1 OR
      (if compressed (op_flags packet) then push_bit 2 1 else 0) OR
      push_bit 4 (priority_code (priority (op_flags packet)) AND 0x3) :: u8"
  let ?aad = "packet_aad P (op_type packet) (channel_code (op_channel packet)) ?fl
      (if reliable (op_flags packet) then seq else 0)
      (if reliable (op_flags packet) then acknowledgement_of packet else 0)"
  have "EncryptPayload P (Some nonce) payload ?aad ctx = (Some wire, c)"
    using enc on unfolding EncryptPayloadIfNeeded_def ctx nonce Let_def keys
    by (cases "reliable (op_flags packet)"; cases "compressed (op_flags packet)")
      (simp_all split: prod.splits)
  from DecryptPayload_EncryptPayload [OF gcm keys(2,3) this nonce(2)]
  show ?thesis
    using on unfolding DecryptPayloadIfNeeded_def Let_def hdr read_header_image Q
    by (simp add: host_irrelevant)
qed

lemma unpack_built:
  assumes laws: "gcm_lawful P" "lz4_lawful P"
    and build: "BuildPacket P now rand crypto packet seq = (bytes, packet', crypto')" "bytes \<noteq> []"
    and src: "payload_source packet = Some source"
    and small: "compressed (op_flags packet) \<Longrightarrow> length source \<le> kMaxDecompressedSize"
    and type: "op_type packet \<noteq> PacketType_Invalid"
      "IsSystemMessage (op_type packet) \<longleftrightarrow> op_channel packet = Control"
    and keys: "encrypted (op_flags packet) \<Longrightarrow>
      \<exists>nonce c s. rand = Some nonce \<and> length nonce = kNonceSize \<and> crypto' = Some c \<and>
        receiver = Some s \<and> keys_initialized s \<and> encryption_key s = encryption_key c"
  shows "UnpackPacket (P\<lparr>host := h\<rparr>) receiver bytes =
    (Some \<lparr>ip_channel = op_channel packet,
           ip_flags = \<lparr>reliable = reliable (op_flags packet), encrypted = encrypted (op_flags packet),
                       compressed = compressed (op_flags packet'),
                       priority = priority (op_flags packet),
                       acknowledged = False, awaiting_ack = False, reserved = False\<rparr>,
           ip_type = op_type packet, source_peer_id = 0,
           acknowledgement_number = (if reliable (op_flags packet) then acknowledgement_of packet else 0),
           sequence_number = (if reliable (op_flags packet) then seq else 0),
           ip_data = source\<rparr>, receiver)"
proof -
  from BuildPacket_image [OF build] src obtain payload wire where
    cs: "compress_stage P packet source = (packet', payload)" and
    enc: "(if encrypted (op_flags packet') then EncryptPayloadIfNeeded P rand crypto packet' seq payload
      else (Some payload, crypto)) = (Some wire, crypto')" and
    size: "unat (size_of_headers packet') + length wire < 2 ^ 32" and
    bytes: "bytes = wire_packet (of_nat (unat (size_of_headers packet') + length wire)) (op_flags packet')
       (op_type packet') (op_channel packet') (ucast (now - ucast kTimeshift)) seq
       (acknowledgement_of packet') (of_nat (length source)) wire"
    by (metis option.inject)
  let ?Q = "P\<lparr>host := h\<rparr>"
  note same = compress_stage_fields [OF cs]
  have checked: "check_packet ?Q bytes = Some (read_header ?Q bytes,
      if reliable (op_flags packet') then seq else 0,
      if reliable (op_flags packet') then acknowledgement_of packet' else 0,
      if compressed (op_flags packet') then of_nat (length source) else 0, wire)"
    unfolding bytes using size type
    by (intro check_packet_image)
      (simp_all add: same unat_of_nat unat_size_of_headers del: of_nat_add)
  have header: "read_header ?Q bytes = read_header ?Q (wire_header cks len (op_flags packet')
      (op_type packet') (op_channel packet') time @ rest)"
    if "bytes = wire_header cks len (op_flags packet') (op_type packet') (op_channel packet') time @ rest"
    for cks len time rest using that by simp
  obtain cks len time rest where
    hdr: "bytes = wire_header cks len (op_flags packet') (op_type packet') (op_channel packet') time @ rest"
    unfolding bytes wire_packet_def by blast
  have dec: "(if encrypted (op_flags packet')
      then DecryptPayloadIfNeeded ?Q receiver wire
        (if reliable (op_flags packet') then seq else 0)
        (if reliable (op_flags packet') then acknowledgement_of packet' else 0) (read_header ?Q bytes)
      else (Some wire, receiver)) = (Some payload, receiver)"
  proof (cases "encrypted (op_flags packet')")
    case True
    with keys obtain nonce c s where k: "rand = Some nonce" "length nonce = kNonceSize"
      "crypto' = Some c" "receiver = Some s" "keys_initialized s" "encryption_key s = encryption_key c"
      by (auto simp: same)
    with True enc have "EncryptPayloadIfNeeded P rand crypto packet' seq payload = (Some wire, crypto')"
      by simp
    from DecryptPayloadIfNeeded_inverse [OF laws(1) True this k(3,5,6,1,2) header [OF hdr] refl]
    show ?thesis using True k(4) by simp
  next
    case False
    with enc show ?thesis by simp
  qed
  have bound: "length source < 2 ^ 32" by (rule payload_source_bound [OF src])
  have decomp: "(if compressed (op_flags packet') then Decompress ?Q payload (length source)
      else Some payload) = Some source"
  proof (cases "compressed (op_flags packet)")
    case True
    with small compress_stage_inverse [OF laws(2) cs] show ?thesis
      by (simp add: host_irrelevant split: if_splits)
  next
    case False
    with cs show ?thesis by (auto simp: compress_stage_def)
  qed
  have flags: "h_flags (read_header ?Q bytes) =
      \<lparr>is_reliable = reliable (op_flags packet'), is_encrypted = encrypted (op_flags packet'),
       is_compressed = compressed (op_flags packet'), is_fragmented = False,
       h_priority = priority_code (priority (op_flags packet')), h_reserved = 0\<rparr>"
    and rest: "h_type (read_header ?Q bytes) = op_type packet'"
      "channel_id (read_header ?Q bytes) = channel_code (op_channel packet')"
    by (simp_all add: header [OF hdr] read_header_image)
  have chan: "(if channel_code (op_channel packet') = channel_code Control then Control else Data) =
      op_channel packet'" by (cases "op_channel packet'") simp_all
  show ?thesis
    using dec decomp bound chan unfolding UnpackPacket_def checked Let_def option.case prod.case flags rest
    by (cases "compressed (op_flags packet')")
      (simp_all add: same unat_of_nat cong: option.case_cong)
qed

lemma built_sequence:
  assumes build: "BuildPacket P now rand crypto packet seq = (bytes, packet', crypto')" "bytes \<noteq> []"
    and rel: "reliable (op_flags packet)"
  shows "LoadU32 h bytes 20 = seq"
proof -
  from BuildPacket_image [OF build] obtain source payload wire n ts ack orig where
    cs: "compress_stage P packet source = (packet', payload)" and
    bytes: "bytes = wire_packet n (op_flags packet') (op_type packet') (op_channel packet') ts seq ack orig wire"
    by metis
  have "reliable (op_flags packet')" using compress_stage_fields(4) [OF cs] rel by simp
  then show ?thesis
    unfolding bytes wire_packet_def by (intro w32.load_enc) (simp_all add: wire_reliable_def layout_simps)
qed

lemma built_size:
  assumes "BuildPacket P now rand crypto packet seq = (bytes, packet', crypto')" "bytes \<noteq> []"
  shows "unat (LoadU32 h bytes 4) = length bytes" and "20 \<le> length bytes"
proof -
  from BuildPacket_image [OF assms] obtain n ts ack orig wire where
    size: "unat (size_of_headers packet') + length wire < 2 ^ 32"
    "n = of_nat (unat (size_of_headers packet') + length wire)" and
    bytes: "bytes = wire_packet n (op_flags packet') (op_type packet') (op_channel packet') ts seq ack orig wire"
    by metis
  have "LoadU32 h bytes 4 = n"
    unfolding bytes wire_packet_def by (rule w32.load_enc) (simp_all add: wire_header_def layout_simps)
  then show "unat (LoadU32 h bytes 4) = length bytes"
    using size by (simp add: bytes unat_of_nat unat_size_of_headers del: of_nat_add)
  show "20 \<le> length bytes" by (simp add: bytes)
qed

text \<open>What building leaves of the packet: at most the compression flag changes.\<close>

definition built_packet :: "platform \<Rightarrow> OutgoingPacket \<Rightarrow> OutgoingPacket" where
  "built_packet P packet =
     (case payload_source packet of None \<Rightarrow> packet | Some source \<Rightarrow> fst (compress_stage P packet source))"

lemma BuildPacket_packet:
  "BuildPacket P now rand crypto packet seq = (bytes, packet', crypto') \<Longrightarrow> packet' = built_packet P packet"
  by (auto simp: BuildPacket_def built_packet_def Let_def split: option.splits prod.splits if_splits)

lemma built_packet_fields [simp]:
  "op_type (built_packet P packet) = op_type packet" "op_channel (built_packet P packet) = op_channel packet"
  "op_payload (built_packet P packet) = op_payload packet"
  "reliable (op_flags (built_packet P packet)) = reliable (op_flags packet)"
  "encrypted (op_flags (built_packet P packet)) = encrypted (op_flags packet)"
  "priority (op_flags (built_packet P packet)) = priority (op_flags packet)"
  "heap_data_size (built_packet P packet) = heap_data_size packet"
  "last_send_time (built_packet P packet) = last_send_time packet"
  "destination_peer_id (built_packet P packet) = destination_peer_id packet"
  by (auto simp: built_packet_def compress_stage_def Let_def split: option.splits)

subsection \<open>A concrete packet\<close>

definition sample_flags :: PackageFlags where
  "sample_flags = \<lparr>reliable = True, encrypted = False, compressed = False, priority = High,
     acknowledged = False, awaiting_ack = False, reserved = False\<rparr>"

definition sample_packet :: OutgoingPacket where
  "sample_packet =
     OutgoingPacket_with_data 4096 7 PacketType_Message Data sample_flags [1, 2, 3]"

definition sample_bytes :: "byte list" where
  "sample_bytes = fst (BuildPacket sample_platform 0 None None sample_packet 7)"

lemma sample_build:
  "payload_source sample_packet = Some [1, 2, 3] \<and>
   BuildPacket sample_platform 0 None None sample_packet 7 = (sample_bytes, sample_packet, None)"
  by code_simp

lemma sample_bytes_ne: "sample_bytes \<noteq> []"
  by code_simp

subsection \<open>Properties\<close>

text \<open>C1: whatever \<^verbatim>\<open>BuildPacket\<close> puts on the wire, plain, compressed, encrypted or both,
  \<^verbatim>\<open>UnpackPacket\<close> on a host of either byte order reads back as the packet that was sent: same
  channel, type, priority, sequence and acknowledgement numbers, and the original payload.\<close>

theorem packet_roundtrip:
  assumes laws: "gcm_lawful P" "lz4_lawful P"
    and build: "BuildPacket P now rand crypto packet seq = (bytes, packet', crypto')" "bytes \<noteq> []"
    and src: "payload_source packet = Some source"
    and small: "compressed (op_flags packet) \<Longrightarrow> length source \<le> kMaxDecompressedSize"
    and type: "op_type packet \<noteq> PacketType_Invalid"
      "IsSystemMessage (op_type packet) \<longleftrightarrow> op_channel packet = Control"
    and keys: "encrypted (op_flags packet) \<Longrightarrow>
      \<exists>nonce c s. rand = Some nonce \<and> length nonce = kNonceSize \<and> crypto' = Some c \<and>
        receiver = Some s \<and> keys_initialized s \<and> encryption_key s = encryption_key c"
  shows "UnpackPacket (P\<lparr>host := h\<rparr>) receiver bytes =
    (Some \<lparr>ip_channel = op_channel packet,
           ip_flags = \<lparr>reliable = reliable (op_flags packet), encrypted = encrypted (op_flags packet),
                       compressed = compressed (op_flags packet'),
                       priority = priority (op_flags packet),
                       acknowledged = False, awaiting_ack = False, reserved = False\<rparr>,
           ip_type = op_type packet, source_peer_id = 0,
           acknowledgement_number = (if reliable (op_flags packet) then acknowledgement_of packet else 0),
           sequence_number = (if reliable (op_flags packet) then seq else 0),
           ip_data = source\<rparr>, receiver)"
  by (rule unpack_built [OF assms])

theorem packet_roundtrip_witness:
  "UnpackPacket (sample_platform\<lparr>host := BigEndian\<rparr>) None sample_bytes =
     (Some \<lparr>ip_channel = Data, ip_flags = sample_flags, ip_type = PacketType_Message,
            source_peer_id = 0, acknowledgement_number = 0, sequence_number = 7,
            ip_data = [1, 2, 3]\<rparr>, None)"
  using packet_roundtrip [OF sample_lawful(1,2) conjunct2 [OF sample_build] sample_bytes_ne
      conjunct1 [OF sample_build], of None BigEndian]
  by (simp add: sample_packet_def OutgoingPacket_with_data_def sample_flags_def PacketType_defs
      IsSystemMessage_def acknowledgement_of_def)

text \<open>Where it can be expected to, \<^verbatim>\<open>BuildPacket\<close> succeeds: an unencrypted packet whose payload
  fits the 32-bit size field is always built, its size field is the length of the buffer on a host
  of either byte order, and the buffer is the payload with the headers its flags ask for at most.\<close>

theorem unencrypted_packet_is_built:
  assumes src: "payload_source packet = Some source"
    and plain: "\<not> encrypted (op_flags packet)"
    and size: "length source + 44 < 2 ^ 32"
    and build: "BuildPacket P now rand crypto packet seq = (bytes, packet', crypto')"
  shows "bytes \<noteq> [] \<and> crypto' = crypto \<and> unat (LoadU32 h bytes 4) = length bytes \<and>
    length bytes \<le> 24 + (if reliable (op_flags packet) then 8 else 0) +
      (if compressed (op_flags packet) then 12 else 0) + length source"
proof -
  obtain q wire where cs: "compress_stage P packet source = (q, wire)" by fastforce
  note same = compress_stage_fields [OF cs]
  have enc: "(if encrypted (op_flags q) then EncryptPayloadIfNeeded P rand crypto q seq wire
      else (Some wire, crypto)) = (Some wire, crypto)" using plain same by simp
  have fits: "unat (size_of_headers q) + length wire < 2 ^ 32"
    using size compress_stage_shrinks [OF cs] by (simp add: unat_size_of_headers)
  let ?n = "of_nat (unat (size_of_headers q) + length wire) :: u32"
  from BuildPacket_stages [OF src cs enc fits, of now] build
  have bytes: "bytes = wire_packet ?n (op_flags q) (op_type q) (op_channel q)
      (ucast (now - ucast kTimeshift)) seq (acknowledgement_of q) (of_nat (length source)) wire"
    and crypto: "crypto' = crypto" by simp_all
  have len: "length bytes = unat (size_of_headers q) + length wire"
    unfolding bytes by (simp add: unat_size_of_headers)
  have "LoadU32 h bytes 4 = ?n"
    unfolding bytes wire_packet_def
    by (rule w32.load_enc) (simp_all add: wire_header_def layout_simps del: of_nat_add)
  with fits len have load: "unat (LoadU32 h bytes 4) = length bytes"
    by (simp add: unat_of_nat del: of_nat_add)
  have "compressed (op_flags q) \<Longrightarrow> compressed (op_flags packet)"
    using cs by (auto simp: compress_stage_def Let_def split: if_splits option.splits)
  then have "length bytes \<le> 24 + (if reliable (op_flags packet) then 8 else 0) +
      (if compressed (op_flags packet) then 12 else 0) + length source"
    using compress_stage_shrinks [OF cs] same(4) by (simp add: len unat_size_of_headers)
  moreover have "length bytes \<noteq> 0" by (simp add: len unat_size_of_headers)
  ultimately show ?thesis using crypto load by simp
qed

theorem unencrypted_packet_is_built_witness:
  "sample_bytes \<noteq> [] \<and> unat (LoadU32 BigEndian sample_bytes 4) = length sample_bytes"
  using unencrypted_packet_is_built [OF conjunct1 [OF sample_build] _ _ conjunct2 [OF sample_build],
      of BigEndian]
  by (simp add: sample_packet_def OutgoingPacket_with_data_def sample_flags_def)

end
