(* ===== verification/Packet_Integrity.thy ===== *)
theory Packet_Integrity
  imports Packet_Serdes
begin

text \<open>
  What the two checksums of \<^verbatim>\<open>PacketUnpacker\<close> detect (\<^verbatim>\<open>src/znet/z_packet_serdes.cc\<close>): a
  characterisation of the buffers \<open>check_packet\<close> accepts, and what one changed byte does to an
  accepted buffer, for every position of the packet.
\<close>

definition reliable_size :: "header_flags \<Rightarrow> nat" where
  "reliable_size fl = (if is_reliable fl then kReliableHeaderWireSize else 0)"

definition checksum_position :: "header_flags \<Rightarrow> nat" where
  "checksum_position fl = kPacketHeaderWireSize + reliable_size fl +
     (if is_compressed fl then kCompressedChecksumOffset else kUncompressedChecksumOffset)"

definition payload_position :: "header_flags \<Rightarrow> nat" where
  "payload_position fl = kPacketHeaderWireSize + reliable_size fl +
     (if is_compressed fl then kCompressedHeaderWireSize else kUncompressedHeaderWireSize)"

text \<open>The bytes whose every change is noticed.\<close>

definition covered :: "header_flags \<Rightarrow> nat \<Rightarrow> bool" where
  "covered fl i \<longleftrightarrow> i < kPacketHeaderWireSize \<or>
     checksum_position fl \<le> i \<and> i < checksum_position fl + 4 \<or> payload_position fl \<le> i"

lemmas position_defs = reliable_size_def checksum_position_def payload_position_def wire_offsets

definition header_accepted :: "platform \<Rightarrow> byte list \<Rightarrow> bool" where
  "header_accepted P b \<longleftrightarrow>
     (let header = read_header P b in
      kPacketHeaderWireSize \<le> length b \<and> ValidatePacketHeader header (length b) \<and>
      header_checksum header = ComputePacketHeaderChecksum P b \<and>
      channel_id header =
        (if IsSystemMessage (h_type header) then channel_code Control else channel_code Data))"

lemma check_packet_iff:
  "check_packet P b = Some (hdr, seq, ack, orig, payload) \<longleftrightarrow>
   header_accepted P b \<and> hdr = read_header P b \<and>
   (let fl = h_flags hdr; r = kPacketHeaderWireSize + reliable_size fl in
    payload_position fl \<le> length b \<and> payload = drop (payload_position fl) b \<and>
    ComputeChecksum32 payload = LoadU32 (host P) b (checksum_position fl) \<and>
    seq = (if is_reliable fl then LoadU32 (host P) b (20 + 0) else 0) \<and>
    ack = (if is_reliable fl then LoadU32 (host P) b (20 + 4) else 0) \<and>
    orig = (if is_compressed fl then LoadU32 (host P) b (r + 4) else 0) \<and>
    (is_compressed fl \<longrightarrow> b ! (r + 12) AND NOT 0x1 = 0 \<and>
       unat (LoadU32 (host P) b (r + 0)) = length payload))"
proof (cases "header_accepted P b")
  case True
  let ?hdr = "read_header P b"
  have "check_packet P b =
      (case read_reliable_header P (h_flags ?hdr) b kPacketHeaderWireSize of
            None \<Rightarrow> None
          | Some (seq, ack, offset) \<Rightarrow>
              case read_payload_header P (h_flags ?hdr) b offset of
                None \<Rightarrow> None
              | Some (compressed_size, original_size, expected, offset) \<Rightarrow>
                  if offset > length b then None
                  else if is_compressed (h_flags ?hdr) \<and> unat compressed_size \<noteq> length b - offset then None
                    else if ComputeChecksum32 (drop offset b) \<noteq> expected then None
                    else Some (?hdr, seq, ack, original_size, drop offset b))"
    using True unfolding check_packet_def header_accepted_def Let_def by (simp split: if_splits)
  then show ?thesis
    using True by (cases "is_reliable (h_flags ?hdr)"; cases "is_compressed (h_flags ?hdr)")
      (auto simp: read_reliable_header_def read_payload_header_def position_defs Let_def)
next
  case False
  then show ?thesis
    by (auto simp: check_packet_def header_accepted_def Let_def split: if_splits)
qed

lemma block_at_update [simp]:
  "i < off \<or> off + n \<le> i \<Longrightarrow> block_at off n (b[i := v]) = block_at off n b"
proof -
  assume "i < off \<or> off + n \<le> i"
  then show ?thesis
  proof
    assume "i < off"
    then show ?thesis by (simp add: block_at_def)
  next
    assume "off + n \<le> i"
    then show ?thesis by (simp add: block_at_def drop_update_swap)
  qed
qed

lemma bytes_word_update:
  assumes "off \<le> i" and "i < off + n" and "off + n \<le> length b" and "v \<noteq> b ! i"
    and "8 * n = LENGTH('a::len)"
  shows "(bytes_word (block_at off n (b[i := v])) :: 'a word) \<noteq> bytes_word (block_at off n b)"
proof
  assume "(bytes_word (block_at off n (b[i := v])) :: 'a word) = bytes_word (block_at off n b)"
  moreover have "length (block_at off n (b[i := v])) = n" "length (block_at off n b) = n"
    using assms(3) by simp_all
  ultimately have "block_at off n (b[i := v]) = block_at off n b"
    using word_bytes_word [where 'a = 'a] assms(5) by metis
  then have "block_at off n (b[i := v]) ! (i - off) = block_at off n b ! (i - off)" by simp
  moreover have "block_at off n xs ! (i - off) = xs ! i" if "length xs = length b" for xs :: "byte list"
    using assms(1-3) that by (simp add: block_at_def)
  ultimately show False using assms(1-4) by simp
qed

lemma ComputePacketHeaderChecksum_eq:
  "ComputePacketHeaderChecksum P b = ucast (ComputeChecksum32 (memcpy_at 2 [0, 0] (take 20 b)))"
proof -
  have "word_bytes (0 :: u16) = [0, 0]" by (simp add: word_bytes_def upt_conv_Cons)
  then show ?thesis
    by (simp add: ComputePacketHeaderChecksum_def Let_def low_half Store_eq wire_offsets)
qed

lemma header_byte_change:
  assumes ok: "header_accepted P b" and i: "i < 20" and v: "v \<noteq> b ! i"
  shows "\<not> header_accepted P (b[i := v])"
proof -
  from ok have len: "20 \<le> length b"
    and sum: "LoadU16 (host P) b 2 = ComputePacketHeaderChecksum P b"
    by (auto simp: header_accepted_def Let_def read_header_def wire_offsets)
  have "LoadU16 (host P) (b[i := v]) 2 \<noteq> ComputePacketHeaderChecksum P (b[i := v])"
  proof (cases "2 \<le> i \<and> i < 4")
    case True
    then have "i = 2 \<or> i = 3" by auto
    then have "memcpy_at 2 [0, 0] (take 20 (b[i := v])) = memcpy_at 2 [0, 0] (take 20 b)"
      using len by (auto simp: memcpy_at_def take_update_swap drop_update_swap list_update_beyond)
    moreover have "LoadU16 (host P) (b[i := v]) 2 \<noteq> LoadU16 (host P) b 2"
      using len True v bytes_word_update [of 2 i 2 b v, where 'a = 16] by (simp add: Load_eq)
    ultimately show ?thesis using sum by (simp add: ComputePacketHeaderChecksum_eq)
  next
    case False
    let ?d = "memcpy_at 2 [0, 0] (take 20 b)"
    have "memcpy_at 2 [0, 0] (take 20 (b[i := v])) = ?d[i := v]"
      using False i len
      by (auto intro!: nth_equalityI simp: nth_memcpy_at nth_list_update take_update_swap)
    moreover have "?d ! i \<noteq> v" using False i len v by (auto simp: nth_memcpy_at)
    ultimately have "ComputePacketHeaderChecksum P (b[i := v]) \<noteq> ComputePacketHeaderChecksum P b"
      using low16_checksum_byte_change [of i ?d v] i len by (simp add: ComputePacketHeaderChecksum_eq)
    moreover have "LoadU16 (host P) (b[i := v]) 2 = LoadU16 (host P) b 2"
      using False len block_at_update [of i 2 2 b v] by (auto simp: Load_eq not_le)
    ultimately show ?thesis using sum by simp
  qed
  then show ?thesis by (simp add: header_accepted_def Let_def read_header_def wire_offsets)
qed

lemma header_unchanged:
  assumes "20 \<le> i" and "20 \<le> length b"
  shows "read_header P (b[i := v]) = read_header P b"
    and "header_accepted P (b[i := v]) = header_accepted P b"
proof -
  show eq: "read_header P (b[i := v]) = read_header P b"
    using assms by (simp add: read_header_def wire_offsets Load_eq)
  have "take 20 (b[i := v]) = take 20 b" using assms by simp
  with eq show "header_accepted P (b[i := v]) = header_accepted P b"
    by (simp add: header_accepted_def ComputePacketHeaderChecksum_eq)
qed

subsection \<open>Properties\<close>

text \<open>C2: every single-byte corruption of the twenty header bytes, of the payload checksum or of
  the payload of a packet the unpacker accepts makes it rejected: both checksums detect it.\<close>

theorem corrupted_byte_rejected:
  assumes ok: "check_packet P b = Some (hdr, seq, ack, orig, payload)"
    and i: "i < length b" and cov: "covered (h_flags hdr) i" and v: "v \<noteq> b ! i"
  shows "UnpackPacket P crypto (b[i := v]) = (None, crypto)"
proof -
  note ok' = ok [unfolded check_packet_iff Let_def]
  from ok' have hh: "header_accepted P b" "hdr = read_header P b" and len: "20 \<le> length b"
    by (auto simp: header_accepted_def Let_def wire_offsets)
  have sum: "ComputeChecksum32 (drop (payload_position (h_flags hdr)) b) =
      LoadU32 (host P) b (checksum_position (h_flags hdr))"
    and room: "payload_position (h_flags hdr) \<le> length b"
    using ok' by (elim conjE; simp only:)+
  have "check_packet P (b[i := v]) = None"
  proof (cases "i < 20")
    case True
    from header_byte_change [OF hh(1) True v] show ?thesis
      by (cases "check_packet P (b[i := v])") (auto simp: check_packet_iff)
  next
    case False
    let ?fl = "h_flags hdr"
    have same: "read_header P (b[i := v]) = read_header P b" using False len by (simp add: header_unchanged)
    have "ComputeChecksum32 (drop (payload_position ?fl) (b[i := v])) \<noteq>
        LoadU32 (host P) (b[i := v]) (checksum_position ?fl)"
    proof (cases "payload_position ?fl \<le> i")
      case True
      then have "checksum_position ?fl + 4 \<le> i" by (auto simp: position_defs)
      then have "LoadU32 (host P) (b[i := v]) (checksum_position ?fl) =
          LoadU32 (host P) b (checksum_position ?fl)" using i by (simp add: Load_eq)
      moreover have "ComputeChecksum32 (drop (payload_position ?fl) (b[i := v])) \<noteq>
          ComputeChecksum32 (drop (payload_position ?fl) b)"
        using True i v by (simp add: drop_update_swap checksum_byte_change)
      ultimately show ?thesis using sum by simp
    next
      case out: False
      with False cov have pos: "checksum_position ?fl \<le> i" "i < checksum_position ?fl + 4"
        by (auto simp: covered_def wire_offsets)
      moreover have "checksum_position ?fl + 4 \<le> payload_position ?fl" by (auto simp: position_defs)
      ultimately have "LoadU32 (host P) (b[i := v]) (checksum_position ?fl) \<noteq>
          LoadU32 (host P) b (checksum_position ?fl)"
        using v room bytes_word_update [of "checksum_position ?fl" i 4 b v, where 'a = 32]
        by (simp add: Load_eq)
      with out sum show ?thesis by simp
    qed
    with same hh(2) show ?thesis
      by (cases "check_packet P (b[i := v])") (auto simp: check_packet_iff Let_def)
  qed
  then show ?thesis by (simp add: UnpackPacket_def)
qed

theorem corrupted_byte_rejected_witness:
  "UnpackPacket sample_platform None (sample_bytes[33 := 9]) = (None, None)"
proof -
  have c: "check_packet sample_platform sample_bytes =
      Some (read_header sample_platform sample_bytes, 7, 0, 0, [1, 2, 3])"
    by code_simp
  have "covered (h_flags (read_header sample_platform sample_bytes)) 33 \<and>
      33 < length sample_bytes \<and> 9 \<noteq> sample_bytes ! 33" by code_simp
  then show ?thesis by (intro corrupted_byte_rejected [OF c]) simp_all
qed

text \<open>The sequence and acknowledgement numbers of an unencrypted reliable packet are covered by
  neither checksum: a packet whose sequence number has been replaced on the way is accepted with
  the replaced number and everything else unchanged.\<close>

theorem sequence_number_unprotected:
  assumes ok: "check_packet P b = Some (hdr, seq, ack, orig, payload)"
    and rel: "is_reliable (h_flags hdr)"
  shows "check_packet P (StoreU32 (host P) kPacketHeaderWireSize seq' b) =
    Some (hdr, seq', ack, orig, payload)"
proof -
  from ok rel have len: "32 \<le> length b"
    by (auto simp: check_packet_iff Let_def position_defs header_accepted_def split: if_splits)
  let ?b = "memcpy_at 20 (word_bytes seq') b"
  have low: "block_at off n ?b = block_at off n b" if "off + n \<le> 20 \<or> 24 \<le> off" for off n
    using that len by (auto simp: block_memcpy_before block_memcpy_after)
  have nth: "?b ! i = b ! i" if "i < length b" "i < 20 \<or> 24 \<le> i" for i
    using that len by (auto simp: nth_memcpy_at)
  have seq: "LoadU32 (host P) ?b 20 = seq'"
    using len w32.load_store [of 20 b "host P" seq'] by (simp add: Store_eq)
  have hdr: "read_header P ?b = read_header P b"
    using len by (simp add: read_header_def wire_offsets Load_eq low nth)
  have "take 20 ?b = take 20 b" using low [of 0 20] by (simp add: block_at_def)
  then have acc: "header_accepted P ?b = header_accepted P b"
    using len by (simp add: header_accepted_def hdr ComputePacketHeaderChecksum_eq)
  have drop: "drop k ?b = drop k b" if "24 \<le> k" for k
    using that len low [of k "length b - k"] by (simp add: block_at_def)
  show ?thesis
    using ok rel len unfolding Store_eq kPacketHeaderWireSize_def check_packet_iff acc hdr Let_def
    by (auto simp: seq position_defs drop Load_eq low nth split: if_splits)
qed

theorem sequence_number_unprotected_witness:
  "check_packet sample_platform (StoreU32 LittleEndian 20 99 sample_bytes) =
     Some (read_header sample_platform sample_bytes, 99, 0, 0, [1, 2, 3])"
proof -
  have c: "check_packet sample_platform sample_bytes =
      Some (read_header sample_platform sample_bytes, 7, 0, 0, [1, 2, 3])"
    by code_simp
  have "is_reliable (h_flags (read_header sample_platform sample_bytes))" by code_simp
  from sequence_number_unprotected [OF c this, of 99] show ?thesis
    by (simp add: sample_platform_def kPacketHeaderWireSize_def)
qed

text \<open>C10: what the unpacker lets through is well formed: its header starts with the magic number, has the version of
  the protocol, the checksum of the header, no reserved bit and no fragment bit, and a known priority;
  the buffer has exactly the size the header names, the packet has a valid type and travels on the channel
  of its type, an encrypted packet was decrypted with a cryptographic context, and the payload is shorter than
  the buffer when it is neither compressed nor encrypted, and bounded by 64 MiB when it is
  compressed.\<close>

theorem unpacked_packet_well_formed:
  assumes "UnpackPacket P crypto b = (Some packet, crypto')"
  shows "kPacketHeaderWireSize \<le> length b \<and> unat (LoadU32 (host P) b kHeaderTotalSizeOffset) = length b \<and>
    LoadU16 (host P) b kHeaderMagicOffset = kMagic \<and> b ! kHeaderVersionOffset = kProtocolVersion \<and>
    LoadU16 (host P) b kHeaderChecksumOffset = ComputePacketHeaderChecksum P b \<and>
    (let fl = UnpackHeaderFlags (b ! kHeaderFlagsOffset) in
       h_reserved fl = 0 \<and> \<not> is_fragmented fl \<and> h_priority fl \<le> priority_code Critical) \<and>
    b ! kHeaderChannelOffset = channel_code (ip_channel packet) \<and>
    ip_type packet = LoadU16 (host P) b kHeaderTypeOffset \<and> ip_type packet \<noteq> PacketType_Invalid \<and>
    (ip_channel packet = Control \<longleftrightarrow> IsSystemMessage (ip_type packet)) \<and>
    (encrypted (ip_flags packet) \<longrightarrow> crypto \<noteq> None) \<and>
    (compressed (ip_flags packet) \<longrightarrow> length (ip_data packet) \<le> kMaxDecompressedSize) \<and>
    (\<not> compressed (ip_flags packet) \<and> \<not> encrypted (ip_flags packet) \<longrightarrow>
       length (ip_data packet) < length b)"
proof -
  from assms obtain hdr seq ack orig payload where
    c: "check_packet P b = Some (hdr, seq, ack, orig, payload)"
    by (cases "check_packet P b") (auto simp: UnpackPacket_def)
  let ?fl = "h_flags hdr"
  obtain res cr where d: "(if is_encrypted ?fl then DecryptPayloadIfNeeded P crypto payload seq ack hdr
      else (Some payload, crypto)) = (res, cr)" by fastforce
  note u = assms [unfolded UnpackPacket_def c option.case prod.case Let_def d]
  from u obtain pl where res: "res = Some pl" by (cases res) auto
  from u res obtain out where
    out: "(if is_compressed ?fl then Decompress P pl (unat orig) else Some pl) = Some out"
    by (cases "if is_compressed ?fl then Decompress P pl (unat orig) else Some pl") simp_all
  from u res out have pk: "ip_type packet = h_type hdr" "ip_data packet = out"
    "encrypted (ip_flags packet) = is_encrypted ?fl" "compressed (ip_flags packet) = is_compressed ?fl"
    "ip_channel packet = (if channel_id hdr = channel_code Control then Control else Data)"
    by auto
  have hdr: "header_accepted P b" "hdr = read_header P b" and pl: "length payload < length b"
    using c by (auto simp: check_packet_iff Let_def position_defs)
  then have "20 \<le> length b" "unat (LoadU32 (host P) b 4) = length b" "h_type hdr \<noteq> PacketType_Invalid"
    "LoadU16 (host P) b kHeaderMagicOffset = kMagic" "b ! kHeaderVersionOffset = kProtocolVersion"
    "LoadU16 (host P) b kHeaderChecksumOffset = ComputePacketHeaderChecksum P b"
    "h_type hdr = LoadU16 (host P) b kHeaderTypeOffset" "channel_id hdr = b ! kHeaderChannelOffset"
    "let fl = UnpackHeaderFlags (b ! kHeaderFlagsOffset) in
       h_reserved fl = 0 \<and> \<not> is_fragmented fl \<and> h_priority fl \<le> priority_code Critical"
    and channel: "channel_id hdr = (if IsSystemMessage (h_type hdr) then channel_code Control else channel_code Data)"
    by (auto simp: header_accepted_def Let_def ValidatePacketHeader_def wire_offsets read_header_def
        split: if_splits)
  moreover have "channel_id hdr = channel_code (ip_channel packet)"
    "ip_channel packet = Control \<longleftrightarrow> IsSystemMessage (ip_type packet)"
    using channel pk(1,5) by (auto split: if_splits)
  moreover have "is_encrypted ?fl \<Longrightarrow> crypto \<noteq> None"
    using d res by (cases crypto) (simp_all add: DecryptPayloadIfNeeded_def)
  moreover have "is_compressed ?fl \<Longrightarrow> length out \<le> kMaxDecompressedSize"
    using out Decompress_length by (metis (full_types))
  moreover have "\<not> is_compressed ?fl \<Longrightarrow> \<not> is_encrypted ?fl \<Longrightarrow> out = payload"
    using out d res by simp
  ultimately show ?thesis using pl pk(1-4) by (simp add: wire_offsets)
qed

theorem unpacked_packet_well_formed_witness:
  "\<exists>packet. UnpackPacket sample_platform None sample_bytes = (Some packet, None) \<and>
     ip_type packet \<noteq> PacketType_Invalid"
proof -
  have "fst (UnpackPacket sample_platform None sample_bytes) \<noteq> None \<and>
      snd (UnpackPacket sample_platform None sample_bytes) = None" by code_simp
  then obtain packet where "UnpackPacket sample_platform None sample_bytes = (Some packet, None)"
    by (cases "UnpackPacket sample_platform None sample_bytes") auto
  with unpacked_packet_well_formed [OF this] show ?thesis by blast
qed

end
