(* ===== verification/Buffer_Pool.thy ===== *)
theory Buffer_Pool
  imports Packets
begin

text \<open>
  \<^verbatim>\<open>src/znet/z_network_allocator.h\<close>: \<^verbatim>\<open>PacketBufferPool\<close>, the size-classed cache of
  reference-counted payload blocks.  The heap is a partial map from block addresses to headers;
  an access to an address that is not allocated is a fault, \<open>None\<close>.  The address
  \<^verbatim>\<open>operator new\<close> returns is an argument.  The floating-point demand average of
  \<^verbatim>\<open>RetuneTargets\<close> is not modelled: the targets it computes are an argument, so that what is
  proved holds for any of them.  Counters are natural numbers.
\<close>

definition kMinClassSize :: nat where "kMinClassSize = 64"
definition kMaxClassSize :: nat where "kMaxClassSize = 65536"
definition kClassCount :: nat where "kClassCount = 11"
definition kRetunePeriod :: nat where "kRetunePeriod = 4096"
definition kMinTargetPerClass :: nat where "kMinTargetPerClass = 8"
definition kInvalidClassIndex :: nat where "kInvalidClassIndex = 0xFFFFFFFF"

lemmas pool_constants = kMinClassSize_def kMaxClassSize_def kClassCount_def kRetunePeriod_def
  kMinTargetPerClass_def kInvalidClassIndex_def

record BlockHeader =
  ref_count :: u32
  requested_size :: u32
  size_class_index :: u32
  pooled :: bool
  capacity :: nat

record ClassBucket =
  block_size :: nat
  requests :: nat
  hits :: nat
  total_requests :: nat
  total_hits :: nat
  target_cached_blocks :: nat
  free_list :: "u64 list"

record PacketBufferPool =
  heap_blocks :: "u64 \<rightharpoonup> BlockHeader"
  pool_classes :: "ClassBucket list"
  pool_requests :: nat
  pool_hits :: nat
  fallback_allocations :: nat

definition new_pool :: PacketBufferPool where
  "new_pool =
     \<lparr>heap_blocks = Map.empty,
      pool_classes = map (\<lambda>i. \<lparr>block_size = kMinClassSize * 2 ^ i, requests = 0, hits = 0,
        total_requests = 0, total_hits = 0, target_cached_blocks = kMinTargetPerClass,
        free_list = []\<rparr>) [0..<kClassCount],
      pool_requests = 0, pool_hits = 0, fallback_allocations = 0\<rparr>"

function class_loop :: "nat \<Rightarrow> nat \<Rightarrow> nat \<Rightarrow> nat" where
  "class_loop class_size class_index requested =
     (if class_size < requested \<and> class_index + 1 < kClassCount
      then class_loop (2 * class_size) (class_index + 1) requested
      else class_index)"
  by auto
termination by (relation "measure (\<lambda>(_, i, _). kClassCount - i)") auto

declare class_loop.simps [simp del]

definition SizeToClassIndex :: "nat \<Rightarrow> nat" where
  "SizeToClassIndex requested =
     (if requested > kMaxClassSize then kInvalidClassIndex else class_loop kMinClassSize 0 requested)"

definition header_bytes :: u64 where "header_bytes = 32"

definition HeaderFromData :: "u64 \<Rightarrow> u64" where "HeaderFromData d = d - header_bytes"
definition BlockData :: "u64 \<Rightarrow> u64" where "BlockData header = header + header_bytes"

definition AllocateNewBlock ::
  "u64 \<Rightarrow> nat \<Rightarrow> nat \<Rightarrow> bool \<Rightarrow> PacketBufferPool \<Rightarrow> u64 \<times> PacketBufferPool" where
  "AllocateNewBlock addr requested class_index is_pooled p =
     (let cap = (if class_index = kInvalidClassIndex then requested
                 else block_size (pool_classes p ! class_index))
      in (BlockData addr,
          p\<lparr>heap_blocks := (heap_blocks p)(addr \<mapsto>
              \<lparr>ref_count = 1, requested_size = of_nat requested,
               size_class_index = of_nat class_index, pooled = is_pooled, capacity = cap\<rparr>)\<rparr>))"

definition Allocate :: "u64 \<Rightarrow> nat \<Rightarrow> PacketBufferPool \<Rightarrow> (u64 \<times> PacketBufferPool) option" where
  "Allocate addr requested p =
     (if requested = 0 then Some (0, p)
      else
        let class_index = SizeToClassIndex requested;
            p = p\<lparr>pool_requests := pool_requests p + 1\<rparr>
        in if class_index = kInvalidClassIndex then
             Some (AllocateNewBlock addr requested kInvalidClassIndex False
                     (p\<lparr>fallback_allocations := fallback_allocations p + 1\<rparr>))
           else
             let b = pool_classes p ! class_index;
                 b = b\<lparr>requests := requests b + 1, total_requests := total_requests b + 1\<rparr>
             in if free_list b \<noteq> [] then
                  let header = last (free_list b);
                      b' = b\<lparr>hits := hits b + 1, total_hits := total_hits b + 1,
                             free_list := butlast (free_list b)\<rparr>
                  in case heap_blocks p header of
                       None \<Rightarrow> None
                     | Some h \<Rightarrow>
                         Some (BlockData header,
                           p\<lparr>pool_classes := (pool_classes p)[class_index := b'],
                             pool_hits := pool_hits p + 1,
                             heap_blocks := (heap_blocks p)(header \<mapsto>
                               h\<lparr>ref_count := 1, requested_size := of_nat requested\<rparr>)\<rparr>)
                else
                  Some (AllocateNewBlock addr requested class_index True
                          (p\<lparr>pool_classes := (pool_classes p)[class_index := b]\<rparr>)))"

definition Retain :: "u64 \<Rightarrow> PacketBufferPool \<Rightarrow> PacketBufferPool option" where
  "Retain d p =
     (if d = 0 then Some p
      else case heap_blocks p (HeaderFromData d) of
             None \<Rightarrow> None
           | Some h \<Rightarrow> Some (p\<lparr>heap_blocks :=
               (heap_blocks p)(HeaderFromData d \<mapsto> h\<lparr>ref_count := ref_count h + 1\<rparr>)\<rparr>))"

text \<open>\<^verbatim>\<open>::operator delete\<close> of a block; deleting what is not allocated is a fault.\<close>

definition delete_block :: "u64 \<Rightarrow> PacketBufferPool \<Rightarrow> PacketBufferPool option" where
  "delete_block header p =
     (case heap_blocks p header of
        None \<Rightarrow> None
      | Some _ \<Rightarrow> Some (p\<lparr>heap_blocks := (heap_blocks p)(header := None)\<rparr>))"

fun delete_blocks :: "u64 list \<Rightarrow> PacketBufferPool \<Rightarrow> PacketBufferPool option" where
  "delete_blocks [] p = Some p"
| "delete_blocks (header # rest) p =
     (case delete_block header p of None \<Rightarrow> None | Some p' \<Rightarrow> delete_blocks rest p')"

text \<open>The overflow of a free list comes off its back.\<close>

definition TrimClassCache :: "nat \<Rightarrow> nat \<Rightarrow> PacketBufferPool \<Rightarrow> PacketBufferPool option" where
  "TrimClassCache class_index target p =
     (let b = pool_classes p ! class_index in
      if length (free_list b) \<le> target then Some p
      else
        let overflow = rev (drop target (free_list b));
            p = p\<lparr>pool_classes := (pool_classes p)[class_index := b\<lparr>free_list := take target (free_list b)\<rparr>]\<rparr>
        in delete_blocks overflow p)"

fun retune_loop :: "nat list \<Rightarrow> nat \<Rightarrow> PacketBufferPool \<Rightarrow> PacketBufferPool option" where
  "retune_loop [] i p = Some p"
| "retune_loop (target # rest) i p =
     (let target = (if target < kMinTargetPerClass then kMinTargetPerClass else target);
          p = p\<lparr>pool_classes := (pool_classes p)[i := (pool_classes p ! i)\<lparr>target_cached_blocks := target\<rparr>]\<rparr>
      in case TrimClassCache i target p of None \<Rightarrow> None | Some p \<Rightarrow> retune_loop rest (i + 1) p)"

text \<open>\<open>None\<close> as computed targets is the case of no demand.\<close>

definition RetuneTargets :: "nat list option \<Rightarrow> PacketBufferPool \<Rightarrow> PacketBufferPool option" where
  "RetuneTargets computed p =
     (let p = p\<lparr>pool_classes := map (\<lambda>b. b\<lparr>requests := 0\<rparr>) (pool_classes p)\<rparr>
      in case computed of None \<Rightarrow> Some p | Some targets \<Rightarrow> retune_loop (take kClassCount targets) 0 p)"

definition MaybeRetune :: "bool \<Rightarrow> nat list option \<Rightarrow> PacketBufferPool \<Rightarrow> PacketBufferPool option" where
  "MaybeRetune try_lock computed p =
     (if pool_requests p < kRetunePeriod \<or> pool_requests p mod kRetunePeriod \<noteq> 0 then Some p
      else if \<not> try_lock then Some p
      else RetuneTargets computed p)"

definition Release ::
  "bool \<Rightarrow> nat list option \<Rightarrow> u64 \<Rightarrow> PacketBufferPool \<Rightarrow> PacketBufferPool option" where
  "Release try_lock computed d p =
     (if d = 0 then Some p
      else
        let header = HeaderFromData d in
        case heap_blocks p header of
          None \<Rightarrow> None
        | Some h \<Rightarrow>
            let previous = ref_count h;
                p = p\<lparr>heap_blocks := (heap_blocks p)(header \<mapsto> h\<lparr>ref_count := previous - 1\<rparr>)\<rparr>
            in if previous \<noteq> 1 then Some p
               else if \<not> pooled h \<or> unat (size_class_index h) = kInvalidClassIndex then
                 delete_block header p
               else
                 let i = unat (size_class_index h); b = pool_classes p ! i in
                 case (if length (free_list b) < target_cached_blocks b
                       then Some (p\<lparr>pool_classes :=
                              (pool_classes p)[i := b\<lparr>free_list := free_list b @ [header]\<rparr>]\<rparr>)
                       else delete_block header p) of
                   None \<Rightarrow> None
                 | Some p \<Rightarrow> MaybeRetune try_lock computed p)"

definition GetCapacity :: "u64 \<Rightarrow> PacketBufferPool \<Rightarrow> nat option" where
  "GetCapacity d p = (if d = 0 then Some 0 else map_option capacity (heap_blocks p (HeaderFromData d)))"

definition GetStats :: "PacketBufferPool \<Rightarrow> nat \<times> nat \<times> nat" where
  "GetStats p = (pool_requests p, pool_hits p, fallback_allocations p)"

definition ResetStats :: "PacketBufferPool \<Rightarrow> PacketBufferPool" where
  "ResetStats p = p\<lparr>pool_requests := 0, pool_hits := 0, fallback_allocations := 0,
     pool_classes := map (\<lambda>b. b\<lparr>requests := 0, hits := 0, total_requests := 0, total_hits := 0\<rparr>)
       (pool_classes p)\<rparr>"

definition BoostClassCacheForSize :: "nat \<Rightarrow> nat \<Rightarrow> PacketBufferPool \<Rightarrow> PacketBufferPool" where
  "BoostClassCacheForSize requested min_target_blocks p =
     (if min_target_blocks = 0 then p
      else let i = SizeToClassIndex requested in
           if i = kInvalidClassIndex then p
           else let b = pool_classes p ! i in
                if target_cached_blocks b < min_target_blocks
                then p\<lparr>pool_classes := (pool_classes p)[i := b\<lparr>target_cached_blocks := min_target_blocks\<rparr>]\<rparr>
                else p)"

subsection \<open>Size classes\<close>

lemma class_loop_spec:
  assumes "class_size = 64 * 2 ^ i" and "i < 11" and "requested \<le> 65536"
    and "i > 0 \<Longrightarrow> 64 * 2 ^ (i - 1) < requested"
  shows "class_loop class_size i requested < 11 \<and>
    requested \<le> 64 * 2 ^ class_loop class_size i requested \<and>
    (\<forall>j < class_loop class_size i requested. 64 * 2 ^ j < requested)"
  using assms
proof (induction class_size i requested rule: class_loop.induct)
  case (1 class_size i requested)
  show ?case
  proof (cases "class_size < requested \<and> i + 1 < 11")
    case True
    with 1 show ?thesis by (subst (1 2 3) class_loop.simps) (simp add: kClassCount_def)
  next
    case False
    have "requested \<le> 64 * 2 ^ i"
      using False "1.prems" by (cases "i = 10") auto
    moreover have "64 * 2 ^ j < requested" if "j < i" for j
    proof -
      have "(64 :: nat) * 2 ^ j \<le> 64 * 2 ^ (i - 1)" using that by (simp add: power_increasing)
      also have "\<dots> < requested" using that "1.prems"(4) by simp
      finally show ?thesis .
    qed
    moreover have "class_loop class_size i requested = i"
      using False by (subst class_loop.simps) (auto simp: kClassCount_def)
    ultimately show ?thesis using "1.prems" by simp
  qed
qed

lemma SizeToClassIndex_spec:
  "SizeToClassIndex n = i \<Longrightarrow>
   if n > 65536 then i = kInvalidClassIndex
   else i < 11 \<and> n \<le> 64 * 2 ^ i \<and> (\<forall>j<i. 64 * 2 ^ j < n)"
  using class_loop_spec [of 64 0 n] by (auto simp: SizeToClassIndex_def pool_constants)


text \<open>The capacity of the block that serves a request.\<close>

definition class_capacity :: "nat \<Rightarrow> nat" where
  "class_capacity n = (if n > kMaxClassSize then n else kMinClassSize * 2 ^ SizeToClassIndex n)"

lemma class_capacity_ge: "n \<le> class_capacity n"
  using SizeToClassIndex_spec [OF refl, of n]
  by (simp add: class_capacity_def kMaxClassSize_def kMinClassSize_def)

lemma class_capacity_eq:
  "SizeToClassIndex n = kInvalidClassIndex \<Longrightarrow> class_capacity n = n"
  "SizeToClassIndex n < 11 \<Longrightarrow> class_capacity n = 64 * 2 ^ SizeToClassIndex n"
proof -
  have "\<not> kInvalidClassIndex < 11" by (simp add: kInvalidClassIndex_def)
  then show "SizeToClassIndex n = kInvalidClassIndex \<Longrightarrow> class_capacity n = n"
    "SizeToClassIndex n < 11 \<Longrightarrow> class_capacity n = 64 * 2 ^ SizeToClassIndex n"
    using SizeToClassIndex_spec [OF refl, of n]
    by (auto simp: class_capacity_def kMaxClassSize_def kMinClassSize_def split: if_splits)
qed

subsection \<open>The pool invariant\<close>

text \<open>
  \<open>live_refs p d\<close> is the number of references to the block whose data starts at \<open>d\<close>: the
  abstract state of the pool.  The invariant: every class has its block size, the cached blocks
  are pairwise distinct, allocated, unreferenced and of the capacity of their class, and every
  unreferenced block is cached (nothing leaks).
\<close>

definition live_refs :: "PacketBufferPool \<Rightarrow> u64 \<Rightarrow> nat" where
  "live_refs p d = (case heap_blocks p (HeaderFromData d) of
     None \<Rightarrow> 0 | Some h \<Rightarrow> unat (ref_count h))"

definition block_capacity :: "PacketBufferPool \<Rightarrow> u64 \<Rightarrow> nat" where
  "block_capacity p d = (case heap_blocks p (HeaderFromData d) of None \<Rightarrow> 0 | Some h \<Rightarrow> capacity h)"

definition class_ok :: "nat \<Rightarrow> ClassBucket \<Rightarrow> bool" where
  "class_ok i b \<longleftrightarrow> block_size b = 64 * 2 ^ i \<and> 8 \<le> target_cached_blocks b \<and> distinct (free_list b)"

definition header_ok :: "BlockHeader \<Rightarrow> bool" where
  "header_ok h \<longleftrightarrow> (pooled h \<longrightarrow> unat (size_class_index h) < 11 \<and>
     capacity h = 64 * 2 ^ unat (size_class_index h))"

text \<open>A block is in the free list of class \<open>i\<close> iff it is allocated, unreferenced and of that class.\<close>

definition pool_inv :: "PacketBufferPool \<Rightarrow> bool" where
  "pool_inv p \<longleftrightarrow> length (pool_classes p) = 11 \<and>
     (\<forall>i<11. class_ok i (pool_classes p ! i)) \<and>
     (\<forall>a h. heap_blocks p a = Some h \<longrightarrow> BlockData a \<noteq> 0 \<and> header_ok h \<and> (ref_count h = 0 \<longrightarrow> pooled h)) \<and>
     (\<forall>i<11. \<forall>a. a \<in> set (free_list (pool_classes p ! i)) \<longleftrightarrow>
        (\<exists>h. heap_blocks p a = Some h \<and> ref_count h = 0 \<and> unat (size_class_index h) = i))"

definition fresh_block :: "u64 \<Rightarrow> PacketBufferPool \<Rightarrow> bool" where
  "fresh_block addr p \<longleftrightarrow> heap_blocks p addr = None \<and> BlockData addr \<noteq> 0"

lemma HeaderFromData_BlockData [simp]: "HeaderFromData (BlockData a) = a"
  and BlockData_HeaderFromData [simp]: "BlockData (HeaderFromData d) = d"
  by (simp_all add: HeaderFromData_def BlockData_def)

lemma HeaderFromData_eq_iff [simp]: "HeaderFromData d = a \<longleftrightarrow> d = BlockData a"
  by (auto simp: HeaderFromData_def BlockData_def)

lemma pool_invD:
  assumes "pool_inv p"
  shows "length (pool_classes p) = 11"
    and "i < 11 \<Longrightarrow> class_ok i (pool_classes p ! i)"
    and "heap_blocks p a = Some h \<Longrightarrow> BlockData a \<noteq> 0"
    and "heap_blocks p a = Some h \<Longrightarrow> header_ok h"
    and "heap_blocks p a = Some h \<Longrightarrow> ref_count h = 0 \<Longrightarrow> pooled h"
    and "i < 11 \<Longrightarrow> a \<in> set (free_list (pool_classes p ! i)) \<longleftrightarrow>
        (\<exists>h. heap_blocks p a = Some h \<and> ref_count h = 0 \<and> unat (size_class_index h) = i)"
  using assms unfolding pool_inv_def by blast+

lemma pool_inv_new: "pool_inv new_pool" "live_refs new_pool d = 0"
  by (simp_all add: pool_inv_def new_pool_def class_ok_def pool_constants live_refs_def del: upt_Suc)

text \<open>Changes of counters and targets do not matter.\<close>

lemma pool_inv_cong:
  assumes "pool_inv p" and "heap_blocks p' = heap_blocks p"
    and "length (pool_classes p') = 11"
    and "\<And>i. i < 11 \<Longrightarrow> free_list (pool_classes p' ! i) = free_list (pool_classes p ! i) \<and>
      block_size (pool_classes p' ! i) = block_size (pool_classes p ! i) \<and>
      8 \<le> target_cached_blocks (pool_classes p' ! i)"
  shows "pool_inv p'"
  using assms unfolding pool_inv_def class_ok_def by simp

lemma nth_class_update:
  "length xs = 11 \<Longrightarrow> j < 11 \<Longrightarrow> xs[i := b] ! j = (if j = i then b else xs ! j)"
  by (simp add: nth_list_update)

lemma live_refs_update:
  "live_refs (p\<lparr>heap_blocks := (heap_blocks p)(a \<mapsto> h)\<rparr>) = (live_refs p)(BlockData a := unat (ref_count h))"
  by (auto simp: live_refs_def fun_eq_iff)

lemma live_refs_delete:
  "live_refs (p\<lparr>heap_blocks := (heap_blocks p)(a := None)\<rparr>) = (live_refs p)(BlockData a := 0)"
  by (auto simp: live_refs_def fun_eq_iff)

lemma live_refs_heap: "heap_blocks p' = heap_blocks p \<Longrightarrow> live_refs p' = live_refs p"
  by (simp add: live_refs_def fun_eq_iff)

lemma heap_views_other [simp]:
  "live_refs (p\<lparr>pool_requests := x\<rparr>) = live_refs p"
  "live_refs (p\<lparr>pool_classes := cs\<rparr>) = live_refs p"
  "live_refs (p\<lparr>pool_hits := x\<rparr>) = live_refs p"
  "live_refs (p\<lparr>fallback_allocations := x\<rparr>) = live_refs p"
  "block_capacity (p\<lparr>pool_requests := x\<rparr>) = block_capacity p"
  "block_capacity (p\<lparr>pool_classes := cs\<rparr>) = block_capacity p"
  "block_capacity (p\<lparr>pool_hits := x\<rparr>) = block_capacity p"
  "block_capacity (p\<lparr>fallback_allocations := x\<rparr>) = block_capacity p"
  by (simp_all add: live_refs_def block_capacity_def fun_eq_iff)

lemma live_refs_pos:
  assumes "pool_inv p" and "live_refs p d > 0"
  obtains h where "heap_blocks p (HeaderFromData d) = Some h" "ref_count h \<noteq> 0" "d \<noteq> 0"
proof -
  from assms(2) obtain h where h: "heap_blocks p (HeaderFromData d) = Some h" "ref_count h \<noteq> 0"
    by (auto simp: live_refs_def unat_gt_0 split: option.splits)
  with pool_invD(3) [OF assms(1) h(1)] that show thesis by simp
qed

text \<open>Writing the header of a block that stays referenced, or becomes so.\<close>

lemma pool_inv_write:
  assumes inv: "pool_inv p" and "BlockData a \<noteq> 0" and "header_ok h" and "ref_count h \<noteq> 0"
    and "\<And>i. i < 11 \<Longrightarrow> a \<notin> set (free_list (pool_classes p ! i))"
  shows "pool_inv (p\<lparr>heap_blocks := (heap_blocks p)(a \<mapsto> h)\<rparr>)"
  using assms unfolding pool_inv_def by auto


subsection \<open>Allocation\<close>

definition allocated_fresh :: "nat \<Rightarrow> u64 \<Rightarrow> PacketBufferPool \<Rightarrow> PacketBufferPool \<Rightarrow> bool" where
  "allocated_fresh n d p p' \<longleftrightarrow> pool_inv p' \<and> d \<noteq> 0 \<and> live_refs p d = 0 \<and>
     live_refs p' = (live_refs p)(d := 1) \<and> block_capacity p' d = class_capacity n \<and>
     (\<forall>e. e \<noteq> d \<longrightarrow> block_capacity p' e = block_capacity p e)"

lemma AllocateNewBlock_spec:
  assumes inv: "pool_inv p" and fresh: "fresh_block addr p"
    and i: "i = SizeToClassIndex n" "i = kInvalidClassIndex \<and> \<not> pl \<or> i < 11 \<and> pl"
    and new: "AllocateNewBlock addr n i pl p = (d, p')"
  shows "allocated_fresh n d p p'"
proof -
  let ?cap = "if i = kInvalidClassIndex then n else block_size (pool_classes p ! i)"
  let ?h = "\<lparr>ref_count = 1, requested_size = of_nat n, size_class_index = of_nat i, pooled = pl,
    capacity = ?cap\<rparr>"
  from new have p': "p' = p\<lparr>heap_blocks := (heap_blocks p)(addr \<mapsto> ?h)\<rparr>" and d: "d = BlockData addr"
    by (auto simp: AllocateNewBlock_def Let_def)
  have cap: "?cap = class_capacity n" "i < 11 \<Longrightarrow> ?cap = 64 * 2 ^ i"
    using i pool_invD(2) [OF inv, of i] class_capacity_eq [of n]
    by (auto simp: class_ok_def kInvalidClassIndex_def)
  have "header_ok ?h" using i cap by (auto simp: header_ok_def unat_of_nat)
  then have "pool_inv p'"
    unfolding p' using fresh pool_invD(6) [OF inv] by (intro pool_inv_write inv) (auto simp: fresh_block_def)
  with cap(1) fresh show ?thesis
    by (auto simp: allocated_fresh_def p' d live_refs_update block_capacity_def fresh_block_def live_refs_def)
qed

lemma Allocate_cached:
  assumes inv: "pool_inv p" and i: "i < 11" "i = SizeToClassIndex n" and header: "header = last fl"
    and fl: "free_list (pool_classes p ! i) = fl" "fl \<noteq> []"
    and h: "heap_blocks p header = Some h"
    and b: "free_list b = butlast fl" "block_size b = block_size (pool_classes p ! i)"
      "target_cached_blocks b = target_cached_blocks (pool_classes p ! i)"
    and p': "p' = p\<lparr>pool_requests := r, pool_classes := (pool_classes p)[i := b], pool_hits := k,
      heap_blocks := (heap_blocks p)(header \<mapsto> h\<lparr>ref_count := 1, requested_size := s\<rparr>)\<rparr>"
  shows "allocated_fresh n (BlockData header) p p'"
proof -
  note facts = pool_invD [OF inv]
  have "header \<in> set fl" using header fl by simp
  then have h0: "ref_count h = 0" "unat (size_class_index h) = i" "pooled h" "header_ok h"
    using facts(4,5,6) [OF _ ] h fl i by auto
  have split: "fl = butlast fl @ [header]" using fl header by simp
  have "distinct fl" using facts(2) [OF i(1)] fl by (simp add: class_ok_def)
  then have mem: "a \<in> set (butlast fl) \<longleftrightarrow> a \<in> set fl \<and> a \<noteq> header" for a
    using split by (metis distinct.simps(2) distinct1_rotate in_set_butlastD
        not_distinct_conv_prefix rotate1.simps(2) set_ConsD set_rotate1)
  have "pool_inv p'"
    unfolding pool_inv_def
  proof (intro conjI allI impI)
    show "length (pool_classes p') = 11" using facts(1) by (simp add: p')
    fix j :: nat assume j: "j < 11"
    show "class_ok j (pool_classes p' ! j)"
      using j facts(1) facts(2) [OF j] b fl
      by (auto simp: p' nth_class_update class_ok_def distinct_butlast)
    show "a \<in> set (free_list (pool_classes p' ! j)) \<longleftrightarrow>
        (\<exists>h. heap_blocks p' a = Some h \<and> ref_count h = 0 \<and> unat (size_class_index h) = j)" for a
      using j facts(1) facts(6) [OF j, of a] b fl mem h0 h
      by (auto simp: p' nth_class_update)
  next
    fix a h' assume "heap_blocks p' a = Some h'"
    then show "BlockData a \<noteq> 0" "header_ok h'" "ref_count h' = 0 \<Longrightarrow> pooled h'"
      using facts(3-5) h h0 by (auto simp: p' header_ok_def split: if_splits)
  qed
  moreover have "live_refs p' = (live_refs p)(BlockData header := 1)"
    by (simp add: p' live_refs_def fun_eq_iff)
  ultimately show ?thesis
    using h h0 i facts(3) [OF h] class_capacity_eq(2) [of n]
    by (auto simp: allocated_fresh_def live_refs_def block_capacity_def p' header_ok_def)
qed

lemma Allocate_spec:
  assumes inv: "pool_inv p" and fresh: "fresh_block addr p" and n: "n > 0"
  shows "\<exists>d p'. Allocate addr n p = Some (d, p') \<and> allocated_fresh n d p p'"
proof (cases "SizeToClassIndex n = kInvalidClassIndex")
  case True
  let ?p = "p\<lparr>pool_requests := pool_requests p + 1, fallback_allocations := fallback_allocations p + 1\<rparr>"
  have "pool_inv ?p" using inv by (rule pool_inv_cong) (use pool_invD [OF inv] in \<open>simp_all add: class_ok_def\<close>)
  moreover have "fresh_block addr ?p" using fresh by (simp add: fresh_block_def)
  ultimately have "allocated_fresh n d ?p p'"
    if "AllocateNewBlock addr n kInvalidClassIndex False ?p = (d, p')" for d p'
    using AllocateNewBlock_spec [of ?p addr _ n False] that True by simp
  with True n show ?thesis
    by (cases "AllocateNewBlock addr n kInvalidClassIndex False ?p")
      (simp add: Allocate_def Let_def allocated_fresh_def)
next
  case False
  define i where "i = SizeToClassIndex n"
  from SizeToClassIndex_spec [of n i] False have i: "i < 11" "i = SizeToClassIndex n"
    by (auto simp: i_def split: if_splits)
  let ?b = "pool_classes p ! i"
  let ?b1 = "?b\<lparr>requests := requests ?b + 1, total_requests := total_requests ?b + 1\<rparr>"
  show ?thesis
  proof (cases "free_list ?b = []")
    case True
    let ?p = "p\<lparr>pool_requests := pool_requests p + 1, pool_classes := (pool_classes p)[i := ?b1]\<rparr>"
    have "pool_inv ?p"
      using inv by (rule pool_inv_cong)
        (use pool_invD(1,2) [OF inv] in \<open>auto simp: class_ok_def nth_class_update\<close>)
    moreover have "fresh_block addr ?p" using fresh by (simp add: fresh_block_def)
    ultimately have "allocated_fresh n d ?p p'"
      if "AllocateNewBlock addr n i True ?p = (d, p')" for d p'
      using AllocateNewBlock_spec that i by blast
    with True n False show ?thesis
      by (cases "AllocateNewBlock addr n i True ?p")
        (simp add: Allocate_def Let_def i_def allocated_fresh_def)
  next
    case cached: False
    define header where "header = last (free_list ?b)"
    have "header \<in> set (free_list ?b)" using cached by (simp add: header_def)
    then obtain h where h: "heap_blocks p header = Some h"
      using pool_invD(6) [OF inv i(1)] by blast
    show ?thesis
      using n False cached h
      by (simp add: Allocate_def Let_def i_def [symmetric] header_def [symmetric]
          Allocate_cached [OF inv i header_def refl cached h _ _ _ refl])
  qed
qed


subsection \<open>References and release\<close>

text \<open>What an operation other than allocation leaves alone: the capacity of a referenced block.\<close>

definition keeps_capacity :: "PacketBufferPool \<Rightarrow> PacketBufferPool \<Rightarrow> bool" where
  "keeps_capacity p p' \<longleftrightarrow> (\<forall>d. live_refs p' d > 0 \<longrightarrow> block_capacity p' d = block_capacity p d)"

lemma keeps_capacity_trans:
  "keeps_capacity p q \<Longrightarrow> keeps_capacity q r \<Longrightarrow> (\<And>d. live_refs r d > 0 \<Longrightarrow> live_refs q d > 0) \<Longrightarrow>
   keeps_capacity p r"
  by (simp add: keeps_capacity_def)

lemma Retain_spec:
  assumes inv: "pool_inv p" and live: "live_refs p d > 0" and room: "live_refs p d + 1 < 2 ^ 32"
  shows "\<exists>p'. Retain d p = Some p' \<and> pool_inv p' \<and>
    live_refs p' = (live_refs p)(d := live_refs p d + 1) \<and> keeps_capacity p p'"
proof -
  obtain h where h: "heap_blocks p (HeaderFromData d) = Some h" "ref_count h \<noteq> 0" "d \<noteq> 0"
    using live_refs_pos [OF inv live] .
  let ?h = "h\<lparr>ref_count := ref_count h + 1\<rparr>"
  have cnt: "unat (ref_count h + 1) = live_refs p d + 1"
    using room h(1) by (simp add: live_refs_def unat_word_ariths)
  have "ref_count h + 1 \<noteq> 0" using cnt by (metis add_is_0 one_neq_zero unat_0)
  moreover have "HeaderFromData d \<notin> set (free_list (pool_classes p ! i))" if "i < 11" for i
    using pool_invD(6) [OF inv that] h by auto
  ultimately have "pool_inv (p\<lparr>heap_blocks := (heap_blocks p)(HeaderFromData d \<mapsto> ?h)\<rparr>)"
    using pool_invD(4) [OF inv h(1)] h(3) by (intro pool_inv_write inv) (simp_all add: header_ok_def)
  with h cnt show ?thesis
    by (auto simp: Retain_def live_refs_update keeps_capacity_def block_capacity_def)
qed

lemma pool_inv_delete:
  assumes inv: "pool_inv p" and a: "\<And>i. i < 11 \<Longrightarrow> a \<notin> set (free_list (pool_classes p ! i))"
  shows "pool_inv (p\<lparr>heap_blocks := (heap_blocks p)(a := None)\<rparr>)"
  using assms unfolding pool_inv_def by auto

text \<open>Cached blocks removed from a free list and then deleted one by one.\<close>

definition trimming :: "u64 list \<Rightarrow> PacketBufferPool \<Rightarrow> bool" where
  "trimming out p \<longleftrightarrow> distinct out \<and>
     (\<forall>a\<in>set out. \<exists>h. heap_blocks p a = Some h \<and> ref_count h = 0) \<and>
     pool_inv (p\<lparr>heap_blocks := heap_blocks p |` (- set out)\<rparr>)"

lemma delete_blocks_spec:
  "trimming out p \<Longrightarrow> \<exists>p'. delete_blocks out p = Some p' \<and> pool_inv p' \<and>
     live_refs p' = live_refs p \<and> keeps_capacity p p' \<and> pool_classes p' = pool_classes p"
proof (induction out arbitrary: p)
  case Nil
  have "m |` UNIV = m" for m :: "u64 \<rightharpoonup> BlockHeader" by (simp add: restrict_map_def)
  with Nil show ?case by (simp add: trimming_def keeps_capacity_def)
next
  case (Cons a out)
  let ?p = "p\<lparr>heap_blocks := (heap_blocks p)(a := None)\<rparr>"
  obtain h where h: "heap_blocks p a = Some h" "ref_count h = 0"
    using Cons.prems by (auto simp: trimming_def)
  have "heap_blocks ?p |` (- set out) = heap_blocks p |` (- set (a # out))"
    by (auto simp: restrict_map_def)
  then have "trimming out ?p" using Cons.prems by (auto simp: trimming_def)
  from Cons.IH [OF this] obtain p' where p': "delete_blocks out ?p = Some p'" "pool_inv p'"
    "live_refs p' = live_refs ?p" "keeps_capacity ?p p'" "pool_classes p' = pool_classes p" by auto
  have refs: "live_refs ?p = live_refs p"
    using h by (auto simp: live_refs_def fun_eq_iff)
  have "keeps_capacity p ?p" using h by (auto simp: keeps_capacity_def block_capacity_def live_refs_def)
  then have "keeps_capacity p p'" using p'(4) by (rule keeps_capacity_trans) (simp add: p'(3))
  with p' h refs show ?case by (simp add: delete_block_def)
qed

lemma TrimClassCache_spec:
  assumes inv: "pool_inv p" and i: "i < 11"
  shows "\<exists>p'. TrimClassCache i target p = Some p' \<and> pool_inv p' \<and>
     live_refs p' = live_refs p \<and> keeps_capacity p p' \<and>
     length (free_list (pool_classes p' ! i)) \<le> target"
proof (cases "length (free_list (pool_classes p ! i)) \<le> target")
  case True
  with inv show ?thesis by (simp add: TrimClassCache_def keeps_capacity_def)
next
  case False
  let ?b = "pool_classes p ! i" and ?fl = "free_list (pool_classes p ! i)"
  let ?q = "p\<lparr>pool_classes := (pool_classes p)[i := ?b\<lparr>free_list := take target ?fl\<rparr>]\<rparr>"
  let ?out = "rev (drop target ?fl)"
  note facts = pool_invD [OF inv]
  have dist: "distinct (take target ?fl @ drop target ?fl)"
    using facts(2) [OF i] by (simp add: class_ok_def)
  have mem: "a \<in> set (take target ?fl) \<longleftrightarrow> a \<in> set ?fl \<and> a \<notin> set ?out" for a
    using dist set_append [of "take target ?fl" "drop target ?fl"]
      set_take_disj_set_drop_if_distinct [of ?fl target target] by auto
  have out: "\<exists>h. heap_blocks p a = Some h \<and> ref_count h = 0 \<and> unat (size_class_index h) = i"
    if "a \<in> set ?out" for a
    using that facts(6) [OF i, of a] by (auto dest: in_set_dropD)
  have "pool_inv (?q\<lparr>heap_blocks := heap_blocks ?q |` (- set ?out)\<rparr>)"
    unfolding pool_inv_def
  proof (intro conjI allI impI)
    show "length (pool_classes (?q\<lparr>heap_blocks := heap_blocks ?q |` (- set ?out)\<rparr>)) = 11"
      using facts(1) by simp
    fix j :: nat assume j: "j < 11"
    show "class_ok j (pool_classes (?q\<lparr>heap_blocks := heap_blocks ?q |` (- set ?out)\<rparr>) ! j)"
      using facts(1) facts(2) [OF j] dist j by (auto simp: nth_class_update class_ok_def)
    show "a \<in> set (free_list (pool_classes (?q\<lparr>heap_blocks := heap_blocks ?q |` (- set ?out)\<rparr>) ! j)) \<longleftrightarrow>
        (\<exists>h. heap_blocks (?q\<lparr>heap_blocks := heap_blocks ?q |` (- set ?out)\<rparr>) a = Some h \<and>
          ref_count h = 0 \<and> unat (size_class_index h) = j)" for a
      using facts(1) facts(6) [OF j, of a] mem [of a] out [of a] j
      by (auto simp: nth_class_update restrict_map_def)
  next
    fix a h assume "heap_blocks (?q\<lparr>heap_blocks := heap_blocks ?q |` (- set ?out)\<rparr>) a = Some h"
    then have "heap_blocks p a = Some h" by (auto simp: restrict_map_def split: if_splits)
    then show "BlockData a \<noteq> 0" "header_ok h" "ref_count h = 0 \<Longrightarrow> pooled h" using facts(3-5) by auto
  qed
  then have "trimming ?out ?q" using dist out by (auto simp: trimming_def)
  from delete_blocks_spec [OF this] False facts(1) i show ?thesis
    by (auto simp: TrimClassCache_def Let_def keeps_capacity_def)
qed


text \<open>Operations that only manage the cache.\<close>

definition cache_step :: "PacketBufferPool \<Rightarrow> PacketBufferPool option \<Rightarrow> bool" where
  "cache_step p res \<longleftrightarrow> (\<exists>p'. res = Some p' \<and> pool_inv p' \<and> live_refs p' = live_refs p \<and> keeps_capacity p p')"

lemma cache_step_trans:
  assumes "cache_step p (Some q)" and "cache_step q res"
  shows "cache_step p res"
proof -
  from assms obtain r where "res = Some r" "pool_inv r" "live_refs r = live_refs p"
    "keeps_capacity p q" "keeps_capacity q r" "live_refs q = live_refs p"
    by (auto simp: cache_step_def)
  then show ?thesis using keeps_capacity_trans [of p q r] by (auto simp: cache_step_def)
qed

lemma cache_step_classes:
  assumes "pool_inv p" and "length cs = 11"
    and "\<And>i. i < 11 \<Longrightarrow> free_list (cs ! i) = free_list (pool_classes p ! i) \<and>
      block_size (cs ! i) = block_size (pool_classes p ! i) \<and> 8 \<le> target_cached_blocks (cs ! i)"
  shows "cache_step p (Some (p\<lparr>pool_classes := cs\<rparr>))"
proof -
  have "pool_inv (p\<lparr>pool_classes := cs\<rparr>)" using assms(1) by (rule pool_inv_cong) (use assms in auto)
  then show ?thesis by (simp add: cache_step_def keeps_capacity_def)
qed

lemma retune_loop_spec:
  "pool_inv p \<Longrightarrow> i + length targets \<le> 11 \<Longrightarrow> cache_step p (retune_loop targets i p)"
proof (induction targets arbitrary: i p)
  case Nil
  then show ?case by (simp add: cache_step_def keeps_capacity_def)
next
  case (Cons target rest)
  let ?t = "if target < kMinTargetPerClass then kMinTargetPerClass else target"
  let ?p = "p\<lparr>pool_classes := (pool_classes p)[i := (pool_classes p ! i)\<lparr>target_cached_blocks := ?t\<rparr>]\<rparr>"
  have i: "i < 11" using Cons.prems by simp
  have step: "cache_step p (Some ?p)"
    using pool_invD(1,2) [OF Cons.prems(1)] i
    by (intro cache_step_classes Cons.prems) (auto simp: nth_class_update class_ok_def pool_constants)
  then have "pool_inv ?p" by (simp add: cache_step_def)
  from TrimClassCache_spec [OF this i] obtain q where
    q: "TrimClassCache i ?t ?p = Some q" "cache_step ?p (Some q)" by (auto simp: cache_step_def)
  then have "cache_step q (retune_loop rest (i + 1) q)"
    using Cons.prems by (intro Cons.IH) (auto simp: cache_step_def)
  with step q show ?case by (auto simp: Let_def intro: cache_step_trans)
qed

lemma MaybeRetune_spec:
  assumes "pool_inv p"
  shows "cache_step p (MaybeRetune try_lock computed p)"
proof -
  let ?p = "p\<lparr>pool_classes := map (\<lambda>b. b\<lparr>requests := 0\<rparr>) (pool_classes p)\<rparr>"
  have step: "cache_step p (Some ?p)"
    using pool_invD(1,2) [OF assms] by (intro cache_step_classes assms) (auto simp: class_ok_def)
  then have "cache_step ?p (retune_loop (take kClassCount targets) 0 ?p)" for targets
    by (intro retune_loop_spec) (auto simp: cache_step_def kClassCount_def)
  with step have "cache_step p (RetuneTargets computed p)"
    by (auto simp: RetuneTargets_def Let_def intro: cache_step_trans split: option.splits)
  then show ?thesis
    using assms by (simp add: MaybeRetune_def cache_step_def keeps_capacity_def)
qed

lemma BoostClassCacheForSize_spec:
  assumes "pool_inv p"
  shows "cache_step p (Some (BoostClassCacheForSize n min_target p))"
proof -
  define i where "i = SizeToClassIndex n"
  let ?b = "pool_classes p ! i"
  have "cache_step p (Some (p\<lparr>pool_classes :=
      (pool_classes p)[i := ?b\<lparr>target_cached_blocks := min_target\<rparr>]\<rparr>))"
    if "i < 11" "target_cached_blocks ?b < min_target"
    using pool_invD(1,2) [OF assms] that
    by (intro cache_step_classes assms) (force simp: nth_class_update class_ok_def)+
  moreover have "i = kInvalidClassIndex \<or> i < 11"
    using SizeToClassIndex_spec [of n i] by (auto simp: i_def split: if_splits)
  moreover have "cache_step p (Some p)" using assms by (simp add: cache_step_def keeps_capacity_def)
  ultimately show ?thesis by (auto simp: BoostClassCacheForSize_def Let_def i_def [symmetric])
qed

lemma ResetStats_spec: "pool_inv p \<Longrightarrow> cache_step p (Some (ResetStats p))"
proof -
  assume inv: "pool_inv p"
  have "pool_inv (ResetStats p)"
    using inv by (rule pool_inv_cong)
      (use pool_invD(1,2) [OF inv] in \<open>simp_all add: ResetStats_def class_ok_def\<close>)
  then show ?thesis by (simp add: cache_step_def ResetStats_def keeps_capacity_def)
qed

text \<open>The last reference: the block goes to the free list of its class or back to the system.\<close>

lemma pool_inv_cache_block:
  assumes inv: "pool_inv p" and h: "heap_blocks p a = Some h" "pooled h" "ref_count h \<noteq> 0"
    and i: "i = unat (size_class_index h)"
  shows "pool_inv (p\<lparr>heap_blocks := (heap_blocks p)(a \<mapsto> h\<lparr>ref_count := 0\<rparr>),
    pool_classes := (pool_classes p)[i := (pool_classes p ! i)\<lparr>free_list :=
      free_list (pool_classes p ! i) @ [a]\<rparr>]\<rparr>)" (is "pool_inv ?p")
proof -
  note facts = pool_invD [OF inv]
  have i': "i < 11" using facts(4) [OF h(1)] h(2) i by (simp add: header_ok_def)
  have new: "a \<notin> set (free_list (pool_classes p ! j))" if "j < 11" for j
    using facts(6) [OF that, of a] h by auto
  show ?thesis
    unfolding pool_inv_def
  proof (intro conjI allI impI)
    show "length (pool_classes ?p) = 11" using facts(1) by simp
    fix j :: nat assume j: "j < 11"
    show "class_ok j (pool_classes ?p ! j)"
      using facts(1) facts(2) [OF j] new [OF j] j by (auto simp: nth_class_update class_ok_def)
    show "b \<in> set (free_list (pool_classes ?p ! j)) \<longleftrightarrow>
        (\<exists>h. heap_blocks ?p b = Some h \<and> ref_count h = 0 \<and> unat (size_class_index h) = j)" for b
      using facts(1) facts(6) [OF j, of b] new [OF j] i j by (auto simp: nth_class_update)
  next
    fix b h' assume "heap_blocks ?p b = Some h'"
    then show "BlockData b \<noteq> 0" "header_ok h'" "ref_count h' = 0 \<Longrightarrow> pooled h'"
      using facts(3-5) h by (auto simp: header_ok_def split: if_splits)
  qed
qed

lemma Release_spec:
  assumes inv: "pool_inv p" and live: "live_refs p d > 0"
  shows "\<exists>p'. Release try_lock computed d p = Some p' \<and> pool_inv p' \<and>
    live_refs p' = (live_refs p)(d := live_refs p d - 1) \<and> keeps_capacity p p'"
proof -
  obtain h where h: "heap_blocks p (HeaderFromData d) = Some h" "ref_count h \<noteq> 0" "d \<noteq> 0"
    using live_refs_pos [OF inv live] .
  note facts = pool_invD [OF inv]
  let ?a = "HeaderFromData d"
  have refs: "live_refs p d = unat (ref_count h)" using h by (simp add: live_refs_def)
  have out: "?a \<notin> set (free_list (pool_classes p ! j))" if "j < 11" for j
    using facts(6) [OF that, of ?a] h by auto
  let ?w = "p\<lparr>heap_blocks := (heap_blocks p)(?a \<mapsto> h\<lparr>ref_count := ref_count h - 1\<rparr>)\<rparr>"
  have cnt: "unat (ref_count h - 1) = live_refs p d - 1" using h(2) refs by (simp add: unat_minus_one)
  have del: "delete_block ?a ?w = Some (p\<lparr>heap_blocks := (heap_blocks p)(?a := None)\<rparr>)"
    by (simp add: delete_block_def)
  have dead: "pool_inv (p\<lparr>heap_blocks := (heap_blocks p)(?a := None)\<rparr>)"
    by (rule pool_inv_delete [OF inv out])
  show ?thesis
  proof (cases "ref_count h = 1")
    case False
    have "pool_inv ?w"
      using facts(4) [OF h(1)] h False out
      by (intro pool_inv_write inv) (auto simp: header_ok_def)
    with h False cnt show ?thesis
      by (auto simp: Release_def Let_def live_refs_update keeps_capacity_def block_capacity_def)
  next
    case last: True
    let ?i = "unat (size_class_index h)"
    show ?thesis
    proof (cases "\<not> pooled h \<or> ?i = kInvalidClassIndex")
      case True
      with h last del dead refs show ?thesis
        by (auto simp: Release_def Let_def live_refs_delete keeps_capacity_def block_capacity_def)
    next
      case False
      let ?b = "pool_classes p ! ?i"
      define q where "q = (if length (free_list ?b) < target_cached_blocks ?b
        then ?w\<lparr>pool_classes := (pool_classes p)[?i := ?b\<lparr>free_list := free_list ?b @ [?a]\<rparr>]\<rparr>
        else p\<lparr>heap_blocks := (heap_blocks p)(?a := None)\<rparr>)"
      have "pool_inv q"
        using pool_inv_cache_block [OF inv h(1) _ h(2) refl] False dead last by (simp add: q_def)
      from MaybeRetune_spec [OF this, of try_lock computed] obtain p' where
        p': "MaybeRetune try_lock computed q = Some p'" "pool_inv p'" "live_refs p' = live_refs q"
        "keeps_capacity q p'" by (auto simp: cache_step_def)
      have "Release try_lock computed d p = MaybeRetune try_lock computed q"
        using h last False del by (simp add: Release_def Let_def q_def)
      moreover have "live_refs q = (live_refs p)(d := live_refs p d - 1)"
        using last refs cnt by (simp add: q_def live_refs_update live_refs_delete)
      moreover have "keeps_capacity p q"
        using last refs h(1) by (auto simp: q_def keeps_capacity_def block_capacity_def live_refs_update
            live_refs_delete split: if_splits)
      ultimately show ?thesis using p' keeps_capacity_trans [of p q p'] by auto
    qed
  qed
qed

end
