(* ===== verification/Packet_Ownership.thy ===== *)
theory Packet_Ownership
  imports Buffer_Pool "HOL-Library.Multiset"
begin

text \<open>
  The special members of \<^verbatim>\<open>OutgoingPacket\<close> (\<^verbatim>\<open>src/znet/z_packets.h\<close>): construction, copy,
  move, assignment and destruction over the shared payload blocks of the buffer pool, and the
  ownership discipline they follow.  A program is any sequence of these operations on a list of
  live packet objects.
\<close>

subsection \<open>Reference-counted handles\<close>

text \<open>
  The contract of a pool of reference-counted blocks, and what its clients gain from it: as long
  as the references in the pool are the handles the clients hold, no operation faults.
\<close>

definition owned :: "('s \<Rightarrow> bool) \<Rightarrow> ('s \<Rightarrow> 'h \<Rightarrow> nat) \<Rightarrow> 'h multiset \<Rightarrow> 's \<Rightarrow> bool" where
  "owned ok refs M s \<longleftrightarrow> ok s \<and> refs s = count M"

locale handle_pool =
  fixes ok :: "'s \<Rightarrow> bool"
    and refs :: "'s \<Rightarrow> 'h \<Rightarrow> nat"
    and cap :: "'s \<Rightarrow> 'h \<Rightarrow> nat"
    and fresh :: "'a \<Rightarrow> 's \<Rightarrow> bool"
    and alloc :: "'a \<Rightarrow> nat \<Rightarrow> 's \<Rightarrow> ('h \<times> 's) option"
    and retain :: "'h \<Rightarrow> 's \<Rightarrow> 's option"
    and release :: "'e \<Rightarrow> 'h \<Rightarrow> 's \<Rightarrow> 's option"
    and limit :: nat
  assumes alloc_law: "ok s \<Longrightarrow> fresh a s \<Longrightarrow> n > 0 \<Longrightarrow>
      \<exists>h s'. alloc a n s = Some (h, s') \<and> ok s' \<and> refs s h = 0 \<and> refs s' = (refs s)(h := 1) \<and>
        n \<le> cap s' h \<and> (\<forall>k. k \<noteq> h \<longrightarrow> cap s' k = cap s k)"
    and retain_law: "ok s \<Longrightarrow> refs s h > 0 \<Longrightarrow> refs s h + 1 < limit \<Longrightarrow>
      \<exists>s'. retain h s = Some s' \<and> ok s' \<and> refs s' = (refs s)(h := refs s h + 1) \<and>
        (\<forall>k. refs s' k > 0 \<longrightarrow> cap s' k = cap s k)"
    and release_law: "ok s \<Longrightarrow> refs s h > 0 \<Longrightarrow>
      \<exists>s'. release e h s = Some s' \<and> ok s' \<and> refs s' = (refs s)(h := refs s h - 1) \<and>
        (\<forall>k. refs s' k > 0 \<longrightarrow> cap s' k = cap s k)"
begin

lemma alloc_owned:
  assumes "owned ok refs M s" and "fresh a s" and "n > 0"
  shows "\<exists>h s'. alloc a n s = Some (h, s') \<and> owned ok refs (add_mset h M) s' \<and> h \<notin># M \<and>
    n \<le> cap s' h \<and> (\<forall>k\<in>#M. cap s' k = cap s k)"
proof -
  from alloc_law [of s a n] assms obtain h s' where
    "alloc a n s = Some (h, s')" "ok s'" "refs s h = 0" "refs s' = (refs s)(h := 1)"
    "n \<le> cap s' h" "\<forall>k. k \<noteq> h \<longrightarrow> cap s' k = cap s k" by (auto simp: owned_def)
  with assms(1) show ?thesis
    by (intro exI [of _ h] exI [of _ s']) (auto simp: owned_def count_eq_zero_iff fun_eq_iff)
qed

lemma retain_owned:
  assumes "owned ok refs M s" and "h \<in># M" and "size M + 1 < limit"
  shows "\<exists>s'. retain h s = Some s' \<and> owned ok refs (add_mset h M) s' \<and> (\<forall>k\<in>#M. cap s' k = cap s k)"
proof -
  have "count M h \<le> size M" by (rule count_le_size)
  with retain_law [of s h] assms obtain s' where
    "retain h s = Some s'" "ok s'" "refs s' = (refs s)(h := refs s h + 1)"
    "\<forall>k. refs s' k > 0 \<longrightarrow> cap s' k = cap s k" by (auto simp: owned_def)
  with assms(1) show ?thesis
    by (intro exI [of _ s']) (auto simp: owned_def fun_eq_iff count_greater_zero_iff)
qed

lemma release_owned:
  assumes "owned ok refs M s" and "h \<in># M"
  shows "\<exists>s'. release e h s = Some s' \<and> owned ok refs (M - {#h#}) s' \<and>
    (\<forall>k\<in>#M - {#h#}. cap s' k = cap s k)"
proof -
  from release_law [of s h e] assms obtain s' where
    s': "release e h s = Some s'" "ok s'" "refs s' = (refs s)(h := refs s h - 1)"
    "\<forall>k. refs s' k > 0 \<longrightarrow> cap s' k = cap s k" by (auto simp: owned_def)
  moreover have "refs s' = count (M - {#h#})" using s'(3) assms(1) by (auto simp: owned_def fun_eq_iff)
  ultimately show ?thesis
    by (intro exI [of _ s']) (auto simp: owned_def simp flip: count_greater_zero_iff)
qed

end

interpretation pool: handle_pool pool_inv live_refs block_capacity fresh_block Allocate Retain
  "\<lambda>(try_lock, computed). Release try_lock computed" "2 ^ 32"
proof unfold_locales
  show "\<exists>h s'. Allocate a n s = Some (h, s') \<and> pool_inv s' \<and> live_refs s h = 0 \<and>
      live_refs s' = (live_refs s)(h := 1) \<and> n \<le> block_capacity s' h \<and>
      (\<forall>k. k \<noteq> h \<longrightarrow> block_capacity s' k = block_capacity s k)"
    if "pool_inv s" "fresh_block a s" "n > 0" for s a n
    using Allocate_spec [OF that] class_capacity_ge [of n] by (auto simp: allocated_fresh_def)
  show "\<exists>s'. Retain h s = Some s' \<and> pool_inv s' \<and> live_refs s' = (live_refs s)(h := live_refs s h + 1) \<and>
      (\<forall>k. live_refs s' k > 0 \<longrightarrow> block_capacity s' k = block_capacity s k)"
    if "pool_inv s" "live_refs s h > 0" "live_refs s h + 1 < 2 ^ 32" for s h
    using Retain_spec [OF that] by (auto simp: keeps_capacity_def)
  show "\<exists>s'. (\<lambda>(try_lock, computed). Release try_lock computed) e h s = Some s' \<and> pool_inv s' \<and>
      live_refs s' = (live_refs s)(h := live_refs s h - 1) \<and>
      (\<forall>k. live_refs s' k > 0 \<longrightarrow> block_capacity s' k = block_capacity s k)"
    if "pool_inv s" "live_refs s h > 0" for s h e
    using Release_spec [OF that, of "fst e" "snd e"]
    by (auto simp: keeps_capacity_def split: prod.splits)
qed

subsection \<open>The special members of OutgoingPacket\<close>

type_synonym retune_env = "bool \<times> nat list option"

definition ReleasePayload ::
  "retune_env \<Rightarrow> OutgoingPacket \<Rightarrow> PacketBufferPool \<Rightarrow> (OutgoingPacket \<times> PacketBufferPool) option" where
  "ReleasePayload env this p =
     (case (if heap_data_size this > 0 \<and> payload_bits (op_payload this) \<noteq> 0
            then Release (fst env) (snd env) (payload_bits (op_payload this)) p else Some p) of
        None \<Rightarrow> None
      | Some p \<Rightarrow> Some (this\<lparr>heap_data_size := 0, op_payload := Scalar 0\<rparr>, p))"

definition CopyPayloadFrom ::
  "OutgoingPacket \<Rightarrow> OutgoingPacket \<Rightarrow> PacketBufferPool \<Rightarrow> (OutgoingPacket \<times> PacketBufferPool) option" where
  "CopyPayloadFrom other this p =
     (if heap_data_size other > 0 \<and> payload_bits (op_payload other) \<noteq> 0 then
        (case Retain (payload_bits (op_payload other)) p of
           None \<Rightarrow> None
         | Some p \<Rightarrow> Some (this\<lparr>heap_data_size := heap_data_size other, op_payload := op_payload other\<rparr>, p))
      else Some (this\<lparr>heap_data_size := 0, op_payload := Scalar (payload_bits (op_payload other))\<rparr>, p))"

definition moved_from :: "OutgoingPacket \<Rightarrow> OutgoingPacket" where
  "moved_from other = other\<lparr>op_payload := Scalar 0, heap_data_size := 0\<rparr>"

definition copy_construct ::
  "OutgoingPacket \<Rightarrow> PacketBufferPool \<Rightarrow> (OutgoingPacket \<times> PacketBufferPool) option" where
  "copy_construct other p =
     CopyPayloadFrom other
       \<lparr>op_channel = op_channel other, op_flags = op_flags other, op_type = op_type other,
        heap_data_size = 0, last_send_time = last_send_time other,
        destination_peer_id = destination_peer_id other, op_payload = Scalar 0\<rparr> p"

definition move_construct :: "OutgoingPacket \<Rightarrow> OutgoingPacket \<times> OutgoingPacket" where
  "move_construct other = (other, moved_from other)"

definition construct_with_data ::
  "u64 \<Rightarrow> u32 \<Rightarrow> PacketType \<Rightarrow> PacketChannelType \<Rightarrow> PackageFlags \<Rightarrow> byte list \<Rightarrow> PacketBufferPool \<Rightarrow>
   (OutgoingPacket \<times> PacketBufferPool) option" where
  "construct_with_data addr peer_id type channel flags data p =
     (if (of_nat (length data) :: u32) > 0 then
        (case Allocate addr (length data) p of
           None \<Rightarrow> None
         | Some (block, p) \<Rightarrow>
             if block_capacity p block < length data then None
             else Some (OutgoingPacket_with_data block peer_id type channel flags data, p))
      else Some (OutgoingPacket_with_data 0 peer_id type channel flags data, p))"

definition copy_assign ::
  "retune_env \<Rightarrow> OutgoingPacket \<Rightarrow> OutgoingPacket \<Rightarrow> PacketBufferPool \<Rightarrow>
   (OutgoingPacket \<times> PacketBufferPool) option" where
  "copy_assign env this other p =
     (case ReleasePayload env this p of
        None \<Rightarrow> None
      | Some (this, p) \<Rightarrow>
          CopyPayloadFrom other
            (this\<lparr>op_type := op_type other, op_flags := op_flags other, op_channel := op_channel other,
                  last_send_time := last_send_time other,
                  destination_peer_id := destination_peer_id other\<rparr>) p)"

definition move_assign ::
  "retune_env \<Rightarrow> OutgoingPacket \<Rightarrow> OutgoingPacket \<Rightarrow> PacketBufferPool \<Rightarrow>
   (OutgoingPacket \<times> OutgoingPacket \<times> PacketBufferPool) option" where
  "move_assign env this other p =
     (case ReleasePayload env this p of
        None \<Rightarrow> None
      | Some (this, p) \<Rightarrow>
          Some (this\<lparr>op_type := op_type other, op_flags := op_flags other, op_channel := op_channel other,
                     heap_data_size := heap_data_size other,
                     last_send_time := last_send_time other,
                     destination_peer_id := destination_peer_id other,
                     op_payload := op_payload other\<rparr>, moved_from other, p))"

text \<open>The memcpy of the constructor writes \<open>length data\<close> bytes: a smaller block is a fault.\<close>

subsection \<open>Programs over packets\<close>

datatype packet_op =
    NewData u64 u32 PacketType PacketChannelType PackageFlags "byte list"
  | NewScalar u32 PacketType PacketChannelType PackageFlags
  | Copy nat
  | Move nat
  | Assign retune_env nat nat
  | MoveAssign retune_env nat nat
  | Destroy retune_env nat

type_synonym packet_world = "OutgoingPacket list \<times> PacketBufferPool"

text \<open>Assigning a packet to itself does nothing, as the code's address comparison has it.\<close>

fun packet_step :: "packet_op \<Rightarrow> packet_world \<Rightarrow> packet_world option" where
  "packet_step (NewData addr peer_id type channel flags data) (ps, p) =
     (case construct_with_data addr peer_id type channel flags data p of
        None \<Rightarrow> None | Some (x, p) \<Rightarrow> Some (ps @ [x], p))"
| "packet_step (NewScalar peer_id type channel flags) (ps, p) =
     Some (ps @ [OutgoingPacket_without_data peer_id type channel flags], p)"
| "packet_step (Copy i) (ps, p) =
     (case copy_construct (ps ! i) p of None \<Rightarrow> None | Some (x, p) \<Rightarrow> Some (ps @ [x], p))"
| "packet_step (Move i) (ps, p) =
     (case move_construct (ps ! i) of (x, y) \<Rightarrow> Some (ps[i := y] @ [x], p))"
| "packet_step (Assign env i j) (ps, p) =
     (if i = j then Some (ps, p)
      else case copy_assign env (ps ! i) (ps ! j) p of
             None \<Rightarrow> None | Some (x, p) \<Rightarrow> Some (ps[i := x], p))"
| "packet_step (MoveAssign env i j) (ps, p) =
     (if i = j then Some (ps, p)
      else case move_assign env (ps ! i) (ps ! j) p of
             None \<Rightarrow> None | Some (x, y, p) \<Rightarrow> Some (ps[i := x, j := y], p))"
| "packet_step (Destroy env i) (ps, p) =
     (case ReleasePayload env (ps ! i) p of
        None \<Rightarrow> None | Some (_, p) \<Rightarrow> Some (take i ps @ drop (Suc i) ps, p))"

fun op_allowed :: "packet_op \<Rightarrow> packet_world \<Rightarrow> bool" where
  "op_allowed (NewData addr _ _ _ _ _) (ps, p) = fresh_block addr p"
| "op_allowed (NewScalar _ _ _ _) (ps, p) = True"
| "op_allowed (Copy i) (ps, p) = (i < length ps)"
| "op_allowed (Move i) (ps, p) = (i < length ps)"
| "op_allowed (Assign _ i j) (ps, p) = (i < length ps \<and> j < length ps)"
| "op_allowed (MoveAssign _ i j) (ps, p) = (i < length ps \<and> j < length ps)"
| "op_allowed (Destroy _ i) (ps, p) = (i < length ps)"

text \<open>The worlds a program reaches; fewer than \<open>2 ^ 32 - 1\<close> packets exist at a time.\<close>

inductive packet_world :: "packet_world \<Rightarrow> bool" where
  start: "packet_world ([], new_pool)"
| step: "packet_world w \<Longrightarrow> op_allowed op w \<Longrightarrow> length (fst w) + 1 < 2 ^ 32 \<Longrightarrow>
     packet_step op w = Some w' \<Longrightarrow> packet_world w'"


subsection \<open>The ownership invariant\<close>

definition owned_block :: "OutgoingPacket \<Rightarrow> u64 multiset" where
  "owned_block x = (if heap_data_size x > 0 then {#payload_bits (op_payload x)#} else {#})"

definition handles :: "OutgoingPacket list \<Rightarrow> u64 multiset" where
  "handles ps = (\<Sum>x\<leftarrow>ps. owned_block x)"

definition packet_ok :: "PacketBufferPool \<Rightarrow> OutgoingPacket \<Rightarrow> bool" where
  "packet_ok p x \<longleftrightarrow> (heap_data_size x > 0 \<longrightarrow>
     (\<exists>addr bytes. op_payload x = HeapBlock addr bytes \<and> addr \<noteq> 0 \<and>
        unat (heap_data_size x) \<le> length bytes \<and> length bytes \<le> block_capacity p addr))"

definition world_inv :: "packet_world \<Rightarrow> bool" where
  "world_inv w \<longleftrightarrow> owned pool_inv live_refs (handles (fst w)) (snd w) \<and>
     (\<forall>x\<in>set (fst w). packet_ok (snd w) x)"

lemma handles_append [simp]: "handles (xs @ ys) = handles xs + handles ys"
  by (simp add: handles_def)

lemma handles_Nil [simp]: "handles [] = {#}" and handles_single [simp]: "handles [x] = owned_block x"
  by (simp_all add: handles_def)

lemma handles_remove:
  "i < length ps \<Longrightarrow> handles ps = owned_block (ps ! i) + handles (take i ps @ drop (Suc i) ps)"
  by (subst id_take_nth_drop [of i ps]) (simp_all add: handles_def ac_simps)

lemma handles_update:
  "i < length ps \<Longrightarrow> handles (ps[i := y]) = owned_block y + handles (take i ps @ drop (Suc i) ps)"
  by (simp add: upd_conv_take_nth_drop handles_def ac_simps)

lemma owned_block_in: "i < length ps \<Longrightarrow> owned_block (ps ! i) \<subseteq># handles ps"
  by (metis handles_remove mset_subset_eq_add_left)

lemma handles_size: "size (handles ps) \<le> length ps"
proof (induction ps)
  case (Cons x ps)
  then show ?case using handles_append [of "[x]" ps] by (simp add: owned_block_def)
qed simp

lemma packet_ok_mono:
  "packet_ok p x \<Longrightarrow> owned_block x \<subseteq># M \<Longrightarrow> (\<forall>k\<in>#M. block_capacity p' k = block_capacity p k) \<Longrightarrow>
   packet_ok p' x"
  by (auto simp: packet_ok_def owned_block_def)

lemma ReleasePayload_spec:
  assumes "owned pool_inv live_refs (owned_block x + M) p" and "packet_ok p x"
  shows "\<exists>p'. ReleasePayload env x p = Some (x\<lparr>heap_data_size := 0, op_payload := Scalar 0\<rparr>, p') \<and>
    owned pool_inv live_refs M p' \<and> (\<forall>k\<in>#M. block_capacity p' k = block_capacity p k)"
proof (cases "heap_data_size x > 0")
  case True
  let ?a = "payload_bits (op_payload x)"
  from True assms have "owned pool_inv live_refs (add_mset ?a M) p" and a: "?a \<noteq> 0"
    by (auto simp: owned_block_def packet_ok_def)
  from pool.release_owned [OF this(1), of ?a env] obtain p' where
    "Release (fst env) (snd env) ?a p = Some p'" "owned pool_inv live_refs M p'"
    "\<forall>k\<in>#M. block_capacity p' k = block_capacity p k" by (auto simp: case_prod_beta)
  with True a show ?thesis by (simp add: ReleasePayload_def)
next
  case False
  with assms show ?thesis by (simp add: ReleasePayload_def owned_block_def)
qed

lemma CopyPayloadFrom_spec:
  assumes own: "owned pool_inv live_refs M p" and x: "packet_ok p x" "owned_block x \<subseteq># M"
    and room: "size M + 1 < 2 ^ 32"
  shows "\<exists>y p'. CopyPayloadFrom x this p = Some (y, p') \<and> owned pool_inv live_refs (owned_block y + M) p' \<and>
    packet_ok p' y \<and> heap_data_size y = heap_data_size x \<and> (\<forall>k\<in>#M. block_capacity p' k = block_capacity p k)"
proof (cases "heap_data_size x > 0")
  case True
  let ?a = "payload_bits (op_payload x)"
  from True x have a: "?a \<in># M" "?a \<noteq> 0" by (auto simp: owned_block_def packet_ok_def)
  from pool.retain_owned [OF own a(1) room] obtain p' where
    p': "Retain ?a p = Some p'" "owned pool_inv live_refs (add_mset ?a M) p'"
    "\<forall>k\<in>#M. block_capacity p' k = block_capacity p k" by blast
  moreover have "packet_ok p' x" using packet_ok_mono [OF x p'(3)] .
  ultimately show ?thesis
    using True a by (auto simp: CopyPayloadFrom_def owned_block_def packet_ok_def)
next
  case False
  then show ?thesis using own by (simp add: CopyPayloadFrom_def owned_block_def packet_ok_def word_gt_0)
qed

lemma construct_with_data_spec:
  assumes own: "owned pool_inv live_refs M p" and fresh: "fresh_block addr p"
  shows "\<exists>y p'. construct_with_data addr pid ty ch fl data p = Some (y, p') \<and>
    owned pool_inv live_refs (owned_block y + M) p' \<and> packet_ok p' y \<and>
    (\<forall>k\<in>#M. block_capacity p' k = block_capacity p k)"
proof (cases "(of_nat (length data) :: u32) > 0")
  case True
  then have "length data > 0" by (cases data) auto
  from pool.alloc_owned [OF own fresh this] obtain d p' where
    d: "Allocate addr (length data) p = Some (d, p')" "owned pool_inv live_refs (add_mset d M) p'"
    "length data \<le> block_capacity p' d" "\<forall>k\<in>#M. block_capacity p' k = block_capacity p k" by blast
  have "d \<noteq> 0" using d(2) live_refs_pos [of p' d] by (auto simp: owned_def)
  moreover have "unat (of_nat (length data) :: u32) \<le> length data" by (simp add: unat_of_nat)
  ultimately show ?thesis using d True
    by (simp add: construct_with_data_def owned_block_def packet_ok_def OutgoingPacket_with_data_def)
next
  case False
  then show ?thesis using own
    by (simp add: construct_with_data_def owned_block_def packet_ok_def OutgoingPacket_with_data_def)
qed

lemma packet_ok_cong:
  "heap_data_size y = heap_data_size x \<Longrightarrow> op_payload y = op_payload x \<Longrightarrow> packet_ok p y = packet_ok p x"
  "heap_data_size y = 0 \<Longrightarrow> packet_ok p y"
  by (simp_all add: packet_ok_def)

lemma owned_block_cong:
  "heap_data_size y = heap_data_size x \<Longrightarrow> op_payload y = op_payload x \<Longrightarrow> owned_block y = owned_block x"
  "heap_data_size y = 0 \<Longrightarrow> owned_block y = {#}"
  by (simp_all add: owned_block_def)


subsection \<open>Every operation preserves it\<close>

text \<open>The packets that an operation does not touch keep their blocks.\<close>

lemma others_ok:
  assumes "\<forall>x\<in>set ps. packet_ok p x" and "\<forall>k\<in>#handles ps. block_capacity p' k = block_capacity p k"
  shows "\<forall>x\<in>set ps. packet_ok p' x"
proof
  fix x assume "x \<in> set ps"
  then obtain i where "i < length ps" "x = ps ! i" by (auto simp: in_set_conv_nth)
  with assms \<open>x \<in> set ps\<close> owned_block_in [of i ps] packet_ok_mono show "packet_ok p' x" by blast
qed

lemma set_remove_nth: "set (take i ps @ drop (Suc i) ps) \<subseteq> set ps"
  using set_take_subset [of i ps] set_drop_subset [of "Suc i" ps] by auto

lemma world_inv_create:
  assumes inv: "world_inv (ps, p)" and own: "owned pool_inv live_refs (owned_block y + handles ps) p'"
    and "packet_ok p' y" and "\<forall>k\<in>#handles ps. block_capacity p' k = block_capacity p k"
  shows "world_inv (ps @ [y], p')"
  using assms others_ok [of ps p p'] by (simp add: world_inv_def add.commute)

lemma world_inv_replace:
  assumes inv: "\<forall>x\<in>set ps. packet_ok p x" and i: "i < length ps"
    and own: "owned pool_inv live_refs (owned_block y + handles (take i ps @ drop (Suc i) ps)) p'"
    and "packet_ok p' y"
    and "\<forall>k\<in>#handles (take i ps @ drop (Suc i) ps). block_capacity p' k = block_capacity p k"
  shows "world_inv (ps[i := y], p')"
proof -
  let ?r = "take i ps @ drop (Suc i) ps"
  have "\<forall>x\<in>set ?r. packet_ok p' x"
    using others_ok [of ?r p p'] inv set_remove_nth [of i ps] assms(5) by blast
  moreover have "set (ps[i := y]) \<subseteq> insert y (set ?r)"
    using i by (auto simp: upd_conv_take_nth_drop)
  ultimately show ?thesis using assms by (auto simp: world_inv_def handles_update)
qed

lemma release_at:
  assumes inv: "world_inv (ps, p)" and i: "i < length ps"
  obtains p' where
    "ReleasePayload env (ps ! i) p = Some ((ps ! i)\<lparr>heap_data_size := 0, op_payload := Scalar 0\<rparr>, p')"
    "owned pool_inv live_refs (handles (take i ps @ drop (Suc i) ps)) p'"
    "\<forall>k\<in>#handles (take i ps @ drop (Suc i) ps). block_capacity p' k = block_capacity p k"
proof -
  let ?M = "handles (take i ps @ drop (Suc i) ps)"
  have "owned pool_inv live_refs (owned_block (ps ! i) + ?M) p" and "packet_ok p (ps ! i)"
    using inv i by (auto simp: world_inv_def handles_remove [OF i])
  from ReleasePayload_spec [OF this] that show thesis by blast
qed

lemma other_in_rest:
  assumes "i < length ps" "j < length ps" "i \<noteq> j"
  shows "ps ! j \<in> set (take i ps @ drop (Suc i) ps)"
    and "owned_block (ps ! j) \<subseteq># handles (take i ps @ drop (Suc i) ps)"
proof -
  have len: "length (take i ps @ drop (Suc i) ps) = length ps - 1" using assms by simp
  show "ps ! j \<in> set (take i ps @ drop (Suc i) ps)"
  proof (cases "j < i")
    case True
    then have "take i ps ! j = ps ! j" "j < length (take i ps)" using assms by simp_all
    then show ?thesis by (metis UnCI nth_mem set_append)
  next
    case False
    then have "drop (Suc i) ps ! (j - Suc i) = ps ! j" "j - Suc i < length (drop (Suc i) ps)"
      using assms by simp_all
    then show ?thesis by (metis UnCI nth_mem set_append)
  qed
  then show "owned_block (ps ! j) \<subseteq># handles (take i ps @ drop (Suc i) ps)"
    by (metis in_set_conv_nth owned_block_in)
qed

lemma step_assign:
  assumes inv: "world_inv (ps, p)" and ij: "i < length ps" "j < length ps" "i \<noteq> j"
    and room: "length ps + 1 < 2 ^ 32"
  shows "\<exists>x p'. copy_assign env (ps ! i) (ps ! j) p = Some (x, p') \<and> world_inv (ps[i := x], p')"
proof -
  let ?M = "handles (take i ps @ drop (Suc i) ps)"
  obtain q where q:
    "ReleasePayload env (ps ! i) p = Some ((ps ! i)\<lparr>heap_data_size := 0, op_payload := Scalar 0\<rparr>, q)"
    "owned pool_inv live_refs ?M q" "\<forall>k\<in>#?M. block_capacity q k = block_capacity p k"
    by (rule release_at [OF inv ij(1)])
  have src: "packet_ok q (ps ! j)"
    using inv ij q(3) other_in_rest [OF ij] packet_ok_mono [of p "ps ! j" ?M q]
    by (simp add: world_inv_def)
  have "size ?M + 1 < 2 ^ 32" using handles_size [of "take i ps @ drop (Suc i) ps"] ij room by simp
  from CopyPayloadFrom_spec [OF q(2) src other_in_rest(2) [OF ij] this]
  obtain y p' where y: "CopyPayloadFrom (ps ! j)
      ((ps ! i)\<lparr>heap_data_size := 0, op_payload := Scalar 0, op_type := op_type (ps ! j),
        op_flags := op_flags (ps ! j), op_channel := op_channel (ps ! j),
        last_send_time := last_send_time (ps ! j),
        destination_peer_id := destination_peer_id (ps ! j)\<rparr>) q = Some (y, p')"
    "owned pool_inv live_refs (owned_block y + ?M) p'" "packet_ok p' y"
    "\<forall>k\<in>#?M. block_capacity p' k = block_capacity q k" by blast
  have "world_inv (ps[i := y], p')"
    using inv q(3) y by (intro world_inv_replace [where p = p] ij) (auto simp: world_inv_def)
  with q y show ?thesis by (simp add: copy_assign_def)
qed

lemma step_move_assign:
  assumes inv: "world_inv (ps, p)" and ij: "i < length ps" "j < length ps" "i \<noteq> j"
  shows "\<exists>x p'. move_assign env (ps ! i) (ps ! j) p = Some (x, moved_from (ps ! j), p') \<and>
    world_inv (ps[i := x, j := moved_from (ps ! j)], p')"
proof -
  let ?M = "handles (take i ps @ drop (Suc i) ps)"
  obtain q where q:
    "ReleasePayload env (ps ! i) p = Some ((ps ! i)\<lparr>heap_data_size := 0, op_payload := Scalar 0\<rparr>, q)"
    "owned pool_inv live_refs ?M q" "\<forall>k\<in>#?M. block_capacity q k = block_capacity p k"
    by (rule release_at [OF inv ij(1)])
  obtain x where x: "move_assign env (ps ! i) (ps ! j) p = Some (x, moved_from (ps ! j), q)"
    "heap_data_size x = heap_data_size (ps ! j)" "op_payload x = op_payload (ps ! j)"
    using q(1) by (simp add: move_assign_def)
  let ?m = "moved_from (ps ! j)"
  have m: "owned_block ?m = {#}" "packet_ok q ?m" by (simp_all add: moved_from_def owned_block_def packet_ok_def)
  have bx: "owned_block x = owned_block (ps ! j)" using x(2,3) by (rule owned_block_cong(1))
  have okj: "packet_ok q (ps ! j)"
    using inv ij q(3) other_in_rest [OF ij] packet_ok_mono [of p "ps ! j" ?M q]
    by (simp add: world_inv_def)
  then have okx: "packet_ok q x" using x packet_ok_cong(1) [of x "ps ! j" q] by simp
  have "handles (ps[i := x, j := ?m]) + owned_block (ps ! j) = handles (ps[i := x]) + owned_block ?m"
    using ij handles_remove [of j "ps[i := x]"] by (simp add: handles_update [of j "ps[i := x]"])
  then have "handles (ps[i := x, j := ?m]) = ?M"
    using ij m bx by (simp add: handles_update [of i])
  moreover have "\<forall>y\<in>set (take i ps @ drop (Suc i) ps). packet_ok q y"
    using inv q(3) others_ok [of "take i ps @ drop (Suc i) ps" p q] set_remove_nth [of i ps]
    by (auto simp: world_inv_def)
  moreover have "set (ps[i := x, j := ?m]) \<subseteq> {x, ?m} \<union> set (take i ps @ drop (Suc i) ps)"
    using ij(1) set_update_subset_insert [of "ps[i := x]" j ?m]
    by (auto simp: upd_conv_take_nth_drop [of i ps])
  ultimately have "world_inv (ps[i := x, j := ?m], q)" using q(2) okx m(2) by (auto simp: world_inv_def)
  with x show ?thesis by blast
qed

lemma packet_step_ok:
  assumes inv: "world_inv (ps, p)" and "op_allowed op (ps, p)" and room: "length ps + 1 < 2 ^ 32"
  shows "\<exists>w'. packet_step op (ps, p) = Some w' \<and> world_inv w'"
  using assms(2)
proof (cases op)
  case (NewData addr pid ty ch fl data)
  with inv assms(2) construct_with_data_spec [of "handles ps" p addr pid ty ch fl data] show ?thesis
    by (fastforce simp: world_inv_def intro: world_inv_create)
next
  case (NewScalar pid ty ch fl)
  with inv show ?thesis
    by (simp add: world_inv_def owned_block_def packet_ok_def OutgoingPacket_without_data_def)
next
  case (Copy i)
  have size: "size (handles ps) + 1 < 2 ^ 32" using handles_size [of ps] room by simp
  have i: "i < length ps" using Copy assms(2) by simp
  with inv have "owned pool_inv live_refs (handles ps) p" "packet_ok p (ps ! i)"
    by (auto simp: world_inv_def)
  from CopyPayloadFrom_spec [OF this owned_block_in [OF i] size] obtain y p' where
    "copy_construct (ps ! i) p = Some (y, p')"
    "owned pool_inv live_refs (owned_block y + handles ps) p'" "packet_ok p' y"
    "\<forall>k\<in>#handles ps. block_capacity p' k = block_capacity p k"
    unfolding copy_construct_def by blast
  with Copy inv show ?thesis by (simp add: world_inv_create)
next
  case (Move i)
  have i: "i < length ps" using Move assms(2) by simp
  have "owned_block (moved_from (ps ! i)) = {#}" "packet_ok p (moved_from (ps ! i))"
    by (simp_all add: moved_from_def owned_block_def packet_ok_def)
  moreover have "set (ps[i := moved_from (ps ! i)]) \<subseteq> insert (moved_from (ps ! i)) (set ps)"
    by (rule set_update_subset_insert)
  ultimately have "world_inv (ps[i := moved_from (ps ! i)] @ [ps ! i], p)"
    using inv i handles_remove [OF i] by (auto simp: world_inv_def handles_update ac_simps)
  with Move show ?thesis by (simp add: move_construct_def)
next
  case (Assign env i j)
  then show ?thesis
    using inv assms(2) step_assign [OF inv _ _ _ room, of i j env] by (cases "i = j") auto
next
  case (MoveAssign env i j)
  then show ?thesis
    using inv assms(2) step_move_assign [OF inv, of i j env] by (cases "i = j") auto
next
  case (Destroy env i)
  have i: "i < length ps" using Destroy assms(2) by simp
  obtain q where q:
    "ReleasePayload env (ps ! i) p = Some ((ps ! i)\<lparr>heap_data_size := 0, op_payload := Scalar 0\<rparr>, q)"
    "owned pool_inv live_refs (handles (take i ps @ drop (Suc i) ps)) q"
    "\<forall>k\<in>#handles (take i ps @ drop (Suc i) ps). block_capacity q k = block_capacity p k"
    by (rule release_at [OF inv i])
  moreover have "\<forall>x\<in>set (take i ps @ drop (Suc i) ps). packet_ok q x"
    using inv q(3) others_ok [of "take i ps @ drop (Suc i) ps" p q] set_remove_nth [of i ps]
    by (auto simp: world_inv_def)
  ultimately show ?thesis using Destroy by (simp add: world_inv_def)
qed

lemma packet_world_inv: "packet_world w \<Longrightarrow> world_inv w"
proof (induction rule: packet_world.induct)
  case start
  then show ?case by (simp add: world_inv_def owned_def pool_inv_new fun_eq_iff)
next
  case (step w op w')
  then show ?case using packet_step_ok [of "fst w" "snd w" op] by (cases w) auto
qed


subsection \<open>Properties\<close>

text \<open>C7: no program of packet constructions, copies, moves, assignments and destructions ever
  touches a payload block that has been freed, frees one twice or writes past its end: in every
  reachable state every operation succeeds.\<close>

theorem packet_operations_never_fault:
  assumes "packet_world w" and "op_allowed op w" and "length (fst w) + 1 < 2 ^ 32"
  shows "\<exists>w'. packet_step op w = Some w'"
  using packet_step_ok [of "fst w" "snd w" op] packet_world_inv [OF assms(1)] assms(2,3)
  by (cases w) auto

theorem packet_operations_never_fault_witness:
  "\<exists>w'. packet_step (NewData 4096 7 100 Data \<lparr>reliable = True, encrypted = False, compressed = False,
     priority = Low, acknowledged = False, awaiting_ack = False, reserved = False\<rparr> [1, 2, 3])
     ([], new_pool) = Some w'"
  by (rule packet_operations_never_fault [OF packet_world.start])
    (simp_all add: fresh_block_def new_pool_def BlockData_def header_bytes_def)

text \<open>The payload of every live packet is backed by an allocated block at least as large as the
  payload, whose reference count is the number of live packets that share it, and which is in no
  free list, so no later allocation hands it out.\<close>

theorem live_packet_block_valid:
  assumes w: "packet_world (ps, p)" and x: "x \<in> set ps" "heap_data_size x > 0"
  shows "\<exists>addr bytes. op_payload x = HeapBlock addr bytes \<and>
    unat (heap_data_size x) \<le> length bytes \<and> length bytes \<le> block_capacity p addr \<and>
    live_refs p addr = count (handles ps) addr \<and> live_refs p addr > 0 \<and>
    (\<forall>b \<in> set (pool_classes p). HeaderFromData addr \<notin> set (free_list b))"
proof -
  from packet_world_inv [OF w] x obtain addr bytes where
    b: "op_payload x = HeapBlock addr bytes" "unat (heap_data_size x) \<le> length bytes"
      "length bytes \<le> block_capacity p addr"
    and inv: "pool_inv p" "live_refs p = count (handles ps)"
    by (auto simp: world_inv_def packet_ok_def owned_def)
  obtain i where "i < length ps" "ps ! i = x" using x by (auto simp: in_set_conv_nth)
  with owned_block_in [of i ps] x(2) b(1) have pos: "live_refs p addr > 0"
    by (auto simp: inv(2) owned_block_def)
  have "HeaderFromData addr \<notin> set (free_list b)" if mem: "b \<in> set (pool_classes p)" for b
  proof -
    obtain k where k: "k < 11" "b = pool_classes p ! k"
      using mem pool_invD(1) [OF inv(1)] by (auto simp: in_set_conv_nth)
    obtain h where "heap_blocks p (HeaderFromData addr) = Some h" "ref_count h \<noteq> 0"
      using live_refs_pos [OF inv(1) pos] by blast
    with pool_invD(6) [OF inv(1) k(1), of "HeaderFromData addr"] k(2) show ?thesis by simp
  qed
  with b inv(2) pos show ?thesis by auto
qed

definition sample_new :: packet_op where
  "sample_new = NewData 4096 7 100 Data \<lparr>reliable = True, encrypted = False, compressed = False,
     priority = Low, acknowledged = False, awaiting_ack = False, reserved = False\<rparr> [1, 2, 3]"

theorem live_packet_block_valid_witness:
  "\<exists>x p addr. packet_world ([x, x], p) \<and> live_refs p addr = count (handles [x, x]) addr \<and> live_refs p addr > 0"
proof -
  have "\<exists>x p. packet_step sample_new ([], new_pool) = Some ([x], p) \<and> heap_data_size x = 3"
    by (simp add: sample_new_def construct_with_data_def Allocate_def SizeToClassIndex_def Let_def
        pool_constants class_loop.simps AllocateNewBlock_def new_pool_def block_capacity_def
        OutgoingPacket_with_data_def del: upt_Suc)
  then obtain x p where x: "packet_step sample_new ([], new_pool) = Some ([x], p)" "heap_data_size x = 3"
    by blast
  then have w: "packet_world ([x], p)"
    by (intro packet_world.step [OF packet_world.start _ _ x(1)])
      (simp_all add: sample_new_def fresh_block_def new_pool_def BlockData_def header_bytes_def)
  from packet_world_inv [OF w] x(2) obtain addr bytes where
    pl: "op_payload x = HeapBlock addr bytes" "addr \<noteq> 0"
    and p: "pool_inv p" "live_refs p = count (handles [x])"
    by (auto simp: world_inv_def packet_ok_def owned_def)
  have "live_refs p addr = 1" using p x(2) pl by (simp add: owned_block_def)
  then obtain q where q: "Retain addr p = Some q" using Retain_spec [OF p(1), of addr] by auto
  have "x\<lparr>heap_data_size := heap_data_size x, op_payload := op_payload x\<rparr> = x" by simp
  then have copy: "packet_step (Copy 0) ([x], p) = Some ([x, x], q)"
    using x(2) pl q by (cases x) (simp add: copy_construct_def CopyPayloadFrom_def)
  have w2: "packet_world ([x, x], q)"
    by (rule packet_world.step [OF w _ _ copy]) simp_all
  from live_packet_block_valid [OF w2, of x] x(2) w2 show ?thesis by auto
qed

text \<open>An allocation returns a block of the smallest size class that holds the request, or of the
  exact size above 64 KiB, never one that is in use, and the pool stays consistent.\<close>

theorem allocate_smallest_class:
  assumes inv: "pool_inv p" and fresh: "fresh_block addr p" and n: "0 < n"
  shows "\<exists>d p'. Allocate addr n p = Some (d, p') \<and> pool_inv p' \<and> d \<noteq> 0 \<and> live_refs p d = 0 \<and>
    live_refs p' = (live_refs p)(d := 1) \<and> n \<le> block_capacity p' d \<and>
    (if n > kMaxClassSize then block_capacity p' d = n
     else \<exists>i<kClassCount. block_capacity p' d = kMinClassSize * 2 ^ i \<and>
            (\<forall>j<i. kMinClassSize * 2 ^ j < n))"
proof -
  from Allocate_spec [OF assms] obtain d p' where
    "Allocate addr n p = Some (d, p')" "allocated_fresh n d p p'" by blast
  then show ?thesis
    using SizeToClassIndex_spec [OF refl, of n] class_capacity_ge [of n]
    by (intro exI [of _ d] exI [of _ p'])
      (auto simp: allocated_fresh_def class_capacity_def kMaxClassSize_def kMinClassSize_def
        kClassCount_def)
qed

theorem allocate_smallest_class_witness:
  "\<exists>d p'. Allocate 4096 100 new_pool = Some (d, p') \<and> 100 \<le> block_capacity p' d"
  using allocate_smallest_class [OF pool_inv_new(1), of 4096 100]
  by (auto simp: fresh_block_def new_pool_def BlockData_def header_bytes_def)

end
