(* ===== verification/Peers.thy ===== *)
theory Peers
  imports Packets
begin

text \<open>
  \<^verbatim>\<open>src/znet/z_peer.h\<close>, \<^verbatim>\<open>src/znet/z_peer_mapping.h\<close>, the address type of
  \<^verbatim>\<open>src/znet/z_socket.h\<close> with the part of \<^verbatim>\<open>ZSocket::Receive\<close> that fills it, and
  \<^verbatim>\<open>IdSet\<close> of \<^verbatim>\<open>src/znet/z_stl_compat.h\<close>.  A null pointer to a peer is \<open>None\<close>.
  Every operation runs under the mapping's lock, so a sequence of operations is a list.
\<close>

subsection \<open>Addresses\<close>

text \<open>The text buffer of an address has 46 bytes; comparison is \<^verbatim>\<open>memcmp\<close> over all of them.\<close>

record Address =
  ip :: "byte list"
  port :: u16
  address_family :: u8

definition AF_INET :: u8 where "AF_INET = 2"
definition AF_INET6 :: u8 where "AF_INET6 = 10"

definition empty_address :: Address where
  "empty_address = \<lparr>ip = replicate 46 0, port = 0, address_family = AF_INET\<rparr>"

definition address_eq :: "Address \<Rightarrow> Address \<Rightarrow> bool" where
  "address_eq a b \<longleftrightarrow>
     (if port a = port b \<and> address_family a = address_family b then ip a = ip b else False)"

lemma address_eq_iff [simp]: "address_eq a b \<longleftrightarrow> a = b"
  by (auto simp: address_eq_def)

text \<open>
  What \<^verbatim>\<open>recvfrom\<close> reports: its return value, and the sender's family, port and address text as
  \<^verbatim>\<open>inet_ntop\<close> prints it.  \<^verbatim>\<open>inet_ntop\<close> writes the text and a terminating zero and leaves the rest
  of the buffer alone.
\<close>

record datagram_source =
  result_code :: int
  source_family :: u8
  source_port :: u16
  source_text :: "byte list"

definition inet_ntop :: "byte list \<Rightarrow> byte list \<Rightarrow> byte list" where
  "inet_ntop text buffer = memcpy_at 0 (text @ [0]) buffer"

definition Receive :: "bool \<Rightarrow> datagram_source \<Rightarrow> Address \<Rightarrow> int \<times> Address" where
  "Receive socket_valid src sender =
     (if \<not> socket_valid then (-1, sender)
      else if result_code src > 0 then
        if source_family src = AF_INET6 then
          (result_code src, sender\<lparr>ip := inet_ntop (source_text src) (ip sender),
             port := source_port src, address_family := AF_INET6\<rparr>)
        else
          (result_code src, sender\<lparr>ip := inet_ntop (source_text src) (ip sender),
             port := source_port src, address_family := AF_INET\<rparr>)
      else (result_code src, sender))"

subsection \<open>Identifiers\<close>

text \<open>The contract of a source of identifiers: it never hands out the same one twice.\<close>

primrec draw :: "('s \<Rightarrow> 'i \<times> 's) \<Rightarrow> nat \<Rightarrow> 's \<Rightarrow> 'i list \<times> 's" where
  "draw gen 0 s = ([], s)"
| "draw gen (Suc n) s =
     (case gen s of (i, s') \<Rightarrow> case draw gen n s' of (is, s'') \<Rightarrow> (i # is, s''))"

locale id_source =
  fixes gen :: "'s \<Rightarrow> 'i \<times> 's"
    and used :: "'s \<Rightarrow> 'i set"
    and invalid :: 'i
  assumes gen_fresh: "gen s = (i, s') \<Longrightarrow> i \<noteq> invalid \<Longrightarrow> i \<notin> used s \<and> used s' = insert i (used s)"
    and gen_exhausted: "gen s = (invalid, s') \<Longrightarrow> s' = s"
    and invalid_unused: "invalid \<notin> used s"
begin

lemma draw_used:
  "draw gen n s = (is, s') \<Longrightarrow> used s' = used s \<union> (set is - {invalid}) \<and>
     distinct (filter (\<lambda>i. i \<noteq> invalid) is) \<and> (set is - {invalid}) \<inter> used s = {}"
proof (induction n arbitrary: s "is")
  case 0
  then show ?case by simp
next
  case (Suc n)
  obtain i s1 is1 where d: "gen s = (i, s1)" "draw gen n s1 = (is1, s')" "is = i # is1"
    using Suc.prems by (auto split: prod.splits)
  note IH = Suc.IH [OF d(2)]
  show ?case
  proof (cases "i = invalid")
    case True
    with gen_exhausted d(1) have "s1 = s" by blast
    with IH True d(3) show ?thesis by simp
  next
    case False
    with gen_fresh [OF d(1)] have "i \<notin> used s" "used s1 = insert i (used s)" by auto
    with IH False d(3) show ?thesis by auto
  qed
qed

lemma draw_distinct: "draw gen n s = (is, s') \<Longrightarrow> invalid \<notin> set is \<Longrightarrow> distinct is"
proof -
  assume d: "draw gen n s = (is, s')" and "invalid \<notin> set is"
  then have "filter (\<lambda>i. i \<noteq> invalid) is = is" by (auto simp: filter_id_conv)
  with draw_used [OF d] show "distinct is" by simp
qed

end

definition GenerateId :: "u32 \<Rightarrow> u32 \<times> u32" where
  "GenerateId next_id = (if next_id \<ge> max_id then (invalid_id, next_id) else (next_id, next_id + 1))"

definition ReleaseId :: "u32 \<Rightarrow> u32 \<Rightarrow> u32" where
  "ReleaseId pid next_id = next_id"

definition ids_below :: "u32 \<Rightarrow> u32 set" where
  "ids_below n = {i. i < n \<and> i < max_id}"

lemma GenerateId_props:
  assumes "GenerateId n = (i, n')"
  shows "i \<noteq> invalid_id \<Longrightarrow> i = n \<and> n < max_id \<and> unat n' = unat n + 1"
    and "i = invalid_id \<Longrightarrow> n' = n"
proof -
  have "unat (n + 1) = unat n + 1" if "n < max_id"
    using that by (simp add: peer_id_defs word_less_nat_alt unat_word_ariths)
  with assms show "i \<noteq> invalid_id \<Longrightarrow> i = n \<and> n < max_id \<and> unat n' = unat n + 1"
    by (auto simp: GenerateId_def split: if_splits)
  show "i = invalid_id \<Longrightarrow> n' = n"
    using assms by (auto simp: GenerateId_def peer_id_defs split: if_splits)
qed

interpretation ids: id_source GenerateId ids_below invalid_id
proof unfold_locales
  fix s i s'
  assume g: "GenerateId s = (i, s')"
  show "i \<noteq> invalid_id \<Longrightarrow> i \<notin> ids_below s \<and> ids_below s' = insert i (ids_below s)"
    using GenerateId_props(1) [OF g]
    by (auto simp: ids_below_def word_less_nat_alt word_unat_eq_iff less_Suc_eq)
next
  show "GenerateId s = (invalid_id, s') \<Longrightarrow> s' = s" for s s' using GenerateId_props(2) by blast
  show "invalid_id \<notin> ids_below s" for s by (simp add: ids_below_def peer_id_defs)
qed

subsection \<open>The peer mapping\<close>

record ZPeer =
  peer_identifier :: u32
  address :: Address

record ZPeerMapping =
  peer_ids :: u32
  peer_list :: "ZPeer list"

definition kMaxPeers :: nat where "kMaxPeers = 2048"

definition new_mapping :: ZPeerMapping where
  "new_mapping = \<lparr>peer_ids = 0, peer_list = []\<rparr>"

definition CreatePeer :: "Address \<Rightarrow> ZPeerMapping \<Rightarrow> ZPeer option \<times> ZPeerMapping" where
  "CreatePeer addr m =
     (if length (peer_list m) \<ge> kMaxPeers then (None, m)
      else case GenerateId (peer_ids m) of (pid, next_id) \<Rightarrow>
        let m = m\<lparr>peer_ids := next_id\<rparr> in
        if pid = invalid_id then (None, m)
        else let peer = \<lparr>peer_identifier = pid, address = addr\<rparr>
             in (Some peer, m\<lparr>peer_list := peer_list m @ [peer]\<rparr>))"

fun erase_first :: "u32 \<Rightarrow> ZPeer list \<Rightarrow> ZPeer list option" where
  "erase_first pid [] = None"
| "erase_first pid (x # xs) =
     (if peer_identifier x = pid then Some xs else map_option (\<lambda>ys. x # ys) (erase_first pid xs))"

definition DestroyPeer :: "u32 \<Rightarrow> ZPeerMapping \<Rightarrow> bool \<times> ZPeerMapping" where
  "DestroyPeer pid m =
     (case erase_first pid (peer_list m) of
        None \<Rightarrow> (False, m)
      | Some ps \<Rightarrow> (True, m\<lparr>peer_ids := ReleaseId pid (peer_ids m), peer_list := ps\<rparr>))"

definition GetPeer :: "u32 \<Rightarrow> ZPeerMapping \<Rightarrow> ZPeer option" where
  "GetPeer pid m = find (\<lambda>x. peer_identifier x = pid) (peer_list m)"

definition GetPeerByAddress :: "Address \<Rightarrow> ZPeerMapping \<Rightarrow> ZPeer option" where
  "GetPeerByAddress addr m = find (\<lambda>x. address_eq (address x) addr) (peer_list m)"

definition GetOrCreatePeer :: "Address \<Rightarrow> ZPeerMapping \<Rightarrow> ZPeer option \<times> ZPeerMapping" where
  "GetOrCreatePeer addr m =
     (case find (\<lambda>x. address_eq (address x) addr) (peer_list m) of
        Some peer \<Rightarrow> (Some peer, m)
      | None \<Rightarrow>
          if length (peer_list m) \<ge> kMaxPeers then (None, m)
          else case GenerateId (peer_ids m) of (pid, next_id) \<Rightarrow>
            let m = m\<lparr>peer_ids := next_id\<rparr> in
            if pid = invalid_id then (None, m)
            else let peer = \<lparr>peer_identifier = pid, address = addr\<rparr>
                 in (Some peer, m\<lparr>peer_list := peer_list m @ [peer]\<rparr>))"

definition GetPeerList :: "ZPeerMapping \<Rightarrow> ZPeer list" where
  "GetPeerList m = peer_list m"

lemma GetOrCreatePeer_eq:
  "GetOrCreatePeer addr m =
     (case GetPeerByAddress addr m of Some peer \<Rightarrow> (Some peer, m) | None \<Rightarrow> CreatePeer addr m)"
  unfolding GetOrCreatePeer_def GetPeerByAddress_def CreatePeer_def by (rule refl)

text \<open>Histories of a mapping; each step is one call.\<close>

datatype peer_op = CreateOp Address | DestroyOp u32 | GetOrCreateOp Address

fun peer_step :: "peer_op \<Rightarrow> ZPeerMapping \<Rightarrow> ZPeer option \<times> ZPeerMapping" where
  "peer_step (CreateOp a) m = CreatePeer a m"
| "peer_step (DestroyOp pid) m = (None, snd (DestroyPeer pid m))"
| "peer_step (GetOrCreateOp a) m = GetOrCreatePeer a m"

fun peer_run :: "peer_op list \<Rightarrow> ZPeerMapping \<Rightarrow> ZPeerMapping" where
  "peer_run [] m = m"
| "peer_run (op # ops) m = peer_run ops (snd (peer_step op m))"

definition mapping_inv :: "ZPeerMapping \<Rightarrow> bool" where
  "mapping_inv m \<longleftrightarrow> distinct (map peer_identifier (peer_list m)) \<and>
     set (map peer_identifier (peer_list m)) \<subseteq> ids_below (peer_ids m) \<and> length (peer_list m) \<le> kMaxPeers"

lemma erase_first_Some:
  "erase_first pid xs = Some ys \<Longrightarrow>
   \<exists>a x b. xs = a @ x # b \<and> ys = a @ b \<and> peer_identifier x = pid \<and> (\<forall>y\<in>set a. peer_identifier y \<noteq> pid)"
proof (induction xs arbitrary: ys)
  case (Cons x xs)
  show ?case
  proof (cases "peer_identifier x = pid")
    case True
    with Cons.prems show ?thesis by (intro exI [of _ "[]"]) auto
  next
    case False
    with Cons.prems obtain zs where "erase_first pid xs = Some zs" "ys = x # zs" by auto
    with Cons.IH False obtain a y b where
      "x # xs = (x # a) @ y # b" "ys = (x # a) @ b" "peer_identifier y = pid" "\<forall>z\<in>set (x # a). peer_identifier z \<noteq> pid"
      by force
    then show ?thesis by blast
  qed
qed simp

lemma erase_first_None: "erase_first pid xs = None \<longleftrightarrow> (\<forall>x\<in>set xs. peer_identifier x \<noteq> pid)"
  by (induction xs) auto

lemma CreatePeer_inv:
  assumes inv: "mapping_inv m" and c: "CreatePeer addr m = (r, m')"
  shows "mapping_inv m' \<and> ids_below (peer_ids m) \<subseteq> ids_below (peer_ids m') \<and>
    (\<forall>x. r = Some x \<longrightarrow> peer_identifier x \<notin> ids_below (peer_ids m) \<and> address x = addr \<and>
       peer_list m' = peer_list m @ [x])"
proof (cases "length (peer_list m) \<ge> kMaxPeers")
  case True
  with inv c show ?thesis by (auto simp: CreatePeer_def)
next
  case False
  obtain i n where g: "GenerateId (peer_ids m) = (i, n)" by fastforce
  show ?thesis
  proof (cases "i = invalid_id")
    case True
    with ids.gen_exhausted g have "n = peer_ids m" by blast
    with True False g inv c show ?thesis by (auto simp: CreatePeer_def mapping_inv_def)
  next
    case new: False
    with ids.gen_fresh [OF g] have "i \<notin> ids_below (peer_ids m)" "ids_below n = insert i (ids_below (peer_ids m))"
      by auto
    with False new g inv c show ?thesis
      by (auto simp: CreatePeer_def mapping_inv_def Let_def image_subset_iff)
  qed
qed

lemma peer_step_inv:
  assumes inv: "mapping_inv m"
  shows "mapping_inv (snd (peer_step op m)) \<and>
    ids_below (peer_ids m) \<subseteq> ids_below (peer_ids (snd (peer_step op m)))"
proof (cases op)
  case (CreateOp a)
  then show ?thesis using CreatePeer_inv [OF inv, of a "fst (CreatePeer a m)" "snd (CreatePeer a m)"] by simp
next
  case (GetOrCreateOp a)
  then show ?thesis
    using inv CreatePeer_inv [OF inv, of a "fst (CreatePeer a m)" "snd (CreatePeer a m)"]
    by (simp add: GetOrCreatePeer_eq split: option.split)
next
  case (DestroyOp pid)
  then show ?thesis
    using inv erase_first_Some [of pid "peer_list m"]
    by (auto simp: DestroyPeer_def mapping_inv_def ReleaseId_def image_subset_iff split: option.split)
qed

lemma peer_run_inv:
  "mapping_inv m \<Longrightarrow> mapping_inv (peer_run ops m) \<and>
     ids_below (peer_ids m) \<subseteq> ids_below (peer_ids (peer_run ops m))"
  by (induction ops arbitrary: m) (simp, use peer_step_inv in \<open>fastforce\<close>)

lemma mapping_inv_new: "mapping_inv new_mapping"
  by (simp add: mapping_inv_def new_mapping_def)

lemma find_append: "find P (xs @ ys) = (case find P xs of None \<Rightarrow> find P ys | Some x \<Rightarrow> Some x)"
  by (induction xs) auto

lemma GetPeer_unique: "mapping_inv m \<Longrightarrow> x \<in> set (peer_list m) \<Longrightarrow> GetPeer (peer_identifier x) m = Some x"
proof -
  have "distinct (map peer_identifier xs) \<Longrightarrow> x \<in> set xs \<Longrightarrow> find (\<lambda>y. peer_identifier y = peer_identifier x) xs = Some x"
    for xs by (induction xs) force+
  then show "mapping_inv m \<Longrightarrow> x \<in> set (peer_list m) \<Longrightarrow> ?thesis"
    by (simp add: mapping_inv_def GetPeer_def)
qed


subsection \<open>Properties\<close>

text \<open>C9: after any history of calls the mapping holds at most 2048 peers, no two of them have the
  same identifier, none has a reserved identifier of invalid value, looking a peer up by its
  identifier finds that peer, and an identifier once assigned is never assigned again, not even
  after its peer is destroyed.\<close>

theorem peer_identifiers_unique:
  assumes m: "m = peer_run ops new_mapping" and x: "x \<in> set (peer_list m)"
    and later: "peer_step op (peer_run ops' m) = (Some y, m')" "\<forall>a. op \<noteq> GetOrCreateOp a"
  shows "length (peer_list m) \<le> kMaxPeers \<and> distinct (map peer_identifier (peer_list m)) \<and>
    GetPeer (peer_identifier x) m = Some x \<and> peer_identifier x < max_id \<and>
    peer_identifier y \<noteq> peer_identifier x"
proof -
  have inv: "mapping_inv m" unfolding m using peer_run_inv mapping_inv_new by blast
  from peer_run_inv [OF this, of ops'] have inv': "mapping_inv (peer_run ops' m)"
    and grow: "ids_below (peer_ids m) \<subseteq> ids_below (peer_ids (peer_run ops' m))" by auto
  have old: "peer_identifier x \<in> ids_below (peer_ids m)" using inv x by (auto simp: mapping_inv_def)
  from later obtain a where "CreatePeer a (peer_run ops' m) = (Some y, m')" by (cases op) auto
  from CreatePeer_inv [OF inv' this] have "peer_identifier y \<notin> ids_below (peer_ids (peer_run ops' m))"
    by blast
  with grow old inv x show ?thesis
    by (auto simp: mapping_inv_def GetPeer_unique ids_below_def)
qed

theorem peer_identifiers_unique_witness:
  "peer_identifier (the (fst (CreatePeer empty_address (peer_run [DestroyOp 0]
      (peer_run [CreateOp empty_address] new_mapping))))) \<noteq> 0"
proof -
  let ?m = "peer_run [CreateOp empty_address] new_mapping"
  let ?x = "\<lparr>peer_identifier = 0, address = empty_address\<rparr>"
  have x: "?x \<in> set (peer_list ?m)"
    by (simp add: CreatePeer_def new_mapping_def GenerateId_def peer_id_defs kMaxPeers_def Let_def)
  have y: "peer_step (CreateOp empty_address) (peer_run [DestroyOp 0] ?m) =
      (Some (the (fst (CreatePeer empty_address (peer_run [DestroyOp 0] ?m)))),
       snd (CreatePeer empty_address (peer_run [DestroyOp 0] ?m)))"
    by (simp add: CreatePeer_def DestroyPeer_def new_mapping_def GenerateId_def peer_id_defs
        kMaxPeers_def ReleaseId_def Let_def word_le_nat_alt)
  from peer_identifiers_unique [OF refl x y] show ?thesis by simp
qed

text \<open>A datagram from a known address is attributed to its existing peer: asking for the peer of an
  address again returns the same peer and changes nothing, and no address is registered twice by
  \<^verbatim>\<open>GetOrCreatePeer\<close>.\<close>

theorem get_or_create_idempotent:
  assumes "GetOrCreatePeer addr m = (Some peer, m')"
  shows "GetOrCreatePeer addr m' = (Some peer, m') \<and> address peer = addr \<and> peer \<in> set (peer_list m') \<and>
    (distinct (map address (peer_list m)) \<longrightarrow> distinct (map address (peer_list m')))"
proof (cases "GetPeerByAddress addr m")
  case (Some q)
  then have "address q = addr" "q \<in> set (peer_list m)"
    by (auto simp: GetPeerByAddress_def find_Some_iff)
  with Some assms show ?thesis by (simp add: GetOrCreatePeer_eq)
next
  case None
  then have new: "addr \<notin> set (map address (peer_list m))"
    by (auto simp: GetPeerByAddress_def find_None_iff)
  from None assms have "CreatePeer addr m = (Some peer, m')" by (simp add: GetOrCreatePeer_eq)
  then have "peer_list m' = peer_list m @ [peer]" "address peer = addr"
    by (auto simp: CreatePeer_def Let_def split: prod.splits if_splits)
  with None new show ?thesis by (simp add: GetOrCreatePeer_eq GetPeerByAddress_def find_append)
qed

theorem get_or_create_idempotent_witness:
  "\<exists>peer m. GetOrCreatePeer empty_address new_mapping = (Some peer, m) \<and>
     GetOrCreatePeer empty_address m = (Some peer, m)"
proof -
  obtain peer m where c: "GetOrCreatePeer empty_address new_mapping = (Some peer, m)"
    by (simp add: GetOrCreatePeer_def new_mapping_def GenerateId_def peer_id_defs kMaxPeers_def Let_def)
  with get_or_create_idempotent [OF c] show ?thesis by blast
qed


text \<open>The receiver keeps one address buffer for all datagrams and \<^verbatim>\<open>Receive\<close> does not clear it, so
  after a datagram from a longer address the same sender has a different \<^verbatim>\<open>Address\<close>: it is not
  recognised as the peer it was registered as.\<close>

theorem sender_address_depends_on_history:
  assumes pos: "result_code s1 > 0" "result_code s2 > 0"
    and len: "length (source_text s2) + 1 < length (source_text s1)" "length (source_text s1) < 46"
    and nul: "0 \<notin> set (source_text s1)"
    and fresh: "a = snd (Receive True s2 empty_address)"
    and stale: "a' = snd (Receive True s2 (snd (Receive True s1 empty_address)))"
    and peer: "GetPeerByAddress a m = Some peer"
  shows "a' \<noteq> a \<and> fst (GetOrCreatePeer a' m) \<noteq> Some peer"
proof -
  let ?i = "length (source_text s2) + 1"
  have ip: "ip (snd (Receive True s x)) = inet_ntop (source_text s) (ip x)" if "result_code s > 0" for s x
    using that by (simp add: Receive_def)
  have "ip a ! ?i = 0"
    using len by (simp add: fresh ip pos inet_ntop_def empty_address_def memcpy_at_def nth_append)
  moreover have "ip a' ! ?i = source_text s1 ! ?i"
    using len by (simp add: stale ip pos inet_ntop_def empty_address_def memcpy_at_def nth_append)
  moreover have "source_text s1 ! ?i \<noteq> 0" using len nul by (metis nth_mem)
  ultimately have ne: "a' \<noteq> a" by auto
  have "address peer = a" using peer by (auto simp: GetPeerByAddress_def find_Some_iff)
  moreover have "address q = a'" if "fst (GetOrCreatePeer a' m) = Some q" for q
    using that by (auto simp: GetOrCreatePeer_eq GetPeerByAddress_def CreatePeer_def Let_def find_Some_iff
        split: option.splits prod.splits if_splits)
  ultimately show ?thesis using ne by auto
qed

definition sample_source :: "byte list \<Rightarrow> datagram_source" where
  "sample_source text = \<lparr>result_code = 40, source_family = AF_INET, source_port = 9000, source_text = text\<rparr>"

theorem sender_address_depends_on_history_witness:
  "let a = snd (Receive True (sample_source [49, 46, 49]) empty_address);
       a' = snd (Receive True (sample_source [49, 46, 49])
              (snd (Receive True (sample_source [49, 48, 46, 49, 50, 51]) empty_address)));
       m = snd (CreatePeer a new_mapping)
   in fst (GetOrCreatePeer a' m) \<noteq> Some \<lparr>peer_identifier = 0, address = a\<rparr>"
proof -
  let ?a = "snd (Receive True (sample_source [49, 46, 49]) empty_address)"
  have "GetPeerByAddress ?a (snd (CreatePeer ?a new_mapping)) = Some \<lparr>peer_identifier = 0, address = ?a\<rparr>"
    by (simp add: GetPeerByAddress_def CreatePeer_def new_mapping_def GenerateId_def peer_id_defs
        kMaxPeers_def Let_def)
  from sender_address_depends_on_history [OF _ _ _ _ _ refl refl this,
      of "sample_source [49, 48, 46, 49, 50, 51]"] show ?thesis
    by (simp add: sample_source_def)
qed

end
