(* ===== verification/Ordered_Hash_Map.thy ===== *)
theory Ordered_Hash_Map
  imports Znet_Prelude
begin

text \<open>
  \<^verbatim>\<open>src/znet/fancy_queue.h\<close>: \<^verbatim>\<open>LockFreeOrderedHashMap\<close>.  Nodes live in an explicit heap (a
  partial map from addresses), pointers are \<open>nat option\<close>, following a pointer to a freed node
  is a fault (\<open>None\<close>).  The hash function is a parameter.  An operation runs without interference,
  so its compare-and-swap loops succeed at the first attempt; the first phase of \<^verbatim>\<open>insert\<close> is also
  given in the two atomic steps between which another thread can run.  Loops over chains carry
  fuel, one more than the number of nodes, and running out of it is a fault too: what is proved to
  return does so without a cycle.
\<close>

record ('k, 'v) Node =
  node_key :: 'k
  node_value :: 'v
  bucketNext :: "nat option"
  orderNext :: "nat option"
  is_deleted :: bool

record ('k, 'v) hash_map =
  node_heap :: "nat \<rightharpoonup> ('k, 'v) Node"
  buckets :: "nat option list"
  orderHead :: "nat option"
  orderTail :: "nat option"
  allNodes :: "nat list"

definition new_map :: "nat \<Rightarrow> ('k, 'v) hash_map" where
  "new_map count =
     \<lparr>node_heap = Map.empty, buckets = replicate (if count > 0 then count else 1) None,
      orderHead = None, orderTail = None, allNodes = []\<rparr>"

definition hash_key :: "('k \<Rightarrow> nat) \<Rightarrow> ('k, 'v) hash_map \<Rightarrow> 'k \<Rightarrow> nat" where
  "hash_key hash m k = hash k mod length (buckets m)"

lemma hash_key_update [simp]:
  "hash_key hash (m\<lparr>node_heap := h\<rparr>) = hash_key hash m"
  "hash_key hash (m\<lparr>allNodes := ns\<rparr>) = hash_key hash m"
  "hash_key hash (m\<lparr>orderHead := p\<rparr>) = hash_key hash m"
  "hash_key hash (m\<lparr>orderTail := p\<rparr>) = hash_key hash m"
  "hash_key hash (m\<lparr>buckets := (buckets m)[i := p]\<rparr>) = hash_key hash m"
  by (simp_all add: hash_key_def fun_eq_iff)

definition chain_fuel :: "('k, 'v) hash_map \<Rightarrow> nat" where
  "chain_fuel m = Suc (length (allNodes m))"

text \<open>The atomic that \<^verbatim>\<open>prev_bucket_next_ptr\<close> points at.\<close>

datatype link = AtBucket nat | AtNode nat

fun find_walk ::
  "nat \<Rightarrow> (nat \<rightharpoonup> ('k, 'v) Node) \<Rightarrow> 'k \<Rightarrow> link \<Rightarrow> nat option \<Rightarrow> (nat option \<times> link) option" where
  "find_walk fuel h k prev None = Some (None, prev)"
| "find_walk 0 h k prev (Some a) = None"
| "find_walk (Suc fuel) h k prev (Some a) =
     (case h a of
        None \<Rightarrow> None
      | Some nd \<Rightarrow> if node_key nd = k then Some (Some a, prev)
                  else find_walk fuel h k (AtNode a) (bucketNext nd))"

definition find_in_bucket ::
  "('k \<Rightarrow> nat) \<Rightarrow> 'k \<Rightarrow> ('k, 'v) hash_map \<Rightarrow> (nat option \<times> link) option" where
  "find_in_bucket hash k m =
     (let index = hash_key hash m k
      in find_walk (chain_fuel m) (node_heap m) k (AtBucket index) (buckets m ! index))"

fun load_link :: "link \<Rightarrow> ('k, 'v) hash_map \<Rightarrow> nat option option" where
  "load_link (AtBucket i) m = Some (buckets m ! i)"
| "load_link (AtNode a) m = map_option bucketNext (node_heap m a)"

fun store_link :: "link \<Rightarrow> nat option \<Rightarrow> ('k, 'v) hash_map \<Rightarrow> ('k, 'v) hash_map option" where
  "store_link (AtBucket i) p m = Some (m\<lparr>buckets := (buckets m)[i := p]\<rparr>)"
| "store_link (AtNode a) p m =
     (case node_heap m a of
        None \<Rightarrow> None
      | Some nd \<Rightarrow> Some (m\<lparr>node_heap := (node_heap m)(a \<mapsto> nd\<lparr>bucketNext := p\<rparr>)\<rparr>))"

definition try_unlink_bucket :: "nat \<Rightarrow> link \<Rightarrow> ('k, 'v) hash_map \<Rightarrow> ('k, 'v) hash_map option" where
  "try_unlink_bucket node prev m =
     (case load_link prev m of
        None \<Rightarrow> None
      | Some p \<Rightarrow>
          if p = Some node then
            (case node_heap m node of
               None \<Rightarrow> None
             | Some nd \<Rightarrow> store_link prev (bucketNext nd) m)
          else Some m)"

definition with_value :: "('k \<Rightarrow> nat) \<Rightarrow> 'k \<Rightarrow> ('v \<Rightarrow> 'r) \<Rightarrow> ('k, 'v) hash_map \<Rightarrow> 'r option option" where
  "with_value hash k callback m =
     (case find_in_bucket hash k m of
        None \<Rightarrow> None
      | Some (None, _) \<Rightarrow> Some None
      | Some (Some a, _) \<Rightarrow>
          (case node_heap m a of
             None \<Rightarrow> None
           | Some nd \<Rightarrow> Some (if \<not> is_deleted nd then Some (callback (node_value nd)) else None)))"

definition find_value :: "('k \<Rightarrow> nat) \<Rightarrow> 'k \<Rightarrow> ('k, 'v) hash_map \<Rightarrow> 'v option option" where
  "find_value hash k m =
     (case find_in_bucket hash k m of
        None \<Rightarrow> None
      | Some (None, _) \<Rightarrow> Some None
      | Some (Some a, _) \<Rightarrow>
          (case node_heap m a of
             None \<Rightarrow> None
           | Some nd \<Rightarrow> Some (if \<not> is_deleted nd then Some (node_value nd) else None)))"

subsection \<open>Insertion\<close>

text \<open>
  The first phase in its two atomic parts.  \<open>insert_prepare\<close> runs up to the load of the bucket
  head: it reports a present key (\<open>Inl\<close>, freeing the node of an earlier attempt), or allocates the
  node at \<open>addr\<close> on the first attempt and reads the head (\<open>Inr\<close>).  \<open>insert_swap\<close> is the
  compare-and-swap: it succeeds if the head is still the one read.
\<close>

definition insert_prepare ::
  "('k \<Rightarrow> nat) \<Rightarrow> 'k \<Rightarrow> 'v \<Rightarrow> nat \<Rightarrow> bool \<Rightarrow> ('k, 'v) hash_map \<Rightarrow>
   (('k, 'v) hash_map + nat option \<times> ('k, 'v) hash_map) option" where
  "insert_prepare hash k v addr allocated m =
     (case find_in_bucket hash k m of
        None \<Rightarrow> None
      | Some (Some a, _) \<Rightarrow>
          if node_heap m a = None then None
          else if allocated then
            (if node_heap m addr = None then None
             else Some (Inl (m\<lparr>node_heap := (node_heap m)(addr := None)\<rparr>)))
          else Some (Inl m)
      | Some (None, _) \<Rightarrow>
          let m = (if allocated then m
                   else m\<lparr>node_heap := (node_heap m)(addr \<mapsto>
                            \<lparr>node_key = k, node_value = v, bucketNext = None, orderNext = None,
                             is_deleted = False\<rparr>),
                          allNodes := allNodes m @ [addr]\<rparr>);
              oldHead = buckets m ! hash_key hash m k
          in case node_heap m addr of
               None \<Rightarrow> None
             | Some nd \<Rightarrow>
                 Some (Inr (oldHead,
                   m\<lparr>node_heap := (node_heap m)(addr \<mapsto> nd\<lparr>bucketNext := oldHead\<rparr>)\<rparr>)))"

definition insert_swap ::
  "('k \<Rightarrow> nat) \<Rightarrow> 'k \<Rightarrow> nat \<Rightarrow> nat option \<Rightarrow> ('k, 'v) hash_map \<Rightarrow> bool \<times> ('k, 'v) hash_map" where
  "insert_swap hash k addr oldHead m =
     (if buckets m ! hash_key hash m k = oldHead
      then (True, m\<lparr>buckets := (buckets m)[hash_key hash m k := Some addr]\<rparr>)
      else (False, m))"

fun append_order :: "nat \<Rightarrow> nat \<Rightarrow> ('k, 'v) hash_map \<Rightarrow> ('k, 'v) hash_map option" where
  "append_order 0 addr m = None"
| "append_order (Suc fuel) addr m =
     (case orderTail m of
        None \<Rightarrow>
          if orderHead m = None then Some (m\<lparr>orderHead := Some addr, orderTail := Some addr\<rparr>)
          else append_order fuel addr m
      | Some t \<Rightarrow>
          (case node_heap m t of
             None \<Rightarrow> None
           | Some nd \<Rightarrow>
               (case orderNext nd of
                  Some nxt \<Rightarrow> append_order fuel addr (m\<lparr>orderTail := Some nxt\<rparr>)
                | None \<Rightarrow>
                    Some (m\<lparr>node_heap := (node_heap m)(t \<mapsto> nd\<lparr>orderNext := Some addr\<rparr>),
                            orderTail := Some addr\<rparr>))))"

definition insert_map ::
  "('k \<Rightarrow> nat) \<Rightarrow> nat \<Rightarrow> 'k \<Rightarrow> 'v \<Rightarrow> ('k, 'v) hash_map \<Rightarrow> (bool \<times> ('k, 'v) hash_map) option" where
  "insert_map hash addr k v m =
     (case insert_prepare hash k v addr False m of
        None \<Rightarrow> None
      | Some (Inl m) \<Rightarrow> Some (False, m)
      | Some (Inr (oldHead, m)) \<Rightarrow>
          (case insert_swap hash k addr oldHead m of
             (True, m) \<Rightarrow>
               (case node_heap m addr of
                  None \<Rightarrow> None
                | Some nd \<Rightarrow>
                    (case append_order (chain_fuel m) addr
                            (m\<lparr>node_heap := (node_heap m)(addr \<mapsto> nd\<lparr>orderNext := None\<rparr>)\<rparr>) of
                       None \<Rightarrow> None | Some m \<Rightarrow> Some (True, m)))
           | (False, m) \<Rightarrow> None))"

subsection \<open>Removal and garbage collection\<close>

definition remove_map :: "('k \<Rightarrow> nat) \<Rightarrow> 'k \<Rightarrow> ('k, 'v) hash_map \<Rightarrow> (bool \<times> ('k, 'v) hash_map) option" where
  "remove_map hash k m =
     (case find_in_bucket hash k m of
        None \<Rightarrow> None
      | Some (None, _) \<Rightarrow> Some (False, m)
      | Some (Some a, prev) \<Rightarrow>
          (case node_heap m a of
             None \<Rightarrow> None
           | Some nd \<Rightarrow>
               (case try_unlink_bucket a prev
                       (m\<lparr>node_heap := (node_heap m)(a \<mapsto> nd\<lparr>is_deleted := True\<rparr>)\<rparr>) of
                  None \<Rightarrow> None | Some m \<Rightarrow> Some (True, m))))"

fun gc_order :: "nat \<Rightarrow> nat option \<Rightarrow> nat option \<Rightarrow> ('k, 'v) hash_map \<Rightarrow> ('k, 'v) hash_map option" where
  "gc_order fuel prev None m = Some m"
| "gc_order 0 prev (Some c) m = None"
| "gc_order (Suc fuel) prev (Some c) m =
     (case node_heap m c of
        None \<Rightarrow> None
      | Some nd \<Rightarrow>
          let nxt = orderNext nd in
          if is_deleted nd then
            (case (case prev of
                     Some p \<Rightarrow> map_option (\<lambda>pd. m\<lparr>node_heap := (node_heap m)(p \<mapsto> pd\<lparr>orderNext := nxt\<rparr>)\<rparr>)
                                 (node_heap m p)
                   | None \<Rightarrow> Some (m\<lparr>orderHead := nxt\<rparr>)) of
               None \<Rightarrow> None
             | Some m \<Rightarrow>
                 gc_order fuel prev nxt
                   (if orderTail m = Some c then m\<lparr>orderTail := prev\<rparr> else m))
          else gc_order fuel (Some c) nxt m)"

fun sweep :: "nat list \<Rightarrow> (nat \<rightharpoonup> ('k, 'v) Node) \<Rightarrow> (nat list \<times> (nat \<rightharpoonup> ('k, 'v) Node)) option" where
  "sweep [] h = Some ([], h)"
| "sweep (a # rest) h =
     (case h a of
        None \<Rightarrow> None
      | Some nd \<Rightarrow>
          if is_deleted nd then sweep rest (h(a := None))
          else map_option (\<lambda>(kept, h). (a # kept, h)) (sweep rest h))"

definition collect_garbage :: "('k, 'v) hash_map \<Rightarrow> ('k, 'v) hash_map option" where
  "collect_garbage m =
     (case gc_order (chain_fuel m) None (orderHead m) m of
        None \<Rightarrow> None
      | Some m \<Rightarrow>
          (case sweep (allNodes m) (node_heap m) of
             None \<Rightarrow> None
           | Some (kept, h) \<Rightarrow> Some (m\<lparr>node_heap := h, allNodes := kept\<rparr>)))"

fun destroy_nodes :: "nat list \<Rightarrow> (nat \<rightharpoonup> ('k, 'v) Node) \<Rightarrow> (nat \<rightharpoonup> ('k, 'v) Node) option" where
  "destroy_nodes [] h = Some h"
| "destroy_nodes (a # rest) h = (if h a = None then None else destroy_nodes rest (h(a := None)))"

definition destroy_map :: "('k, 'v) hash_map \<Rightarrow> (nat \<rightharpoonup> ('k, 'v) Node) option" where
  "destroy_map m = destroy_nodes (allNodes m) (node_heap m)"

subsection \<open>Iterators\<close>

record bucket_iterator =
  bucketIndex :: nat
  currentNode :: "nat option"

definition bucket_end :: "('k, 'v) hash_map \<Rightarrow> bucket_iterator" where
  "bucket_end m = \<lparr>bucketIndex = length (buckets m), currentNode = None\<rparr>"

fun skip_deleted :: "nat \<Rightarrow> (nat \<rightharpoonup> ('k, 'v) Node) \<Rightarrow> nat option \<Rightarrow> nat option option" where
  "skip_deleted fuel h None = Some None"
| "skip_deleted 0 h (Some a) = None"
| "skip_deleted (Suc fuel) h (Some a) =
     (case h a of
        None \<Rightarrow> None
      | Some nd \<Rightarrow> if is_deleted nd then skip_deleted fuel h (bucketNext nd) else Some (Some a))"

fun begin_loop :: "nat list \<Rightarrow> ('k, 'v) hash_map \<Rightarrow> bucket_iterator option" where
  "begin_loop [] m = Some (bucket_end m)"
| "begin_loop (i # rest) m =
     (case skip_deleted (chain_fuel m) (node_heap m) (buckets m ! i) of
        None \<Rightarrow> None
      | Some (Some a) \<Rightarrow> Some \<lparr>bucketIndex = i, currentNode = Some a\<rparr>
      | Some None \<Rightarrow> begin_loop rest m)"

definition bucket_begin :: "('k, 'v) hash_map \<Rightarrow> bucket_iterator option" where
  "bucket_begin m = begin_loop [0..<length (buckets m)] m"

text \<open>The next non-empty bucket after a chain is exhausted.\<close>

function next_bucket :: "('k, 'v) hash_map \<Rightarrow> nat \<Rightarrow> nat option \<Rightarrow> nat \<times> nat option" where
  "next_bucket m i p =
     (if p = None \<and> i < length (buckets m) - 1
      then next_bucket m (i + 1) (buckets m ! (i + 1)) else (i, p))"
  by auto
termination by (relation "measure (\<lambda>(m, i, p). length (buckets m) - i)") auto

declare next_bucket.simps [simp del]

definition advance_to_next_valid :: "('k, 'v) hash_map \<Rightarrow> bucket_iterator \<Rightarrow> bucket_iterator option" where
  "advance_to_next_valid m it =
     (case currentNode it of
        None \<Rightarrow> Some it
      | Some a \<Rightarrow>
          (case node_heap m a of
             None \<Rightarrow> None
           | Some nd \<Rightarrow>
               (case next_bucket m (bucketIndex it) (bucketNext nd) of
                  (i, None) \<Rightarrow> Some (bucket_end m)
                | (i, Some b) \<Rightarrow> Some \<lparr>bucketIndex = i, currentNode = Some b\<rparr>)))"

fun skip_loop :: "nat \<Rightarrow> ('k, 'v) hash_map \<Rightarrow> bucket_iterator \<Rightarrow> bucket_iterator option" where
  "skip_loop 0 m it = None"
| "skip_loop (Suc fuel) m it =
     (case currentNode it of
        None \<Rightarrow> Some it
      | Some a \<Rightarrow>
          (case node_heap m a of
             None \<Rightarrow> None
           | Some nd \<Rightarrow>
               if is_deleted nd then
                 (case advance_to_next_valid m it of None \<Rightarrow> None | Some it \<Rightarrow> skip_loop fuel m it)
               else Some it))"

definition bucket_next :: "('k, 'v) hash_map \<Rightarrow> bucket_iterator \<Rightarrow> bucket_iterator option" where
  "bucket_next m it =
     (case currentNode it of
        None \<Rightarrow> Some it
      | Some _ \<Rightarrow>
          (case advance_to_next_valid m it of None \<Rightarrow> None | Some it \<Rightarrow> skip_loop (chain_fuel m) m it))"

text \<open>
  A range-for loop over the map.  The body sees a key, the value and a state of its own, and either
  writes a value back in place (\<open>Some v\<close>) or removes the key (\<open>None\<close>); the iterator advances from
  the node it is at, removed or not.
\<close>

fun for_each ::
  "('k \<Rightarrow> nat) \<Rightarrow> ('k \<Rightarrow> 'v \<Rightarrow> 's \<Rightarrow> 's \<times> 'v option) \<Rightarrow> nat \<Rightarrow> bucket_iterator \<Rightarrow> 's \<times> ('k, 'v) hash_map \<Rightarrow>
   ('s \<times> ('k, 'v) hash_map) option" where
  "for_each hash body 0 it (s, m) = None"
| "for_each hash body (Suc fuel) it (s, m) =
     (case currentNode it of
        None \<Rightarrow> Some (s, m)
      | Some a \<Rightarrow>
          (case node_heap m a of
             None \<Rightarrow> None
           | Some nd \<Rightarrow>
               (case body (node_key nd) (node_value nd) s of
                  (s, act) \<Rightarrow>
                    (case (case act of
                             Some v \<Rightarrow> Some (m\<lparr>node_heap := (node_heap m)(a \<mapsto> nd\<lparr>node_value := v\<rparr>)\<rparr>)
                           | None \<Rightarrow> map_option snd (remove_map hash (node_key nd) m)) of
                       None \<Rightarrow> None
                     | Some m \<Rightarrow>
                         (case bucket_next m it of
                            None \<Rightarrow> None | Some it \<Rightarrow> for_each hash body fuel it (s, m))))))"

definition for_each_entry ::
  "('k \<Rightarrow> nat) \<Rightarrow> ('k \<Rightarrow> 'v \<Rightarrow> 's \<Rightarrow> 's \<times> 'v option) \<Rightarrow> 's \<Rightarrow> ('k, 'v) hash_map \<Rightarrow>
   ('s \<times> ('k, 'v) hash_map) option" where
  "for_each_entry hash body s m =
     (case bucket_begin m of
        None \<Rightarrow> None | Some it \<Rightarrow> for_each hash body (chain_fuel m) it (s, m))"

text \<open>The iterator in insertion order, as the list of what it visits.\<close>

fun order_walk :: "nat \<Rightarrow> (nat \<rightharpoonup> ('k, 'v) Node) \<Rightarrow> nat option \<Rightarrow> ('k \<times> 'v) list option" where
  "order_walk fuel h None = Some []"
| "order_walk 0 h (Some a) = None"
| "order_walk (Suc fuel) h (Some a) =
     (case h a of
        None \<Rightarrow> None
      | Some nd \<Rightarrow>
          (case order_walk fuel h (orderNext nd) of
             None \<Rightarrow> None
           | Some rest \<Rightarrow> Some (if is_deleted nd then rest else (node_key nd, node_value nd) # rest)))"

definition order_entries :: "('k, 'v) hash_map \<Rightarrow> ('k \<times> 'v) list option" where
  "order_entries m = order_walk (chain_fuel m) (node_heap m) (orderHead m)"


subsection \<open>Chains of nodes\<close>

fun chain :: "(nat \<rightharpoonup> ('k, 'v) Node) \<Rightarrow> (('k, 'v) Node \<Rightarrow> nat option) \<Rightarrow> nat option \<Rightarrow> nat list \<Rightarrow> bool" where
  "chain h f p [] \<longleftrightarrow> p = None"
| "chain h f p (a # xs) \<longleftrightarrow> p = Some a \<and> (\<exists>nd. h a = Some nd \<and> chain h f (f nd) xs)"

named_theorems chain_simps

lemma chain_other [chain_simps]: "a \<notin> set xs \<Longrightarrow> chain (h(a := x)) f p xs = chain h f p xs"
  by (induction xs arbitrary: p) auto

lemma chain_same_link [chain_simps]:
  "h a = Some nd \<Longrightarrow> f nd' = f nd \<Longrightarrow> chain (h(a \<mapsto> nd')) f p xs = chain h f p xs"
  by (induction xs arbitrary: p) auto

lemma chain_dom: "chain h f p xs \<Longrightarrow> a \<in> set xs \<Longrightarrow> \<exists>nd. h a = Some nd"
  by (induction xs arbitrary: p) auto

lemma chain_last:
  "chain h f p xs \<Longrightarrow> xs \<noteq> [] \<Longrightarrow> \<exists>nd. h (last xs) = Some nd \<and> f nd = None"
  by (induction xs arbitrary: p) (auto split: if_splits)

text \<open>A node in the middle: the links before and after it.\<close>

lemma chain_split:
  assumes "chain h f p (ys @ a # zs)"
  obtains nd where "h a = Some nd" "chain h f (f nd) zs"
    "ys = [] \<Longrightarrow> p = Some a"
    "ys \<noteq> [] \<Longrightarrow> \<exists>pd. h (last ys) = Some pd \<and> f pd = Some a"
proof -
  have "\<exists>nd. h a = Some nd \<and> chain h f (f nd) zs \<and> (ys = [] \<longrightarrow> p = Some a) \<and>
      (ys \<noteq> [] \<longrightarrow> (\<exists>pd. h (last ys) = Some pd \<and> f pd = Some a))"
    using assms
  proof (induction ys arbitrary: p)
    case Nil
    then show ?case by auto
  next
    case (Cons y ys)
    then obtain yd where "p = Some y" "h y = Some yd" "chain h f (f yd) (ys @ a # zs)" by auto
    with Cons.IH [of "f yd"] show ?case by (cases ys) auto
  qed
  with that show thesis by blast
qed

text \<open>Redirecting the last link of a chain, to skip a node or to append one.\<close>

lemma chain_relink:
  assumes "chain h f p (ys @ zs)" and "ys \<noteq> []" and "distinct (ys @ zs')"
    and "f nd' = q" and "chain h f q zs'"
  shows "chain (h(last ys \<mapsto> nd')) f p (ys @ zs')"
  using assms
proof (induction ys arbitrary: p)
  case Nil
  then show ?case by simp
next
  case (Cons y ys)
  show ?case
  proof (cases "ys = []")
    case True
    have "chain (h(y \<mapsto> nd')) f q zs'"
      using Cons.prems True chain_other [of y zs' h "Some nd'" f q] by simp
    with Cons.prems True show ?thesis by (simp del: fun_upd_apply add: fun_upd_same)
  next
    case False
    with Cons.prems have "last ys \<noteq> y" using last_in_set by force
    with Cons.IH Cons.prems False show ?thesis by auto
  qed
qed

lemma find_walk_absent:
  "chain h bucketNext p xs \<Longrightarrow> length xs < fuel \<Longrightarrow>
   (\<forall>a\<in>set xs. \<forall>nd. h a = Some nd \<longrightarrow> node_key nd \<noteq> k) \<Longrightarrow>
   \<exists>prev'. find_walk fuel h k prev p = Some (None, prev')"
proof (induction xs arbitrary: p prev fuel)
  case Nil
  then show ?case by simp
next
  case (Cons a xs)
  then show ?case by (cases fuel) auto
qed

lemma find_walk_present:
  "chain h bucketNext p (ys @ a # zs) \<Longrightarrow> length (ys @ a # zs) < fuel \<Longrightarrow> h a = Some nd \<Longrightarrow> node_key nd = k \<Longrightarrow>
   (\<forall>b\<in>set ys. \<forall>bd. h b = Some bd \<longrightarrow> node_key bd \<noteq> k) \<Longrightarrow>
   find_walk fuel h k prev p = Some (Some a, if ys = [] then prev else AtNode (last ys))"
proof (induction ys arbitrary: p prev fuel)
  case Nil
  then show ?case by (cases fuel) auto
next
  case (Cons b ys)
  then show ?case by (cases fuel) auto
qed

subsection \<open>The invariant and the abstract map\<close>

text \<open>
  \<open>live_entries m\<close> is what the map means: the keys and values of the nodes that are not deleted,
  in the order of insertion.  \<open>layout hash m bl\<close> is the invariant, with the chains of
  the buckets \<open>bl\<close> made explicit; the chain in insertion order is \<open>allNodes m\<close>.
\<close>

definition live :: "('k, 'v) hash_map \<Rightarrow> nat \<Rightarrow> bool" where
  "live m a \<longleftrightarrow> (case node_heap m a of None \<Rightarrow> False | Some nd \<Rightarrow> \<not> is_deleted nd)"

definition entry :: "('k, 'v) hash_map \<Rightarrow> nat \<Rightarrow> 'k \<times> 'v" where
  "entry m a = (node_key (the (node_heap m a)), node_value (the (node_heap m a)))"

definition live_entries :: "('k, 'v) hash_map \<Rightarrow> ('k \<times> 'v) list" where
  "live_entries m = map (entry m) (filter (live m) (allNodes m))"

definition layout :: "('k \<Rightarrow> nat) \<Rightarrow> ('k, 'v) hash_map \<Rightarrow> nat list list \<Rightarrow> bool" where
  "layout hash m bl \<longleftrightarrow>
     length bl = length (buckets m) \<and> bl \<noteq> [] \<and>
     (\<forall>i<length bl. chain (node_heap m) bucketNext (buckets m ! i) (bl ! i) \<and> distinct (bl ! i)) \<and>
     (\<forall>i<length bl. \<forall>a. a \<in> set (bl ! i) \<longleftrightarrow> live m a \<and> hash_key hash m (fst (entry m a)) = i) \<and>
     chain (node_heap m) orderNext (orderHead m) (allNodes m) \<and> distinct (allNodes m) \<and>
     orderTail m = (if allNodes m = [] then None else Some (last (allNodes m))) \<and>
     set (allNodes m) = dom (node_heap m) \<and> distinct (map fst (live_entries m))"

definition map_inv :: "('k \<Rightarrow> nat) \<Rightarrow> ('k, 'v) hash_map \<Rightarrow> bool" where
  "map_inv hash m \<longleftrightarrow> (\<exists>bl. layout hash m bl)"

lemma layoutD:
  assumes "layout hash m bl"
  shows "length bl = length (buckets m)" "bl \<noteq> []"
    "i < length bl \<Longrightarrow> chain (node_heap m) bucketNext (buckets m ! i) (bl ! i)"
    "i < length bl \<Longrightarrow> distinct (bl ! i)"
    "i < length bl \<Longrightarrow> a \<in> set (bl ! i) \<longleftrightarrow> live m a \<and> hash_key hash m (fst (entry m a)) = i"
    "chain (node_heap m) orderNext (orderHead m) (allNodes m)" "distinct (allNodes m)"
    "orderTail m = (if allNodes m = [] then None else Some (last (allNodes m)))"
    "set (allNodes m) = dom (node_heap m)" "distinct (map fst (live_entries m))"
  using assms unfolding layout_def by blast+

lemma live_in_heap: "live m a \<Longrightarrow> \<exists>nd. node_heap m a = Some nd \<and> \<not> is_deleted nd"
  by (auto simp: live_def split: option.splits)

lemma chain_length:
  assumes "layout hash m bl" and "i < length bl"
  shows "length (bl ! i) < chain_fuel m"
proof -
  have "set (bl ! i) \<subseteq> set (allNodes m)"
    using layoutD [OF assms(1)] assms(2) by (auto dest!: live_in_heap)
  then have "card (set (bl ! i)) \<le> card (set (allNodes m))" by (simp add: card_mono)
  then show ?thesis
    using layoutD(4,7) [OF assms(1)] assms(2) by (simp add: distinct_card chain_fuel_def)
qed

lemma hash_key_bound: "layout hash m bl \<Longrightarrow> hash_key hash m k < length bl"
  by (metis layoutD(1,2) hash_key_def length_greater_0_conv mod_less_divisor)

lemma layout_new: "layout hash (new_map n) (replicate (if n > 0 then n else 1) [])"
  by (simp add: layout_def new_map_def live_entries_def live_def)

lemma live_key_unique:
  assumes lay: "layout hash m bl" and "live m a" "live m b" "fst (entry m a) = fst (entry m b)"
  shows "a = b"
proof -
  have "a \<in> set (filter (live m) (allNodes m))" "b \<in> set (filter (live m) (allNodes m))"
    using assms layoutD(9) [OF lay] by (auto dest!: live_in_heap)
  moreover have "inj_on (fst \<circ> entry m) (set (filter (live m) (allNodes m)))"
    using layoutD(10) [OF lay] unfolding live_entries_def map_map distinct_map by blast
  ultimately show ?thesis using assms(4) inj_onD [of "fst \<circ> entry m" _ a b] by simp
qed

lemma map_of_live:
  assumes lay: "layout hash m bl" and "live m a"
  shows "map_of (live_entries m) (fst (entry m a)) = Some (snd (entry m a))"
proof -
  have "entry m a \<in> set (live_entries m)"
    using assms(2) layoutD(9) [OF lay] live_in_heap [OF assms(2)] by (auto simp: live_entries_def)
  then show ?thesis
    using layoutD(10) [OF lay] by (metis map_of_is_SomeI prod.collapse)
qed

lemma live_entries_mem: "k \<in> fst ` set (live_entries m) \<Longrightarrow> \<exists>a\<in>set (allNodes m). live m a \<and> fst (entry m a) = k"
  by (auto simp: live_entries_def)


subsection \<open>Lookup\<close>

lemma find_in_bucket_absent:
  assumes lay: "layout hash m bl" and "k \<notin> fst ` set (live_entries m)"
  shows "\<exists>prev. find_in_bucket hash k m = Some (None, prev)"
proof -
  let ?i = "hash_key hash m k"
  have i: "?i < length bl" by (rule hash_key_bound [OF lay])
  have "node_key nd \<noteq> k" if "a \<in> set (bl ! ?i)" "node_heap m a = Some nd" for a nd
  proof
    assume "node_key nd = k"
    moreover have "live m a" using that layoutD(5) [OF lay i] by blast
    moreover have "a \<in> set (allNodes m)" using that layoutD(9) [OF lay] by blast
    ultimately have "k \<in> fst ` set (live_entries m)"
      using that by (force simp: live_entries_def entry_def)
    with assms(2) show False by simp
  qed
  with find_walk_absent [OF layoutD(3) [OF lay i] chain_length [OF lay i]] show ?thesis
    unfolding find_in_bucket_def Let_def by blast
qed

lemma find_in_bucket_present:
  assumes lay: "layout hash m bl" and a: "live m a" "fst (entry m a) = k"
  obtains ys zs where "bl ! hash_key hash m k = ys @ a # zs"
    "find_in_bucket hash k m =
       Some (Some a, if ys = [] then AtBucket (hash_key hash m k) else AtNode (last ys))"
proof -
  let ?i = "hash_key hash m k"
  have i: "?i < length bl" by (rule hash_key_bound [OF lay])
  have "a \<in> set (bl ! ?i)" using a layoutD(5) [OF lay i] by simp
  then obtain ys zs where split: "bl ! ?i = ys @ a # zs" by (meson split_list)
  obtain nd where nd: "node_heap m a = Some nd" "node_key nd = k"
    using a live_in_heap by (fastforce simp: entry_def)
  have "node_key bd \<noteq> k" if "b \<in> set ys" "node_heap m b = Some bd" for b bd
  proof
    assume "node_key bd = k"
    moreover have "live m b" using layoutD(5) [OF lay i, of b] split that by auto
    ultimately have "b = a" using live_key_unique [OF lay _ a(1)] that a(2) by (simp add: entry_def)
    with layoutD(4) [OF lay i] split that show False by simp
  qed
  then have "find_in_bucket hash k m =
      Some (Some a, if ys = [] then AtBucket ?i else AtNode (last ys))"
    unfolding find_in_bucket_def Let_def
    using layoutD(3) [OF lay i] chain_length [OF lay i] nd
    by (intro find_walk_present [where zs = zs and nd = nd]) (auto simp: split)
  with split that show thesis by blast
qed

lemma with_value_spec:
  assumes "map_inv hash m"
  shows "with_value hash k f m = Some (map_option f (map_of (live_entries m) k))"
proof -
  from assms obtain bl where lay: "layout hash m bl" by (auto simp: map_inv_def)
  show ?thesis
  proof (cases "k \<in> fst ` set (live_entries m)")
    case True
    then obtain a where a: "live m a" "fst (entry m a) = k" using live_entries_mem by metis
    obtain prev where f: "find_in_bucket hash k m = Some (Some a, prev)"
      using find_in_bucket_present [OF lay a] by blast
    obtain nd where "node_heap m a = Some nd" "\<not> is_deleted nd" using live_in_heap [OF a(1)] by blast
    with f map_of_live [OF lay a(1)] a(2) show ?thesis by (simp add: with_value_def entry_def)
  next
    case False
    then have "map_of (live_entries m) k = None" by (simp add: map_of_eq_None_iff)
    with find_in_bucket_absent [OF lay False] show ?thesis by (auto simp: with_value_def)
  qed
qed

lemma find_value_eq: "find_value hash k m = with_value hash k (\<lambda>v. v) m"
  by (simp add: find_value_def with_value_def)


subsection \<open>Insertion, verified\<close>

definition linked_node :: "('k \<Rightarrow> nat) \<Rightarrow> 'k \<Rightarrow> 'v \<Rightarrow> ('k, 'v) hash_map \<Rightarrow> ('k, 'v) Node" where
  "linked_node hash k v m =
     \<lparr>node_key = k, node_value = v, bucketNext = buckets m ! hash_key hash m k, orderNext = None,
      is_deleted = False\<rparr>"

definition inserted ::
  "('k \<Rightarrow> nat) \<Rightarrow> nat \<Rightarrow> 'k \<Rightarrow> 'v \<Rightarrow> ('k, 'v) hash_map \<Rightarrow> ('k, 'v) hash_map" where
  "inserted hash addr k v m =
     m\<lparr>node_heap :=
         (if allNodes m = [] then (node_heap m)(addr \<mapsto> linked_node hash k v m)
          else (node_heap m)(addr \<mapsto> linked_node hash k v m,
                 last (allNodes m) \<mapsto> (the (node_heap m (last (allNodes m))))\<lparr>orderNext := Some addr\<rparr>)),
       buckets := (buckets m)[hash_key hash m k := Some addr],
       orderHead := (if allNodes m = [] then Some addr else orderHead m),
       orderTail := Some addr, allNodes := allNodes m @ [addr]\<rparr>"

lemma insert_map_eq:
  assumes lay: "layout hash m bl" and fresh: "node_heap m addr = None"
    and k: "k \<notin> fst ` set (live_entries m)"
  shows "insert_map hash addr k v m = Some (True, inserted hash addr k v m)"
proof -
  let ?i = "hash_key hash m k"
  obtain prev where find: "find_in_bucket hash k m = Some (None, prev)"
    using find_in_bucket_absent [OF lay k] by blast
  have i: "?i < length (buckets m)" using hash_key_bound [OF lay] layoutD(1) [OF lay] by metis
  show ?thesis
  proof (cases "allNodes m = []")
    case True
    then have "orderTail m = None" "orderHead m = None" using layoutD(6,8) [OF lay] by simp_all
    with True find fresh show ?thesis
      by (simp add: insert_map_def insert_prepare_def insert_swap_def Let_def chain_fuel_def
          inserted_def linked_node_def)
  next
    case False
    let ?t = "last (allNodes m)"
    have tail: "orderTail m = Some ?t" using layoutD(8) [OF lay] False by simp
    obtain td where td: "node_heap m ?t = Some td" "orderNext td = None"
      using chain_last [OF layoutD(6) [OF lay] False] by blast
    with fresh have "?t \<noteq> addr" by auto
    with False find fresh tail td show ?thesis
      by (simp add: insert_map_def insert_prepare_def insert_swap_def Let_def chain_fuel_def
          inserted_def linked_node_def)
  qed
qed

lemma inserted_heap:
  assumes lay: "layout hash m bl" and fresh: "node_heap m addr = None"
  shows "node_heap (inserted hash addr k v m) addr = Some (linked_node hash k v m)"
    and "a \<noteq> addr \<Longrightarrow> \<exists>x. map_option (\<lambda>nd. nd\<lparr>orderNext := x\<rparr>) (node_heap m a) =
      map_option (\<lambda>nd. nd\<lparr>orderNext := x\<rparr>) (node_heap (inserted hash addr k v m) a)"
    and "a \<noteq> addr \<Longrightarrow> live (inserted hash addr k v m) a = live m a"
    and "a \<noteq> addr \<Longrightarrow> live m a \<Longrightarrow> entry (inserted hash addr k v m) a = entry m a"
proof -
  have "allNodes m \<noteq> [] \<Longrightarrow> last (allNodes m) \<in> dom (node_heap m)"
    using layoutD(9) [OF lay] last_in_set by metis
  then have t: "allNodes m \<noteq> [] \<Longrightarrow> last (allNodes m) \<noteq> addr \<and> (\<exists>td. node_heap m (last (allNodes m)) = Some td)"
    using fresh by auto
  show "node_heap (inserted hash addr k v m) addr = Some (linked_node hash k v m)"
    using t by (auto simp: inserted_def)
  show "a \<noteq> addr \<Longrightarrow> \<exists>x. map_option (\<lambda>nd. nd\<lparr>orderNext := x\<rparr>) (node_heap m a) =
      map_option (\<lambda>nd. nd\<lparr>orderNext := x\<rparr>) (node_heap (inserted hash addr k v m) a)"
    using t by (auto simp: inserted_def)
  show "a \<noteq> addr \<Longrightarrow> live (inserted hash addr k v m) a = live m a"
    using t by (auto simp: inserted_def live_def)
  show "a \<noteq> addr \<Longrightarrow> live m a \<Longrightarrow> entry (inserted hash addr k v m) a = entry m a"
    using t by (auto simp: inserted_def live_def entry_def)
qed

lemma live_entries_inserted:
  assumes lay: "layout hash m bl" and fresh: "node_heap m addr = None"
  shows "live_entries (inserted hash addr k v m) = live_entries m @ [(k, v)]"
proof -
  note h = inserted_heap [OF lay fresh]
  have new: "live (inserted hash addr k v m) addr" "entry (inserted hash addr k v m) addr = (k, v)"
    by (simp_all add: live_def entry_def h(1) linked_node_def)
  have nodes: "allNodes (inserted hash addr k v m) = allNodes m @ [addr]" by (simp add: inserted_def)
  have old: "addr \<notin> set (allNodes m)" using layoutD(9) [OF lay] fresh by auto
  then have "live (inserted hash addr k v m) a = live m a" if "a \<in> set (allNodes m)" for a
    using h(3) [of a] that by auto
  then have "filter (live (inserted hash addr k v m)) (allNodes m) = filter (live m) (allNodes m)"
    by (intro filter_cong) auto
  moreover have "map (entry (inserted hash addr k v m)) (filter (live m) (allNodes m)) =
      map (entry m) (filter (live m) (allNodes m))"
  proof (intro map_cong refl)
    fix a assume "a \<in> set (filter (live m) (allNodes m))"
    then show "entry (inserted hash addr k v m) a = entry m a" using h(4) [of a] old by auto
  qed
  ultimately show ?thesis by (simp add: live_entries_def nodes new)
qed

lemma layout_inserted:
  assumes lay: "layout hash m bl" and fresh: "node_heap m addr = None"
    and k: "k \<notin> fst ` set (live_entries m)"
  shows "layout hash (inserted hash addr k v m)
    (bl[hash_key hash m k := addr # bl ! hash_key hash m k])" (is "layout hash ?m (bl[?i := _])")
proof -
  note L = layoutD [OF lay]
  note h = inserted_heap [OF lay fresh]
  let ?t = "last (allNodes m)"
  have i: "?i < length bl" by (rule hash_key_bound [OF lay])
  have new: "addr \<notin> set (allNodes m)" using L(9) fresh by auto
  have out: "addr \<notin> set (bl ! j)" if "j < length bl" for j
    using L(5) [OF that, of addr] fresh by (auto simp: live_def)
  have hk: "hash_key hash ?m x = hash_key hash m x" for x by (simp add: hash_key_def inserted_def)
  have chain1: "chain (node_heap ?m) bucketNext p xs = chain (node_heap m) bucketNext p xs"
    if "addr \<notin> set xs" for p xs
  proof (cases "allNodes m = []")
    case True
    with that show ?thesis by (simp add: inserted_def chain_other)
  next
    case False
    then obtain td where "node_heap m ?t = Some td" "?t \<noteq> addr"
      using L(9) new last_in_set by fastforce
    with that False show ?thesis
      using chain_same_link [of "(node_heap m)(addr \<mapsto> linked_node hash k v m)" ?t td bucketNext]
      by (simp add: inserted_def chain_other)
  qed
  have order: "chain (node_heap ?m) orderNext (orderHead ?m) (allNodes ?m)"
  proof (cases "allNodes m = []")
    case True
    then show ?thesis by (simp add: inserted_def linked_node_def)
  next
    case False
    have "chain ((node_heap m)(addr \<mapsto> linked_node hash k v m)) orderNext (orderHead m) (allNodes m @ [])"
      using L(6) new by (simp add: chain_other)
    from chain_relink [OF this False, of "[addr]" "(the (node_heap m ?t))\<lparr>orderNext := Some addr\<rparr>" "Some addr"]
    show ?thesis using False L(7) new by (simp add: inserted_def linked_node_def)
  qed
  have kbl: "a \<in> set (bl[?i := addr # bl ! ?i] ! j) \<longleftrightarrow> live ?m a \<and> hash_key hash ?m (fst (entry ?m a)) = j"
    if j: "j < length bl" for a j
  proof (cases "a = addr")
    case True
    have "live ?m addr" "fst (entry ?m addr) = k" by (simp_all add: live_def entry_def h(1) linked_node_def)
    with True out [OF j] j i show ?thesis by (auto simp: hk nth_list_update)
  next
    case False
    with L(5) [OF j, of a] h(3,4) [of a] j i show ?thesis by (auto simp: hk nth_list_update)
  qed
  have dom: "set (allNodes ?m) = dom (node_heap ?m)"
    using L(9) last_in_set [of "allNodes m"] by (auto simp: inserted_def)
  have chains: "chain (node_heap ?m) bucketNext (buckets ?m ! j) (bl[?i := addr # bl ! ?i] ! j) \<and>
      distinct (bl[?i := addr # bl ! ?i] ! j)" if j: "j < length bl" for j
  proof (cases "j = ?i")
    case True
    have "buckets ?m ! ?i = Some addr" using i L(1) by (simp add: inserted_def)
    with True i h(1) L(3,4) [OF i] out [OF i] show ?thesis by (simp add: chain1 linked_node_def)
  next
    case False
    then show ?thesis using j L(3,4) [OF j] out [OF j] by (simp add: chain1) (simp add: inserted_def)
  qed
  have "distinct (map fst (live_entries ?m))"
    using L(10) k by (simp add: live_entries_inserted [OF lay fresh])
  moreover have "distinct (allNodes ?m)" "orderTail ?m = Some (last (allNodes ?m))" "allNodes ?m \<noteq> []"
    "length (buckets ?m) = length bl"
    using L(1,7) new by (simp_all add: inserted_def)
  ultimately show ?thesis
    unfolding layout_def using L(2) chains kbl order dom by simp
qed

lemma insert_map_spec:
  assumes inv: "map_inv hash m" and fresh: "node_heap m addr = None"
  shows "\<exists>m'. insert_map hash addr k v m = Some (k \<notin> fst ` set (live_entries m), m') \<and> map_inv hash m' \<and>
    live_entries m' = (if k \<in> fst ` set (live_entries m) then live_entries m else live_entries m @ [(k, v)])"
proof -
  from inv obtain bl where lay: "layout hash m bl" by (auto simp: map_inv_def)
  show ?thesis
  proof (cases "k \<in> fst ` set (live_entries m)")
    case True
    then obtain a where a: "live m a" "fst (entry m a) = k" using live_entries_mem by metis
    then obtain prev where "find_in_bucket hash k m = Some (Some a, prev)"
      using find_in_bucket_present [OF lay a] by blast
    then have "insert_map hash addr k v m = Some (False, m)"
      using live_in_heap [OF a(1)] by (auto simp: insert_map_def insert_prepare_def)
    with True inv show ?thesis by simp
  next
    case False
    with insert_map_eq [OF lay fresh False] layout_inserted [OF lay fresh False]
      live_entries_inserted [OF lay fresh] show ?thesis by (auto simp: map_inv_def)
  qed
qed


subsection \<open>Removal, verified\<close>

text \<open>Two heaps that agree on everything but the bucket links and one deleted node.\<close>

definition same_but_deleted :: "nat \<Rightarrow> ('k, 'v) hash_map \<Rightarrow> ('k, 'v) hash_map \<Rightarrow> bool" where
  "same_but_deleted a m m' \<longleftrightarrow>
     (\<exists>x. \<forall>b. node_heap m' b =
        map_option (\<lambda>nd. nd\<lparr>bucketNext := x b, is_deleted := is_deleted nd \<or> b = a\<rparr>) (node_heap m b)) \<and>
     orderHead m' = orderHead m \<and> orderTail m' = orderTail m \<and> allNodes m' = allNodes m \<and>
     length (buckets m') = length (buckets m)"

lemma same_but_deletedD:
  assumes "same_but_deleted a m m'"
  shows "live m' b \<longleftrightarrow> live m b \<and> b \<noteq> a" and "entry m' b = entry m b \<or> node_heap m b = None"
    and "dom (node_heap m') = dom (node_heap m)"
    and "chain (node_heap m') orderNext p xs = chain (node_heap m) orderNext p xs"
    and "hash_key hash m' = hash_key hash m"
proof -
  obtain x where h: "\<And>b. node_heap m' b =
      map_option (\<lambda>nd. nd\<lparr>bucketNext := x b, is_deleted := is_deleted nd \<or> b = a\<rparr>) (node_heap m b)"
    using assms by (auto simp: same_but_deleted_def)
  show "live m' b \<longleftrightarrow> live m b \<and> b \<noteq> a" "entry m' b = entry m b \<or> node_heap m b = None"
    by (cases "node_heap m b"; simp add: live_def entry_def h)+
  show "dom (node_heap m') = dom (node_heap m)" by (auto simp: dom_def h)
  show "chain (node_heap m') orderNext p xs = chain (node_heap m) orderNext p xs"
  proof (induction xs arbitrary: p)
    case (Cons b xs)
    then show ?case by (cases "node_heap m b") (simp_all add: h)
  qed simp
  show "hash_key hash m' = hash_key hash m"
    using assms by (simp add: same_but_deleted_def hash_key_def fun_eq_iff)
qed

lemma live_entries_deleted:
  assumes lay: "layout hash m bl" and a: "live m a" "fst (entry m a) = k" and same: "same_but_deleted a m m'"
  shows "live_entries m' = filter (\<lambda>(k', _). k' \<noteq> k) (live_entries m)"
proof -
  note S = same_but_deletedD [OF same]
  have nodes: "allNodes m' = allNodes m" using same by (simp add: same_but_deleted_def)
  have ent: "entry m' b = entry m b" if "live m b" for b
    using S(2) [of b] live_in_heap [OF that] by auto
  have key: "fst (entry m b) \<noteq> k \<longleftrightarrow> b \<noteq> a" if "live m b" for b
    using live_key_unique [OF lay that a(1)] a(2) by auto
  have "filter (\<lambda>(k', _). k' \<noteq> k) (map (entry m) (filter (live m) ns)) =
      map (entry m') (filter (live m') ns)" for ns
    by (induction ns) (use ent key S(1) in \<open>auto simp: case_prod_beta\<close>)
  then show ?thesis by (simp add: live_entries_def nodes)
qed

lemma layout_deleted:
  assumes lay: "layout hash m bl" and a: "live m a" and same: "same_but_deleted a m m'"
    and i: "i = hash_key hash m (fst (entry m a))" and bl: "bl ! i = ys @ a # zs"
    and chains: "chain (node_heap m') bucketNext (buckets m' ! i) (ys @ zs)"
      "\<And>j. j < length bl \<Longrightarrow> j \<noteq> i \<Longrightarrow> chain (node_heap m') bucketNext (buckets m' ! j) (bl ! j)"
  shows "layout hash m' (bl[i := ys @ zs])"
proof -
  note L = layoutD [OF lay]
  note S = same_but_deletedD [OF same]
  have i': "i < length bl" unfolding i by (rule hash_key_bound [OF lay])
  have ent: "entry m' b = entry m b" if "live m b" for b
    using S(2) [of b] live_in_heap [OF that] by auto
  have fields: "orderHead m' = orderHead m" "orderTail m' = orderTail m" "allNodes m' = allNodes m"
    "length (buckets m') = length (buckets m)" using same by (auto simp: same_but_deleted_def)
  have mem: "b \<in> set (bl[i := ys @ zs] ! j) \<longleftrightarrow> live m' b \<and> hash_key hash m' (fst (entry m' b)) = j"
    if j: "j < length bl" for b j
  proof (cases "b = a")
    case True
    have "a \<notin> set (ys @ zs)" using L(4) [OF i'] bl by simp
    moreover have "a \<notin> set (bl ! j)" if "j \<noteq> i" using L(5) [OF j, of a] that i by auto
    ultimately show ?thesis using True j i' S(1) [of a] by (cases "j = i") auto
  next
    case False
    have "b \<in> set (bl[i := ys @ zs] ! j) \<longleftrightarrow> b \<in> set (bl ! j)"
      using False bl j i' by (cases "j = i") auto
    with L(5) [OF j, of b] S(1) [of b] ent [of b] False show ?thesis by (auto simp: S(5))
  qed
  have "distinct (map fst (live_entries m'))"
    using L(10) live_entries_deleted [OF lay a refl same] by (simp add: distinct_map_filter)
  moreover have "chain (node_heap m') bucketNext (buckets m' ! j) (bl[i := ys @ zs] ! j) \<and>
      distinct (bl[i := ys @ zs] ! j)" if j: "j < length bl" for j
    using chains L(4) [OF j] L(4) [OF i'] bl j by (cases "j = i") auto
  ultimately show ?thesis
    unfolding layout_def fields length_list_update S(3,4)
    using L(1,2,6-9) mem by (intro conjI allI impI) simp_all
qed

lemma unlink_spec:
  assumes lay: "layout hash m bl" and a: "live m a" "fst (entry m a) = k"
    and bl: "bl ! hash_key hash m k = ys @ a # zs" and nd: "node_heap m a = Some nd"
    and prev: "prev = (if ys = [] then AtBucket (hash_key hash m k) else AtNode (last ys))"
  shows "\<exists>m'. try_unlink_bucket a prev (m\<lparr>node_heap := (node_heap m)(a \<mapsto> nd\<lparr>is_deleted := True\<rparr>)\<rparr>) = Some m' \<and>
    same_but_deleted a m m' \<and> layout hash m' (bl[hash_key hash m k := ys @ zs]) \<and>
    node_heap m' a = Some (nd\<lparr>is_deleted := True\<rparr>) \<and> chain (node_heap m') bucketNext (bucketNext nd) zs"
proof -
  note L = layoutD [OF lay]
  let ?i = "hash_key hash m k" and ?h = "(node_heap m)(a \<mapsto> nd\<lparr>is_deleted := True\<rparr>)"
  have i: "?i < length bl" by (rule hash_key_bound [OF lay])
  have live_nd: "\<not> is_deleted nd" using a(1) nd by (simp add: live_def)
  have dist: "distinct (ys @ a # zs)" using L(4) [OF i] bl by simp
  have h: "chain ?h bucketNext p xs = chain (node_heap m) bucketNext p xs" for p xs
    using nd by (simp add: chain_same_link)
  have ch: "chain ?h bucketNext (buckets m ! ?i) (ys @ a # zs)" using L(3) [OF i] bl by (simp add: h)
  have other: "chain ?h bucketNext (buckets m ! j) (bl ! j)" if "j < length bl" for j
    using L(3) [OF that] by (simp add: h)
  from chain_split [OF ch] obtain nd' where cut: "?h a = Some nd'" "chain ?h bucketNext (bucketNext nd') zs"
    "ys = [] \<Longrightarrow> buckets m ! ?i = Some a" "ys \<noteq> [] \<Longrightarrow> \<exists>pd. ?h (last ys) = Some pd \<and> bucketNext pd = Some a"
    by blast
  then have nxt: "chain ?h bucketNext (bucketNext nd) zs" by auto
  show ?thesis
  proof (cases "ys = []")
    case True
    let ?m = "m\<lparr>node_heap := ?h, buckets := (buckets m)[?i := bucketNext nd]\<rparr>"
    have res: "try_unlink_bucket a prev (m\<lparr>node_heap := ?h\<rparr>) = Some ?m"
      using True prev cut(3) by (simp add: try_unlink_bucket_def)
    have same: "same_but_deleted a m ?m"
      unfolding same_but_deleted_def
      by (intro conjI exI [of _ "\<lambda>b. bucketNext (the (node_heap m b))"] allI)
        (auto simp: nd option.map_sel option.expand)
    have "layout hash ?m (bl[?i := ys @ zs])"
      using True nxt i L(1) other
      by (intro layout_deleted [OF lay a(1) same _ bl]) (auto simp: a(2))
    moreover have "node_heap ?m a = Some (nd\<lparr>is_deleted := True\<rparr>)"
      "chain (node_heap ?m) bucketNext (bucketNext nd) zs" using nxt by simp_all
    ultimately show ?thesis using res same by blast
  next
    case False
    let ?l = "last ys"
    obtain pd where pd: "?h ?l = Some pd" "bucketNext pd = Some a" using cut(4) False by blast
    have "?l \<noteq> a" using dist False last_in_set by force
    let ?m = "m\<lparr>node_heap := ?h(?l \<mapsto> pd\<lparr>bucketNext := bucketNext nd\<rparr>)\<rparr>"
    have res: "try_unlink_bucket a prev (m\<lparr>node_heap := ?h\<rparr>) = Some ?m"
      using False prev pd \<open>?l \<noteq> a\<close> by (simp add: try_unlink_bucket_def)
    have same: "same_but_deleted a m ?m"
      unfolding same_but_deleted_def
      using pd \<open>?l \<noteq> a\<close>
      by (intro conjI exI [of _ "\<lambda>b. if b = ?l then bucketNext nd else bucketNext (the (node_heap m b))"] allI)
        (auto simp: nd option.map_sel option.expand)
    have "chain (node_heap ?m) bucketNext (buckets ?m ! ?i) (ys @ zs)"
      using chain_relink [OF ch False, of zs "pd\<lparr>bucketNext := bucketNext nd\<rparr>"] nxt dist by simp
    moreover have "chain (node_heap ?m) bucketNext (buckets ?m ! j) (bl ! j)" if j: "j < length bl" "j \<noteq> ?i" for j
    proof -
      have "?l \<in> set (bl ! ?i)" using False bl by simp
      then have "hash_key hash m (fst (entry m ?l)) = ?i" using L(5) [OF i] by blast
      then have "?l \<notin> set (bl ! j)" using L(5) [OF j(1), of ?l] j(2) by auto
      with other [OF j(1)] show ?thesis
        using chain_other [of ?l "bl ! j" ?h "Some (pd\<lparr>bucketNext := bucketNext nd\<rparr>)" bucketNext "buckets m ! j"]
        by simp
    qed
    ultimately have "layout hash ?m (bl[?i := ys @ zs])"
      by (intro layout_deleted [OF lay a(1) same _ bl]) (simp_all add: a(2))
    moreover have "?l \<notin> set zs" using dist False last_in_set by force
    then have "node_heap ?m a = Some (nd\<lparr>is_deleted := True\<rparr>)"
      "chain (node_heap ?m) bucketNext (bucketNext nd) zs"
      using nxt \<open>?l \<noteq> a\<close> chain_other [of ?l zs ?h _ bucketNext "bucketNext nd"] by simp_all
    ultimately show ?thesis using res same by blast
  qed
qed

lemma remove_map_spec:
  assumes inv: "map_inv hash m"
  shows "\<exists>m'. remove_map hash k m = Some (k \<in> fst ` set (live_entries m), m') \<and> map_inv hash m' \<and>
    live_entries m' = filter (\<lambda>(k', _). k' \<noteq> k) (live_entries m)"
proof -
  from inv obtain bl where lay: "layout hash m bl" by (auto simp: map_inv_def)
  show ?thesis
  proof (cases "k \<in> fst ` set (live_entries m)")
    case True
    then obtain a where a: "live m a" "fst (entry m a) = k" using live_entries_mem by metis
    obtain ys zs where f: "bl ! hash_key hash m k = ys @ a # zs" "find_in_bucket hash k m =
       Some (Some a, if ys = [] then AtBucket (hash_key hash m k) else AtNode (last ys))"
      by (rule find_in_bucket_present [OF lay a])
    obtain nd where nd: "node_heap m a = Some nd" using live_in_heap [OF a(1)] by blast
    from unlink_spec [OF lay a f(1) nd refl] obtain m' where m':
      "try_unlink_bucket a (if ys = [] then AtBucket (hash_key hash m k) else AtNode (last ys))
        (m\<lparr>node_heap := (node_heap m)(a \<mapsto> nd\<lparr>is_deleted := True\<rparr>)\<rparr>) = Some m'"
      "same_but_deleted a m m'" "map_inv hash m'" unfolding map_inv_def by blast
    with f nd True live_entries_deleted [OF lay a m'(2)] show ?thesis by (simp add: remove_map_def)
  next
    case False
    then have "filter (\<lambda>(k', _). k' \<noteq> k) (live_entries m) = live_entries m"
      by (auto simp: filter_id_conv) force
    with False inv find_in_bucket_absent [OF lay False] show ?thesis by (auto simp: remove_map_def)
  qed
qed

end
