(* ===== verification/Hash_Map_Laws.thy ===== *)
theory Hash_Map_Laws
  imports Ordered_Hash_Map
begin

text \<open>
  Garbage collection, destruction and iteration of \<^verbatim>\<open>LockFreeOrderedHashMap\<close>
  (\<^verbatim>\<open>src/znet/fancy_queue.h\<close>) verified against the invariant of \<open>Ordered_Hash_Map\<close>, and the
  contract of the map as a locale.
\<close>

subsection \<open>Garbage collection, verified\<close>

definition same_but_order :: "('k, 'v) hash_map \<Rightarrow> ('k, 'v) hash_map \<Rightarrow> bool" where
  "same_but_order m m' \<longleftrightarrow>
     (\<exists>x. \<forall>b. node_heap m' b = map_option (\<lambda>nd. nd\<lparr>orderNext := x b\<rparr>) (node_heap m b)) \<and>
     buckets m' = buckets m \<and> allNodes m' = allNodes m"

lemma same_but_orderD:
  assumes "same_but_order m m'"
  shows "live m' = live m" and "node_heap m b \<noteq> None \<Longrightarrow> entry m' b = entry m b"
    and "dom (node_heap m') = dom (node_heap m)"
    and "chain (node_heap m') bucketNext p xs = chain (node_heap m) bucketNext p xs"
    and "buckets m' = buckets m" and "allNodes m' = allNodes m"
proof -
  obtain x where h: "\<And>b. node_heap m' b = map_option (\<lambda>nd. nd\<lparr>orderNext := x b\<rparr>) (node_heap m b)"
    using assms by (auto simp: same_but_order_def)
  show "live m' = live m" by (auto simp: live_def h fun_eq_iff split: option.splits)
  show "node_heap m b \<noteq> None \<Longrightarrow> entry m' b = entry m b" by (auto simp: entry_def h)
  show "dom (node_heap m') = dom (node_heap m)" by (auto simp: dom_def h)
  show "chain (node_heap m') bucketNext p xs = chain (node_heap m) bucketNext p xs"
  proof (induction xs arbitrary: p)
    case (Cons b xs)
    then show ?case by (cases "node_heap m b") (simp_all add: h)
  qed simp
  show "buckets m' = buckets m" "allNodes m' = allNodes m" using assms by (auto simp: same_but_order_def)
qed

lemma same_but_order_refl: "same_but_order m m"
  unfolding same_but_order_def
  by (intro conjI exI [of _ "\<lambda>b. orderNext (the (node_heap m b))"] allI refl) (simp add: option.expand option.map_sel)

lemma same_but_order_trans: "same_but_order m m' \<Longrightarrow> same_but_order m' m'' \<Longrightarrow> same_but_order m m''"
proof -
  assume "same_but_order m m'" "same_but_order m' m''"
  then obtain x y where
    "\<And>b. node_heap m' b = map_option (\<lambda>nd. nd\<lparr>orderNext := x b\<rparr>) (node_heap m b)"
    "\<And>b. node_heap m'' b = map_option (\<lambda>nd. nd\<lparr>orderNext := y b\<rparr>) (node_heap m' b)"
    "buckets m'' = buckets m" "allNodes m'' = allNodes m"
    by (auto simp: same_but_order_def)
  then show ?thesis
    unfolding same_but_order_def
    by (intro conjI exI [of _ y] allI) (simp_all add: option.map_comp comp_def)
qed

lemma same_but_order_link:
  "node_heap m p = Some pd \<Longrightarrow> same_but_order m (m\<lparr>node_heap := (node_heap m)(p \<mapsto> pd\<lparr>orderNext := q\<rparr>)\<rparr>)"
  unfolding same_but_order_def
  by (intro conjI exI [of _ "\<lambda>b. if b = p then q else orderNext (the (node_heap m b))"] allI)
    (auto simp: option.expand option.map_sel)

lemma same_but_order_head: "same_but_order m (m\<lparr>orderHead := q\<rparr>)" "same_but_order m (m\<lparr>orderTail := q\<rparr>)"
  using same_but_order_refl [of m] by (auto simp: same_but_order_def)

definition tail_of :: "nat list \<Rightarrow> nat option" where
  "tail_of xs = (if xs = [] then None else Some (last xs))"

lemma tail_of_simps [simp]: "tail_of [] = None" "xs \<noteq> [] \<Longrightarrow> tail_of (ys @ xs) = Some (last xs)"
  "tail_of (ys @ [x]) = Some x"
  by (auto simp: tail_of_def)

lemma chain_mid:
  "chain h f p (ks @ rs) \<Longrightarrow> ks \<noteq> [] \<Longrightarrow> \<exists>pd. h (last ks) = Some pd \<and> chain h f (f pd) rs"
  by (induction ks arbitrary: p) (auto split: if_splits)

text \<open>One step of the loop drops a deleted node \<open>c\<close> behind the kept prefix \<open>ks\<close>.\<close>

lemma gc_drop:
  assumes ch: "chain (node_heap m) orderNext (orderHead m) (ks @ c # rs)"
    and dist: "distinct (ks @ c # rs)" and tail: "orderTail m = tail_of (ks @ c # rs)"
    and nd: "node_heap m c = Some nd"
  shows "\<exists>m1. (case tail_of ks of
       Some p \<Rightarrow> map_option (\<lambda>pd. m\<lparr>node_heap := (node_heap m)(p \<mapsto> pd\<lparr>orderNext := orderNext nd\<rparr>)\<rparr>)
                   (node_heap m p)
     | None \<Rightarrow> Some (m\<lparr>orderHead := orderNext nd\<rparr>)) = Some m1 \<and> same_but_order m m1 \<and>
     (let m2 = if orderTail m1 = Some c then m1\<lparr>orderTail := tail_of ks\<rparr> else m1 in
      chain (node_heap m2) orderNext (orderHead m2) (ks @ rs) \<and> orderTail m2 = tail_of (ks @ rs) \<and>
      same_but_order m m2 \<and> (ks = [] \<longrightarrow> node_heap m2 = node_heap m))"
proof -
  have tl: "orderTail m = Some c \<longleftrightarrow> rs = []"
    using tail dist last_in_set [of rs] by (auto simp: tail_of_def split: if_splits)
  have rs: "chain (node_heap m) orderNext (orderNext nd) rs"
    using chain_split [OF ch] nd by (metis option.inject)
  show ?thesis
  proof (cases "ks = []")
    case True
    with rs tl tail show ?thesis
      by (auto simp: tail_of_def same_but_order_head Let_def
          intro: same_but_order_trans [OF same_but_order_head(1) same_but_order_head(2)])
  next
    case False
    obtain pd where pd: "node_heap m (last ks) = Some pd" using chain_mid [OF ch False] by blast
    let ?m1 = "m\<lparr>node_heap := (node_heap m)(last ks \<mapsto> pd\<lparr>orderNext := orderNext nd\<rparr>)\<rparr>"
    have "chain (node_heap ?m1) orderNext (orderHead ?m1) (ks @ rs)"
      using chain_relink [OF ch False, of rs "pd\<lparr>orderNext := orderNext nd\<rparr>"] rs dist by simp
    moreover have "same_but_order m ?m1" by (rule same_but_order_link [OF pd])
    ultimately show ?thesis
      using False pd tl tail
      by (auto simp: tail_of_def Let_def intro: same_but_order_trans [OF _ same_but_order_head(2)])
  qed
qed

lemma gc_order_spec:
  assumes "chain (node_heap m) orderNext (orderHead m) (ks @ rs)" and "chain (node_heap m) orderNext cur rs"
    and "distinct (ks @ rs)" and "orderTail m = tail_of (ks @ rs)" and "length rs < fuel"
  shows "\<exists>m'. gc_order fuel (tail_of ks) cur m = Some m' \<and> same_but_order m m' \<and>
    chain (node_heap m') orderNext (orderHead m') (ks @ filter (live m) rs) \<and>
    orderTail m' = tail_of (ks @ filter (live m) rs)"
  using assms
proof (induction rs arbitrary: m ks cur fuel)
  case Nil
  then show ?case by (auto simp: same_but_order_refl)
next
  case (Cons c rs)
  then obtain n nd where fuel: "fuel = Suc n" and c: "cur = Some c" "node_heap m c = Some nd"
    and rs: "chain (node_heap m) orderNext (orderNext nd) rs" by (cases fuel) auto
  show ?case
  proof (cases "is_deleted nd")
    case True
    from gc_drop [OF Cons.prems(1,3,4) c(2)] obtain m1 m2 where
      m1: "(case tail_of ks of
         Some p \<Rightarrow> map_option (\<lambda>pd. m\<lparr>node_heap := (node_heap m)(p \<mapsto> pd\<lparr>orderNext := orderNext nd\<rparr>)\<rparr>)
                     (node_heap m p)
       | None \<Rightarrow> Some (m\<lparr>orderHead := orderNext nd\<rparr>)) = Some m1"
      and m2: "m2 = (if orderTail m1 = Some c then m1\<lparr>orderTail := tail_of ks\<rparr> else m1)"
      "chain (node_heap m2) orderNext (orderHead m2) (ks @ rs)" "orderTail m2 = tail_of (ks @ rs)"
      "same_but_order m m2" "ks = [] \<longrightarrow> node_heap m2 = node_heap m"
      by (auto simp: Let_def)
    have "chain (node_heap m2) orderNext (orderNext nd) rs"
    proof (cases "ks = []")
      case True
      with m2(5) rs show ?thesis by simp
    next
      case False
      have "node_heap m2 = (node_heap m)(last ks \<mapsto> (the (node_heap m (last ks)))\<lparr>orderNext := orderNext nd\<rparr>)"
        using m1 m2(1) False by (auto simp: tail_of_def split: if_splits)
      moreover have "last ks \<notin> set rs" using Cons.prems(3) False last_in_set by force
      ultimately show ?thesis using rs by (simp add: chain_other)
    qed
    from Cons.IH [OF m2(2) this _ m2(3), of n] Cons.prems(3,5) fuel obtain m' where
      "gc_order n (tail_of ks) (orderNext nd) m2 = Some m'" "same_but_order m2 m'"
      "chain (node_heap m') orderNext (orderHead m') (ks @ filter (live m2) rs)"
      "orderTail m' = tail_of (ks @ filter (live m2) rs)" by auto
    moreover have "live m2 = live m" by (rule same_but_orderD(1) [OF m2(4)])
    moreover have "\<not> live m c" using c(2) True by (simp add: live_def)
    ultimately show ?thesis
      using fuel c True m1 m2(1) same_but_order_trans [OF m2(4)] by (auto simp: Let_def)
  next
    case False
    have "chain (node_heap m) orderNext (orderHead m) ((ks @ [c]) @ rs)"
      "distinct ((ks @ [c]) @ rs)" "orderTail m = tail_of ((ks @ [c]) @ rs)" "length rs < n"
      using Cons.prems fuel by simp_all
    from Cons.IH [OF this(1) rs this(2-4)] False fuel c show ?thesis by (simp add: live_def)
  qed
qed

lemma sweep_spec:
  assumes "distinct ns" and "\<forall>a\<in>set ns. h a \<noteq> None"
  shows "\<exists>h'. sweep ns h = Some (filter (\<lambda>a. \<not> is_deleted (the (h a))) ns, h') \<and>
    h' = h |` (- {a \<in> set ns. is_deleted (the (h a))})"
  using assms
proof (induction ns arbitrary: h)
  case Nil
  then show ?case by (simp add: restrict_map_def)
next
  case (Cons a ns)
  obtain nd where nd: "h a = Some nd" using Cons.prems by auto
  show ?case
  proof (cases "is_deleted nd")
    case True
    let ?h = "h(a := None)"
    have ne: "\<forall>b\<in>set ns. ?h b \<noteq> None" "a \<notin> set ns" using Cons.prems by auto
    have "filter (\<lambda>b. \<not> is_deleted (the (?h b))) ns = filter (\<lambda>b. \<not> is_deleted (the (h b))) ns"
      using ne by (intro filter_cong) auto
    moreover have "?h |` (- {b \<in> set ns. is_deleted (the (?h b))}) =
        h |` (- {b \<in> set (a # ns). is_deleted (the (h b))})"
      using nd True ne by (auto simp: restrict_map_def fun_eq_iff)
    moreover from Cons.IH [of ?h] Cons.prems(1) ne have
      "sweep ns ?h = Some (filter (\<lambda>b. \<not> is_deleted (the (?h b))) ns,
         ?h |` (- {b \<in> set ns. is_deleted (the (?h b))}))" by (simp del: fun_upd_apply)
    ultimately have "sweep ns ?h = Some (filter (\<lambda>b. \<not> is_deleted (the (h b))) ns,
        h |` (- {b \<in> set (a # ns). is_deleted (the (h b))}))" by (simp only:)
    with nd True show ?thesis by (simp del: fun_upd_apply)
  next
    case False
    have "{b \<in> set (a # ns). is_deleted (the (h b))} = {b \<in> set ns. is_deleted (the (h b))}"
      using nd False by auto
    with Cons.IH [of h] Cons.prems nd False show ?thesis by auto
  qed
qed

lemma chain_restrict: "set xs \<subseteq> A \<Longrightarrow> chain (h |` A) f p xs = chain h f p xs"
  by (induction xs arbitrary: p) auto

lemma collect_garbage_spec:
  assumes inv: "map_inv hash m"
  shows "\<exists>m'. collect_garbage m = Some m' \<and> map_inv hash m' \<and> live_entries m' = live_entries m \<and>
    (\<forall>a nd. node_heap m' a = Some nd \<longrightarrow> \<not> is_deleted nd)"
proof -
  from inv obtain bl where lay: "layout hash m bl" by (auto simp: map_inv_def)
  note L = layoutD [OF lay]
  have "orderTail m = tail_of (allNodes m)" using L(8) by (simp add: tail_of_def)
  with gc_order_spec [of m "[]" "allNodes m" "orderHead m" "chain_fuel m"] L(6,7) obtain q where
    q: "gc_order (chain_fuel m) None (orderHead m) m = Some q" "same_but_order m q"
      "chain (node_heap q) orderNext (orderHead q) (filter (live m) (allNodes m))"
      "orderTail q = tail_of (filter (live m) (allNodes m))" by (auto simp: chain_fuel_def)
  note S = same_but_orderD [OF q(2)]
  have all: "\<forall>a\<in>set (allNodes q). node_heap q a \<noteq> None" using L(9) S(3,6) by auto
  have dead: "is_deleted (the (node_heap q a)) \<longleftrightarrow> \<not> live m a" if "a \<in> set (allNodes q)" for a
  proof -
    have "live m a = live q a" using S(1) by simp
    then show ?thesis using all that by (auto simp: live_def)
  qed
  let ?h = "node_heap q |` (- {a \<in> set (allNodes q). is_deleted (the (node_heap q a))})"
  have "filter (\<lambda>a. \<not> is_deleted (the (node_heap q a))) (allNodes q) = filter (live m) (allNodes m)"
    using dead by (simp add: S(6) cong: filter_cong)
  with sweep_spec [of "allNodes q" "node_heap q"] all L(7) S(6)
  have sw: "sweep (allNodes q) (node_heap q) = Some (filter (live m) (allNodes m), ?h)" by simp
  let ?m = "q\<lparr>node_heap := ?h, allNodes := filter (live m) (allNodes m)\<rparr>"
  have kept: "- {a \<in> set (allNodes q). is_deleted (the (node_heap q a))} = - {a \<in> set (allNodes m). \<not> live m a}"
    using dead S(6) by auto
  have heap: "node_heap ?m a = (if live m a then node_heap q a else None)" for a
  proof -
    have "node_heap q a = None" if "a \<notin> set (allNodes m)" using that L(9) S(3) by blast
    then show ?thesis by (simp add: kept restrict_map_def)
  qed
  have lv: "live ?m a = live m a" for a
  proof -
    have "live m a = live q a" using S(1) by simp
    then show ?thesis using heap [of a] by (simp add: live_def [of ?m] live_def [of q])
  qed
  have ent: "live m a \<Longrightarrow> entry ?m a = entry m a" for a
    using S(2) [of a] heap [of a] live_in_heap [of m a] by (auto simp: entry_def)
  have entries: "live_entries ?m = live_entries m"
    unfolding live_entries_def using lv ent by (auto cong: filter_cong)
  have "layout hash ?m bl"
    unfolding layout_def
  proof (intro conjI allI impI)
    show "length bl = length (buckets ?m)" "bl \<noteq> []" using L(1,2) S(5) by simp_all
    fix i assume i: "i < length bl"
    have sub: "set (bl ! i) \<subseteq> - {a \<in> set (allNodes m). \<not> live m a}" using L(5) [OF i] by auto
    show "chain (node_heap ?m) bucketNext (buckets ?m ! i) (bl ! i)"
      using L(3) [OF i] by (simp add: kept chain_restrict [OF sub] S(4,5))
    show "distinct (bl ! i)" by (rule L(4) [OF i])
    show "a \<in> set (bl ! i) \<longleftrightarrow> live ?m a \<and> hash_key hash ?m (fst (entry ?m a)) = i" for a
      using L(5) [OF i, of a] lv [of a] ent [of a] S(5) by (auto simp: hash_key_def)
  next
    have sub: "set (filter (live m) (allNodes m)) \<subseteq> - {a \<in> set (allNodes m). \<not> live m a}" by auto
    show "chain (node_heap ?m) orderNext (orderHead ?m) (allNodes ?m)"
      using q(3) by (simp add: kept chain_restrict [OF sub])
    show "distinct (allNodes ?m)" using L(7) by simp
    show "orderTail ?m = (if allNodes ?m = [] then None else Some (last (allNodes ?m)))"
      using q(4) by (simp add: tail_of_def)
    show "set (allNodes ?m) = dom (node_heap ?m)"
      using heap S(3) L(9) live_in_heap by (fastforce simp: dom_def split: if_splits)
    show "distinct (map fst (live_entries ?m))" using L(10) entries by simp
  qed
  then have inv': "map_inv hash ?m" by (auto simp: map_inv_def)
  have alive: "\<not> is_deleted nd" if "node_heap ?m a = Some nd" for a nd
  proof -
    have "live m a" using that heap [of a] by (auto split: if_splits)
    then have "live ?m a" using lv by simp
    with that show ?thesis by (simp add: live_def [of ?m])
  qed
  have "collect_garbage m = Some ?m"
    by (simp only: collect_garbage_def q(1) sw option.case prod.case)
  with inv' entries alive show ?thesis by blast
qed


subsection \<open>Iteration, verified\<close>

lemma order_walk_spec:
  "chain h orderNext p xs \<Longrightarrow> length xs < fuel \<Longrightarrow>
   order_walk fuel h p = Some (map (\<lambda>a. (node_key (the (h a)), node_value (the (h a))))
     (filter (\<lambda>a. \<not> is_deleted (the (h a))) xs))"
proof (induction xs arbitrary: p fuel)
  case (Cons a xs)
  then show ?case by (cases fuel) auto
qed simp

lemma order_entries_spec:
  assumes "map_inv hash m"
  shows "order_entries m = Some (live_entries m)"
proof -
  from assms obtain bl where lay: "layout hash m bl" by (auto simp: map_inv_def)
  have "live m a \<longleftrightarrow> \<not> is_deleted (the (node_heap m a))" if "a \<in> set (allNodes m)" for a
    using that layoutD(9) [OF lay] by (auto simp: live_def)
  then have "filter (live m) (allNodes m) = filter (\<lambda>a. \<not> is_deleted (the (node_heap m a))) (allNodes m)"
    by (intro filter_cong) auto
  then show ?thesis
    using order_walk_spec [OF layoutD(6) [OF lay], of "chain_fuel m"]
    by (simp add: order_entries_def live_entries_def chain_fuel_def entry_def [abs_def])
qed

lemma destroy_nodes_spec:
  "distinct ns \<Longrightarrow> set ns \<subseteq> dom h \<Longrightarrow> destroy_nodes ns h = Some (h |` (- set ns))"
proof (induction ns arbitrary: h)
  case Nil
  then show ?case by (simp add: restrict_map_def)
next
  case (Cons a ns)
  have "(h(a := None)) |` (- set ns) = h |` (- set (a # ns))" by (auto simp: restrict_map_def)
  moreover have "h a \<noteq> None" "set ns \<subseteq> dom (h(a := None))" "distinct ns" using Cons.prems by auto
  ultimately show ?case using Cons.IH [of "h(a := None)"] by (simp del: fun_upd_apply)
qed

lemma destroy_map_spec: "map_inv hash m \<Longrightarrow> destroy_map m = Some Map.empty"
proof -
  assume "map_inv hash m"
  then obtain bl where "layout hash m bl" by (auto simp: map_inv_def)
  then have "destroy_map m = Some (node_heap m |` (- dom (node_heap m)))"
    using destroy_nodes_spec [of "allNodes m" "node_heap m"] layoutD(7,9) [of hash m bl]
    by (simp add: destroy_map_def)
  then show ?thesis by (simp add: restrict_map_def dom_def fun_eq_iff)
qed

text \<open>An iterator together with the nodes it still has to visit.\<close>

definition cursor :: "nat list list \<Rightarrow> bucket_iterator \<Rightarrow> nat list \<Rightarrow> bool" where
  "cursor bl it todo \<longleftrightarrow>
     todo = [] \<and> currentNode it = None \<or>
     (\<exists>k ys b zs. k < length bl \<and> it = \<lparr>bucketIndex = k, currentNode = Some b\<rparr> \<and> bl ! k = ys @ b # zs \<and>
        todo = b # zs @ concat (drop (Suc k) bl))"

lemma concat_drop_nth: "k < length bl \<Longrightarrow> concat (drop k bl) = bl ! k @ concat (drop (Suc k) bl)"
  by (simp add: Cons_nth_drop_Suc [symmetric])

lemma next_bucket_spec:
  assumes lay: "layout hash m bl" and "chain (node_heap m) bucketNext p zs" and "k < length bl"
    and "bl ! k = ys @ zs" and "next_bucket m k p = (k', p')"
  shows "if zs @ concat (drop (Suc k) bl) = [] then p' = None
    else \<exists>b. p' = Some b \<and> cursor bl \<lparr>bucketIndex = k', currentNode = Some b\<rparr> (zs @ concat (drop (Suc k) bl))"
  using assms(2-5)
proof (induction "length bl - k" arbitrary: k p zs ys)
  case 0
  then show ?case by simp
next
  case (Suc n)
  note L = layoutD [OF lay]
  show ?case
  proof (cases zs)
    case (Cons b rest)
    then have "next_bucket m k p = (k, p)" "p = Some b"
      using Suc.prems(1) by (simp_all add: next_bucket.simps)
    with Suc.prems Cons show ?thesis by (auto simp: cursor_def)
  next
    case Nil
    then have p: "p = None" using Suc.prems(1) by simp
    show ?thesis
    proof (cases "k < length bl - 1")
      case True
      then have k1: "Suc k < length bl" by simp
      have "next_bucket m (Suc k) (buckets m ! Suc k) = (k', p')"
        using Suc.prems(4) True p L(1) by (subst (asm) next_bucket.simps) simp
      from Suc.hyps(1) [OF _ L(3) [OF k1] k1 _ this, of "[]"] Suc.hyps(2) concat_drop_nth [OF k1]
      show ?thesis by (simp add: Nil)
    next
      case False
      then have "drop (Suc k) bl = []" by simp
      moreover have "next_bucket m k p = (k, p)" using False L(1) by (simp add: next_bucket.simps)
      ultimately show ?thesis using Nil p Suc.prems(4) by simp
    qed
  qed
qed

lemma bucket_next_cursor:
  assumes lay: "layout hash m bl" and k: "k < length bl" "bl ! k = ys @ zs"
    and nd: "node_heap m a = Some nd" "chain (node_heap m) bucketNext (bucketNext nd) zs"
  shows "\<exists>it. bucket_next m \<lparr>bucketIndex = k, currentNode = Some a\<rparr> = Some it \<and>
    cursor bl it (zs @ concat (drop (Suc k) bl))"
proof -
  obtain k' p' where n: "next_bucket m k (bucketNext nd) = (k', p')" by fastforce
  note spec = next_bucket_spec [OF lay nd(2) k n]
  show ?thesis
  proof (cases p')
    case None
    with spec have "zs @ concat (drop (Suc k) bl) = []" by (auto split: if_splits)
    with None nd n show ?thesis
      by (simp add: bucket_next_def advance_to_next_valid_def bucket_end_def chain_fuel_def cursor_def)
  next
    case (Some b)
    with spec have c: "cursor bl \<lparr>bucketIndex = k', currentNode = Some b\<rparr> (zs @ concat (drop (Suc k) bl))"
      by (auto split: if_splits)
    then have "b \<in> set (bl ! k')" "k' < length bl" by (auto simp: cursor_def)
    then obtain bd where "node_heap m b = Some bd" "\<not> is_deleted bd"
      using layoutD(5) [OF lay] live_in_heap by metis
    with Some nd n c show ?thesis
      by (simp add: bucket_next_def advance_to_next_valid_def chain_fuel_def)
  qed
qed

lemma begin_loop_cursor:
  assumes lay: "layout hash m bl" and "k \<le> length bl"
  shows "\<exists>it. begin_loop [k..<length bl] m = Some it \<and> cursor bl it (concat (drop k bl))"
  using assms(2)
proof (induction "length bl - k" arbitrary: k)
  case 0
  then show ?case using layoutD(1) [OF lay] by (simp add: cursor_def bucket_end_def)
next
  case (Suc n)
  then have k: "k < length bl" by simp
  note L = layoutD [OF lay]
  have upt: "[k..<length bl] = k # [Suc k..<length bl]" using k by (simp add: upt_conv_Cons)
  show ?case
  proof (cases "bl ! k")
    case Nil
    then have "buckets m ! k = None" using L(3) [OF k] by simp
    moreover have n: "n = length bl - Suc k" "Suc k \<le> length bl" using Suc.hyps(2) k by simp_all
    moreover obtain it where "begin_loop [Suc k..<length bl] m = Some it"
      "cursor bl it (concat (drop (Suc k) bl))" using Suc.hyps(1) [OF n] by blast
    ultimately show ?thesis using upt concat_drop_nth [OF k] Nil by simp
  next
    case (Cons b zs)
    then have "buckets m ! k = Some b" using L(3) [OF k] by simp
    moreover have "live m b" using L(5) [OF k, of b] Cons by auto
    then obtain bd where "node_heap m b = Some bd" "\<not> is_deleted bd" using live_in_heap by metis
    ultimately show ?thesis
      using upt concat_drop_nth [OF k] Cons k by (auto simp: cursor_def chain_fuel_def)
  qed
qed


text \<open>Writing a value in place.\<close>

lemma layout_write:
  assumes lay: "layout hash m bl" and nd: "node_heap m a = Some nd" and a: "live m a"
    and m'_def: "m' = m\<lparr>node_heap := (node_heap m)(a \<mapsto> nd\<lparr>node_value := v\<rparr>)\<rparr>"
  shows "layout hash m' bl" and "live m' = live m" and "b \<noteq> a \<Longrightarrow> entry m' b = entry m b"
    and "entry m' a = (fst (entry m a), v)"
proof -
  note L = layoutD [OF lay]
  show lv: "live m' = live m" using nd by (auto simp: m'_def live_def fun_eq_iff)
  show ent: "b \<noteq> a \<Longrightarrow> entry m' b = entry m b" "entry m' a = (fst (entry m a), v)" for b
    using nd by (simp_all add: m'_def entry_def)
  then have key: "fst (entry m' b) = fst (entry m b)" for b by (cases "b = a") simp_all
  have keys: "map fst (live_entries m') = map fst (live_entries m)"
    by (simp add: live_entries_def lv key comp_def) (simp add: m'_def)
  have "dom (node_heap m') = dom (node_heap m)" using nd by (auto simp: m'_def)
  moreover have "chain (node_heap m') bucketNext p xs = chain (node_heap m) bucketNext p xs"
    "chain (node_heap m') orderNext p xs = chain (node_heap m) orderNext p xs" for p xs
    using nd by (simp_all add: m'_def chain_same_link)
  moreover have "hash_key hash m' = hash_key hash m" "buckets m' = buckets m" "orderHead m' = orderHead m"
    "orderTail m' = orderTail m" "allNodes m' = allNodes m" by (simp_all add: m'_def)
  ultimately show "layout hash m' bl"
    using L unfolding layout_def keys lv by (simp add: key)
qed

text \<open>What a loop whose decisions depend on the entry alone leaves of the entries it visits.\<close>

definition apply_action :: "('k \<Rightarrow> 'v \<Rightarrow> 'v option) \<Rightarrow> nat set \<Rightarrow> ('k, 'v) hash_map \<Rightarrow> nat \<Rightarrow> ('k \<times> 'v) list" where
  "apply_action act todo m a =
     (if a \<in> todo then
        (case act (fst (entry m a)) (snd (entry m a)) of
           Some v \<Rightarrow> [(fst (entry m a), v)] | None \<Rightarrow> [])
      else [entry m a])"

lemma for_each_step:
  assumes lay: "layout hash m bl" and k: "k < length bl" "bl ! k = ys @ a # zs"
    and nd: "node_heap m a = Some nd"
    and m': "(case act of Some v \<Rightarrow> Some (m\<lparr>node_heap := (node_heap m)(a \<mapsto> nd\<lparr>node_value := v\<rparr>)\<rparr>)
       | None \<Rightarrow> map_option snd (remove_map hash (node_key nd) m)) = res"
  obtains m' bl' it where "res = Some m'" "layout hash m' bl'"
    "bucket_next m' \<lparr>bucketIndex = k, currentNode = Some a\<rparr> = Some it"
    "cursor bl' it (zs @ concat (drop (Suc k) bl))" "allNodes m' = allNodes m"
    "\<forall>b. b \<noteq> a \<longrightarrow> live m' b = live m b" "\<forall>b. b \<noteq> a \<longrightarrow> live m b \<longrightarrow> entry m' b = entry m b"
    "live m' a \<longleftrightarrow> act \<noteq> None" "\<forall>v. act = Some v \<longrightarrow> entry m' a = (node_key nd, v)"
proof -
  note L = layoutD [OF lay]
  have a: "live m a" "hash_key hash m (fst (entry m a)) = k" using L(5) [OF k(1), of a] k(2) by auto
  have key: "fst (entry m a) = node_key nd" using nd by (simp add: entry_def)
  show thesis
  proof (cases act)
    case (Some v)
    let ?m = "m\<lparr>node_heap := (node_heap m)(a \<mapsto> nd\<lparr>node_value := v\<rparr>)\<rparr>"
    note W = layout_write [OF lay nd a(1), where v = v, OF refl]
    have "chain (node_heap m) bucketNext (bucketNext nd) zs"
      using chain_split [OF L(3) [OF k(1), unfolded k(2)]] nd by (metis option.inject)
    then have "chain (node_heap ?m) bucketNext (bucketNext (nd\<lparr>node_value := v\<rparr>)) zs"
      using nd by (simp add: chain_same_link)
    with bucket_next_cursor [OF W(1) k(1), of "ys @ [a]" zs a] k(2) obtain it where
      it: "bucket_next ?m \<lparr>bucketIndex = k, currentNode = Some a\<rparr> = Some it"
        "cursor bl it (zs @ concat (drop (Suc k) bl))" by auto
    have res: "res = Some ?m" using m' Some by simp
    show thesis
      by (rule that [OF res W(1) it]) (use W(2-4) a(1) Some key in \<open>auto\<close>)
  next
    case None
    obtain ys' zs' where f: "bl ! k = ys' @ a # zs'" "find_in_bucket hash (node_key nd) m =
       Some (Some a, if ys' = [] then AtBucket k else AtNode (last ys'))"
      using find_in_bucket_present [OF lay a(1) key] a(2) key by metis
    have eq: "ys' = ys" "zs' = zs"
      using f(1) k(2) L(4) [OF k(1)] by (metis append_Cons_eq_iff distinct_append not_distinct_conv_prefix
          distinct.simps(2) disjoint_insert(1) list.set(2))+
    from unlink_spec [OF lay a(1) key _ nd refl, of ys zs] k a(2) key obtain m1 where m1:
      "try_unlink_bucket a (if ys = [] then AtBucket k else AtNode (last ys))
        (m\<lparr>node_heap := (node_heap m)(a \<mapsto> nd\<lparr>is_deleted := True\<rparr>)\<rparr>) = Some m1"
      "same_but_deleted a m m1" "layout hash m1 (bl[k := ys @ zs])"
      "node_heap m1 a = Some (nd\<lparr>is_deleted := True\<rparr>)"
      "chain (node_heap m1) bucketNext (bucketNext nd) zs" by auto
    have "remove_map hash (node_key nd) m = Some (True, m1)"
      using f(2) eq nd m1(1) by (cases "ys = []") (simp_all add: remove_map_def)
    then have res: "res = Some m1" using m' None by simp
    from bucket_next_cursor [OF m1(3), of k ys zs a] k m1(4,5) obtain it where
      it: "bucket_next m1 \<lparr>bucketIndex = k, currentNode = Some a\<rparr> = Some it"
        "cursor (bl[k := ys @ zs]) it (zs @ concat (drop (Suc k) bl))" by auto
    note S = same_but_deletedD [OF m1(2)]
    have other: "live m1 b = live m b" "live m b \<Longrightarrow> entry m1 b = entry m b" if "b \<noteq> a" for b
      using S(1,2) [of b] that live_in_heap [of m b] by auto
    have "\<not> live m1 a" "allNodes m1 = allNodes m"
      using S(1) [of a] m1(2) by (auto simp: same_but_deleted_def)
    then show thesis
      by (intro that [OF res m1(3) it]) (use other None in \<open>auto\<close>)
  qed
qed


lemma concat_map_filter: "concat (map f (filter P xs)) = concat (map (\<lambda>x. if P x then f x else []) xs)"
  by (induction xs) auto

definition loop_result :: "('k \<Rightarrow> 'v \<Rightarrow> 'v option) \<Rightarrow> nat set \<Rightarrow> ('k, 'v) hash_map \<Rightarrow> ('k \<times> 'v) list" where
  "loop_result act todo m = concat (map (apply_action act todo m) (filter (live m) (allNodes m)))"

lemma loop_result_step:
  assumes nodes: "allNodes m' = allNodes m" and a: "live m a" "a \<notin> todo" "act' = act (fst (entry m a)) (snd (entry m a))"
    and others: "\<And>b. b \<noteq> a \<Longrightarrow> live m' b = live m b" "\<And>b. b \<noteq> a \<Longrightarrow> live m b \<Longrightarrow> entry m' b = entry m b"
    and here: "live m' a \<longleftrightarrow> act' \<noteq> None" "\<And>v. act' = Some v \<Longrightarrow> entry m' a = (fst (entry m a), v)"
  shows "loop_result act todo m' = loop_result act (insert a todo) m"
proof -
  have "(if live m' b then apply_action act todo m' b else []) =
      (if live m b then apply_action act (insert a todo) m b else [])" for b
  proof (cases "b = a")
    case True
    with a here show ?thesis by (cases act') (auto simp: apply_action_def)
  next
    case False
    then have "live m' b = live m b" "live m b \<Longrightarrow> entry m' b = entry m b" using others by auto
    with False show ?thesis by (cases "live m b") (simp_all add: apply_action_def split: option.split)
  qed
  then show ?thesis by (simp add: loop_result_def concat_map_filter nodes)
qed

lemma for_each_spec:
  assumes body: "\<And>k v s. body k v s = (eff k v s, act k v)"
    and "layout hash m bl" and "cursor bl it todo" and "distinct todo" and "length todo < fuel"
    and "\<And>a. a \<in> set todo \<Longrightarrow> live m a"
  shows "\<exists>m'. for_each hash body fuel it (s, m) =
      Some (fold (\<lambda>(k, v). eff k v) (map (entry m) todo) s, m') \<and> map_inv hash m' \<and>
      allNodes m' = allNodes m \<and> live_entries m' = loop_result act (set todo) m"
  using assms(2-)
proof (induction todo arbitrary: m bl it fuel s)
  case Nil
  have "loop_result act {} m = live_entries m"
    by (simp add: loop_result_def live_entries_def apply_action_def [abs_def] concat_map_singleton)
  with Nil show ?case by (cases fuel) (auto simp: cursor_def map_inv_def)
next
  case (Cons a todo)
  from Cons.prems(2) obtain k ys zs where k: "k < length bl" "bl ! k = ys @ a # zs"
    "it = \<lparr>bucketIndex = k, currentNode = Some a\<rparr>" "todo = zs @ concat (drop (Suc k) bl)"
    by (auto simp: cursor_def)
  have a: "live m a" using Cons.prems(5) by simp
  then obtain nd where nd: "node_heap m a = Some nd" using live_in_heap by blast
  have e: "entry m a = (node_key nd, node_value nd)" using nd by (simp add: entry_def)
  obtain n where n: "fuel = Suc n" using Cons.prems(4) by (cases fuel) auto
  let ?act = "act (node_key nd) (node_value nd)"
  obtain m1 bl1 it1 where
    res: "(case ?act of Some v \<Rightarrow> Some (m\<lparr>node_heap := (node_heap m)(a \<mapsto> nd\<lparr>node_value := v\<rparr>)\<rparr>)
       | None \<Rightarrow> map_option snd (remove_map hash (node_key nd) m)) = Some m1"
    and m1: "layout hash m1 bl1"
      "bucket_next m1 \<lparr>bucketIndex = k, currentNode = Some a\<rparr> = Some it1"
      "cursor bl1 it1 (zs @ concat (drop (Suc k) bl))"
      "allNodes m1 = allNodes m" "\<forall>b. b \<noteq> a \<longrightarrow> live m1 b = live m b"
      "\<forall>b. b \<noteq> a \<longrightarrow> live m b \<longrightarrow> entry m1 b = entry m b" "live m1 a \<longleftrightarrow> ?act \<noteq> None"
      "\<forall>v. ?act = Some v \<longrightarrow> entry m1 a = (node_key nd, v)"
    by (rule for_each_step [OF Cons.prems(1) k(1,2) nd, of ?act, OF refl])
  note m1 = m1 [folded k(3,4)]
  have todo: "a \<notin> set todo" "distinct todo" "\<And>b. b \<in> set todo \<Longrightarrow> live m b" using Cons.prems by auto
  have lv: "live m1 b" if "b \<in> set todo" for b
  proof -
    have "b \<noteq> a" using that todo(1) by blast
    with m1(5) todo(3) [OF that] show ?thesis by simp
  qed
  have "length todo < n" using Cons.prems(4) n by simp
  from Cons.IH [OF m1(1,3) todo(2) this lv, of "eff (node_key nd) (node_value nd) s"] obtain m2 where m2:
    "for_each hash body n it1 (eff (node_key nd) (node_value nd) s, m1) =
       Some (fold (\<lambda>(k, v). eff k v) (map (entry m1) todo) (eff (node_key nd) (node_value nd) s), m2)"
    "map_inv hash m2" "allNodes m2 = allNodes m1" "live_entries m2 = loop_result act (set todo) m1" by blast
  have meq: "map (entry m1) todo = map (entry m) todo"
  proof (intro map_cong refl)
    fix b assume "b \<in> set todo"
    with todo(1) have "b \<noteq> a" by blast
    with m1(6) todo(3) [OF \<open>b \<in> set todo\<close>] show "entry m1 b = entry m b" by blast
  qed
  have "loop_result act (set todo) m1 = loop_result act (set (a # todo)) m"
    using loop_result_step [OF m1(4) a todo(1), of ?act act] m1(5-8) e by simp
  moreover have "for_each hash body fuel it (s, m) =
      for_each hash body n it1 (eff (node_key nd) (node_value nd) s, m1)"
    using n k(3) nd res m1(2) by (simp add: body)
  ultimately show ?case using m2 [unfolded meq] m1(4) e by simp
qed

lemma distinct_buckets:
  assumes lay: "layout hash m bl"
  shows "distinct (concat bl)"
proof -
  have "distinct (concat (drop k bl))" if "k \<le> length bl" for k
    using that
  proof (induction "length bl - k" arbitrary: k)
    case 0
    then show ?case by simp
  next
    case (Suc n)
    then have k: "k < length bl" by simp
    have "a \<notin> set (concat (drop (Suc k) bl))" if "a \<in> set (bl ! k)" for a
    proof
      assume "a \<in> set (concat (drop (Suc k) bl))"
      then obtain x where "x \<in> set (drop (Suc k) bl)" "a \<in> set x" by auto
      then obtain j where j: "j < length bl - Suc k" "a \<in> set (bl ! (Suc k + j))"
        by (metis in_set_conv_nth length_drop nth_drop less_imp_le_nat Suc_le_eq k)
      then have "Suc k + j < length bl" by linarith
      from layoutD(5) [OF lay this, of a] layoutD(5) [OF lay k, of a] j(2) that show False by auto
    qed
    moreover have "n = length bl - Suc k" "Suc k \<le> length bl" using Suc.hyps(2) k by simp_all
    ultimately show ?case
      using Suc.hyps(1) [of "Suc k"] layoutD(4) [OF lay k] concat_drop_nth [OF k] by auto
  qed
  from this [of 0] show ?thesis by simp
qed

lemma set_buckets:
  assumes lay: "layout hash m bl"
  shows "a \<in> set (concat bl) \<longleftrightarrow> live m a"
proof
  assume "a \<in> set (concat bl)"
  then obtain x where "x \<in> set bl" "a \<in> set x" by auto
  then obtain i where "i < length bl" "a \<in> set (bl ! i)" by (metis in_set_conv_nth)
  with layoutD(5) [OF lay] show "live m a" by blast
next
  assume "live m a"
  with layoutD(5) [OF lay hash_key_bound [OF lay], of a] hash_key_bound [OF lay] show "a \<in> set (concat bl)"
    using nth_mem by fastforce
qed

text \<open>The loop visits every live entry once, in some order, and applies its decisions.\<close>

lemma for_each_entry_spec:
  assumes inv: "map_inv hash m" and body: "\<And>k v s. body k v s = (eff k v s, act k v)"
  shows "\<exists>m' es. for_each_entry hash body s m = Some (fold (\<lambda>(k, v). eff k v) es s, m') \<and> map_inv hash m' \<and>
    distinct es \<and> set es = set (live_entries m) \<and>
    live_entries m' = concat (map (\<lambda>(k, v). case act k v of Some v' \<Rightarrow> [(k, v')] | None \<Rightarrow> []) (live_entries m))"
proof -
  from inv obtain bl where lay: "layout hash m bl" by (auto simp: map_inv_def)
  have "bucket_begin m = begin_loop [0..<length bl] m" using layoutD(1) [OF lay] by (simp add: bucket_begin_def)
  with begin_loop_cursor [OF lay, of 0] obtain it where
    it: "bucket_begin m = Some it" "cursor bl it (concat bl)" by auto
  have dist: "distinct (concat bl)" by (rule distinct_buckets [OF lay])
  have nodes: "set (concat bl) = set (filter (live m) (allNodes m))"
    using set_buckets [OF lay] layoutD(9) [OF lay] live_in_heap by fastforce
  have "length (concat bl) = length (filter (live m) (allNodes m))"
    using nodes dist layoutD(7) [OF lay] by (metis distinct_card distinct_filter)
  also have "\<dots> < chain_fuel m"
    using length_filter_le [of "live m" "allNodes m"] unfolding chain_fuel_def by linarith
  finally have fuel: "length (concat bl) < chain_fuel m" .
  have "\<And>a. a \<in> set (concat bl) \<Longrightarrow> live m a" using set_buckets [OF lay] by blast
  from for_each_spec [where s = s and body = body and eff = eff and act = act, OF body lay it(2) dist fuel this] obtain m' where m':
    "for_each hash body (chain_fuel m) it (s, m) =
       Some (fold (\<lambda>(k, v). eff k v) (map (entry m) (concat bl)) s, m')"
    "map_inv hash m'" "live_entries m' = loop_result act (set (concat bl)) m" by blast
  have "distinct (map (fst \<circ> entry m) (filter (live m) (allNodes m)))"
    using layoutD(10) [OF lay] by (simp add: live_entries_def)
  then have "inj_on (entry m) (set (filter (live m) (allNodes m)))"
    unfolding distinct_map by (metis inj_on_imageI2)
  then have "distinct (map (entry m) (concat bl))" using dist nodes by (simp add: distinct_map)
  moreover have "set (map (entry m) (concat bl)) = set (live_entries m)"
    using nodes by (simp only: set_map live_entries_def)
  moreover have "loop_result act (set (concat bl)) m =
      concat (map (\<lambda>(k, v). case act k v of Some v' \<Rightarrow> [(k, v')] | None \<Rightarrow> []) (live_entries m))"
    unfolding loop_result_def live_entries_def map_map nodes
    by (intro arg_cong [where f = concat] map_cong refl) (auto simp: apply_action_def case_prod_beta)
  ultimately show ?thesis using m' it(1) by (auto simp: for_each_entry_def)
qed


subsection \<open>The contract of the map\<close>

locale ordered_map =
  fixes ok :: "'m \<Rightarrow> bool"
    and entries :: "'m \<Rightarrow> ('k \<times> 'v) list"
    and unused :: "'a \<Rightarrow> 'm \<Rightarrow> bool"
    and ins :: "'a \<Rightarrow> 'k \<Rightarrow> 'v \<Rightarrow> 'm \<Rightarrow> (bool \<times> 'm) option"
    and rem :: "'k \<Rightarrow> 'm \<Rightarrow> (bool \<times> 'm) option"
    and look :: "'k \<Rightarrow> 'm \<Rightarrow> 'v option option"
    and gc :: "'m \<Rightarrow> 'm option"
  assumes keys_distinct: "ok m \<Longrightarrow> distinct (map fst (entries m))"
    and ins_law: "ok m \<Longrightarrow> unused a m \<Longrightarrow>
      \<exists>m'. ins a k v m = Some (k \<notin> fst ` set (entries m), m') \<and> ok m' \<and>
        entries m' = (if k \<in> fst ` set (entries m) then entries m else entries m @ [(k, v)])"
    and rem_law: "ok m \<Longrightarrow>
      \<exists>m'. rem k m = Some (k \<in> fst ` set (entries m), m') \<and> ok m' \<and>
        entries m' = filter (\<lambda>(k', _). k' \<noteq> k) (entries m)"
    and look_law: "ok m \<Longrightarrow> look k m = Some (map_of (entries m) k)"
    and gc_law: "ok m \<Longrightarrow> \<exists>m'. gc m = Some m' \<and> ok m' \<and> entries m' = entries m"
begin

lemma map_of_filter_key: "map_of (filter (\<lambda>(k', _). k' \<noteq> k) es) = (map_of es)(k := None)"
  by (induction es) (auto simp: fun_eq_iff)

lemma insert_lookup:
  assumes "ok m" and "unused a m" and "ins a k v m = Some (b, m')"
  shows "look j m' = Some (if b \<and> j = k then Some v else map_of (entries m) j)"
    and "b \<longleftrightarrow> map_of (entries m) k = None"
proof -
  from ins_law [OF assms(1,2), of k v] assms(3) have m': "ok m'" "b \<longleftrightarrow> k \<notin> fst ` set (entries m)"
    "entries m' = (if k \<in> fst ` set (entries m) then entries m else entries m @ [(k, v)])" by auto
  show "look j m' = Some (if b \<and> j = k then Some v else map_of (entries m) j)"
  proof (cases b)
    case True
    with m'(2) have "map_of (entries m) k = None" by (simp add: map_of_eq_None_iff)
    with True m' show ?thesis by (cases "map_of (entries m) j") (auto simp: look_law map_add_def)
  next
    case False
    with m' show ?thesis by (simp add: look_law)
  qed
  from m'(2) show "b \<longleftrightarrow> map_of (entries m) k = None" by (simp add: map_of_eq_None_iff)
qed

lemma remove_lookup:
  assumes "ok m" and "rem k m = Some (b, m')"
  shows "look j m' = Some (if j = k then None else map_of (entries m) j)"
    and "b \<longleftrightarrow> map_of (entries m) k \<noteq> None"
proof -
  from rem_law [OF assms(1), of k] assms(2) have m': "ok m'" "b \<longleftrightarrow> k \<in> fst ` set (entries m)"
    "entries m' = filter (\<lambda>(k', _). k' \<noteq> k) (entries m)" by auto
  then show "look j m' = Some (if j = k then None else map_of (entries m) j)"
    by (simp add: look_law map_of_filter_key)
  from m'(2) show "b \<longleftrightarrow> map_of (entries m) k \<noteq> None" by (simp add: map_of_eq_None_iff)
qed

end

lemma map_inv_distinct: "map_inv hash m \<Longrightarrow> distinct (map fst (live_entries m))"
  by (auto simp: map_inv_def layout_def)

interpretation hm: ordered_map "map_inv hash" live_entries "\<lambda>a m. node_heap m a = None"
  "insert_map hash" "remove_map hash" "find_value hash" collect_garbage
  for hash :: "'k \<Rightarrow> nat"
proof unfold_locales
  show "map_inv hash m \<Longrightarrow> distinct (map fst (live_entries m))" for m by (rule map_inv_distinct)
  show "map_inv hash m \<Longrightarrow> node_heap m a = None \<Longrightarrow>
      \<exists>m'. insert_map hash a k v m = Some (k \<notin> fst ` set (live_entries m), m') \<and> map_inv hash m' \<and>
        live_entries m' = (if k \<in> fst ` set (live_entries m) then live_entries m else live_entries m @ [(k, v)])"
    for m a k v by (rule insert_map_spec)
  show "map_inv hash m \<Longrightarrow>
      \<exists>m'. remove_map hash k m = Some (k \<in> fst ` set (live_entries m), m') \<and> map_inv hash m' \<and>
        live_entries m' = filter (\<lambda>(k', _). k' \<noteq> k) (live_entries m)" for m k by (rule remove_map_spec)
  show "map_inv hash m \<Longrightarrow> find_value hash k m = Some (map_of (live_entries m) k)" for m k
    by (simp add: find_value_eq with_value_spec option.map_ident)
  show "map_inv hash m \<Longrightarrow> \<exists>m'. collect_garbage m = Some m' \<and> map_inv hash m' \<and> live_entries m' = live_entries m"
    for m using collect_garbage_spec by blast
qed

lemma map_inv_new: "map_inv hash (new_map n)" "live_entries (new_map n) = []"
  using layout_new [of hash n] by (auto simp: map_inv_def live_entries_def new_map_def)

subsection \<open>Histories\<close>

datatype ('k, 'v) map_op = Insert 'k 'v | Remove 'k | Find 'k | Collect

datatype 'v map_result = Done bool | Found "'v option" | Collected

text \<open>\<open>new\<close> is the address \<^verbatim>\<open>operator new\<close> picks for a node.\<close>

fun map_step ::
  "('k \<Rightarrow> nat) \<Rightarrow> ((nat \<rightharpoonup> ('k, 'v) Node) \<Rightarrow> nat) \<Rightarrow> ('k, 'v) map_op \<Rightarrow> ('k, 'v) hash_map \<Rightarrow>
   ('v map_result \<times> ('k, 'v) hash_map) option" where
  "map_step hash new (Insert k v) m =
     map_option (\<lambda>(b, m). (Done b, m)) (insert_map hash (new (node_heap m)) k v m)"
| "map_step hash new (Remove k) m = map_option (\<lambda>(b, m). (Done b, m)) (remove_map hash k m)"
| "map_step hash new (Find k) m = map_option (\<lambda>r. (Found r, m)) (find_value hash k m)"
| "map_step hash new Collect m = map_option (\<lambda>m. (Collected, m)) (collect_garbage m)"

fun map_run ::
  "('k \<Rightarrow> nat) \<Rightarrow> ((nat \<rightharpoonup> ('k, 'v) Node) \<Rightarrow> nat) \<Rightarrow> ('k, 'v) map_op list \<Rightarrow> ('k, 'v) hash_map \<Rightarrow>
   ('v map_result list \<times> ('k, 'v) hash_map) option" where
  "map_run hash new [] m = Some ([], m)"
| "map_run hash new (op # ops) m =
     (case map_step hash new op m of
        None \<Rightarrow> None
      | Some (r, m) \<Rightarrow>
          (case map_run hash new ops m of None \<Rightarrow> None | Some (rs, m) \<Rightarrow> Some (r # rs, m)))"

text \<open>The specification: an association list in insertion order.\<close>

fun spec_step :: "('k, 'v) map_op \<Rightarrow> ('k \<times> 'v) list \<Rightarrow> 'v map_result \<times> ('k \<times> 'v) list" where
  "spec_step (Insert k v) es =
     (if k \<in> fst ` set es then (Done False, es) else (Done True, es @ [(k, v)]))"
| "spec_step (Remove k) es = (Done (k \<in> fst ` set es), filter (\<lambda>(k', _). k' \<noteq> k) es)"
| "spec_step (Find k) es = (Found (map_of es k), es)"
| "spec_step Collect es = (Collected, es)"

fun spec_run :: "('k, 'v) map_op list \<Rightarrow> ('k \<times> 'v) list \<Rightarrow> 'v map_result list \<times> ('k \<times> 'v) list" where
  "spec_run [] es = ([], es)"
| "spec_run (op # ops) es =
     (case spec_step op es of (r, es) \<Rightarrow> case spec_run ops es of (rs, es) \<Rightarrow> (r # rs, es))"

definition allocates_unused :: "((nat \<rightharpoonup> ('k, 'v) Node) \<Rightarrow> nat) \<Rightarrow> bool" where
  "allocates_unused new \<longleftrightarrow> (\<forall>h. finite (dom h) \<longrightarrow> h (new h) = None)"

lemma map_inv_finite: "map_inv hash m \<Longrightarrow> finite (dom (node_heap m))"
  by (auto simp: map_inv_def layout_def) (metis List.finite_set)

lemma map_step_refines:
  assumes inv: "map_inv hash m" and new: "allocates_unused new"
    and s: "spec_step op (live_entries m) = (r, es)"
  shows "\<exists>m'. map_step hash new op m = Some (r, m') \<and> map_inv hash m' \<and> live_entries m' = es"
proof (cases op)
  case (Insert k v)
  have "node_heap m (new (node_heap m)) = None"
    using new map_inv_finite [OF inv] by (simp add: allocates_unused_def)
  from hm.ins_law [OF inv this, of k v] Insert s show ?thesis by (auto split: if_splits)
next
  case (Remove k)
  with hm.rem_law [OF inv, of k] s show ?thesis by auto
next
  case (Find k)
  with hm.look_law [OF inv, of k] inv s show ?thesis by auto
next
  case Collect
  with hm.gc_law [OF inv] s show ?thesis by auto
qed

lemma map_run_refines:
  "map_inv hash m \<Longrightarrow> allocates_unused new \<Longrightarrow> spec_run ops (live_entries m) = (rs, es) \<Longrightarrow>
   \<exists>m'. map_run hash new ops m = Some (rs, m') \<and> map_inv hash m' \<and> live_entries m' = es"
proof (induction ops arbitrary: m rs)
  case Nil
  then show ?case by simp
next
  case (Cons op ops)
  obtain r es1 rs1 where s: "spec_step op (live_entries m) = (r, es1)" "spec_run ops es1 = (rs1, es)"
    "rs = r # rs1" using Cons.prems(3) by (auto split: prod.splits)
  obtain m1 where m1: "map_step hash new op m = Some (r, m1)" "map_inv hash m1" "live_entries m1 = es1"
    using map_step_refines [OF Cons.prems(1,2) s(1)] by blast
  with Cons.IH [of m1 rs1] Cons.prems(2) s show ?case by auto
qed

subsection \<open>Interference\<close>

lemma append_order_keeps:
  "append_order fuel addr m = Some m' \<Longrightarrow> allNodes m' = allNodes m \<and> buckets m' = buckets m \<and>
     (\<forall>x. map_option node_key (node_heap m' x) = map_option node_key (node_heap m x))"
proof (induction fuel arbitrary: m)
  case (Suc fuel)
  then show ?case by (fastforce split: option.splits if_splits)
qed simp

lemma gc_order_keeps:
  "gc_order fuel prev cur m = Some m' \<Longrightarrow> allNodes m' = allNodes m \<and>
     (\<forall>x. node_heap m' x = None \<longleftrightarrow> node_heap m x = None)"
proof (induction fuel prev cur m rule: gc_order.induct)
  case (3 fuel prev c m)
  obtain nd where nd: "node_heap m c = Some nd" using "3.prems" by (auto split: option.splits)
  show ?case
  proof (cases "is_deleted nd")
    case False
    with "3.IH"(2) [OF nd refl] "3.prems" nd show ?thesis by (simp add: Let_def)
  next
    case True
    let ?r = "case prev of
        Some p \<Rightarrow> map_option (\<lambda>pd. m\<lparr>node_heap := (node_heap m)(p \<mapsto> pd\<lparr>orderNext := orderNext nd\<rparr>)\<rparr>)
                   (node_heap m p)
      | None \<Rightarrow> Some (m\<lparr>orderHead := orderNext nd\<rparr>)"
    obtain m1 where m1: "?r = Some m1" using "3.prems" nd True by (cases ?r) (auto simp: Let_def)
    then have "allNodes m1 = allNodes m" "\<forall>x. node_heap m1 x = None \<longleftrightarrow> node_heap m x = None"
      by (auto split: option.splits if_splits)
    with "3.IH"(1) [OF nd refl True m1] "3.prems" nd True m1 show ?thesis
      by (auto simp: Let_def split: if_splits)
  qed
qed simp_all

lemma sweep_dangling: "a \<in> set ns \<Longrightarrow> h a = None \<Longrightarrow> sweep ns h = None"
  by (induction ns h rule: sweep.induct) (auto split: option.splits)

lemma destroy_dangling: "a \<in> set ns \<Longrightarrow> h a = None \<Longrightarrow> destroy_nodes ns h = None"
  by (induction ns h rule: destroy_nodes.induct) auto

lemma dangling_faults:
  assumes "a \<in> set (allNodes m)" and "node_heap m a = None"
  shows "collect_garbage m = None \<and> destroy_map m = None"
proof
  show "destroy_map m = None" using assms by (simp add: destroy_map_def destroy_dangling)
  show "collect_garbage m = None"
  proof (cases "gc_order (chain_fuel m) None (orderHead m) m")
    case (Some m')
    with gc_order_keeps [OF Some] assms sweep_dangling [of a "allNodes m'" "node_heap m'"] show ?thesis
      by (simp add: collect_garbage_def)
  qed (simp add: collect_garbage_def)
qed

text \<open>What a successful insertion leaves: the node at the head of its bucket.\<close>

lemma insert_map_head:
  assumes ins: "insert_map hash b k w m = Some (True, m')" and i: "hash_key hash m k < length (buckets m)"
  shows "buckets m' ! hash_key hash m k = Some b" "hash_key hash m' k = hash_key hash m k"
    "\<exists>nd. node_heap m' b = Some nd \<and> node_key nd = k"
    "allNodes m' = allNodes m @ [b]" "a \<noteq> b \<Longrightarrow> node_heap m' a = None \<longleftrightarrow> node_heap m a = None"
proof -
  let ?i = "hash_key hash m k"
  let ?nd = "\<lparr>node_key = k, node_value = w, bucketNext = buckets m ! ?i, orderNext = None, is_deleted = False\<rparr>"
  let ?m = "m\<lparr>allNodes := allNodes m @ [b], buckets := (buckets m)[?i := Some b],
      node_heap := (node_heap m)(b \<mapsto> ?nd)\<rparr>"
  obtain prev where f: "find_in_bucket hash k m = Some (None, prev)"
    using ins by (auto simp: insert_map_def insert_prepare_def split: option.splits prod.splits if_splits)
  then obtain fuel where "append_order fuel b ?m = Some m'"
    using ins by (auto simp: insert_map_def insert_prepare_def insert_swap_def Let_def split: option.splits)
  note keep = append_order_keeps [OF this]
  show "buckets m' ! ?i = Some b" using keep i by simp
  show "hash_key hash m' k = ?i" using keep by (simp add: hash_key_def)
  show "allNodes m' = allNodes m @ [b]" using keep by simp
  have "map_option node_key (node_heap m' b) = Some k" using keep by simp
  then show "\<exists>nd. node_heap m' b = Some nd \<and> node_key nd = k" by auto
  have "map_option node_key (node_heap m' a) = map_option node_key (node_heap ?m a)" using keep by blast
  then show "a \<noteq> b \<Longrightarrow> node_heap m' a = None \<longleftrightarrow> node_heap m a = None"
    by (cases "node_heap m' a"; cases "node_heap m a") auto
qed

subsection \<open>Properties\<close>

text \<open>C3: used without interference, the lock-free map behaves as an association list in insertion
  order: any history of insertions, removals, lookups and garbage collections returns what the
  list returns and never follows a dangling pointer; at the end the ordered iterator yields the
  list, and destruction frees every node exactly once.\<close>

theorem hash_map_refines_list:
  assumes new: "allocates_unused new" and spec: "spec_run ops [] = (rs, es)"
  shows "\<exists>m. map_run hash new ops (new_map n) = Some (rs, m) \<and> order_entries m = Some es \<and>
    destroy_map m = Some Map.empty"
proof -
  from map_run_refines [OF map_inv_new(1) new, of ops n rs es hash] spec map_inv_new(2) obtain m where
    "map_run hash new ops (new_map n) = Some (rs, m)" "map_inv hash m" "live_entries m = es" by metis
  with order_entries_spec destroy_map_spec show ?thesis by metis
qed

definition next_address :: "(nat \<rightharpoonup> ('k, 'v) Node) \<Rightarrow> nat" where
  "next_address h = Suc (Max (insert 0 (dom h)))"

lemma next_address_unused: "allocates_unused next_address"
  unfolding allocates_unused_def
proof (intro allI impI)
  fix h :: "nat \<rightharpoonup> ('k, 'v) Node" assume fin: "finite (dom h)"
  show "h (next_address h) = None"
  proof (rule ccontr)
    assume "h (next_address h) \<noteq> None"
    then have "next_address h \<le> Max (insert 0 (dom h))" using fin by (intro Max_ge) auto
    then show False by (simp add: next_address_def)
  qed
qed

theorem hash_map_refines_list_witness:
  "\<exists>m. map_run (\<lambda>k. k) next_address
      [Insert 5 ''a'', Insert 205 ''b'', Insert 5 ''c'', Remove 5, Collect, Find 205] (new_map 200) =
      Some ([Done True, Done True, Done False, Done True, Collected, Found (Some ''b'')], m) \<and>
    order_entries m = Some [(205 :: nat, ''b'')]"
  using hash_map_refines_list [OF next_address_unused, of
      "[Insert 5 ''a'', Insert 205 ''b'', Insert 5 ''c'', Remove 5, Collect, Find 205]"
      "[Done True, Done True, Done False, Done True, Collected, Found (Some ''b'')]"
      "[(205 :: nat, ''b'')]" "\<lambda>k. k" 200]
  by auto

text \<open>A range-for loop over the map visits every live entry exactly once and applies the body's
  decision to it, even though the body may remove the entry the iterator stands on; it ends
  without a fault.\<close>

theorem range_for_visits_once:
  assumes inv: "map_inv hash m" and body: "\<And>k v s. body k v s = (eff k v s, act k v)"
  shows "\<exists>m' es. for_each_entry hash body s m = Some (fold (\<lambda>(k, v). eff k v) es s, m') \<and>
    map_inv hash m' \<and> distinct es \<and> set es = set (live_entries m) \<and>
    live_entries m' =
      concat (map (\<lambda>(k, v). case act k v of Some v' \<Rightarrow> [(k, v')] | None \<Rightarrow> []) (live_entries m))"
  by (rule for_each_entry_spec [OF assms])

theorem range_for_visits_once_witness:
  "\<exists>m'. for_each_entry (\<lambda>k. k) (\<lambda>k v s. (s + v, if k = 2 then None else Some (v + 3))) (0 :: nat)
      (snd (the (insert_map (\<lambda>k. k) 7 (2 :: nat) (10 :: nat) (new_map 4)))) = Some (10, m') \<and>
    live_entries m' = []"
proof -
  let ?m = "snd (the (insert_map (\<lambda>k. k) 7 (2 :: nat) (10 :: nat) (new_map 4)))"
  have unused: "node_heap (new_map 4 :: (nat, nat) hash_map) 7 = None" by (simp add: new_map_def)
  from hm.ins_law [OF map_inv_new(1) unused, of "\<lambda>k. k" 2 10]
  have m: "map_inv (\<lambda>k. k) ?m" "live_entries ?m = [(2, 10)]" by (auto simp: map_inv_new(2))
  from range_for_visits_once [OF m(1), of "\<lambda>k v s. (s + v, if k = 2 then None else Some (v + 3))"
      "\<lambda>k v s. s + v" "\<lambda>k v. if k = 2 then None else Some (v + 3)" 0]
  obtain m' es where r: "for_each_entry (\<lambda>k. k) (\<lambda>k v s. (s + v, if k = 2 then None else Some (v + 3))) 0 ?m =
      Some (fold (\<lambda>(k, v) s. s + v) es 0, m')" "distinct es" "set es = {(2 :: nat, 10)}" "live_entries m' = []"
    by (auto simp: m(2))
  from r(2,3) have "es = [(2, 10)]" by (cases es; cases "tl es") auto
  with r show ?thesis by auto
qed




text \<open>Two concurrent insertions of the same key leave a dangling pointer.  A thread that prepared
  its node and then loses the compare-and-swap to another insertion of the key deletes its node
  (the key is now present), but the node stays registered in \<^verbatim>\<open>allNodes\<close>: the next garbage
  collection, like the destructor, touches freed memory.\<close>

theorem insert_race_dangles:
  assumes inv: "map_inv hash m" and addr: "node_heap m a = None" "node_heap m b = None" "a \<noteq> b"
    and prepare: "insert_prepare hash k v a False m = Some (Inr (oldHead, m1))"
    and other: "insert_map hash b k w m1 = Some (True, m2)"
  shows "fst (insert_swap hash k a oldHead m2) = False \<and>
    (\<exists>m3. insert_prepare hash k v a True m2 = Some (Inl m3) \<and>
       collect_garbage m3 = None \<and> destroy_map m3 = None)"
proof -
  let ?i = "hash_key hash m k"
  obtain bl where lay: "layout hash m bl" using inv by (auto simp: map_inv_def)
  have i: "?i < length (buckets m)" using hash_key_bound [OF lay] layoutD(1) [OF lay] by metis
  have m1: "allNodes m1 = allNodes m @ [a]" "node_heap m1 a \<noteq> None" "buckets m1 = buckets m"
    "oldHead = buckets m ! ?i" "hash_key hash m1 k = ?i"
    using prepare by (auto simp: insert_prepare_def Let_def split: option.splits prod.splits if_splits)
  note head = insert_map_head [OF other, unfolded m1(3,5), OF i]
  have "oldHead \<noteq> Some b"
  proof
    assume "oldHead = Some b"
    then have "b \<in> set (bl ! ?i)" using layoutD(3) [OF lay hash_key_bound [OF lay], of k] m1(4)
      by (cases "bl ! ?i") auto
    then show False using layoutD(5) [OF lay hash_key_bound [OF lay], of b k] addr(2) by (auto simp: live_def)
  qed
  then have "fst (insert_swap hash k a oldHead m2) = False" using head(1,2) by (simp add: insert_swap_def)
  moreover have "find_in_bucket hash k m2 = Some (Some b, AtBucket ?i)"
    using head(1-3) by (auto simp: find_in_bucket_def chain_fuel_def)
  moreover have a2: "node_heap m2 a \<noteq> None" using head(5) [of a] m1(2) addr(3) by simp
  ultimately show ?thesis
    using head(3,4) m1(1) dangling_faults [of a "m2\<lparr>node_heap := (node_heap m2)(a := None)\<rparr>"]
    by (auto simp: insert_prepare_def)
qed

theorem insert_race_dangles_witness:
  "\<exists>m1 m2 m3 oldHead.
     insert_prepare (\<lambda>k. k) 5 ''a'' 1 False (new_map 2) = Some (Inr (oldHead, m1)) \<and>
     insert_map (\<lambda>k. k) 2 (5 :: nat) ''b'' m1 = Some (True, m2) \<and>
     insert_prepare (\<lambda>k. k) 5 ''a'' 1 True m2 = Some (Inl m3) \<and> collect_garbage m3 = None"
proof -
  have "\<exists>oldHead m1. insert_prepare (\<lambda>k. k) (5 :: nat) ''a'' 1 False (new_map 2) = Some (Inr (oldHead, m1)) \<and>
      (\<exists>m2. insert_map (\<lambda>k. k) 2 5 ''b'' m1 = Some (True, m2))"
    by (simp add: insert_prepare_def insert_map_def insert_swap_def find_in_bucket_def new_map_def hash_key_def
        chain_fuel_def Let_def)
  then obtain oldHead m1 m2 where
    p: "insert_prepare (\<lambda>k. k) (5 :: nat) ''a'' 1 False (new_map 2) = Some (Inr (oldHead, m1))"
      "insert_map (\<lambda>k. k) 2 5 ''b'' m1 = Some (True, m2)" by blast
  from insert_race_dangles [OF map_inv_new(1) _ _ _ p] p show ?thesis by (auto simp: new_map_def)
qed

end
