(* ===== verification/Priority_Queue.thy ===== *)
theory Priority_Queue
  imports Packets
begin

text \<open>
  \<^verbatim>\<open>MPSCQueue\<close> of \<^verbatim>\<open>src/znet/z_stl_compat.h\<close> and \<^verbatim>\<open>PriorityMPSCQueue\<close> of
  \<^verbatim>\<open>src/znet/z_packet_priority_queue.h\<close>.  Every operation of a queue runs under its lock, so a
  history is a sequence of operations.  The contract of a FIFO queue is a locale; a second locale
  states what a queue with priorities promises, and is interpreted on the four queues of the code.
\<close>

subsection \<open>MPSCQueue\<close>

record 'a MPSCQueue =
  queue_items :: "'a list"
  approx_size :: u64

definition new_queue :: "'a MPSCQueue" where
  "new_queue = \<lparr>queue_items = [], approx_size = 0\<rparr>"

definition enqueue :: "'a \<Rightarrow> 'a MPSCQueue \<Rightarrow> 'a MPSCQueue" where
  "enqueue item q =
     (let q = q\<lparr>queue_items := queue_items q @ [item]\<rparr>
      in q\<lparr>approx_size := approx_size q + 1\<rparr>)"

definition queue_empty :: "'a MPSCQueue \<Rightarrow> bool" where
  "queue_empty q \<longleftrightarrow> queue_items q = []"

definition dequeue :: "'a MPSCQueue \<Rightarrow> 'a option \<times> 'a MPSCQueue" where
  "dequeue q =
     (case queue_items q of
        [] \<Rightarrow> (None, q)
      | item # rest \<Rightarrow> (Some item, q\<lparr>queue_items := rest, approx_size := approx_size q - 1\<rparr>))"

definition size_approx :: "'a MPSCQueue \<Rightarrow> u64" where
  "size_approx q = approx_size q"

definition queue_ok :: "'a MPSCQueue \<Rightarrow> bool" where
  "queue_ok q \<longleftrightarrow> approx_size q = of_nat (length (queue_items q))"

subsection \<open>The contract of a FIFO queue\<close>

locale fifo =
  fixes ok :: "'q \<Rightarrow> bool"
    and items :: "'q \<Rightarrow> 'a list"
    and enq :: "'a \<Rightarrow> 'q \<Rightarrow> 'q"
    and deq :: "'q \<Rightarrow> 'a option \<times> 'q"
    and sz :: "'q \<Rightarrow> u64"
  assumes enq_ok: "ok q \<Longrightarrow> ok (enq x q)"
    and enq_items: "ok q \<Longrightarrow> items (enq x q) = items q @ [x]"
    and deq_ok: "ok q \<Longrightarrow> ok (snd (deq q))"
    and deq_item: "ok q \<Longrightarrow> fst (deq q) = (case items q of [] \<Rightarrow> None | x # _ \<Rightarrow> Some x)"
    and deq_items: "ok q \<Longrightarrow> items (snd (deq q)) = tl (items q)"
    and sz_items: "ok q \<Longrightarrow> sz q = of_nat (length (items q))"
begin

lemma deq_some: "ok q \<Longrightarrow> deq q = (Some x, q') \<Longrightarrow> items q = x # items q' \<and> ok q'"
  using deq_item [of q] deq_items [of q] deq_ok [of q] by (auto split: list.splits)

lemma deq_none: "ok q \<Longrightarrow> deq q = (None, q') \<Longrightarrow> items q = [] \<and> items q' = [] \<and> ok q'"
  using deq_item [of q] deq_items [of q] deq_ok [of q] by (auto split: list.splits)

text \<open>What was enqueued comes out in order, behind what the queue held.\<close>

lemma enq_all: "ok q \<Longrightarrow> ok (fold enq xs q) \<and> items (fold enq xs q) = items q @ xs"
  by (induction xs arbitrary: q) (auto simp: enq_ok enq_items)

end

interpretation mpsc: fifo queue_ok queue_items enqueue dequeue size_approx
  by unfold_locales (auto simp: queue_ok_def enqueue_def dequeue_def size_approx_def Let_def
      split: list.splits)

lemma queue_ok_new [simp]: "queue_ok new_queue" "queue_items new_queue = []"
  by (simp_all add: queue_ok_def new_queue_def)

subsection \<open>Priorities are ordered\<close>

instantiation PacketPriority :: linorder
begin

definition less_eq_PacketPriority :: "PacketPriority \<Rightarrow> PacketPriority \<Rightarrow> bool" where
  "less_eq_PacketPriority p q \<longleftrightarrow> priority_code p \<le> priority_code q"

definition less_PacketPriority :: "PacketPriority \<Rightarrow> PacketPriority \<Rightarrow> bool" where
  "less_PacketPriority p q \<longleftrightarrow> priority_code p < priority_code q"

instance
proof
  fix x y z :: PacketPriority
  show "x < y \<longleftrightarrow> x \<le> y \<and> \<not> y \<le> x"
    by (auto simp: less_eq_PacketPriority_def less_PacketPriority_def)
  show "x \<le> x" by (simp add: less_eq_PacketPriority_def)
  show "x \<le> y \<Longrightarrow> y \<le> z \<Longrightarrow> x \<le> z" by (simp add: less_eq_PacketPriority_def)
  show "x \<le> y \<Longrightarrow> y \<le> x \<Longrightarrow> x = y"
    unfolding less_eq_PacketPriority_def by (metis order_antisym priority_of_code)
  show "x \<le> y \<or> y \<le> x" by (auto simp: less_eq_PacketPriority_def)
qed

end

lemma priority_less [simp]: "Low < Medium" "Medium < High" "High < Critical"
  by (simp_all add: less_PacketPriority_def priority_code_def)

lemmas priority_order = less_PacketPriority_def less_eq_PacketPriority_def priority_code_def

lemma all_priorities: "(\<forall>p. P p) \<longleftrightarrow> P Critical \<and> P High \<and> P Medium \<and> P Low"
  by (metis PacketPriority.exhaust)

subsection \<open>PriorityMPSCQueue\<close>

record 'a PriorityMPSCQueue =
  critical_priority_queue :: "'a MPSCQueue"
  high_priority_queue :: "'a MPSCQueue"
  medium_priority_queue :: "'a MPSCQueue"
  low_priority_queue :: "'a MPSCQueue"

definition new_priority_queue :: "'a PriorityMPSCQueue" where
  "new_priority_queue =
     \<lparr>critical_priority_queue = new_queue, high_priority_queue = new_queue,
      medium_priority_queue = new_queue, low_priority_queue = new_queue\<rparr>"

definition priority_enqueue :: "'a \<Rightarrow> PacketPriority \<Rightarrow> 'a PriorityMPSCQueue \<Rightarrow> 'a PriorityMPSCQueue" where
  "priority_enqueue item p q =
     (case p of
        Critical \<Rightarrow> q\<lparr>critical_priority_queue := enqueue item (critical_priority_queue q)\<rparr>
      | High \<Rightarrow> q\<lparr>high_priority_queue := enqueue item (high_priority_queue q)\<rparr>
      | Medium \<Rightarrow> q\<lparr>medium_priority_queue := enqueue item (medium_priority_queue q)\<rparr>
      | Low \<Rightarrow> q\<lparr>low_priority_queue := enqueue item (low_priority_queue q)\<rparr>)"

definition priority_dequeue :: "'a PriorityMPSCQueue \<Rightarrow> 'a option \<times> 'a PriorityMPSCQueue" where
  "priority_dequeue q =
     (if \<not> queue_empty (critical_priority_queue q) then
        (case dequeue (critical_priority_queue q) of (r, c) \<Rightarrow> (r, q\<lparr>critical_priority_queue := c\<rparr>))
      else if \<not> queue_empty (high_priority_queue q) then
        (case dequeue (high_priority_queue q) of (r, c) \<Rightarrow> (r, q\<lparr>high_priority_queue := c\<rparr>))
      else if \<not> queue_empty (medium_priority_queue q) then
        (case dequeue (medium_priority_queue q) of (r, c) \<Rightarrow> (r, q\<lparr>medium_priority_queue := c\<rparr>))
      else if \<not> queue_empty (low_priority_queue q) then
        (case dequeue (low_priority_queue q) of (r, c) \<Rightarrow> (r, q\<lparr>low_priority_queue := c\<rparr>))
      else (None, q))"

definition priority_empty :: "'a PriorityMPSCQueue \<Rightarrow> bool" where
  "priority_empty q \<longleftrightarrow> queue_empty (critical_priority_queue q) \<and> queue_empty (high_priority_queue q) \<and>
     queue_empty (medium_priority_queue q) \<and> queue_empty (low_priority_queue q)"

definition priority_size_approx :: "'a PriorityMPSCQueue \<Rightarrow> u64" where
  "priority_size_approx q = size_approx (critical_priority_queue q) + size_approx (high_priority_queue q) +
     size_approx (medium_priority_queue q) + size_approx (low_priority_queue q)"

text \<open>The items waiting at a priority, in order of arrival.\<close>

definition lane :: "'a PriorityMPSCQueue \<Rightarrow> PacketPriority \<Rightarrow> 'a list" where
  "lane q p = queue_items (case p of
     Critical \<Rightarrow> critical_priority_queue q | High \<Rightarrow> high_priority_queue q |
     Medium \<Rightarrow> medium_priority_queue q | Low \<Rightarrow> low_priority_queue q)"

definition priority_ok :: "'a PriorityMPSCQueue \<Rightarrow> bool" where
  "priority_ok q \<longleftrightarrow> queue_ok (critical_priority_queue q) \<and> queue_ok (high_priority_queue q) \<and>
     queue_ok (medium_priority_queue q) \<and> queue_ok (low_priority_queue q)"

lemma lane_new [simp]: "lane new_priority_queue = (\<lambda>_. [])"
  by (auto simp: lane_def new_priority_queue_def fun_eq_iff split: PacketPriority.splits)

lemma priority_ok_new [simp]: "priority_ok new_priority_queue"
  by (simp add: priority_ok_def new_priority_queue_def)

text \<open>All waiting items in the order in which they leave.\<close>

definition departures :: "(PacketPriority \<Rightarrow> 'a list) \<Rightarrow> 'a list" where
  "departures ls = ls Critical @ ls High @ ls Medium @ ls Low"

locale priority_fifo =
  fixes ok :: "'q \<Rightarrow> bool"
    and lanes :: "'q \<Rightarrow> PacketPriority \<Rightarrow> 'a list"
    and enq :: "'a \<Rightarrow> PacketPriority \<Rightarrow> 'q \<Rightarrow> 'q"
    and deq :: "'q \<Rightarrow> 'a option \<times> 'q"
    and sz :: "'q \<Rightarrow> u64"
  assumes enq_ok: "ok q \<Longrightarrow> ok (enq x p q)"
    and enq_lanes: "ok q \<Longrightarrow> lanes (enq x p q) = (lanes q)(p := lanes q p @ [x])"
    and deq_ok: "ok q \<Longrightarrow> ok (snd (deq q))"
    and deq_none: "ok q \<Longrightarrow> (\<And>p. lanes q p = []) \<Longrightarrow> deq q = (None, q)"
    and deq_some: "ok q \<Longrightarrow> lanes q p = x # xs \<Longrightarrow> (\<And>p'. p < p' \<Longrightarrow> lanes q p' = []) \<Longrightarrow>
      fst (deq q) = Some x \<and> lanes (snd (deq q)) = (lanes q)(p := xs)"
    and sz_lanes: "ok q \<Longrightarrow> sz q = of_nat (length (departures (lanes q)))"
begin

text \<open>The next item to leave.\<close>

lemma top_lane:
  "(\<forall>p. lanes q p = []) \<or> (\<exists>p x xs. lanes q p = x # xs \<and> (\<forall>p'. p < p' \<longrightarrow> lanes q p' = []))"
proof -
  have "\<exists>p x xs. lanes q p = x # xs \<and> (\<forall>p'. p < p' \<longrightarrow> lanes q p' = [])"
    if "lanes q p \<noteq> []" "\<forall>p'. p < p' \<longrightarrow> lanes q p' = []" for p
    using that by (metis neq_Nil_conv)
  from this [of Critical] this [of High] this [of Medium] this [of Low] show ?thesis
    unfolding all_priorities by (simp add: priority_order) blast
qed

lemma deq_departures:
  assumes "ok q"
  shows "fst (deq q) = (case departures (lanes q) of [] \<Rightarrow> None | x # _ \<Rightarrow> Some x)"
    and "departures (lanes (snd (deq q))) = tl (departures (lanes q))"
proof -
  have "fst (deq q) = (case departures (lanes q) of [] \<Rightarrow> None | x # _ \<Rightarrow> Some x) \<and>
    departures (lanes (snd (deq q))) = tl (departures (lanes q))"
    using top_lane [of q]
  proof (elim disjE exE conjE)
    assume "\<forall>p. lanes q p = []"
    with deq_none [OF assms] show ?thesis by (simp add: departures_def)
  next
    fix p x xs assume l: "lanes q p = x # xs" and up: "\<forall>p'. p < p' \<longrightarrow> lanes q p' = []"
    with deq_some [OF assms l] have d: "fst (deq q) = Some x" "lanes (snd (deq q)) = (lanes q)(p := xs)" by auto
    show ?thesis
      using l up d unfolding departures_def
      by (cases p) (simp_all add: priority_order)
  qed
  then show "fst (deq q) = (case departures (lanes q) of [] \<Rightarrow> None | x # _ \<Rightarrow> Some x)"
    and "departures (lanes (snd (deq q))) = tl (departures (lanes q))" by auto
qed

end

lemma queue_empty_iff: "queue_empty q \<longleftrightarrow> queue_items q = []"
  by (simp add: queue_empty_def)

lemma dequeue_items:
  "queue_items q = x # xs \<Longrightarrow> fst (dequeue q) = Some x \<and> queue_items (snd (dequeue q)) = xs"
  by (simp add: dequeue_def)

interpretation pq: priority_fifo priority_ok lane priority_enqueue priority_dequeue priority_size_approx
proof unfold_locales
  fix q :: "'a PriorityMPSCQueue" and x :: 'a and p :: PacketPriority and xs :: "'a list"
  assume ok: "priority_ok q"
  show "priority_ok (priority_enqueue x p q)"
    using ok by (cases p) (simp_all add: priority_ok_def priority_enqueue_def mpsc.enq_ok)
  show "lane (priority_enqueue x p q) = (lane q)(p := lane q p @ [x])"
    using ok by (cases p) (auto simp: fun_eq_iff lane_def priority_enqueue_def priority_ok_def mpsc.enq_items
        split: PacketPriority.splits)
  show "priority_ok (snd (priority_dequeue q))"
    using ok mpsc.deq_ok [of "critical_priority_queue q"] mpsc.deq_ok [of "high_priority_queue q"]
      mpsc.deq_ok [of "medium_priority_queue q"] mpsc.deq_ok [of "low_priority_queue q"]
    by (auto simp: priority_ok_def priority_dequeue_def split: prod.splits)
  show "priority_size_approx q = of_nat (length (departures (lane q)))"
    using ok by (simp add: priority_ok_def priority_size_approx_def departures_def lane_def mpsc.sz_items)
  show "priority_dequeue q = (None, q)" if "\<And>p. lane q p = []"
    using that [of Critical] that [of High] that [of Medium] that [of Low]
    by (simp add: lane_def priority_dequeue_def queue_empty_def)
  show "fst (priority_dequeue q) = Some x \<and> lane (snd (priority_dequeue q)) = (lane q)(p := xs)"
    if l: "lane q p = x # xs" and up: "\<And>p'. p < p' \<Longrightarrow> lane q p' = []"
    using l up [of Critical] up [of High] up [of Medium]
    by (cases p) (auto simp: fun_eq_iff lane_def priority_dequeue_def queue_empty_def dequeue_def
        priority_order split: PacketPriority.splits)
qed

lemma priority_empty_iff: "priority_empty q \<longleftrightarrow> departures (lane q) = []"
  by (simp add: priority_empty_def departures_def lane_def queue_empty_def)

subsection \<open>The order of departure\<close>

datatype 'a queue_op = Enqueue 'a PacketPriority | Dequeue

fun queue_run :: "'a queue_op list \<Rightarrow> 'a PriorityMPSCQueue \<Rightarrow> 'a option list \<times> 'a PriorityMPSCQueue" where
  "queue_run [] q = ([], q)"
| "queue_run (Enqueue x p # ops) q = queue_run ops (priority_enqueue x p q)"
| "queue_run (Dequeue # ops) q =
     (case priority_dequeue q of (r, q) \<Rightarrow> case queue_run ops q of (rs, q) \<Rightarrow> (r # rs, q))"

text \<open>
  The specification keeps one list of waiting items in order of arrival; the item that leaves is
  the first of those with the highest priority.
\<close>

definition leave :: "('a \<times> PacketPriority) list \<Rightarrow> 'a option \<times> ('a \<times> PacketPriority) list" where
  "leave w =
     (if w = [] then (None, [])
      else let top = Max (snd ` set w); i = length (takeWhile (\<lambda>(_, p). p \<noteq> top) w)
           in (Some (fst (w ! i)), take i w @ drop (Suc i) w))"

fun waiting_run :: "'a queue_op list \<Rightarrow> ('a \<times> PacketPriority) list \<Rightarrow> 'a option list \<times> ('a \<times> PacketPriority) list" where
  "waiting_run [] w = ([], w)"
| "waiting_run (Enqueue x p # ops) w = waiting_run ops (w @ [(x, p)])"
| "waiting_run (Dequeue # ops) w =
     (case leave w of (r, w) \<Rightarrow> case waiting_run ops w of (rs, w) \<Rightarrow> (r # rs, w))"

definition waiting_lane :: "('a \<times> PacketPriority) list \<Rightarrow> PacketPriority \<Rightarrow> 'a list" where
  "waiting_lane w p = map fst (filter (\<lambda>(_, p'). p' = p) w)"

lemma leave_split:
  assumes "w \<noteq> []"
  obtains x top pre post where "w = pre @ (x, top) # post" "leave w = (Some x, pre @ post)"
    "\<forall>(_, p) \<in> set pre. p \<noteq> top" "\<forall>(_, p) \<in> set w. p \<le> top"
proof -
  let ?top = "Max (snd ` set w)" and ?i = "length (takeWhile (\<lambda>(_, p). p \<noteq> Max (snd ` set w)) w)"
  have "?top \<in> snd ` set w" using assms by (intro Max_in) auto
  then obtain x where "(x, ?top) \<in> set w" by auto
  then have "takeWhile (\<lambda>(_, p). p \<noteq> ?top) w \<noteq> w" unfolding takeWhile_eq_all_conv by auto
  then have i: "?i < length w"
    by (metis length_takeWhile_le le_neq_implies_less takeWhile_eq_take take_all_iff order_refl)
  with nth_length_takeWhile [of "\<lambda>(_, p). p \<noteq> ?top" w] have top: "snd (w ! ?i) = ?top"
    by (simp add: split_beta)
  show thesis
  proof (rule that)
    show "w = take ?i w @ (fst (w ! ?i), ?top) # drop (Suc ?i) w"
      using id_take_nth_drop [OF i] top by (metis prod.collapse)
    show "leave w = (Some (fst (w ! ?i)), take ?i w @ drop (Suc ?i) w)"
      using assms by (simp add: leave_def Let_def)
    show "\<forall>(_, p)\<in>set (take ?i w). p \<noteq> ?top"
      by (auto simp flip: takeWhile_eq_take dest: set_takeWhileD)
    show "\<forall>(_, p)\<in>set w. p \<le> ?top" by (force intro: Max_ge)
  qed
qed

lemma leave_refined:
  assumes ok: "priority_ok q" and l: "lane q = waiting_lane w"
  shows "fst (priority_dequeue q) = fst (leave w) \<and>
    lane (snd (priority_dequeue q)) = waiting_lane (snd (leave w))"
proof (cases "w = []")
  case True
  then show ?thesis using pq.deq_none [OF ok] l by (simp add: waiting_lane_def leave_def)
next
  case False
  then obtain x top pre post where w: "w = pre @ (x, top) # post" "leave w = (Some x, pre @ post)"
    "\<forall>(_, p) \<in> set pre. p \<noteq> top" "\<forall>(_, p) \<in> set w. p \<le> top" by (rule leave_split)
  have pre: "filter (\<lambda>(_, p'). p' = top) pre = []" using w(3) by (auto simp: filter_empty_conv)
  have "lane q p' = []" if "top < p'" for p'
    using w(4) that unfolding l waiting_lane_def by (auto simp: filter_empty_conv)
  moreover have "lane q top = x # waiting_lane post top" using pre unfolding l w(1) by (simp add: waiting_lane_def)
  ultimately have "fst (priority_dequeue q) = Some x"
    "lane (snd (priority_dequeue q)) = (lane q)(top := waiting_lane post top)"
    using pq.deq_some [OF ok] by blast+
  then show ?thesis unfolding l w(2) using w(1) pre by (auto simp: waiting_lane_def fun_eq_iff)
qed

lemma queue_run_refines:
  "priority_ok q \<Longrightarrow> lane q = waiting_lane w \<Longrightarrow>
     fst (queue_run ops q) = fst (waiting_run ops w) \<and> priority_ok (snd (queue_run ops q)) \<and>
     lane (snd (queue_run ops q)) = waiting_lane (snd (waiting_run ops w))"
proof (induction ops arbitrary: q w)
  case (Cons op ops)
  show ?case
  proof (cases op)
    case (Enqueue x p)
    have "lane (priority_enqueue x p q) = waiting_lane (w @ [(x, p)])"
      using Cons.prems by (auto simp: pq.enq_lanes waiting_lane_def fun_eq_iff)
    with Cons.IH [of "priority_enqueue x p q" "w @ [(x, p)]"] pq.enq_ok [OF Cons.prems(1), of x p] Enqueue
    show ?thesis by simp
  next
    case Dequeue
    with Cons.IH [of "snd (priority_dequeue q)" "snd (leave w)"] leave_refined [OF Cons.prems]
      pq.deq_ok [OF Cons.prems(1)]
    show ?thesis by (auto split: prod.splits)
  qed
qed simp

subsection \<open>Properties\<close>

text \<open>C14: the priority queue hands out, over any history of enqueues and dequeues, the item that
  arrived first among those of the highest priority present, and reports emptiness exactly when
  nothing waits; its approximate size is the number of waiting items.\<close>

theorem priority_queue_order:
  "fst (queue_run ops new_priority_queue) = fst (waiting_run ops []) \<and>
   priority_size_approx (snd (queue_run ops new_priority_queue)) =
     of_nat (length (snd (waiting_run ops [])))"
proof -
  let ?q = "snd (queue_run ops new_priority_queue)" and ?w = "snd (waiting_run ops [])"
  have r: "fst (queue_run ops new_priority_queue) = fst (waiting_run ops [])" "priority_ok ?q"
    "lane ?q = waiting_lane ?w"
    using queue_run_refines [of new_priority_queue "[]" ops] by (auto simp: waiting_lane_def [abs_def])
  have "length (departures (waiting_lane w)) = length w" for w :: "('a \<times> PacketPriority) list"
  proof (induction w)
    case (Cons a w)
    then show ?case by (cases a; cases "snd a") (auto simp: departures_def waiting_lane_def)
  qed (simp add: departures_def waiting_lane_def)
  with r pq.sz_lanes [OF r(2)] show ?thesis by simp
qed

end
