(* ===== verification/Dispatcher.thy ===== *)
theory Dispatcher
  imports Packet_Serdes Peers Hash_Map_Laws
begin

text \<open>
  \<^verbatim>\<open>src/znet/z_packet_dispatcher.h\<close>: \<^verbatim>\<open>PacketDispatcher\<close>, and \<^verbatim>\<open>SaturatingSub\<close> of
  \<^verbatim>\<open>src/znet/z_packet_queues.cc\<close>.  The record \<open>PacketDispatcher\<close> holds what a dispatch reads and
  writes: its sequence counter, and the objects the dispatcher refers to (the map of packets that
  await an acknowledgement with its two counters, the peer mapping, the cryptographic context, the
  datagrams the socket has sent).  A dispatch runs as a whole; \<open>None\<close> is a memory fault of the map.
\<close>

subsection \<open>The outside world of a dispatch\<close>

text \<open>
  The clock, the random generator, the return value of \<^verbatim>\<open>sendto\<close> (\<open>None\<close> is the server's address),
  \<^verbatim>\<open>std::hash\<close> and the address of a new map node.  Where a call makes several of these calls, they
  are numbered.
\<close>

record send_env =
  header_time :: "nat \<Rightarrow> u64"
  receipt_time :: "nat \<Rightarrow> u64"
  random_bytes :: "nat \<Rightarrow> byte list option"
  sendto :: "Address option \<Rightarrow> byte list \<Rightarrow> int"
  std_hash :: "u32 \<Rightarrow> nat"
  new_node :: "(nat \<rightharpoonup> (u32, OutgoingPacket) Node) \<Rightarrow> nat"

definition lawful_env :: "send_env \<Rightarrow> bool" where
  "lawful_env env \<longleftrightarrow> allocates_unused (new_node env)"

record PacketDispatcher =
  next_outgoing_sequence_number :: u32
  awaiting_ack_packets :: "(u32, OutgoingPacket) hash_map"
  awaiting_ack_packet_count :: u64
  awaiting_ack_bytes :: u64
  peers :: ZPeerMapping
  crypto_context :: "ZCryptoContext option"
  datagrams :: "(Address option \<times> byte list) list"

definition SaturatingSub :: "u64 \<Rightarrow> u64 \<Rightarrow> u64" where
  "SaturatingSub current delta = (if current > delta then current - delta else 0)"

definition Send ::
  "send_env \<Rightarrow> Address option \<Rightarrow> byte list \<Rightarrow> 'a PacketDispatcher_scheme \<Rightarrow> int \<times> 'a PacketDispatcher_scheme" where
  "Send env target bytes d =
     (let result = sendto env target bytes
      in (result, if result > 0 then d\<lparr>datagrams := datagrams d @ [(target, bytes)]\<rparr> else d))"

subsection \<open>DispatchPacket\<close>

definition AddReceiptIfNeeded ::
  "send_env \<Rightarrow> nat \<Rightarrow> OutgoingPacket \<Rightarrow> 'a PacketDispatcher_scheme \<Rightarrow> 'a PacketDispatcher_scheme option" where
  "AddReceiptIfNeeded env i packet d =
     (if reliable (op_flags packet) \<and> op_type packet \<noteq> PacketType_Acknowledgement \<and>
         last_send_time packet = 0 then
        let payload_bytes = ucast (heap_data_size packet);
            packet = packet\<lparr>op_flags := (op_flags packet)\<lparr>awaiting_ack := True\<rparr>,
                            last_send_time := ucast (receipt_time env i)\<rparr>
        in case insert_map (std_hash env) (new_node env (node_heap (awaiting_ack_packets d)))
                  (next_outgoing_sequence_number d) packet (awaiting_ack_packets d) of
             None \<Rightarrow> None
           | Some (True, m) \<Rightarrow>
               Some (d\<lparr>awaiting_ack_packets := m,
                       awaiting_ack_packet_count := awaiting_ack_packet_count d + 1,
                       awaiting_ack_bytes := awaiting_ack_bytes d + payload_bytes\<rparr>)
           | Some (False, m) \<Rightarrow> Some (d\<lparr>awaiting_ack_packets := m\<rparr>)
      else Some d)"

text \<open>\<^verbatim>\<open>DispatchToOne\<close> and \<^verbatim>\<open>DispatchToServer\<close> differ in the address only.\<close>

definition dispatch_to ::
  "platform \<Rightarrow> send_env \<Rightarrow> nat \<Rightarrow> Address option \<Rightarrow> OutgoingPacket \<Rightarrow> 'a PacketDispatcher_scheme \<Rightarrow>
   'a PacketDispatcher_scheme option" where
  "dispatch_to P env i target packet d =
     (case BuildPacket P (header_time env i) (random_bytes env i) (crypto_context d) packet
             (next_outgoing_sequence_number d) of
        (bytes, packet, crypto) \<Rightarrow>
          let d = d\<lparr>crypto_context := crypto\<rparr> in
          if bytes = [] then Some d
          else case Send env target bytes d of (result, d) \<Rightarrow>
            if result \<le> 0 then Some d
            else case AddReceiptIfNeeded env i packet d of
                   None \<Rightarrow> None
                 | Some d \<Rightarrow>
                     Some (d\<lparr>next_outgoing_sequence_number := next_outgoing_sequence_number d + 1\<rparr>))"

definition DispatchToOne ::
  "platform \<Rightarrow> send_env \<Rightarrow> nat \<Rightarrow> ZPeer \<Rightarrow> OutgoingPacket \<Rightarrow> 'a PacketDispatcher_scheme \<Rightarrow>
   'a PacketDispatcher_scheme option" where
  "DispatchToOne P env i peer packet d = dispatch_to P env i (Some (address peer)) packet d"

definition DispatchToServer ::
  "platform \<Rightarrow> send_env \<Rightarrow> OutgoingPacket \<Rightarrow> 'a PacketDispatcher_scheme \<Rightarrow> 'a PacketDispatcher_scheme option" where
  "DispatchToServer P env packet d = dispatch_to P env 0 None packet d"

fun fanout ::
  "platform \<Rightarrow> send_env \<Rightarrow> nat \<Rightarrow> ZPeer list \<Rightarrow> OutgoingPacket \<Rightarrow> 'a PacketDispatcher_scheme \<Rightarrow>
   'a PacketDispatcher_scheme option" where
  "fanout P env i [] packet d = Some d"
| "fanout P env i (peer # rest) packet d =
     (case DispatchToOne P env i peer packet d of
        None \<Rightarrow> None
      | Some d \<Rightarrow> fanout P env (Suc i) rest packet d)"

definition DispatchPacket ::
  "platform \<Rightarrow> send_env \<Rightarrow> OutgoingPacket \<Rightarrow> 'a PacketDispatcher_scheme \<Rightarrow> 'a PacketDispatcher_scheme option" where
  "DispatchPacket P env packet d =
     (if destination_peer_id packet = to_server then DispatchToServer P env packet d
      else if destination_peer_id packet = to_all then
        fanout P env 0 (GetPeerList (peers d)) packet d
      else case GetPeer (destination_peer_id packet) (peers d) of
             Some peer \<Rightarrow> DispatchToOne P env 0 peer packet d
           | None \<Rightarrow> Some d)"

subsection \<open>RetransmitPacket\<close>

text \<open>The packet is a reference into the map: the flags the builder clears stay cleared.\<close>

definition retransmit_to ::
  "platform \<Rightarrow> send_env \<Rightarrow> nat \<Rightarrow> Address option \<Rightarrow> OutgoingPacket \<Rightarrow> u32 \<Rightarrow> 'a PacketDispatcher_scheme \<Rightarrow>
   OutgoingPacket \<times> 'a PacketDispatcher_scheme" where
  "retransmit_to P env i target packet seq d =
     (case BuildPacket P (header_time env i) (random_bytes env i) (crypto_context d) packet seq of
        (bytes, packet, crypto) \<Rightarrow>
          let d = d\<lparr>crypto_context := crypto\<rparr>
          in (packet, if bytes \<noteq> [] then snd (Send env target bytes d) else d))"

fun retransmit_all ::
  "platform \<Rightarrow> send_env \<Rightarrow> nat \<Rightarrow> ZPeer list \<Rightarrow> OutgoingPacket \<Rightarrow> u32 \<Rightarrow> 'a PacketDispatcher_scheme \<Rightarrow>
   OutgoingPacket \<times> 'a PacketDispatcher_scheme" where
  "retransmit_all P env i [] packet seq d = (packet, d)"
| "retransmit_all P env i (peer # rest) packet seq d =
     (case retransmit_to P env i (Some (address peer)) packet seq d of
        (packet, d) \<Rightarrow> retransmit_all P env (Suc i) rest packet seq d)"

definition RetransmitPacket ::
  "platform \<Rightarrow> send_env \<Rightarrow> OutgoingPacket \<Rightarrow> u32 \<Rightarrow> 'a PacketDispatcher_scheme \<Rightarrow>
   OutgoingPacket \<times> 'a PacketDispatcher_scheme" where
  "RetransmitPacket P env packet original_sequence_number d =
     (if destination_peer_id packet = to_server then
        retransmit_to P env 0 None packet original_sequence_number d
      else if destination_peer_id packet = to_all then
        retransmit_all P env 0 (GetPeerList (peers d)) packet original_sequence_number d
      else case GetPeer (destination_peer_id packet) (peers d) of
             Some peer \<Rightarrow> retransmit_to P env 0 (Some (address peer)) packet original_sequence_number d
           | None \<Rightarrow> (packet, d))"

subsection \<open>Accounting of unacknowledged packets\<close>

text \<open>
  The map is well formed, its keys are sequence numbers that were handed out, and the two counters
  are the number of entries and the bytes of their payloads.
\<close>

definition payload_total :: "(u32 \<times> OutgoingPacket) list \<Rightarrow> nat" where
  "payload_total es = sum_list (map (unat \<circ> heap_data_size \<circ> snd) es)"

definition receipts_ok :: "(u32 \<Rightarrow> nat) \<Rightarrow> 'a PacketDispatcher_scheme \<Rightarrow> bool" where
  "receipts_ok hash d \<longleftrightarrow>
     map_inv hash (awaiting_ack_packets d) \<and>
     awaiting_ack_packet_count d = of_nat (length (live_entries (awaiting_ack_packets d))) \<and>
     awaiting_ack_bytes d = of_nat (payload_total (live_entries (awaiting_ack_packets d)))"

lemma payload_total_simps [simp]:
  "payload_total [] = 0"
  "payload_total (e # es) = unat (heap_data_size (snd e)) + payload_total es"
  "payload_total (es @ es') = payload_total es + payload_total es'"
  by (simp_all add: payload_total_def)

lemma payload_total_bound:
  assumes "distinct (map fst es)"
  shows "payload_total es < 2 ^ 64" and "length es \<le> 2 ^ 32"
proof -
  have "length es = card (fst ` set es)" using assms by (metis distinct_card length_map set_map)
  also have "\<dots> \<le> card (UNIV :: u32 set)" by (rule card_mono) simp_all
  finally show n: "length es \<le> 2 ^ 32" by (simp add: card_word)
  have "payload_total es \<le> length es * (2 ^ 32 - 1)" for es :: "(u32 \<times> OutgoingPacket) list"
  proof (induction es)
    case (Cons e es)
    then show ?case using unat_bound [of "heap_data_size (snd e)"] by simp
  qed simp
  also have "length es * (2 ^ 32 - 1) \<le> 2 ^ 32 * (2 ^ 32 - 1 :: nat)" using n by (rule mult_right_mono) simp
  finally show "payload_total es < 2 ^ 64" by (simp add: algebra_simps)
qed

lemma SaturatingSub_nat:
  assumes "b \<le> a" and "a < 2 ^ 64"
  shows "SaturatingSub (of_nat a) (of_nat b) = of_nat (a - b)"
  using assms by (auto simp: SaturatingSub_def word_less_nat_alt unat_of_nat of_nat_diff)

lemma SaturatingSub_zero [simp]: "SaturatingSub 0 x = 0"
  by (simp add: SaturatingSub_def)

text \<open>Only the sending state changes: the extension of the record, the peers and the clock stay.\<close>

lemma Send_frame [simp]:
  "awaiting_ack_packets (snd (Send env target bytes d)) = awaiting_ack_packets d"
  "awaiting_ack_packet_count (snd (Send env target bytes d)) = awaiting_ack_packet_count d"
  "awaiting_ack_bytes (snd (Send env target bytes d)) = awaiting_ack_bytes d"
  "next_outgoing_sequence_number (snd (Send env target bytes d)) = next_outgoing_sequence_number d"
  "peers (snd (Send env target bytes d)) = peers d"
  "PacketDispatcher.more (snd (Send env target bytes d)) = PacketDispatcher.more d"
  "fst (Send env target bytes d) = sendto env target bytes"
  by (simp_all add: Send_def Let_def)

definition needs_receipt :: "OutgoingPacket \<Rightarrow> bool" where
  "needs_receipt packet \<longleftrightarrow> reliable (op_flags packet) \<and> op_type packet \<noteq> PacketType_Acknowledgement \<and>
     last_send_time packet = 0"

definition receipt :: "send_env \<Rightarrow> nat \<Rightarrow> OutgoingPacket \<Rightarrow> OutgoingPacket" where
  "receipt env i packet = packet\<lparr>op_flags := (op_flags packet)\<lparr>awaiting_ack := True\<rparr>,
     last_send_time := ucast (receipt_time env i)\<rparr>"

abbreviation unacknowledged :: "'a PacketDispatcher_scheme \<Rightarrow> (u32 \<times> OutgoingPacket) list" where
  "unacknowledged d \<equiv> live_entries (awaiting_ack_packets d)"

lemma receipts_ok_cong:
  "awaiting_ack_packets d' = awaiting_ack_packets d \<Longrightarrow>
   awaiting_ack_packet_count d' = awaiting_ack_packet_count d \<Longrightarrow>
   awaiting_ack_bytes d' = awaiting_ack_bytes d \<Longrightarrow> receipts_ok hash d' = receipts_ok hash d"
  by (simp add: receipts_ok_def)

lemma AddReceiptIfNeeded_spec:
  assumes ok: "receipts_ok (std_hash env) d" and env: "lawful_env env"
  shows "\<exists>m n b. let d' = d\<lparr>awaiting_ack_packets := m, awaiting_ack_packet_count := n,
      awaiting_ack_bytes := b\<rparr> in
    AddReceiptIfNeeded env i packet d = Some d' \<and> receipts_ok (std_hash env) d' \<and>
    live_entries m = unacknowledged d @
      (if needs_receipt packet \<and> next_outgoing_sequence_number d \<notin> fst ` set (unacknowledged d)
       then [(next_outgoing_sequence_number d, receipt env i packet)] else [])"
proof (cases "needs_receipt packet")
  case False
  then have "AddReceiptIfNeeded env i packet d = Some d" by (auto simp: AddReceiptIfNeeded_def needs_receipt_def)
  with ok False show ?thesis
    by (intro exI [of _ "awaiting_ack_packets d"] exI [of _ "awaiting_ack_packet_count d"]
        exI [of _ "awaiting_ack_bytes d"]) (simp add: Let_def)
next
  case True
  let ?m = "awaiting_ack_packets d" and ?s = "next_outgoing_sequence_number d"
  have inv: "map_inv (std_hash env) ?m" using ok by (simp add: receipts_ok_def)
  have "node_heap ?m (new_node env (node_heap ?m)) = None"
    using env map_inv_finite [OF inv] by (simp add: lawful_env_def allocates_unused_def)
  from hm.ins_law [OF inv this, of ?s "receipt env i packet"] obtain m' where
    m': "insert_map (std_hash env) (new_node env (node_heap ?m)) ?s (receipt env i packet) ?m =
      Some (?s \<notin> fst ` set (live_entries ?m), m')" "map_inv (std_hash env) m'"
    "live_entries m' = (if ?s \<in> fst ` set (live_entries ?m) then live_entries ?m
      else live_entries ?m @ [(?s, receipt env i packet)])" by blast
  have add: "AddReceiptIfNeeded env i packet d =
      (case insert_map (std_hash env) (new_node env (node_heap ?m)) ?s (receipt env i packet) ?m of
         None \<Rightarrow> None
       | Some (True, m) \<Rightarrow> Some (d\<lparr>awaiting_ack_packets := m,
           awaiting_ack_packet_count := awaiting_ack_packet_count d + 1,
           awaiting_ack_bytes := awaiting_ack_bytes d + ucast (heap_data_size packet)\<rparr>)
       | Some (False, m) \<Rightarrow> Some (d\<lparr>awaiting_ack_packets := m\<rparr>))"
    using True by (simp add: AddReceiptIfNeeded_def needs_receipt_def receipt_def Let_def)
  have size: "heap_data_size (receipt env i packet) = heap_data_size packet" by (simp add: receipt_def)
  show ?thesis
  proof (cases "?s \<in> fst ` set (live_entries ?m)")
    case present: True
    with ok m'(2,3) show ?thesis unfolding add m'(1)
      by (intro exI [of _ m'] exI [of _ "awaiting_ack_packet_count d"] exI [of _ "awaiting_ack_bytes d"])
        (simp add: Let_def receipts_ok_def)
  next
    case False
    with ok m'(2,3) True show ?thesis unfolding add m'(1)
      by (intro exI [of _ m'] exI [of _ "awaiting_ack_packet_count d + 1"]
          exI [of _ "awaiting_ack_bytes d + ucast (heap_data_size packet)"])
        (simp add: Let_def receipts_ok_def size)
  qed
qed

text \<open>
  One dispatch either leaves everything but the cryptographic context alone, or sends one datagram
  built with the current sequence number, files the receipt under it and moves the counter on.
\<close>

lemma dispatch_to_spec:
  assumes ok: "receipts_ok (std_hash env) d" and env: "lawful_env env"
    and build: "BuildPacket P (header_time env i) (random_bytes env i) (crypto_context d) packet
      (next_outgoing_sequence_number d) = (bytes, packet', crypto')"
  shows "\<exists>d'. dispatch_to P env i target packet d = Some d' \<and> receipts_ok (std_hash env) d' \<and>
    PacketDispatcher.more d' = PacketDispatcher.more d \<and> peers d' = peers d \<and> crypto_context d' = crypto' \<and>
    (if bytes \<noteq> [] \<and> sendto env target bytes > 0 then
       datagrams d' = datagrams d @ [(target, bytes)] \<and>
       next_outgoing_sequence_number d' = next_outgoing_sequence_number d + 1 \<and>
       unacknowledged d' = unacknowledged d @
         (if needs_receipt packet \<and> next_outgoing_sequence_number d \<notin> fst ` set (unacknowledged d)
          then [(next_outgoing_sequence_number d, receipt env i packet')] else [])
     else d' = d\<lparr>crypto_context := crypto'\<rparr>)"
proof (cases "bytes \<noteq> [] \<and> sendto env target bytes > 0")
  case False
  then have "dispatch_to P env i target packet d = Some (d\<lparr>crypto_context := crypto'\<rparr>)"
    unfolding dispatch_to_def build prod.case Let_def Send_def by auto
  with False ok show ?thesis
    by (intro exI [of _ "d\<lparr>crypto_context := crypto'\<rparr>"]) (simp add: receipts_ok_def)
next
  case True
  let ?d = "snd (Send env target bytes (d\<lparr>crypto_context := crypto'\<rparr>))"
  have pkt: "needs_receipt packet' = needs_receipt packet"
    using BuildPacket_packet [OF build] by (simp add: needs_receipt_def)
  have "receipts_ok (std_hash env) ?d" using ok by (simp add: receipts_ok_def)
  from AddReceiptIfNeeded_spec [OF this env, of i packet'] obtain m n b where
    d1: "AddReceiptIfNeeded env i packet' ?d = Some (?d\<lparr>awaiting_ack_packets := m,
        awaiting_ack_packet_count := n, awaiting_ack_bytes := b\<rparr>)"
    "receipts_ok (std_hash env) (?d\<lparr>awaiting_ack_packets := m, awaiting_ack_packet_count := n,
        awaiting_ack_bytes := b\<rparr>)"
    "live_entries m = unacknowledged d @
      (if needs_receipt packet \<and> next_outgoing_sequence_number d \<notin> fst ` set (unacknowledged d)
       then [(next_outgoing_sequence_number d, receipt env i packet')] else [])"
    unfolding Let_def pkt by auto
  let ?d1 = "?d\<lparr>awaiting_ack_packets := m, awaiting_ack_packet_count := n, awaiting_ack_bytes := b\<rparr>"
  have "dispatch_to P env i target packet d =
      Some (?d1\<lparr>next_outgoing_sequence_number := next_outgoing_sequence_number d + 1\<rparr>)"
    using True d1(1) unfolding dispatch_to_def build by (simp add: Let_def case_prod_beta)
  moreover have "datagrams ?d1 = datagrams d @ [(target, bytes)]" "crypto_context ?d1 = crypto'"
    using True by (simp_all add: Send_def)
  ultimately show ?thesis using True d1(2,3) by (simp add: receipts_ok_def)
qed

text \<open>A property of the sending state that one datagram at a time keeps is kept by every dispatch.\<close>

lemma fanout_invariant:
  assumes step: "\<And>i target d. I d \<Longrightarrow> \<exists>d'. dispatch_to P env i target packet d = Some d' \<and> I d'"
    and "I d"
  shows "\<exists>d'. fanout P env i ps packet d = Some d' \<and> I d'"
  using \<open>I d\<close>
proof (induction ps arbitrary: i d)
  case (Cons p ps)
  from step [OF Cons.prems, of i "Some (address p)"] obtain d1 where
    "dispatch_to P env i (Some (address p)) packet d = Some d1" "I d1" by blast
  with Cons.IH show ?case by (simp add: DispatchToOne_def)
qed simp

lemma DispatchPacket_invariant:
  assumes step: "\<And>i target d. I d \<Longrightarrow> \<exists>d'. dispatch_to P env i target packet d = Some d' \<and> I d'"
    and "I d"
  shows "\<exists>d'. DispatchPacket P env packet d = Some d' \<and> I d'"
  unfolding DispatchPacket_def DispatchToServer_def DispatchToOne_def
  using fanout_invariant [where I = I and d = d and P = P and env = env and packet = packet, OF step assms(2)]
    step [OF assms(2)] assms(2)
  by (auto split: option.split)

lemma dispatch_to_ok:
  assumes "receipts_ok (std_hash env) d" and "lawful_env env"
  shows "\<exists>d'. dispatch_to P env i target packet d = Some d' \<and> receipts_ok (std_hash env) d' \<and>
    PacketDispatcher.more d' = PacketDispatcher.more d \<and> peers d' = peers d"
proof -
  obtain bytes packet' crypto' where "BuildPacket P (header_time env i) (random_bytes env i) (crypto_context d)
      packet (next_outgoing_sequence_number d) = (bytes, packet', crypto')"
    by (metis prod_cases3)
  from dispatch_to_spec [OF assms this, of target] show ?thesis by blast
qed

lemma DispatchPacket_ok:
  assumes "receipts_ok (std_hash env) d" and "lawful_env env"
  shows "\<exists>d'. DispatchPacket P env packet d = Some d' \<and> receipts_ok (std_hash env) d' \<and>
    PacketDispatcher.more d' = PacketDispatcher.more d \<and> peers d' = peers d"
  by (rule DispatchPacket_invariant) (use assms dispatch_to_ok in metis, use assms in simp)

lemma retransmit_to_frame:
  assumes "retransmit_to P env i target packet seq d = (packet', d')"
  shows "packet' = built_packet P packet \<and> awaiting_ack_packets d' = awaiting_ack_packets d \<and>
    awaiting_ack_packet_count d' = awaiting_ack_packet_count d \<and> awaiting_ack_bytes d' = awaiting_ack_bytes d \<and>
    next_outgoing_sequence_number d' = next_outgoing_sequence_number d \<and> peers d' = peers d \<and>
    PacketDispatcher.more d' = PacketDispatcher.more d"
proof -
  obtain bytes q c where b: "BuildPacket P (header_time env i) (random_bytes env i) (crypto_context d) packet seq =
      (bytes, q, c)" by (metis prod_cases3)
  with assms BuildPacket_packet [OF b] show ?thesis by (auto simp: retransmit_to_def Let_def split: if_splits)
qed

text \<open>The packet a retransmission leaves in the map; rebuilding is idempotent on everything but the flag.\<close>

definition retransmitted :: "platform \<Rightarrow> nat \<Rightarrow> OutgoingPacket \<Rightarrow> OutgoingPacket" where
  "retransmitted P n packet = (built_packet P ^^ n) packet"

lemma retransmitted_fields [simp]:
  "heap_data_size (retransmitted P n packet) = heap_data_size packet"
  "last_send_time (retransmitted P n packet) = last_send_time packet"
  "destination_peer_id (retransmitted P n packet) = destination_peer_id packet"
  "op_type (retransmitted P n packet) = op_type packet" "op_payload (retransmitted P n packet) = op_payload packet"
  "reliable (op_flags (retransmitted P n packet)) = reliable (op_flags packet)"
  by (induction n) (simp_all add: retransmitted_def)

lemma retransmit_all_frame:
  "retransmit_all P env i ps packet seq d = (packet', d') \<Longrightarrow>
    packet' = retransmitted P (length ps) packet \<and> awaiting_ack_packets d' = awaiting_ack_packets d \<and>
    awaiting_ack_packet_count d' = awaiting_ack_packet_count d \<and> awaiting_ack_bytes d' = awaiting_ack_bytes d \<and>
    next_outgoing_sequence_number d' = next_outgoing_sequence_number d \<and> peers d' = peers d \<and>
    PacketDispatcher.more d' = PacketDispatcher.more d"
proof (induction ps arbitrary: i packet d)
  case (Cons p ps)
  obtain q d1 where r: "retransmit_to P env i (Some (address p)) packet seq d = (q, d1)" by fastforce
  with Cons.prems Cons.IH [of "Suc i" q d1] retransmit_to_frame [OF r] show ?case
    by (simp add: retransmitted_def funpow_swap1)
qed (simp add: retransmitted_def)

lemma RetransmitPacket_frame:
  assumes "RetransmitPacket P env packet seq d = (packet', d')"
  shows "(\<exists>n. packet' = retransmitted P n packet \<and> n =
      (if destination_peer_id packet = to_server then 1
       else if destination_peer_id packet = to_all then length (peer_list (peers d))
       else if GetPeer (destination_peer_id packet) (peers d) = None then 0 else 1)) \<and>
    awaiting_ack_packets d' = awaiting_ack_packets d \<and>
    awaiting_ack_packet_count d' = awaiting_ack_packet_count d \<and> awaiting_ack_bytes d' = awaiting_ack_bytes d \<and>
    next_outgoing_sequence_number d' = next_outgoing_sequence_number d \<and> peers d' = peers d \<and>
    PacketDispatcher.more d' = PacketDispatcher.more d"
  using assms retransmit_to_frame [of P env 0 _ packet seq d packet' d'] retransmit_all_frame [of P env 0 _ packet seq d packet' d']
  by (auto simp: RetransmitPacket_def GetPeerList_def retransmitted_def split: if_splits option.splits)

subsection \<open>Sequence numbers\<close>

definition built_with :: "platform \<Rightarrow> OutgoingPacket \<Rightarrow> u32 \<Rightarrow> byte list \<Rightarrow> bool" where
  "built_with P packet seq bytes \<longleftrightarrow> bytes \<noteq> [] \<and>
     (\<exists>now rand crypto. fst (BuildPacket P now rand crypto packet seq) = bytes)"

text \<open>
  \<open>log_ok P ps d\<close>: the datagrams sent so far are those of the packets \<open>ps\<close>, numbered from 0, and
  the packets that await an acknowledgement are the reliable ones among them, under their numbers.
\<close>

definition log_ok :: "platform \<Rightarrow> OutgoingPacket list \<Rightarrow> 'a PacketDispatcher_scheme \<Rightarrow> bool" where
  "log_ok P ps d \<longleftrightarrow> length (datagrams d) = length ps \<and>
     next_outgoing_sequence_number d = of_nat (length ps) \<and>
     (\<forall>i < length ps. built_with P (ps ! i) (of_nat i) (snd (datagrams d ! i))) \<and>
     (length ps \<le> 2 ^ 32 \<longrightarrow>
        map fst (unacknowledged d) = map of_nat (filter (\<lambda>i. needs_receipt (ps ! i)) [0..<length ps]))"

lemma of_nat_fresh: "n < 2 ^ 32 \<Longrightarrow> i < n \<Longrightarrow> (of_nat i :: u32) \<noteq> of_nat n"
  by (simp add: word_unat_eq_iff unat_of_nat)

lemma dispatch_to_log:
  assumes ok: "receipts_ok (std_hash env) d" "log_ok P ps d" and env: "lawful_env env"
  shows "\<exists>d' ps'. dispatch_to P env i target packet d = Some d' \<and> receipts_ok (std_hash env) d' \<and>
    log_ok P (ps @ ps') d' \<and> set ps' \<subseteq> {packet}"
proof -
  obtain bytes packet' crypto' where b: "BuildPacket P (header_time env i) (random_bytes env i) (crypto_context d)
      packet (next_outgoing_sequence_number d) = (bytes, packet', crypto')" by (metis prod_cases3)
  from dispatch_to_spec [OF ok(1) env this, of target] obtain d' where
    d': "dispatch_to P env i target packet d = Some d'" "receipts_ok (std_hash env) d'"
    and upd: "if bytes \<noteq> [] \<and> sendto env target bytes > 0 then
       datagrams d' = datagrams d @ [(target, bytes)] \<and>
       next_outgoing_sequence_number d' = next_outgoing_sequence_number d + 1 \<and>
       unacknowledged d' = unacknowledged d @
         (if needs_receipt packet \<and> next_outgoing_sequence_number d \<notin> fst ` set (unacknowledged d)
          then [(next_outgoing_sequence_number d, receipt env i packet')] else [])
     else d' = d\<lparr>crypto_context := crypto'\<rparr>" by blast
  show ?thesis
  proof (cases "bytes \<noteq> [] \<and> sendto env target bytes > 0")
    case False
    with upd have "log_ok P (ps @ []) d'" using ok(2) by (simp add: log_ok_def)
    with d' show ?thesis by (intro exI [of _ d'] exI [of _ "[]"]) simp
  next
    case True
    have new: "datagrams d' = datagrams d @ [(target, bytes)]"
      "next_outgoing_sequence_number d' = next_outgoing_sequence_number d + 1"
      "unacknowledged d' = unacknowledged d @
         (if needs_receipt packet \<and> next_outgoing_sequence_number d \<notin> fst ` set (unacknowledged d)
          then [(next_outgoing_sequence_number d, receipt env i packet')] else [])"
      using upd unfolding if_P [OF True] by blast+
    have seq: "next_outgoing_sequence_number d = of_nat (length ps)" using ok(2) by (simp add: log_ok_def)
    have "built_with P packet (of_nat (length ps)) bytes"
      unfolding built_with_def seq [symmetric] using b True by (metis fst_conv)
    moreover have "of_nat (length ps) \<notin> fst ` set (unacknowledged d)" if small: "length ps < 2 ^ 32"
    proof -
      have "map fst (unacknowledged d) = map of_nat (filter (\<lambda>i. needs_receipt (ps ! i)) [0..<length ps])"
        using ok(2) small by (simp add: log_ok_def)
      then have "fst ` set (unacknowledged d) \<subseteq> of_nat ` {0..<length ps}"
        by (metis filter_is_subset image_mono set_map set_upt)
      then show ?thesis using of_nat_fresh [OF small] by fastforce
    qed
    moreover have "filter (\<lambda>i. needs_receipt ((ps @ [packet]) ! i)) [0..<length ps] =
        filter (\<lambda>i. needs_receipt (ps ! i)) [0..<length ps]"
      by (rule filter_cong) (auto simp: nth_append)
    ultimately have "log_ok P (ps @ [packet]) d'"
      using ok(2) new by (auto simp: log_ok_def seq less_Suc_eq algebra_simps nth_append)
    with d' show ?thesis by (intro exI [of _ d'] exI [of _ "[packet]"]) simp
  qed
qed

fun dispatch_run ::
  "platform \<Rightarrow> (send_env \<times> OutgoingPacket) list \<Rightarrow> 'a PacketDispatcher_scheme \<Rightarrow> 'a PacketDispatcher_scheme option" where
  "dispatch_run P [] d = Some d"
| "dispatch_run P ((env, packet) # jobs) d =
     (case DispatchPacket P env packet d of None \<Rightarrow> None | Some d \<Rightarrow> dispatch_run P jobs d)"

definition new_dispatcher :: "ZPeerMapping \<Rightarrow> ZCryptoContext option \<Rightarrow> PacketDispatcher" where
  "new_dispatcher ps crypto =
     \<lparr>next_outgoing_sequence_number = 0, awaiting_ack_packets = new_map 200, awaiting_ack_packet_count = 0,
      awaiting_ack_bytes = 0, peers = ps, crypto_context = crypto, datagrams = []\<rparr>"

definition jobs_ok :: "(u32 \<Rightarrow> nat) \<Rightarrow> (send_env \<times> OutgoingPacket) list \<Rightarrow> bool" where
  "jobs_ok hash jobs \<longleftrightarrow> (\<forall>(env, packet) \<in> set jobs. lawful_env env \<and> std_hash env = hash)"

lemma dispatch_run_log:
  "jobs_ok hash jobs \<Longrightarrow> receipts_ok hash d \<Longrightarrow> log_ok P ps d \<Longrightarrow>
   \<exists>d' ps'. dispatch_run P jobs d = Some d' \<and> receipts_ok hash d' \<and> log_ok P (ps @ ps') d' \<and>
     set ps' \<subseteq> snd ` set jobs"
proof (induction jobs arbitrary: d ps)
  case Nil
  then show ?case by (intro exI [of _ d] exI [of _ "[]"]) simp
next
  case (Cons job jobs)
  obtain env packet where job: "job = (env, packet)" by fastforce
  have env: "lawful_env env" "std_hash env = hash" using Cons.prems(1) job by (auto simp: jobs_ok_def)
  let ?I = "\<lambda>d. receipts_ok hash d \<and> (\<exists>ps'. log_ok P (ps @ ps') d \<and> set ps' \<subseteq> {packet})"
  have "\<exists>d'. DispatchPacket P env packet d = Some d' \<and> ?I d'"
  proof (rule DispatchPacket_invariant)
    fix i target d assume "?I d"
    then obtain ps' where "receipts_ok hash d" "log_ok P (ps @ ps') d" "set ps' \<subseteq> {packet}" by blast
    with dispatch_to_log [of env d P "ps @ ps'" i target packet] env show
      "\<exists>d'. dispatch_to P env i target packet d = Some d' \<and> ?I d'" by (metis append.assoc set_append Un_least)
  qed (use Cons.prems in \<open>auto intro!: exI [of _ "[]"]\<close>)
  then obtain d1 ps1 where d1: "DispatchPacket P env packet d = Some d1" "receipts_ok hash d1"
    "log_ok P (ps @ ps1) d1" "set ps1 \<subseteq> {packet}" by blast
  have "jobs_ok hash jobs" using Cons.prems(1) by (simp add: jobs_ok_def)
  from Cons.IH [OF this d1(2,3)] obtain d' ps' where "dispatch_run P jobs d1 = Some d'" "receipts_ok hash d'"
    "log_ok P (ps @ (ps1 @ ps')) d'" "set ps' \<subseteq> snd ` set jobs" by auto
  with d1(1,4) job show ?case by (intro exI [of _ d'] exI [of _ "ps1 @ ps'"]) auto
qed

lemma new_dispatcher_ok: "receipts_ok hash (new_dispatcher ps crypto)" "log_ok P [] (new_dispatcher ps crypto)"
  by (simp_all add: receipts_ok_def log_ok_def new_dispatcher_def map_inv_new)

lemma built_with_sequence: "built_with P packet seq bytes \<Longrightarrow> reliable (op_flags packet) \<Longrightarrow> LoadU32 h bytes 20 = seq"
  unfolding built_with_def using built_sequence by (metis prod_cases3 fst_conv)

subsection \<open>Two workers\<close>

text \<open>
  The executor runs dispatches on several threads, and only the counter itself is atomic: a dispatch
  reads it when it builds its packet and again, after the send, for the receipt and the increment.
  These are the two halves between which another worker can run.
\<close>

definition dispatch_begin ::
  "platform \<Rightarrow> send_env \<Rightarrow> nat \<Rightarrow> Address option \<Rightarrow> OutgoingPacket \<Rightarrow> 'a PacketDispatcher_scheme \<Rightarrow>
   OutgoingPacket option \<times> 'a PacketDispatcher_scheme" where
  "dispatch_begin P env i target packet d =
     (case BuildPacket P (header_time env i) (random_bytes env i) (crypto_context d) packet
             (next_outgoing_sequence_number d) of
        (bytes, packet, crypto) \<Rightarrow>
          let d = d\<lparr>crypto_context := crypto\<rparr> in
          if bytes = [] then (None, d)
          else case Send env target bytes d of (result, d) \<Rightarrow>
            if result \<le> 0 then (None, d) else (Some packet, d))"

definition dispatch_finish ::
  "send_env \<Rightarrow> nat \<Rightarrow> OutgoingPacket \<Rightarrow> 'a PacketDispatcher_scheme \<Rightarrow> 'a PacketDispatcher_scheme option" where
  "dispatch_finish env i packet d =
     (case AddReceiptIfNeeded env i packet d of
        None \<Rightarrow> None
      | Some d \<Rightarrow> Some (d\<lparr>next_outgoing_sequence_number := next_outgoing_sequence_number d + 1\<rparr>))"

lemma dispatch_to_halves:
  "dispatch_to P env i target packet d =
     (case dispatch_begin P env i target packet d of
        (None, d) \<Rightarrow> Some d
      | (Some packet, d) \<Rightarrow> dispatch_finish env i packet d)"
  by (simp add: dispatch_to_def dispatch_begin_def dispatch_finish_def Let_def split: prod.split)

lemma dispatch_begin_Some:
  assumes "dispatch_begin P env i target packet d = (Some packet', d')"
  shows "\<exists>bytes. datagrams d' = datagrams d @ [(target, bytes)] \<and>
      built_with P packet (next_outgoing_sequence_number d) bytes"
    and "next_outgoing_sequence_number d' = next_outgoing_sequence_number d"
    and "awaiting_ack_packets d' = awaiting_ack_packets d"
    and "receipts_ok hash d' = receipts_ok hash d"
    and "needs_receipt packet' = needs_receipt packet"
proof -
  obtain bytes q c where b: "BuildPacket P (header_time env i) (random_bytes env i) (crypto_context d) packet
      (next_outgoing_sequence_number d) = (bytes, q, c)" by (metis prod_cases3)
  from assms have d: "bytes \<noteq> []" "packet' = q" "d' = d\<lparr>crypto_context := c, datagrams := datagrams d @ [(target, bytes)]\<rparr>"
    unfolding dispatch_begin_def b by (auto simp: Let_def Send_def split: if_splits)
  then show "\<exists>bytes. datagrams d' = datagrams d @ [(target, bytes)] \<and>
      built_with P packet (next_outgoing_sequence_number d) bytes"
  proof (intro exI [of _ bytes] conjI)
    show "built_with P packet (next_outgoing_sequence_number d) bytes"
      unfolding built_with_def using b d(1) by (metis fst_conv)
  qed (simp add: d(3))
  show "next_outgoing_sequence_number d' = next_outgoing_sequence_number d"
    "awaiting_ack_packets d' = awaiting_ack_packets d" "receipts_ok hash d' = receipts_ok hash d"
    using d by (simp_all add: receipts_ok_def)
  show "needs_receipt packet' = needs_receipt packet"
    using BuildPacket_packet [OF b] d(2) by (simp add: needs_receipt_def)
qed

lemma dispatch_finish_spec:
  assumes "receipts_ok (std_hash env) d" and "lawful_env env" and "needs_receipt packet"
    and "next_outgoing_sequence_number d \<notin> fst ` set (unacknowledged d)"
  shows "\<exists>d'. dispatch_finish env i packet d = Some d' \<and> receipts_ok (std_hash env) d' \<and>
    unacknowledged d' = unacknowledged d @ [(next_outgoing_sequence_number d, receipt env i packet)] \<and>
    next_outgoing_sequence_number d' = next_outgoing_sequence_number d + 1 \<and> datagrams d' = datagrams d"
  using AddReceiptIfNeeded_spec [OF assms(1,2), of i packet] assms(3,4)
  by (auto simp: dispatch_finish_def Let_def receipts_ok_def)

subsection \<open>Properties\<close>

text \<open>C15: dispatches that follow one another number their datagrams 0, 1, 2, ... whatever their
  destinations, broadcasts included: each reliable datagram carries its position in the log as its
  sequence number on the wire, and the packets that await an acknowledgement are the reliable ones
  that were sent, each under its own number, with the two counters equal to their number and
  their bytes (up to \<open>2 ^ 32\<close> datagrams).  No dispatch faults.\<close>

theorem sequence_numbers_consecutive:
  assumes "jobs_ok hash jobs"
  shows "\<exists>d packets. dispatch_run P jobs (new_dispatcher ps crypto) = Some d \<and>
    length packets = length (datagrams d) \<and> set packets \<subseteq> snd ` set jobs \<and>
    (\<forall>i < length packets. reliable (op_flags (packets ! i)) \<longrightarrow>
       LoadU32 h (snd (datagrams d ! i)) 20 = of_nat i) \<and>
    (length packets \<le> 2 ^ 32 \<longrightarrow>
       map fst (unacknowledged d) = map of_nat (filter (\<lambda>i. needs_receipt (packets ! i)) [0..<length packets])) \<and>
    awaiting_ack_packet_count d = of_nat (length (unacknowledged d)) \<and>
    awaiting_ack_bytes d = of_nat (payload_total (unacknowledged d))"
proof -
  from dispatch_run_log [OF assms new_dispatcher_ok(1,2), of P ps crypto] obtain d packets where
    "dispatch_run P jobs (new_dispatcher ps crypto) = Some d" "receipts_ok hash d" "log_ok P packets d"
    "set packets \<subseteq> snd ` set jobs" by auto
  then show ?thesis
    by (intro exI [of _ d] exI [of _ packets]) (auto simp: log_ok_def receipts_ok_def built_with_sequence)
qed

definition sample_env :: send_env where
  "sample_env = \<lparr>header_time = (\<lambda>_. 1701290990), receipt_time = (\<lambda>_. 1701290990),
     random_bytes = (\<lambda>_. None), sendto = (\<lambda>_ bytes. int (length bytes)), std_hash = unat,
     new_node = next_address\<rparr>"

lemma sample_env_lawful: "lawful_env sample_env"
  by (simp add: lawful_env_def sample_env_def next_address_unused)

theorem sequence_numbers_consecutive_witness:
  "\<exists>d. dispatch_run sample_platform [(sample_env, sample_packet), (sample_env, sample_packet)]
     (new_dispatcher \<lparr>peer_ids = 8, peer_list = [\<lparr>peer_identifier = 7, address = empty_address\<rparr>]\<rparr> None) = Some d \<and>
     awaiting_ack_packet_count d = of_nat (length (unacknowledged d))"
proof -
  have "jobs_ok unat [(sample_env, sample_packet), (sample_env, sample_packet)]"
    using sample_env_lawful by (simp add: jobs_ok_def) (simp add: sample_env_def)
  from sequence_numbers_consecutive [OF this] show ?thesis by blast
qed

text \<open>When two workers overlap, both read the counter before either moves it: two reliable packets
  go out under the same sequence number, and the second one's receipt is filed under the next
  number, which was never on the wire.\<close>

theorem overlapping_dispatches_share_a_number:
  assumes ok: "receipts_ok hash d" and env: "lawful_env e1" "std_hash e1 = hash" "lawful_env e2" "std_hash e2 = hash"
    and pkt: "needs_receipt p1" "needs_receipt p2"
    and begin1: "dispatch_begin P e1 0 t1 p1 d = (Some q1, d1)"
    and begin2: "dispatch_begin P e2 0 t2 p2 d1 = (Some q2, d2)"
    and fresh: "next_outgoing_sequence_number d \<notin> fst ` set (unacknowledged d)"
      "next_outgoing_sequence_number d + 1 \<notin> fst ` set (unacknowledged d)"
  shows "\<exists>d3 d4 b1 b2. dispatch_finish e1 0 q1 d2 = Some d3 \<and> dispatch_finish e2 0 q2 d3 = Some d4 \<and>
    datagrams d4 = datagrams d @ [(t1, b1), (t2, b2)] \<and>
    LoadU32 h b1 20 = next_outgoing_sequence_number d \<and> LoadU32 h b2 20 = next_outgoing_sequence_number d \<and>
    map fst (unacknowledged d4) = map fst (unacknowledged d) @
      [next_outgoing_sequence_number d, next_outgoing_sequence_number d + 1]"
proof -
  let ?n = "next_outgoing_sequence_number d"
  note b1 = dispatch_begin_Some [OF begin1] and b2 = dispatch_begin_Some [OF begin2]
  from b1(1) b2(1) b1(2) obtain x1 x2 where x: "datagrams d2 = datagrams d @ [(t1, x1), (t2, x2)]"
    "built_with P p1 ?n x1" "built_with P p2 ?n x2" by auto
  have st: "receipts_ok hash d2" "unacknowledged d2 = unacknowledged d" "next_outgoing_sequence_number d2 = ?n"
    using ok b1(2-4) b2(2-4) by simp_all
  have "needs_receipt q1" "needs_receipt q2" using pkt b1(5) b2(5) by simp_all
  with dispatch_finish_spec [of e1 d2 q1 0] st env(1,2) fresh(1) obtain d3 where
    d3: "dispatch_finish e1 0 q1 d2 = Some d3" "receipts_ok hash d3"
    "unacknowledged d3 = unacknowledged d @ [(?n, receipt e1 0 q1)]"
    "next_outgoing_sequence_number d3 = ?n + 1" "datagrams d3 = datagrams d2" by auto
  with dispatch_finish_spec [of e2 d3 q2 0] env(3,4) fresh(2) \<open>needs_receipt q2\<close> obtain d4 where
    d4: "dispatch_finish e2 0 q2 d3 = Some d4" "datagrams d4 = datagrams d2"
    "unacknowledged d4 = unacknowledged d @ [(?n, receipt e1 0 q1), (?n + 1, receipt e2 0 q2)]" by auto
  have "reliable (op_flags p1)" "reliable (op_flags p2)" using pkt by (simp_all add: needs_receipt_def)
  with x d3(1) d4 show ?thesis
    by (intro exI [of _ d3] exI [of _ d4] exI [of _ x1] exI [of _ x2]) (simp add: built_with_sequence)
qed

definition sample_bytes_0 :: "byte list" where
  "sample_bytes_0 = fst (BuildPacket sample_platform 1701290990 None None sample_packet 0)"

lemma sample_build_0:
  "BuildPacket sample_platform 1701290990 None None sample_packet 0 = (sample_bytes_0, sample_packet, None) \<and>
   length sample_bytes_0 = 35"
  by code_simp

lemma sample_dispatch_begin:
  assumes "crypto_context d = None" "next_outgoing_sequence_number d = 0"
  shows "dispatch_begin sample_platform sample_env 0 target sample_packet d =
    (Some sample_packet, d\<lparr>datagrams := datagrams d @ [(target, sample_bytes_0)]\<rparr>)"
proof -
  have "sample_bytes_0 \<noteq> []" using sample_build_0 by auto
  then show ?thesis
    unfolding dispatch_begin_def Send_def sample_env_def send_env.select_convs assms conjunct1 [OF sample_build_0]
    using assms by (simp add: Let_def sample_build_0)
qed

theorem overlapping_dispatches_share_a_number_witness:
  "\<exists>d3 d4 b1 b2 d2.
    snd (dispatch_begin sample_platform sample_env 0 None sample_packet
      (snd (dispatch_begin sample_platform sample_env 0 None sample_packet (new_dispatcher new_mapping None)))) = d2 \<and>
    dispatch_finish sample_env 0 sample_packet d2 = Some d3 \<and>
    dispatch_finish sample_env 0 sample_packet d3 = Some d4 \<and>
    datagrams d4 = [(None, b1), (None, b2)] \<and> LoadU32 BigEndian b1 20 = 0 \<and> LoadU32 BigEndian b2 20 = 0 \<and>
    map fst (unacknowledged d4) = [0, 1]"
proof -
  let ?d = "new_dispatcher new_mapping None"
  have hash: "std_hash sample_env = unat" by (simp add: sample_env_def)
  have pkt: "needs_receipt sample_packet" by code_simp
  have init: "next_outgoing_sequence_number ?d = 0" "unacknowledged ?d = []" "datagrams ?d = []"
    by (simp_all add: new_dispatcher_def map_inv_new)
  let ?d1 = "?d\<lparr>datagrams := datagrams ?d @ [(None, sample_bytes_0)]\<rparr>"
  let ?d2 = "?d1\<lparr>datagrams := datagrams ?d1 @ [(None, sample_bytes_0)]\<rparr>"
  have d1: "dispatch_begin sample_platform sample_env 0 None sample_packet ?d = (Some sample_packet, ?d1)"
    by (rule sample_dispatch_begin; simp add: new_dispatcher_def)
  have d2: "dispatch_begin sample_platform sample_env 0 None sample_packet ?d1 = (Some sample_packet, ?d2)"
    by (rule sample_dispatch_begin; simp add: new_dispatcher_def)
  from overlapping_dispatches_share_a_number [OF new_dispatcher_ok(1) sample_env_lawful hash sample_env_lawful hash
      pkt pkt d1 d2, of BigEndian] d1 d2
  show ?thesis by (auto simp: init)
qed

end
