(* ===== verification/Receiver.thy ===== *)
theory Receiver
  imports Packet_Serdes Peers
begin

text \<open>
  \<^verbatim>\<open>src/znet/z_packet_receiver.h\<close>: \<^verbatim>\<open>PacketReceiver\<close>, with the error codes of
  \<^verbatim>\<open>src/znet/z_socket.h\<close> and their translation in \<^verbatim>\<open>src/znet/z_socket_posix.cc\<close>.  The receive
  buffer lives as long as the receiver, so that what a datagram leaves in it is visible to the next
  call.  What \<^verbatim>\<open>recvfrom\<close> and \<^verbatim>\<open>errno\<close> report is an argument, \<open>recv_event\<close>.  The averaging and
  resizing of the buffer (\<^verbatim>\<open>ResizeBufferIfNeeded\<close>, \<^verbatim>\<open>UpdateAveragePacketSize\<close>) has no caller and is
  left out.
\<close>

subsection \<open>Socket errors\<close>

datatype socket_error = NoError | AccessDenied | AddressInUse | AddressNotSupported | ConnectionRefused
  | ConnectionReset | HostUnreachable | NetworkUnreachable | NotConnected | OperationInProgress
  | ConnectionTimedOut | ConnectionAborted | UnknownError

datatype errno = EACCES | EADDRINUSE | EAFNOSUPPORT | ECONNREFUSED | ECONNRESET | EHOSTUNREACH
  | ENETUNREACH | ENOTCONN | EBADF | ENOTSOCK | EINPROGRESS | ETIMEDOUT | ECONNABORTED | EAGAIN
  | OtherErrno int

definition GetLastError :: "errno \<Rightarrow> socket_error" where
  "GetLastError e =
     (case e of
        EACCES \<Rightarrow> AccessDenied | EADDRINUSE \<Rightarrow> AddressInUse | EAFNOSUPPORT \<Rightarrow> AddressNotSupported
      | ECONNREFUSED \<Rightarrow> ConnectionRefused | ECONNRESET \<Rightarrow> ConnectionReset
      | EHOSTUNREACH \<Rightarrow> HostUnreachable | ENETUNREACH \<Rightarrow> NetworkUnreachable
      | ENOTCONN \<Rightarrow> NotConnected | EBADF \<Rightarrow> NotConnected | ENOTSOCK \<Rightarrow> NotConnected
      | EINPROGRESS \<Rightarrow> OperationInProgress | ETIMEDOUT \<Rightarrow> ConnectionTimedOut
      | ECONNABORTED \<Rightarrow> ConnectionAborted | EAGAIN \<Rightarrow> NoError | OtherErrno _ \<Rightarrow> UnknownError)"

subsection \<open>PacketReceiver\<close>

record recv_event =
  socket_valid :: bool
  recv_source :: datagram_source
  recv_data :: "byte list"
  recv_errno :: errno

record PacketReceiver =
  receive_address :: Address
  incoming_buffer :: "byte list"

definition MaxBufferSize :: nat where "MaxBufferSize = 65507"

definition new_receiver :: PacketReceiver where
  "new_receiver = \<lparr>receive_address = empty_address, incoming_buffer = replicate MaxBufferSize 0\<rparr>"

datatype ReceiveResult = Success IncomingPacket | Acknowledgement IncomingPacket | Goodbye | Error | Timeout

definition HandleReceiveError :: "int \<Rightarrow> errno \<Rightarrow> ReceiveResult" where
  "HandleReceiveError result e =
     (if result = 0 then Goodbye
      else let error = GetLastError e in
        if error = ConnectionReset then Goodbye
        else if error = NotConnected then Goodbye
        else if error = NoError then Timeout
        else Error)"

definition IngestPacket ::
  "platform \<Rightarrow> ZCryptoContext option \<Rightarrow> ZPeerMapping \<Rightarrow> Address \<Rightarrow> byte list \<Rightarrow>
   IncomingPacket option \<times> ZCryptoContext option \<times> ZPeerMapping" where
  "IngestPacket P crypto ps addr buffer =
     (case UnpackPacket P crypto buffer of
        (None, crypto) \<Rightarrow> (None, crypto, ps)
      | (Some incoming, crypto) \<Rightarrow>
          (case GetOrCreatePeer addr ps of
             (None, ps) \<Rightarrow> (None, crypto, ps)
           | (Some peer, ps) \<Rightarrow> (Some (incoming\<lparr>source_peer_id := peer_identifier peer\<rparr>), crypto, ps)))"

text \<open>The buffer after \<^verbatim>\<open>recvfrom\<close>, and the size field as \<^verbatim>\<open>memcpy\<close> into a \<^verbatim>\<open>PacketHeader\<close> reads it.\<close>

definition fill_buffer :: "recv_event \<Rightarrow> byte list \<Rightarrow> byte list" where
  "fill_buffer ev buffer =
     (if socket_valid ev \<and> result_code (recv_source ev) > 0 then memcpy_at 0 (recv_data ev) buffer else buffer)"

definition native_packet_size :: "platform \<Rightarrow> byte list \<Rightarrow> u32" where
  "native_packet_size P buffer = host_word (host P) (block_at 4 4 buffer)"

definition ReceivePackets ::
  "platform \<Rightarrow> recv_event \<Rightarrow> ZCryptoContext option \<Rightarrow> ZPeerMapping \<Rightarrow> PacketReceiver \<Rightarrow>
   ReceiveResult \<times> ZCryptoContext option \<times> ZPeerMapping \<times> PacketReceiver" where
  "ReceivePackets P ev crypto ps r =
     (case Receive (socket_valid ev) (recv_source ev) (receive_address r) of (recvResult, addr) \<Rightarrow>
        let r = r\<lparr>receive_address := addr, incoming_buffer := fill_buffer ev (incoming_buffer r)\<rparr> in
        if recvResult \<le> 0 then (HandleReceiveError recvResult (recv_errno ev), crypto, ps, r)
        else if nat recvResult < kPacketHeaderWireSize then (Error, crypto, ps, r)
        else
          let packet_size = unat (native_packet_size P (incoming_buffer r)) in
          if packet_size > MaxBufferSize \<or> packet_size < kPacketHeaderWireSize then (Error, crypto, ps, r)
          else if nat recvResult < packet_size then (Error, crypto, ps, r)
          else
            case IngestPacket P crypto ps addr (take packet_size (incoming_buffer r)) of
              (None, crypto, ps) \<Rightarrow> (Error, crypto, ps, r)
            | (Some incoming, crypto, ps) \<Rightarrow>
                (if ip_type incoming = PacketType_Acknowledgement then Acknowledgement incoming
                 else Success incoming, crypto, ps, r))"

text \<open>What \<^verbatim>\<open>recvfrom\<close> promises: it writes as many bytes as it reports, at most the buffer's size.\<close>

definition recv_lawful :: "recv_event \<Rightarrow> bool" where
  "recv_lawful ev \<longleftrightarrow> (result_code (recv_source ev) > 0 \<longrightarrow>
     result_code (recv_source ev) = int (length (recv_data ev)) \<and> length (recv_data ev) \<le> MaxBufferSize)"

definition receiver_ok :: "PacketReceiver \<Rightarrow> bool" where
  "receiver_ok r \<longleftrightarrow> length (incoming_buffer r) = MaxBufferSize"

definition is_datagram :: "recv_event \<Rightarrow> bool" where
  "is_datagram ev \<longleftrightarrow> socket_valid ev \<and> result_code (recv_source ev) > 0"

lemma fill_buffer_take:
  assumes "is_datagram ev" and "n \<le> length (recv_data ev)"
  shows "take n (fill_buffer ev buffer) = take n (recv_data ev)"
proof -
  have "fill_buffer ev buffer = recv_data ev @ drop (length (recv_data ev)) buffer"
    using assms(1) unfolding fill_buffer_def is_datagram_def memcpy_at_def by simp
  with assms(2) show ?thesis by simp
qed

lemma fill_buffer_length:
  assumes "recv_lawful ev" and "receiver_ok r"
  shows "length (fill_buffer ev (incoming_buffer r)) = MaxBufferSize"
  using assms by (auto simp: fill_buffer_def recv_lawful_def receiver_ok_def)

lemma block_at_take: "off + n \<le> m \<Longrightarrow> block_at off n (take m xs) = block_at off n xs"
  by (simp add: block_at_def drop_take min_def)

lemma fill_buffer_block:
  assumes "is_datagram ev" and "off + n \<le> length (recv_data ev)"
  shows "block_at off n (fill_buffer ev buffer) = block_at off n (recv_data ev)"
  using block_at_take [OF assms(2), of "fill_buffer ev buffer"] fill_buffer_take [OF assms(1) order_refl] by simp

text \<open>The reference: what a datagram from an address means, with no buffer involved.\<close>

definition receive_datagram ::
  "platform \<Rightarrow> ZCryptoContext option \<Rightarrow> ZPeerMapping \<Rightarrow> Address \<Rightarrow> byte list \<Rightarrow>
   ReceiveResult \<times> ZCryptoContext option \<times> ZPeerMapping" where
  "receive_datagram P crypto ps addr data =
     (let n = unat (native_packet_size P data) in
      if length data < 20 \<or> n < 20 \<or> n > length data then (Error, crypto, ps)
      else case UnpackPacket P crypto (take n data) of
             (None, crypto) \<Rightarrow> (Error, crypto, ps)
           | (Some incoming, crypto) \<Rightarrow>
               (case GetOrCreatePeer addr ps of
                  (None, ps) \<Rightarrow> (Error, crypto, ps)
                | (Some peer, ps) \<Rightarrow>
                    let incoming = incoming\<lparr>source_peer_id := peer_identifier peer\<rparr>
                    in (if ip_type incoming = PacketType_Acknowledgement then Acknowledgement incoming
                        else Success incoming, crypto, ps)))"

lemma native_size_take:
  "is_datagram ev \<Longrightarrow> 20 \<le> length (recv_data ev) \<Longrightarrow>
   native_packet_size P (fill_buffer ev buffer) = native_packet_size P (recv_data ev)"
  by (simp add: native_packet_size_def fill_buffer_block)

lemma ReceivePackets_datagram:
  assumes law: "recv_lawful ev" and dg: "is_datagram ev"
    and addr: "addr = snd (Receive (socket_valid ev) (recv_source ev) (receive_address r))"
  shows "ReceivePackets P ev crypto ps r =
    (case receive_datagram P crypto ps addr (recv_data ev) of (res, crypto, ps) \<Rightarrow>
       (res, crypto, ps,
        r\<lparr>receive_address := addr, incoming_buffer := fill_buffer ev (incoming_buffer r)\<rparr>))"
proof -
  have len: "result_code (recv_source ev) = int (length (recv_data ev))" "length (recv_data ev) \<le> MaxBufferSize"
    using law dg by (simp_all add: recv_lawful_def is_datagram_def)
  have recv: "Receive (socket_valid ev) (recv_source ev) (receive_address r) = (int (length (recv_data ev)), addr)"
    using dg addr len(1) by (auto simp: Receive_def is_datagram_def)
  define n where "n = unat (native_packet_size P (recv_data ev))"
  have ne: "recv_data ev \<noteq> []" using dg len(1) by (auto simp: is_datagram_def)
  show ?thesis
  proof (cases "length (recv_data ev) < 20")
    case True
    with ne show ?thesis
      unfolding ReceivePackets_def recv prod.case Let_def receive_datagram_def kPacketHeaderWireSize_def by simp
  next
    case False
    then have size: "unat (native_packet_size P (fill_buffer ev (incoming_buffer r))) = n"
      using native_size_take [OF dg] by (simp add: n_def)
    have cut: "n \<le> length (recv_data ev) \<Longrightarrow> take n (fill_buffer ev (incoming_buffer r)) = take n (recv_data ev)"
      using fill_buffer_take [OF dg] by blast
    show ?thesis
    proof (cases "20 \<le> n \<and> n \<le> length (recv_data ev)")
      case True
      with False len(2) ne show ?thesis
        unfolding ReceivePackets_def recv prod.case Let_def receive_datagram_def IngestPacket_def
          kPacketHeaderWireSize_def n_def [symmetric]
        by (simp add: size cut split: prod.split option.split)
    next
      case bad: False
      with False ne show ?thesis
        unfolding ReceivePackets_def recv prod.case Let_def receive_datagram_def kPacketHeaderWireSize_def
          n_def [symmetric]
        by (auto simp add: size)
    qed
  qed
qed

lemma bit_imp_large: "bit (w :: 'a::len word) n \<Longrightarrow> 2 ^ n \<le> unat w"
proof (rule ccontr)
  assume "bit w n" and "\<not> 2 ^ n \<le> unat w"
  then have "bit (unat w) n" and "unat w div 2 ^ n = 0" by (auto simp: bit_unsigned_iff)
  then show False by (simp add: bit_iff_odd)
qed

lemma swapped_size_large:
  assumes "length bs = 4" and "bytes_word bs \<noteq> (0 :: u32)" and "unat (bytes_word bs :: u32) < 2 ^ 16"
  shows "2 ^ 16 \<le> unat (bytes_word (rev bs) :: u32)"
proof -
  from assms(2) obtain n where n: "bit (bytes_word bs :: u32) n" by (auto simp: bit_eq_iff)
  have low: "n < 16" using bit_imp_large [OF n] assms(3) power_increasing_iff [of "2 :: nat" 16 n] by linarith
  have "\<exists>m \<ge> 16. bit (bytes_word (rev bs) :: u32) m"
  proof (cases "n < 8")
    case True
    then have "(n + 24) mod 8 = n" "(n + 24) div 8 = 3"
      using mod_mult_self1 [of n 3 8] div_mult_self1 [of 8 n 3] by simp_all
    with True n assms(1) show ?thesis by (intro exI [of _ "n + 24"]) (simp add: bit_bytes_word rev_nth)
  next
    case False
    with low have "n div 8 = 1" by (intro div_nat_eqI) simp_all
    then have "(n + 8) div 8 = 2" "(n + 8) mod 8 = n mod 8" by simp_all
    note divs = this \<open>n div 8 = 1\<close>
    with divs n low assms(1) show ?thesis
      by (intro exI [of _ "n + 8"]) (simp add: bit_bytes_word rev_nth)
  qed
  then obtain m where "16 \<le> m" "bit (bytes_word (rev bs) :: u32) m" by blast
  with bit_imp_large [OF this(2)] power_increasing [of 16 m "2 :: nat"] show ?thesis by linarith
qed

subsection \<open>Properties\<close>

text \<open>C16: bytes that earlier, longer datagrams left in the buffer are never read.  What the receiver makes of
  a datagram depends on the datagram, the cryptographic context, the peers and the sender's address as
  the receiver has it (which keeps characters of earlier senders after its terminator), and on nothing
  else: whatever else the buffer holds, result, context and peers are the same.  The buffer keeps its size.\<close>

theorem receive_ignores_stale_bytes:
  assumes law: "recv_lawful ev" and ok: "receiver_ok r" and dg: "is_datagram ev"
  shows "(\<exists>r'. ReceivePackets P ev crypto ps r =
    (case receive_datagram P crypto ps (snd (Receive True (recv_source ev) (receive_address r))) (recv_data ev) of
       (res, crypto, ps) \<Rightarrow> (res, crypto, ps, r')) \<and> receiver_ok r') \<and>
    (\<forall>stale. length stale = length (incoming_buffer r) \<longrightarrow>
       (\<exists>res crypto' ps' r1 r2. ReceivePackets P ev crypto ps r = (res, crypto', ps', r1) \<and>
          ReceivePackets P ev crypto ps (r\<lparr>incoming_buffer := stale\<rparr>) = (res, crypto', ps', r2) \<and>
          receive_address r1 = receive_address r2))"
proof -
  have "receiver_ok (r\<lparr>receive_address := a, incoming_buffer := fill_buffer ev (incoming_buffer r)\<rparr>)" for a
    using fill_buffer_length [OF law ok] by (simp add: receiver_ok_def)
  moreover have "socket_valid ev" using dg by (simp add: is_datagram_def)
  moreover note ReceivePackets_datagram [OF law dg refl, of P crypto ps]
  ultimately show ?thesis by (auto split: prod.split)
qed

definition sample_event :: recv_event where
  "sample_event = \<lparr>socket_valid = True,
     recv_source = \<lparr>result_code = 35, source_family = AF_INET, source_port = 4000,
       source_text = ascii ''10.0.0.1''\<rparr>,
     recv_data = sample_bytes, recv_errno = EAGAIN\<rparr>"

lemma sample_bytes_length: "length sample_bytes = 35"
  by code_simp

lemma sample_event_ok: "recv_lawful sample_event" "is_datagram sample_event" "receiver_ok new_receiver"
  by (simp_all add: recv_lawful_def is_datagram_def sample_event_def sample_bytes_length MaxBufferSize_def
      receiver_ok_def new_receiver_def del: replicate.simps)

theorem receive_ignores_stale_bytes_witness:
  "\<exists>r'. ReceivePackets sample_platform sample_event None new_mapping new_receiver =
    (case receive_datagram sample_platform None new_mapping
       (snd (Receive True (recv_source sample_event) (receive_address new_receiver))) (recv_data sample_event) of
       (res, crypto, ps) \<Rightarrow> (res, crypto, ps, r')) \<and> receiver_ok r'"
  using receive_ignores_stale_bytes [OF sample_event_ok(1,3,2)] by (rule conjunct1)

text \<open>The receiver copies the header into a native structure, although the size field travels in
  little-endian order: a receiver on a big-endian host drops every packet whose size field is a
  legal size.\<close>

theorem big_endian_receiver_drops_all:
  assumes law: "recv_lawful ev" and dg: "is_datagram ev" and host: "host P = BigEndian"
    and size: "20 \<le> length (recv_data ev)" "20 \<le> unat (LoadU32 h (recv_data ev) 4)"
      "unat (LoadU32 h (recv_data ev) 4) \<le> MaxBufferSize"
  shows "\<exists>r'. ReceivePackets P ev crypto ps r = (Error, crypto, ps, r')"
proof -
  let ?bs = "block_at 4 4 (recv_data ev)"
  have v: "LoadU32 h (recv_data ev) 4 = bytes_word ?bs" using size(1) by (simp add: Load_eq)
  have "length (recv_data ev) \<le> MaxBufferSize" using law dg by (simp add: recv_lawful_def is_datagram_def)
  moreover have "2 ^ 16 \<le> unat (native_packet_size P (recv_data ev))"
    unfolding native_packet_size_def host_word_def host endian.case
  proof (rule swapped_size_large)
    show "bytes_word ?bs \<noteq> (0 :: u32)" using size(2) unfolding v by auto
    show "unat (bytes_word ?bs :: u32) < 2 ^ 16" using size(3) unfolding v by (simp add: MaxBufferSize_def)
  qed (use size(1) in simp)
  ultimately have "length (recv_data ev) < unat (native_packet_size P (recv_data ev))"
    by (simp add: MaxBufferSize_def)
  with ReceivePackets_datagram [OF law dg refl, of P crypto ps r] show ?thesis
    by (simp add: receive_datagram_def Let_def)
qed

theorem big_endian_receiver_drops_all_witness:
  "\<exists>r'. ReceivePackets (sample_platform\<lparr>host := BigEndian\<rparr>) sample_event None new_mapping new_receiver =
     (Error, None, new_mapping, r')"
proof -
  have "unat (LoadU32 LittleEndian sample_bytes 4) = 35" by code_simp
  then show ?thesis
    using big_endian_receiver_drops_all [OF sample_event_ok(1,2), of "sample_platform\<lparr>host := BigEndian\<rparr>" LittleEndian]
    by (simp add: sample_event_def sample_bytes_length MaxBufferSize_def)
qed

end
