(* ===== verification/Packet_Queues.thy ===== *)
theory Packet_Queues
  imports Dispatcher Receiver Priority_Queue
begin

text \<open>
  \<^verbatim>\<open>src/znet/z_packet_queues.h\<close> and \<^verbatim>\<open>.cc\<close>: \<^verbatim>\<open>ZPacketQueue\<close>, the heart of the transport.  The record
  extends the dispatcher's state with the channel queues, the receiver, the tasks handed to the
  executor, the deduplication sets of the receiving thread and the rate limiter.  Each iteration of
  the two thread loops is one definition (\<open>outgoing_tick\<close>, \<open>receive_tick\<close>), as is each task the
  executor runs (\<open>run_dispatch_task\<close>); a history is a sequence of these.  Times of the steady clock
  are nanoseconds.  \<open>None\<close> is a memory fault.
\<close>

definition kResendIntervalSeconds :: u32 where "kResendIntervalSeconds = 1"
definition kDropAfterSeconds :: u32 where "kDropAfterSeconds = 5"
definition kMaxDispatchPerChannelPerTick :: nat where "kMaxDispatchPerChannelPerTick = 64"
definition kRetryScanInterval :: int where "kRetryScanInterval = 10 * 10 ^ 6"

record RateLimitConfig =
  max_packets_per_second :: u64
  max_bytes_per_second :: u64
  burst_allowance :: u64

definition default_rate_limit :: RateLimitConfig where
  "default_rate_limit = \<lparr>max_packets_per_second = 1000, max_bytes_per_second = 10 * 1024 * 1024,
     burst_allowance = 2000\<rparr>"

text \<open>The executor in use: the caller's, or the built-in pool with its worker count and queue bound.\<close>

datatype executor = ExternalExecutor nat | BuiltInExecutor nat nat

record ZPacketQueue = PacketDispatcher +
  channel_outgoing_queues :: "PacketChannelType \<Rightarrow> OutgoingPacket PriorityMPSCQueue"
  channel_incoming_queues :: "PacketChannelType \<Rightarrow> IncomingPacket PriorityMPSCQueue"
  channel_outgoing_bytes :: "PacketChannelType \<Rightarrow> u64"
  packet_receiver :: PacketReceiver
  received_reliable_seqs :: "u32 \<Rightarrow> u32 list"
  dispatch_tasks :: "OutgoingPacket list"
  pending_dispatch_tasks :: u64
  dispatch_executor :: "executor option"
  external_dispatch_executor :: "executor option"
  built_in_dispatch_worker_count :: nat
  built_in_dispatch_max_queued_tasks :: nat
  threads_running :: bool
  stop_threads :: bool
  rate_limit_config :: RateLimitConfig
  packets_sent_this_second :: u64
  bytes_sent_this_second :: u64
  burst_tokens :: u64
  rate_limit_window_start :: int
  gc_counter :: u32
  next_retry_scan :: int

definition new_packet_queue :: "int \<Rightarrow> ZPacketQueue" where
  "new_packet_queue now =
     PacketDispatcher.extend (new_dispatcher new_mapping None)
       (ZPacketQueue.fields (\<lambda>_. new_priority_queue) (\<lambda>_. new_priority_queue) (\<lambda>_. 0) new_receiver
          (\<lambda>_. []) [] 0 None None 0 0 False False default_rate_limit 0 0
          (burst_allowance default_rate_limit) now 0 now)"

subsection \<open>Configuration and threads\<close>

definition ConfigureDispatchExecutor ::
  "executor option \<Rightarrow> nat \<Rightarrow> nat \<Rightarrow> 'a ZPacketQueue_scheme \<Rightarrow> 'a ZPacketQueue_scheme" where
  "ConfigureDispatchExecutor executor workers max_queued q =
     (if threads_running q then q
      else q\<lparr>external_dispatch_executor := executor, built_in_dispatch_worker_count := workers,
             built_in_dispatch_max_queued_tasks := max_queued, dispatch_executor := executor\<rparr>)"

definition SetRateLimitConfig :: "RateLimitConfig \<Rightarrow> 'a ZPacketQueue_scheme \<Rightarrow> 'a ZPacketQueue_scheme" where
  "SetRateLimitConfig config q = q\<lparr>rate_limit_config := config\<rparr>"

definition SetCryptoProvider :: "ZCryptoContext option \<Rightarrow> 'a ZPacketQueue_scheme \<Rightarrow> 'a ZPacketQueue_scheme" where
  "SetCryptoProvider crypto q = q\<lparr>crypto_context := crypto\<rparr>"

definition EnsureDispatchExecutor :: "'a ZPacketQueue_scheme \<Rightarrow> 'a ZPacketQueue_scheme" where
  "EnsureDispatchExecutor q =
     (case dispatch_executor q of
        Some _ \<Rightarrow> q
      | None \<Rightarrow> q\<lparr>dispatch_executor := Some (BuiltInExecutor (built_in_dispatch_worker_count q)
                    (built_in_dispatch_max_queued_tasks q))\<rparr>)"

definition StartThreads :: "int \<Rightarrow> 'a ZPacketQueue_scheme \<Rightarrow> bool \<times> 'a ZPacketQueue_scheme" where
  "StartThreads now q =
     (let q = EnsureDispatchExecutor q
      in (True, q\<lparr>stop_threads := False, threads_running := True, next_retry_scan := now,
                  received_reliable_seqs := (\<lambda>_. [])\<rparr>))"

text \<open>
  \<^verbatim>\<open>StopThreads\<close> raises the flag, joins the two threads (except the one it runs on, which stays
  joinable) and waits for the tasks that were handed to the executor: \<open>None\<close> while it waits.  The wait on the
  condition variable is split into steps in \<open>Shutdown\<close>.
\<close>

definition WaitForPendingDispatchTasks :: "'a ZPacketQueue_scheme \<Rightarrow> bool" where
  "WaitForPendingDispatchTasks q \<longleftrightarrow> pending_dispatch_tasks q = 0"

definition StopThreads :: "bool \<Rightarrow> 'a ZPacketQueue_scheme \<Rightarrow> 'a ZPacketQueue_scheme option" where
  "StopThreads on_queue_thread q =
     (let q = q\<lparr>stop_threads := True\<rparr>;
          q = (if on_queue_thread then q else q\<lparr>threads_running := False\<rparr>)
      in if WaitForPendingDispatchTasks q then Some q else None)"

subsection \<open>Rate limiting and the outgoing queues\<close>

definition rate_window :: "int \<Rightarrow> 'a ZPacketQueue_scheme \<Rightarrow> 'a ZPacketQueue_scheme" where
  "rate_window now q =
     (if (now - rate_limit_window_start q) div 10 ^ 9 \<ge> 1 then
        q\<lparr>packets_sent_this_second := 0, bytes_sent_this_second := 0,
          burst_tokens := burst_allowance (rate_limit_config q), rate_limit_window_start := now\<rparr>
      else q)"

definition CheckRateLimit :: "int \<Rightarrow> u64 \<Rightarrow> 'a ZPacketQueue_scheme \<Rightarrow> bool \<times> 'a ZPacketQueue_scheme" where
  "CheckRateLimit now payload_bytes q =
     (let q = rate_window now q;
          current_packets = packets_sent_this_second q;
          current_bytes = bytes_sent_this_second q;
          over = (current_packets \<ge> max_packets_per_second (rate_limit_config q))
      in if over \<and> burst_tokens q = 0 then (False, q)
         else
           let q = (if over then q\<lparr>burst_tokens := burst_tokens q - 1\<rparr> else q)
           in if current_bytes + payload_bytes > max_bytes_per_second (rate_limit_config q) then (False, q)
              else (True, q\<lparr>packets_sent_this_second := packets_sent_this_second q + 1,
                            bytes_sent_this_second := bytes_sent_this_second q + payload_bytes\<rparr>))"

definition Push :: "int \<Rightarrow> OutgoingPacket \<Rightarrow> 'a ZPacketQueue_scheme \<Rightarrow> 'a ZPacketQueue_scheme" where
  "Push now packet q =
     (case CheckRateLimit now (ucast (heap_data_size packet)) q of
        (False, q) \<Rightarrow> q
      | (True, q) \<Rightarrow>
          let channel = op_channel packet;
              payload_bytes = ucast (heap_data_size packet);
              queues = channel_outgoing_queues q
          in q\<lparr>channel_outgoing_queues :=
                 queues(channel := priority_enqueue packet (priority (op_flags packet)) (queues channel)),
               channel_outgoing_bytes :=
                 (channel_outgoing_bytes q)(channel := channel_outgoing_bytes q channel + payload_bytes)\<rparr>)"

definition Pop :: "PacketChannelType \<Rightarrow> 'a ZPacketQueue_scheme \<Rightarrow> IncomingPacket option \<times> 'a ZPacketQueue_scheme" where
  "Pop channel q =
     (let queues = channel_incoming_queues q in
      if \<not> priority_empty (queues channel) then
        (case priority_dequeue (queues channel) of
           (p, queue) \<Rightarrow> (p, q\<lparr>channel_incoming_queues := queues(channel := queue)\<rparr>))
      else (None, q))"

definition GetApproxOutgoingPacketCount :: "PacketChannelType \<Rightarrow> 'a ZPacketQueue_scheme \<Rightarrow> u64" where
  "GetApproxOutgoingPacketCount channel q = priority_size_approx (channel_outgoing_queues q channel)"

definition GetApproxOutgoingBytes :: "PacketChannelType \<Rightarrow> 'a ZPacketQueue_scheme \<Rightarrow> u64" where
  "GetApproxOutgoingBytes channel q = channel_outgoing_bytes q channel"

definition GetApproxAwaitingAckPacketCount :: "'a ZPacketQueue_scheme \<Rightarrow> u64" where
  "GetApproxAwaitingAckPacketCount q = awaiting_ack_packet_count q"

definition GetApproxAwaitingAckBytes :: "'a ZPacketQueue_scheme \<Rightarrow> u64" where
  "GetApproxAwaitingAckBytes q = awaiting_ack_bytes q"

subsection \<open>The sending thread\<close>

fun ProcessChannel ::
  "PacketChannelType \<Rightarrow> nat \<Rightarrow> 'a ZPacketQueue_scheme \<Rightarrow> nat \<times> 'a ZPacketQueue_scheme" where
  "ProcessChannel channel 0 q = (0, q)"
| "ProcessChannel channel (Suc max_packets) q =
     (case priority_dequeue (channel_outgoing_queues q channel) of
        (None, queue) \<Rightarrow> (0, q\<lparr>channel_outgoing_queues := (channel_outgoing_queues q)(channel := queue)\<rparr>)
      | (Some packet, queue) \<Rightarrow>
          let q = q\<lparr>channel_outgoing_queues := (channel_outgoing_queues q)(channel := queue),
                    channel_outgoing_bytes := (channel_outgoing_bytes q)(channel :=
                      SaturatingSub (channel_outgoing_bytes q channel) (ucast (heap_data_size packet))),
                    pending_dispatch_tasks := pending_dispatch_tasks q + 1,
                    dispatch_tasks := dispatch_tasks q @ [packet]\<rparr>
          in case ProcessChannel channel max_packets q of (processed, q) \<Rightarrow> (Suc processed, q))"

definition TrackDispatchTaskCompletion :: "'a ZPacketQueue_scheme \<Rightarrow> 'a ZPacketQueue_scheme" where
  "TrackDispatchTaskCompletion q = q\<lparr>pending_dispatch_tasks := pending_dispatch_tasks q - 1\<rparr>"

text \<open>A worker of the executor runs the \<open>i\<close>th submitted task.\<close>

definition run_dispatch_task ::
  "platform \<Rightarrow> send_env \<Rightarrow> nat \<Rightarrow> 'a ZPacketQueue_scheme \<Rightarrow> 'a ZPacketQueue_scheme option" where
  "run_dispatch_task P env i q =
     (if i < length (dispatch_tasks q) then
        map_option TrackDispatchTaskCompletion
          (DispatchPacket P env (dispatch_tasks q ! i)
             (q\<lparr>dispatch_tasks := take i (dispatch_tasks q) @ drop (Suc i) (dispatch_tasks q)\<rparr>))
      else Some q)"

text \<open>
  The retry scan.  The body of the loop sees the sequence number and the packet in place; it drops
  the packet, sends it again and notes the time, or leaves it.
\<close>

definition retry_body ::
  "platform \<Rightarrow> send_env \<Rightarrow> u32 \<Rightarrow> u32 \<Rightarrow> OutgoingPacket \<Rightarrow> 'a ZPacketQueue_scheme \<Rightarrow>
   'a ZPacketQueue_scheme \<times> OutgoingPacket option" where
  "retry_body P env now seqNum packet q =
     (let packet_age = now - last_send_time packet in
      if packet_age > kDropAfterSeconds then
        (q\<lparr>awaiting_ack_packet_count := SaturatingSub (awaiting_ack_packet_count q) 1,
           awaiting_ack_bytes := SaturatingSub (awaiting_ack_bytes q) (ucast (heap_data_size packet))\<rparr>, None)
      else if packet_age > kResendIntervalSeconds then
        (case RetransmitPacket P env packet seqNum q of
           (packet, q) \<Rightarrow> (q, Some (packet\<lparr>last_send_time := now\<rparr>)))
      else (q, Some packet))"

definition retry_scan ::
  "platform \<Rightarrow> send_env \<Rightarrow> u32 \<Rightarrow> 'a ZPacketQueue_scheme \<Rightarrow> 'a ZPacketQueue_scheme option" where
  "retry_scan P env now q =
     map_option (\<lambda>(q, m). q\<lparr>awaiting_ack_packets := m\<rparr>)
       (for_each_entry (std_hash env) (retry_body P env now) q (awaiting_ack_packets q))"

definition outgoing_tick ::
  "platform \<Rightarrow> send_env \<Rightarrow> int \<Rightarrow> u64 \<Rightarrow> 'a ZPacketQueue_scheme \<Rightarrow> 'a ZPacketQueue_scheme option" where
  "outgoing_tick P env now_tp unix q =
     (let q = snd (ProcessChannel Control kMaxDispatchPerChannelPerTick q);
          q = snd (ProcessChannel Data kMaxDispatchPerChannelPerTick q);
          gc = (gc_counter q mod 1000 = 0);
          q = q\<lparr>gc_counter := gc_counter q + 1\<rparr>
      in case (if gc then collect_garbage (awaiting_ack_packets q) else Some (awaiting_ack_packets q)) of
           None \<Rightarrow> None
         | Some m \<Rightarrow>
             let q = q\<lparr>awaiting_ack_packets := m\<rparr> in
             if now_tp \<ge> next_retry_scan q then
               map_option (\<lambda>q. q\<lparr>next_retry_scan := now_tp + kRetryScanInterval\<rparr>)
                 (retry_scan P env (ucast unix) q)
             else Some q)"

subsection \<open>The receiving thread\<close>

text \<open>The acknowledgement of a sequence number by a peer.\<close>

definition acknowledge ::
  "send_env \<Rightarrow> u32 \<Rightarrow> u32 \<Rightarrow> 'a PacketDispatcher_scheme \<Rightarrow> 'a PacketDispatcher_scheme option" where
  "acknowledge env peer_id seq d =
     (case with_value (std_hash env) seq
             (\<lambda>packet. (destination_peer_id packet = peer_id \<or> destination_peer_id packet = to_server \<or>
                        destination_peer_id packet = to_all, heap_data_size packet))
             (awaiting_ack_packets d) of
        None \<Rightarrow> None
      | Some None \<Rightarrow> Some d
      | Some (Some (destination_matches, sz)) \<Rightarrow>
          if destination_matches then
            let d = d\<lparr>awaiting_ack_bytes := SaturatingSub (awaiting_ack_bytes d) (ucast sz)\<rparr>
            in map_option (\<lambda>(_, m). d\<lparr>awaiting_ack_packets := m,
                   awaiting_ack_packet_count := SaturatingSub (awaiting_ack_packet_count d) 1\<rparr>)
                 (remove_map (std_hash env) seq (awaiting_ack_packets d))
          else Some d)"

definition ack_flags :: "bool \<Rightarrow> PackageFlags" where
  "ack_flags use_encryption =
     \<lparr>reliable = False, encrypted = use_encryption, compressed = False, priority = High,
      acknowledged = True, awaiting_ack = False, reserved = False\<rparr>"

definition ack_packet :: "platform \<Rightarrow> u64 \<Rightarrow> bool \<Rightarrow> u32 \<Rightarrow> u32 \<Rightarrow> OutgoingPacket" where
  "ack_packet P block use_encryption return_address seq =
     OutgoingPacket_with_data block return_address PacketType_Acknowledgement Control
       (ack_flags use_encryption) (StoreU32 (host P) 0 seq [0, 0, 0, 0])"

definition AddAwaitingAckPacket ::
  "platform \<Rightarrow> send_env \<Rightarrow> u64 \<Rightarrow> u32 \<Rightarrow> u32 \<Rightarrow> u32 \<Rightarrow> 'a ZPacketQueue_scheme \<Rightarrow>
   'a ZPacketQueue_scheme option" where
  "AddAwaitingAckPacket P env block return_address seq ack_number q =
     (let out = ack_packet P block (crypto_context q \<noteq> None) return_address seq;
          queues = channel_outgoing_queues q;
          q = q\<lparr>channel_outgoing_queues := queues(Control := priority_enqueue out High (queues Control))\<rparr>
      in if ack_number = 0 then Some q
         else acknowledge env return_address ack_number q)"

text \<open>
  One iteration of \<^verbatim>\<open>ProcessReceiving\<close>: the packet it delivers to its channel queue, if any, and the
  new state.
\<close>

definition deliver :: "IncomingPacket \<Rightarrow> 'a ZPacketQueue_scheme \<Rightarrow> 'a ZPacketQueue_scheme" where
  "deliver pack q =
     q\<lparr>channel_incoming_queues := (channel_incoming_queues q)(ip_channel pack :=
         priority_enqueue pack (priority (ip_flags pack)) (channel_incoming_queues q (ip_channel pack)))\<rparr>"

definition handle_success ::
  "platform \<Rightarrow> send_env \<Rightarrow> u64 \<Rightarrow> IncomingPacket \<Rightarrow> 'a ZPacketQueue_scheme \<Rightarrow>
   (IncomingPacket option \<times> 'a ZPacketQueue_scheme) option" where
  "handle_success P env block pack q =
     (if reliable (ip_flags pack) then
        (case AddAwaitingAckPacket P env block (source_peer_id pack) (sequence_number pack)
                (acknowledgement_number pack) q of
           None \<Rightarrow> None
         | Some q \<Rightarrow>
             let seen = received_reliable_seqs q (source_peer_id pack) in
             if sequence_number pack \<in> set seen then Some (None, q)
             else Some (Some pack, deliver pack
                    (q\<lparr>received_reliable_seqs :=
                         (received_reliable_seqs q)(source_peer_id pack := sequence_number pack # seen)\<rparr>)))
      else Some (Some pack, deliver pack q))"

definition receive_tick ::
  "platform \<Rightarrow> send_env \<Rightarrow> u64 \<Rightarrow> recv_event \<Rightarrow> 'a ZPacketQueue_scheme \<Rightarrow>
   (IncomingPacket option \<times> 'a ZPacketQueue_scheme) option" where
  "receive_tick P env block ev q =
     (if stop_threads q then Some (None, q)
      else case ReceivePackets P ev (crypto_context q) (peers q) (packet_receiver q) of
        (result, crypto, ps, r) \<Rightarrow>
          let q = q\<lparr>crypto_context := crypto, peers := ps, packet_receiver := r\<rparr> in
          (case result of
             Success pack \<Rightarrow> handle_success P env block pack q
           | Acknowledgement pack \<Rightarrow>
               if length (ip_data pack) \<ge> 4 then
                 map_option (\<lambda>q. (None, q))
                   (acknowledge env (source_peer_id pack) (LoadU32 (host P) (ip_data pack) 0) q)
               else Some (None, q)
           | Goodbye \<Rightarrow> Some (None, q\<lparr>stop_threads := True\<rparr>)
           | Error \<Rightarrow> Some (None, q)
           | Timeout \<Rightarrow> Some (None, q)))"

end
