(* ===== verification/Rate_Limit.thy ===== *)
theory Rate_Limit
  imports Packet_Queues
begin

text \<open>
  The rate limiter of \<^verbatim>\<open>ZPacketQueue\<close> (\<^verbatim>\<open>src/znet/z_packet_queues.cc\<close>, \<^verbatim>\<open>CheckRateLimit\<close>) over
  sequences of calls.
\<close>

text \<open>The calls that were admitted, each with the start of the window it counts in and its size.\<close>

fun rate_run :: "(int \<times> u32) list \<Rightarrow> 'a ZPacketQueue_scheme \<Rightarrow> (int \<times> nat) list \<times> 'a ZPacketQueue_scheme" where
  "rate_run [] q = ([], q)"
| "rate_run ((now, b) # calls) q =
     (case CheckRateLimit now (ucast b) q of
        (admitted, q) \<Rightarrow>
          (case rate_run calls q of
             (rest, q') \<Rightarrow> (if admitted then (rate_limit_window_start q, unat b) # rest else rest, q')))"

definition in_window :: "int \<Rightarrow> (int \<times> nat) list \<Rightarrow> (int \<times> nat) list" where
  "in_window w calls = filter (\<lambda>(s, _). s = w) calls"

definition window_bytes :: "int \<Rightarrow> (int \<times> nat) list \<Rightarrow> nat" where
  "window_bytes w calls = sum_list (map snd (in_window w calls))"

text \<open>The limits, small enough that the 64-bit counters cannot wrap.\<close>

definition sane_limits :: "RateLimitConfig \<Rightarrow> bool" where
  "sane_limits c \<longleftrightarrow> unat (max_packets_per_second c) + unat (burst_allowance c) < 2 ^ 64 \<and>
     unat (max_bytes_per_second c) + 2 ^ 32 \<le> 2 ^ 64"

definition within_limits :: "RateLimitConfig \<Rightarrow> (int \<times> nat) list \<Rightarrow> bool" where
  "within_limits c calls \<longleftrightarrow> (\<forall>w. length (in_window w calls) \<le> unat (max_packets_per_second c) + unat (burst_allowance c) \<and>
     window_bytes w calls \<le> unat (max_bytes_per_second c))"

definition rate_inv :: "'a ZPacketQueue_scheme \<Rightarrow> (int \<times> nat) list \<Rightarrow> bool" where
  "rate_inv q calls \<longleftrightarrow>
     (let w = rate_limit_window_start q; c = rate_limit_config q in
      (\<forall>e \<in> set calls. fst e \<le> w) \<and> within_limits c calls \<and>
      packets_sent_this_second q = of_nat (length (in_window w calls)) \<and>
      bytes_sent_this_second q = of_nat (window_bytes w calls) \<and>
      length (in_window w calls) + unat (burst_tokens q) \<le>
        unat (max_packets_per_second c) + unat (burst_allowance c) \<and>
      unat (burst_tokens q) \<le> unat (burst_allowance c))"

lemma in_window_simps [simp]:
  "in_window w [] = []" "in_window w (xs @ ys) = in_window w xs @ in_window w ys"
  "in_window w (x # xs) = (if fst x = w then x # in_window w xs else in_window w xs)"
  "window_bytes w [] = 0" "window_bytes w (xs @ ys) = window_bytes w xs + window_bytes w ys"
  "window_bytes w (x # xs) = (if fst x = w then snd x else 0) + window_bytes w xs"
  by (auto simp: in_window_def window_bytes_def)

lemma in_window_later: "\<forall>e \<in> set calls. fst e < w \<Longrightarrow> in_window w calls = [] \<and> window_bytes w calls = 0"
  by (auto simp: in_window_def window_bytes_def filter_empty_conv)

lemma rate_window_inv:
  assumes "rate_inv q calls"
  shows "rate_inv (rate_window now q) calls \<and> rate_limit_config (rate_window now q) = rate_limit_config q"
proof (cases "(now - rate_limit_window_start q) div 10 ^ 9 \<ge> 1")
  case True
  then have "rate_limit_window_start q < now"
    using pos_imp_zdiv_pos_iff [of "10 ^ 9" "now - rate_limit_window_start q"] by simp
  moreover have "\<forall>e \<in> set calls. fst e \<le> rate_limit_window_start q" using assms by (simp add: rate_inv_def Let_def)
  ultimately have "\<forall>e \<in> set calls. fst e < now" by fastforce
  with in_window_later [OF this] True assms show ?thesis
    by (auto simp: rate_window_def rate_inv_def Let_def)
qed (use assms in \<open>simp add: rate_window_def\<close>)

lemma unat_ucast_u64: "unat (ucast (b :: u32) :: u64) = unat b"
  using unat_bound [of b] by (simp add: unsigned_ucast_eq take_bit_nat_eq_self)

lemma CheckRateLimit_inv:
  assumes inv: "rate_inv q calls" and sane: "sane_limits (rate_limit_config q)"
    and c: "CheckRateLimit now (ucast (b :: u32)) q = (admitted, q')"
  shows "rate_inv q' (calls @ (if admitted then [(rate_limit_window_start q', unat b)] else [])) \<and>
    rate_limit_config q' = rate_limit_config q"
proof -
  let ?q = "rate_window now q"
  let ?w = "rate_limit_window_start ?q" and ?cfg = "rate_limit_config q"
  let ?n = "length (in_window ?w calls)" and ?y = "window_bytes ?w calls"
  from rate_window_inv [OF inv, of now] have inv': "rate_inv ?q calls" and cfg: "rate_limit_config ?q = ?cfg" by auto
  have st: "\<forall>e \<in> set calls. fst e \<le> ?w" "within_limits ?cfg calls"
    "packets_sent_this_second ?q = of_nat ?n" "bytes_sent_this_second ?q = of_nat ?y"
    "?n + unat (burst_tokens ?q) \<le> unat (max_packets_per_second ?cfg) + unat (burst_allowance ?cfg)"
    "unat (burst_tokens ?q) \<le> unat (burst_allowance ?cfg)"
    using inv' unfolding rate_inv_def Let_def cfg by auto
  have n: "?n < 2 ^ 64" using st(5) sane by (simp add: sane_limits_def)
  have y: "?y \<le> unat (max_bytes_per_second ?cfg)" using st(2) by (simp add: within_limits_def)
  have sum: "unat (of_nat ?y + ucast b :: u64) = ?y + unat b"
    using y sane unat_bound [of b] by (simp add: sane_limits_def unat_word_ariths unat_of_nat unat_ucast_u64)
  let ?over = "of_nat ?n \<ge> max_packets_per_second ?cfg"
  have over: "?over \<longleftrightarrow> ?n \<ge> unat (max_packets_per_second ?cfg)"
    using n by (simp add: word_le_nat_alt unat_of_nat)
  have full: "of_nat ?y + ucast b > max_bytes_per_second ?cfg \<longleftrightarrow> ?y + unat b > unat (max_bytes_per_second ?cfg)"
    unfolding word_less_nat_alt sum ..
  have tok: "burst_tokens ?q \<noteq> 0 \<Longrightarrow> unat (burst_tokens ?q - 1) = unat (burst_tokens ?q) - 1"
    by (simp add: unat_minus_one)
  have keep: "rate_inv (r\<lparr>burst_tokens := t\<rparr>) calls" if "rate_inv r calls" "unat t \<le> unat (burst_tokens r)"
    for r :: "'a ZPacketQueue_scheme" and t using that by (auto simp: rate_inv_def Let_def)
  define r where "r = (if ?over then ?q\<lparr>burst_tokens := burst_tokens ?q - 1\<rparr> else ?q)"
  have check: "CheckRateLimit now (ucast b) q =
      (if ?over \<and> burst_tokens ?q = 0 then (False, ?q)
       else if of_nat ?y + ucast b > max_bytes_per_second ?cfg then (False, r)
       else (True, r\<lparr>packets_sent_this_second := of_nat ?n + 1, bytes_sent_this_second := of_nat ?y + ucast b\<rparr>))"
    unfolding CheckRateLimit_def Let_def r_def by (simp add: st(3,4) cfg)
  show ?thesis
  proof (cases "?over \<and> burst_tokens ?q = 0")
    case True
    then have "(admitted, q') = (False, ?q)" using c unfolding check by simp
    with inv' cfg show ?thesis by simp
  next
    case False
    then have tokens: "unat (burst_tokens r) \<le> unat (burst_tokens ?q)"
      "?n + 1 + unat (burst_tokens r) \<le> unat (max_packets_per_second ?cfg) + unat (burst_allowance ?cfg)"
      using st(5,6) over tok unfolding r_def by (auto simp: unat_eq_0 Suc_le_eq word_neq_0_conv word_less_nat_alt)
    have r: "rate_inv r calls" "rate_limit_config r = ?cfg" "rate_limit_window_start r = ?w"
      using keep [OF inv'] tokens(1) inv' cfg unfolding r_def by (auto split: if_splits)
    show ?thesis
    proof (cases "of_nat ?y + ucast b > max_bytes_per_second ?cfg")
      case True
      have "(admitted, q') = (False, r)" using c unfolding check if_not_P [OF False] if_P [OF True] by simp
      with r show ?thesis by simp
    next
      case fits: False
      let ?r = "r\<lparr>packets_sent_this_second := of_nat ?n + 1, bytes_sent_this_second := of_nat ?y + ucast b\<rparr>"
      have "within_limits ?cfg (calls @ [(?w, unat b)])"
        using st(2) fits full tokens(2) by (auto simp: within_limits_def)
      then have "rate_inv ?r (calls @ [(?w, unat b)])"
        using st(1,6) tokens r(2,3) by (auto simp: rate_inv_def Let_def)
      moreover have "(admitted, q') = (True, ?r)"
        using c unfolding check if_not_P [OF False] if_not_P [OF fits] by simp
      ultimately show ?thesis using r(2,3) by simp
    qed
  qed
qed

lemma rate_run_inv:
  "rate_inv q calls \<Longrightarrow> sane_limits (rate_limit_config q) \<Longrightarrow> rate_run attempts q = (admitted, q') \<Longrightarrow>
   rate_inv q' (calls @ admitted) \<and> rate_limit_config q' = rate_limit_config q"
proof (induction attempts arbitrary: q calls admitted)
  case (Cons a attempts)
  obtain now b where a: "a = (now, b)" by fastforce
  obtain ok q1 rest where c: "CheckRateLimit now (ucast b) q = (ok, q1)" "rate_run attempts q1 = (rest, q')"
    "admitted = (if ok then (rate_limit_window_start q1, unat b) # rest else rest)"
    using Cons.prems(3) a by (auto split: prod.splits)
  let ?new = "if ok then [(rate_limit_window_start q1, unat b)] else []"
  have "rate_inv q1 (calls @ ?new)" "rate_limit_config q1 = rate_limit_config q"
    using CheckRateLimit_inv [OF Cons.prems(1,2) c(1)] by auto
  from Cons.IH [OF this(1) _ c(2)] this(2) Cons.prems(2) have
    "rate_inv q' ((calls @ ?new) @ rest)" "rate_limit_config q' = rate_limit_config q" by simp_all
  then show ?case unfolding c(3) by (cases ok) simp_all
qed simp

definition fresh_window :: "'a ZPacketQueue_scheme \<Rightarrow> bool" where
  "fresh_window q \<longleftrightarrow> packets_sent_this_second q = 0 \<and> bytes_sent_this_second q = 0 \<and>
     burst_tokens q \<le> burst_allowance (rate_limit_config q)"

subsection \<open>Properties\<close>

text \<open>C18: in every window of the rate limiter, whatever calls are made and when, at most the configured
  number of packets plus the burst allowance is admitted, and never more than the configured number
  of bytes.\<close>

theorem rate_limit_bounds:
  assumes "fresh_window q" and "sane_limits (rate_limit_config q)"
    and "rate_run attempts q = (admitted, q')"
  shows "length (in_window w admitted) \<le>
      unat (max_packets_per_second (rate_limit_config q)) + unat (burst_allowance (rate_limit_config q)) \<and>
    window_bytes w admitted \<le> unat (max_bytes_per_second (rate_limit_config q))"
proof -
  have "rate_inv q []" using assms(1)
    by (simp add: rate_inv_def Let_def fresh_window_def within_limits_def word_le_nat_alt)
  from rate_run_inv [OF this assms(2,3)] have "rate_inv q' admitted" "rate_limit_config q' = rate_limit_config q"
    by simp_all
  then show ?thesis unfolding rate_inv_def within_limits_def Let_def by auto
qed

theorem rate_limit_bounds_witness:
  "length (in_window 0 (fst (rate_run [(1, 100), (2, 100), (2000000000, 5)] (new_packet_queue 0)))) \<le> 3000"
proof -
  let ?q = "new_packet_queue 0" and ?calls = "[(1, 100), (2, 100), (2000000000, 5)] :: (int \<times> u32) list"
  have cfg: "rate_limit_config ?q = default_rate_limit"
    by (simp add: new_packet_queue_def PacketDispatcher.defs ZPacketQueue.defs new_dispatcher_def)
  have "fresh_window ?q"
    by (simp add: fresh_window_def new_packet_queue_def PacketDispatcher.defs ZPacketQueue.defs new_dispatcher_def)
  moreover have "sane_limits default_rate_limit" by (simp add: sane_limits_def default_rate_limit_def)
  ultimately show ?thesis
    using rate_limit_bounds [of ?q ?calls "fst (rate_run ?calls ?q)" "snd (rate_run ?calls ?q)" 0] cfg
    by (simp add: default_rate_limit_def)
qed

end
