(* ===== verification/Queue_Laws.thy ===== *)
theory Queue_Laws
  imports Packet_Queues "HOL-Library.Multiset"
begin

text \<open>
  The laws of \<^verbatim>\<open>ZPacketQueue\<close>: its invariant, which every operation keeps; the rate limiter's
  bounds; exactly-once delivery of reliable packets; acknowledgements across two hosts; and the
  retry scan.
\<close>

subsection \<open>The invariant\<close>

definition queue_inv :: "(u32 \<Rightarrow> nat) \<Rightarrow> 'a ZPacketQueue_scheme \<Rightarrow> bool" where
  "queue_inv hash q \<longleftrightarrow> receipts_ok hash q \<and> (\<forall>c. priority_ok (channel_outgoing_queues q c)) \<and>
     (\<forall>c. priority_ok (channel_incoming_queues q c)) \<and> receiver_ok (packet_receiver q) \<and>
     pending_dispatch_tasks q = of_nat (length (dispatch_tasks q))"

lemma queue_invD:
  assumes "queue_inv hash q"
  shows "receipts_ok hash q" "priority_ok (channel_outgoing_queues q c)"
    "priority_ok (channel_incoming_queues q c)" "receiver_ok (packet_receiver q)"
    "pending_dispatch_tasks q = of_nat (length (dispatch_tasks q))"
  using assms by (simp_all add: queue_inv_def)

lemma queue_inv_new: "queue_inv hash (new_packet_queue now)"
  by (simp add: queue_inv_def new_packet_queue_def new_dispatcher_def PacketDispatcher.defs ZPacketQueue.defs
      receipts_ok_def map_inv_new receiver_ok_def new_receiver_def)

text \<open>The dispatcher and the receiver leave the rest of the queue alone.\<close>

lemma queue_extension:
  assumes "PacketDispatcher.more q' = PacketDispatcher.more q"
  shows "channel_outgoing_queues q' = channel_outgoing_queues q"
    "channel_incoming_queues q' = channel_incoming_queues q" "packet_receiver q' = packet_receiver q"
    "channel_outgoing_bytes q' = channel_outgoing_bytes q"
    "received_reliable_seqs q' = received_reliable_seqs q"
    "dispatch_tasks q' = dispatch_tasks q" "pending_dispatch_tasks q' = pending_dispatch_tasks q"
    "stop_threads q' = stop_threads q"
  using assms by (cases q; cases q'; simp)+

lemma queue_inv_dispatcher:
  assumes "queue_inv hash q" and "receipts_ok hash q'" and "PacketDispatcher.more q' = PacketDispatcher.more q"
  shows "queue_inv hash q'"
  using assms queue_extension [OF assms(3)] by (simp add: queue_inv_def)

subsection \<open>Acknowledgements\<close>

definition destined :: "u32 \<Rightarrow> OutgoingPacket \<Rightarrow> bool" where
  "destined peer_id packet \<longleftrightarrow> destination_peer_id packet = peer_id \<or>
     destination_peer_id packet = to_server \<or> destination_peer_id packet = to_all"

lemma remove_key_total:
  assumes "distinct (map fst es)" and "map_of es k = Some v"
  shows "payload_total es = unat (heap_data_size v) + payload_total (filter (\<lambda>(k', _). k' \<noteq> k) es)"
    and "length es = Suc (length (filter (\<lambda>(k', _). k' \<noteq> k) es))"
proof -
  have "payload_total es = unat (heap_data_size v) + payload_total (filter (\<lambda>(k', _). k' \<noteq> k) es) \<and>
    length es = Suc (length (filter (\<lambda>(k', _). k' \<noteq> k) es))"
    using assms
  proof (induction es)
    case (Cons e es)
    obtain k' v' where e: "e = (k', v')" by fastforce
    show ?case
    proof (cases "k' = k")
      case True
      with Cons.prems(1) e have "filter (\<lambda>(k', _). k' \<noteq> k) es = es" by (auto simp: filter_id_conv rev_image_eqI)
      with True e Cons.prems(2) show ?thesis by simp
    next
      case False
      with Cons e show ?thesis by simp
    qed
  qed simp
  then show "payload_total es = unat (heap_data_size v) + payload_total (filter (\<lambda>(k', _). k' \<noteq> k) es)"
    and "length es = Suc (length (filter (\<lambda>(k', _). k' \<noteq> k) es))" by auto
qed

text \<open>Nothing but the map of unacknowledged packets and its counters changed.\<close>

definition only_receipts :: "'a PacketDispatcher_scheme \<Rightarrow> 'a PacketDispatcher_scheme \<Rightarrow> bool" where
  "only_receipts d d' \<longleftrightarrow> (\<exists>m n b. d' = d\<lparr>awaiting_ack_packets := m, awaiting_ack_packet_count := n,
     awaiting_ack_bytes := b\<rparr>)"

lemma only_receipts_upd [simp]:
  "only_receipts d d"
  "only_receipts d (d\<lparr>awaiting_ack_packets := m, awaiting_ack_packet_count := n, awaiting_ack_bytes := b\<rparr>)"
  unfolding only_receipts_def
  by (rule exI [of _ "awaiting_ack_packets d"], rule exI [of _ "awaiting_ack_packet_count d"],
      rule exI [of _ "awaiting_ack_bytes d"], simp) blast

lemma only_receiptsD:
  assumes "only_receipts d d'"
  shows "next_outgoing_sequence_number d' = next_outgoing_sequence_number d" "peers d' = peers d"
    "crypto_context d' = crypto_context d" "datagrams d' = datagrams d"
    "PacketDispatcher.more d' = PacketDispatcher.more d"
  using assms by (auto simp: only_receipts_def)

lemma acknowledge_spec:
  assumes ok: "receipts_ok (std_hash env) d"
  shows "\<exists>d'. acknowledge env peer_id seq d = Some d' \<and> receipts_ok (std_hash env) d' \<and> only_receipts d d' \<and>
    unacknowledged d' = filter (\<lambda>(k, v). \<not> (k = seq \<and> destined peer_id v)) (unacknowledged d)"
proof -
  let ?m = "awaiting_ack_packets d" and ?es = "unacknowledged d"
  have inv: "map_inv (std_hash env) ?m" and cnt: "awaiting_ack_packet_count d = of_nat (length ?es)"
    "awaiting_ack_bytes d = of_nat (payload_total ?es)" using ok by (simp_all add: receipts_ok_def)
  note dist = map_inv_distinct [OF inv]
  have keep: "filter (\<lambda>(k, v). \<not> (k = seq \<and> destined peer_id v)) ?es = ?es"
    if "\<And>v. (seq, v) \<in> set ?es \<Longrightarrow> \<not> destined peer_id v" using that by (auto simp: filter_id_conv)
  show ?thesis
  proof (cases "map_of ?es seq")
    case None
    then have "(seq, v) \<notin> set ?es" for v using weak_map_of_SomeI [of seq v ?es] by auto
    moreover have "acknowledge env peer_id seq d = Some d"
      using None by (simp add: acknowledge_def with_value_spec [OF inv])
    ultimately show ?thesis using ok keep by simp
  next
    case (Some v)
    have uniq: "(seq, w) \<in> set ?es \<Longrightarrow> w = v" for w
      using Some map_of_is_SomeI [OF dist] by (metis option.inject)
    show ?thesis
    proof (cases "destined peer_id v")
      case False
      then have "acknowledge env peer_id seq d = Some d"
        using Some by (simp add: acknowledge_def with_value_spec [OF inv] destined_def)
      moreover have "filter (\<lambda>(k, v). \<not> (k = seq \<and> destined peer_id v)) ?es = ?es"
        using keep uniq False by blast
      ultimately show ?thesis using ok by simp
    next
      case True
      note tot = remove_key_total [OF dist Some] and bound = payload_total_bound [OF dist]
      from hm.rem_law [OF inv, of seq] obtain m' where m': "remove_map (std_hash env) seq ?m = Some (True, m')"
        "map_inv (std_hash env) m'" "live_entries m' = filter (\<lambda>(k', _). k' \<noteq> seq) ?es"
        using weak_map_of_SomeI [OF map_of_SomeD [OF Some]] map_of_SomeD [OF Some] by force
      have flt: "filter (\<lambda>(k', _). k' \<noteq> seq) ?es = filter (\<lambda>(k, v). \<not> (k = seq \<and> destined peer_id v)) ?es"
        by (intro filter_cong refl) (use uniq True in auto)
      have n: "SaturatingSub (awaiting_ack_packet_count d) 1 = of_nat (length (live_entries m'))"
        using SaturatingSub_nat [of 1 "length ?es"] tot(2) bound(2) by (simp add: cnt m'(3))
      have b: "SaturatingSub (awaiting_ack_bytes d) (ucast (heap_data_size v)) = of_nat (payload_total (live_entries m'))"
        using SaturatingSub_nat [of "unat (heap_data_size v)" "payload_total ?es"] tot(1) bound(1)
        by (simp add: cnt m'(3))
      have "acknowledge env peer_id seq d =
          Some (d\<lparr>awaiting_ack_packets := m', awaiting_ack_packet_count := of_nat (length (live_entries m')),
             awaiting_ack_bytes := of_nat (payload_total (live_entries m'))\<rparr>)"
        using Some True m'(1) n b
        by (simp add: acknowledge_def with_value_spec [OF inv] destined_def Let_def)
      then show ?thesis using m'(2,3) flt by (simp add: receipts_ok_def)
    qed
  qed
qed

subsection \<open>The retry scan\<close>

lemma for_each_cong:
  assumes body: "\<And>k v s. I s \<Longrightarrow> body k v s = body' k v s \<and> I (fst (body' k v s))"
  shows "I s \<Longrightarrow> for_each hash body fuel it (s, m) = for_each hash body' fuel it (s, m)"
proof (induction fuel arbitrary: it s m)
  case (Suc fuel)
  show ?case
  proof (cases "currentNode it")
    case (Some a)
    show ?thesis
    proof (cases "node_heap m a")
      case nd: (Some nd)
      obtain s' act where b: "body' (node_key nd) (node_value nd) s = (s', act)" by fastforce
      with body [OF Suc.prems, of "node_key nd" "node_value nd"] have
        "body (node_key nd) (node_value nd) s = (s', act)" "I s'" by auto
      with b Some nd Suc.IH [OF \<open>I s'\<close>] show ?thesis by (simp split: option.split)
    qed (use Some in simp)
  qed simp
qed simp

definition packet_age :: "u32 \<Rightarrow> OutgoingPacket \<Rightarrow> u32" where
  "packet_age now packet = now - last_send_time packet"

definition copies_sent :: "ZPeerMapping \<Rightarrow> OutgoingPacket \<Rightarrow> nat" where
  "copies_sent ps packet =
     (if destination_peer_id packet = to_server then 1
      else if destination_peer_id packet = to_all then length (peer_list ps)
      else if GetPeer (destination_peer_id packet) ps = None then 0 else 1)"

text \<open>What the scan decides for an entry.\<close>

definition retry_action :: "platform \<Rightarrow> u32 \<Rightarrow> ZPeerMapping \<Rightarrow> OutgoingPacket \<Rightarrow> OutgoingPacket option" where
  "retry_action P now ps packet =
     (if packet_age now packet > kDropAfterSeconds then None
      else if packet_age now packet > kResendIntervalSeconds then
        Some ((retransmitted P (copies_sent ps packet) packet)\<lparr>last_send_time := now\<rparr>)
      else Some packet)"

definition after_retry ::
  "platform \<Rightarrow> u32 \<Rightarrow> ZPeerMapping \<Rightarrow> (u32 \<times> OutgoingPacket) list \<Rightarrow> (u32 \<times> OutgoingPacket) list" where
  "after_retry P now ps es = concat (map (\<lambda>(k, v). case retry_action P now ps v of
     Some v' \<Rightarrow> [(k, v')] | None \<Rightarrow> []) es)"

definition dropped ::
  "platform \<Rightarrow> u32 \<Rightarrow> ZPeerMapping \<Rightarrow> (u32 \<times> OutgoingPacket) list \<Rightarrow> (u32 \<times> OutgoingPacket) list" where
  "dropped P now ps es = filter (\<lambda>(k, v). retry_action P now ps v = None) es"

lemma retry_action_size: "retry_action P now ps v = Some v' \<Longrightarrow> heap_data_size v' = heap_data_size v"
  by (auto simp: retry_action_def split: if_splits)

lemma after_retry_total:
  "length (after_retry P now ps es) + length (dropped P now ps es) = length es"
  "payload_total (after_retry P now ps es) + payload_total (dropped P now ps es) = payload_total es"
  by (induction es) (auto simp: after_retry_def dropped_def retry_action_size split: option.split)

lemma retry_body_spec:
  assumes "retry_body P env now k v q = (q', act)"
  shows "act = retry_action P now (peers q) v" "peers q' = peers q"
    "PacketDispatcher.more q' = PacketDispatcher.more q"
    "next_outgoing_sequence_number q' = next_outgoing_sequence_number q"
    "awaiting_ack_packet_count q' = (if act = None then SaturatingSub (awaiting_ack_packet_count q) 1
       else awaiting_ack_packet_count q)"
    "awaiting_ack_bytes q' = (if act = None then SaturatingSub (awaiting_ack_bytes q) (ucast (heap_data_size v))
       else awaiting_ack_bytes q)"
proof -
  obtain v' d where r: "RetransmitPacket P env v k q = (v', d)" by fastforce
  note frame = RetransmitPacket_frame [OF r, folded copies_sent_def]
  show "act = retry_action P now (peers q) v" "peers q' = peers q"
    "PacketDispatcher.more q' = PacketDispatcher.more q"
    "next_outgoing_sequence_number q' = next_outgoing_sequence_number q"
    "awaiting_ack_packet_count q' = (if act = None then SaturatingSub (awaiting_ack_packet_count q) 1
       else awaiting_ack_packet_count q)"
    "awaiting_ack_bytes q' = (if act = None then SaturatingSub (awaiting_ack_bytes q) (ucast (heap_data_size v))
       else awaiting_ack_bytes q)"
    using assms frame r
    by (auto simp: retry_body_def retry_action_def packet_age_def Let_def split: if_splits)
qed

lemma retry_fold:
  assumes "peers s = ps" and "awaiting_ack_packet_count s = of_nat n" and "awaiting_ack_bytes s = of_nat b"
    and "length (dropped P now ps es) \<le> n" and "payload_total (dropped P now ps es) \<le> b"
    and "n < 2 ^ 64" and "b < 2 ^ 64"
    and "s' = fold (\<lambda>(k, v) s. fst (retry_body P env now k v s)) es s"
  shows "peers s' = ps \<and> PacketDispatcher.more s' = PacketDispatcher.more s \<and>
    next_outgoing_sequence_number s' = next_outgoing_sequence_number s \<and>
    awaiting_ack_packet_count s' = of_nat (n - length (dropped P now ps es)) \<and>
    awaiting_ack_bytes s' = of_nat (b - payload_total (dropped P now ps es))"
  using assms
proof (induction es arbitrary: s n b)
  case Nil
  then show ?case by (simp add: dropped_def)
next
  case (Cons e es)
  obtain k v where e: "e = (k, v)" by fastforce
  obtain s1 act where r: "retry_body P env now k v s = (s1, act)" by fastforce
  note spec = retry_body_spec [OF r]
  have s': "s' = fold (\<lambda>(k, v) s. fst (retry_body P env now k v s)) es s1" using Cons.prems(8) e r by simp
  show ?case
  proof (cases "act = None")
    case False
    then have "dropped P now ps (e # es) = dropped P now ps es" using spec(1) Cons.prems(1) e by (simp add: dropped_def)
    moreover have "awaiting_ack_packet_count s1 = of_nat n" "awaiting_ack_bytes s1 = of_nat b" "peers s1 = ps"
      using spec(2,5,6) False Cons.prems(1-3) by simp_all
    ultimately show ?thesis using Cons.IH [of s1 n b] Cons.prems(4-7) spec(3,4) s' by metis
  next
    case True
    then have drop: "dropped P now ps (e # es) = e # dropped P now ps es"
      using spec(1) Cons.prems(1) e by (simp add: dropped_def)
    have "awaiting_ack_packet_count s1 = of_nat (n - 1)"
      using SaturatingSub_nat [of 1 n] Cons.prems(2,4,6) spec(5) True drop by simp
    moreover have "awaiting_ack_bytes s1 = of_nat (b - unat (heap_data_size v))"
      using SaturatingSub_nat [of "unat (heap_data_size v)" b] Cons.prems(3,5,7) spec(6) True drop e by simp
    moreover have "length (dropped P now ps es) \<le> n - 1"
      "payload_total (dropped P now ps es) \<le> b - unat (heap_data_size v)"
      using Cons.prems(4,5) drop e by simp_all
    ultimately show ?thesis
      using Cons.IH [of s1 "n - 1" "b - unat (heap_data_size v)"] Cons.prems(1,6,7) spec(2-4) drop e s' by simp
  qed
qed

lemma payload_total_mset: "mset es = mset es' \<Longrightarrow> payload_total es = payload_total es'"
  unfolding payload_total_def by (metis mset_map sum_mset_sum_list)

lemma retry_scan_spec:
  assumes ok: "receipts_ok (std_hash env) q"
  shows "\<exists>q'. retry_scan P env now q = Some q' \<and> receipts_ok (std_hash env) q' \<and>
    PacketDispatcher.more q' = PacketDispatcher.more q \<and> peers q' = peers q \<and>
    next_outgoing_sequence_number q' = next_outgoing_sequence_number q \<and>
    unacknowledged q' = after_retry P now (peers q) (unacknowledged q) \<and>
    (\<exists>es. set es = set (unacknowledged q) \<and> distinct es \<and>
       datagrams q' = datagrams (fold (\<lambda>(k, v) s. fst (retry_body P env now k v s)) es q))"
proof -
  let ?es = "unacknowledged q" and ?ps = "peers q" and ?hash = "std_hash env"
  let ?eff = "\<lambda>k v s. fst (retry_body P env now k v s)"
  let ?body = "\<lambda>k v s. (?eff k v s, retry_action P now ?ps v)"
  have inv: "map_inv ?hash (awaiting_ack_packets q)" and cnt: "awaiting_ack_packet_count q = of_nat (length ?es)"
    "awaiting_ack_bytes q = of_nat (payload_total ?es)" using ok by (simp_all add: receipts_ok_def)
  note dist = map_inv_distinct [OF inv]
  note bound = payload_total_bound [OF dist]
  have same: "retry_body P env now k v s = ?body k v s \<and> peers (fst (?body k v s)) = ?ps" if "peers s = ?ps" for k v s
  proof -
    obtain s1 act where r: "retry_body P env now k v s = (s1, act)" by fastforce
    from retry_body_spec(1,2) [OF r] r that show ?thesis by simp
  qed
  have loop: "for_each_entry ?hash (retry_body P env now) q m = for_each_entry ?hash ?body q m" for m
  proof (cases "bucket_begin m")
    case (Some it)
    have "for_each ?hash (retry_body P env now) (chain_fuel m) it (q, m) = for_each ?hash ?body (chain_fuel m) it (q, m)"
      by (rule for_each_cong [where I = "\<lambda>s. peers s = ?ps"]) (rule same, assumption, rule refl)
    with Some show ?thesis by (simp add: for_each_entry_def)
  qed (simp add: for_each_entry_def)
  from for_each_entry_spec [OF inv, of ?body ?eff "\<lambda>k. retry_action P now ?ps" q] obtain m' es where
    m': "for_each_entry ?hash ?body q (awaiting_ack_packets q) = Some (fold (\<lambda>(k, v). ?eff k v) es q, m')"
    "map_inv ?hash m'" "distinct es" "set es = set ?es" "live_entries m' = after_retry P now ?ps ?es"
    by (auto simp: after_retry_def)
  have "distinct ?es" using dist by (simp add: distinct_map)
  then have "mset es = mset ?es" using m'(3,4) by (simp add: set_eq_iff_mset_eq_distinct)
  then have perm: "mset (dropped P now ?ps es) = mset (dropped P now ?ps ?es)" by (simp add: dropped_def)
  note drops = mset_eq_length [OF perm] payload_total_mset [OF perm]
  note tot = after_retry_total [of P now ?ps ?es]
  let ?s = "fold (\<lambda>(k, v). ?eff k v) es q"
  have "peers ?s = ?ps \<and> PacketDispatcher.more ?s = PacketDispatcher.more q \<and>
    next_outgoing_sequence_number ?s = next_outgoing_sequence_number q \<and>
    awaiting_ack_packet_count ?s = of_nat (length ?es - length (dropped P now ?ps es)) \<and>
    awaiting_ack_bytes ?s = of_nat (payload_total ?es - payload_total (dropped P now ?ps es))"
    using cnt drops tot bound by (intro retry_fold [where es = es and s = q]) simp_all
  moreover have "length ?es - length (dropped P now ?ps es) = length (live_entries m')"
    "payload_total ?es - payload_total (dropped P now ?ps es) = payload_total (live_entries m')"
    using drops tot unfolding m'(5) by linarith+
  ultimately have s: "peers ?s = ?ps" "PacketDispatcher.more ?s = PacketDispatcher.more q"
    "next_outgoing_sequence_number ?s = next_outgoing_sequence_number q"
    "awaiting_ack_packet_count ?s = of_nat (length (live_entries m'))"
    "awaiting_ack_bytes ?s = of_nat (payload_total (live_entries m'))"
    by simp_all
  have "retry_scan P env now q = Some (?s\<lparr>awaiting_ack_packets := m'\<rparr>)"
    unfolding retry_scan_def loop m'(1) by simp
  with s m'(2-5) show ?thesis by (auto simp: receipts_ok_def)
qed

subsection \<open>Every operation keeps the invariant\<close>

lemma CheckRateLimit_frame:
  assumes "CheckRateLimit now b q = (r, q')"
  shows "channel_outgoing_queues q' = channel_outgoing_queues q" "channel_incoming_queues q' = channel_incoming_queues q"
    "channel_outgoing_bytes q' = channel_outgoing_bytes q" "packet_receiver q' = packet_receiver q"
    "dispatch_tasks q' = dispatch_tasks q" "pending_dispatch_tasks q' = pending_dispatch_tasks q"
    "awaiting_ack_packets q' = awaiting_ack_packets q" "awaiting_ack_packet_count q' = awaiting_ack_packet_count q"
    "awaiting_ack_bytes q' = awaiting_ack_bytes q" "rate_limit_config q' = rate_limit_config q"
  using assms by (auto simp: CheckRateLimit_def rate_window_def Let_def split: if_splits)

lemma Push_inv:
  assumes "queue_inv hash q" shows "queue_inv hash (Push now packet q)"
proof -
  obtain r q1 where c: "CheckRateLimit now (ucast (heap_data_size packet)) q = (r, q1)" by fastforce
  have "queue_inv hash q1" using assms by (simp add: queue_inv_def receipts_ok_def CheckRateLimit_frame [OF c])
  with c show ?thesis
    by (auto simp: Push_def Let_def queue_inv_def receipts_ok_def pq.enq_ok split: bool.split)
qed

lemma Pop_inv:
  assumes "queue_inv hash q" shows "queue_inv hash (snd (Pop c q))"
  using assms pq.deq_ok [of "channel_incoming_queues q c"]
  by (auto simp: Pop_def Let_def queue_inv_def receipts_ok_def split: prod.split)

lemma ProcessChannel_inv:
  "queue_inv hash q \<Longrightarrow> queue_inv hash (snd (ProcessChannel c n q)) \<and>
     awaiting_ack_packets (snd (ProcessChannel c n q)) = awaiting_ack_packets q"
proof (induction n arbitrary: q)
  case (Suc n)
  obtain r queue where d: "priority_dequeue (channel_outgoing_queues q c) = (r, queue)" by fastforce
  with pq.deq_ok [OF queue_invD(2) [OF Suc.prems, of c]] have ok: "priority_ok queue" by simp
  show ?case
  proof (cases r)
    case None
    with d ok Suc.prems show ?thesis by (simp add: queue_inv_def receipts_ok_def)
  next
    case (Some packet)
    let ?q = "q\<lparr>channel_outgoing_queues := (channel_outgoing_queues q)(c := queue),
      channel_outgoing_bytes := (channel_outgoing_bytes q)(c :=
        SaturatingSub (channel_outgoing_bytes q c) (ucast (heap_data_size packet))),
      pending_dispatch_tasks := pending_dispatch_tasks q + 1, dispatch_tasks := dispatch_tasks q @ [packet]\<rparr>"
    have "queue_inv hash ?q" using ok Suc.prems by (simp add: queue_inv_def receipts_ok_def)
    from Suc.IH [OF this] d Some show ?thesis by (simp add: Let_def case_prod_beta)
  qed
qed simp

lemma run_dispatch_task_inv:
  assumes "queue_inv (std_hash env) q" and "lawful_env env"
  shows "\<exists>q'. run_dispatch_task P env i q = Some q' \<and> queue_inv (std_hash env) q'"
proof (cases "i < length (dispatch_tasks q)")
  case True
  let ?ts = "take i (dispatch_tasks q) @ drop (Suc i) (dispatch_tasks q)"
  let ?q = "q\<lparr>dispatch_tasks := ?ts\<rparr>"
  have "receipts_ok (std_hash env) ?q" using assms(1) by (simp add: queue_inv_def receipts_ok_def)
  from DispatchPacket_ok [OF this assms(2)] obtain q1 where
    q1: "DispatchPacket P env (dispatch_tasks q ! i) ?q = Some q1" "receipts_ok (std_hash env) q1"
    "PacketDispatcher.more q1 = PacketDispatcher.more ?q" by blast
  obtain n where n: "length (dispatch_tasks q) = Suc n" using True by (cases "length (dispatch_tasks q)") auto
  then have "length ?ts = n" using True by simp
  with queue_invD(5) [OF assms(1)] n have "pending_dispatch_tasks q - 1 = of_nat (length ?ts)" by simp
  then have "queue_inv (std_hash env) (TrackDispatchTaskCompletion q1)"
    using assms(1) q1(2) queue_extension [OF q1(3)]
    by (simp add: queue_inv_def TrackDispatchTaskCompletion_def receipts_ok_def)
  with True q1(1) show ?thesis by (simp add: run_dispatch_task_def)
qed (use assms in \<open>simp add: run_dispatch_task_def\<close>)

lemma outgoing_tick_inv:
  assumes "queue_inv (std_hash env) q"
  shows "\<exists>q'. outgoing_tick P env now unix q = Some q' \<and> queue_inv (std_hash env) q'"
proof -
  let ?q1 = "snd (ProcessChannel Data kMaxDispatchPerChannelPerTick
      (snd (ProcessChannel Control kMaxDispatchPerChannelPerTick q)))"
  have q1: "queue_inv (std_hash env) ?q1" using ProcessChannel_inv assms by blast
  then have inv: "map_inv (std_hash env) (awaiting_ack_packets ?q1)" by (simp add: queue_inv_def receipts_ok_def)
  let ?q2 = "?q1\<lparr>gc_counter := gc_counter ?q1 + 1\<rparr>"
  obtain m where m: "(if gc_counter ?q1 mod 1000 = 0 then collect_garbage (awaiting_ack_packets ?q2)
      else Some (awaiting_ack_packets ?q2)) = Some m" "map_inv (std_hash env) m"
    "live_entries m = unacknowledged ?q1"
  proof (cases "gc_counter ?q1 mod 1000 = 0")
    case True
    from hm.gc_law [OF inv] obtain m where "collect_garbage (awaiting_ack_packets ?q1) = Some m"
      "map_inv (std_hash env) m" "live_entries m = unacknowledged ?q1" by blast
    with True that show thesis by simp
  next
    case False
    with inv that show thesis by simp
  qed
  let ?q3 = "?q2\<lparr>awaiting_ack_packets := m\<rparr>"
  have q3: "queue_inv (std_hash env) ?q3" using q1 m(2,3) by (simp add: queue_inv_def receipts_ok_def)
  from retry_scan_spec [OF queue_invD(1) [OF this], of P "ucast unix"] obtain q4 where
    q4: "retry_scan P env (ucast unix) ?q3 = Some q4" "receipts_ok (std_hash env) q4"
    "PacketDispatcher.more q4 = PacketDispatcher.more ?q3" by blast
  then have "queue_inv (std_hash env) q4" using queue_inv_dispatcher q3 by blast
  then have "queue_inv (std_hash env) (q4\<lparr>next_retry_scan := t\<rparr>)" for t by (simp add: queue_inv_def receipts_ok_def)
  with q3 q4(1) m(1) show ?thesis
    unfolding outgoing_tick_def Let_def by (simp split: option.split)
qed

lemma AddAwaitingAckPacket_spec:
  assumes "queue_inv (std_hash env) q"
  shows "\<exists>q'. AddAwaitingAckPacket P env block ret seq ack q = Some q' \<and> queue_inv (std_hash env) q' \<and>
    received_reliable_seqs q' = received_reliable_seqs q \<and>
    channel_outgoing_queues q' = (channel_outgoing_queues q)(Control :=
      priority_enqueue (ack_packet P block (crypto_context q \<noteq> None) ret seq) High (channel_outgoing_queues q Control))"
proof -
  let ?q = "q\<lparr>channel_outgoing_queues := (channel_outgoing_queues q)(Control :=
      priority_enqueue (ack_packet P block (crypto_context q \<noteq> None) ret seq) High (channel_outgoing_queues q Control))\<rparr>"
  have q: "queue_inv (std_hash env) ?q" using assms by (simp add: queue_inv_def receipts_ok_def pq.enq_ok)
  from acknowledge_spec [OF queue_invD(1) [OF q], of ret ack] obtain q' where
    q': "acknowledge env ret ack ?q = Some q'" "receipts_ok (std_hash env) q'" "only_receipts ?q q'" by blast
  note ext = queue_extension [OF only_receiptsD(5) [OF q'(3)]]
  have "queue_inv (std_hash env) q'" by (rule queue_inv_dispatcher [OF q q'(2) only_receiptsD(5) [OF q'(3)]])
  with q q'(1) ext show ?thesis
    by (cases "ack = 0") (simp_all add: AddAwaitingAckPacket_def Let_def)
qed

lemma deliver_inv: "queue_inv hash q \<Longrightarrow> queue_inv hash (deliver pack q)"
  by (simp add: deliver_def queue_inv_def receipts_ok_def pq.enq_ok)

lemma handle_success_inv:
  assumes "queue_inv (std_hash env) q"
  shows "\<exists>r q'. handle_success P env block pack q = Some (r, q') \<and> queue_inv (std_hash env) q'"
proof -
  from AddAwaitingAckPacket_spec [OF assms, of P block "source_peer_id pack" "sequence_number pack"
      "acknowledgement_number pack"] obtain q1 where
    q1: "AddAwaitingAckPacket P env block (source_peer_id pack) (sequence_number pack)
      (acknowledgement_number pack) q = Some q1" "queue_inv (std_hash env) q1" by blast
  have "queue_inv (std_hash env) (q1\<lparr>received_reliable_seqs := f\<rparr>)" for f
    using q1(2) by (simp add: queue_inv_def receipts_ok_def)
  with q1 assms show ?thesis by (auto simp: handle_success_def Let_def intro: deliver_inv)
qed

lemma ReceivePackets_receiver_ok:
  assumes "receiver_ok r" and "recv_lawful ev" and "ReceivePackets P ev crypto ps r = (res, crypto', ps', r')"
  shows "receiver_ok r'"
proof -
  have "\<exists>a. r' = r\<lparr>receive_address := a, incoming_buffer := fill_buffer ev (incoming_buffer r)\<rparr>"
    using assms(3) by (auto simp: ReceivePackets_def Let_def split: prod.splits option.splits if_splits)
  with fill_buffer_length [OF assms(2,1)] show ?thesis by (auto simp: receiver_ok_def)
qed

lemma receive_tick_inv:
  assumes "queue_inv (std_hash env) q" and "recv_lawful ev"
  shows "\<exists>r q'. receive_tick P env block ev q = Some (r, q') \<and> queue_inv (std_hash env) q'"
proof (cases "stop_threads q")
  case False
  obtain res crypto ps r where rp: "ReceivePackets P ev (crypto_context q) (peers q) (packet_receiver q) =
      (res, crypto, ps, r)" by (metis prod_cases4)
  let ?q = "q\<lparr>crypto_context := crypto, peers := ps, packet_receiver := r\<rparr>"
  have q: "queue_inv (std_hash env) ?q"
    using assms ReceivePackets_receiver_ok [OF queue_invD(4) [OF assms(1)] assms(2) rp]
    by (simp add: queue_inv_def receipts_ok_def)
  show ?thesis
  proof (cases res)
    case (Success pack)
    with handle_success_inv [OF q] False rp show ?thesis by (simp add: receive_tick_def Let_def)
  next
    case (Acknowledgement pack)
    from acknowledge_spec [OF queue_invD(1) [OF q], of "source_peer_id pack" "LoadU32 (host P) (ip_data pack) 0"]
    obtain q' where q': "acknowledge env (source_peer_id pack) (LoadU32 (host P) (ip_data pack) 0) ?q = Some q'"
      "receipts_ok (std_hash env) q'" "only_receipts ?q q'" by blast
    with queue_inv_dispatcher [OF q q'(2) only_receiptsD(5) [OF q'(3)]] Acknowledgement False rp q show ?thesis
      by (auto simp: receive_tick_def Let_def)
  next
    case Goodbye
    have "queue_inv (std_hash env) (?q\<lparr>stop_threads := True\<rparr>)" using q by (simp add: queue_inv_def receipts_ok_def)
    with Goodbye False rp show ?thesis by (simp add: receive_tick_def Let_def)
  qed (use False rp q in \<open>simp_all add: receive_tick_def Let_def\<close>)
qed (use assms in \<open>simp add: receive_tick_def\<close>)

end
