(* ===== verification/Reliability.thy ===== *)
theory Reliability
  imports Queue_Laws
begin

text \<open>
  What \<^verbatim>\<open>ZPacketQueue\<close> promises over whole histories: counters that are exact, every reliable packet
  handed to the application at most once and none lost on the way, a bounded sending rate,
  acknowledgements that settle the packets they name, and what becomes of packets that are never
  acknowledged.
\<close>

subsection \<open>Histories\<close>

datatype queue_event =
    PushEvent int OutgoingPacket
  | PopEvent PacketChannelType
  | OutgoingTick send_env int u64
  | RunTask send_env nat
  | ReceiveTick send_env u64 recv_event

text \<open>A step reports the packet it moved into an incoming queue and the packet it popped from one.\<close>

fun queue_step ::
  "platform \<Rightarrow> queue_event \<Rightarrow> 'a ZPacketQueue_scheme \<Rightarrow>
   (IncomingPacket option \<times> IncomingPacket option \<times> 'a ZPacketQueue_scheme) option" where
  "queue_step P (PushEvent now packet) q = Some (None, None, Push now packet q)"
| "queue_step P (PopEvent c) q = (case Pop c q of (p, q) \<Rightarrow> Some (None, p, q))"
| "queue_step P (OutgoingTick env now unix) q = map_option (\<lambda>q. (None, None, q)) (outgoing_tick P env now unix q)"
| "queue_step P (RunTask env i) q = map_option (\<lambda>q. (None, None, q)) (run_dispatch_task P env i q)"
| "queue_step P (ReceiveTick env block ev) q =
     map_option (\<lambda>(d, q). (d, None, q)) (receive_tick P env block ev q)"

fun queue_run ::
  "platform \<Rightarrow> queue_event list \<Rightarrow> 'a ZPacketQueue_scheme \<Rightarrow>
   (IncomingPacket list \<times> IncomingPacket list \<times> 'a ZPacketQueue_scheme) option" where
  "queue_run P [] q = Some ([], [], q)"
| "queue_run P (ev # evs) q =
     (case queue_step P ev q of
        None \<Rightarrow> None
      | Some (d, p, q) \<Rightarrow>
          (case queue_run P evs q of
             None \<Rightarrow> None
           | Some (ds, ps, q) \<Rightarrow> Some (case_option ds (\<lambda>x. x # ds) d, case_option ps (\<lambda>x. x # ps) p, q)))"

fun event_lawful :: "(u32 \<Rightarrow> nat) \<Rightarrow> queue_event \<Rightarrow> bool" where
  "event_lawful hash (OutgoingTick env now unix) \<longleftrightarrow> std_hash env = hash"
| "event_lawful hash (RunTask env i) \<longleftrightarrow> std_hash env = hash \<and> lawful_env env"
| "event_lawful hash (ReceiveTick env block ev) \<longleftrightarrow> std_hash env = hash \<and> recv_lawful ev"
| "event_lawful hash _ \<longleftrightarrow> True"

lemma queue_step_inv:
  assumes "queue_inv hash q" and "event_lawful hash ev"
  shows "\<exists>d p q'. queue_step P ev q = Some (d, p, q') \<and> queue_inv hash q'"
proof (cases ev)
  case (PushEvent now packet)
  with Push_inv [OF assms(1)] show ?thesis by simp
next
  case (PopEvent c)
  with Pop_inv [OF assms(1), of c] show ?thesis by (cases "Pop c q") simp
next
  case (OutgoingTick env now unix)
  with outgoing_tick_inv [of env q P now unix] assms show ?thesis by auto
next
  case (RunTask env i)
  with run_dispatch_task_inv [of env q P i] assms show ?thesis by auto
next
  case (ReceiveTick env block ev)
  with receive_tick_inv [of env q ev P block] assms show ?thesis by auto
qed

lemma queue_run_inv:
  "queue_inv hash q \<Longrightarrow> list_all (event_lawful hash) evs \<Longrightarrow>
   \<exists>ds ps q'. queue_run P evs q = Some (ds, ps, q') \<and> queue_inv hash q'"
proof (induction evs arbitrary: q)
  case (Cons ev evs)
  from queue_step_inv [OF Cons.prems(1)] Cons.prems(2) obtain d p q1 where
    "queue_step P ev q = Some (d, p, q1)" "queue_inv hash q1" by (metis list.pred_inject(2))
  with Cons.IH [of q1] Cons.prems(2) show ?case by fastforce
qed simp

subsection \<open>Deliveries\<close>

definition delivery_key :: "IncomingPacket \<Rightarrow> u32 \<times> u32" where
  "delivery_key p = (source_peer_id p, sequence_number p)"

definition reliable_keys :: "IncomingPacket list \<Rightarrow> (u32 \<times> u32) list" where
  "reliable_keys ps = map delivery_key (filter (\<lambda>p. reliable (ip_flags p)) ps)"

definition seen_keys :: "'a ZPacketQueue_scheme \<Rightarrow> (u32 \<times> u32) set" where
  "seen_keys q = {(p, s). s \<in> set (received_reliable_seqs q p)}"

definition waiting_packets :: "'a ZPacketQueue_scheme \<Rightarrow> IncomingPacket multiset" where
  "waiting_packets q = mset (departures (lane (channel_incoming_queues q Control))) +
     mset (departures (lane (channel_incoming_queues q Data)))"

lemma departures_enqueue:
  assumes "priority_ok q"
  shows "mset (departures (lane (priority_enqueue x p q))) = add_mset x (mset (departures (lane q)))"
  using assms by (cases p) (simp_all add: pq.enq_lanes departures_def)

lemma waiting_deliver:
  assumes "queue_inv hash q"
  shows "waiting_packets (deliver pack q) = add_mset pack (waiting_packets q)"
  using departures_enqueue [OF queue_invD(3) [OF assms], of pack "priority (ip_flags pack)" "ip_channel pack"]
  by (cases "ip_channel pack") (simp_all add: waiting_packets_def deliver_def)

lemma waiting_cong:
  "channel_incoming_queues q' = channel_incoming_queues q \<Longrightarrow> waiting_packets q' = waiting_packets q"
  by (simp add: waiting_packets_def)

lemma seen_cong: "received_reliable_seqs q' = received_reliable_seqs q \<Longrightarrow> seen_keys q' = seen_keys q"
  by (simp add: seen_keys_def)

lemma waiting_pop:
  assumes "queue_inv hash q" and "Pop c q = (p, q')"
  shows "waiting_packets q = (case p of None \<Rightarrow> {#} | Some x \<Rightarrow> {#x#}) + waiting_packets q' \<and>
    received_reliable_seqs q' = received_reliable_seqs q"
proof (cases "priority_empty (channel_incoming_queues q c)")
  case True
  with assms(2) show ?thesis by (auto simp: Pop_def)
next
  case False
  let ?queue = "channel_incoming_queues q c"
  have ok: "priority_ok ?queue" by (rule queue_invD(3) [OF assms(1)])
  obtain x xs where dep: "departures (lane ?queue) = x # xs"
    using False by (cases "departures (lane ?queue)") (auto simp: priority_empty_iff)
  note d = pq.deq_departures [OF ok, unfolded dep, simplified]
  from assms(2) False have p: "p = Some x" "channel_incoming_queues q' =
      (channel_incoming_queues q)(c := snd (priority_dequeue ?queue))"
    "received_reliable_seqs q' = received_reliable_seqs q"
    using d(1) by (auto simp: Pop_def Let_def split: prod.splits)
  with dep d(2) show ?thesis by (cases c) (simp_all add: waiting_packets_def)
qed

text \<open>A received packet: what is new in the deduplication sets and in the queues.\<close>

lemma handle_success_delivery:
  assumes inv: "queue_inv (std_hash env) q" and h: "handle_success P env block pack q = Some (d, q')"
  shows "waiting_packets q' = (case d of None \<Rightarrow> {#} | Some x \<Rightarrow> {#x#}) + waiting_packets q"
    and "seen_keys q' = seen_keys q \<union> (case d of None \<Rightarrow> {} | Some x \<Rightarrow> set (reliable_keys [x]))"
    and "d = Some x \<Longrightarrow> reliable (ip_flags x) \<Longrightarrow> delivery_key x \<notin> seen_keys q"
proof -
  from AddAwaitingAckPacket_spec [OF inv, of P block "source_peer_id pack" "sequence_number pack"
      "acknowledgement_number pack"] obtain q1 where
    q1: "AddAwaitingAckPacket P env block (source_peer_id pack) (sequence_number pack)
      (acknowledgement_number pack) q = Some q1" "queue_inv (std_hash env) q1"
    "received_reliable_seqs q1 = received_reliable_seqs q" by blast
  have in1: "channel_incoming_queues q1 = channel_incoming_queues q"
    using q1(1) by (auto simp: AddAwaitingAckPacket_def Let_def acknowledge_def
        split: if_splits option.splits prod.splits)
  let ?q2 = "q1\<lparr>received_reliable_seqs := (received_reliable_seqs q1)(source_peer_id pack :=
      sequence_number pack # received_reliable_seqs q1 (source_peer_id pack))\<rparr>"
  have inv2: "queue_inv (std_hash env) ?q2" using q1(2) by (simp add: queue_inv_def receipts_ok_def)
  have cases: "(\<not> reliable (ip_flags pack) \<and> d = Some pack \<and> q' = deliver pack q) \<or>
    (reliable (ip_flags pack) \<and> delivery_key pack \<in> seen_keys q \<and> d = None \<and> q' = q1) \<or>
    (reliable (ip_flags pack) \<and> delivery_key pack \<notin> seen_keys q \<and> d = Some pack \<and> q' = deliver pack ?q2)"
    using h q1(1,3) by (auto simp: handle_success_def Let_def seen_keys_def delivery_key_def split: if_splits)
  have deliver_seen: "received_reliable_seqs (deliver x r) = received_reliable_seqs r" for x and r :: "'a ZPacketQueue_scheme"
    by (simp add: deliver_def)
  show "waiting_packets q' = (case d of None \<Rightarrow> {#} | Some x \<Rightarrow> {#x#}) + waiting_packets q"
    using cases waiting_deliver [OF inv] waiting_deliver [OF inv2] in1
    by (elim disjE) (simp_all add: waiting_packets_def)
  show "seen_keys q' = seen_keys q \<union> (case d of None \<Rightarrow> {} | Some x \<Rightarrow> set (reliable_keys [x]))"
    using cases q1(3)
    by (elim disjE) (auto simp: seen_keys_def reliable_keys_def delivery_key_def deliver_seen split: if_splits)
  show "d = Some x \<Longrightarrow> reliable (ip_flags x) \<Longrightarrow> delivery_key x \<notin> seen_keys q" using cases by auto
qed

lemma receive_tick_delivery:
  assumes inv: "queue_inv (std_hash env) q" and law: "recv_lawful ev"
    and r: "receive_tick P env block ev q = Some (d, q')"
  shows "waiting_packets q' = (case d of None \<Rightarrow> {#} | Some x \<Rightarrow> {#x#}) + waiting_packets q"
    and "seen_keys q' = seen_keys q \<union> (case d of None \<Rightarrow> {} | Some x \<Rightarrow> set (reliable_keys [x]))"
    and "d = Some x \<Longrightarrow> reliable (ip_flags x) \<Longrightarrow> delivery_key x \<notin> seen_keys q"
proof -
  obtain res crypto ps rc where rp: "ReceivePackets P ev (crypto_context q) (peers q) (packet_receiver q) =
      (res, crypto, ps, rc)" by (metis prod_cases4)
  let ?q = "q\<lparr>crypto_context := crypto, peers := ps, packet_receiver := rc\<rparr>"
  have q: "queue_inv (std_hash env) ?q"
    using inv ReceivePackets_receiver_ok [OF queue_invD(4) [OF inv] law rp]
    by (simp add: queue_inv_def receipts_ok_def)
  have same: "waiting_packets ?q = waiting_packets q" "seen_keys ?q = seen_keys q"
    by (simp_all add: waiting_packets_def seen_keys_def)
  have ack: "waiting_packets q1 = waiting_packets ?q \<and> seen_keys q1 = seen_keys ?q"
    if "acknowledge env p s ?q = Some q1" for p s q1
  proof -
    have "only_receipts ?q q1" using acknowledge_spec [OF queue_invD(1) [OF q], of p s] that by auto
    from queue_extension(2,5) [OF only_receiptsD(5) [OF this]] show ?thesis
      by (simp add: waiting_packets_def seen_keys_def)
  qed
  have "(\<exists>pack. handle_success P env block pack ?q = Some (d, q')) \<or>
      d = None \<and> waiting_packets q' = waiting_packets q \<and> seen_keys q' = seen_keys q"
  proof (cases "stop_threads q")
    case True
    with r show ?thesis by (simp add: receive_tick_def)
  next
    case False
    show ?thesis
    proof (cases res)
      case (Success pack)
      with r rp False show ?thesis by (auto simp: receive_tick_def Let_def)
    next
      case (Acknowledgement pack)
      with r rp False ack same show ?thesis
        by (auto simp: receive_tick_def Let_def split: if_splits)
    next
      case Goodbye
      with r rp False show ?thesis by (auto simp: receive_tick_def Let_def waiting_packets_def seen_keys_def)
    qed (use r rp False same in \<open>auto simp: receive_tick_def Let_def\<close>)
  qed
  then show "waiting_packets q' = (case d of None \<Rightarrow> {#} | Some x \<Rightarrow> {#x#}) + waiting_packets q"
    and "seen_keys q' = seen_keys q \<union> (case d of None \<Rightarrow> {} | Some x \<Rightarrow> set (reliable_keys [x]))"
    and "d = Some x \<Longrightarrow> reliable (ip_flags x) \<Longrightarrow> delivery_key x \<notin> seen_keys q"
    using handle_success_delivery [OF q] same by auto
qed

lemma ProcessChannel_incoming:
  "channel_incoming_queues (snd (ProcessChannel c n q)) = channel_incoming_queues q \<and>
   received_reliable_seqs (snd (ProcessChannel c n q)) = received_reliable_seqs q"
proof (induction n arbitrary: q)
  case (Suc n)
  then show ?case by (auto simp: Let_def case_prod_beta split: option.split)
qed simp

lemma outgoing_tick_incoming:
  assumes inv: "queue_inv (std_hash env) q" and o: "outgoing_tick P env now unix q = Some q'"
  shows "channel_incoming_queues q' = channel_incoming_queues q \<and>
    received_reliable_seqs q' = received_reliable_seqs q"
proof -
  let ?q1 = "snd (ProcessChannel Data kMaxDispatchPerChannelPerTick
      (snd (ProcessChannel Control kMaxDispatchPerChannelPerTick q)))"
  have q1: "queue_inv (std_hash env) ?q1" using ProcessChannel_inv inv by blast
  then have "map_inv (std_hash env) (awaiting_ack_packets ?q1)" by (simp add: queue_inv_def receipts_ok_def)
  note gc = hm.gc_law [OF this]
  have scan: "channel_incoming_queues q2 = channel_incoming_queues r \<and>
      received_reliable_seqs q2 = received_reliable_seqs r"
    if "retry_scan P env t r = Some q2" "receipts_ok (std_hash env) r" for q2 r t
    using retry_scan_spec [OF that(2), of P t] that(1) queue_extension(2,5) [of q2 r] by auto
  obtain m where m: "(if gc_counter ?q1 mod 1000 = 0 then collect_garbage (awaiting_ack_packets ?q1)
      else Some (awaiting_ack_packets ?q1)) = Some m" "live_entries m = unacknowledged ?q1"
      "map_inv (std_hash env) m"
    using gc \<open>map_inv (std_hash env) (awaiting_ack_packets ?q1)\<close> by (cases "gc_counter ?q1 mod 1000 = 0") auto
  let ?q3 = "?q1\<lparr>gc_counter := gc_counter ?q1 + 1, awaiting_ack_packets := m\<rparr>"
  have "receipts_ok (std_hash env) ?q3" using q1 m(2,3) by (simp add: queue_inv_def receipts_ok_def)
  with o m(1) scan [of "ucast unix" ?q3] show ?thesis
    by (auto simp: outgoing_tick_def Let_def ProcessChannel_incoming split: if_splits)
qed

lemma run_dispatch_task_incoming:
  assumes inv: "queue_inv (std_hash env) q" and law: "lawful_env env"
    and r: "run_dispatch_task P env i q = Some q'"
  shows "channel_incoming_queues q' = channel_incoming_queues q \<and>
    received_reliable_seqs q' = received_reliable_seqs q"
proof (cases "i < length (dispatch_tasks q)")
  case True
  let ?q = "q\<lparr>dispatch_tasks := take i (dispatch_tasks q) @ drop (Suc i) (dispatch_tasks q)\<rparr>"
  have "receipts_ok (std_hash env) ?q" using inv by (simp add: queue_inv_def receipts_ok_def)
  from DispatchPacket_ok [OF this law, of P "dispatch_tasks q ! i"] obtain q1 where
    "DispatchPacket P env (dispatch_tasks q ! i) ?q = Some q1"
    "PacketDispatcher.more q1 = PacketDispatcher.more ?q" by blast
  with True r queue_extension(2,5) [OF this(2)] show ?thesis
    by (auto simp: run_dispatch_task_def TrackDispatchTaskCompletion_def)
qed (use r in \<open>simp add: run_dispatch_task_def\<close>)

abbreviation opt_mset :: "'b option \<Rightarrow> 'b multiset" where
  "opt_mset r \<equiv> (case r of None \<Rightarrow> {#} | Some x \<Rightarrow> {#x#})"

lemma queue_step_delivery:
  assumes inv: "queue_inv hash q" and law: "event_lawful hash ev" and s: "queue_step P ev q = Some (d, p, q')"
  shows "opt_mset p + waiting_packets q' = opt_mset d + waiting_packets q"
    and "seen_keys q' = seen_keys q \<union> (case d of None \<Rightarrow> {} | Some x \<Rightarrow> set (reliable_keys [x]))"
    and "d = Some x \<Longrightarrow> reliable (ip_flags x) \<Longrightarrow> delivery_key x \<notin> seen_keys q"
proof -
  have "opt_mset p + waiting_packets q' = opt_mset d + waiting_packets q \<and>
    seen_keys q' = seen_keys q \<union> (case d of None \<Rightarrow> {} | Some x \<Rightarrow> set (reliable_keys [x])) \<and>
    (d = Some x \<longrightarrow> reliable (ip_flags x) \<longrightarrow> delivery_key x \<notin> seen_keys q)"
  proof (cases ev)
    case (PushEvent now packet)
    obtain b q1 where c: "CheckRateLimit now (ucast (heap_data_size packet)) q = (b, q1)" by fastforce
    have "received_reliable_seqs q1 = received_reliable_seqs q"
      using c by (auto simp: CheckRateLimit_def rate_window_def Let_def split: if_splits)
    with PushEvent s c CheckRateLimit_frame(2) [OF c] show ?thesis
      by (auto simp: Push_def Let_def seen_keys_def waiting_packets_def split: bool.splits)
  next
    case (PopEvent c)
    with s waiting_pop [OF inv, of c p q'] show ?thesis by (auto simp: seen_keys_def split: prod.splits)
  next
    case (OutgoingTick env now unix)
    with s law inv outgoing_tick_incoming [of env q P now unix q'] show ?thesis
      by (auto simp: waiting_packets_def seen_keys_def)
  next
    case (RunTask env i)
    with s law inv run_dispatch_task_incoming [of env q P i q'] show ?thesis
      by (auto simp: waiting_packets_def seen_keys_def)
  next
    case (ReceiveTick env block rev)
    with s law inv receive_tick_delivery [of env q rev P block d q'] show ?thesis by auto
  qed
  then show "opt_mset p + waiting_packets q' = opt_mset d + waiting_packets q"
    and "seen_keys q' = seen_keys q \<union> (case d of None \<Rightarrow> {} | Some x \<Rightarrow> set (reliable_keys [x]))"
    and "d = Some x \<Longrightarrow> reliable (ip_flags x) \<Longrightarrow> delivery_key x \<notin> seen_keys q" by auto
qed

lemma queue_run_delivery:
  "queue_inv hash q \<Longrightarrow> list_all (event_lawful hash) evs \<Longrightarrow> queue_run P evs q = Some (ds, ps, q') \<Longrightarrow>
   mset ps + waiting_packets q' = mset ds + waiting_packets q \<and> distinct (reliable_keys ds) \<and>
   set (reliable_keys ds) \<inter> seen_keys q = {}"
proof (induction evs arbitrary: q ds ps)
  case Nil
  then show ?case by (simp add: reliable_keys_def)
next
  case (Cons ev evs)
  have law: "event_lawful hash ev" "list_all (event_lawful hash) evs" using Cons.prems(2) by simp_all
  from queue_step_inv [OF Cons.prems(1) law(1), of P] obtain d p q1 where
    st: "queue_step P ev q = Some (d, p, q1)" "queue_inv hash q1" by blast
  from Cons.prems(3) st(1) obtain ds1 ps1 where run: "queue_run P evs q1 = Some (ds1, ps1, q')"
    "ds = case_option ds1 (\<lambda>x. x # ds1) d" "ps = case_option ps1 (\<lambda>x. x # ps1) p"
    by (auto split: option.splits)
  note IH = Cons.IH [OF st(2) law(2) run(1)]
  note step = queue_step_delivery [OF Cons.prems(1) law(1) st(1)]
  have keys: "reliable_keys (x # xs) = (if reliable (ip_flags x) then delivery_key x # reliable_keys xs
      else reliable_keys xs)" for x xs by (simp add: reliable_keys_def)
  have "mset ps + waiting_packets q' = opt_mset p + (mset ps1 + waiting_packets q')"
    unfolding run(3) by (cases p) simp_all
  also have "\<dots> = mset ds1 + (opt_mset p + waiting_packets q1)" using IH by (simp add: ac_simps)
  also have "\<dots> = mset ds1 + (opt_mset d + waiting_packets q)" using step(1) by simp
  also have "\<dots> = mset ds + waiting_packets q" unfolding run(2) by (cases d) simp_all
  finally have "mset ps + waiting_packets q' = mset ds + waiting_packets q" .
  moreover have "distinct (reliable_keys ds) \<and> set (reliable_keys ds) \<inter> seen_keys q = {}"
  proof (cases d)
    case None
    with IH step(2) run(2) show ?thesis by auto
  next
    case (Some x)
    have "set (reliable_keys [x]) = (if reliable (ip_flags x) then {delivery_key x} else {})"
      by (simp add: reliable_keys_def)
    with IH step(2) step(3) [OF Some] run(2) Some show ?thesis by (auto simp: keys)
  qed
  ultimately show ?case by blast
qed

lemma distinct_submultiset: "mset xs \<subseteq># mset ys \<Longrightarrow> distinct ys \<Longrightarrow> distinct xs"
proof (induction xs arbitrary: ys)
  case (Cons x xs)
  from Cons.prems(1) have "x \<in> set ys" by (metis insert_subset set_mset_mono set_mset_add_mset_insert set_mset_mset mset.simps(2))
  then have sub: "mset xs \<subseteq># mset (remove1 x ys)" using Cons.prems(1) by (simp add: insert_subset_eq_iff)
  have "x \<notin> set xs"
  proof
    assume "x \<in> set xs"
    then have "x \<in> set (remove1 x ys)" using sub by (metis mset_subset_eqD set_mset_mset)
    then show False using Cons.prems(2) by (simp add: set_remove1_eq)
  qed
  moreover have "distinct xs" using Cons.IH [OF sub] Cons.prems(2) by simp
  ultimately show ?case by simp
qed simp

subsection \<open>Acknowledgements on the wire\<close>

lemma ack_packet_payload:
  assumes "block \<noteq> 0"
  shows "payload_source (ack_packet P block e ret seq) = Some (word_bytes seq)"
proof -
  have "StoreU32 (host P) 0 seq [0, 0, 0, 0] = word_bytes seq" by (simp add: Store_eq memcpy_at_def)
  with assms show ?thesis
    by (simp add: ack_packet_def OutgoingPacket_with_data_def payload_source_def)
qed

lemma receive_built_ack:
  assumes laws: "gcm_lawful P" "lz4_lawful P"
    and build: "BuildPacket P now rand crypto (ack_packet P block e ret seq) n = (bytes, pk, crypto')" "bytes \<noteq> []"
    and block: "block \<noteq> 0" and host: "h = LittleEndian"
    and keys: "e \<Longrightarrow> \<exists>nonce c s. rand = Some nonce \<and> length nonce = kNonceSize \<and> crypto' = Some c \<and>
        receiver = Some s \<and> keys_initialized s \<and> encryption_key s = encryption_key c"
    and peer: "GetOrCreatePeer addr ps = (Some peer, ps')"
  shows "\<exists>pack. receive_datagram (P\<lparr>host := h\<rparr>) receiver ps addr bytes = (Acknowledgement pack, receiver, ps') \<and>
    source_peer_id pack = peer_identifier peer \<and> ip_data pack = word_bytes seq"
proof -
  let ?Q = "P\<lparr>host := h\<rparr>" and ?ack = "ack_packet P block e ret seq"
  have fields: "op_type ?ack = PacketType_Acknowledgement" "op_channel ?ack = Control"
    "op_flags ?ack = ack_flags e" by (simp_all add: ack_packet_def OutgoingPacket_with_data_def)
  note size = built_size [OF build]
  have "native_packet_size ?Q bytes = LoadU32 LittleEndian bytes 4"
    using size(2) by (simp add: native_packet_size_def Load_eq host_word_def host)
  then have native: "unat (native_packet_size ?Q bytes) = length bytes" using size(1) by simp
  have unpack: "UnpackPacket ?Q receiver bytes =
    (Some \<lparr>ip_channel = op_channel ?ack,
           ip_flags = \<lparr>reliable = reliable (op_flags ?ack), encrypted = encrypted (op_flags ?ack),
                       compressed = compressed (op_flags pk), priority = priority (op_flags ?ack),
                       acknowledged = False, awaiting_ack = False, reserved = False\<rparr>,
           ip_type = op_type ?ack, source_peer_id = 0,
           acknowledgement_number = (if reliable (op_flags ?ack) then acknowledgement_of ?ack else 0),
           sequence_number = (if reliable (op_flags ?ack) then n else 0),
           ip_data = word_bytes seq\<rparr>, receiver)"
    by (rule unpack_built [OF laws build ack_packet_payload [OF block]])
      (use keys in \<open>simp_all add: fields ack_flags_def PacketType_defs IsSystemMessage_def\<close>)
  show ?thesis
    using size(2) peer unfolding receive_datagram_def Let_def native
    by (simp add: unpack fields)
qed

subsection \<open>Retransmission over time\<close>

fun retry_run ::
  "platform \<Rightarrow> (send_env \<times> u32) list \<Rightarrow> 'a ZPacketQueue_scheme \<Rightarrow> 'a ZPacketQueue_scheme option" where
  "retry_run P [] q = Some q"
| "retry_run P ((env, now) # scans) q =
     (case retry_scan P env now q of None \<Rightarrow> None | Some q \<Rightarrow> retry_run P scans q)"

text \<open>Scans at most four seconds apart.\<close>

fun regular_scans :: "(u32 \<Rightarrow> nat) \<Rightarrow> (send_env \<times> u32) list \<Rightarrow> bool" where
  "regular_scans hash [] \<longleftrightarrow> True"
| "regular_scans hash [(env, now)] \<longleftrightarrow> std_hash env = hash"
| "regular_scans hash ((env, now) # (env', now') # scans) \<longleftrightarrow>
     std_hash env = hash \<and> now' - now \<le> 4 \<and> regular_scans hash ((env', now') # scans)"

lemma age_later:
  assumes "packet_age now v \<le> 1" and "now' - now \<le> 4"
  shows "packet_age now' v \<le> 5"
proof -
  have split: "packet_age now' v = (now' - now) + packet_age now v" by (simp add: packet_age_def)
  have "unat (now' - now) + unat (packet_age now v) \<le> 5" using assms by (simp add: word_le_nat_alt)
  then show ?thesis unfolding split by (simp add: word_le_nat_alt unat_word_ariths)
qed

lemma after_retry_keeps:
  assumes "\<forall>(k, v) \<in> set es. packet_age now v \<le> 5"
  shows "map fst (after_retry P now ps es) = map fst es \<and>
    (\<forall>(k, v) \<in> set (after_retry P now ps es). packet_age now v \<le> 1)"
  using assms
proof (induction es)
  case (Cons e es)
  obtain k v where e: "e = (k, v)" by fastforce
  have "\<exists>v'. retry_action P now ps v = Some v' \<and> packet_age now v' \<le> 1"
    using Cons.prems e by (auto simp: retry_action_def kDropAfterSeconds_def kResendIntervalSeconds_def
        packet_age_def not_less)
  with Cons e show ?case by (auto simp: after_retry_def)
qed (simp add: after_retry_def)

subsection \<open>What is retransmitted\<close>

lemma plain_build:
  assumes src: "payload_source packet = Some source" and plain: "\<not> encrypted (op_flags packet)"
    and size: "length source + 44 < 2 ^ 32"
  shows "\<exists>bytes q. BuildPacket P now rand crypto packet seq = (bytes, q, crypto) \<and> bytes \<noteq> []"
proof -
  obtain q wire where cs: "compress_stage P packet source = (q, wire)" by fastforce
  have enc: "(if encrypted (op_flags q) then EncryptPayloadIfNeeded P rand crypto q seq wire
      else (Some wire, crypto)) = (Some wire, crypto)" using plain compress_stage_fields(5) [OF cs] by simp
  have fits: "unat (size_of_headers q) + length wire < 2 ^ 32"
    using size compress_stage_shrinks [OF cs] by (simp add: unat_size_of_headers)
  have ne: "wire_packet n fl ty ch ts s a orig w \<noteq> []" for n fl ty ch ts s a orig w
    using length_wire_packet [of n fl ty ch ts s a orig w] by fastforce
  show ?thesis by (rule exI, rule exI, rule conjI, rule BuildPacket_stages [OF src cs enc fits], rule ne)
qed

text \<open>An unencrypted reliable packet of which a datagram can be made.\<close>

definition resendable :: "OutgoingPacket \<Rightarrow> bool" where
  "resendable packet \<longleftrightarrow> \<not> encrypted (op_flags packet) \<and> reliable (op_flags packet) \<and>
     (\<exists>source. payload_source packet = Some source \<and> length source + 44 < 2 ^ 32)"

lemma resendable_built [simp]: "resendable (built_packet P packet) = resendable packet"
  unfolding resendable_def payload_source_def built_packet_fields by simp

lemma resendable_retransmitted [simp]: "resendable (retransmitted P n packet) = resendable packet"
  by (induction n) (simp_all add: retransmitted_def)

lemma resendable_time [simp]: "resendable (packet\<lparr>last_send_time := t\<rparr>) = resendable packet"
  by (cases "op_payload packet") (simp_all add: resendable_def payload_source_def)

lemma retransmit_to_datagram:
  assumes "resendable packet" and send: "\<forall>a b. b \<noteq> [] \<longrightarrow> sendto env a b > 0"
  shows "\<exists>bytes d'. retransmit_to P env i target packet seq d = (built_packet P packet, d') \<and>
    datagrams d' = datagrams d @ [(target, bytes)] \<and> (\<forall>h. LoadU32 h bytes 20 = seq)"
proof -
  from assms(1) obtain source where src: "payload_source packet = Some source" "\<not> encrypted (op_flags packet)"
    "reliable (op_flags packet)" "length source + 44 < 2 ^ 32" by (auto simp: resendable_def)
  from plain_build [OF src(1,2,4)] obtain bytes q where
    b: "BuildPacket P (header_time env i) (random_bytes env i) (crypto_context d) packet seq =
      (bytes, q, crypto_context d)" and bytes: "bytes \<noteq> []" by blast
  then have "retransmit_to P env i target packet seq d = (built_packet P packet, d\<lparr>datagrams := datagrams d @ [(target, bytes)]\<rparr>)"
    using send BuildPacket_packet [OF b] by (simp add: retransmit_to_def Let_def Send_def)
  then show ?thesis using built_sequence [OF b bytes src(3)] by auto
qed

lemma retransmit_all_datagrams:
  assumes "resendable packet" and send: "\<forall>a b. b \<noteq> [] \<longrightarrow> sendto env a b > 0"
  shows "\<exists>bs. datagrams (snd (retransmit_all P env i ps packet seq d)) =
      datagrams d @ zip (map (\<lambda>p. Some (address p)) ps) bs \<and> length bs = length ps \<and>
      (\<forall>b \<in> set bs. \<forall>h. LoadU32 h b 20 = seq)"
  using assms(1)
proof (induction ps arbitrary: i packet d)
  case (Cons p ps)
  from retransmit_to_datagram [OF Cons.prems send] obtain bytes d' where
    r: "retransmit_to P env i (Some (address p)) packet seq d = (built_packet P packet, d')"
    "datagrams d' = datagrams d @ [(Some (address p), bytes)]" "\<forall>h. LoadU32 h bytes 20 = seq" by blast
  from Cons.IH [of "built_packet P packet" "Suc i" d'] Cons.prems obtain bs where
    "datagrams (snd (retransmit_all P env (Suc i) ps (built_packet P packet) seq d')) =
       datagrams d' @ zip (map (\<lambda>p. Some (address p)) ps) bs" "length bs = length ps"
    "\<forall>b \<in> set bs. \<forall>h. LoadU32 h b 20 = seq" by auto
  with r show ?case by (intro exI [of _ "bytes # bs"]) simp
qed simp

text \<open>The addresses a packet goes to; \<open>None\<close> is the server's.\<close>

definition retransmit_targets :: "ZPeerMapping \<Rightarrow> OutgoingPacket \<Rightarrow> Address option list" where
  "retransmit_targets ps packet =
     (if destination_peer_id packet = to_server then [None]
      else if destination_peer_id packet = to_all then map (\<lambda>p. Some (address p)) (peer_list ps)
      else case GetPeer (destination_peer_id packet) ps of None \<Rightarrow> [] | Some p \<Rightarrow> [Some (address p)])"

lemma RetransmitPacket_datagrams:
  assumes "resendable packet" and "\<forall>a b. b \<noteq> [] \<longrightarrow> sendto env a b > 0"
  shows "\<exists>bs. datagrams (snd (RetransmitPacket P env packet seq d)) =
      datagrams d @ zip (retransmit_targets (peers d) packet) bs \<and> length bs = length (retransmit_targets (peers d) packet) \<and>
      (\<forall>b \<in> set bs. \<forall>h. LoadU32 h b 20 = seq)"
proof -
  have one: "\<exists>bs. datagrams (snd (retransmit_to P env 0 t packet seq d)) = datagrams d @ zip [t] bs \<and> length bs = length [t] \<and>
      (\<forall>b \<in> set bs. \<forall>h. LoadU32 h b 20 = seq)" for t
  proof -
    from retransmit_to_datagram [OF assms, of P 0 t seq d] obtain bytes where
      "datagrams (snd (retransmit_to P env 0 t packet seq d)) = datagrams d @ [(t, bytes)]" "\<forall>h. LoadU32 h bytes 20 = seq" by auto
    then show ?thesis by (intro exI [of _ "[bytes]"]) simp
  qed
  show ?thesis
    using one [of None] one retransmit_all_datagrams [OF assms, of P 0 "peer_list (peers d)" seq d]
    by (auto simp: RetransmitPacket_def GetPeerList_def retransmit_targets_def split: option.split)
qed

text \<open>Whatever it does, a retransmission only adds to what was sent.\<close>

lemma retransmit_to_appends: "\<exists>xs. datagrams (snd (retransmit_to P env i t packet seq d)) = datagrams d @ xs"
  by (auto simp: retransmit_to_def Send_def Let_def split: prod.split)

lemma retransmit_all_appends: "\<exists>xs. datagrams (snd (retransmit_all P env i ps packet seq d)) = datagrams d @ xs"
proof (induction ps arbitrary: i packet d)
  case (Cons p ps)
  obtain q d' where r: "retransmit_to P env i (Some (address p)) packet seq d = (q, d')" by fastforce
  with retransmit_to_appends [of P env i "Some (address p)" packet seq d] Cons.IH [of "Suc i" q d'] show ?case by auto
qed simp

lemma retry_body_appends: "\<exists>xs. datagrams (fst (retry_body P env now k v q)) = datagrams q @ xs"
  using retransmit_to_appends [of P env 0 _ v k q] retransmit_all_appends [of P env 0 "GetPeerList (peers q)" v k q]
  by (auto simp: retry_body_def RetransmitPacket_def Let_def split: prod.splits option.splits)
     (metis append_Nil2 snd_conv)+

text \<open>Whether a scan at a given time sends a packet again.\<close>

definition overdue :: "u32 \<Rightarrow> OutgoingPacket \<Rightarrow> bool" where
  "overdue now packet \<longleftrightarrow> packet_age now packet > kResendIntervalSeconds"

definition resent :: "ZPeerMapping \<Rightarrow> (Address option \<times> byte list) list \<Rightarrow> u32 \<Rightarrow> OutgoingPacket \<Rightarrow> bool" where
  "resent ps sent k packet \<longleftrightarrow> (\<forall>t \<in> set (retransmit_targets ps packet). \<exists>b. (t, b) \<in> set sent \<and> (\<forall>h. LoadU32 h b 20 = k))"

lemma resent_zip:
  assumes "length bs = length (retransmit_targets ps packet)" and "\<forall>b \<in> set bs. \<forall>h. LoadU32 h b 20 = k"
  shows "resent ps (xs @ zip (retransmit_targets ps packet) bs @ ys) k packet"
  unfolding resent_def
proof
  fix t assume "t \<in> set (retransmit_targets ps packet)"
  then obtain i where "i < length bs" "t = retransmit_targets ps packet ! i" using assms(1) by (metis in_set_conv_nth)
  then have "(t, bs ! i) \<in> set (zip (retransmit_targets ps packet) bs)" "bs ! i \<in> set bs"
    using assms(1) by (auto simp: set_zip)
  then show "\<exists>b. (t, b) \<in> set (xs @ zip (retransmit_targets ps packet) bs @ ys) \<and> (\<forall>h. LoadU32 h b 20 = k)"
    using assms(2) by (intro exI [of _ "bs ! i"]) auto
qed

lemma resent_append: "resent ps ys k packet \<Longrightarrow> resent ps (xs @ ys) k packet"
  unfolding resent_def by (metis Un_iff set_append)

lemma retry_fold_sends:
  assumes send: "\<forall>a b. b \<noteq> [] \<longrightarrow> sendto env a b > 0" and "peers q = ps"
  shows "\<exists>sent. datagrams (fold (\<lambda>(k, v) s. fst (retry_body P env now k v s)) es q) = datagrams q @ sent \<and>
    (\<forall>(k, v) \<in> set es. overdue now v \<and> packet_age now v \<le> kDropAfterSeconds \<and> resendable v \<longrightarrow> resent ps sent k v)"
  using assms(2)
proof (induction es arbitrary: q)
  case (Cons e es)
  obtain k v where e: "e = (k, v)" by fastforce
  obtain q1 act where r: "retry_body P env now k v q = (q1, act)" by fastforce
  from retry_body_spec(2) [OF r] Cons.prems have "peers q1 = ps" by simp
  from Cons.IH [OF this] obtain sent where
    sent: "datagrams (fold (\<lambda>(k, v) s. fst (retry_body P env now k v s)) es q1) = datagrams q1 @ sent"
    "\<forall>(k, v) \<in> set es. overdue now v \<and> packet_age now v \<le> kDropAfterSeconds \<and> resendable v \<longrightarrow> resent ps sent k v" by blast
  from retry_body_appends [of P env now k v q] r obtain xs where xs: "datagrams q1 = datagrams q @ xs" by auto
  have "resent ps (xs @ sent) k v" if due: "overdue now v" "packet_age now v \<le> kDropAfterSeconds" "resendable v"
  proof -
    from RetransmitPacket_datagrams [OF due(3) send, of P k q] obtain bs where
      bs: "datagrams (snd (RetransmitPacket P env v k q)) = datagrams q @ zip (retransmit_targets ps v) bs"
      "length bs = length (retransmit_targets ps v)" "\<forall>b \<in> set bs. \<forall>h. LoadU32 h b 20 = k" using Cons.prems by auto
    have "q1 = snd (RetransmitPacket P env v k q)"
      using r due(1,2) by (auto simp: retry_body_def packet_age_def overdue_def Let_def split: prod.splits if_splits)
    with bs(1) xs have "xs = zip (retransmit_targets ps v) bs" by simp
    with resent_zip [OF bs(2,3), of "[]" sent] show ?thesis by simp
  qed
  moreover have "\<forall>(k, v) \<in> set es. overdue now v \<and> packet_age now v \<le> kDropAfterSeconds \<and> resendable v \<longrightarrow> resent ps (xs @ sent) k v"
    using sent(2) resent_append by blast
  ultimately show ?case using sent(1) xs e r by (intro exI [of _ "xs @ sent"]) simp
qed simp

text \<open>One scan, and a run of scans.\<close>

lemma after_retry_entry:
  assumes "(k, v) \<in> set es" and "packet_age now v \<le> 5"
  shows "if overdue now v then \<exists>v'. (k, v') \<in> set (after_retry P now ps es) \<and> last_send_time v' = now \<and>
      destination_peer_id v' = destination_peer_id v
    else (k, v) \<in> set (after_retry P now ps es)"
  using assms by (force simp: after_retry_def retry_action_def overdue_def kDropAfterSeconds_def not_less)

lemma after_retry_resendable:
  "\<forall>(k, v) \<in> set es. resendable v \<Longrightarrow> \<forall>(k, v) \<in> set (after_retry P now ps es). resendable v"
  by (auto simp: after_retry_def retry_action_def split: if_splits)

lemma retry_scan_sends:
  assumes "receipts_ok (std_hash env) q" and young: "\<forall>(k, v) \<in> set (unacknowledged q). packet_age now v \<le> 5"
  shows "\<exists>q' sent. retry_scan P env now q = Some q' \<and> receipts_ok (std_hash env) q' \<and> peers q' = peers q \<and>
    unacknowledged q' = after_retry P now (peers q) (unacknowledged q) \<and> datagrams q' = datagrams q @ sent \<and>
    ((\<forall>a b. b \<noteq> [] \<longrightarrow> sendto env a b > 0) \<longrightarrow>
      (\<forall>(k, v) \<in> set (unacknowledged q). overdue now v \<and> resendable v \<longrightarrow> resent (peers q) sent k v))"
proof -
  from retry_scan_spec [OF assms(1), of P now] obtain q' es where
    q': "retry_scan P env now q = Some q'" "receipts_ok (std_hash env) q'" "peers q' = peers q"
    "unacknowledged q' = after_retry P now (peers q) (unacknowledged q)" and es: "set es = set (unacknowledged q)"
    "datagrams q' = datagrams (fold (\<lambda>(k, v) s. fst (retry_body P env now k v s)) es q)" by blast
  have "\<exists>sent. datagrams (fold (\<lambda>(k, v) s. fst (retry_body P env now k v s)) es q) = datagrams q @ sent" for q :: "'a ZPacketQueue_scheme"
  proof (induction es arbitrary: q)
    case (Cons e es)
    show ?case using Cons.IH [of "fst (retry_body P env now (fst e) (snd e) q)"] retry_body_appends [of P env now "fst e" "snd e" q]
      by (auto simp: case_prod_beta)
  qed simp
  then obtain sent where sent: "datagrams q' = datagrams q @ sent" using es(2) by metis
  have "\<forall>(k, v) \<in> set (unacknowledged q). overdue now v \<and> resendable v \<longrightarrow> resent (peers q) sent k v"
    if "\<forall>a b. b \<noteq> [] \<longrightarrow> sendto env a b > 0"
    using retry_fold_sends [of env q "peers q" P now es] that sent es young
    by (auto simp: kDropAfterSeconds_def)
  with q' sent show ?thesis by blast
qed

lemma retry_run_keeps:
  "receipts_ok hash q \<Longrightarrow> regular_scans hash (pre @ (env, now) # rest) \<Longrightarrow>
   \<forall>(k, v) \<in> set (unacknowledged q). packet_age (snd (hd (pre @ [(env, now)]))) v \<le> 5 \<Longrightarrow>
   \<exists>q1. retry_run P pre q = Some q1 \<and> receipts_ok (std_hash env) q1 \<and> peers q1 = peers q \<and>
     map fst (unacknowledged q1) = map fst (unacknowledged q) \<and>
     (\<forall>(k, v) \<in> set (unacknowledged q1). packet_age now v \<le> 5) \<and>
     ((\<forall>(k, v) \<in> set (unacknowledged q). resendable v) \<longrightarrow> (\<forall>(k, v) \<in> set (unacknowledged q1). resendable v))"
proof (induction pre arbitrary: q)
  case Nil
  have "std_hash env = hash" using Nil.prems(2) by (cases rest) auto
  with Nil show ?case by simp
next
  case (Cons scan pre)
  obtain env0 now0 where s: "scan = (env0, now0)" by fastforce
  obtain env1 now1 rest1 where later: "pre @ (env, now) # rest = (env1, now1) # rest1" "snd (hd (pre @ [(env, now)])) = now1"
    by (cases pre) auto
  with later Cons.prems(2) s have hash: "std_hash env0 = hash" "now1 - now0 \<le> 4" "regular_scans hash (pre @ (env, now) # rest)" by auto
  have young: "\<forall>(k, v) \<in> set (unacknowledged q). packet_age now0 v \<le> 5" using Cons.prems(3) s by simp
  with retry_scan_sends [of env0 q now0 P] Cons.prems(1) hash(1) obtain q1 where
    q1: "retry_scan P env0 now0 q = Some q1" "receipts_ok hash q1" "peers q1 = peers q"
    "unacknowledged q1 = after_retry P now0 (peers q) (unacknowledged q)" by auto
  note kept = after_retry_keeps [OF young, of P "peers q", folded q1(4)]
  with age_later hash(2) have "\<forall>(k, v) \<in> set (unacknowledged q1). packet_age (snd (hd (pre @ [(env, now)]))) v \<le> 5"
    unfolding later(2) by blast
  from Cons.IH [OF q1(2) hash(3) this] q1 kept s after_retry_resendable [of "unacknowledged q" P now0 "peers q"]
  show ?case by auto
qed

lemma settled_counters:
  assumes "receipts_ok hash q" and "receipts_ok hash' q'"
    and "unacknowledged q' = filter (\<lambda>(k, v). \<not> (k = seq \<and> destined i v)) (unacknowledged q)"
  shows "let settled = filter (\<lambda>(k, v). k = seq \<and> destined i v) (unacknowledged q) in
    length settled \<le> 1 \<and> awaiting_ack_packet_count q = awaiting_ack_packet_count q' + of_nat (length settled) \<and>
    awaiting_ack_bytes q = awaiting_ack_bytes q' + of_nat (payload_total settled)"
proof -
  let ?settled = "filter (\<lambda>(k, v). k = seq \<and> destined i v) (unacknowledged q)"
  have split: "length es = length (filter (\<lambda>(k, v). \<not> (k = seq \<and> destined i v)) es) + length (filter (\<lambda>(k, v). k = seq \<and> destined i v) es) \<and>
    payload_total es = payload_total (filter (\<lambda>(k, v). \<not> (k = seq \<and> destined i v)) es) + payload_total (filter (\<lambda>(k, v). k = seq \<and> destined i v) es)" for es
    by (induction es) auto
  have "distinct (map fst (unacknowledged q))" using assms(1) map_inv_distinct by (auto simp: receipts_ok_def)
  then have "distinct (map fst ?settled)" by (rule distinct_map_filter)
  moreover have "set (map fst ?settled) \<subseteq> {seq}" by auto
  ultimately have "length (map fst ?settled) \<le> card {seq}" by (metis card_mono distinct_card finite.emptyI finite.insertI)
  then show ?thesis using assms split [of "unacknowledged q"] by (simp add: receipts_ok_def Let_def flip: of_nat_add)
qed

subsection \<open>Properties\<close>

text \<open>C13: over any history of pushes, pops, iterations of both threads and executor tasks in any order,
  the packet queue never touches freed memory, and its pressure counters are exact: the number and
  the bytes of the packets that await an acknowledgement, and the number of dispatch tasks that are
  submitted and not yet done.\<close>

theorem queue_counters_exact:
  assumes "list_all (event_lawful hash) evs"
  shows "\<exists>ds ps q. queue_run P evs (new_packet_queue t) = Some (ds, ps, q) \<and>
    distinct (map fst (unacknowledged q)) \<and>
    awaiting_ack_packet_count q = of_nat (length (unacknowledged q)) \<and>
    awaiting_ack_bytes q = of_nat (payload_total (unacknowledged q)) \<and>
    pending_dispatch_tasks q = of_nat (length (dispatch_tasks q))"
  using queue_run_inv [OF queue_inv_new assms, of P t] map_inv_distinct
  by (fastforce simp: queue_inv_def receipts_ok_def)

theorem queue_counters_exact_witness:
  "\<exists>ds ps q. queue_run sample_platform [PushEvent 0 sample_packet, OutgoingTick sample_env 0 0,
      RunTask sample_env 0, ReceiveTick sample_env 64 sample_event, PopEvent Data] (new_packet_queue 0) =
      Some (ds, ps, q) \<and> awaiting_ack_packet_count q = of_nat (length (unacknowledged q))"
proof -
  have "list_all (event_lawful (std_hash sample_env)) [PushEvent 0 sample_packet, OutgoingTick sample_env 0 0,
      RunTask sample_env 0, ReceiveTick sample_env 64 sample_event, PopEvent Data]"
    using sample_env_lawful sample_event_ok(1) by simp
  from queue_counters_exact [OF this] show ?thesis by blast
qed

text \<open>C11: whatever arrives, in whatever order and however often, the application pops a reliable packet
  of a peer at most once per sequence number; and every packet that was accepted is either popped
  or still waiting in its channel queue, none lost and none made up.\<close>

theorem reliable_packets_popped_once:
  assumes "list_all (event_lawful hash) evs" and "queue_run P evs (new_packet_queue t) = Some (ds, ps, q)"
  shows "distinct (reliable_keys ps) \<and> mset ds = mset ps + waiting_packets q"
proof -
  have "waiting_packets (new_packet_queue t) = {#}"
    by (simp add: waiting_packets_def new_packet_queue_def PacketDispatcher.defs ZPacketQueue.defs new_dispatcher_def
        departures_def)
  with queue_run_delivery [OF queue_inv_new assms] have m: "mset ds = mset ps + waiting_packets q"
    and dist: "distinct (reliable_keys ds)" by auto
  have "mset (reliable_keys ps) \<subseteq># mset (reliable_keys ds)"
    using m by (simp add: reliable_keys_def image_mset_subseteq_mono multiset_filter_mono)
  then have "distinct (reliable_keys ps)"
    using dist distinct_submultiset by blast
  with m show ?thesis by blast
qed

theorem reliable_packets_popped_once_witness:
  "\<exists>ds ps q. queue_run sample_platform [ReceiveTick sample_env 64 sample_event,
      ReceiveTick sample_env 64 sample_event, PopEvent Data, PopEvent Data] (new_packet_queue 0) = Some (ds, ps, q) \<and>
    distinct (reliable_keys ps) \<and> mset ds = mset ps + waiting_packets q"
proof -
  have law: "list_all (event_lawful (std_hash sample_env)) [ReceiveTick sample_env 64 sample_event,
      ReceiveTick sample_env 64 sample_event, PopEvent Data, PopEvent Data]"
    using sample_event_ok(1) by simp
  from queue_run_inv [OF queue_inv_new law] obtain ds ps q where
    "queue_run sample_platform [ReceiveTick sample_env 64 sample_event,
      ReceiveTick sample_env 64 sample_event, PopEvent Data, PopEvent Data] (new_packet_queue 0) = Some (ds, ps, q)"
    by blast
  with reliable_packets_popped_once [OF law this] show ?thesis by blast
qed

text \<open>C12: the acknowledgement a receiver sends for a packet settles it at the sender.  The packet
  \<^verbatim>\<open>AddAwaitingAckPacket\<close> makes, built on a host of any byte order, encrypted or not, and received on
  a little-endian host from the address of a peer, removes exactly the entry with the acknowledged
  sequence number, if that packet was meant for the peer (or for the server, or for all), and
  leaves every other entry alone.  The two counters, exact before, lose exactly this packet and its bytes.\<close>

theorem acknowledgement_settles_packet:
  assumes laws: "gcm_lawful P" "lz4_lawful P"
    and build: "BuildPacket P now rand crypto (ack_packet P block e ret seq) n = (bytes, pk, crypto')" "bytes \<noteq> []"
    and block: "block \<noteq> 0"
    and keys: "e \<Longrightarrow> \<exists>nonce c s. rand = Some nonce \<and> length nonce = kNonceSize \<and> crypto' = Some c \<and>
        crypto_context q = Some s \<and> keys_initialized s \<and> encryption_key s = encryption_key c"
    and ev: "recv_lawful ev" "is_datagram ev" "recv_data ev = bytes"
    and peer: "GetOrCreatePeer (snd (Receive True (recv_source ev) (receive_address (packet_receiver q)))) (peers q) =
      (Some peer, ps')"
    and q: "queue_inv (std_hash env) q" "\<not> stop_threads q"
  shows "\<exists>q'. receive_tick (P\<lparr>host := LittleEndian\<rparr>) env block' ev q = Some (None, q') \<and>
    unacknowledged q' =
      filter (\<lambda>(k, v). \<not> (k = seq \<and> destined (peer_identifier peer) v)) (unacknowledged q) \<and>
    (let settled = filter (\<lambda>(k, v). k = seq \<and> destined (peer_identifier peer) v) (unacknowledged q) in
       length settled \<le> 1 \<and>
       awaiting_ack_packet_count q = awaiting_ack_packet_count q' + of_nat (length settled) \<and>
       awaiting_ack_bytes q = awaiting_ack_bytes q' + of_nat (payload_total settled))"
proof -
  let ?Q = "P\<lparr>host := LittleEndian\<rparr>"
  let ?addr = "snd (Receive True (recv_source ev) (receive_address (packet_receiver q)))"
  from receive_built_ack [OF laws build block refl keys peer] obtain pack where
    pack: "receive_datagram ?Q (crypto_context q) (peers q) ?addr bytes = (Acknowledgement pack, crypto_context q, ps')"
    "source_peer_id pack = peer_identifier peer" "ip_data pack = word_bytes seq" by blast
  have "socket_valid ev" using ev(2) by (simp add: is_datagram_def)
  with ReceivePackets_datagram [OF ev(1,2) refl, of ?Q "crypto_context q" "peers q" "packet_receiver q"] pack(1) ev(3)
  obtain r where rp: "ReceivePackets ?Q ev (crypto_context q) (peers q) (packet_receiver q) =
      (Acknowledgement pack, crypto_context q, ps', r)" by auto
  have load: "LoadU32 (host ?Q) (ip_data pack) 0 = seq" unfolding pack(3)
    by (simp add: Load_eq block_at_def bytes_word_bytes)
  let ?q = "q\<lparr>crypto_context := crypto_context q, peers := ps', packet_receiver := r\<rparr>"
  have ok: "receipts_ok (std_hash env) q" "receipts_ok (std_hash env) ?q" using q(1) by (simp_all add: queue_inv_def receipts_ok_def)
  from acknowledge_spec [OF ok(2), of "peer_identifier peer" seq] obtain q' where
    q': "acknowledge env (peer_identifier peer) seq ?q = Some q'" "receipts_ok (std_hash env) q'"
    "unacknowledged q' = filter (\<lambda>(k, v). \<not> (k = seq \<and> destined (peer_identifier peer) v)) (unacknowledged q)"
    by auto
  from q' settled_counters [OF ok(1) q'(2,3)] show ?thesis using q(2) rp pack(2,3) load by (simp add: receive_tick_def)
qed

definition sample_map :: "(u32, OutgoingPacket) hash_map" where
  "sample_map = snd (the (insert_map unat 1 5 sample_packet (new_map 200)))"

lemma sample_map_ok: "map_inv unat sample_map" "live_entries sample_map = [(5, sample_packet)]"
proof -
  have unused: "node_heap (new_map 200 :: (u32, OutgoingPacket) hash_map) 1 = None" by (simp add: new_map_def)
  from hm.ins_law [OF map_inv_new(1) unused, of unat 5 sample_packet]
  show "map_inv unat sample_map" "live_entries sample_map = [(5, sample_packet)]"
    by (auto simp: sample_map_def map_inv_new(2))
qed

definition sample_queue :: ZPacketQueue where
  "sample_queue = (new_packet_queue 0)\<lparr>awaiting_ack_packets := sample_map, awaiting_ack_packet_count := 1,
     awaiting_ack_bytes := 3\<rparr>"

lemma sample_queue_ok:
  "queue_inv unat sample_queue" "unacknowledged sample_queue = [(5, sample_packet)]" "\<not> stop_threads sample_queue"
  "crypto_context sample_queue = None" "peers sample_queue = new_mapping" "packet_receiver sample_queue = new_receiver"
proof -
  have "heap_data_size sample_packet = 3" by (simp add: sample_packet_def OutgoingPacket_with_data_def)
  then show "queue_inv unat sample_queue"
    using queue_inv_new [of unat 0] sample_map_ok by (simp add: sample_queue_def queue_inv_def receipts_ok_def)
qed (simp_all add: sample_queue_def sample_map_ok new_packet_queue_def new_dispatcher_def PacketDispatcher.defs
    ZPacketQueue.defs)

definition sample_ack_bytes :: "byte list" where
  "sample_ack_bytes = fst (BuildPacket sample_platform 0 None None (ack_packet sample_platform 4096 False 0 5) 9)"

lemma sample_ack_build:
  "BuildPacket sample_platform 0 None None (ack_packet sample_platform 4096 False 0 5) 9 =
     (sample_ack_bytes, ack_packet sample_platform 4096 False 0 5, None) \<and> length sample_ack_bytes = 28"
  by code_simp

definition sample_ack_event :: recv_event where
  "sample_ack_event = \<lparr>socket_valid = True,
     recv_source = \<lparr>result_code = 28, source_family = AF_INET, source_port = 4000,
       source_text = ascii ''10.0.0.1''\<rparr>,
     recv_data = sample_ack_bytes, recv_errno = EAGAIN\<rparr>"

theorem acknowledgement_settles_packet_witness:
  "\<exists>q' k. receive_tick (sample_platform\<lparr>host := LittleEndian\<rparr>) sample_env 64 sample_ack_event sample_queue =
      Some (None, q') \<and> unacknowledged q' = filter (\<lambda>(s, v). \<not> (s = 5 \<and> destined k v)) [(5, sample_packet)]"
proof -
  have ev: "recv_lawful sample_ack_event" "is_datagram sample_ack_event" "recv_data sample_ack_event = sample_ack_bytes"
    using sample_ack_build by (simp_all add: recv_lawful_def is_datagram_def sample_ack_event_def MaxBufferSize_def)
  have ne: "sample_ack_bytes \<noteq> []" using sample_ack_build by auto
  have hash: "std_hash sample_env = unat" by (simp add: sample_env_def)
  let ?a = "snd (Receive True (recv_source sample_ack_event) (receive_address (packet_receiver sample_queue)))"
  obtain peer ps' where peer: "GetOrCreatePeer ?a (peers sample_queue) = (Some peer, ps')"
    by (simp add: GetOrCreatePeer_def sample_queue_ok new_mapping_def kMaxPeers_def GenerateId_def peer_id_defs
        Let_def)
  from acknowledgement_settles_packet [OF sample_lawful(1,2) conjunct1 [OF sample_ack_build] ne _ _ ev peer,
      of sample_env 64] sample_queue_ok hash
  show ?thesis by auto
qed

text \<open>C21: a packet that is never acknowledged is never given up, as long as the sending thread
  scans at least every four seconds.  Each scan keeps every packet; one that was last sent more than a
  second ago is stamped with the time of the scan and, if it is unencrypted and the system takes the
  datagrams, sent again under its number to every address it is meant for; any other stays as it is.  The limit of
  five seconds is therefore not reached.  (The comment at the drop says that packets
  which exceed their retry budget are dropped to bound memory.)\<close>

theorem unacknowledged_never_dropped:
  assumes "receipts_ok hash q" and "regular_scans hash (pre @ (env, now) # rest)"
    and "\<forall>(k, v) \<in> set (unacknowledged q). packet_age (snd (hd (pre @ [(env, now)]))) v \<le> 5"
  shows "\<exists>q1 q2 sent. retry_run P pre q = Some q1 \<and> retry_scan P env now q1 = Some q2 \<and> datagrams q2 = datagrams q1 @ sent \<and>
    map fst (unacknowledged q1) = map fst (unacknowledged q) \<and> map fst (unacknowledged q2) = map fst (unacknowledged q) \<and>
    (\<forall>(k, v) \<in> set (unacknowledged q1).
       if packet_age now v > 1 then \<exists>v'. (k, v') \<in> set (unacknowledged q2) \<and> last_send_time v' = now \<and>
           destination_peer_id v' = destination_peer_id v
       else (k, v) \<in> set (unacknowledged q2)) \<and>
    ((\<forall>(k, v) \<in> set (unacknowledged q). resendable v) \<and> (\<forall>a b. b \<noteq> [] \<longrightarrow> sendto env a b > 0) \<longrightarrow>
       (\<forall>(k, v) \<in> set (unacknowledged q1). packet_age now v > 1 \<longrightarrow>
          (\<forall>target \<in> set (retransmit_targets (peers q) v). \<exists>b. (target, b) \<in> set sent \<and> LoadU32 h b 20 = k)))"
proof -
  from retry_run_keeps [OF assms, of P] obtain q1 where q1: "retry_run P pre q = Some q1" "receipts_ok (std_hash env) q1"
    "peers q1 = peers q" "map fst (unacknowledged q1) = map fst (unacknowledged q)"
    and young: "\<forall>(k, v) \<in> set (unacknowledged q1). packet_age now v \<le> 5"
    and resend: "(\<forall>(k, v) \<in> set (unacknowledged q). resendable v) \<longrightarrow> (\<forall>(k, v) \<in> set (unacknowledged q1). resendable v)" by blast
  from retry_scan_sends [OF q1(2) young, of P] obtain q2 sent where q2: "retry_scan P env now q1 = Some q2"
    "unacknowledged q2 = after_retry P now (peers q1) (unacknowledged q1)" "datagrams q2 = datagrams q1 @ sent"
    "(\<forall>a b. b \<noteq> [] \<longrightarrow> sendto env a b > 0) \<longrightarrow>
      (\<forall>(k, v) \<in> set (unacknowledged q1). overdue now v \<and> resendable v \<longrightarrow> resent (peers q1) sent k v)" by blast
  have late: "overdue now v \<longleftrightarrow> packet_age now v > 1" for v by (simp add: overdue_def kResendIntervalSeconds_def)
  have keep: "if packet_age now v > 1 then \<exists>v'. (k, v') \<in> set (unacknowledged q2) \<and> last_send_time v' = now \<and>
      destination_peer_id v' = destination_peer_id v else (k, v) \<in> set (unacknowledged q2)"
    if "(k, v) \<in> set (unacknowledged q1)" for k v
  proof -
    have "packet_age now v \<le> 5" using young that by blast
    from after_retry_entry [OF that this, of P "peers q1"] show ?thesis unfolding late q2(2) .
  qed
  have send: "\<forall>target \<in> set (retransmit_targets (peers q) v). \<exists>b. (target, b) \<in> set sent \<and> LoadU32 h b 20 = k"
    if "(\<forall>(k, v) \<in> set (unacknowledged q). resendable v) \<and> (\<forall>a b. b \<noteq> [] \<longrightarrow> sendto env a b > 0)"
      "(k, v) \<in> set (unacknowledged q1)" "packet_age now v > 1" for k v
  proof -
    have "resent (peers q1) sent k v" using q2(4) resend that unfolding late by blast
    then show ?thesis unfolding resent_def q1(3) by blast
  qed
  have keys: "map fst (unacknowledged q2) = map fst (unacknowledged q)"
    using after_retry_keeps [OF young, of P "peers q1"] q1(4) q2(2) by simp
  show ?thesis
    by (rule exI [of _ q1], rule exI [of _ q2], rule exI [of _ sent], intro conjI q1(1,4) q2(1,3) keys)
      (use keep send in \<open>blast+\<close>)
qed

theorem unacknowledged_never_dropped_witness:
  "\<exists>q1 q2 sent. retry_run sample_platform [(sample_env, 3), (sample_env, 7), (sample_env, 11)] sample_queue = Some q1 \<and>
      retry_scan sample_platform sample_env 15 q1 = Some q2 \<and> datagrams q2 = datagrams q1 @ sent \<and>
      map fst (unacknowledged q1) = [5] \<and> map fst (unacknowledged q2) = [5]"
proof -
  have "last_send_time sample_packet = 0" by (simp add: sample_packet_def OutgoingPacket_with_data_def)
  then have "\<forall>(k, v) \<in> set (unacknowledged sample_queue). packet_age 3 v \<le> 5"
    by (simp add: sample_queue_ok packet_age_def)
  moreover have "regular_scans unat ([(sample_env, 3), (sample_env, 7), (sample_env, 11)] @ [(sample_env, 15)])"
    by (simp add: sample_env_def)
  ultimately show ?thesis
    using unacknowledged_never_dropped [OF queue_invD(1) [OF sample_queue_ok(1)], of "[(sample_env, 3), (sample_env, 7), (sample_env, 11)]"
        sample_env 15 "[]" sample_platform] sample_queue_ok(2)
    by fastforce
qed

text \<open>A packet that was sent to all peers is retransmitted to all of them under the one sequence
  number its entry has, which is the number one of the peers received it under: the others get
  it again under a number that is new to them.\<close>

theorem broadcast_retransmitted_to_all:
  assumes "destination_peer_id packet = to_all" and "payload_source packet = Some source"
    and "\<not> encrypted (op_flags packet)" and "reliable (op_flags packet)" and "length source + 44 < 2 ^ 32"
    and "\<And>a b. b \<noteq> [] \<Longrightarrow> sendto env a b > 0"
  shows "\<exists>bs. datagrams (snd (RetransmitPacket P env packet seq d)) =
      datagrams d @ zip (map (\<lambda>p. Some (address p)) (peer_list (peers d))) bs \<and>
    length bs = length (peer_list (peers d)) \<and> (\<forall>b \<in> set bs. LoadU32 h b 20 = seq)"
  using retransmit_all_datagrams [of packet env P 0 "peer_list (peers d)" seq d] assms
  by (auto simp: RetransmitPacket_def GetPeerList_def peer_id_defs resendable_def)

theorem broadcast_retransmitted_to_all_witness:
  "\<exists>bs. datagrams (snd (RetransmitPacket sample_platform sample_env (sample_packet\<lparr>destination_peer_id := to_all\<rparr>) 5
      (sample_queue\<lparr>peers := \<lparr>peer_ids = 2, peer_list = [\<lparr>peer_identifier = 0, address = empty_address\<rparr>,
        \<lparr>peer_identifier = 1, address = empty_address\<rparr>]\<rparr>\<rparr>))) =
      datagrams sample_queue @ zip [Some empty_address, Some empty_address] bs \<and> length bs = 2 \<and>
      (\<forall>b \<in> set bs. LoadU32 BigEndian b 20 = 5)"
proof -
  let ?p = "sample_packet\<lparr>destination_peer_id := to_all\<rparr>"
  have p: "payload_source ?p = Some [1, 2, 3]" "\<not> encrypted (op_flags ?p)" "reliable (op_flags ?p)"
    by (simp_all add: sample_packet_def OutgoingPacket_with_data_def payload_source_def sample_flags_def)
  have e: "b \<noteq> [] \<Longrightarrow> 0 < sendto sample_env a b" for a b by (simp add: sample_env_def)
  have "length [1 :: byte, 2, 3] + 44 < 2 ^ 32" by simp
  from broadcast_retransmitted_to_all [OF _ p this e, of sample_platform 5
      "sample_queue\<lparr>peers := \<lparr>peer_ids = 2, peer_list = [\<lparr>peer_identifier = 0, address = empty_address\<rparr>,
        \<lparr>peer_identifier = 1, address = empty_address\<rparr>]\<rparr>\<rparr>" BigEndian]
  show ?thesis by (simp add: numeral_2_eq_2)
qed

end
