(* ===== verification/Task_Executor.thy ===== *)
theory Task_Executor
  imports Znet_Prelude "HOL-Library.Multiset"
begin

text \<open>
  \<^verbatim>\<open>src/znet/z_task_executor.h\<close> and \<^verbatim>\<open>.cc\<close>: the executor interface \<^verbatim>\<open>ITaskExecutor\<close>, the inline
  executor and the thread pool.  The pool is a transition system: each step is one critical section
  of the code (a \<^verbatim>\<open>Submit\<close> that gets past its wait, a worker taking a task, finishing it or leaving
  its loop, the destructor raising \<^verbatim>\<open>stopping_\<close>), and a wait on a condition variable is the guard of
  a step.  Tasks are opaque; the model records which were accepted and which ran.
\<close>

definition ResolveWorkerCount :: "nat \<Rightarrow> nat \<Rightarrow> nat" where
  "ResolveWorkerCount hardware_threads requested =
     (if requested > 0 then requested else if hardware_threads \<le> 1 then 1 else hardware_threads - 1)"

lemma ResolveWorkerCount_pos: "0 < ResolveWorkerCount hardware_threads requested"
  by (simp add: ResolveWorkerCount_def)

subsection \<open>The thread pool\<close>

datatype 't worker = Waiting | Running 't | Exited

record 't thread_pool =
  workers :: "'t worker list"
  max_queued_tasks :: nat
  tasks :: "'t list"
  active_workers :: nat
  stopping :: bool
  destroying :: bool
  accepted :: "'t list"
  executed :: "'t list"

definition new_thread_pool :: "nat \<Rightarrow> nat \<Rightarrow> nat \<Rightarrow> 't thread_pool" where
  "new_thread_pool hardware_threads requested max_queued =
     \<lparr>workers = replicate (ResolveWorkerCount hardware_threads requested) Waiting,
      max_queued_tasks = max_queued, tasks = [], active_workers = 0, stopping = False, destroying = False,
      accepted = [], executed = []\<rparr>"

text \<open>\<^verbatim>\<open>Submit\<close>, given a possibly empty \<^verbatim>\<open>std::function\<close>: \<open>None\<close> while it waits for space.\<close>

definition Submit :: "'t option \<Rightarrow> 't thread_pool \<Rightarrow> 't thread_pool option" where
  "Submit task s =
     (case task of
        None \<Rightarrow> Some s
      | Some t \<Rightarrow>
          if stopping s then Some s
          else if max_queued_tasks s > 0 \<and> \<not> length (tasks s) < max_queued_tasks s then None
          else Some (s\<lparr>tasks := tasks s @ [t], accepted := accepted s @ [t]\<rparr>))"

text \<open>The condition \<^verbatim>\<open>Drain\<close> waits for.\<close>

definition drained :: "'t thread_pool \<Rightarrow> bool" where
  "drained s \<longleftrightarrow> tasks s = [] \<and> active_workers s = 0"

text \<open>\<^verbatim>\<open>WorkerLoop\<close>: taking a task or leaving, and what follows the task.\<close>

definition worker_take :: "nat \<Rightarrow> 't thread_pool \<Rightarrow> 't thread_pool option" where
  "worker_take i s =
     (if i < length (workers s) \<and> workers s ! i = Waiting then
        (case tasks s of
           [] \<Rightarrow> if stopping s then Some (s\<lparr>workers := (workers s)[i := Exited]\<rparr>) else None
         | t # rest \<Rightarrow> Some (s\<lparr>tasks := rest, active_workers := active_workers s + 1,
                               workers := (workers s)[i := Running t]\<rparr>))
      else None)"

definition worker_finish :: "nat \<Rightarrow> 't thread_pool \<Rightarrow> 't thread_pool option" where
  "worker_finish i s =
     (if i < length (workers s) then
        (case workers s ! i of
           Running t \<Rightarrow> Some (s\<lparr>active_workers := active_workers s - 1, workers := (workers s)[i := Waiting],
                               executed := executed s @ [t]\<rparr>)
         | _ \<Rightarrow> None)
      else None)"

text \<open>
  The destructor: its \<^verbatim>\<open>Drain\<close> returns, and later, under the lock again, it raises \<^verbatim>\<open>stopping_\<close>.  A
  submission may slip in between.  It then joins the workers.
\<close>

definition destroy_drain :: "'t thread_pool \<Rightarrow> 't thread_pool option" where
  "destroy_drain s = (if drained s then Some (s\<lparr>destroying := True\<rparr>) else None)"

definition destroy_stop :: "'t thread_pool \<Rightarrow> 't thread_pool option" where
  "destroy_stop s = (if destroying s then Some (s\<lparr>stopping := True\<rparr>) else None)"

definition joined :: "'t thread_pool \<Rightarrow> bool" where
  "joined s \<longleftrightarrow> stopping s \<and> list_all (\<lambda>w. w = Exited) (workers s)"

inductive worker_step :: "'t thread_pool \<Rightarrow> 't thread_pool \<Rightarrow> bool" where
  take: "worker_take i s = Some s' \<Longrightarrow> worker_step s s'"
| finish: "worker_finish i s = Some s' \<Longrightarrow> worker_step s s'"

inductive pool_step :: "'t thread_pool \<Rightarrow> 't thread_pool \<Rightarrow> bool" where
  submit: "Submit t s = Some s' \<Longrightarrow> pool_step s s'"
| work: "worker_step s s' \<Longrightarrow> pool_step s s'"
| drain: "destroy_drain s = Some s' \<Longrightarrow> pool_step s s'"
| stop: "destroy_stop s = Some s' \<Longrightarrow> pool_step s s'"

inductive pool_reachable :: "nat \<Rightarrow> nat \<Rightarrow> nat \<Rightarrow> 't thread_pool \<Rightarrow> bool" for hw req mx where
  init: "pool_reachable hw req mx (new_thread_pool hw req mx)"
| step: "pool_reachable hw req mx s \<Longrightarrow> pool_step s s' \<Longrightarrow> pool_reachable hw req mx s'"

subsection \<open>Invariant\<close>

fun running :: "'t worker \<Rightarrow> 't list" where
  "running (Running t) = [t]"
| "running _ = []"

definition in_flight :: "'t thread_pool \<Rightarrow> 't list" where
  "in_flight s = concat (map running (workers s))"

definition pool_ok :: "nat \<Rightarrow> nat \<Rightarrow> 't thread_pool \<Rightarrow> bool" where
  "pool_ok n mx s \<longleftrightarrow> length (workers s) = n \<and> max_queued_tasks s = mx \<and>
     active_workers s = length (in_flight s) \<and> (mx > 0 \<longrightarrow> length (tasks s) \<le> mx) \<and>
     mset (accepted s) = mset (tasks s) + mset (in_flight s) + mset (executed s) \<and>
     (Exited \<in> set (workers s) \<longrightarrow> stopping s \<and> tasks s = [])"

lemma in_flight_update:
  assumes "i < length ws"
  shows "mset (concat (map running (ws[i := w]))) + mset (running (ws ! i)) =
    mset (concat (map running ws)) + mset (running w)"
  using assms
proof (induction ws arbitrary: i)
  case (Cons x ws)
  then show ?case by (cases i) (auto simp: ac_simps)
qed simp

lemma in_flight_length:
  assumes "i < length ws"
  shows "length (concat (map running (ws[i := w]))) + length (running (ws ! i)) =
    length (concat (map running ws)) + length (running w)"
  using arg_cong [where f = size, OF in_flight_update [OF assms, of w]] by simp

lemma running_length_le: "length (concat (map running ws)) \<le> length ws"
proof (induction ws)
  case (Cons w ws)
  then show ?case by (cases w) auto
qed simp

lemma worker_take_cases:
  assumes "worker_take i s = Some s'"
  obtains (leave) "i < length (workers s)" "workers s ! i = Waiting" "tasks s = []" "stopping s"
      "s' = s\<lparr>workers := (workers s)[i := Exited]\<rparr>"
    | (start) t rest where "i < length (workers s)" "workers s ! i = Waiting" "tasks s = t # rest"
      "s' = s\<lparr>tasks := rest, active_workers := active_workers s + 1, workers := (workers s)[i := Running t]\<rparr>"
  using assms by (auto simp: worker_take_def split: if_splits list.splits)

lemma worker_finish_cases:
  assumes "worker_finish i s = Some s'"
  obtains t where "i < length (workers s)" "workers s ! i = Running t"
    "s' = s\<lparr>active_workers := active_workers s - 1, workers := (workers s)[i := Waiting], executed := executed s @ [t]\<rparr>"
  using assms by (auto simp: worker_finish_def split: if_splits worker.splits)

lemma exited_update: "Exited \<in> set (ws[i := w]) \<Longrightarrow> w \<noteq> Exited \<Longrightarrow> Exited \<in> set ws"
  using set_update_subset_insert [of ws i w] by auto

lemma worker_step_ok:
  assumes ok: "pool_ok n mx s" and step: "worker_step s s'"
  shows "pool_ok n mx s'"
  using step
proof cases
  case (take i)
  then show ?thesis
  proof (cases rule: worker_take_cases)
    case leave
    with ok in_flight_update [of i "workers s" Exited] in_flight_length [of i "workers s" Exited] show ?thesis
      by (simp add: pool_ok_def in_flight_def)
  next
    case (start t rest)
    from in_flight_update [OF start(1), of "Running t"] in_flight_length [OF start(1), of "Running t"]
    have m: "mset (in_flight s') = add_mset t (mset (in_flight s))" and l: "length (in_flight s') = Suc (length (in_flight s))"
      by (simp_all add: in_flight_def start)
    have "Exited \<notin> set (workers s')"
      using ok exited_update [of "workers s" i "Running t"] by (auto simp: pool_ok_def start)
    with ok m l show ?thesis by (auto simp: pool_ok_def start)
  qed
next
  case (finish i)
  then obtain t where f: "i < length (workers s)" "workers s ! i = Running t"
    and s': "s' = s\<lparr>active_workers := active_workers s - 1, workers := (workers s)[i := Waiting], executed := executed s @ [t]\<rparr>"
    by (rule worker_finish_cases)
  from in_flight_update [OF f(1), of Waiting] in_flight_length [OF f(1), of Waiting]
  have m: "mset (in_flight s) = add_mset t (mset (in_flight s'))" and l: "length (in_flight s) = Suc (length (in_flight s'))"
    by (simp_all add: in_flight_def f(2) s')
  have "Exited \<in> set (workers s') \<longrightarrow> stopping s' \<and> tasks s' = []"
    using ok exited_update [of "workers s" i Waiting] by (auto simp: pool_ok_def s')
  moreover have "active_workers s' = length (in_flight s')" proof -
    have "active_workers s = Suc (length (in_flight s'))" using ok l by (simp add: pool_ok_def)
    then show ?thesis by (subst s') simp
  qed
  moreover have "mset (accepted s') = mset (tasks s') + mset (in_flight s') + mset (executed s')"
    using ok m by (simp add: pool_ok_def s')
  ultimately show ?thesis using ok by (simp add: pool_ok_def s')
qed

lemma Submit_ok:
  assumes "pool_ok n mx s" and "Submit task s = Some s'"
  shows "pool_ok n mx s'"
proof (cases "s' = s")
  case False
  with assms(2) obtain t where s': "s' = s\<lparr>tasks := tasks s @ [t], accepted := accepted s @ [t]\<rparr>"
    and room: "max_queued_tasks s = 0 \<or> length (tasks s) < max_queued_tasks s"
    by (auto simp: Submit_def split: if_splits option.splits)
  moreover from False assms(2) have "\<not> stopping s" by (auto simp: Submit_def split: option.splits)
  ultimately show ?thesis using assms(1) by (auto simp: pool_ok_def in_flight_def)
qed (use assms in simp)

lemma pool_step_ok:
  assumes ok: "pool_ok n mx s" and step: "pool_step s s'"
  shows "pool_ok n mx s'"
  using step
proof cases
  case (submit task)
  with ok show ?thesis by (rule Submit_ok)
next
  case work
  with worker_step_ok [OF ok] show ?thesis .
next
  case drain
  with ok show ?thesis by (auto simp: destroy_drain_def pool_ok_def in_flight_def split: if_splits)
next
  case stop
  with ok show ?thesis by (auto simp: destroy_stop_def pool_ok_def in_flight_def split: if_splits)
qed

lemma new_pool_ok: "pool_ok (ResolveWorkerCount hw req) mx (new_thread_pool hw req mx)"
  by (auto simp: pool_ok_def new_thread_pool_def in_flight_def map_replicate_const)

lemma pool_reachable_ok: "pool_reachable hw req mx s \<Longrightarrow> pool_ok (ResolveWorkerCount hw req) mx s"
  by (induction rule: pool_reachable.induct) (auto intro: new_pool_ok pool_step_ok)

subsection \<open>Draining\<close>

inductive worker_steps :: "'t thread_pool \<Rightarrow> 't thread_pool \<Rightarrow> bool" where
  none: "worker_steps s s"
| some: "worker_step s s' \<Longrightarrow> worker_steps s' s'' \<Longrightarrow> worker_steps s s''"

text \<open>
  As long as work is left some worker can move, and once the pool stops the waiting workers can
  leave.  Every step of a worker decreases the measure below.
\<close>

definition pool_measure :: "'t thread_pool \<Rightarrow> nat" where
  "pool_measure s = 3 * length (tasks s) + 2 * length (in_flight s) + length (filter (\<lambda>w. w = Waiting) (workers s))"

lemma waiting_update:
  assumes "i < length ws"
  shows "length (filter (\<lambda>w. w = Waiting) (ws[i := w])) + (if ws ! i = Waiting then 1 else 0) =
    length (filter (\<lambda>w. w = Waiting) ws) + (if w = Waiting then 1 else 0)"
  using assms
proof (induction ws arbitrary: i)
  case (Cons x ws)
  show ?case
  proof (cases i)
    case (Suc j)
    with Cons.IH [of j] Cons.prems show ?thesis by (auto split: if_splits)
  qed simp
qed simp

lemma worker_step_measure:
  assumes "worker_step s s'"
  shows "pool_measure s' < pool_measure s \<and> stopping s' = stopping s \<and> accepted s' = accepted s"
  using assms
proof cases
  case (take i)
  then show ?thesis
  proof (cases rule: worker_take_cases)
    case leave
    with waiting_update [of i "workers s" Exited] in_flight_length [of i "workers s" Exited] show ?thesis
      by (simp add: pool_measure_def in_flight_def)
  next
    case (start t rest)
    with waiting_update [of i "workers s" "Running t"] in_flight_length [of i "workers s" "Running t"] show ?thesis
      by (simp add: pool_measure_def in_flight_def)
  qed
next
  case (finish i)
  then obtain t where "i < length (workers s)" "workers s ! i = Running t"
    "s' = s\<lparr>active_workers := active_workers s - 1, workers := (workers s)[i := Waiting], executed := executed s @ [t]\<rparr>"
    by (rule worker_finish_cases)
  with waiting_update [of i "workers s" Waiting] in_flight_length [of i "workers s" Waiting] show ?thesis
    by (simp add: pool_measure_def in_flight_def)
qed

lemma worker_can_move:
  assumes "w \<in> set (workers s)" and "w \<noteq> Exited" and "w = Waiting \<Longrightarrow> tasks s \<noteq> [] \<or> stopping s"
  shows "\<exists>s'. worker_step s s'"
proof -
  from assms(1) obtain i where i: "i < length (workers s)" "workers s ! i = w" by (auto simp: in_set_conv_nth)
  show ?thesis
  proof (cases w)
    case Waiting
    with i assms(3) have "\<exists>s'. worker_take i s = Some s'"
      by (cases "tasks s") (auto simp: worker_take_def)
    then show ?thesis using worker_step.take by blast
  next
    case (Running t)
    with i have "\<exists>s'. worker_finish i s = Some s'" by (simp add: worker_finish_def)
    then show ?thesis using worker_step.finish by blast
  qed (use assms(2) in simp)
qed

lemma worker_progress:
  assumes ok: "pool_ok n mx s" and n: "0 < n"
    and work: "if stopping s then \<not> joined s else \<not> drained s"
  shows "\<exists>s'. worker_step s s'"
proof (cases "stopping s")
  case True
  with work obtain w where "w \<in> set (workers s)" "w \<noteq> Exited" by (auto simp: joined_def list_all_iff)
  with True show ?thesis by (intro worker_can_move) auto
next
  case run: False
  then have alive: "Exited \<notin> set (workers s)" using ok by (auto simp: pool_ok_def)
  show ?thesis
  proof (cases "tasks s")
    case Nil
    with work run ok have "in_flight s \<noteq> []" by (auto simp: drained_def pool_ok_def)
    then obtain w where "w \<in> set (workers s)" "running w \<noteq> []" by (auto simp: in_flight_def)
    with alive show ?thesis by (intro worker_can_move [of w]) (auto elim: running.elims)
  next
    case Cons
    have "hd (workers s) \<in> set (workers s)" using n ok by (cases "workers s") (auto simp: pool_ok_def)
    with alive Cons show ?thesis by (intro worker_can_move [of "hd (workers s)"]) auto
  qed
qed

lemma workers_reach:
  "pool_ok n mx s \<Longrightarrow> 0 < n \<Longrightarrow>
   \<exists>s'. worker_steps s s' \<and> (if stopping s then joined s' else drained s') \<and> accepted s' = accepted s \<and> pool_ok n mx s'"
proof (induction "pool_measure s" arbitrary: s rule: less_induct)
  case less
  show ?case
  proof (cases "if stopping s then \<not> joined s else \<not> drained s")
    case False
    with less.prems show ?thesis by (intro exI [of _ s]) (auto intro: worker_steps.none split: if_splits)
  next
    case True
    from worker_progress [OF less.prems this] obtain s1 where s1: "worker_step s s1" by blast
    note m = worker_step_measure [OF s1]
    from less.hyps [OF conjunct1 [OF m] worker_step_ok [OF less.prems(1) s1] less.prems(2)] m
    obtain s' where "worker_steps s1 s'" "if stopping s then joined s' else drained s'"
      "accepted s' = accepted s" "pool_ok n mx s'" by auto
    with worker_steps.some [OF s1] show ?thesis by blast
  qed
qed

lemma joined_executed: "pool_ok n mx s \<Longrightarrow> 0 < n \<Longrightarrow> joined s \<Longrightarrow> mset (executed s) = mset (accepted s)"
proof -
  assume ok: "pool_ok n mx s" and n: "0 < n" and j: "joined s"
  from j have w: "w = Exited" if "w \<in> set (workers s)" for w using that by (auto simp: joined_def list_all_iff)
  then have "running w = []" if "w \<in> set (workers s)" for w using that by fastforce
  then have "in_flight s = []" by (simp add: in_flight_def)
  moreover from n ok have "hd (workers s) \<in> set (workers s)" by (cases "workers s") (auto simp: pool_ok_def)
  with w have "Exited \<in> set (workers s)" by metis
  ultimately show ?thesis using ok by (simp add: pool_ok_def)
qed

lemma drained_executed: "pool_ok n mx s \<Longrightarrow> drained s \<Longrightarrow> mset (executed s) = mset (accepted s)"
  by (simp add: pool_ok_def drained_def)

lemma workers_finish:
  assumes "pool_reachable hw req mx s"
  shows "\<exists>s'. worker_steps s s' \<and> (if stopping s then joined s' else drained s') \<and> mset (executed s') = mset (accepted s)"
proof -
  from workers_reach [OF pool_reachable_ok [OF assms] ResolveWorkerCount_pos] obtain s' where
    s': "worker_steps s s'" "if stopping s then joined s' else drained s'" "accepted s' = accepted s"
    and ok: "pool_ok (ResolveWorkerCount hw req) mx s'" by blast
  have "mset (executed s') = mset (accepted s')"
    using s'(2) joined_executed [OF ok ResolveWorkerCount_pos] drained_executed [OF ok] by (auto split: if_splits)
  with s' show ?thesis by auto
qed

subsection \<open>The interface\<close>

text \<open>
  What a client may rely on: a submission it got past is accepted, and once the executor is idle
  everything accepted has run, exactly once.
\<close>

locale task_executor =
  fixes ok :: "'e \<Rightarrow> bool"
    and submit :: "'t option \<Rightarrow> 'e \<Rightarrow> 'e option"
    and closed :: "'e \<Rightarrow> bool"
    and idle :: "'e \<Rightarrow> bool"
    and taken :: "'e \<Rightarrow> 't list"
    and finished :: "'e \<Rightarrow> 't list"
  assumes submit_ok: "ok e \<Longrightarrow> submit t e = Some e' \<Longrightarrow> ok e'"
    and submit_taken: "ok e \<Longrightarrow> submit t e = Some e' \<Longrightarrow> taken e' = taken e @ (if closed e then [] else case t of None \<Rightarrow> [] | Some t \<Rightarrow> [t])"
    and submit_closed: "ok e \<Longrightarrow> submit t e = Some e' \<Longrightarrow> closed e' = closed e"
    and idle_ran: "ok e \<Longrightarrow> idle e \<Longrightarrow> mset (finished e) = mset (taken e)"
begin

fun submit_all :: "'t list \<Rightarrow> 'e \<Rightarrow> 'e option" where
  "submit_all [] e = Some e"
| "submit_all (t # ts) e = (case submit (Some t) e of None \<Rightarrow> None | Some e \<Rightarrow> submit_all ts e)"

lemma submit_all_taken:
  "ok e \<Longrightarrow> \<not> closed e \<Longrightarrow> submit_all ts e = Some e' \<Longrightarrow> ok e' \<and> taken e' = taken e @ ts"
proof (induction ts arbitrary: e)
  case (Cons t ts)
  from Cons.prems(3) obtain e1 where e1: "submit (Some t) e = Some e1" "submit_all ts e1 = Some e'"
    by (auto split: option.splits)
  note laws = submit_ok [OF Cons.prems(1) e1(1)] submit_taken [OF Cons.prems(1) e1(1)] submit_closed [OF Cons.prems(1) e1(1)]
  from Cons.IH [OF laws(1) _ e1(2)] laws Cons.prems(2) show ?case by simp
qed simp

lemma idle_after_all:
  assumes "ok e" "\<not> closed e" "submit_all ts e = Some e'" "idle e'"
  shows "mset (finished e') = mset (taken e) + mset ts"
  using submit_all_taken [OF assms(1-3)] idle_ran [OF _ assms(4)] by simp

end

text \<open>The inline executor runs a task inside \<^verbatim>\<open>Submit\<close>; its state is the list of tasks that ran.\<close>

definition inline_submit :: "'t option \<Rightarrow> 't list \<Rightarrow> 't list option" where
  "inline_submit task done_tasks = Some (case task of None \<Rightarrow> done_tasks | Some t \<Rightarrow> done_tasks @ [t])"

interpretation inline: task_executor "\<lambda>_. True" inline_submit "\<lambda>_. False" "\<lambda>_. True" id id
  by unfold_locales (simp_all add: inline_submit_def split: option.split)

interpretation thread_pool: task_executor "pool_ok n mx" Submit stopping drained accepted executed for n mx
proof unfold_locales
  show "pool_ok n mx e \<Longrightarrow> Submit t e = Some e' \<Longrightarrow> pool_ok n mx e'" for e t e'
    by (rule Submit_ok)
  show "pool_ok n mx e \<Longrightarrow> drained e \<Longrightarrow> mset (executed e) = mset (accepted e)" for e by (rule drained_executed)
qed (auto simp: Submit_def split: if_splits option.splits)

subsection \<open>Properties\<close>

text \<open>C19: whatever the interleaving of submitters, workers and the destructor, the pool never has more
  tasks queued than its bound nor more active workers than threads, and no task is lost or run
  twice: the accepted tasks are those queued, those running and those done.\<close>

theorem thread_pool_conserves_tasks:
  assumes "pool_reachable hw req mx s"
  shows "(mx > 0 \<longrightarrow> length (tasks s) \<le> mx) \<and> active_workers s \<le> length (workers s) \<and>
    mset (accepted s) = mset (tasks s) + mset (in_flight s) + mset (executed s)"
  using pool_reachable_ok [OF assms] running_length_le [of "workers s"]
  by (simp add: pool_ok_def in_flight_def)

theorem thread_pool_conserves_tasks_witness:
  "length (tasks (new_thread_pool 4 2 8 \<lparr>tasks := [''t''], accepted := [''t'']\<rparr>)) \<le> 8"
proof -
  have "pool_reachable 4 2 8 (new_thread_pool 4 2 8 \<lparr>tasks := [''t''], accepted := [''t'']\<rparr>)"
    by (rule pool_reachable.step [OF pool_reachable.init pool_step.submit [of "Some ''t''"]])
      (simp add: Submit_def new_thread_pool_def)
  from thread_pool_conserves_tasks [OF this] show ?thesis by simp
qed

text \<open>C20: \<^verbatim>\<open>Drain\<close> and the destructor do their job.  From every reachable state of a running pool the
  workers alone can reach the state \<^verbatim>\<open>Drain\<close> waits for, and in it every accepted task has run exactly
  once.  From every reachable state of a stopping pool they can all leave their loops, so that the
  joins return, and nobody leaves while a task is queued: then too every accepted task has run, even
  one submitted between the destructor's drain and its stop.  No schedule can put this off forever,
  since each step of a worker decreases the measure \<^const>\<open>pool_measure\<close>.\<close>

theorem thread_pool_drains:
  assumes "pool_reachable hw req mx s"
  shows "(\<exists>s'. worker_steps s s' \<and> (if stopping s then joined s' else drained s') \<and>
       mset (executed s') = mset (accepted s)) \<and>
    (\<forall>s'. worker_step s s' \<longrightarrow> pool_measure s' < pool_measure s)"
  using workers_finish [OF assms] worker_step_measure by blast

theorem thread_pool_drains_witness:
  "\<exists>s'. worker_steps (new_thread_pool 4 2 8 \<lparr>tasks := [''t''], accepted := [''t'']\<rparr>) s' \<and> drained s' \<and>
     executed s' = [''t'']"
proof -
  let ?s = "new_thread_pool 4 2 8 \<lparr>tasks := [''t''], accepted := [''t'']\<rparr>"
  have "pool_reachable 4 2 8 ?s"
    by (rule pool_reachable.step [OF pool_reachable.init pool_step.submit [of "Some ''t''"]])
      (simp add: Submit_def new_thread_pool_def)
  from thread_pool_drains [OF this] obtain s' where "worker_steps ?s s'" "drained s'" "mset (executed s') = {#''t''#}"
    by (auto simp: new_thread_pool_def)
  then show ?thesis by (metis mset_single_iff mset_single_iff_right)
qed

end
