(* ===== verification/Socket.thy ===== *)
theory Socket
  imports Peers
begin

text \<open>
  \<^verbatim>\<open>src/znet/z_socket.h\<close>, \<^verbatim>\<open>src/znet/z_socket.cc\<close> and \<^verbatim>\<open>src/znet/z_socket_posix.cc\<close>: creating and
  destroying the UDP socket, resolving host names and sending to an address.  The system calls are
  the record \<open>net_calls\<close>, one field per call with its outcome; what the process has open is a list of
  descriptors, so that a leak is visible.  The branches are those for POSIX; \<open>Socket_Platforms\<close> has those for Windows.  A socket address
  is a record of its family, its port in network byte order and the bytes of the address.
\<close>

record sockaddr =
  ss_family :: u8
  sin_port :: u16
  sin_addr :: "byte list"

record addrinfo =
  ai_family :: u8
  ai_addr :: "sockaddr option"
  ai_addrlen :: nat

record net_calls =
  net_host :: endian
  getaddrinfo :: "byte list \<Rightarrow> u8 \<Rightarrow> addrinfo list option"
  inet_ntop_text :: "u8 \<Rightarrow> byte list \<Rightarrow> byte list option"
  inet_pton :: "u8 \<Rightarrow> byte list \<Rightarrow> byte list option"
  open_socket :: "nat list \<Rightarrow> u8 \<Rightarrow> nat option"
  bind_socket :: "nat \<Rightarrow> sockaddr \<Rightarrow> bool"
  set_nonblocking :: "nat \<Rightarrow> bool"
  send_datagram :: "nat \<Rightarrow> sockaddr \<Rightarrow> byte list \<Rightarrow> int"

text \<open>
  \<open>open_socket\<close> is given the descriptors in use and returns one that is not, or \<open>None\<close> for the
  invalid one; \<open>set_nonblocking\<close> stands for the two calls of \<^verbatim>\<open>fcntl\<close>.
\<close>

definition opens_unused :: "net_calls \<Rightarrow> bool" where
  "opens_unused N \<longleftrightarrow> (\<forall>fds family fd. open_socket N fds family = Some fd \<longrightarrow> fd \<notin> set fds)"

definition numeric_addresses :: "net_calls \<Rightarrow> bool" where
  \<comment> \<open>the text of an address is a C string of at most 45 characters and is read back as the address\<close>
  "numeric_addresses N \<longleftrightarrow> (\<forall>family addr text. inet_ntop_text N family addr = Some text \<longrightarrow>
     length text \<le> 45 \<and> 0 \<notin> set text \<and> inet_pton N family text = Some addr)"

definition sizeof_sockaddr_storage :: nat where "sizeof_sockaddr_storage = 128"

definition htons :: "endian \<Rightarrow> u16 \<Rightarrow> u16" where
  "htons h v = (case h of LittleEndian \<Rightarrow> ByteSwap16 v | BigEndian \<Rightarrow> v)"

definition ntohs :: "endian \<Rightarrow> u16 \<Rightarrow> u16" where
  "ntohs h v = (case h of LittleEndian \<Rightarrow> ByteSwap16 v | BigEndian \<Rightarrow> v)"

definition zero_sockaddr :: sockaddr where
  "zero_sockaddr = \<lparr>ss_family = 0, sin_port = 0, sin_addr = []\<rparr>"

record ZSocket =
  socket_fd :: "nat option"
  server_sockaddr :: sockaddr
  socket_family :: u8

record process_sockets =
  open_fds :: "nat list"

definition new_socket :: ZSocket where
  "new_socket = \<lparr>socket_fd = None, server_sockaddr = zero_sockaddr, socket_family = AF_INET\<rparr>"

subsection \<open>Resolving\<close>

definition SetSockaddrPort :: "endian \<Rightarrow> u16 \<Rightarrow> sockaddr \<Rightarrow> sockaddr" where
  "SetSockaddrPort h port_number sock =
     (if ss_family sock = AF_INET6 then sock\<lparr>sin_port := htons h port_number\<rparr>
      else if ss_family sock = AF_INET then sock\<lparr>sin_port := htons h port_number\<rparr>
      else sock)"

definition AddressFromSockaddr :: "net_calls \<Rightarrow> sockaddr \<Rightarrow> Address option" where
  "AddressFromSockaddr N sock =
     (let out = \<lparr>ip = replicate 46 0, port = 0, address_family = 0\<rparr> in
      if ss_family sock = AF_INET6 then
        (case inet_ntop_text N AF_INET6 (sin_addr sock) of
           None \<Rightarrow> None
         | Some text \<Rightarrow> Some (out\<lparr>ip := inet_ntop text (ip out), port := ntohs (net_host N) (sin_port sock),
                                  address_family := AF_INET6\<rparr>))
      else if ss_family sock = AF_INET then
        (case inet_ntop_text N AF_INET (sin_addr sock) of
           None \<Rightarrow> None
         | Some text \<Rightarrow> Some (out\<lparr>ip := inet_ntop text (ip out), port := ntohs (net_host N) (sin_port sock),
                                  address_family := AF_INET\<rparr>))
      else None)"

text \<open>The caller's socket address is overwritten for every candidate that is looked at.\<close>

fun resolve_candidates :: "net_calls \<Rightarrow> u16 \<Rightarrow> addrinfo list \<Rightarrow> sockaddr \<Rightarrow> Address option \<times> sockaddr" where
  "resolve_candidates N port_number [] out = (None, out)"
| "resolve_candidates N port_number (candidate # rest) out =
     (case ai_addr candidate of
        None \<Rightarrow> resolve_candidates N port_number rest out
      | Some addr \<Rightarrow>
          if ai_addrlen candidate > sizeof_sockaddr_storage \<or>
             (ai_family candidate \<noteq> AF_INET \<and> ai_family candidate \<noteq> AF_INET6)
          then resolve_candidates N port_number rest out
          else
            let out = SetSockaddrPort (net_host N) port_number addr in
            case AddressFromSockaddr N out of
              None \<Rightarrow> resolve_candidates N port_number rest out
            | Some out_address \<Rightarrow> (Some out_address, out))"

definition ResolveSockaddr ::
  "net_calls \<Rightarrow> byte list \<Rightarrow> u16 \<Rightarrow> u8 \<Rightarrow> sockaddr \<Rightarrow> Address option \<times> sockaddr" where
  "ResolveSockaddr N host_name port_number family out =
     (if host_name = [] then (None, out)
      else case getaddrinfo N host_name family of
             None \<Rightarrow> (None, out)
           | Some results \<Rightarrow> resolve_candidates N port_number results out)"

definition ResolveAddress :: "net_calls \<Rightarrow> byte list \<Rightarrow> u16 \<Rightarrow> bool \<Rightarrow> Address option" where
  "ResolveAddress N host_name port_number ipv6 =
     fst (ResolveSockaddr N host_name port_number (if ipv6 then AF_INET6 else AF_INET) zero_sockaddr)"

subsection \<open>Creating and destroying\<close>

definition DestroySocket :: "ZSocket \<Rightarrow> process_sockets \<Rightarrow> ZSocket \<times> process_sockets" where
  "DestroySocket s p =
     (case socket_fd s of
        None \<Rightarrow> (s, p)
      | Some fd \<Rightarrow> (s\<lparr>socket_fd := None\<rparr>, p\<lparr>open_fds := remove1 fd (open_fds p)\<rparr>))"

definition open_descriptor :: "net_calls \<Rightarrow> u8 \<Rightarrow> process_sockets \<Rightarrow> nat option \<times> process_sockets" where
  "open_descriptor N family p =
     (case open_socket N (open_fds p) family of
        None \<Rightarrow> (None, p)
      | Some fd \<Rightarrow> (Some fd, p\<lparr>open_fds := fd # open_fds p\<rparr>))"

definition fail_destroyed :: "ZSocket \<Rightarrow> process_sockets \<Rightarrow> bool \<times> ZSocket \<times> process_sockets" where
  "fail_destroyed s p = (False, DestroySocket s p)"

definition CreateServer ::
  "net_calls \<Rightarrow> u16 \<Rightarrow> bool \<Rightarrow> ZSocket \<Rightarrow> process_sockets \<Rightarrow> bool \<times> ZSocket \<times> process_sockets" where
  "CreateServer N port_number ipv6 s p =
     (let family = (if ipv6 then AF_INET6 else AF_INET);
          s = s\<lparr>socket_family := family,
                server_sockaddr := \<lparr>ss_family = family, sin_port = htons (net_host N) port_number,
                                    sin_addr = replicate (if ipv6 then 16 else 4) 0\<rparr>\<rparr>
      in case open_descriptor N family p of
           (fd, p) \<Rightarrow>
             let s = s\<lparr>socket_fd := fd\<rparr> in
             (case fd of
                None \<Rightarrow> fail_destroyed s p
              | Some d \<Rightarrow>
                  if \<not> bind_socket N d (server_sockaddr s) then fail_destroyed s p
                  else if \<not> set_nonblocking N d then fail_destroyed s p
                  else (True, s, p)))"

definition CreateClient ::
  "net_calls \<Rightarrow> byte list \<Rightarrow> u16 \<Rightarrow> bool \<Rightarrow> u16 \<Rightarrow> ZSocket \<Rightarrow> process_sockets \<Rightarrow>
   bool \<times> ZSocket \<times> process_sockets" where
  "CreateClient N host_name port_number ipv6 local_bind_port s p =
     (case ResolveSockaddr N host_name port_number (if ipv6 then AF_INET6 else AF_INET) (server_sockaddr s) of
        (None, server) \<Rightarrow> fail_destroyed (s\<lparr>server_sockaddr := server\<rparr>) p
      | (Some resolved_endpoint, server) \<Rightarrow>
          let s = s\<lparr>server_sockaddr := server, socket_family := address_family resolved_endpoint\<rparr> in
          case open_descriptor N (socket_family s) p of
            (fd, p) \<Rightarrow>
              let s = s\<lparr>socket_fd := fd\<rparr> in
              (case fd of
                 None \<Rightarrow> fail_destroyed s p
               | Some d \<Rightarrow>
                   if local_bind_port \<noteq> 0 \<and>
                      \<not> bind_socket N d
                          \<lparr>ss_family = (if socket_family s = AF_INET6 then AF_INET6 else AF_INET),
                           sin_port = htons (net_host N) local_bind_port,
                           sin_addr = replicate (if socket_family s = AF_INET6 then 16 else 4) 0\<rparr>
                   then fail_destroyed s p
                   else if \<not> set_nonblocking N d then fail_destroyed s p
                   else (True, s, p)))"

subsection \<open>Sending\<close>

definition c_string :: "byte list \<Rightarrow> byte list" where
  "c_string buffer = takeWhile (\<lambda>b. b \<noteq> 0) buffer"

definition InternalSend :: "net_calls \<Rightarrow> sockaddr \<Rightarrow> byte list \<Rightarrow> ZSocket \<Rightarrow> int" where
  "InternalSend N target data s =
     (case socket_fd s of None \<Rightarrow> -1 | Some fd \<Rightarrow> send_datagram N fd target data)"

definition target_sockaddr :: "net_calls \<Rightarrow> Address \<Rightarrow> sockaddr option" where
  "target_sockaddr N target =
     (let family = (if address_family target = AF_INET6 then AF_INET6 else AF_INET) in
      map_option (\<lambda>addr. \<lparr>ss_family = family, sin_port = htons (net_host N) (port target), sin_addr = addr\<rparr>)
        (inet_pton N family (c_string (ip target))))"

definition SendTo :: "net_calls \<Rightarrow> Address \<Rightarrow> byte list \<Rightarrow> ZSocket \<Rightarrow> int" where
  "SendTo N target data s =
     (case target_sockaddr N target of None \<Rightarrow> -1 | Some addr \<Rightarrow> InternalSend N addr data s)"

definition SendtoServer :: "net_calls \<Rightarrow> byte list \<Rightarrow> ZSocket \<Rightarrow> int" where
  "SendtoServer N data s = InternalSend N (server_sockaddr s) data s"

subsection \<open>What is resolved is what is sent to\<close>

lemma ByteSwap16_twice [simp]: "ByteSwap16 (ByteSwap16 v) = v"
  by (rule bit_word_eqI) (auto simp: ByteSwap16_def bit_simps)

lemma ports [simp]: "ntohs h (htons h v) = v" "htons h (ntohs h v) = v"
  by (cases h; simp add: htons_def ntohs_def)+

lemma c_string_inet_ntop:
  "length text \<le> 45 \<Longrightarrow> 0 \<notin> set text \<Longrightarrow> c_string (inet_ntop text (replicate 46 0)) = text"
  by (auto simp: c_string_def inet_ntop_def memcpy_at_def takeWhile_append2 takeWhile_tail)

lemma AddressFromSockaddr_back:
  assumes "numeric_addresses N" and "AddressFromSockaddr N sa = Some a"
  shows "target_sockaddr N a = Some sa" and "port a = ntohs (net_host N) (sin_port sa)"
    and "ss_family sa = AF_INET \<or> ss_family sa = AF_INET6" and "address_family a = ss_family sa"
proof -
  have "AF_INET \<noteq> AF_INET6" by (simp add: AF_INET_def AF_INET6_def)
  with assms show "target_sockaddr N a = Some sa" "port a = ntohs (net_host N) (sin_port sa)"
    "ss_family sa = AF_INET \<or> ss_family sa = AF_INET6" "address_family a = ss_family sa"
    unfolding AddressFromSockaddr_def numeric_addresses_def
    by (auto simp: target_sockaddr_def c_string_inet_ntop Let_def split: if_splits option.splits)
qed

lemma resolve_candidates_sound:
  "resolve_candidates N p cs out = (Some a, sa) \<Longrightarrow>
   \<exists>c addr. c \<in> set cs \<and> ai_addr c = Some addr \<and> sa = SetSockaddrPort (net_host N) p addr \<and>
     AddressFromSockaddr N sa = Some a"
proof (induction cs arbitrary: out)
  case (Cons c cs)
  show ?case
  proof (cases "\<exists>out'. resolve_candidates N p cs out' = (Some a, sa)")
    case True
    with Cons.IH show ?thesis by (metis list.set_intros(2))
  next
    case False
    with Cons.prems show ?thesis by (auto simp: Let_def split: option.splits if_splits)
  qed
qed simp

lemma ResolveSockaddr_sound:
  assumes "ResolveSockaddr N host_name p family out = (Some a, sa)"
  shows "\<exists>results c addr. getaddrinfo N host_name family = Some results \<and> c \<in> set results \<and> ai_addr c = Some addr \<and>
    sa = SetSockaddrPort (net_host N) p addr \<and> AddressFromSockaddr N sa = Some a"
  using assms resolve_candidates_sound [of N p _ out a sa]
  by (auto simp: ResolveSockaddr_def split: if_splits option.splits)

subsection \<open>Descriptors\<close>

text \<open>The process has open what it had before, and the socket's descriptor if it has one.\<close>

definition owns :: "nat list \<Rightarrow> ZSocket \<Rightarrow> process_sockets \<Rightarrow> bool" where
  "owns fds s p \<longleftrightarrow> open_fds p = (case socket_fd s of None \<Rightarrow> fds | Some fd \<Rightarrow> fd # fds)"

lemma DestroySocket_owns: "owns fds s p \<Longrightarrow> DestroySocket s p = (s', p') \<Longrightarrow> socket_fd s' = None \<and> open_fds p' = fds"
  by (auto simp: owns_def DestroySocket_def split: option.splits)

lemma fail_destroyed_owns:
  "owns fds s p \<Longrightarrow> fail_destroyed s p = (r, s', p') \<Longrightarrow> \<not> r \<and> socket_fd s' = None \<and> open_fds p' = fds"
  by (auto simp: fail_destroyed_def dest: DestroySocket_owns)

lemma open_descriptor_owns:
  assumes "open_descriptor N family p = (fd, p')" and "open_fds p = fds"
  shows "owns fds (s\<lparr>socket_fd := fd\<rparr>) p'"
  using assms by (auto simp: open_descriptor_def owns_def split: option.splits)

definition created :: "nat list \<Rightarrow> bool \<times> ZSocket \<times> process_sockets \<Rightarrow> bool" where
  "created fds result = (case result of (r, s, p) \<Rightarrow> owns fds s p \<and> (r \<longleftrightarrow> socket_fd s \<noteq> None))"

lemma created_fail: "owns fds s p \<Longrightarrow> created fds (fail_destroyed s p)"
  by (cases "fail_destroyed s p") (auto simp: created_def owns_def dest: fail_destroyed_owns [unfolded owns_def])

lemma created_open: "owns fds s p \<Longrightarrow> socket_fd s = Some fd \<Longrightarrow> created fds (True, s, p)"
  by (simp add: created_def)

lemma CreateServer_created:
  assumes "socket_fd s = None" and "open_fds p = fds"
  shows "created fds (CreateServer N port_number ipv6 s p)"
proof -
  obtain fd p' where opened: "open_descriptor N (if ipv6 then AF_INET6 else AF_INET) p = (fd, p')" by fastforce
  have "open_fds p' = (case fd of None \<Rightarrow> fds | Some d \<Rightarrow> d # fds)"
    using open_descriptor_owns [OF opened assms(2), of s] by (simp add: owns_def)
  then show ?thesis unfolding CreateServer_def Let_def opened prod.case
    by (cases fd) (auto intro!: created_fail created_open simp: owns_def)
qed

lemma CreateClient_created:
  assumes "socket_fd s = None" and "open_fds p = fds"
  shows "created fds (CreateClient N host_name port_number ipv6 local_bind_port s p)"
proof -
  obtain a sa where r: "ResolveSockaddr N host_name port_number (if ipv6 then AF_INET6 else AF_INET) (server_sockaddr s) = (a, sa)"
    by fastforce
  show ?thesis
  proof (cases a)
    case None
    have "owns fds (s\<lparr>server_sockaddr := sa\<rparr>) p" using assms by (simp add: owns_def)
    then show ?thesis unfolding CreateClient_def r None prod.case option.case by (rule created_fail)
  next
    case (Some endpoint)
    let ?s = "s\<lparr>server_sockaddr := sa, socket_family := address_family endpoint\<rparr>"
    obtain fd p' where opened: "open_descriptor N (address_family endpoint) p = (fd, p')" by fastforce
    have "open_fds p' = (case fd of None \<Rightarrow> fds | Some d \<Rightarrow> d # fds)"
      using open_descriptor_owns [OF opened assms(2), of s] by (simp add: owns_def)
    then show ?thesis unfolding CreateClient_def r Some prod.case option.case Let_def
      by (cases fd) (auto intro!: created_fail created_open simp: opened owns_def)
  qed
qed

text \<open>A server socket that is created while the object still holds a descriptor.\<close>

lemma CreateServer_opens:
  assumes "CreateServer N port_number ipv6 s p = (True, s', p')"
  obtains fd where "open_socket N (open_fds p) (if ipv6 then AF_INET6 else AF_INET) = Some fd"
    "socket_fd s' = Some fd" "open_fds p' = fd # open_fds p"
proof -
  let ?fam = "if ipv6 then AF_INET6 else AF_INET"
  show thesis
  proof (cases "open_socket N (open_fds p) ?fam")
    case None
    then have "open_descriptor N ?fam p = (None, p)" by (simp add: open_descriptor_def)
    with assms show ?thesis by (simp add: CreateServer_def Let_def fail_destroyed_def split: if_splits)
  next
    case (Some fd)
    then have "open_descriptor N ?fam p = (Some fd, p\<lparr>open_fds := fd # open_fds p\<rparr>)" by (simp add: open_descriptor_def)
    with assms have "socket_fd s' = Some fd \<and> open_fds p' = fd # open_fds p"
      by (auto simp: CreateServer_def Let_def fail_destroyed_def split: if_splits)
    with Some that show ?thesis by blast
  qed
qed

subsection \<open>Properties\<close>

text \<open>An address that was resolved from a host name can be used: it has the port that was asked for,
  and \<^verbatim>\<open>Send\<close> turns it back into the socket address of one of the resolver's results, with that port
  in network byte order, on a host of either byte order.\<close>

theorem resolved_address_reaches_host:
  assumes "numeric_addresses N" and "ResolveAddress N host_name port_number ipv6 = Some a"
  shows "port a = port_number \<and>
    (\<exists>results c addr. getaddrinfo N host_name (if ipv6 then AF_INET6 else AF_INET) = Some results \<and> c \<in> set results \<and>
      ai_addr c = Some addr \<and>
      (\<forall>s fd data. socket_fd s = Some fd \<longrightarrow>
         SendTo N a data s = send_datagram N fd (addr\<lparr>sin_port := htons (net_host N) port_number\<rparr>) data))"
proof -
  let ?fam = "if ipv6 then AF_INET6 else AF_INET"
  from assms(2) obtain sa where "ResolveSockaddr N host_name port_number ?fam zero_sockaddr = (Some a, sa)"
    unfolding ResolveAddress_def by (metis prod.collapse)
  from ResolveSockaddr_sound [OF this] obtain results c addr where
    r: "getaddrinfo N host_name ?fam = Some results" "c \<in> set results" "ai_addr c = Some addr"
    "sa = SetSockaddrPort (net_host N) port_number addr" and a: "AddressFromSockaddr N sa = Some a" by blast
  note addr_inv = AddressFromSockaddr_back [OF assms(1) a]
  have sa: "sa = addr\<lparr>sin_port := htons (net_host N) port_number\<rparr>"
    using r(4) addr_inv(3) by (auto simp: SetSockaddrPort_def split: if_splits)
  with addr_inv(1,2) r(1-3) show ?thesis by (auto simp: SendTo_def InternalSend_def)
qed

definition sample_net :: net_calls where
  "sample_net =
     \<lparr>net_host = LittleEndian,
      getaddrinfo = (\<lambda>name family. Some [\<lparr>ai_family = AF_INET, ai_addr = Some \<lparr>ss_family = AF_INET, sin_port = 0,
         sin_addr = [1]\<rparr>, ai_addrlen = 16\<rparr>]),
      inet_ntop_text = (\<lambda>family addr. if addr = [1] then Some [49] else None),
      inet_pton = (\<lambda>family text. if text = [49] then Some [1] else None),
      open_socket = (\<lambda>fds family. Some (Suc (sum_list fds))),
      bind_socket = (\<lambda>_ _. True), set_nonblocking = (\<lambda>_. True), send_datagram = (\<lambda>fd target data. int (length data))\<rparr>"

lemma sample_net_lawful: "numeric_addresses sample_net" "opens_unused sample_net"
proof -
  show "numeric_addresses sample_net" by (simp add: numeric_addresses_def sample_net_def)
  have "Suc (sum_list fds) \<notin> set fds" for fds :: "nat list"
    using member_le_sum_list [of "Suc (sum_list fds)" fds] by auto
  then show "opens_unused sample_net" by (simp add: opens_unused_def sample_net_def)
qed

theorem resolved_address_reaches_host_witness:
  "\<exists>a. ResolveAddress sample_net [104] 0x1234 False = Some a \<and> port a = 0x1234 \<and>
    SendTo sample_net a [1, 2] (new_socket\<lparr>socket_fd := Some 7\<rparr>) = 2"
proof -
  have "\<exists>a. ResolveAddress sample_net [104] 0x1234 False = Some a"
    by (simp add: ResolveAddress_def ResolveSockaddr_def sample_net_def sizeof_sockaddr_storage_def
        SetSockaddrPort_def AddressFromSockaddr_def)
  then obtain a where a: "ResolveAddress sample_net [104] 0x1234 False = Some a" by blast
  from resolved_address_reaches_host [OF sample_net_lawful(1) a]
  have "port a = 0x1234" "SendTo sample_net a [1, 2] (new_socket\<lparr>socket_fd := Some 7\<rparr>) = 2"
    by (auto simp: sample_net_def)
  with a show ?thesis by blast
qed

text \<open>C35: creating a socket, whether it succeeds or fails at any of its steps, and destroying it leave no
  descriptor open but the one the object holds.  That needs the object to hold none when it is
  created: creating a server on an object that still has a descriptor leaves the old one open, and
  nothing refers to it any more.\<close>

theorem socket_descriptors_accounted:
  assumes "owns fds s p" and "opens_unused N"
  shows "open_fds (snd (DestroySocket s p)) = fds \<and>
    (socket_fd s = None \<longrightarrow> created fds (CreateServer N port_number ipv6 s p) \<and>
       created fds (CreateClient N host_name port_number ipv6 local_bind_port s p)) \<and>
    (\<forall>old s' p'. socket_fd s = Some old \<and> CreateServer N port_number ipv6 s p = (True, s', p') \<longrightarrow>
       old \<in> set (open_fds p') \<and> socket_fd s' \<noteq> Some old)"
proof (intro conjI impI allI)
  show "open_fds (snd (DestroySocket s p)) = fds" using DestroySocket_owns [OF assms(1)] by (metis prod.collapse)
next
  assume none: "socket_fd s = None"
  with assms(1) have "open_fds p = fds" by (simp add: owns_def)
  with none show "created fds (CreateServer N port_number ipv6 s p)"
    "created fds (CreateClient N host_name port_number ipv6 local_bind_port s p)"
    by (auto intro: CreateServer_created CreateClient_created)
next
  fix old s' p' assume "socket_fd s = Some old \<and> CreateServer N port_number ipv6 s p = (True, s', p')"
  then have old: "old \<in> set (open_fds p)" and c: "CreateServer N port_number ipv6 s p = (True, s', p')"
    using assms(1) by (simp_all add: owns_def)
  from CreateServer_opens [OF c] obtain fd where
    "open_socket N (open_fds p) (if ipv6 then AF_INET6 else AF_INET) = Some fd"
    "socket_fd s' = Some fd" "open_fds p' = fd # open_fds p" .
  with old assms(2) show "old \<in> set (open_fds p')" "socket_fd s' \<noteq> Some old" unfolding opens_unused_def by auto
qed

theorem socket_descriptors_accounted_witness:
  "created [] (CreateServer sample_net 80 False new_socket \<lparr>open_fds = []\<rparr>) \<and>
   7 \<in> set (open_fds (snd (snd (CreateServer sample_net 80 False (new_socket\<lparr>socket_fd := Some 7\<rparr>) \<lparr>open_fds = [7]\<rparr>))))"
proof -
  have "fst (CreateServer sample_net 80 False (new_socket\<lparr>socket_fd := Some 7\<rparr>) \<lparr>open_fds = [7]\<rparr>)"
    by (simp add: CreateServer_def open_descriptor_def sample_net_def Let_def)
  then obtain s' p' where
    "CreateServer sample_net 80 False (new_socket\<lparr>socket_fd := Some 7\<rparr>) \<lparr>open_fds = [7]\<rparr> = (True, s', p')"
    by (metis prod.collapse)
  with socket_descriptors_accounted [OF _ sample_net_lawful(2), of "[]" new_socket "\<lparr>open_fds = []\<rparr>" 80 False]
    socket_descriptors_accounted [OF _ sample_net_lawful(2), of "[]" "new_socket\<lparr>socket_fd := Some 7\<rparr>" "\<lparr>open_fds = [7]\<rparr>" 80 False]
  show ?thesis by (simp add: owns_def new_socket_def)
qed

end
