(* ===== verification/Transport.thy ===== *)
theory Transport
  imports Reliability Rate_Limit Socket
begin

text \<open>
  \<^verbatim>\<open>src/znet/z_transport.h\<close> and \<^verbatim>\<open>.cc\<close>: \<^verbatim>\<open>ZAsyncTransportLayer\<close>, the base of client, server and
  peer-to-peer node.  Its record extends the packet queue with the socket, the connection state and
  the configuration of the executor.  The cryptographic context the object owns and the one the
  queue points to are the same object, the field \<open>crypto_context\<close>, except after an \<^verbatim>\<open>Init\<close> whose key
  exchange failed: it has made a new context which the queue does not know, \<open>detached_crypto\<close>.
\<close>

datatype State = kDisconnected | kConnecting | kConnected | kDisconnecting

datatype ConnectionType = kClient | kServer | kP2PNode

record InitOptions =
  opt_ip :: "byte list"
  opt_port :: u16
  opt_local_bind_port :: u16
  setup_type :: ConnectionType
  use_encryption :: bool
  opt_use_compression :: bool
  allow_ipv6 :: bool

record ZAsyncTransportLayer = ZPacketQueue +
  zsocket :: ZSocket
  state :: State
  use_compression :: bool
  detached_crypto :: "ZCryptoContext option"
  task_executor_override :: "executor option"
  built_in_executor_worker_count :: nat
  built_in_executor_max_queued_tasks :: nat

definition new_transport :: "int \<Rightarrow> ZAsyncTransportLayer" where
  "new_transport now =
     ZPacketQueue.extend (new_packet_queue now)
       (ZAsyncTransportLayer.fields new_socket kDisconnected False None None 0 0)"

text \<open>The clock and the two draws of the random generator during \<^verbatim>\<open>Init\<close>.\<close>

record init_env =
  init_time :: int
  init_nonce :: "byte list option"
  init_challenge :: "byte list option"

definition create_socket ::
  "net_calls \<Rightarrow> InitOptions \<Rightarrow> ZSocket \<Rightarrow> process_sockets \<Rightarrow> bool \<times> ZSocket \<times> process_sockets" where
  "create_socket N options s p =
     (if setup_type options = kClient then
        CreateClient N (opt_ip options) (opt_port options) (allow_ipv6 options) (opt_local_bind_port options) s p
      else CreateServer N (opt_port options) (allow_ipv6 options) s p)"

definition init_crypto ::
  "platform \<Rightarrow> init_env \<Rightarrow> InitOptions \<Rightarrow> 'a ZAsyncTransportLayer_scheme \<Rightarrow> bool \<times> 'a ZAsyncTransportLayer_scheme" where
  "init_crypto P env options t =
     (if use_encryption options then
        (case InitializeKeyExchange P (init_nonce env) (init_challenge env) new_context of
           (False, c) \<Rightarrow> (False, t\<lparr>detached_crypto := Some c\<rparr>)
         | (True, c) \<Rightarrow> (True, SetCryptoProvider (Some c) (t\<lparr>detached_crypto := None\<rparr>)))
      else (True, t))"

definition Init ::
  "platform \<Rightarrow> net_calls \<Rightarrow> init_env \<Rightarrow> InitOptions \<Rightarrow> process_sockets \<Rightarrow> 'a ZAsyncTransportLayer_scheme \<Rightarrow>
   bool \<times> process_sockets \<times> 'a ZAsyncTransportLayer_scheme" where
  "Init P N env options p t =
     (let t = t\<lparr>state := kConnecting\<rparr> in
      case create_socket N options (zsocket t) p of
        (result, s, p) \<Rightarrow>
          let t = t\<lparr>zsocket := s\<rparr> in
          if \<not> result then (False, p, t\<lparr>state := kDisconnected\<rparr>)
          else
            case init_crypto P env options t of
              (False, t) \<Rightarrow> (False, p, t\<lparr>state := kDisconnected\<rparr>)
            | (True, t) \<Rightarrow>
                let t = (if opt_use_compression options then t\<lparr>use_compression := True\<rparr> else t);
                    t = ConfigureDispatchExecutor (task_executor_override t) (built_in_executor_worker_count t)
                          (built_in_executor_max_queued_tasks t) t
                in case StartThreads (init_time env) t of
                     (False, t) \<Rightarrow> (False, p, t\<lparr>state := kDisconnected\<rparr>)
                   | (True, t) \<Rightarrow> (True, p, t))"

definition SetTaskExecutor :: "executor option \<Rightarrow> 'a ZAsyncTransportLayer_scheme \<Rightarrow> 'a ZAsyncTransportLayer_scheme" where
  "SetTaskExecutor executor t =
     (if state t \<noteq> kDisconnected then t else t\<lparr>task_executor_override := executor\<rparr>)"

definition SetBuiltInTaskExecutorConfig ::
  "nat \<Rightarrow> nat \<Rightarrow> 'a ZAsyncTransportLayer_scheme \<Rightarrow> 'a ZAsyncTransportLayer_scheme" where
  "SetBuiltInTaskExecutorConfig worker_count max_queued t =
     (if state t \<noteq> kDisconnected then t
      else t\<lparr>built_in_executor_worker_count := worker_count, built_in_executor_max_queued_tasks := max_queued\<rparr>)"

text \<open>\<open>None\<close> while \<^verbatim>\<open>StopThreads\<close> waits.\<close>

definition Deinit ::
  "bool \<Rightarrow> process_sockets \<Rightarrow> 'a ZAsyncTransportLayer_scheme \<Rightarrow> (process_sockets \<times> 'a ZAsyncTransportLayer_scheme) option" where
  "Deinit on_queue_thread p t =
     (case DestroySocket (zsocket t) p of
        (s, p) \<Rightarrow> map_option (\<lambda>t. (p, t\<lparr>state := kDisconnected\<rparr>)) (StopThreads on_queue_thread (t\<lparr>zsocket := s\<rparr>)))"

definition EnqueuePacket ::
  "int \<Rightarrow> OutgoingPacket \<Rightarrow> 'a ZAsyncTransportLayer_scheme \<Rightarrow> bool \<times> 'a ZAsyncTransportLayer_scheme" where
  "EnqueuePacket now packet t = (if state t \<noteq> kConnected then (False, t) else (True, Push now packet t))"

record OutboundPressure =
  control_queued_packets :: u64
  control_queued_bytes :: u64
  data_queued_packets :: u64
  data_queued_bytes :: u64
  pressure_awaiting_ack_packets :: u64
  pressure_awaiting_ack_bytes :: u64

definition GetOutboundPressure :: "'a ZPacketQueue_scheme \<Rightarrow> OutboundPressure" where
  "GetOutboundPressure t =
     \<lparr>control_queued_packets = GetApproxOutgoingPacketCount Control t,
      control_queued_bytes = GetApproxOutgoingBytes Control t,
      data_queued_packets = GetApproxOutgoingPacketCount Data t,
      data_queued_bytes = GetApproxOutgoingBytes Data t,
      pressure_awaiting_ack_packets = GetApproxAwaitingAckPacketCount t,
      pressure_awaiting_ack_bytes = GetApproxAwaitingAckBytes t\<rparr>"

definition own_crypto :: "'a ZAsyncTransportLayer_scheme \<Rightarrow> ZCryptoContext option" where
  "own_crypto t = (case detached_crypto t of Some c \<Rightarrow> Some c | None \<Rightarrow> crypto_context t)"

definition set_own_crypto :: "ZCryptoContext \<Rightarrow> 'a ZAsyncTransportLayer_scheme \<Rightarrow> 'a ZAsyncTransportLayer_scheme" where
  "set_own_crypto c t =
     (case detached_crypto t of Some _ \<Rightarrow> t\<lparr>detached_crypto := Some c\<rparr> | None \<Rightarrow> t\<lparr>crypto_context := Some c\<rparr>)"

definition encryption_enabled :: "'a ZAsyncTransportLayer_scheme \<Rightarrow> bool" where
  "encryption_enabled t \<longleftrightarrow> own_crypto t \<noteq> None"

definition compression_enabled :: "'a ZAsyncTransportLayer_scheme \<Rightarrow> bool" where
  "compression_enabled t \<longleftrightarrow> use_compression t"

subsection \<open>The bytes waiting to be sent\<close>

definition queued_bytes :: "OutgoingPacket PriorityMPSCQueue \<Rightarrow> nat" where
  "queued_bytes Q = sum_list (map (unat \<circ> heap_data_size) (departures (lane Q)))"

lemma queued_bytes_enqueue:
  assumes "priority_ok Q"
  shows "queued_bytes (priority_enqueue x p Q) = queued_bytes Q + unat (heap_data_size x)"
  using assms by (cases p) (simp_all add: queued_bytes_def pq.enq_lanes departures_def)

lemma queued_bytes_dequeue:
  assumes "priority_ok Q" and "priority_dequeue Q = (r, Q')"
  shows "queued_bytes Q = (case r of None \<Rightarrow> 0 | Some x \<Rightarrow> unat (heap_data_size x)) + queued_bytes Q'"
  using pq.deq_departures [OF assms(1)] assms(2)
  by (cases "departures (lane Q)") (simp_all add: queued_bytes_def)

definition pressure_ok :: "'a ZPacketQueue_scheme \<Rightarrow> bool" where
  "pressure_ok q \<longleftrightarrow> unat (channel_outgoing_bytes q Data) = queued_bytes (channel_outgoing_queues q Data) \<and>
     unat (channel_outgoing_bytes q Control) \<le> queued_bytes (channel_outgoing_queues q Control)"

lemma pressure_cong:
  "channel_outgoing_bytes q' = channel_outgoing_bytes q \<Longrightarrow> channel_outgoing_queues q' = channel_outgoing_queues q \<Longrightarrow>
   pressure_ok q' = pressure_ok q"
  by (simp add: pressure_ok_def)

lemma unat_SaturatingSub: "unat (SaturatingSub a b) = unat a - unat b"
  by (auto simp: SaturatingSub_def word_less_nat_alt unat_sub word_le_nat_alt not_less)

lemma pressure_ok_new: "pressure_ok (new_packet_queue now)"
  by (simp add: pressure_ok_def queued_bytes_def new_packet_queue_def new_dispatcher_def PacketDispatcher.defs
      ZPacketQueue.defs departures_def)

definition event_bytes :: "queue_event \<Rightarrow> nat" where
  "event_bytes ev = (case ev of PushEvent _ p \<Rightarrow> unat (heap_data_size p) | _ \<Rightarrow> 0)"

text \<open>What the sending side of the queue shows: its queues and their byte counters.\<close>

definition outgoing_part ::
  "'a ZPacketQueue_scheme \<Rightarrow> (PacketChannelType \<Rightarrow> OutgoingPacket PriorityMPSCQueue) \<times> (PacketChannelType \<Rightarrow> u64)" where
  "outgoing_part q = (channel_outgoing_queues q, channel_outgoing_bytes q)"

lemma outgoing_part_extension: "PacketDispatcher.more q' = PacketDispatcher.more q \<Longrightarrow> outgoing_part q' = outgoing_part q"
  using queue_extension(1,4) [of q' q] by (simp add: outgoing_part_def)

lemma outgoing_part_cong: "outgoing_part q' = outgoing_part q \<Longrightarrow> pressure_ok q \<Longrightarrow>
    pressure_ok q' \<and> queued_bytes (channel_outgoing_queues q' Data) = queued_bytes (channel_outgoing_queues q Data)"
  by (simp add: outgoing_part_def pressure_ok_def)

lemma ProcessChannel_pressure:
  "queue_inv hash q \<Longrightarrow> pressure_ok q \<Longrightarrow> pressure_ok (snd (ProcessChannel c n q)) \<and>
     queued_bytes (channel_outgoing_queues (snd (ProcessChannel c n q)) Data) \<le> queued_bytes (channel_outgoing_queues q Data)"
proof (induction n arbitrary: q)
  case (Suc n)
  obtain r queue where d: "priority_dequeue (channel_outgoing_queues q c) = (r, queue)" by fastforce
  note ok = queue_invD(2) [OF Suc.prems(1), of c]
  note bytes = queued_bytes_dequeue [OF ok d]
  have queue: "priority_ok queue" using pq.deq_ok [OF ok] d by simp
  show ?case
  proof (cases r)
    case None
    with d bytes Suc.prems(2) show ?thesis by (cases c) (simp_all add: pressure_ok_def)
  next
    case (Some packet)
    let ?q = "q\<lparr>channel_outgoing_queues := (channel_outgoing_queues q)(c := queue),
      channel_outgoing_bytes := (channel_outgoing_bytes q)(c :=
        SaturatingSub (channel_outgoing_bytes q c) (ucast (heap_data_size packet))),
      pending_dispatch_tasks := pending_dispatch_tasks q + 1, dispatch_tasks := dispatch_tasks q @ [packet]\<rparr>"
    have "queue_inv hash ?q" using queue Suc.prems(1) by (simp add: queue_inv_def receipts_ok_def)
    moreover have "pressure_ok ?q \<and> queued_bytes (channel_outgoing_queues ?q Data) \<le> queued_bytes (channel_outgoing_queues q Data)"
      using Suc.prems(2) bytes Some by (cases c) (auto simp: pressure_ok_def unat_SaturatingSub unat_ucast_u64)
    ultimately show ?thesis using Suc.IH [of ?q] d Some by (auto simp: Let_def case_prod_beta)
  qed
qed simp

lemma outgoing_tick_part:
  assumes inv: "queue_inv (std_hash env) q" and out: "outgoing_tick P env now unix q = Some q'"
  shows "outgoing_part q' = outgoing_part (snd (ProcessChannel Data kMaxDispatchPerChannelPerTick
      (snd (ProcessChannel Control kMaxDispatchPerChannelPerTick q))))"
proof -
  let ?q1 = "snd (ProcessChannel Data kMaxDispatchPerChannelPerTick
      (snd (ProcessChannel Control kMaxDispatchPerChannelPerTick q)))"
  have q1: "queue_inv (std_hash env) ?q1" using ProcessChannel_inv inv by blast
  then have m1: "map_inv (std_hash env) (awaiting_ack_packets ?q1)" by (simp add: queue_inv_def receipts_ok_def)
  obtain m where m: "(if gc_counter ?q1 mod 1000 = 0 then collect_garbage (awaiting_ack_packets ?q1)
      else Some (awaiting_ack_packets ?q1)) = Some m" "live_entries m = unacknowledged ?q1"
      "map_inv (std_hash env) m"
    using hm.gc_law [OF m1] m1 by (cases "gc_counter ?q1 mod 1000 = 0") auto
  let ?q3 = "?q1\<lparr>gc_counter := gc_counter ?q1 + 1, awaiting_ack_packets := m\<rparr>"
  have "receipts_ok (std_hash env) ?q3" using q1 m(2,3) by (simp add: queue_inv_def receipts_ok_def)
  then have "outgoing_part q2 = outgoing_part ?q3" if "retry_scan P env (ucast unix) ?q3 = Some q2" for q2
    using retry_scan_spec [of env ?q3 P "ucast unix"] that outgoing_part_extension [of q2 ?q3] by auto
  with out m(1) show ?thesis
    by (auto simp: outgoing_tick_def Let_def outgoing_part_def split: if_splits)
qed

lemma run_dispatch_task_part:
  assumes inv: "queue_inv (std_hash env) q" and law: "lawful_env env"
    and r: "run_dispatch_task P env i q = Some q'"
  shows "outgoing_part q' = outgoing_part q"
proof (cases "i < length (dispatch_tasks q)")
  case True
  let ?q = "q\<lparr>dispatch_tasks := take i (dispatch_tasks q) @ drop (Suc i) (dispatch_tasks q)\<rparr>"
  have "receipts_ok (std_hash env) ?q" using inv by (simp add: queue_inv_def receipts_ok_def)
  from DispatchPacket_ok [OF this law, of P "dispatch_tasks q ! i"] obtain q1 where
    "DispatchPacket P env (dispatch_tasks q ! i) ?q = Some q1"
    "PacketDispatcher.more q1 = PacketDispatcher.more ?q" by blast
  with True r outgoing_part_extension [OF this(2)] show ?thesis
    by (auto simp: run_dispatch_task_def TrackDispatchTaskCompletion_def outgoing_part_def)
qed (use r in \<open>simp add: run_dispatch_task_def\<close>)

lemma acknowledge_part:
  assumes "receipts_ok (std_hash env) q" and "acknowledge env p s q = Some q'"
  shows "outgoing_part q' = outgoing_part q"
  using acknowledge_spec [OF assms(1), of p s] assms(2) only_receiptsD(5) [of q q'] outgoing_part_extension [of q' q] by auto

text \<open>Receiving a packet adds at most an acknowledgement to the control queue, and does not count it.\<close>

definition with_ack :: "'a ZPacketQueue_scheme \<Rightarrow> 'a ZPacketQueue_scheme \<Rightarrow> bool" where
  "with_ack q q' \<longleftrightarrow> outgoing_part q' = outgoing_part q \<or>
     (\<exists>x p. outgoing_part q' = ((channel_outgoing_queues q)(Control := priority_enqueue x p (channel_outgoing_queues q Control)),
        channel_outgoing_bytes q))"

lemma AddAwaitingAckPacket_part:
  assumes "queue_inv (std_hash env) q" and "AddAwaitingAckPacket P env block ret seq ack q = Some q'"
  shows "with_ack q q'"
proof -
  let ?x = "ack_packet P block (crypto_context q \<noteq> None) ret seq"
  let ?q = "q\<lparr>channel_outgoing_queues := (channel_outgoing_queues q)(Control :=
      priority_enqueue ?x High (channel_outgoing_queues q Control))\<rparr>"
  have "receipts_ok (std_hash env) ?q" using assms(1) by (simp add: queue_inv_def receipts_ok_def)
  from acknowledge_part [OF this, of ret ack] assms(2) have "outgoing_part q' = outgoing_part ?q"
    by (auto simp: AddAwaitingAckPacket_def Let_def split: if_splits)
  then show ?thesis by (auto simp: with_ack_def outgoing_part_def)
qed

lemma receive_tick_part:
  assumes inv: "queue_inv (std_hash env) q" and law: "recv_lawful ev"
    and r: "receive_tick P env block ev q = Some (d, q')"
  shows "with_ack q q'"
proof (cases "stop_threads q")
  case True
  with r show ?thesis by (simp add: receive_tick_def with_ack_def)
next
  case False
  obtain res crypto ps rc where rp: "ReceivePackets P ev (crypto_context q) (peers q) (packet_receiver q) =
      (res, crypto, ps, rc)" by (metis prod_cases4)
  let ?q = "q\<lparr>crypto_context := crypto, peers := ps, packet_receiver := rc\<rparr>"
  have q: "queue_inv (std_hash env) ?q"
    using inv ReceivePackets_receiver_ok [OF queue_invD(4) [OF inv] law rp]
    by (simp add: queue_inv_def receipts_ok_def)
  have base: "with_ack q x" if "with_ack ?q x" for x using that by (simp add: with_ack_def outgoing_part_def)
  have rest: "with_ack ?q (deliver pack x)" if "with_ack ?q x" for x pack
    using that by (simp add: with_ack_def outgoing_part_def deliver_def)
  have seqs: "with_ack ?q (x\<lparr>received_reliable_seqs := f\<rparr>)" if "with_ack ?q x" for x f
    using that by (simp add: with_ack_def outgoing_part_def)
  have self: "with_ack ?q ?q" by (simp add: with_ack_def)
  show ?thesis
  proof (cases res)
    case (Success pack)
    have "handle_success P env block pack ?q = Some (d, q')" using r rp False Success by (simp add: receive_tick_def Let_def)
    then have "with_ack ?q q'"
      using AddAwaitingAckPacket_part [OF q] self
      by (auto simp: handle_success_def Let_def intro!: rest seqs split: if_splits option.splits)
    then show ?thesis by (rule base)
  next
    case (Acknowledgement pack)
    with r rp False acknowledge_part [OF queue_invD(1) [OF q]] self show ?thesis
      by (intro base) (auto simp: receive_tick_def Let_def with_ack_def split: if_splits)
  next
    case Goodbye
    with r rp False show ?thesis by (auto simp: receive_tick_def Let_def with_ack_def outgoing_part_def)
  qed (use r rp False in \<open>auto simp: receive_tick_def Let_def with_ack_def outgoing_part_def\<close>)
qed

lemma Push_pressure:
  assumes inv: "queue_inv hash q" and ok: "pressure_ok q"
    and room: "queued_bytes (channel_outgoing_queues q Data) + unat (heap_data_size packet) < 2 ^ 64"
  shows "pressure_ok (Push now packet q) \<and>
    queued_bytes (channel_outgoing_queues (Push now packet q) Data) \<le>
      queued_bytes (channel_outgoing_queues q Data) + unat (heap_data_size packet)"
proof -
  obtain b q1 where c: "CheckRateLimit now (ucast (heap_data_size packet)) q = (b, q1)" by fastforce
  note frame = CheckRateLimit_frame [OF c]
  have le: "unat (x + ucast y) \<le> unat x + unat y" for x :: u64 and y :: u32
    by (simp add: unat_plus_if' unat_ucast_u64)
  have exact: "unat (x + ucast y) = unat x + unat y" if "unat x + unat y < 2 ^ 64" for x :: u64 and y :: u32
    using that by (simp add: unat_plus_if' unat_ucast_u64)
  note enq = queued_bytes_enqueue [OF queue_invD(2) [OF inv, of Control]] queued_bytes_enqueue [OF queue_invD(2) [OF inv, of Data]]
  show ?thesis
  proof (cases b)
    case False
    with c frame ok show ?thesis by (auto simp: Push_def pressure_ok_def)
  next
    case True
    show ?thesis
    proof (cases "op_channel packet")
      case Control
      with c True frame ok enq(1) le [of "channel_outgoing_bytes q Control" "heap_data_size packet"] show ?thesis
        by (simp add: Push_def Let_def pressure_ok_def)
    next
      case Data
      with c True frame ok enq(2) exact [of "channel_outgoing_bytes q Data" "heap_data_size packet"] room show ?thesis
        by (simp add: Push_def Let_def pressure_ok_def)
    qed
  qed
qed

lemma with_ack_pressure:
  assumes "queue_inv hash q" and "with_ack q q'" and "pressure_ok q"
  shows "pressure_ok q' \<and> queued_bytes (channel_outgoing_queues q' Data) = queued_bytes (channel_outgoing_queues q Data)"
  using assms queued_bytes_enqueue [OF queue_invD(2) [OF assms(1), of Control]]
  by (auto simp: with_ack_def outgoing_part_def pressure_ok_def)

lemma queue_step_pressure:
  assumes inv: "queue_inv hash q" and law: "event_lawful hash ev" and ok: "pressure_ok q"
    and room: "queued_bytes (channel_outgoing_queues q Data) + event_bytes ev < 2 ^ 64"
    and step: "queue_step P ev q = Some (d, p, q')"
  shows "pressure_ok q' \<and> queued_bytes (channel_outgoing_queues q' Data) \<le>
    queued_bytes (channel_outgoing_queues q Data) + event_bytes ev"
proof (cases ev)
  case (PushEvent now packet)
  with step Push_pressure [OF inv ok, of packet now] room show ?thesis by (simp add: event_bytes_def)
next
  case (PopEvent c)
  with step have "outgoing_part q' = outgoing_part q"
    by (auto simp: Pop_def Let_def outgoing_part_def split: prod.splits if_splits)
  with outgoing_part_cong ok show ?thesis by (metis le_add1)
next
  case (OutgoingTick env now unix)
  let ?q1 = "snd (ProcessChannel Control kMaxDispatchPerChannelPerTick q)"
  have q1: "queue_inv hash ?q1" "pressure_ok ?q1"
    "queued_bytes (channel_outgoing_queues ?q1 Data) \<le> queued_bytes (channel_outgoing_queues q Data)"
    using ProcessChannel_inv [OF inv] ProcessChannel_pressure [OF inv ok] by blast+
  note q2 = ProcessChannel_pressure [OF q1(1,2), of Data kMaxDispatchPerChannelPerTick]
  have "outgoing_part q' = outgoing_part (snd (ProcessChannel Data kMaxDispatchPerChannelPerTick ?q1))"
    using outgoing_tick_part [of env q P now unix q'] OutgoingTick step law inv by auto
  from outgoing_part_cong [OF this conjunct1 [OF q2]] q2 q1(3) show ?thesis by simp
next
  case (RunTask env i)
  with step law inv run_dispatch_task_part [of env q P i q'] outgoing_part_cong [of q' q] ok show ?thesis by auto
next
  case (ReceiveTick env block rev)
  with step law inv receive_tick_part [of env q rev P block d q'] with_ack_pressure [OF inv _ ok, of q'] show ?thesis by auto
qed

lemma queue_run_pressure:
  "queue_inv hash q \<Longrightarrow> list_all (event_lawful hash) evs \<Longrightarrow> pressure_ok q \<Longrightarrow>
   queued_bytes (channel_outgoing_queues q Data) + sum_list (map event_bytes evs) < 2 ^ 64 \<Longrightarrow>
   queue_run P evs q = Some (ds, ps, q') \<Longrightarrow> pressure_ok q' \<and> queue_inv hash q'"
proof (induction evs arbitrary: q ds ps)
  case (Cons ev evs)
  from Cons.prems(2) have law: "event_lawful hash ev" "list_all (event_lawful hash) evs" by auto
  from queue_step_inv [OF Cons.prems(1) law(1)] obtain d p q1 where
    s: "queue_step P ev q = Some (d, p, q1)" "queue_inv hash q1" by blast
  from Cons.prems(5) s(1) obtain ds1 ps1 where r: "queue_run P evs q1 = Some (ds1, ps1, q')"
    by (auto split: option.splits)
  have "queued_bytes (channel_outgoing_queues q Data) + event_bytes ev < 2 ^ 64" using Cons.prems(4) by simp
  from queue_step_pressure [OF Cons.prems(1) law(1) Cons.prems(3) this s(1)] Cons.prems(4)
  show ?case by (intro Cons.IH [OF s(2) law(2) _ _ r]) auto
qed simp

subsection \<open>Pushes the rate limiter admits\<close>

text \<open>Room for \<open>n\<close> more packets with \<open>b\<close> bytes in the current window, bursts aside; a new window has as much.\<close>

definition rate_room :: "nat \<Rightarrow> nat \<Rightarrow> 'a ZPacketQueue_scheme \<Rightarrow> bool" where
  "rate_room n b q \<longleftrightarrow>
     unat (packets_sent_this_second q) + n \<le> unat (max_packets_per_second (rate_limit_config q)) \<and>
     unat (bytes_sent_this_second q) + b \<le> unat (max_bytes_per_second (rate_limit_config q))"

text \<open>The packet is the last of its channel and priority.\<close>

definition enqueued :: "OutgoingPacket \<Rightarrow> 'a ZPacketQueue_scheme \<Rightarrow> 'b ZPacketQueue_scheme \<Rightarrow> bool" where
  "enqueued packet q q' \<longleftrightarrow> channel_outgoing_queues q' (op_channel packet) =
     priority_enqueue packet (priority (op_flags packet)) (channel_outgoing_queues q (op_channel packet))"

lemma rate_room_less: "rate_room n b q \<Longrightarrow> n' \<le> n \<Longrightarrow> b' \<le> b \<Longrightarrow> rate_room n' b' q"
  by (simp add: rate_room_def)

lemma CheckRateLimit_room:
  assumes "rate_room (Suc n) (unat sz + b) q"
  shows "\<exists>q'. CheckRateLimit now sz q = (True, q') \<and> rate_room n b q'"
proof -
  let ?q = "rate_window now q"
  have room: "rate_room (Suc n) (unat sz + b) ?q" using assms by (simp add: rate_room_def rate_window_def)
  then have "\<not> packets_sent_this_second ?q \<ge> max_packets_per_second (rate_limit_config ?q)"
    by (simp add: rate_room_def word_le_nat_alt)
  moreover have bytes: "unat (bytes_sent_this_second ?q + sz) = unat (bytes_sent_this_second ?q) + unat sz"
  proof -
    have "unat (bytes_sent_this_second ?q) + unat sz < 2 ^ 64"
      using room unat_bound [of "max_bytes_per_second (rate_limit_config ?q)"] by (simp add: rate_room_def)
    then show ?thesis by (simp add: unat_plus_if')
  qed
  then have "\<not> bytes_sent_this_second ?q + sz > max_bytes_per_second (rate_limit_config ?q)"
    using room by (simp add: rate_room_def word_less_nat_alt)
  moreover have "unat (packets_sent_this_second ?q + 1) = unat (packets_sent_this_second ?q) + 1"
    using room unat_bound [of "max_packets_per_second (rate_limit_config ?q)"] by (simp add: rate_room_def unat_plus_if')
  ultimately show ?thesis using room bytes by (simp add: CheckRateLimit_def Let_def rate_room_def)
qed

lemma Push_room:
  assumes "rate_room (Suc n) (unat (heap_data_size packet) + b) q"
  shows "enqueued packet q (Push now packet q)" "rate_room n b (Push now packet q)"
proof -
  have "unat (ucast (heap_data_size packet) :: u64) = unat (heap_data_size packet)" by (rule unat_ucast_u64)
  with assms CheckRateLimit_room [of n "ucast (heap_data_size packet)" b q now] obtain q' where
    q': "CheckRateLimit now (ucast (heap_data_size packet)) q = (True, q')" "rate_room n b q'" by auto
  then show "enqueued packet q (Push now packet q)" "rate_room n b (Push now packet q)"
    using CheckRateLimit_frame [OF q'(1)] by (simp_all add: Push_def Let_def enqueued_def rate_room_def)
qed

subsection \<open>Stopping\<close>

text \<open>The executor's workers finish the tasks they were given, one after the other.\<close>

fun run_all_tasks :: "platform \<Rightarrow> send_env list \<Rightarrow> 'a ZPacketQueue_scheme \<Rightarrow> 'a ZPacketQueue_scheme option" where
  "run_all_tasks P [] q = Some q"
| "run_all_tasks P (env # envs) q = (case run_dispatch_task P env 0 q of None \<Rightarrow> None | Some q \<Rightarrow> run_all_tasks P envs q)"

lemma run_dispatch_task_tasks:
  assumes inv: "queue_inv (std_hash env) q" and law: "lawful_env env" and r: "run_dispatch_task P env 0 q = Some q'"
  shows "dispatch_tasks q' = tl (dispatch_tasks q)"
proof (cases "dispatch_tasks q")
  case (Cons t ts)
  let ?q = "q\<lparr>dispatch_tasks := ts\<rparr>"
  have "receipts_ok (std_hash env) ?q" using inv by (simp add: queue_inv_def receipts_ok_def)
  from DispatchPacket_ok [OF this law, of P t] obtain q1 where
    "DispatchPacket P env t ?q = Some q1" "PacketDispatcher.more q1 = PacketDispatcher.more ?q" by blast
  with r Cons queue_extension(6) [OF this(2)] show ?thesis
    by (auto simp: run_dispatch_task_def TrackDispatchTaskCompletion_def)
qed (use r in \<open>simp add: run_dispatch_task_def\<close>)

lemma run_all_tasks_done:
  "queue_inv hash q \<Longrightarrow> list_all (\<lambda>env. std_hash env = hash \<and> lawful_env env) envs \<Longrightarrow>
   length envs = length (dispatch_tasks q) \<Longrightarrow>
   \<exists>q'. run_all_tasks P envs q = Some q' \<and> queue_inv hash q' \<and> dispatch_tasks q' = []"
proof (induction envs arbitrary: q)
  case (Cons env envs)
  from Cons.prems(2) have law: "std_hash env = hash" "lawful_env env" by auto
  from run_dispatch_task_inv [of env q P 0] law Cons.prems(1) obtain q1 where
    q1: "run_dispatch_task P env 0 q = Some q1" "queue_inv hash q1" by auto
  have "dispatch_tasks q1 = tl (dispatch_tasks q)"
    using run_dispatch_task_tasks [OF _ law(2) q1(1)] law(1) Cons.prems(1) by simp
  with Cons.IH [OF q1(2)] Cons.prems q1(1) show ?case by auto
qed simp

lemma StopThreads_waits:
  assumes "queue_inv hash q" and "length (dispatch_tasks q) < 2 ^ 64"
  shows "StopThreads b q \<noteq> None \<longleftrightarrow> dispatch_tasks q = []"
proof -
  have "(of_nat n :: u64) = 0 \<longleftrightarrow> n = 0" if "n < 2 ^ 64" for n
    using that by (simp add: word_unat_eq_iff unat_of_nat)
  with assms queue_invD(5) [OF assms(1)] show ?thesis
    by (simp add: StopThreads_def Let_def WaitForPendingDispatchTasks_def)
qed

subsection \<open>Properties\<close>

text \<open>C34: over any history of the queue in which fewer than \<open>2 ^ 64\<close> bytes are pushed, the pressure a client
  reads is right: both packet counts, the bytes waiting on the data channel and the two counters of
  unacknowledged packets are exact.  The bytes reported for the control channel never exceed what
  waits there; they can fall short of it, since an acknowledgement is enqueued without being counted
  and yet subtracted when it leaves.\<close>

theorem outbound_pressure_reported:
  assumes "list_all (event_lawful hash) evs" and "sum_list (map event_bytes evs) < 2 ^ 64"
    and "queue_run P evs (new_packet_queue t) = Some (ds, ps, q)"
  shows "control_queued_packets (GetOutboundPressure q) = of_nat (length (departures (lane (channel_outgoing_queues q Control)))) \<and>
    data_queued_packets (GetOutboundPressure q) = of_nat (length (departures (lane (channel_outgoing_queues q Data)))) \<and>
    unat (data_queued_bytes (GetOutboundPressure q)) = queued_bytes (channel_outgoing_queues q Data) \<and>
    unat (control_queued_bytes (GetOutboundPressure q)) \<le> queued_bytes (channel_outgoing_queues q Control) \<and>
    pressure_awaiting_ack_packets (GetOutboundPressure q) = of_nat (length (unacknowledged q)) \<and>
    pressure_awaiting_ack_bytes (GetOutboundPressure q) = of_nat (payload_total (unacknowledged q))"
proof -
  have "queued_bytes (channel_outgoing_queues (new_packet_queue t) Data) = 0"
    by (simp add: queued_bytes_def new_packet_queue_def new_dispatcher_def PacketDispatcher.defs
        ZPacketQueue.defs departures_def)
  with assms(2) queue_run_pressure [OF queue_inv_new assms(1) pressure_ok_new _ assms(3)]
  have "pressure_ok q" and inv: "queue_inv hash q" by auto
  with pq.sz_lanes [OF queue_invD(2) [OF inv]] queue_invD(1) [OF inv] show ?thesis
    by (simp add: GetOutboundPressure_def GetApproxOutgoingPacketCount_def GetApproxOutgoingBytes_def
        GetApproxAwaitingAckPacketCount_def GetApproxAwaitingAckBytes_def pressure_ok_def receipts_ok_def)
qed

theorem outbound_pressure_reported_witness:
  "\<exists>ds ps q. queue_run sample_platform [PushEvent 0 sample_packet, OutgoingTick sample_env 0 0,
      ReceiveTick sample_env 64 sample_event] (new_packet_queue 0) = Some (ds, ps, q) \<and>
    unat (data_queued_bytes (GetOutboundPressure q)) = queued_bytes (channel_outgoing_queues q Data) \<and>
    unat (control_queued_bytes (GetOutboundPressure q)) \<le> queued_bytes (channel_outgoing_queues q Control)"
proof -
  let ?evs = "[PushEvent 0 sample_packet, OutgoingTick sample_env 0 0, ReceiveTick sample_env 64 sample_event]"
  have law: "list_all (event_lawful (std_hash sample_env)) ?evs" using sample_event_ok(1) by simp
  have "sum_list (map event_bytes ?evs) < 2 ^ 64"
    by (simp add: event_bytes_def sample_packet_def OutgoingPacket_with_data_def)
  moreover from queue_run_inv [OF queue_inv_new law] obtain ds ps q where
    "queue_run sample_platform ?evs (new_packet_queue 0) = Some (ds, ps, q)" by blast
  ultimately show ?thesis using outbound_pressure_reported [OF law] by blast
qed

text \<open>\<^verbatim>\<open>Deinit\<close> as one step, which the theory \<open>Shutdown\<close> splits: it is not possible while a task the
  queue handed to the executor is still to run; once the executor has run them it is, and leaves the transport disconnected, with its threads joined, its
  descriptor closed and every further packet refused.\<close>

theorem deinit_waits_and_completes:
  assumes inv: "queue_inv hash t" and few: "length (dispatch_tasks t) < 2 ^ 64" and fds: "owns fds (zsocket t) p"
    and envs: "list_all (\<lambda>env. std_hash env = hash \<and> lawful_env env) envs" "length envs = length (dispatch_tasks t)"
  shows "(dispatch_tasks t \<noteq> [] \<longrightarrow> Deinit False p t = None) \<and>
    (\<exists>t1 p' t'. run_all_tasks P envs t = Some t1 \<and> Deinit False p (t1\<lparr>zsocket := zsocket t\<rparr>) = Some (p', t') \<and>
       state t' = kDisconnected \<and> \<not> threads_running t' \<and> socket_fd (zsocket t') = None \<and> open_fds p' = fds \<and>
       fst (EnqueuePacket now packet t') = False)"
proof -
  obtain s p' where d: "DestroySocket (zsocket t) p = (s, p')" by fastforce
  from DestroySocket_owns [OF fds d] have s: "socket_fd s = None" "open_fds p' = fds" by auto
  from run_all_tasks_done [OF inv envs] obtain t1 where
    t1: "run_all_tasks P envs t = Some t1" "queue_inv hash t1" "dispatch_tasks t1 = []" by blast
  have stop: "\<exists>t2. StopThreads False (r\<lparr>zsocket := s\<rparr>) = Some t2 \<and> \<not> threads_running t2 \<and> zsocket t2 = s"
    if "queue_inv hash r" "dispatch_tasks r = []" for r :: "'a ZAsyncTransportLayer_scheme"
    using that queue_invD(5) [OF that(1)]
    by (simp add: StopThreads_def Let_def WaitForPendingDispatchTasks_def)
  have "Deinit False p t = None" if "dispatch_tasks t \<noteq> []"
    using StopThreads_waits [of hash "t\<lparr>zsocket := s\<rparr>" False] inv few that d
    by (auto simp: Deinit_def queue_inv_def receipts_ok_def)
  moreover from stop [of "t1\<lparr>zsocket := zsocket t\<rparr>"] t1 obtain t2 where
    "StopThreads False (t1\<lparr>zsocket := s\<rparr>) = Some t2" "\<not> threads_running t2" "zsocket t2 = s"
    by (auto simp: queue_inv_def receipts_ok_def)
  then have "Deinit False p (t1\<lparr>zsocket := zsocket t\<rparr>) = Some (p', t2\<lparr>state := kDisconnected\<rparr>)"
    by (simp add: Deinit_def d)
  ultimately show ?thesis using t1(1) s \<open>\<not> threads_running t2\<close> \<open>zsocket t2 = s\<close> by (auto simp: EnqueuePacket_def)
qed

lemma queue_inv_new_transport: "queue_inv hash (new_transport now)"
  using queue_inv_new [of hash now]
  by (simp add: new_transport_def ZPacketQueue.defs ZAsyncTransportLayer.defs queue_inv_def receipts_ok_def)

theorem deinit_waits_and_completes_witness:
  "Deinit False \<lparr>open_fds = [7]\<rparr> (new_transport 0\<lparr>zsocket := new_socket\<lparr>socket_fd := Some 7\<rparr>,
      dispatch_tasks := [sample_packet], pending_dispatch_tasks := 1\<rparr>) = None"
proof -
  let ?t = "new_transport 0\<lparr>zsocket := new_socket\<lparr>socket_fd := Some 7\<rparr>,
      dispatch_tasks := [sample_packet], pending_dispatch_tasks := 1\<rparr>"
  have inv: "queue_inv (std_hash sample_env) ?t"
    using queue_inv_new_transport [of "std_hash sample_env" 0] by (simp add: queue_inv_def receipts_ok_def)
  moreover have "length (dispatch_tasks ?t) < 2 ^ 64" by simp
  moreover have "owns [] (zsocket ?t) \<lparr>open_fds = [7]\<rparr>" by (simp add: owns_def)
  moreover have "list_all (\<lambda>env. std_hash env = std_hash sample_env \<and> lawful_env env) [sample_env]"
    using sample_env_lawful by simp
  ultimately show ?thesis using deinit_waits_and_completes [of "std_hash sample_env" ?t "[]" _ "[sample_env]"] by simp
qed

text \<open>An \<^verbatim>\<open>Init\<close> that fails in its key exchange, for instance because the pre-shared key is missing,
  reports failure and leaves the transport disconnected, but does not close the socket it created;
  the next \<^verbatim>\<open>Init\<close> creates another and forgets it.  Two attempts leave two descriptors open of which
  the object can close one.\<close>

theorem failed_init_leaks_descriptor:
  assumes enc: "use_encryption options" and kind: "setup_type options \<noteq> kClient"
    and psk: "getenv P ''ZNET_PSK'' = None"
    and net: "opens_unused N" "\<And>fds family. open_socket N fds family \<noteq> None" "\<And>fd sa. bind_socket N fd sa" "\<And>fd. set_nonblocking N fd"
  shows "\<exists>p1 t1 p2 t2 fd1 fd2. Init P N env1 options p t = (False, p1, t1) \<and> Init P N env2 options p1 t1 = (False, p2, t2) \<and>
    state t2 = kDisconnected \<and> open_fds p2 = fd2 # fd1 # open_fds p \<and> socket_fd (zsocket t2) = Some fd2 \<and> fd1 \<noteq> fd2"
proof -
  have crypto: "\<exists>c. init_crypto P env options r = (False, r\<lparr>detached_crypto := Some c\<rparr>)" for env and r :: "'a ZAsyncTransportLayer_scheme"
    using enc psk by (simp add: init_crypto_def InitializeKeyExchange_def EnsureKeyMaterialReady_def new_context_def) blast
  have attempt: "\<exists>t' fd. Init P N env options p r = (False, p\<lparr>open_fds := fd # open_fds p\<rparr>, t') \<and> state t' = kDisconnected \<and>
      socket_fd (zsocket t') = Some fd \<and> fd \<notin> set (open_fds p)" for env p and r :: "'a ZAsyncTransportLayer_scheme"
  proof -
    let ?fam = "if allow_ipv6 options then AF_INET6 else AF_INET"
    from net(2) obtain fd where fd: "open_socket N (open_fds p) ?fam = Some fd" by (metis not_None_eq)
    then have "open_descriptor N ?fam p = (Some fd, p\<lparr>open_fds := fd # open_fds p\<rparr>)" by (simp add: open_descriptor_def)
    then have "\<exists>s. create_socket N options (zsocket r) p = (True, s, p\<lparr>open_fds := fd # open_fds p\<rparr>) \<and> socket_fd s = Some fd"
      using kind net(3,4) by (simp add: create_socket_def CreateServer_def Let_def)
    then obtain s where s: "create_socket N options (zsocket r) p = (True, s, p\<lparr>open_fds := fd # open_fds p\<rparr>)" "socket_fd s = Some fd"
      by blast
    from crypto [of env "r\<lparr>state := kConnecting, zsocket := s\<rparr>"] obtain c where
      "init_crypto P env options (r\<lparr>state := kConnecting, zsocket := s\<rparr>) =
        (False, r\<lparr>state := kConnecting, zsocket := s, detached_crypto := Some c\<rparr>)" by auto
    with s fd net(1) show ?thesis by (auto simp: Init_def Let_def opens_unused_def)
  qed
  from attempt [of env1 p t] obtain t1 fd1 where
    t1: "Init P N env1 options p t = (False, p\<lparr>open_fds := fd1 # open_fds p\<rparr>, t1)" by blast
  from attempt [of env2 "p\<lparr>open_fds := fd1 # open_fds p\<rparr>" t1] obtain t2 fd2 where
    "Init P N env2 options (p\<lparr>open_fds := fd1 # open_fds p\<rparr>) t1 =
      (False, p\<lparr>open_fds := fd2 # fd1 # open_fds p\<rparr>, t2)" "state t2 = kDisconnected"
    "socket_fd (zsocket t2) = Some fd2" "fd2 \<noteq> fd1" by auto
  with t1 show ?thesis by fastforce
qed

definition sample_options :: InitOptions where
  "sample_options = \<lparr>opt_ip = [], opt_port = 80, opt_local_bind_port = 0, setup_type = kServer, use_encryption = True,
     opt_use_compression = False, allow_ipv6 = False\<rparr>"

theorem failed_init_leaks_descriptor_witness:
  "\<exists>p1 t1 p2 t2 fd1 fd2. Init (sample_platform\<lparr>getenv := (\<lambda>_. None)\<rparr>) sample_net \<lparr>init_time = 0, init_nonce = None,
      init_challenge = None\<rparr> sample_options \<lparr>open_fds = []\<rparr> (new_transport 0) = (False, p1, t1) \<and>
    Init (sample_platform\<lparr>getenv := (\<lambda>_. None)\<rparr>) sample_net \<lparr>init_time = 1, init_nonce = None, init_challenge = None\<rparr>
      sample_options p1 t1 = (False, p2, t2) \<and> open_fds p2 = [fd2, fd1] \<and> socket_fd (zsocket t2) = Some fd2"
proof -
  have o: "use_encryption sample_options" "setup_type sample_options \<noteq> kClient" by (simp_all add: sample_options_def)
  have g: "getenv (sample_platform\<lparr>getenv := (\<lambda>_. None)\<rparr>) ''ZNET_PSK'' = None" by simp
  have n: "open_socket sample_net fds family \<noteq> None" "bind_socket sample_net fd sa" "set_nonblocking sample_net fd" for fds family fd sa
    by (simp_all add: sample_net_def)
  from failed_init_leaks_descriptor [OF o g sample_net_lawful(2) n,
      of "\<lparr>init_time = 0, init_nonce = None, init_challenge = None\<rparr>" "\<lparr>open_fds = []\<rparr>" "new_transport 0"
        "\<lparr>init_time = 1, init_nonce = None, init_challenge = None\<rparr>"]
  show ?thesis by fastforce
qed

end
