(* ===== verification/Shutdown.thy ===== *)
theory Shutdown
  imports Transport
begin

text \<open>
  The end of a transport in small steps.  \<^verbatim>\<open>Deinit\<close> of \<open>Transport\<close> is one step that is possible once no
  task is pending; here the wait of \<^verbatim>\<open>WaitForPendingDispatchTasks\<close> on its condition variable and
  \<^verbatim>\<open>TrackDispatchTaskCompletion\<close> of the executor's threads (\<^verbatim>\<open>src/znet/z_packet_queues.cc\<close>) interleave.
  A worker runs a task and counts it down in one step, and notifies in another.  The thread that waits
  takes the mutex, reads the counter, and blocks; between the last two it has decided to block and is not yet
  waiting, and no worker is kept out, since workers do not take the mutex.  Blocking releases the mutex and waits
  in one step, as the standard has it.  Wake-ups without a notification, which the standard allows
  and does not promise, are left out.
\<close>

subsection \<open>The steps\<close>

datatype waiter = Locking | Checking | Deciding | Blocked | Returned

text \<open>What a worker has left of the counter after its own task, which decides whether it notifies: \<open>remainders\<close>.\<close>

record 't shutdown =
  transport :: 't
  waiting_thread :: waiter
  remainders :: "u64 list"

text \<open>\<^verbatim>\<open>Deinit\<close> up to the wait, called from a thread that is none of the queue's.\<close>

definition Deinit_begin ::
  "process_sockets \<Rightarrow> 'a ZAsyncTransportLayer_scheme \<Rightarrow> process_sockets \<times> 'a ZAsyncTransportLayer_scheme shutdown" where
  "Deinit_begin p t =
     (case DestroySocket (zsocket t) p of
        (s, p) \<Rightarrow> (p, \<lparr>transport = t\<lparr>zsocket := s, stop_threads := True, threads_running := False\<rparr>,
                       waiting_thread = Locking, remainders = []\<rparr>))"

text \<open>The thread in \<^verbatim>\<open>WaitForPendingDispatchTasks\<close>; after it \<^verbatim>\<open>Deinit\<close> sets the state and returns.\<close>

definition wait_turn :: "'a ZAsyncTransportLayer_scheme shutdown \<Rightarrow> 'a ZAsyncTransportLayer_scheme shutdown option" where
  "wait_turn s =
     (case waiting_thread s of
        Locking \<Rightarrow> Some (s\<lparr>waiting_thread := Checking\<rparr>)
      | Checking \<Rightarrow>
          if pending_dispatch_tasks (transport s) = 0
          then Some (s\<lparr>waiting_thread := Returned, transport := (transport s)\<lparr>state := kDisconnected\<rparr>\<rparr>)
          else Some (s\<lparr>waiting_thread := Deciding\<rparr>)
      | Deciding \<Rightarrow> Some (s\<lparr>waiting_thread := Blocked\<rparr>)
      | Blocked \<Rightarrow> None
      | Returned \<Rightarrow> None)"

text \<open>A worker runs the \<open>i\<close>th task and subtracts one from the counter.\<close>

definition task_turn ::
  "platform \<Rightarrow> send_env \<Rightarrow> nat \<Rightarrow> 'a ZAsyncTransportLayer_scheme shutdown \<Rightarrow> 'a ZAsyncTransportLayer_scheme shutdown option" where
  "task_turn P env i s =
     (if i < length (dispatch_tasks (transport s)) then
        map_option (\<lambda>t. s\<lparr>transport := t, remainders := remainders s @ [pending_dispatch_tasks t]\<rparr>)
          (run_dispatch_task P env i (transport s))
      else None)"

text \<open>A worker that has counted down notifies all that wait if it left zero.\<close>

definition notify_turn :: "nat \<Rightarrow> 't shutdown \<Rightarrow> 't shutdown option" where
  "notify_turn j s =
     (if j < length (remainders s) then
        Some (s\<lparr>remainders := take j (remainders s) @ drop (Suc j) (remainders s),
                waiting_thread := (if remainders s ! j = 0 \<and> waiting_thread s = Blocked then Locking else waiting_thread s)\<rparr>)
      else None)"

inductive shutdown_step ::
  "platform \<Rightarrow> send_env set \<Rightarrow> 'a ZAsyncTransportLayer_scheme shutdown \<Rightarrow> 'a ZAsyncTransportLayer_scheme shutdown \<Rightarrow> bool"
  for P E where
  waits: "wait_turn s = Some s' \<Longrightarrow> shutdown_step P E s s'"
| runs: "env \<in> E \<Longrightarrow> task_turn P env i s = Some s' \<Longrightarrow> shutdown_step P E s s'"
| notifies: "notify_turn j s = Some s' \<Longrightarrow> shutdown_step P E s s'"

inductive_cases shutdown_stepE: "shutdown_step P E s s'"

text \<open>The race: the counter reaches zero when the thread has decided to block and does not wait yet.\<close>

definition lost_race :: "'a ZAsyncTransportLayer_scheme shutdown \<Rightarrow> 'a ZAsyncTransportLayer_scheme shutdown \<Rightarrow> bool" where
  "lost_race s s' \<longleftrightarrow> waiting_thread s = Deciding \<and> pending_dispatch_tasks (transport s) \<noteq> 0 \<and>
     pending_dispatch_tasks (transport s') = 0"

definition calm_step ::
  "platform \<Rightarrow> send_env set \<Rightarrow> 'a ZAsyncTransportLayer_scheme shutdown \<Rightarrow> 'a ZAsyncTransportLayer_scheme shutdown \<Rightarrow> bool" where
  "calm_step P E s s' \<longleftrightarrow> shutdown_step P E s s' \<and> \<not> lost_race s s'"

subsection \<open>The invariant\<close>

definition lawful_envs :: "(u32 \<Rightarrow> nat) \<Rightarrow> send_env set \<Rightarrow> bool" where
  "lawful_envs hash E \<longleftrightarrow> (\<forall>env \<in> E. std_hash env = hash \<and> lawful_env env)"

definition shutdown_ok :: "(u32 \<Rightarrow> nat) \<Rightarrow> 'a ZAsyncTransportLayer_scheme shutdown \<Rightarrow> bool" where
  "shutdown_ok hash s \<longleftrightarrow> queue_inv hash (transport s) \<and> length (dispatch_tasks (transport s)) < 2 ^ 64 \<and>
     \<not> threads_running (transport s) \<and> socket_fd (zsocket (transport s)) = None \<and>
     (waiting_thread s = Returned \<longrightarrow> dispatch_tasks (transport s) = [] \<and> state (transport s) = kDisconnected)"

text \<open>A thread that waits, or is about to, still has a notification to come.\<close>

definition alert :: "'a ZAsyncTransportLayer_scheme shutdown \<Rightarrow> bool" where
  "alert s \<longleftrightarrow> (waiting_thread s = Deciding \<longrightarrow> dispatch_tasks (transport s) \<noteq> []) \<and>
     (waiting_thread s = Blocked \<longrightarrow> dispatch_tasks (transport s) \<noteq> [] \<or> 0 \<in> set (remainders s))"

lemma pending_zero:
  assumes "queue_inv hash q" and "length (dispatch_tasks q) < 2 ^ 64"
  shows "pending_dispatch_tasks q = 0 \<longleftrightarrow> dispatch_tasks q = []"
  using assms queue_invD(5) [OF assms(1)] by (simp add: word_unat_eq_iff unat_of_nat)

lemma run_dispatch_task_transport:
  fixes t :: "'a ZAsyncTransportLayer_scheme"
  assumes inv: "queue_inv (std_hash env) t" and law: "lawful_env env" and i: "i < length (dispatch_tasks t)"
  shows "\<exists>t'. run_dispatch_task P env i t = Some t' \<and> queue_inv (std_hash env) t' \<and>
    dispatch_tasks t' = take i (dispatch_tasks t) @ drop (Suc i) (dispatch_tasks t) \<and>
    threads_running t' = threads_running t \<and> zsocket t' = zsocket t \<and> state t' = state t"
proof -
  let ?t = "t\<lparr>dispatch_tasks := take i (dispatch_tasks t) @ drop (Suc i) (dispatch_tasks t)\<rparr>"
  have "receipts_ok (std_hash env) ?t" using inv by (simp add: queue_inv_def receipts_ok_def)
  from DispatchPacket_ok [OF this law, of P "dispatch_tasks t ! i"] obtain q where
    q: "DispatchPacket P env (dispatch_tasks t ! i) ?t = Some q" "PacketDispatcher.more q = PacketDispatcher.more ?t" by blast
  have "dispatch_tasks q = dispatch_tasks ?t" "threads_running q = threads_running t" "zsocket q = zsocket t" "state q = state t"
    using q(2) by (cases q; cases t; simp)+
  moreover have "run_dispatch_task P env i t = Some (TrackDispatchTaskCompletion q)"
    using i q(1) by (simp add: run_dispatch_task_def)
  ultimately show ?thesis using run_dispatch_task_inv [OF inv law, of P i] by (auto simp: TrackDispatchTaskCompletion_def)
qed

lemma task_turn_cases:
  assumes "lawful_envs hash E" and "env \<in> E" and "shutdown_ok hash s" and "task_turn P env i s = Some s'"
  obtains t where "i < length (dispatch_tasks (transport s))" "s' = s\<lparr>transport := t, remainders := remainders s @ [pending_dispatch_tasks t]\<rparr>"
    "queue_inv hash t" "dispatch_tasks t = take i (dispatch_tasks (transport s)) @ drop (Suc i) (dispatch_tasks (transport s))"
    "threads_running t = threads_running (transport s)" "zsocket t = zsocket (transport s)" "state t = state (transport s)"
proof -
  have env: "std_hash env = hash" "lawful_env env" using assms(1,2) by (auto simp: lawful_envs_def)
  have "queue_inv hash (transport s)" using assms(3) by (simp add: shutdown_ok_def)
  moreover have "i < length (dispatch_tasks (transport s))" using assms(4) by (simp add: task_turn_def split: if_splits)
  ultimately show ?thesis using run_dispatch_task_transport [of env "transport s" i P] env assms(4) that
    by (auto simp: task_turn_def)
qed

lemma shutdown_step_ok:
  assumes E: "lawful_envs hash E" and ok: "shutdown_ok hash s" and step: "shutdown_step P E s s'"
  shows "shutdown_ok hash s'"
  using step
proof (cases rule: shutdown_step.cases)
  case waits
  have "pending_dispatch_tasks (transport s) = 0 \<longleftrightarrow> dispatch_tasks (transport s) = []"
    using ok pending_zero by (auto simp: shutdown_ok_def)
  with waits ok show ?thesis
    by (auto simp: wait_turn_def shutdown_ok_def queue_inv_def receipts_ok_def split: waiter.splits if_splits)
next
  case (runs env i)
  from task_turn_cases [OF E runs(1) ok runs(2)] obtain t where "i < length (dispatch_tasks (transport s))"
    "s' = s\<lparr>transport := t, remainders := remainders s @ [pending_dispatch_tasks t]\<rparr>" "queue_inv hash t"
    "dispatch_tasks t = take i (dispatch_tasks (transport s)) @ drop (Suc i) (dispatch_tasks (transport s))"
    "threads_running t = threads_running (transport s)" "zsocket t = zsocket (transport s)" "state t = state (transport s)" by blast
  with ok show ?thesis by (auto simp: shutdown_ok_def)
next
  case (notifies j)
  with ok show ?thesis by (auto simp: notify_turn_def shutdown_ok_def split: if_splits)
qed

text \<open>Every step uses something up, so that no run is longer than this number.\<close>

fun patience :: "waiter \<Rightarrow> nat" where
  "patience Locking = 3" | "patience Checking = 2" | "patience Deciding = 1" | "patience Blocked = 0" | "patience Returned = 0"

definition remaining_steps :: "'a ZAsyncTransportLayer_scheme shutdown \<Rightarrow> nat" where
  "remaining_steps s = 5 * length (dispatch_tasks (transport s)) + 4 * length (remainders s) + patience (waiting_thread s)"

lemma shutdown_step_decreases:
  assumes "lawful_envs hash E" and ok: "shutdown_ok hash s" and "shutdown_step P E s s'"
  shows "remaining_steps s' < remaining_steps s"
  using assms(3)
proof (cases rule: shutdown_step.cases)
  case waits
  then show ?thesis by (auto simp: wait_turn_def remaining_steps_def split: waiter.splits if_splits)
next
  case (runs env i)
  from task_turn_cases [OF assms(1) runs(1) ok runs(2)] obtain t where "i < length (dispatch_tasks (transport s))"
    "s' = s\<lparr>transport := t, remainders := remainders s @ [pending_dispatch_tasks t]\<rparr>"
    "dispatch_tasks t = take i (dispatch_tasks (transport s)) @ drop (Suc i) (dispatch_tasks (transport s))" by blast
  then show ?thesis by (simp add: remaining_steps_def)
next
  case (notifies j)
  then show ?thesis by (auto simp: notify_turn_def remaining_steps_def split: if_splits)
qed

lemma shutdown_run:
  assumes E: "lawful_envs hash E" and "(shutdown_step P E ^^ n) s s'" and ok: "shutdown_ok hash s"
  shows "shutdown_ok hash s' \<and> n + remaining_steps s' \<le> remaining_steps s"
  using assms(2)
proof (induction n arbitrary: s')
  case (Suc n)
  from Suc.prems obtain s1 where s1: "(shutdown_step P E ^^ n) s s1" "shutdown_step P E s1 s'" by auto
  from Suc.IH [OF s1(1)] shutdown_step_ok [OF E _ s1(2)] shutdown_step_decreases [OF E _ s1(2)] show ?case by fastforce
qed (simp add: ok)

lemma calm_step_alert:
  assumes E: "lawful_envs hash E" and ok: "shutdown_ok hash s" and "alert s" and "calm_step P E s s'"
  shows "alert s'"
proof -
  have step: "shutdown_step P E s s'" and calm: "\<not> lost_race s s'" using assms(4) by (simp_all add: calm_step_def)
  have pending: "pending_dispatch_tasks (transport x) = 0 \<longleftrightarrow> dispatch_tasks (transport x) = []" if "shutdown_ok hash x" for x :: "'a ZAsyncTransportLayer_scheme shutdown"
    using that pending_zero by (auto simp: shutdown_ok_def)
  from step show ?thesis
  proof (cases rule: shutdown_step.cases)
    case waits
    with assms(3) pending [OF ok] show ?thesis by (auto simp: wait_turn_def alert_def split: waiter.splits if_splits)
  next
    case (runs env i)
    from task_turn_cases [OF E runs(1) ok runs(2)] obtain t where t: "i < length (dispatch_tasks (transport s))"
      "s' = s\<lparr>transport := t, remainders := remainders s @ [pending_dispatch_tasks t]\<rparr>" by blast
    then have "pending_dispatch_tasks (transport s) \<noteq> 0" using pending [OF ok] by auto
    with t calm pending [OF shutdown_step_ok [OF E ok step]] show ?thesis by (auto simp: alert_def lost_race_def)
  next
    case (notifies j)
    then have j: "j < length (remainders s)" "remainders s' = take j (remainders s) @ drop (Suc j) (remainders s)"
      "transport s' = transport s" "waiting_thread s' = (if remainders s ! j = 0 \<and> waiting_thread s = Blocked then Locking else waiting_thread s)"
      by (auto simp: notify_turn_def split: if_splits)
    have "set (remainders s) = insert (remainders s ! j) (set (remainders s'))"
      using arg_cong [OF id_take_nth_drop [OF j(1)], of set] j(2) by simp
    with assms(3) j(3,4) show ?thesis by (auto simp: alert_def)
  qed
qed

lemma calm_run:
  assumes E: "lawful_envs hash E" and "(calm_step P E)\<^sup>*\<^sup>* s s'" and "shutdown_ok hash s" and "alert s"
  shows "shutdown_ok hash s' \<and> alert s'"
  using assms(2)
proof (induction rule: rtranclp_induct)
  case (step s1 s2)
  then show ?case using shutdown_step_ok [OF E, of s1 P s2] calm_step_alert [OF E, of s1 P s2] by (auto simp: calm_step_def)
qed (simp add: assms(3,4))

text \<open>When nothing can happen any more.\<close>

lemma stuck:
  assumes E: "lawful_envs hash E" "E \<noteq> {}" and ok: "shutdown_ok hash s" and "\<nexists>s'. shutdown_step P E s s'"
  shows "dispatch_tasks (transport s) = [] \<and> remainders s = [] \<and> waiting_thread s \<in> {Blocked, Returned}"
proof (intro conjI)
  show "dispatch_tasks (transport s) = []"
  proof (rule ccontr)
    assume "dispatch_tasks (transport s) \<noteq> []"
    moreover obtain env where env: "env \<in> E" using E(2) by blast
    moreover from this have "std_hash env = hash" "lawful_env env" using E(1) by (auto simp: lawful_envs_def)
    ultimately obtain s' where "task_turn P env 0 s = Some s'"
      using run_dispatch_task_transport [of env "transport s" 0 P] ok by (auto simp: task_turn_def shutdown_ok_def)
    with env assms(4) shutdown_step.runs show False by blast
  qed
  show "remainders s = []"
  proof (rule ccontr)
    assume "remainders s \<noteq> []"
    then have "\<exists>s'. notify_turn 0 s = Some s'" by (simp add: notify_turn_def)
    with assms(4) shutdown_step.notifies show False by blast
  qed
  have "wait_turn s = None" using assms(4) shutdown_step.waits by (cases "wait_turn s") blast+
  then show "waiting_thread s \<in> {Blocked, Returned}" by (auto simp: wait_turn_def split: waiter.splits if_splits)
qed

subsection \<open>The lost wake-up\<close>

lemma tasks_all_run:
  assumes E: "lawful_envs hash E" "env \<in> E"
  shows "shutdown_ok hash s \<Longrightarrow> n = length (dispatch_tasks (transport s)) \<Longrightarrow>
    \<exists>s'. (shutdown_step P E)\<^sup>*\<^sup>* s s' \<and> dispatch_tasks (transport s') = [] \<and> waiting_thread s' = waiting_thread s"
proof (induction n arbitrary: s)
  case 0
  then show ?case by (intro exI [of _ s]) simp
next
  case (Suc n)
  have env: "std_hash env = hash" "lawful_env env" using E by (auto simp: lawful_envs_def)
  have "dispatch_tasks (transport s) \<noteq> []" using Suc.prems(2) by auto
  with run_dispatch_task_transport [of env "transport s" 0 P] env Suc.prems(1) obtain s1 where s1: "task_turn P env 0 s = Some s1"
    by (auto simp: task_turn_def shutdown_ok_def)
  then have step: "shutdown_step P E s s1" by (rule shutdown_step.runs [OF E(2)])
  from task_turn_cases [OF E Suc.prems(1) s1] obtain t where t: "s1 = s\<lparr>transport := t, remainders := remainders s @ [pending_dispatch_tasks t]\<rparr>"
    "dispatch_tasks t = take 0 (dispatch_tasks (transport s)) @ drop (Suc 0) (dispatch_tasks (transport s))" .
  then have n: "n = length (dispatch_tasks (transport s1))" and same: "waiting_thread s1 = waiting_thread s"
    using Suc.prems(2) [symmetric] by simp_all
  from Suc.IH [OF shutdown_step_ok [OF E(1) Suc.prems(1) step] n] obtain s' where
    s': "(shutdown_step P E)\<^sup>*\<^sup>* s1 s'" "dispatch_tasks (transport s') = []" "waiting_thread s' = waiting_thread s1" by blast
  from converse_rtranclp_into_rtranclp [of "shutdown_step P E", OF step s'(1)] s'(2,3) same show ?case by auto
qed

lemma all_notified:
  "waiting_thread s \<noteq> Blocked \<Longrightarrow> \<exists>s'. (shutdown_step P E)\<^sup>*\<^sup>* s s' \<and> remainders s' = [] \<and> transport s' = transport s \<and>
     waiting_thread s' = waiting_thread s"
proof (induction "length (remainders s)" arbitrary: s)
  case 0
  then show ?case by (intro exI [of _ s]) simp
next
  case (Suc n)
  have "remainders s \<noteq> []" using Suc.hyps(2) by auto
  then obtain s1 where s1: "notify_turn 0 s = Some s1" by (auto simp: notify_turn_def)
  with Suc have "n = length (remainders s1)" "transport s1 = transport s" "waiting_thread s1 = waiting_thread s"
    by (auto simp: notify_turn_def split: if_splits)
  note same = this
  with Suc.hyps(1) [of s1] Suc.prems obtain s' where
    s': "(shutdown_step P E)\<^sup>*\<^sup>* s1 s'" "remainders s' = []" "transport s' = transport s1" "waiting_thread s' = waiting_thread s1" by auto
  from converse_rtranclp_into_rtranclp [of "shutdown_step P E", OF shutdown_step.notifies [OF s1] s'(1)] s'(2-4) same show ?case by auto
qed

lemma wake_up_lost:
  assumes E: "lawful_envs hash E" "env \<in> E" and ok: "shutdown_ok hash s" and "dispatch_tasks (transport s) \<noteq> []" and "waiting_thread s = Locking"
  shows "\<exists>s'. (shutdown_step P E)\<^sup>*\<^sup>* s s' \<and> waiting_thread s' = Blocked \<and> dispatch_tasks (transport s') = [] \<and> remainders s' = [] \<and>
    (\<nexists>s2. shutdown_step P E s' s2)"
proof -
  let ?s = "s\<lparr>waiting_thread := Deciding\<rparr>"
  have "pending_dispatch_tasks (transport s) \<noteq> 0" using ok assms(4) pending_zero by (auto simp: shutdown_ok_def)
  then have "shutdown_step P E s (s\<lparr>waiting_thread := Checking\<rparr>)" "shutdown_step P E (s\<lparr>waiting_thread := Checking\<rparr>) ?s"
    using assms(5) by (auto intro!: shutdown_step.waits simp: wait_turn_def)
  then have decided: "(shutdown_step P E)\<^sup>*\<^sup>* s ?s" by (meson converse_rtranclp_into_rtranclp r_into_rtranclp)
  have "shutdown_ok hash ?s" using ok by (simp add: shutdown_ok_def)
  from tasks_all_run [OF E this refl, of P] obtain s1 where s1: "(shutdown_step P E)\<^sup>*\<^sup>* ?s s1" "dispatch_tasks (transport s1) = []"
    "waiting_thread s1 = Deciding" by auto
  then have "waiting_thread s1 \<noteq> Blocked" by simp
  from all_notified [OF this, of P E] s1(3) obtain s2 where s2: "(shutdown_step P E)\<^sup>*\<^sup>* s1 s2" "remainders s2 = []"
    "transport s2 = transport s1" "waiting_thread s2 = Deciding" by auto
  let ?s3 = "s2\<lparr>waiting_thread := Blocked\<rparr>"
  have "shutdown_step P E s2 ?s3" using s2(4) by (intro shutdown_step.waits) (simp add: wait_turn_def)
  with decided s1(1) s2(1) have "(shutdown_step P E)\<^sup>*\<^sup>* s ?s3" by (meson rtranclp.rtrancl_into_rtrancl rtranclp_trans)
  moreover have "\<not> shutdown_step P E ?s3 x" for x
    using s1(2) s2(2,3) by (auto elim!: shutdown_stepE simp: wait_turn_def task_turn_def notify_turn_def)
  ultimately show ?thesis using s1(2) s2(2,3) by (intro exI [of _ ?s3]) simp
qed

subsection \<open>Properties\<close>

text \<open>C33: \<^verbatim>\<open>Deinit\<close> in small steps.  No run goes on for ever.  When it returns, every task it handed to the executor has
  run, the transport is disconnected, its threads are joined, its descriptor is closed and further
  packets are refused.  It returns, unless the last task is counted down in the moment between the check of
  the counter and the wait: runs without this race end with \<^verbatim>\<open>Deinit\<close> returned.  The race exists whenever a task is
  pending, since workers notify without the mutex: then there is a run after which all tasks have run
  and have notified, and \<^verbatim>\<open>Deinit\<close> waits for ever.\<close>

theorem deinit_returns_unless_race:
  assumes inv: "queue_inv hash t" and few: "length (dispatch_tasks t) < 2 ^ 64" and fds: "owns fds (zsocket t) p"
    and E: "lawful_envs hash E" "E \<noteq> {}" and start: "Deinit_begin p t = (p', s0)"
  shows "open_fds p' = fds \<and>
    (\<forall>n s. (shutdown_step P E ^^ n) s0 s \<longrightarrow> n \<le> 5 * length (dispatch_tasks t) + 3) \<and>
    (\<forall>s. (shutdown_step P E)\<^sup>*\<^sup>* s0 s \<and> waiting_thread s = Returned \<longrightarrow>
       dispatch_tasks (transport s) = [] \<and> pending_dispatch_tasks (transport s) = 0 \<and> state (transport s) = kDisconnected \<and>
       \<not> threads_running (transport s) \<and> socket_fd (zsocket (transport s)) = None \<and>
       (\<forall>now packet. \<not> fst (EnqueuePacket now packet (transport s)))) \<and>
    (\<forall>s. (calm_step P E)\<^sup>*\<^sup>* s0 s \<and> (\<nexists>s'. shutdown_step P E s s') \<longrightarrow> waiting_thread s = Returned) \<and>
    (dispatch_tasks t \<noteq> [] \<longrightarrow>
       (\<exists>s. (shutdown_step P E)\<^sup>*\<^sup>* s0 s \<and> waiting_thread s = Blocked \<and> dispatch_tasks (transport s) = [] \<and> remainders s = [] \<and>
          (\<nexists>s'. shutdown_step P E s s')))"
proof -
  obtain z p1 where d: "DestroySocket (zsocket t) p = (z, p1)" by fastforce
  from DestroySocket_owns [OF fds d] have z: "socket_fd z = None" "open_fds p1 = fds" by auto
  have s0: "s0 = \<lparr>transport = t\<lparr>zsocket := z, stop_threads := True, threads_running := False\<rparr>, waiting_thread = Locking, remainders = []\<rparr>"
    "p' = p1" using start d by (simp_all add: Deinit_begin_def)
  have ok: "shutdown_ok hash s0" using inv few z(1) by (simp add: s0 shutdown_ok_def queue_inv_def receipts_ok_def)
  have reach: "shutdown_ok hash s" if "(shutdown_step P E)\<^sup>*\<^sup>* s0 s" for s
    using that shutdown_run [OF E(1) _ ok] by (auto dest: rtranclp_imp_relpowp)
  have "n \<le> 5 * length (dispatch_tasks t) + 3" if "(shutdown_step P E ^^ n) s0 s" for n s
    using shutdown_run [OF E(1) that ok] by (simp add: s0 remaining_steps_def)
  moreover have "dispatch_tasks (transport s) = [] \<and> pending_dispatch_tasks (transport s) = 0 \<and> state (transport s) = kDisconnected \<and>
       \<not> threads_running (transport s) \<and> socket_fd (zsocket (transport s)) = None \<and>
       (\<forall>now packet. \<not> fst (EnqueuePacket now packet (transport s)))"
    if "(shutdown_step P E)\<^sup>*\<^sup>* s0 s" "waiting_thread s = Returned" for s
    using reach [OF that(1)] that(2) pending_zero [of hash "transport s"] by (simp add: shutdown_ok_def EnqueuePacket_def)
  moreover have "waiting_thread s = Returned" if "(calm_step P E)\<^sup>*\<^sup>* s0 s" "\<nexists>s'. shutdown_step P E s s'" for s
  proof -
    have "alert s0" by (simp add: s0 alert_def)
    from calm_run [OF E(1) that(1) ok this] stuck [OF E _ that(2)] show ?thesis by (auto simp: alert_def)
  qed
  moreover obtain env where "env \<in> E" using E(2) by blast
  from wake_up_lost [OF E(1) this ok, of P] have "dispatch_tasks t \<noteq> [] \<Longrightarrow>
      \<exists>s. (shutdown_step P E)\<^sup>*\<^sup>* s0 s \<and> waiting_thread s = Blocked \<and> dispatch_tasks (transport s) = [] \<and> remainders s = [] \<and>
        (\<nexists>s'. shutdown_step P E s s')" by (simp add: s0)
  ultimately show ?thesis using z(2) s0(2) by blast
qed

theorem deinit_returns_unless_race_witness:
  "\<exists>p' s0 s. Deinit_begin \<lparr>open_fds = [7]\<rparr> (new_transport 0\<lparr>zsocket := new_socket\<lparr>socket_fd := Some 7\<rparr>,
      dispatch_tasks := [sample_packet], pending_dispatch_tasks := 1\<rparr>) = (p', s0) \<and> open_fds p' = [] \<and>
    (shutdown_step sample_platform {sample_env})\<^sup>*\<^sup>* s0 s \<and> waiting_thread s = Blocked \<and> dispatch_tasks (transport s) = [] \<and>
    (\<nexists>s'. shutdown_step sample_platform {sample_env} s s')"
proof -
  let ?t = "new_transport 0\<lparr>zsocket := new_socket\<lparr>socket_fd := Some 7\<rparr>,
      dispatch_tasks := [sample_packet], pending_dispatch_tasks := 1\<rparr>"
  have inv: "queue_inv (std_hash sample_env) ?t"
    using queue_inv_new_transport [of "std_hash sample_env" 0] by (simp add: queue_inv_def receipts_ok_def)
  have few: "length (dispatch_tasks ?t) < 2 ^ 64" by simp
  have fds: "owns [] (zsocket ?t) \<lparr>open_fds = [7]\<rparr>" by (simp add: owns_def)
  have E: "lawful_envs (std_hash sample_env) {sample_env}" "{sample_env} \<noteq> {}" using sample_env_lawful by (simp_all add: lawful_envs_def)
  obtain p' s0 where start: "Deinit_begin \<lparr>open_fds = [7]\<rparr> ?t = (p', s0)" by fastforce
  from deinit_returns_unless_race [OF inv few fds E start, of sample_platform] start show ?thesis by auto
qed

end
