(* ===== verification/System_Command.thy ===== *)
theory System_Command
  imports Packets "HOL-Library.Monad_Syntax"
begin

text \<open>
  \<^verbatim>\<open>src/znet/z_system_command.h\<close>: \<^verbatim>\<open>PacketWriter\<close>, a growing buffer, \<^verbatim>\<open>PacketReader\<close>, a cursor over
  received bytes, and the structures of the handshake.  The templates are instantiated at the types
  the sources use them with.  What fresh memory holds is the parameter \<open>fresh\<close>.  The growth loop of
  \<^verbatim>\<open>EnsureCapacity\<close> need not end, so a writing operation returns an option; a reading one returns
  the value, \<open>None\<close> for \<^verbatim>\<open>false\<close>, and the reader.
\<close>

subsection \<open>PacketWriter\<close>

record PacketWriter =
  writer_buffer :: "byte list"
  writer_capacity :: nat
  writer_offset :: nat

definition new_writer :: "(nat \<Rightarrow> byte) \<Rightarrow> nat \<Rightarrow> PacketWriter" where
  "new_writer fresh initial_size =
     \<lparr>writer_buffer = map fresh [0..<initial_size], writer_capacity = initial_size, writer_offset = 0\<rparr>"

partial_function (option) grown_capacity :: "nat \<Rightarrow> nat \<Rightarrow> nat option" where
  "grown_capacity new_capacity required =
     (if new_capacity < required then grown_capacity (new_capacity * 2) required else Some new_capacity)"

definition EnsureCapacity :: "(nat \<Rightarrow> byte) \<Rightarrow> nat \<Rightarrow> PacketWriter \<Rightarrow> PacketWriter option" where
  "EnsureCapacity fresh required w =
     (if required \<le> writer_capacity w then Some w
      else do {
        new_capacity \<leftarrow> grown_capacity (writer_capacity w) required;
        Some (w\<lparr>writer_buffer := memcpy_at 0 (take (writer_offset w) (writer_buffer w)) (map fresh [0..<new_capacity]),
                writer_capacity := new_capacity\<rparr>)
      })"

definition put_bytes :: "byte list \<Rightarrow> PacketWriter \<Rightarrow> PacketWriter" where
  \<comment> \<open>\<^verbatim>\<open>memcpy\<close> to \<^verbatim>\<open>buffer_ + offset_\<close>, then the offset moves\<close>
  "put_bytes bs w = w\<lparr>writer_buffer := memcpy_at (writer_offset w) bs (writer_buffer w),
                      writer_offset := writer_offset w + length bs\<rparr>"

definition Put_u8 :: "(nat \<Rightarrow> byte) \<Rightarrow> u8 \<Rightarrow> PacketWriter \<Rightarrow> PacketWriter option" where
  "Put_u8 fresh value w = do {
     w \<leftarrow> EnsureCapacity fresh (writer_offset w + 1) w;
     Some (w\<lparr>writer_buffer := (writer_buffer w)[writer_offset w := value], writer_offset := writer_offset w + 1\<rparr>)
   }"

definition Put_u16 :: "endian \<Rightarrow> (nat \<Rightarrow> byte) \<Rightarrow> u16 \<Rightarrow> PacketWriter \<Rightarrow> PacketWriter option" where
  "Put_u16 h fresh value w = do {
     w \<leftarrow> EnsureCapacity fresh (writer_offset w + 2) w;
     Some (w\<lparr>writer_buffer := StoreU16 h (writer_offset w) value (writer_buffer w), writer_offset := writer_offset w + 2\<rparr>)
   }"

definition Put_u32 :: "endian \<Rightarrow> (nat \<Rightarrow> byte) \<Rightarrow> u32 \<Rightarrow> PacketWriter \<Rightarrow> PacketWriter option" where
  "Put_u32 h fresh value w = do {
     w \<leftarrow> EnsureCapacity fresh (writer_offset w + 4) w;
     Some (w\<lparr>writer_buffer := StoreU32 h (writer_offset w) value (writer_buffer w), writer_offset := writer_offset w + 4\<rparr>)
   }"

definition Put_u64 :: "endian \<Rightarrow> (nat \<Rightarrow> byte) \<Rightarrow> u64 \<Rightarrow> PacketWriter \<Rightarrow> PacketWriter option" where
  "Put_u64 h fresh value w = do {
     w \<leftarrow> EnsureCapacity fresh (writer_offset w + 8) w;
     Some (w\<lparr>writer_buffer := StoreU64 h (writer_offset w) value (writer_buffer w), writer_offset := writer_offset w + 8\<rparr>)
   }"

text \<open>The overload for trivially copyable types copies the object's bytes.\<close>

definition Put_object :: "(nat \<Rightarrow> byte) \<Rightarrow> byte list \<Rightarrow> PacketWriter \<Rightarrow> PacketWriter option" where
  "Put_object fresh bytes w = do {
     w \<leftarrow> EnsureCapacity fresh (writer_offset w + length bytes) w;
     Some (put_bytes bytes w)
   }"

definition PutS :: "(nat \<Rightarrow> byte) \<Rightarrow> byte list \<Rightarrow> PacketWriter \<Rightarrow> PacketWriter option" where
  "PutS fresh data w = do {
     w \<leftarrow> EnsureCapacity fresh (writer_offset w + length data) w;
     Some (put_bytes data w)
   }"

definition PutList :: "endian \<Rightarrow> (nat \<Rightarrow> byte) \<Rightarrow> byte list \<Rightarrow> PacketWriter \<Rightarrow> (bool \<times> PacketWriter) option" where
  "PutList h fresh data w =
     (if length data > 65535 then Some (False, w)
      else do {
        w \<leftarrow> EnsureCapacity fresh (writer_offset w + 2 + length data) w;
        let w = w\<lparr>writer_buffer := StoreU16 h (writer_offset w) (of_nat (length data)) (writer_buffer w),
                  writer_offset := writer_offset w + 2\<rparr>;
        w \<leftarrow> PutS fresh data w;
        Some (True, w)
      })"

definition writer_data :: "PacketWriter \<Rightarrow> byte list" where
  "writer_data w = take (writer_offset w) (writer_buffer w)"

subsection \<open>PacketReader\<close>

record PacketReader =
  reader_buffer :: "byte list"
  reader_offset :: nat

definition new_reader :: "byte list \<Rightarrow> PacketReader" where
  "new_reader buffer = \<lparr>reader_buffer = buffer, reader_offset = 0\<rparr>"

definition Read_u8 :: "PacketReader \<Rightarrow> u8 option \<times> PacketReader" where
  "Read_u8 r =
     (if reader_offset r + 1 > length (reader_buffer r) then (None, r)
      else (Some (reader_buffer r ! reader_offset r), r\<lparr>reader_offset := reader_offset r + 1\<rparr>))"

definition Read_u16 :: "endian \<Rightarrow> PacketReader \<Rightarrow> u16 option \<times> PacketReader" where
  "Read_u16 h r =
     (if reader_offset r + 2 > length (reader_buffer r) then (None, r)
      else (Some (LoadU16 h (reader_buffer r) (reader_offset r)), r\<lparr>reader_offset := reader_offset r + 2\<rparr>))"

definition Read_u32 :: "endian \<Rightarrow> PacketReader \<Rightarrow> u32 option \<times> PacketReader" where
  "Read_u32 h r =
     (if reader_offset r + 4 > length (reader_buffer r) then (None, r)
      else (Some (LoadU32 h (reader_buffer r) (reader_offset r)), r\<lparr>reader_offset := reader_offset r + 4\<rparr>))"

definition Read_u64 :: "endian \<Rightarrow> PacketReader \<Rightarrow> u64 option \<times> PacketReader" where
  "Read_u64 h r =
     (if reader_offset r + 8 > length (reader_buffer r) then (None, r)
      else (Some (LoadU64 h (reader_buffer r) (reader_offset r)), r\<lparr>reader_offset := reader_offset r + 8\<rparr>))"

text \<open>\<open>ReadS\<close> reads as many bytes as the vector it is given has; \<open>Read_object\<close> is the overload for
  trivially copyable types, given their size.\<close>

definition ReadS :: "nat \<Rightarrow> PacketReader \<Rightarrow> byte list option \<times> PacketReader" where
  "ReadS n r =
     (if reader_offset r + n > length (reader_buffer r) then (None, r)
      else (Some (block_at (reader_offset r) n (reader_buffer r)), r\<lparr>reader_offset := reader_offset r + n\<rparr>))"

definition Read_object :: "nat \<Rightarrow> PacketReader \<Rightarrow> byte list option \<times> PacketReader" where
  "Read_object n r =
     (if reader_offset r + n > length (reader_buffer r) then (None, r)
      else (Some (block_at (reader_offset r) n (reader_buffer r)), r\<lparr>reader_offset := reader_offset r + n\<rparr>))"

definition ReadList :: "endian \<Rightarrow> PacketReader \<Rightarrow> byte list option \<times> PacketReader" where
  "ReadList h r =
     (if reader_offset r + 2 > length (reader_buffer r) then (None, r)
      else
        let n = unat (LoadU16 h (reader_buffer r) (reader_offset r));
            r = r\<lparr>reader_offset := reader_offset r + 2\<rparr>
        in if reader_offset r + n > length (reader_buffer r) then (None, r)
           else ReadS n r)"

subsection \<open>The structures of the handshake\<close>

record ClientHello =
  ch_encryption_algo_list_len :: u8
  ch_compression_algo_list_len :: u8
  ch_pub_key_list_len :: u8
  ch_challenge_len :: u8

record ServerHello =
  sh_encryption_algo_list_len :: u8
  sh_compression_algo_list_len :: u8
  sh_pub_key_list_len :: u8
  sh_challenge_len :: u8
  sh_proof_len :: u8

record AuthProof =
  proof_len :: u8

text \<open>The objects in memory: structures of bytes, without padding.\<close>

definition ClientHello_object :: "ClientHello \<Rightarrow> byte list" where
  "ClientHello_object p = [ch_encryption_algo_list_len p, ch_compression_algo_list_len p,
     ch_pub_key_list_len p, ch_challenge_len p]"

definition ServerHello_object :: "ServerHello \<Rightarrow> byte list" where
  "ServerHello_object p = [sh_encryption_algo_list_len p, sh_compression_algo_list_len p,
     sh_pub_key_list_len p, sh_challenge_len p, sh_proof_len p]"

definition ClientHello_Build :: "(nat \<Rightarrow> byte) \<Rightarrow> ClientHello \<Rightarrow> PacketWriter \<Rightarrow> PacketWriter option" where
  "ClientHello_Build fresh p w = do {
     w \<leftarrow> Put_u8 fresh (ch_encryption_algo_list_len p) w;
     w \<leftarrow> Put_u8 fresh (ch_compression_algo_list_len p) w;
     w \<leftarrow> Put_u8 fresh (ch_pub_key_list_len p) w;
     Put_u8 fresh (ch_challenge_len p) w
   }"

definition ServerHello_Build :: "(nat \<Rightarrow> byte) \<Rightarrow> ServerHello \<Rightarrow> PacketWriter \<Rightarrow> PacketWriter option" where
  "ServerHello_Build fresh p w = do {
     w \<leftarrow> Put_u8 fresh (sh_encryption_algo_list_len p) w;
     w \<leftarrow> Put_u8 fresh (sh_compression_algo_list_len p) w;
     w \<leftarrow> Put_u8 fresh (sh_pub_key_list_len p) w;
     w \<leftarrow> Put_u8 fresh (sh_challenge_len p) w;
     Put_u8 fresh (sh_proof_len p) w
   }"

definition AuthProof_Build :: "(nat \<Rightarrow> byte) \<Rightarrow> AuthProof \<Rightarrow> PacketWriter \<Rightarrow> PacketWriter option" where
  "AuthProof_Build fresh p w = Put_u8 fresh (proof_len p) w"

subsection \<open>The buffer grows\<close>

lemma grown_capacity_returns:
  "0 < cap \<Longrightarrow> \<exists>n. grown_capacity cap required = Some n \<and> required \<le> n \<and> cap \<le> n"
proof (induction "required - cap" arbitrary: cap rule: less_induct)
  case less
  show ?case
  proof (cases "cap < required")
    case True
    with less.prems have "required - cap * 2 < required - cap" "0 < cap * 2" by auto
    from less.hyps [OF this] show ?thesis using True by (subst grown_capacity.simps) auto
  next
    case False
    then show ?thesis by (subst grown_capacity.simps) simp
  qed
qed

text \<open>A writer made with no initial capacity never returns from its first write.\<close>

lemma grown_capacity_zero: "0 < required \<Longrightarrow> grown_capacity 0 required = None"
proof -
  have "n = 0 \<longrightarrow> m = 0" if "grown_capacity n m = Some y" for n m y
  proof (rule grown_capacity.raw_induct [OF _ that, where P = "\<lambda>n m _. n = 0 \<longrightarrow> m = 0"])
    fix g cap req v
    assume "\<And>n m y. g n m = Some y \<Longrightarrow> n = 0 \<longrightarrow> m = 0"
      and "(if cap < req then g (cap * 2) req else Some cap) = Some (v :: nat)"
    then show "cap = 0 \<longrightarrow> req = (0 :: nat)" by (auto split: if_splits)
  qed
  then show "0 < required \<Longrightarrow> grown_capacity 0 required = None" by (cases "grown_capacity 0 required") auto
qed

subsection \<open>What was written\<close>

definition writer_ok :: "PacketWriter \<Rightarrow> bool" where
  "writer_ok w \<longleftrightarrow> length (writer_buffer w) = writer_capacity w \<and> writer_offset w \<le> writer_capacity w \<and>
     0 < writer_capacity w"

definition reader_ok :: "PacketReader \<Rightarrow> bool" where
  "reader_ok r \<longleftrightarrow> reader_offset r \<le> length (reader_buffer r)"

text \<open>\<open>appends f bs\<close>: the operation returns on every writer and adds the bytes to its data.\<close>

definition appends :: "(PacketWriter \<Rightarrow> PacketWriter option) \<Rightarrow> byte list \<Rightarrow> bool" where
  "appends f bs \<longleftrightarrow> (\<forall>w. writer_ok w \<longrightarrow>
     (\<exists>w'. f w = Some w' \<and> writer_ok w' \<and> writer_data w' = writer_data w @ bs))"

lemma new_writer_ok: "0 < n \<Longrightarrow> writer_ok (new_writer fresh n)" "writer_data (new_writer fresh n) = []"
  by (simp_all add: writer_ok_def new_writer_def writer_data_def)

lemma EnsureCapacity_spec:
  assumes "writer_ok w"
  shows "\<exists>w'. EnsureCapacity fresh required w = Some w' \<and> writer_ok w' \<and> required \<le> writer_capacity w' \<and>
    writer_offset w' = writer_offset w \<and> writer_data w' = writer_data w"
proof (cases "required \<le> writer_capacity w")
  case True
  with assms show ?thesis by (simp add: EnsureCapacity_def)
next
  case False
  from assms grown_capacity_returns [of "writer_capacity w" required] obtain n where
    n: "grown_capacity (writer_capacity w) required = Some n" "required \<le> n" "writer_capacity w \<le> n"
    by (auto simp: writer_ok_def)
  moreover have "writer_offset w \<le> n" "writer_offset w \<le> length (writer_buffer w)" "0 < n"
    using assms n(3) by (auto simp: writer_ok_def)
  ultimately show ?thesis using False
    by (simp add: EnsureCapacity_def writer_ok_def writer_data_def memcpy_at_def)
qed

lemma writer_data_memcpy:
  assumes "writer_ok w" and "writer_offset w + length bs \<le> writer_capacity w"
  shows "writer_ok (put_bytes bs w)" and "writer_data (put_bytes bs w) = writer_data w @ bs"
  using assms by (auto simp: writer_ok_def put_bytes_def writer_data_def memcpy_at_def)

text \<open>The common shape of the writing operations.\<close>

lemma appends_ensure:
  assumes "\<And>w. f w = do {w \<leftarrow> EnsureCapacity fresh (writer_offset w + length bs) w; Some (put_bytes bs w)}"
  shows "appends f bs"
  unfolding appends_def
proof (intro allI impI)
  fix w assume ok: "writer_ok w"
  from EnsureCapacity_spec [OF ok, of fresh "writer_offset w + length bs"] obtain w1 where
    w1: "EnsureCapacity fresh (writer_offset w + length bs) w = Some w1" "writer_ok w1"
    "writer_offset w + length bs \<le> writer_capacity w1" "writer_offset w1 = writer_offset w"
    "writer_data w1 = writer_data w" by blast
  with writer_data_memcpy [of w1 bs] show "\<exists>w'. f w = Some w' \<and> writer_ok w' \<and> writer_data w' = writer_data w @ bs"
    by (simp add: assms)
qed

lemma update_memcpy: "i < length xs \<Longrightarrow> xs[i := v] = memcpy_at i [v] xs"
  by (simp add: memcpy_at_def upd_conv_take_nth_drop)

lemma appends_bind: "appends f bs \<Longrightarrow> appends g cs \<Longrightarrow> appends (\<lambda>w. f w \<bind> g) (bs @ cs)"
  unfolding appends_def by (metis append.assoc bind.bind_lunit)

lemma appends_writer:
  assumes "appends f bs" and "0 < n"
  shows "\<exists>w. f (new_writer fresh n) = Some w \<and> writer_ok w \<and> writer_data w = bs"
  using assms new_writer_ok unfolding appends_def by (metis append_Nil)

subsection \<open>The interface between writer and reader\<close>

text \<open>
  A field of a message: how it is written, how it is read and the bytes it takes.  The laws say that
  writing appends those bytes, that reading at them gives the value back and moves behind them, and
  that a read never leaves the buffer.
\<close>

locale field_codec =
  fixes put :: "'v \<Rightarrow> PacketWriter \<Rightarrow> PacketWriter option"
    and get :: "PacketReader \<Rightarrow> 'v option \<times> PacketReader"
    and enc :: "'v \<Rightarrow> byte list"
    and fits :: "'v \<Rightarrow> bool"
  assumes put_enc: "fits v \<Longrightarrow> appends (put v) (enc v)"
    and get_enc: "fits v \<Longrightarrow> reader_buffer r = pre @ enc v @ rest \<Longrightarrow> reader_offset r = length pre \<Longrightarrow>
      get r = (Some v, r\<lparr>reader_offset := length (pre @ enc v)\<rparr>)"
    and get_short: "fits v \<Longrightarrow> reader_buffer r = pre @ take k (enc v) \<Longrightarrow> k < length (enc v) \<Longrightarrow>
      reader_offset r = length pre \<Longrightarrow> fst (get r) = None"
    and get_ok: "reader_ok r \<Longrightarrow> reader_ok (snd (get r)) \<and> reader_buffer (snd (get r)) = reader_buffer r"
begin

lemma put_get:
  assumes "fits v" and "writer_ok w"
  shows "\<exists>w'. put v w = Some w' \<and>
    get \<lparr>reader_buffer = writer_data w' @ rest, reader_offset = length (writer_data w)\<rparr> =
      (Some v, \<lparr>reader_buffer = writer_data w' @ rest, reader_offset = length (writer_data w')\<rparr>)"
proof -
  from put_enc [OF assms(1)] assms(2) obtain w' where
    w': "put v w = Some w'" "writer_data w' = writer_data w @ enc v" unfolding appends_def by blast
  with get_enc [OF assms(1), of "\<lparr>reader_buffer = writer_data w' @ rest, reader_offset = length (writer_data w)\<rparr>"
      "writer_data w" rest] show ?thesis by auto
qed

end

lemma block_here_append: "block_at (length pre) n (pre @ xs @ rest) = take n (xs @ rest)"
  by (simp add: block_at_def)

interpretation u8_field: field_codec "Put_u8 fresh" Read_u8 "\<lambda>v. [v]" "\<lambda>_. True" for fresh
proof unfold_locales
  have "Put_u8 fresh v w = do {w \<leftarrow> EnsureCapacity fresh (writer_offset w + length [v]) w; Some (put_bytes [v] w)}"
    if "writer_ok w" for v w
  proof -
    from EnsureCapacity_spec [OF that, of fresh "writer_offset w + 1"] obtain w1 where
      "EnsureCapacity fresh (writer_offset w + 1) w = Some w1" "writer_ok w1"
      "writer_offset w + 1 \<le> writer_capacity w1" "writer_offset w1 = writer_offset w" by blast
    then show ?thesis by (simp add: Put_u8_def put_bytes_def update_memcpy writer_ok_def)
  qed
  then show "appends (Put_u8 fresh v) [v]" for v
    using appends_ensure [of "\<lambda>w. do {w \<leftarrow> EnsureCapacity fresh (writer_offset w + length [v]) w; Some (put_bytes [v] w)}"]
    unfolding appends_def by fastforce
qed (auto simp: Read_u8_def reader_ok_def)

interpretation u16_field: field_codec "Put_u16 h fresh" "Read_u16 h" word_bytes "\<lambda>_. True" for h fresh
proof unfold_locales
  show "appends (Put_u16 h fresh v) (word_bytes v)" for v
    by (rule appends_ensure) (simp add: Put_u16_def put_bytes_def Store_eq)
qed (auto simp: Read_u16_def reader_ok_def Load_eq block_here_append bytes_word_bytes)

interpretation u32_field: field_codec "Put_u32 h fresh" "Read_u32 h" word_bytes "\<lambda>_. True" for h fresh
proof unfold_locales
  show "appends (Put_u32 h fresh v) (word_bytes v)" for v
    by (rule appends_ensure) (simp add: Put_u32_def put_bytes_def Store_eq)
qed (auto simp: Read_u32_def reader_ok_def Load_eq block_here_append bytes_word_bytes)

interpretation u64_field: field_codec "Put_u64 h fresh" "Read_u64 h" word_bytes "\<lambda>_. True" for h fresh
proof unfold_locales
  show "appends (Put_u64 h fresh v) (word_bytes v)" for v
    by (rule appends_ensure) (simp add: Put_u64_def put_bytes_def Store_eq)
qed (auto simp: Read_u64_def reader_ok_def Load_eq block_here_append bytes_word_bytes)

interpretation raw_field: field_codec "PutS fresh" "ReadS n" "\<lambda>bs. bs" "\<lambda>bs. length bs = n" for fresh n
proof unfold_locales
  show "appends (PutS fresh bs) bs" for bs by (rule appends_ensure) (simp add: PutS_def)
qed (auto simp: ReadS_def reader_ok_def block_here_append)

interpretation object_field: field_codec "Put_object fresh" "Read_object n" "\<lambda>bs. bs" "\<lambda>bs. length bs = n" for fresh n
proof unfold_locales
  show "appends (Put_object fresh bs) bs" for bs by (rule appends_ensure) (simp add: Put_object_def)
qed (auto simp: Read_object_def reader_ok_def block_here_append)

definition list_bytes :: "byte list \<Rightarrow> byte list" where
  "list_bytes bs = word_bytes (of_nat (length bs) :: u16) @ bs"

lemma list_length: "length bs \<le> 65535 \<Longrightarrow> unat (of_nat (length bs) :: u16) = length bs"
  by (simp add: unat_of_nat)

lemma PutList_spec:
  assumes "length bs \<le> 65535" and ok: "writer_ok w"
  shows "\<exists>w'. PutList h fresh bs w = Some (True, w') \<and> writer_ok w' \<and> writer_data w' = writer_data w @ list_bytes bs"
proof -
  let ?n = "word_bytes (of_nat (length bs) :: u16)"
  from EnsureCapacity_spec [OF ok, of fresh "writer_offset w + 2 + length bs"] obtain w1 where
    w1: "EnsureCapacity fresh (writer_offset w + 2 + length bs) w = Some w1" "writer_ok w1"
    "writer_offset w + 2 + length bs \<le> writer_capacity w1" "writer_offset w1 = writer_offset w"
    "writer_data w1 = writer_data w" by blast
  let ?w2 = "put_bytes ?n w1"
  have "writer_offset w1 + length ?n \<le> writer_capacity w1" using w1(3,4) by simp
  note w2 = writer_data_memcpy [OF w1(2) this]
  from raw_field.put_enc [of bs "length bs" fresh] w2(1) obtain w3 where
    w3: "PutS fresh bs ?w2 = Some w3" "writer_ok w3" "writer_data w3 = writer_data ?w2 @ bs"
    unfolding appends_def by blast
  from w3(1) have "PutList h fresh bs w = Some (True, w3)"
    using assms(1) w1(1) by (simp add: PutList_def put_bytes_def Store_eq Let_def)
  with w3 w2(2) w1(5) show ?thesis by (simp add: list_bytes_def)
qed

text \<open>A list that is written; one that is too long is refused and the writer left as it was.\<close>

definition put_list :: "endian \<Rightarrow> (nat \<Rightarrow> byte) \<Rightarrow> byte list \<Rightarrow> PacketWriter \<Rightarrow> PacketWriter option" where
  "put_list h fresh bs w = map_option snd (PutList h fresh bs w)"

interpretation list_field: field_codec "put_list h fresh" "ReadList h" list_bytes "\<lambda>bs. length bs \<le> 65535" for h fresh
proof unfold_locales
  show "appends (put_list h fresh bs) (list_bytes bs)" if "length bs \<le> 65535" for bs
    unfolding appends_def put_list_def using PutList_spec [OF that, of _ h fresh] by fastforce
  show "ReadList h r = (Some bs, r\<lparr>reader_offset := length (pre @ list_bytes bs)\<rparr>)"
    if "length bs \<le> 65535" "reader_buffer r = pre @ list_bytes bs @ rest" "reader_offset r = length pre" for bs r pre rest
  proof -
    have "LoadU16 h (reader_buffer r) (length pre) = of_nat (length bs)"
      using that(2) by (simp add: list_bytes_def Load_eq block_here_append bytes_word_bytes)
    moreover have "block_at (length pre + 2) (length bs) (reader_buffer r) = bs"
      using that(2) by (simp add: list_bytes_def block_at_def)
    ultimately show ?thesis using that by (simp add: ReadList_def ReadS_def list_length list_bytes_def)
  qed
  show "fst (ReadList h r) = None"
    if "length bs \<le> 65535" "reader_buffer r = pre @ take k (list_bytes bs)" "k < length (list_bytes bs)"
      "reader_offset r = length pre" for bs r pre k
  proof (cases "k < 2")
    case True
    with that show ?thesis by (simp add: ReadList_def)
  next
    case False
    with that(2) have "reader_buffer r = pre @ word_bytes (of_nat (length bs) :: u16) @ take (k - 2) bs"
      by (simp add: list_bytes_def)
    moreover from this have "LoadU16 h (reader_buffer r) (length pre) = of_nat (length bs)"
      by (simp add: Load_eq block_here_append bytes_word_bytes)
    ultimately show ?thesis using that False by (auto simp: ReadList_def list_length list_bytes_def Let_def)
  qed
qed (auto simp: ReadList_def ReadS_def reader_ok_def Let_def)

lemma PutList_refused: "length bs > 65535 \<Longrightarrow> PutList h fresh bs w = Some (False, w)"
  by (simp add: PutList_def)

subsection \<open>Whole messages\<close>

datatype field = U8 u8 | U16 u16 | U32 u32 | U64 u64 | Raw "byte list" | Counted "byte list"

text \<open>What a reader must know beforehand: the type of each field, and the size of a raw one.\<close>

datatype shape = Shape8 | Shape16 | Shape32 | Shape64 | ShapeRaw nat | ShapeCounted

fun shape_of :: "field \<Rightarrow> shape" where
  "shape_of (U8 _) = Shape8"
| "shape_of (U16 _) = Shape16"
| "shape_of (U32 _) = Shape32"
| "shape_of (U64 _) = Shape64"
| "shape_of (Raw bs) = ShapeRaw (length bs)"
| "shape_of (Counted _) = ShapeCounted"

fun put_field :: "endian \<Rightarrow> (nat \<Rightarrow> byte) \<Rightarrow> field \<Rightarrow> PacketWriter \<Rightarrow> PacketWriter option" where
  "put_field h fresh (U8 v) = Put_u8 fresh v"
| "put_field h fresh (U16 v) = Put_u16 h fresh v"
| "put_field h fresh (U32 v) = Put_u32 h fresh v"
| "put_field h fresh (U64 v) = Put_u64 h fresh v"
| "put_field h fresh (Raw bs) = PutS fresh bs"
| "put_field h fresh (Counted bs) = put_list h fresh bs"

fun get_field :: "endian \<Rightarrow> shape \<Rightarrow> PacketReader \<Rightarrow> field option \<times> PacketReader" where
  "get_field h Shape8 r = apfst (map_option U8) (Read_u8 r)"
| "get_field h Shape16 r = apfst (map_option U16) (Read_u16 h r)"
| "get_field h Shape32 r = apfst (map_option U32) (Read_u32 h r)"
| "get_field h Shape64 r = apfst (map_option U64) (Read_u64 h r)"
| "get_field h (ShapeRaw n) r = apfst (map_option Raw) (ReadS n r)"
| "get_field h ShapeCounted r = apfst (map_option Counted) (ReadList h r)"

fun field_bytes :: "field \<Rightarrow> byte list" where
  "field_bytes (U8 v) = [v]"
| "field_bytes (U16 v) = word_bytes v"
| "field_bytes (U32 v) = word_bytes v"
| "field_bytes (U64 v) = word_bytes v"
| "field_bytes (Raw bs) = bs"
| "field_bytes (Counted bs) = list_bytes bs"

fun field_fits :: "field \<Rightarrow> bool" where
  "field_fits (Counted bs) \<longleftrightarrow> length bs \<le> 65535"
| "field_fits _ \<longleftrightarrow> True"

interpretation message_field: field_codec "put_field h fresh" "get_field h' k" field_bytes
  "\<lambda>f. field_fits f \<and> shape_of f = k" for h h' fresh k
proof unfold_locales
  show "appends (put_field h fresh f) (field_bytes f)" if "field_fits f \<and> shape_of f = k" for f
    using that u8_field.put_enc u16_field.put_enc u32_field.put_enc u64_field.put_enc raw_field.put_enc list_field.put_enc
    by (cases f) auto
  show "get_field h' k r = (Some f, r\<lparr>reader_offset := length (pre @ field_bytes f)\<rparr>)"
    if "field_fits f \<and> shape_of f = k" "reader_buffer r = pre @ field_bytes f @ rest" "reader_offset r = length pre"
    for f r pre rest
    using that u8_field.get_enc [of r pre] u16_field.get_enc [of r pre _ rest h'] u32_field.get_enc [of r pre _ rest h']
      u64_field.get_enc [of r pre _ rest h'] raw_field.get_enc [of _ _ r pre rest] list_field.get_enc [of _ r pre rest h']
    by (cases f) auto
  show "fst (get_field h' k r) = None"
    if "field_fits f \<and> shape_of f = k" "reader_buffer r = pre @ take j (field_bytes f)" "j < length (field_bytes f)"
      "reader_offset r = length pre" for f r pre j
    using that u8_field.get_short [of r pre j] u16_field.get_short [of r pre j _ h'] u32_field.get_short [of r pre j _ h']
      u64_field.get_short [of r pre j _ h'] raw_field.get_short [of _ _ r pre j] list_field.get_short [of _ r pre j h']
    by (cases f) auto
  show "reader_ok (snd (get_field h' k r)) \<and> reader_buffer (snd (get_field h' k r)) = reader_buffer r"
    if "reader_ok r" for r
    using u8_field.get_ok [OF that] u16_field.get_ok [OF that, of h'] u32_field.get_ok [OF that, of h']
      u64_field.get_ok [OF that, of h'] raw_field.get_ok [OF that] list_field.get_ok [OF that, of h']
    by (cases k) auto
qed

fun put_fields :: "endian \<Rightarrow> (nat \<Rightarrow> byte) \<Rightarrow> field list \<Rightarrow> PacketWriter \<Rightarrow> PacketWriter option" where
  "put_fields h fresh [] w = Some w"
| "put_fields h fresh (f # fs) w = do {w \<leftarrow> put_field h fresh f w; put_fields h fresh fs w}"

fun get_fields :: "endian \<Rightarrow> shape list \<Rightarrow> PacketReader \<Rightarrow> field list option \<times> PacketReader" where
  "get_fields h [] r = (Some [], r)"
| "get_fields h (k # ks) r =
     (case get_field h k r of
        (None, r) \<Rightarrow> (None, r)
      | (Some f, r) \<Rightarrow> apfst (map_option ((#) f)) (get_fields h ks r))"

definition message_bytes :: "field list \<Rightarrow> byte list" where
  "message_bytes fs = concat (map field_bytes fs)"

lemma put_fields_appends: "list_all field_fits fs \<Longrightarrow> appends (put_fields h fresh fs) (message_bytes fs)"
proof (induction fs)
  case Nil
  then show ?case by (simp add: appends_def message_bytes_def)
next
  case (Cons f fs)
  then show ?case
    using appends_bind [OF message_field.put_enc [of f "shape_of f"] Cons.IH] by (simp add: message_bytes_def)
qed

lemma get_fields_message:
  "list_all field_fits fs \<Longrightarrow> reader_buffer r = pre @ message_bytes fs @ rest \<Longrightarrow> reader_offset r = length pre \<Longrightarrow>
   get_fields h (map shape_of fs) r = (Some fs, r\<lparr>reader_offset := length (pre @ message_bytes fs)\<rparr>)"
proof (induction fs arbitrary: r pre)
  case (Cons f fs)
  from Cons.prems have "get_field h (shape_of f) r = (Some f, r\<lparr>reader_offset := length (pre @ field_bytes f)\<rparr>)"
    by (intro message_field.get_enc [of _ _ _ _ "message_bytes fs @ rest"]) (auto simp: message_bytes_def)
  with Cons.IH [of "r\<lparr>reader_offset := length (pre @ field_bytes f)\<rparr>" "pre @ field_bytes f"] Cons.prems
  show ?case by (simp add: message_bytes_def)
qed (simp add: message_bytes_def)

lemma get_fields_truncated:
  "list_all field_fits fs \<Longrightarrow> reader_buffer r = pre @ take n (message_bytes fs) \<Longrightarrow> n < length (message_bytes fs) \<Longrightarrow>
   reader_offset r = length pre \<Longrightarrow> fst (get_fields h (map shape_of fs) r) = None"
proof (induction fs arbitrary: r pre n)
  case (Cons f fs)
  show ?case
  proof (cases "n < length (field_bytes f)")
    case True
    with Cons.prems have "fst (get_field h (shape_of f) r) = None"
      by (intro message_field.get_short [of f _ _ pre n]) (auto simp: message_bytes_def)
    then show ?thesis by (auto split: prod.split option.split)
  next
    case False
    let ?r = "r\<lparr>reader_offset := length (pre @ field_bytes f)\<rparr>"
    have buf: "reader_buffer r = pre @ field_bytes f @ take (n - length (field_bytes f)) (message_bytes fs)"
      using Cons.prems(2) False by (simp add: message_bytes_def)
    then have "get_field h (shape_of f) r = (Some f, ?r)" using Cons.prems(1,4)
      by (intro message_field.get_enc [of _ _ _ _ "take (n - length (field_bytes f)) (message_bytes fs)"]) simp_all
    moreover have "fst (get_fields h (map shape_of fs) ?r) = None"
      using Cons.prems buf False by (intro Cons.IH [of _ "pre @ field_bytes f" "n - length (field_bytes f)"])
        (auto simp: message_bytes_def)
    ultimately show ?thesis by simp
  qed
qed (simp add: message_bytes_def)

text \<open>C32: a message is a sequence of integers, raw blocks and counted lists.  Written on a host of either
  byte order, into a writer of any positive initial capacity, it is read back, on a host of either
  byte order, field by field and to its last byte; and if any bytes are missing at its end the
  reader notices instead of reading beyond the buffer.\<close>

theorem message_roundtrip:
  assumes "list_all field_fits fs" and "0 < initial_size"
  shows "\<exists>w. put_fields h fresh fs (new_writer fresh initial_size) = Some w \<and>
    get_fields h' (map shape_of fs) (new_reader (writer_data w)) =
      (Some fs, \<lparr>reader_buffer = writer_data w, reader_offset = length (writer_data w)\<rparr>) \<and>
    (\<forall>n < length (writer_data w). fst (get_fields h' (map shape_of fs) (new_reader (take n (writer_data w)))) = None)"
proof -
  from appends_writer [OF put_fields_appends [OF assms(1)] assms(2)] obtain w where
    w: "put_fields h fresh fs (new_writer fresh initial_size) = Some w" "writer_data w = message_bytes fs" by blast
  have "get_fields h' (map shape_of fs) (new_reader (message_bytes fs)) =
      (Some fs, \<lparr>reader_buffer = message_bytes fs, reader_offset = length (message_bytes fs)\<rparr>)"
    using get_fields_message [OF assms(1), of "new_reader (message_bytes fs)" "[]" "[]" h'] by (simp add: new_reader_def)
  moreover have "fst (get_fields h' (map shape_of fs) (new_reader (take n (message_bytes fs)))) = None"
    if "n < length (message_bytes fs)" for n
    using get_fields_truncated [OF assms(1) _ that, of _ "[]"] by (simp add: new_reader_def)
  ultimately show ?thesis using w by simp
qed

theorem message_roundtrip_witness:
  "\<exists>w. put_fields BigEndian (\<lambda>_. 0) [U8 1, U16 0x1234, Counted [1, 2, 3], U64 5, Raw [9]] (new_writer (\<lambda>_. 0) 2) = Some w \<and>
    fst (get_fields LittleEndian [Shape8, Shape16, ShapeCounted, Shape64, ShapeRaw 1] (new_reader (writer_data w))) =
      Some [U8 1, U16 0x1234, Counted [1, 2, 3], U64 5, Raw [9]]"
  using message_roundtrip [of "[U8 1, U16 0x1234, Counted [1, 2, 3], U64 5, Raw [9]]" 2 BigEndian "\<lambda>_. 0" LittleEndian]
  by auto

text \<open>The structures' \<^verbatim>\<open>Build\<close> functions, which write field by field, and the copy of the whole object
  write the same bytes.\<close>

theorem build_equals_object_copy:
  assumes "writer_ok w"
  shows "map_option writer_data (ClientHello_Build fresh c w) = map_option writer_data (Put_object fresh (ClientHello_object c) w) \<and>
    map_option writer_data (ServerHello_Build fresh s w) = map_option writer_data (Put_object fresh (ServerHello_object s) w)"
proof -
  have u8: "appends (Put_u8 fresh v) [v]" for v by (rule u8_field.put_enc) simp
  have "appends (ClientHello_Build fresh c) (ClientHello_object c)"
    using appends_bind [OF u8 appends_bind [OF u8 appends_bind [OF u8 u8]]]
    unfolding ClientHello_Build_def ClientHello_object_def by simp
  moreover have "appends (ServerHello_Build fresh s) (ServerHello_object s)"
    using appends_bind [OF u8 appends_bind [OF u8 appends_bind [OF u8 appends_bind [OF u8 u8]]]]
    unfolding ServerHello_Build_def ServerHello_object_def by simp
  moreover have "appends (Put_object fresh bs) bs" for bs by (rule object_field.put_enc) simp
  ultimately show ?thesis using assms unfolding appends_def by (metis option.simps(9))
qed

theorem build_equals_object_copy_witness:
  "map_option writer_data (ServerHello_Build (\<lambda>_. 0) \<lparr>sh_encryption_algo_list_len = 1, sh_compression_algo_list_len = 1,
      sh_pub_key_list_len = 1, sh_challenge_len = 32, sh_proof_len = 64\<rparr> (new_writer (\<lambda>_. 0) 1)) =
   map_option writer_data (Put_object (\<lambda>_. 0) [1, 1, 1, 32, 64] (new_writer (\<lambda>_. 0) 1))"
  using build_equals_object_copy [OF new_writer_ok(1) [of 1 "\<lambda>_. 0"], of "\<lambda>_. 0" _
      "\<lparr>sh_encryption_algo_list_len = 1, sh_compression_algo_list_len = 1,
        sh_pub_key_list_len = 1, sh_challenge_len = 32, sh_proof_len = 64\<rparr>"]
  by (simp add: ServerHello_object_def)

end
