(* ===== verification/Handshake.thy ===== *)
theory Handshake
  imports Transport System_Command
begin

text \<open>
  \<^verbatim>\<open>src/znet/z_client.h\<close>, \<^verbatim>\<open>z_client.cc\<close>, \<^verbatim>\<open>z_server.h\<close> and \<^verbatim>\<open>z_server.cc\<close>: \<^verbatim>\<open>ZClient\<close> and
  \<^verbatim>\<open>ZServer\<close> on top of the transport, with the messages of their handshake.  A handler returns an
  option, \<open>None\<close> while a call inside it waits (\<^verbatim>\<open>Disconnect\<close>) or if it does not return (the growth loop
  of \<^verbatim>\<open>PacketWriter\<close>, which the lemmas exclude).  What a call takes from outside, the clock, the block of
  the buffer pool for a payload and the contents of fresh memory, is the record \<open>call_env\<close>.
\<close>

record call_env =
  call_time :: int
  call_block :: u64
  call_fresh :: "nat \<Rightarrow> byte"

definition AESCBC128 :: u8 where "AESCBC128 = 1"
definition LZ4 :: u8 where "LZ4 = 1"

definition encryption_algorithms :: "u8 list" where "encryption_algorithms = [AESCBC128]"
definition compression_algorithms :: "u8 list" where "compression_algorithms = [LZ4]"

definition handshake_flags :: PackageFlags where
  "handshake_flags = \<lparr>reliable = False, encrypted = False, compressed = False, priority = Critical,
     acknowledged = False, awaiting_ack = False, reserved = False\<rparr>"

definition env_flag :: "platform \<Rightarrow> string \<Rightarrow> bool" where
  \<comment> \<open>\<^verbatim>\<open>env && env[0] != '0'\<close>: an empty string ends at once, with a zero byte\<close>
  "env_flag P name =
     (case getenv P name of None \<Rightarrow> False | Some [] \<Rightarrow> True | Some (b # _) \<Rightarrow> b \<noteq> 0x30)"

fun put_each :: "(nat \<Rightarrow> byte) \<Rightarrow> u8 list \<Rightarrow> PacketWriter \<Rightarrow> PacketWriter option" where
  "put_each fresh [] w = Some w"
| "put_each fresh (a # as) w = do {w \<leftarrow> Put_u8 fresh a w; put_each fresh as w}"

definition put_optional_list :: "endian \<Rightarrow> (nat \<Rightarrow> byte) \<Rightarrow> byte list \<Rightarrow> PacketWriter \<Rightarrow> PacketWriter option" where
  "put_optional_list h fresh bs w = (if bs = [] then Some w else put_list h fresh bs w)"

subsection \<open>The messages\<close>

definition ClientHello_payload :: "endian \<Rightarrow> (nat \<Rightarrow> byte) \<Rightarrow> ZCryptoContext option \<Rightarrow> byte list option" where
  "ClientHello_payload h fresh crypto =
     (let client_public_key = (case crypto of None \<Rightarrow> [] | Some c \<Rightarrow> GetPublicKey c);
          client_challenge = (case crypto of None \<Rightarrow> [] | Some c \<Rightarrow> GetChallenge c);
          request = \<lparr>ch_encryption_algo_list_len = of_nat (length encryption_algorithms),
                     ch_compression_algo_list_len = of_nat (length compression_algorithms),
                     ch_pub_key_list_len = (if client_public_key = [] then 0 else 1),
                     ch_challenge_len = of_nat (length client_challenge)\<rparr>
      in do {
        w \<leftarrow> Put_object fresh (ClientHello_object request) (new_writer fresh 1024);
        w \<leftarrow> put_each fresh encryption_algorithms w;
        w \<leftarrow> put_each fresh compression_algorithms w;
        w \<leftarrow> put_optional_list h fresh client_public_key w;
        w \<leftarrow> put_optional_list h fresh client_challenge w;
        Some (writer_data w)
      })"

definition server_proof_of :: "platform \<Rightarrow> ZCryptoContext option \<Rightarrow> byte list" where
  "server_proof_of P crypto =
     (case crypto of
        None \<Rightarrow> []
      | Some c \<Rightarrow> (case getenv P ''ZNET_PSK'' of
                     None \<Rightarrow> []
                   | Some psk \<Rightarrow> if psk = [] then [] else GenerateServerProof P c))"

definition ServerHello_payload :: "platform \<Rightarrow> (nat \<Rightarrow> byte) \<Rightarrow> ZCryptoContext option \<Rightarrow> byte list option" where
  "ServerHello_payload P fresh crypto =
     (let public_key_data = (case crypto of None \<Rightarrow> [] | Some c \<Rightarrow> GetPublicKey c);
          server_challenge = (case crypto of None \<Rightarrow> [] | Some c \<Rightarrow> GetChallenge c);
          server_proof = server_proof_of P crypto;
          request = \<lparr>sh_encryption_algo_list_len = of_nat (length encryption_algorithms),
                     sh_compression_algo_list_len = of_nat (length compression_algorithms),
                     sh_pub_key_list_len = (if public_key_data = [] then 0 else 1),
                     sh_challenge_len = of_nat (length server_challenge),
                     sh_proof_len = of_nat (length server_proof)\<rparr>
      in do {
        w \<leftarrow> Put_object fresh (ServerHello_object request) (new_writer fresh 1024);
        w \<leftarrow> put_each fresh encryption_algorithms w;
        w \<leftarrow> put_each fresh compression_algorithms w;
        w \<leftarrow> put_list (host P) fresh public_key_data w;
        w \<leftarrow> put_optional_list (host P) fresh server_challenge w;
        w \<leftarrow> put_optional_list (host P) fresh server_proof w;
        Some (writer_data w)
      })"

definition AuthProof_payload :: "endian \<Rightarrow> (nat \<Rightarrow> byte) \<Rightarrow> byte list \<Rightarrow> byte list option" where
  "AuthProof_payload h fresh proof_text = do {
     w \<leftarrow> Put_object fresh [of_nat (length proof_text)] (new_writer fresh 1024);
     w \<leftarrow> put_list h fresh proof_text w;
     Some (writer_data w)
   }"

text \<open>A read whose failure ends the handler.\<close>

definition then_read :: "'a option \<times> PacketReader \<Rightarrow> ('a \<Rightarrow> PacketReader \<Rightarrow> 'b option) \<Rightarrow> 'b option" where
  "then_read m f = (case m of (None, _) \<Rightarrow> None | (Some a, r) \<Rightarrow> f a r)"

definition read_optional_list :: "endian \<Rightarrow> u8 \<Rightarrow> PacketReader \<Rightarrow> byte list option \<times> PacketReader" where
  "read_optional_list h len r = (if len > 0 then ReadList h r else (Some [], r))"

definition read_ClientHello :: "endian \<Rightarrow> byte list \<Rightarrow> (byte list \<times> byte list) option" where
  "read_ClientHello h data =
     then_read (Read_object 4 (new_reader data)) (\<lambda>request r.
     then_read (ReadS (unat (request ! 0)) r) (\<lambda>enc_algos r.
     then_read (ReadS (unat (request ! 1)) r) (\<lambda>comp_algos r.
     then_read (read_optional_list h (request ! 2) r) (\<lambda>client_key r.
     then_read (read_optional_list h (request ! 3) r) (\<lambda>client_challenge r.
       Some (client_key, client_challenge))))))"

definition read_ServerHello :: "endian \<Rightarrow> byte list \<Rightarrow> (byte list \<times> byte list \<times> byte list) option" where
  "read_ServerHello h data =
     then_read (Read_object 5 (new_reader data)) (\<lambda>response r.
     then_read (ReadS (unat (response ! 0)) r) (\<lambda>enc_algos r.
     then_read (ReadS (unat (response ! 1)) r) (\<lambda>comp_algos r.
     then_read (ReadList h r) (\<lambda>key r.
     then_read (read_optional_list h (response ! 3) r) (\<lambda>server_challenge r.
     then_read (read_optional_list h (response ! 4) r) (\<lambda>server_proof r.
       Some (key, server_challenge, server_proof)))))))"

definition read_AuthProof :: "endian \<Rightarrow> byte list \<Rightarrow> byte list option" where
  "read_AuthProof h data =
     then_read (Read_object 1 (new_reader data)) (\<lambda>request r.
     then_read (ReadList h r) (\<lambda>proof_data r. Some proof_data))"

subsection \<open>ZClient\<close>

definition client_control ::
  "call_env \<Rightarrow> PacketType \<Rightarrow> byte list \<Rightarrow> 'a ZAsyncTransportLayer_scheme \<Rightarrow> 'a ZAsyncTransportLayer_scheme" where
  "client_control env type data t =
     Push (call_time env) (OutgoingPacket_with_data (call_block env) to_server type Control handshake_flags data) t"

definition SendClientHello ::
  "platform \<Rightarrow> call_env \<Rightarrow> 'a ZAsyncTransportLayer_scheme \<Rightarrow> 'a ZAsyncTransportLayer_scheme option" where
  "SendClientHello P env t =
     map_option (\<lambda>data. client_control env PacketType_ClientHello data t)
       (ClientHello_payload (host P) (call_fresh env) (own_crypto t))"

definition SendClientAuthProof ::
  "platform \<Rightarrow> call_env \<Rightarrow> byte list \<Rightarrow> 'a ZAsyncTransportLayer_scheme \<Rightarrow> 'a ZAsyncTransportLayer_scheme option" where
  "SendClientAuthProof P env proof_text t =
     map_option (\<lambda>data. client_control env PacketType_ClientAuthProof data t)
       (AuthProof_payload (host P) (call_fresh env) proof_text)"

definition Connect ::
  "platform \<Rightarrow> net_calls \<Rightarrow> init_env \<Rightarrow> call_env \<Rightarrow> byte list \<Rightarrow> u16 \<Rightarrow> process_sockets \<Rightarrow>
   'a ZAsyncTransportLayer_scheme \<Rightarrow> (bool \<times> process_sockets \<times> 'a ZAsyncTransportLayer_scheme) option" where
  "Connect P N ienv env address_text port_number p t =
     (let options = \<lparr>opt_ip = address_text, opt_port = port_number, opt_local_bind_port = 0, setup_type = kClient,
                     use_encryption = env_flag P ''ZNET_ENABLE_ENCRYPTION'',
                     opt_use_compression = env_flag P ''ZNET_ENABLE_COMPRESSION'', allow_ipv6 = False\<rparr>
      in case Init P N ienv options p t of
           (False, p, t) \<Rightarrow> Some (False, p, t)
         | (True, p, t) \<Rightarrow> map_option (\<lambda>t. (True, p, t\<lparr>state := kConnecting\<rparr>)) (SendClientHello P env t))"

definition Disconnect ::
  "process_sockets \<Rightarrow> 'a ZAsyncTransportLayer_scheme \<Rightarrow> (process_sockets \<times> 'a ZAsyncTransportLayer_scheme) option" where
  "Disconnect p t = map_option (\<lambda>(p, t). (p, t\<lparr>state := kDisconnected\<rparr>)) (Deinit False p t)"

definition message_flags :: "bool \<Rightarrow> bool \<Rightarrow> PackageFlags" where
  "message_flags use_enc use_comp = \<lparr>reliable = True, encrypted = use_enc, compressed = use_comp, priority = Medium,
     acknowledged = False, awaiting_ack = True, reserved = False\<rparr>"

definition message_packet :: "call_env \<Rightarrow> u32 \<Rightarrow> byte list \<Rightarrow> 'a ZAsyncTransportLayer_scheme \<Rightarrow> OutgoingPacket" where
  "message_packet env peer_id data t =
     OutgoingPacket_with_data (call_block env) peer_id PacketType_Message Data
       (message_flags (own_crypto t \<noteq> None) (compression_enabled t)) data"

definition may_send :: "'a ZAsyncTransportLayer_scheme \<Rightarrow> bool" where
  "may_send t = (case own_crypto t of None \<Rightarrow> True | Some c \<Rightarrow> IsAuthenticated c)"

definition client_SendMessage ::
  "call_env \<Rightarrow> u32 \<Rightarrow> byte list \<Rightarrow> 'a ZAsyncTransportLayer_scheme \<Rightarrow> 'a ZAsyncTransportLayer_scheme" where
  "client_SendMessage env peer_id data t =
     (if \<not> may_send t then t else Push (call_time env) (message_packet env peer_id data t) t)"

definition client_ServerHello ::
  "platform \<Rightarrow> call_env \<Rightarrow> byte list \<Rightarrow> process_sockets \<Rightarrow> 'a ZAsyncTransportLayer_scheme \<Rightarrow>
   (process_sockets \<times> 'a ZAsyncTransportLayer_scheme) option" where
  "client_ServerHello P env data p t =
     (if state t \<noteq> kConnecting then Some (p, t)
      else case read_ServerHello (host P) data of
        None \<Rightarrow> Some (p, t)
      | Some (key, challenge, server_proof) \<Rightarrow>
          (case own_crypto t of
             None \<Rightarrow> Some (p, t\<lparr>state := kConnected\<rparr>)
           | Some c \<Rightarrow>
               let c = ProcessServerKey P key challenge c in
               (case (if server_proof \<noteq> [] then VerifyServerResponse P server_proof c else (True, c)) of
                  (False, c) \<Rightarrow> Disconnect p (set_own_crypto c t)
                | (True, c) \<Rightarrow>
                    let t = set_own_crypto c t; client_proof = GenerateClientProof P c in
                    map_option (\<lambda>t. (p, t\<lparr>state := kConnected\<rparr>))
                      (if client_proof \<noteq> [] then SendClientAuthProof P env client_proof t else Some t))))"

definition client_ProcessSystemMessage ::
  "platform \<Rightarrow> call_env \<Rightarrow> IncomingPacket \<Rightarrow> process_sockets \<Rightarrow> 'a ZAsyncTransportLayer_scheme \<Rightarrow>
   (process_sockets \<times> 'a ZAsyncTransportLayer_scheme) option" where
  "client_ProcessSystemMessage P env pack p t =
     (if ip_type pack = PacketType_ServerHello then client_ServerHello P env (ip_data pack) p t else Some (p, t))"

definition client_Poll ::
  "platform \<Rightarrow> call_env \<Rightarrow> PacketChannelType \<Rightarrow> process_sockets \<Rightarrow> 'a ZAsyncTransportLayer_scheme \<Rightarrow>
   (IncomingPacket option \<times> process_sockets \<times> 'a ZAsyncTransportLayer_scheme) option" where
  "client_Poll P env channel p t =
     (case Pop channel t of
        (None, t) \<Rightarrow> Some (None, p, t)
      | (Some pack, t) \<Rightarrow>
          if IsSystemMessage (ip_type pack) then
            map_option (\<lambda>(p, t). (Some pack, p, t)) (client_ProcessSystemMessage P env pack p t)
          else Some (Some pack, p, t))"

text \<open>
  \<^verbatim>\<open>Update\<close>: one control packet, then data packets until none is left.  The loop may poll a queue that
  the receiving thread keeps filling.
\<close>

partial_function (option) client_drain ::
  "platform \<Rightarrow> call_env \<Rightarrow> process_sockets \<Rightarrow> 'a ZAsyncTransportLayer_scheme \<Rightarrow>
   (process_sockets \<times> 'a ZAsyncTransportLayer_scheme) option" where
  "client_drain P env p t =
     Option.bind (client_Poll P env Data p t)
       (\<lambda>(pack, p, t). if pack = None then Some (p, t) else client_drain P env p t)"

definition client_Update ::
  "platform \<Rightarrow> call_env \<Rightarrow> process_sockets \<Rightarrow> 'a ZAsyncTransportLayer_scheme \<Rightarrow>
   (process_sockets \<times> 'a ZAsyncTransportLayer_scheme) option" where
  "client_Update P env p t = do {(_, p, t) \<leftarrow> client_Poll P env Control p t; client_drain P env p t}"

subsection \<open>ZServer\<close>

record ZServer = ZAsyncTransportLayer +
  handshaked_peers :: "u32 set"

definition server_Push :: "int \<Rightarrow> OutgoingPacket \<Rightarrow> 'a ZAsyncTransportLayer_scheme \<Rightarrow> 'a ZAsyncTransportLayer_scheme" where
  "server_Push now packet t = (if state t \<noteq> kConnected then t else Push now packet t)"

definition Begin ::
  "platform \<Rightarrow> net_calls \<Rightarrow> init_env \<Rightarrow> u16 \<Rightarrow> process_sockets \<Rightarrow> 'a ZAsyncTransportLayer_scheme \<Rightarrow>
   bool \<times> process_sockets \<times> 'a ZAsyncTransportLayer_scheme" where
  "Begin P N ienv port_number p t =
     (let options = \<lparr>opt_ip = ascii ''127.0.0.1'', opt_port = port_number, opt_local_bind_port = 0, setup_type = kServer,
                     use_encryption = env_flag P ''ZNET_ENABLE_ENCRYPTION'',
                     opt_use_compression = env_flag P ''ZNET_ENABLE_COMPRESSION'', allow_ipv6 = False\<rparr>
      in case Init P N ienv options p t of
           (False, p, t) \<Rightarrow> (False, p, t)
         | (True, p, t) \<Rightarrow> (True, p, t\<lparr>state := kConnected\<rparr>))"

definition server_SendMessage ::
  "call_env \<Rightarrow> u32 \<Rightarrow> byte list \<Rightarrow> 'a ZAsyncTransportLayer_scheme \<Rightarrow> 'a ZAsyncTransportLayer_scheme" where
  "server_SendMessage env peer_id data t =
     (if \<not> may_send t then t else server_Push (call_time env) (message_packet env peer_id data t) t)"

definition SendServerHello ::
  "platform \<Rightarrow> call_env \<Rightarrow> u32 \<Rightarrow> 'a ZAsyncTransportLayer_scheme \<Rightarrow> 'a ZAsyncTransportLayer_scheme option" where
  "SendServerHello P env dest t =
     map_option (\<lambda>data. server_Push (call_time env)
         (OutgoingPacket_with_data (call_block env) dest PacketType_ServerHello Control handshake_flags data) t)
       (ServerHello_payload P (call_fresh env) (own_crypto t))"

definition server_ClientHello ::
  "platform \<Rightarrow> call_env \<Rightarrow> u32 \<Rightarrow> byte list \<Rightarrow> 'a ZServer_scheme \<Rightarrow> 'a ZServer_scheme option" where
  "server_ClientHello P env peer_id data t =
     (if peer_id \<in> handshaked_peers t then Some t
      else case own_crypto t of
        None \<Rightarrow> SendServerHello P env peer_id (t\<lparr>handshaked_peers := insert peer_id (handshaked_peers t)\<rparr>)
      | Some c \<Rightarrow>
          (case read_ClientHello (host P) data of
             None \<Rightarrow> Some t
           | Some (client_nonce, client_challenge) \<Rightarrow>
               let t = set_own_crypto (ProcessServerKey P client_nonce client_challenge c) t
               in SendServerHello P env peer_id (t\<lparr>handshaked_peers := insert peer_id (handshaked_peers t)\<rparr>)))"

definition server_ClientAuthProof :: "platform \<Rightarrow> byte list \<Rightarrow> 'a ZServer_scheme \<Rightarrow> 'a ZServer_scheme" where
  "server_ClientAuthProof P data t =
     (case own_crypto t of
        None \<Rightarrow> t
      | Some c \<Rightarrow>
          (case read_AuthProof (host P) data of
             None \<Rightarrow> t
           | Some client_proof \<Rightarrow> set_own_crypto (snd (VerifyClientProof P client_proof c)) t))"

definition server_ProcessSystemMessage ::
  "platform \<Rightarrow> call_env \<Rightarrow> IncomingPacket \<Rightarrow> 'a ZServer_scheme \<Rightarrow> 'a ZServer_scheme option" where
  "server_ProcessSystemMessage P env pack t =
     (if ip_type pack = PacketType_ClientHello then server_ClientHello P env (source_peer_id pack) (ip_data pack) t
      else if ip_type pack = PacketType_ClientAuthProof then Some (server_ClientAuthProof P (ip_data pack) t)
      else Some t)"

definition server_Poll ::
  "platform \<Rightarrow> call_env \<Rightarrow> PacketChannelType \<Rightarrow> 'a ZServer_scheme \<Rightarrow> (IncomingPacket option \<times> 'a ZServer_scheme) option" where
  "server_Poll P env channel t =
     (case Pop channel t of
        (None, t) \<Rightarrow> Some (None, t)
      | (Some pack, t) \<Rightarrow>
          if IsSystemMessage (ip_type pack) then
            map_option (\<lambda>t. (Some pack, t)) (server_ProcessSystemMessage P env pack t)
          else Some (Some pack, t))"

definition server_Update :: "platform \<Rightarrow> call_env \<Rightarrow> 'a ZServer_scheme \<Rightarrow> 'a ZServer_scheme option" where
  "server_Update P env t = do {(_, t) \<leftarrow> server_Poll P env Control t; map_option snd (server_Poll P env Data t)}"

subsection \<open>The bytes of the messages\<close>

definition optional_list :: "byte list \<Rightarrow> field list" where
  "optional_list bs = (if bs = [] then [] else [Counted bs])"

lemma appends_step:
  assumes "appends f bs" and "writer_ok w"
    and "\<And>w'. writer_ok w' \<Longrightarrow> writer_data w' = writer_data w @ bs \<Longrightarrow> k w' = r"
  shows "f w \<bind> k = r"
  using assms unfolding appends_def by (metis bind.bind_lunit)

lemma appends_put_each: "appends (put_each fresh as) as"
proof (induction as)
  case Nil
  show ?case by (simp add: appends_def)
next
  case (Cons a as)
  have "appends (Put_u8 fresh a) [a]" by (rule u8_field.put_enc) simp
  from appends_bind [OF this Cons.IH] show ?case by simp
qed

lemma appends_put_list: "length bs \<le> 65535 \<Longrightarrow> appends (put_list h fresh bs) (list_bytes bs)"
  by (rule list_field.put_enc)

lemma appends_put_optional: "length bs \<le> 65535 \<Longrightarrow> appends (put_optional_list h fresh bs) (message_bytes (optional_list bs))"
  using appends_put_list [of bs h fresh]
  by (auto simp: put_optional_list_def optional_list_def message_bytes_def appends_def)

lemma appends_put_object: "appends (Put_object fresh bs) bs"
  by (rule object_field.put_enc [of _ "length bs"]) simp

definition client_fields :: "byte list \<Rightarrow> byte list \<Rightarrow> field list" where
  "client_fields key challenge = [Raw [AESCBC128], Raw [LZ4]] @ optional_list key @ optional_list challenge"

definition client_header :: "byte list \<Rightarrow> byte list \<Rightarrow> byte list" where
  "client_header key challenge = [1, 1, if key = [] then 0 else 1, of_nat (length challenge)]"

definition server_fields :: "byte list \<Rightarrow> byte list \<Rightarrow> byte list \<Rightarrow> field list" where
  "server_fields key challenge server_proof =
     [Raw [AESCBC128], Raw [LZ4], Counted key] @ optional_list challenge @ optional_list server_proof"

definition server_header :: "byte list \<Rightarrow> byte list \<Rightarrow> byte list \<Rightarrow> byte list" where
  "server_header key challenge server_proof =
     [1, 1, if key = [] then 0 else 1, of_nat (length challenge), of_nat (length server_proof)]"

lemma message_bytes_append [simp]: "message_bytes (fs @ gs) = message_bytes fs @ message_bytes gs"
  by (simp add: message_bytes_def)

lemma message_bytes_Cons [simp]: "message_bytes (f # fs) = field_bytes f @ message_bytes fs" "message_bytes [] = []"
  by (simp_all add: message_bytes_def)

lemma ClientHello_payload_bytes:
  assumes "length (GetPublicKey c) \<le> 65535" and "length (GetChallenge c) \<le> 65535"
  shows "ClientHello_payload h fresh (Some c) =
    Some (client_header (GetPublicKey c) (GetChallenge c) @ message_bytes (client_fields (GetPublicKey c) (GetChallenge c)))"
  unfolding ClientHello_payload_def Let_def
  by (rule appends_step [OF appends_put_object new_writer_ok(1)], simp,
      rule appends_step [OF appends_put_each], assumption,
      rule appends_step [OF appends_put_each], assumption,
      rule appends_step [OF appends_put_optional], simp add: assms, assumption,
      rule appends_step [OF appends_put_optional], simp add: assms, assumption)
    (simp add: new_writer_ok client_header_def client_fields_def ClientHello_object_def encryption_algorithms_def
      compression_algorithms_def)

lemma ServerHello_payload_bytes:
  assumes "length (GetPublicKey c) \<le> 65535" and "length (GetChallenge c) \<le> 65535"
    and "server_proof_of P (Some c) = pr" and "length pr \<le> 65535"
  shows "ServerHello_payload P fresh (Some c) =
    Some (server_header (GetPublicKey c) (GetChallenge c) pr @
      message_bytes (server_fields (GetPublicKey c) (GetChallenge c) pr))"
  unfolding ServerHello_payload_def Let_def
  by (rule appends_step [OF appends_put_object new_writer_ok(1)], simp,
      rule appends_step [OF appends_put_each], assumption,
      rule appends_step [OF appends_put_each], assumption,
      rule appends_step [OF appends_put_list], simp add: assms, assumption,
      rule appends_step [OF appends_put_optional], simp add: assms, assumption,
      rule appends_step [OF appends_put_optional], simp add: assms, assumption)
    (simp add: new_writer_ok server_header_def server_fields_def ServerHello_object_def encryption_algorithms_def
      compression_algorithms_def assms(3))

lemma AuthProof_payload_bytes:
  assumes "length pr \<le> 65535"
  shows "AuthProof_payload h fresh pr = Some ([of_nat (length pr)] @ message_bytes [Counted pr])"
  unfolding AuthProof_payload_def
  by (rule appends_step [OF appends_put_object new_writer_ok(1)], simp,
      rule appends_step [OF appends_put_list], simp add: assms, assumption)
    (simp add: new_writer_ok)

subsection \<open>Reading them\<close>

text \<open>All three are read the same way: a structure, then fields whose shapes it determines.\<close>

definition read_after_header ::
  "nat \<Rightarrow> (byte list \<Rightarrow> shape list) \<Rightarrow> (byte list \<Rightarrow> field list \<Rightarrow> 'b) \<Rightarrow> endian \<Rightarrow> byte list \<Rightarrow> 'b option" where
  "read_after_header n shapes g h data =
     then_read (Read_object n (new_reader data)) (\<lambda>hdr r. map_option (g hdr) (fst (get_fields h (shapes hdr) r)))"

lemma read_after_header_message:
  assumes "list_all field_fits fs" and "length hdr = n" and "shapes hdr = map shape_of fs"
  shows "read_after_header n shapes g h (hdr @ message_bytes fs) = Some (g hdr fs)"
proof -
  let ?r = "new_reader (hdr @ message_bytes fs)"
  have "Read_object n ?r = (Some hdr, ?r\<lparr>reader_offset := length ([] @ hdr)\<rparr>)"
    by (rule object_field.get_enc) (simp_all add: new_reader_def assms(2))
  moreover from get_fields_message [OF assms(1), of "?r\<lparr>reader_offset := length hdr\<rparr>" hdr "[]" h]
  have "fst (get_fields h (map shape_of fs) (?r\<lparr>reader_offset := length hdr\<rparr>)) = Some fs" by (simp add: new_reader_def)
  ultimately show ?thesis by (simp add: read_after_header_def then_read_def assms(3))
qed

lemma read_after_header_truncated:
  assumes "list_all field_fits fs" and "length hdr = n" and "shapes hdr = map shape_of fs"
    and "m < length (hdr @ message_bytes fs)"
  shows "read_after_header n shapes g h (take m (hdr @ message_bytes fs)) = None"
proof (cases "m < n")
  case True
  have "fst (Read_object n (new_reader (take m (hdr @ message_bytes fs)))) = None"
    by (rule object_field.get_short [of hdr _ _ "[]" m]) (use True assms(2) in \<open>simp_all add: new_reader_def\<close>)
  then show ?thesis by (auto simp: read_after_header_def then_read_def split: prod.split)
next
  case False
  let ?r = "new_reader (hdr @ take (m - n) (message_bytes fs))"
  have data: "take m (hdr @ message_bytes fs) = hdr @ take (m - n) (message_bytes fs)" using False assms(2) by simp
  have "Read_object n ?r = (Some hdr, ?r\<lparr>reader_offset := length ([] @ hdr)\<rparr>)"
    by (rule object_field.get_enc) (simp_all add: new_reader_def assms(2))
  moreover have "fst (get_fields h (map shape_of fs) (?r\<lparr>reader_offset := length hdr\<rparr>)) = None"
    by (rule get_fields_truncated [OF assms(1), of _ hdr "m - n"]) (use False assms(2,4) in \<open>simp_all add: new_reader_def\<close>)
  ultimately show ?thesis unfolding data by (simp add: read_after_header_def then_read_def assms(3))
qed

fun counted :: "field \<Rightarrow> byte list" where
  "counted (Counted bs) = bs"
| "counted _ = []"

definition optional_shape :: "u8 \<Rightarrow> shape list" where
  "optional_shape len = (if len > 0 then [ShapeCounted] else [])"

definition client_shapes :: "byte list \<Rightarrow> shape list" where
  "client_shapes hdr = [ShapeRaw (unat (hdr ! 0)), ShapeRaw (unat (hdr ! 1))] @ optional_shape (hdr ! 2) @ optional_shape (hdr ! 3)"

definition server_shapes :: "byte list \<Rightarrow> shape list" where
  "server_shapes hdr = [ShapeRaw (unat (hdr ! 0)), ShapeRaw (unat (hdr ! 1)), ShapeCounted] @
     optional_shape (hdr ! 3) @ optional_shape (hdr ! 4)"

definition client_values :: "byte list \<Rightarrow> field list \<Rightarrow> byte list \<times> byte list" where
  "client_values hdr fs = (if hdr ! 2 > 0 then counted (fs ! 2) else [], if hdr ! 3 > 0 then counted (last fs) else [])"

definition server_values :: "byte list \<Rightarrow> field list \<Rightarrow> byte list \<times> byte list \<times> byte list" where
  "server_values hdr fs = (counted (fs ! 2), if hdr ! 3 > 0 then counted (fs ! 3) else [],
     if hdr ! 4 > 0 then counted (last fs) else [])"

lemmas read_shape_defs = then_read_def read_after_header_def read_optional_list_def optional_shape_def

lemma read_ClientHello_shapes: "read_ClientHello h data = read_after_header 4 client_shapes client_values h data"
  by (auto simp: read_ClientHello_def read_shape_defs client_shapes_def client_values_def split: prod.splits option.splits)

lemma read_ServerHello_shapes: "read_ServerHello h data = read_after_header 5 server_shapes server_values h data"
  by (auto simp: read_ServerHello_def read_shape_defs server_shapes_def server_values_def split: prod.splits option.splits)

lemma read_AuthProof_shapes:
  "read_AuthProof h data = read_after_header 1 (\<lambda>_. [ShapeCounted]) (\<lambda>_ fs. counted (hd fs)) h data"
  by (auto simp: read_AuthProof_def read_shape_defs split: prod.splits option.splits)

text \<open>A length that fits the single byte of the header and is not zero there unless the list is empty.\<close>

definition short :: "byte list \<Rightarrow> bool" where
  "short bs \<longleftrightarrow> length bs < 256"

lemma short_len: "short bs \<Longrightarrow> (of_nat (length bs) :: u8) > 0 \<longleftrightarrow> bs \<noteq> []"
  by (simp add: short_def word_less_nat_alt unat_of_nat)

lemma client_message:
  assumes "length key \<le> 65535" and "short challenge"
  shows "list_all field_fits (client_fields key challenge)"
    "client_shapes (client_header key challenge) = map shape_of (client_fields key challenge)"
    "client_values (client_header key challenge) (client_fields key challenge) = (key, challenge)"
proof -
  have "length challenge \<le> 65535" using assms(2) by (simp add: short_def)
  with assms short_len [OF assms(2)] show "list_all field_fits (client_fields key challenge)"
    "client_shapes (client_header key challenge) = map shape_of (client_fields key challenge)"
    "client_values (client_header key challenge) (client_fields key challenge) = (key, challenge)"
    by (simp_all add: client_fields_def client_header_def client_shapes_def client_values_def optional_list_def optional_shape_def)
qed

lemma server_message:
  assumes "length key \<le> 65535" and "short challenge" and "short pr"
  shows "list_all field_fits (server_fields key challenge pr)"
    "server_shapes (server_header key challenge pr) = map shape_of (server_fields key challenge pr)"
    "server_values (server_header key challenge pr) (server_fields key challenge pr) = (key, challenge, pr)"
proof -
  have "length challenge \<le> 65535" "length pr \<le> 65535" using assms(2,3) by (simp_all add: short_def)
  with assms short_len [OF assms(2)] short_len [OF assms(3)] show "list_all field_fits (server_fields key challenge pr)"
    "server_shapes (server_header key challenge pr) = map shape_of (server_fields key challenge pr)"
    "server_values (server_header key challenge pr) (server_fields key challenge pr) = (key, challenge, pr)"
    by (simp_all add: server_fields_def server_header_def server_shapes_def server_values_def optional_list_def optional_shape_def)
qed

lemma read_ClientHello_payload:
  assumes "length (GetPublicKey c) \<le> 65535" and "short (GetChallenge c)"
  shows "\<exists>data. ClientHello_payload h fresh (Some c) = Some data \<and> read_ClientHello h' data = Some (GetPublicKey c, GetChallenge c) \<and>
    (\<forall>n < length data. read_ClientHello h' (take n data) = None)"
proof -
  note m = client_message [OF assms]
  have "length (GetChallenge c) \<le> 65535" using assms(2) by (simp add: short_def)
  note payload = ClientHello_payload_bytes [OF assms(1) this, of h fresh]
  have len: "length (client_header (GetPublicKey c) (GetChallenge c)) = 4" by (simp add: client_header_def)
  show ?thesis unfolding payload read_ClientHello_shapes
    using read_after_header_message [where g = client_values and h = h' and shapes = client_shapes, OF m(1) len m(2)]
      read_after_header_truncated [where g = client_values and h = h' and shapes = client_shapes, OF m(1) len m(2)] m(3) by simp
qed

lemma read_ServerHello_payload:
  assumes "length (GetPublicKey c) \<le> 65535" and "short (GetChallenge c)" and "short (server_proof_of P (Some c))"
  shows "\<exists>data. ServerHello_payload P fresh (Some c) = Some data \<and>
    read_ServerHello h' data = Some (GetPublicKey c, GetChallenge c, server_proof_of P (Some c)) \<and>
    (\<forall>n < length data. read_ServerHello h' (take n data) = None)"
proof -
  note m = server_message [OF assms]
  have "length (GetChallenge c) \<le> 65535" "length (server_proof_of P (Some c)) \<le> 65535"
    using assms(2,3) by (simp_all add: short_def)
  note payload = ServerHello_payload_bytes [OF assms(1) this(1) refl this(2), of fresh]
  have len: "length (server_header (GetPublicKey c) (GetChallenge c) (server_proof_of P (Some c))) = 5" by (simp add: server_header_def)
  show ?thesis unfolding payload read_ServerHello_shapes
    using read_after_header_message [where g = server_values and h = h' and shapes = server_shapes, OF m(1) len m(2)]
      read_after_header_truncated [where g = server_values and h = h' and shapes = server_shapes, OF m(1) len m(2)] m(3) by simp
qed

lemma read_AuthProof_payload:
  assumes "length pr \<le> 65535"
  shows "\<exists>data. AuthProof_payload h fresh pr = Some data \<and> read_AuthProof h' data = Some pr \<and>
    (\<forall>n < length data. read_AuthProof h' (take n data) = None)"
proof -
  have fits: "list_all field_fits [Counted pr]" using assms by simp
  have shapes: "(\<lambda>_. [ShapeCounted]) [of_nat (length pr) :: u8] = map shape_of [Counted pr]" by simp
  have len: "length [of_nat (length pr) :: u8] = 1" by simp
  show ?thesis unfolding AuthProof_payload_bytes [OF assms] read_AuthProof_shapes
    using read_after_header_message [where g = "\<lambda>_ fs. counted (hd fs)" and h = h' and shapes = "\<lambda>_. [ShapeCounted]", OF fits len shapes]
      read_after_header_truncated [where g = "\<lambda>_ fs. counted (hd fs)" and h = h' and shapes = "\<lambda>_. [ShapeCounted]", OF fits len shapes] by simp
qed

subsection \<open>The handlers\<close>

lemma Push_transport [simp]:
  "own_crypto (Push now packet t) = own_crypto t" "state (Push now packet t) = state t"
  "zsocket (Push now packet t) = zsocket t"
  by (simp_all add: Push_def CheckRateLimit_def rate_window_def own_crypto_def Let_def split: option.split)

lemma Push_server [simp]: "handshaked_peers (Push now packet t) = handshaked_peers t"
  by (simp add: Push_def CheckRateLimit_def rate_window_def Let_def)

lemma set_own_crypto_simps [simp]:
  "own_crypto (set_own_crypto c t) = Some c" "state (set_own_crypto c t) = state t"
  by (simp_all add: set_own_crypto_def own_crypto_def split: option.split)

lemma set_own_crypto_server [simp]: "handshaked_peers (set_own_crypto c t) = handshaked_peers t"
  by (simp add: set_own_crypto_def split: option.split)

lemma own_crypto_updates [simp]:
  "own_crypto (t\<lparr>state := x\<rparr>) = own_crypto t"
  by (simp add: own_crypto_def split: option.split)

lemma own_crypto_peers [simp]: "own_crypto (t\<lparr>handshaked_peers := x\<rparr>) = own_crypto t"
  by (simp add: own_crypto_def split: option.split)

text \<open>The byte order of the host plays no part in the cryptography.\<close>

lemma crypto_host [simp]:
  "hashes_total (P\<lparr>host := h\<rparr>) = hashes_total P"
  "InitializeKeyExchange (P\<lparr>host := h\<rparr>) = InitializeKeyExchange P"
  "ProcessServerKey (P\<lparr>host := h\<rparr>) = ProcessServerKey P"
  "GenerateServerProof (P\<lparr>host := h\<rparr>) = GenerateServerProof P"
  "VerifyServerResponse (P\<lparr>host := h\<rparr>) = VerifyServerResponse P"
  "GenerateClientProof (P\<lparr>host := h\<rparr>) = GenerateClientProof P"
  "VerifyClientProof (P\<lparr>host := h\<rparr>) = VerifyClientProof P"
  "server_proof_of (P\<lparr>host := h\<rparr>) = server_proof_of P"
  by (simp_all add: fun_eq_iff hashes_total_def InitializeKeyExchange_def EnsureKeyMaterialReady_def DeriveKeyMaterial_def
      ProcessServerKey_def DeriveSessionKeys_def GenerateServerProof_def VerifyServerResponse_def GenerateClientProof_def
      VerifyClientProof_def server_proof_of_def Sha256_def HmacSha256_def cong: if_cong option.case_cong)

lemma proof_length:
  "length (GenerateServerProof P c) \<le> 64" "length (GenerateClientProof P c) \<le> 64"
  by (simp_all add: GenerateServerProof_def GenerateClientProof_def HmacSha256_def Let_def split: option.split)

lemma server_proof_short: "short (server_proof_of P (Some c))"
  using proof_length(1) [of P c] by (simp add: server_proof_of_def short_def split: option.split)

lemma SendServerHello_transport:
  assumes "ServerHello_payload P (call_fresh env) (own_crypto t) = Some data"
  shows "SendServerHello P env k t = Some (server_Push (call_time env)
    (OutgoingPacket_with_data (call_block env) k PacketType_ServerHello Control handshake_flags data) t)"
  using assms by (simp add: SendServerHello_def)

lemma server_Push_transport [simp]:
  "own_crypto (server_Push now packet t) = own_crypto t" "state (server_Push now packet t) = state t"
  by (simp_all add: server_Push_def)

lemma server_Push_server [simp]: "handshaked_peers (server_Push now packet t) = handshaked_peers t"
  by (simp add: server_Push_def)

text \<open>The messages are short, so that the rate limiter admits them.\<close>

lemma hello_lengths:
  assumes "length (GetPublicKey c) \<le> 64" and "length (GetChallenge c) \<le> 64"
  shows "ClientHello_payload h fresh (Some c) = Some data \<Longrightarrow> length data \<le> 256"
    and "ServerHello_payload P fresh (Some c) = Some data \<Longrightarrow> length data \<le> 256"
    and "AuthProof_payload h fresh (GenerateClientProof P c) = Some data \<Longrightarrow> length data \<le> 256"
proof -
  have proofs: "length (GenerateClientProof P c) \<le> 64" "length (server_proof_of P (Some c)) \<le> 64"
    using proof_length [of P c] by (auto simp: server_proof_of_def split: option.split)
  with assms ClientHello_payload_bytes [of c h fresh] show "ClientHello_payload h fresh (Some c) = Some data \<Longrightarrow> length data \<le> 256"
    by (auto simp: client_header_def client_fields_def optional_list_def list_bytes_def)
  from assms proofs ServerHello_payload_bytes [of c P _ fresh] show "ServerHello_payload P fresh (Some c) = Some data \<Longrightarrow> length data \<le> 256"
    by (auto simp: server_header_def server_fields_def optional_list_def list_bytes_def)
  from proofs AuthProof_payload_bytes [of "GenerateClientProof P c" h fresh]
  show "AuthProof_payload h fresh (GenerateClientProof P c) = Some data \<Longrightarrow> length data \<le> 256"
    by (auto simp: list_bytes_def)
qed

text \<open>A packet that was pushed, as it comes out of the network at the other end.\<close>

definition arrives :: "IncomingPacket \<Rightarrow> u32 \<Rightarrow> OutgoingPacket \<Rightarrow> IncomingPacket" where
  "arrives pack source packet = pack\<lparr>source_peer_id := source, ip_type := op_type packet, ip_data := the (payload_source packet)\<rparr>"

lemma OutgoingPacket_with_data_fields:
  assumes "block \<noteq> 0" and "length data < 2 ^ 32"
  shows "payload_source (OutgoingPacket_with_data block dest type channel flags data) = Some data"
    and "unat (heap_data_size (OutgoingPacket_with_data block dest type channel flags data)) = length data"
    and "op_type (OutgoingPacket_with_data block dest type channel flags data) = type"
    and "destination_peer_id (OutgoingPacket_with_data block dest type channel flags data) = dest"
  using assms by (auto simp: payload_source_def OutgoingPacket_with_data_def unat_of_nat word_less_nat_alt)

lemma rate_room_updates [simp]:
  "rate_room n b (set_own_crypto c t) = rate_room n b t" "rate_room n b (t\<lparr>state := st\<rparr>) = rate_room n b t"
  by (simp_all add: rate_room_def set_own_crypto_def split: option.split)

lemma rate_room_handshaked [simp]: "rate_room n b (t\<lparr>handshaked_peers := ks\<rparr>) = rate_room n b t"
  by (simp add: rate_room_def)

lemma enqueued_updates [simp]:
  "enqueued packet (set_own_crypto c t) t' = enqueued packet t t'" "enqueued packet t (t'\<lparr>state := st\<rparr>) = enqueued packet t t'"
  by (simp_all add: enqueued_def set_own_crypto_def split: option.split)

lemma enqueued_handshaked [simp]: "enqueued packet (t\<lparr>handshaked_peers := ks\<rparr>) t' = enqueued packet t t'"
  by (simp add: enqueued_def)

text \<open>Each step: what the handler does with what it reads, and the packet it pushes.\<close>

lemma client_control_step:
  assumes "rate_room (Suc n) (256 + b) t" and "length data \<le> 256" and "call_block env \<noteq> 0"
  shows "\<exists>packet. enqueued packet t (client_control env type data t) \<and> rate_room n b (client_control env type data t) \<and>
    op_type packet = type \<and> destination_peer_id packet = to_server \<and> payload_source packet = Some data"
proof -
  let ?p = "OutgoingPacket_with_data (call_block env) to_server type Control handshake_flags data"
  have "length data < 2 ^ 32" using assms(2) by simp
  note p = OutgoingPacket_with_data_fields [OF assms(3) this, of to_server type Control handshake_flags]
  have "rate_room (Suc n) (unat (heap_data_size ?p) + b) t" using rate_room_less [OF assms(1)] assms(2) p(2) by simp
  from Push_room [OF this, of "call_time env"] p show ?thesis unfolding client_control_def by blast
qed

lemma server_hello_step:
  assumes crypto: "own_crypto ts = Some s" and st: "state ts = kConnected" and new: "k \<notin> handshaked_peers ts"
    and lens: "length (GetPublicKey s) \<le> 64" "length (GetChallenge s) \<le> 64"
    and hello: "read_ClientHello (host P) hello = Some (nonce, challenge)"
    and room: "rate_room (Suc n) (256 + b) ts" and block: "call_block env \<noteq> 0"
  shows "\<exists>ts1 packet reply. server_ClientHello P env k hello ts = Some ts1 \<and> k \<in> handshaked_peers ts1 \<and>
    own_crypto ts1 = Some (ProcessServerKey P nonce challenge s) \<and> enqueued packet ts ts1 \<and>
    op_type packet = PacketType_ServerHello \<and> destination_peer_id packet = k \<and> payload_source packet = Some reply \<and>
    read_ServerHello h reply = Some (GetPublicKey s, GetChallenge s, server_proof_of P (own_crypto ts1))"
proof -
  let ?s = "ProcessServerKey P nonce challenge s"
  let ?t = "set_own_crypto ?s ts\<lparr>handshaked_peers := insert k (handshaked_peers ts)\<rparr>"
  have same: "GetPublicKey ?s = GetPublicKey s" "GetChallenge ?s = GetChallenge s"
    by (simp_all add: GetPublicKey_def GetChallenge_def)
  have "length (GetPublicKey ?s) \<le> 65535" "short (GetChallenge ?s)" using lens same by (simp_all add: short_def)
  from read_ServerHello_payload [OF this server_proof_short, of P "call_fresh env" h] same obtain reply where
    reply: "ServerHello_payload P (call_fresh env) (own_crypto ?t) = Some reply"
    "read_ServerHello h reply = Some (GetPublicKey s, GetChallenge s, server_proof_of P (Some ?s))" by auto
  let ?p = "OutgoingPacket_with_data (call_block env) k PacketType_ServerHello Control handshake_flags reply"
  have len: "length reply \<le> 256" using hello_lengths(2) [of ?s P "call_fresh env" reply] lens same reply(1) by simp
  then have "length reply < 2 ^ 32" by simp
  note p = OutgoingPacket_with_data_fields [OF block this, of k PacketType_ServerHello Control handshake_flags]
  have "rate_room (Suc n) (unat (heap_data_size ?p) + b) ?t" using rate_room_less [OF room] len p(2) by simp
  from Push_room(1) [OF this, of "call_time env"] have "enqueued ?p ts (server_Push (call_time env) ?p ?t)"
    using st by (simp add: server_Push_def)
  with SendServerHello_transport [OF reply(1), of k] reply new crypto hello p show ?thesis
    by (intro exI [of _ "server_Push (call_time env) ?p ?t"] exI [of _ ?p] exI [of _ reply]) (simp add: server_ClientHello_def Let_def)
qed

lemma client_hello_step:
  assumes crypto: "own_crypto tc = Some c" and st: "state tc = kConnecting"
    and reply: "read_ServerHello (host P) reply = Some (key, challenge, pr)" "pr \<noteq> []"
    and verified: "VerifyServerResponse P pr (ProcessServerKey P key challenge c) = (True, c1)"
    and client: "GenerateClientProof P c1 \<noteq> []"
    and room: "rate_room (Suc n) (256 + b) tc" and block: "call_block env \<noteq> 0"
  shows "\<exists>tc1 packet data. client_ServerHello P env reply ps tc = Some (ps, tc1) \<and> state tc1 = kConnected \<and> own_crypto tc1 = Some c1 \<and>
    enqueued packet tc tc1 \<and> op_type packet = PacketType_ClientAuthProof \<and> destination_peer_id packet = to_server \<and>
    payload_source packet = Some data \<and> read_AuthProof h data = Some (GenerateClientProof P c1)"
proof -
  have short: "length (GenerateClientProof P c1) \<le> 64" by (rule proof_length)
  then have "length (GenerateClientProof P c1) \<le> 65535" by simp
  note bytes = AuthProof_payload_bytes [OF this, of "host P" "call_fresh env"]
  from read_AuthProof_payload [OF \<open>length (GenerateClientProof P c1) \<le> 65535\<close>, of "host P" "call_fresh env" h]
  obtain data where data: "AuthProof_payload (host P) (call_fresh env) (GenerateClientProof P c1) = Some data"
    "read_AuthProof h data = Some (GenerateClientProof P c1)" by force
  with bytes short have len: "length data \<le> 256" by (auto simp: list_bytes_def)
  let ?t = "set_own_crypto c1 tc"
  let ?t1 = "client_control env PacketType_ClientAuthProof data ?t"
  have "SendClientAuthProof P env (GenerateClientProof P c1) ?t = Some ?t1" by (simp add: SendClientAuthProof_def data(1))
  then have run: "client_ServerHello P env reply ps tc = Some (ps, ?t1\<lparr>state := kConnected\<rparr>)"
    using assms by (simp add: client_ServerHello_def Let_def)
  have "rate_room (Suc n) (256 + b) ?t" using room by simp
  from client_control_step [OF this len block, of PacketType_ClientAuthProof] obtain packet where
    "enqueued packet tc (?t1\<lparr>state := kConnected\<rparr>)" "op_type packet = PacketType_ClientAuthProof"
    "destination_peer_id packet = to_server" "payload_source packet = Some data" by auto
  with run data(2) show ?thesis by (intro exI [of _ "?t1\<lparr>state := kConnected\<rparr>"] exI [of _ packet] exI [of _ data]) (simp add: client_control_def)
qed

lemma client_hello_sent:
  assumes "own_crypto tc = Some c" and lens: "length (GetPublicKey c) \<le> 64" "length (GetChallenge c) \<le> 64"
    and "rate_room (Suc n) (256 + b) tc" and "call_block env \<noteq> 0"
  shows "\<exists>tc0 packet data. SendClientHello P env tc = Some tc0 \<and> enqueued packet tc tc0 \<and> rate_room n b tc0 \<and>
    own_crypto tc0 = Some c \<and> state tc0 = state tc \<and> op_type packet = PacketType_ClientHello \<and>
    destination_peer_id packet = to_server \<and> payload_source packet = Some data \<and>
    read_ClientHello h data = Some (GetPublicKey c, GetChallenge c)"
proof -
  have "length (GetPublicKey c) \<le> 65535" "short (GetChallenge c)" using lens by (simp_all add: short_def)
  from read_ClientHello_payload [OF this, of "host P" "call_fresh env" h] obtain data where
    data: "ClientHello_payload (host P) (call_fresh env) (Some c) = Some data"
    "read_ClientHello h data = Some (GetPublicKey c, GetChallenge c)" by blast
  let ?t = "client_control env PacketType_ClientHello data tc"
  have "SendClientHello P env tc = Some ?t" by (simp add: SendClientHello_def assms(1) data(1))
  moreover have "own_crypto ?t = Some c" "state ?t = state tc" by (simp_all add: client_control_def assms(1))
  moreover from client_control_step [OF assms(4) hello_lengths(1) [OF lens data(1)] assms(5), of PacketType_ClientHello] obtain packet where
    "enqueued packet tc ?t" "rate_room n b ?t" "op_type packet = PacketType_ClientHello"
    "destination_peer_id packet = to_server" "payload_source packet = Some data" by blast
  ultimately show ?thesis using data(2) by blast
qed

subsection \<open>Properties\<close>

text \<open>C22: the whole handshake, message by message.  A client and a server that initialised their key
  exchange with the same pre-shared key, on hosts of any byte order, with room in their rate
  limiters: the client pushes a hello to the server; when it arrives, the server's handler of system messages
  remembers the peer and pushes a hello to it; when that arrives, the client's handler verifies the
  server's proof, is connected and pushes its own proof to the server; when that arrives, the server's
  handler verifies it.  Both end up authenticated with the same session keys and may send messages.\<close>

theorem handshake_end_to_end:
  assumes total: "hashes_total P"
    and psk: "getenv P ''ZNET_PSK'' = Some secret" "16 \<le> length secret"
    and rand: "length nc = 32" "length chc = 16" "length ns = 32" "length chs = 16"
    and c: "InitializeKeyExchange P (Some nc) (Some chc) new_context = (okc, c)"
    and s: "InitializeKeyExchange P (Some ns) (Some chs) new_context = (oks, s)"
    and client: "own_crypto tc = Some c" "state tc = kConnecting"
    and server: "own_crypto ts = Some s" "state ts = kConnected" "k \<notin> handshaked_peers ts"
    and room: "rate_room 2 512 tc" "rate_room 1 256 ts"
    and blocks: "call_block e1 \<noteq> 0" "call_block e2 \<noteq> 0" "call_block e3 \<noteq> 0"
  shows "\<exists>tc0 hello ts1 reply tc1 auth ts2 c1 s2.
    SendClientHello P e1 tc = Some tc0 \<and> enqueued hello tc tc0 \<and> destination_peer_id hello = to_server \<and> payload_source hello \<noteq> None \<and>
    server_ProcessSystemMessage (P\<lparr>host := h\<rparr>) e2 (arrives p1 k hello) ts = Some ts1 \<and> k \<in> handshaked_peers ts1 \<and>
    enqueued reply ts ts1 \<and> destination_peer_id reply = k \<and> payload_source reply \<noteq> None \<and>
    client_ProcessSystemMessage P e3 (arrives p2 j reply) ps tc0 = Some (ps, tc1) \<and> state tc1 = kConnected \<and>
    enqueued auth tc0 tc1 \<and> destination_peer_id auth = to_server \<and> payload_source auth \<noteq> None \<and>
    server_ProcessSystemMessage (P\<lparr>host := h\<rparr>) e4 (arrives p3 k auth) ts1 = Some ts2 \<and>
    own_crypto tc1 = Some c1 \<and> own_crypto ts2 = Some s2 \<and> authenticated c1 \<and> authenticated s2 \<and> same_keys c1 s2 \<and>
    may_send tc1 \<and> may_send ts2"
proof -
  note start = key_exchange_started [OF total psk c s]
  have ne: "local_nonce c \<noteq> []" "local_nonce s \<noteq> []" "local_challenge c \<noteq> []" "local_challenge s \<noteq> []"
    using start rand by auto
  have lens: "length (GetPublicKey c) \<le> 64" "length (GetChallenge c) \<le> 64" "length (GetPublicKey s) \<le> 64" "length (GetChallenge s) \<le> 64"
    using start rand by (simp_all add: GetPublicKey_def GetChallenge_def)
  let ?s1 = "ProcessServerKey P (GetPublicKey c) (GetChallenge c) s"
  let ?c0 = "ProcessServerKey P (GetPublicKey s) (GetChallenge s) c"
  let ?c1 = "?c0\<lparr>authenticated := True\<rparr>"
  from client_hello_sent [OF client(1) lens(1,2), of 1 256 e1 P h] room(1) blocks(1) obtain tc0 hello data where
    hello: "SendClientHello P e1 tc = Some tc0" "enqueued hello tc tc0" "rate_room 1 256 tc0" "own_crypto tc0 = Some c"
    "state tc0 = state tc" "op_type hello = PacketType_ClientHello" "destination_peer_id hello = to_server"
    "payload_source hello = Some data" "read_ClientHello h data = Some (GetPublicKey c, GetChallenge c)" by (auto simp: numeral_2_eq_2)
  have "read_ClientHello (host (P\<lparr>host := h\<rparr>)) data = Some (GetPublicKey c, GetChallenge c)" "rate_room (Suc 0) (256 + 0) ts"
    using hello(9) room(2) by simp_all
  from server_hello_step [OF server lens(3,4) this blocks(2), of "host P"] obtain ts1 reply rdata where
    ts1: "server_ClientHello (P\<lparr>host := h\<rparr>) e2 k data ts = Some ts1" "k \<in> handshaked_peers ts1"
    "own_crypto ts1 = Some ?s1" "enqueued reply ts ts1" "op_type reply = PacketType_ServerHello" "destination_peer_id reply = k"
    "payload_source reply = Some rdata"
    "read_ServerHello (host P) rdata = Some (GetPublicKey s, GetChallenge s, server_proof_of P (Some ?s1))" by auto
  have same: "same_keys ?c0 ?s1" using ProcessServerKey_same_keys [OF total start(3) ne(1,2)] .
  have complete: "\<not> exchange_incomplete ?c0"
    using ne by (simp add: exchange_incomplete_def GetPublicKey_def GetChallenge_def)
  have proofs: "VerifyServerResponse P (GenerateServerProof P ?s1) ?c0 = (True, ?c1)"
    "VerifyClientProof P (GenerateClientProof P ?c0) ?s1 = (True, ?s1\<lparr>authenticated := True\<rparr>)"
    by (rule proofs_verify [OF total _ _ _ _ _ complete]; use same in \<open>simp add: same_keys_def GetPublicKey_def GetChallenge_def\<close>)+
  have pr: "GenerateServerProof P ?s1 \<noteq> []" "GenerateClientProof P ?c1 \<noteq> []" "GenerateClientProof P ?c1 = GenerateClientProof P ?c0"
    using HmacSha256_total [OF total] ne
    by (auto simp: GenerateServerProof_def GenerateClientProof_def exchange_incomplete_def GetPublicKey_def GetChallenge_def
        Let_def split: option.split) (metis list.size(3) option.sel zero_neq_numeral)+
  have sproof: "server_proof_of P (Some ?s1) = GenerateServerProof P ?s1" using psk by (auto simp: server_proof_of_def)
  have "state tc0 = kConnecting" "rate_room (Suc 0) (256 + 0) tc0" using hello(3,5) client(2) by simp_all
  with client_hello_step [OF hello(4) _ ts1(8) _ _ pr(2) _ blocks(3), of 0 0 ps h] proofs(1) pr(1) obtain tc1 auth adata where
    tc1: "client_ServerHello P e3 rdata ps tc0 = Some (ps, tc1)" "state tc1 = kConnected" "own_crypto tc1 = Some ?c1"
    "enqueued auth tc0 tc1" "op_type auth = PacketType_ClientAuthProof" "destination_peer_id auth = to_server"
    "payload_source auth = Some adata" "read_AuthProof h adata = Some (GenerateClientProof P ?c1)" unfolding sproof by auto
  let ?ts2 = "server_ClientAuthProof (P\<lparr>host := h\<rparr>) adata ts1"
  have last: "own_crypto ?ts2 = Some (?s1\<lparr>authenticated := True\<rparr>)"
    by (simp add: server_ClientAuthProof_def ts1(3) tc1(8) pr(3) proofs(2))
  have types: "PacketType_ClientAuthProof \<noteq> PacketType_ClientHello" by (simp add: PacketType_defs)
  have run: "server_ProcessSystemMessage (P\<lparr>host := h\<rparr>) e2 (arrives p1 k hello) ts = Some ts1"
    "client_ProcessSystemMessage P e3 (arrives p2 j reply) ps tc0 = Some (ps, tc1)"
    "server_ProcessSystemMessage (P\<lparr>host := h\<rparr>) e4 (arrives p3 k auth) ts1 = Some ?ts2"
    using hello(6,8) ts1(1,5,7) tc1(1,5,7) types
    by (simp_all add: server_ProcessSystemMessage_def client_ProcessSystemMessage_def arrives_def)
  have keys: "same_keys ?c1 (?s1\<lparr>authenticated := True\<rparr>)" using same by (simp add: same_keys_def)
  have send: "may_send tc1" "may_send ?ts2" using tc1(3) last by (simp_all add: may_send_def IsAuthenticated_def)
  show ?thesis
    by (rule exI [of _ tc0], rule exI [of _ hello], rule exI [of _ ts1], rule exI [of _ reply], rule exI [of _ tc1], rule exI [of _ auth],
        rule exI [of _ ?ts2], rule exI [of _ ?c1], rule exI [of _ "?s1\<lparr>authenticated := True\<rparr>"])
      (simp add: hello(1,2,7,8) ts1(2,4,6,7) tc1(2,3,4,6,7) run last keys send)
qed

definition sample_client :: ZAsyncTransportLayer where
  "sample_client = new_transport 0\<lparr>state := kConnecting,
     crypto_context := Some (snd (InitializeKeyExchange sample_platform (Some (replicate 32 1)) (Some (replicate 16 2)) new_context))\<rparr>"

definition sample_server :: ZServer where
  "sample_server = ZAsyncTransportLayer.extend (new_transport 0\<lparr>state := kConnected,
     crypto_context := Some (snd (InitializeKeyExchange sample_platform (Some (replicate 32 3)) (Some (replicate 16 4)) new_context))\<rparr>)
     (ZServer.fields {})"

definition sample_call :: call_env where
  "sample_call = \<lparr>call_time = 0, call_block = 64, call_fresh = (\<lambda>_. 0)\<rparr>"

lemma sample_endpoints:
  "own_crypto sample_client = Some (snd (InitializeKeyExchange sample_platform (Some (replicate 32 1)) (Some (replicate 16 2)) new_context))"
  "state sample_client = kConnecting"
  "own_crypto sample_server = Some (snd (InitializeKeyExchange sample_platform (Some (replicate 32 3)) (Some (replicate 16 4)) new_context))"
  "handshaked_peers sample_server = {}" "state sample_server = kConnected"
  "rate_room 2 512 sample_client" "rate_room 1 256 sample_server"
  by (simp_all add: sample_client_def sample_server_def own_crypto_def new_transport_def new_packet_queue_def rate_room_def
      default_rate_limit_def new_dispatcher_def PacketDispatcher.defs ZPacketQueue.defs ZAsyncTransportLayer.defs ZServer.defs)

theorem handshake_end_to_end_witness:
  "\<exists>tc0 hello ts1 reply tc1 c1 p. SendClientHello sample_platform sample_call sample_client = Some tc0 \<and>
    enqueued hello sample_client tc0 \<and>
    server_ProcessSystemMessage (sample_platform\<lparr>host := BigEndian\<rparr>) sample_call (arrives p 9 hello) sample_server = Some ts1 \<and>
    enqueued reply sample_server ts1 \<and>
    client_ProcessSystemMessage sample_platform sample_call (arrives p 1 reply) \<lparr>open_fds = []\<rparr> tc0 = Some (\<lparr>open_fds = []\<rparr>, tc1) \<and>
    state tc1 = kConnected \<and> own_crypto tc1 = Some c1 \<and> authenticated c1"
proof -
  let ?P = sample_platform
  have psk: "getenv ?P ''ZNET_PSK'' = Some (ascii ''0123456789abcdef'')" by (simp add: sample_platform_def)
  have k: "9 \<notin> handshaked_peers sample_server" by (simp add: sample_endpoints)
  have len: "16 \<le> length (ascii ''0123456789abcdef'')" by simp
  have block: "call_block sample_call \<noteq> 0" by (simp add: sample_call_def)
  have bytes: "length (replicate 32 x) = 32" "length (replicate 16 x) = 16" for x :: byte by simp_all
  from handshake_end_to_end [OF sample_lawful(3) psk len bytes bytes surjective_pairing surjective_pairing
      sample_endpoints(1,2,3,5) k sample_endpoints(6,7) block block block, of BigEndian undefined undefined 1 "\<lparr>open_fds = []\<rparr>"]
  show ?thesis by blast
qed

text \<open>A client that asked for encryption accepts a server that offers none.  The server hello of a
  server without a cryptographic context carries no key and no proof; the client, which is not
  authenticated and has derived no session key, is connected all the same, and takes packets.\<close>

theorem unproven_server_accepted:
  assumes crypto: "own_crypto tc = Some c" "\<not> authenticated c" and st: "state tc = kConnecting"
  shows "\<exists>reply tc1 c1. ServerHello_payload P' fresh None = Some reply \<and> client_ServerHello P env reply ps tc = Some (ps, tc1) \<and>
    state tc1 = kConnected \<and> own_crypto tc1 = Some c1 \<and> \<not> authenticated c1 \<and> encryption_key c1 = encryption_key c \<and>
    fst (EnqueuePacket now packet tc1)"
proof -
  let ?hdr = "[1, 1, 0, 0, 0] :: byte list" and ?fs = "[Raw [AESCBC128], Raw [LZ4], Counted []]"
  have payload: "ServerHello_payload P' fresh None = Some (?hdr @ message_bytes ?fs)"
    unfolding ServerHello_payload_def Let_def
    by (rule appends_step [OF appends_put_object new_writer_ok(1)], simp,
        rule appends_step [OF appends_put_each], assumption,
        rule appends_step [OF appends_put_each], assumption,
        rule appends_step [OF appends_put_list], simp, assumption,
        rule appends_step [OF appends_put_optional], simp, assumption,
        rule appends_step [OF appends_put_optional], simp add: server_proof_of_def, assumption)
      (simp add: new_writer_ok ServerHello_object_def encryption_algorithms_def compression_algorithms_def
        optional_list_def server_proof_of_def)
  have "read_ServerHello (host P) (?hdr @ message_bytes ?fs) = Some (server_values ?hdr ?fs)"
    unfolding read_ServerHello_shapes
    by (rule read_after_header_message) (simp_all add: server_shapes_def optional_shape_def)
  then have read: "read_ServerHello (host P) (?hdr @ message_bytes ?fs) = Some ([], [], [])" by (simp add: server_values_def)
  let ?c = "ProcessServerKey P [] [] c"
  have "encryption_key ?c = encryption_key c" by (simp add: ProcessServerKey_def DeriveSessionKeys_def)
  moreover have "GenerateClientProof P ?c = []" by (simp add: GenerateClientProof_def exchange_incomplete_def)
  ultimately show ?thesis using payload read assms
    by (auto simp: client_ServerHello_def Let_def EnqueuePacket_def)
qed

theorem unproven_server_accepted_witness:
  "\<exists>reply tc1. ServerHello_payload sample_platform (\<lambda>_. 0) None = Some reply \<and>
    client_ServerHello sample_platform sample_call reply \<lparr>open_fds = []\<rparr> sample_client = Some (\<lparr>open_fds = []\<rparr>, tc1) \<and>
    state tc1 = kConnected"
proof -
  have "\<not> authenticated (snd (InitializeKeyExchange sample_platform (Some (replicate 32 1)) (Some (replicate 16 2)) new_context))"
    by (auto simp: InitializeKeyExchange_def EnsureKeyMaterialReady_def DeriveKeyMaterial_def new_context_def Let_def
        split: option.split prod.split bool.split)
  from unproven_server_accepted [OF sample_endpoints(1) this sample_endpoints(2)] show ?thesis by blast
qed

text \<open>C29: a handshake message that lost bytes at its end is no message.  A truncated server hello or proof changes
  the state of no client and no server; a truncated client hello changes the state of no server with a
  cryptographic context.  (A server without one does not read the hello: it answers a truncated one as it
  answers the whole.)\<close>

theorem truncated_handshake_ignored:
  assumes lens: "length (GetPublicKey c) \<le> 65535" "short (GetChallenge c)" "length (GetPublicKey s) \<le> 65535" "short (GetChallenge s)"
  shows "\<exists>hello reply auth. ClientHello_payload h fresh (Some c) = Some hello \<and>
    ServerHello_payload P fresh (Some s) = Some reply \<and> AuthProof_payload h fresh (GenerateClientProof P c) = Some auth \<and>
    (\<forall>n < length hello. \<forall>pack. ip_type pack = PacketType_ClientHello \<and> ip_data pack = take n hello \<longrightarrow>
       (case own_crypto ts of
          Some _ \<Rightarrow> server_ProcessSystemMessage P env pack ts = Some ts
        | None \<Rightarrow> server_ProcessSystemMessage P env pack ts = server_ProcessSystemMessage P env (pack\<lparr>ip_data := hello\<rparr>) ts)) \<and>
    (\<forall>n < length reply. \<forall>pack. ip_type pack = PacketType_ServerHello \<and> ip_data pack = take n reply \<longrightarrow>
       client_ProcessSystemMessage P env pack ps tc = Some (ps, tc)) \<and>
    (\<forall>n < length auth. \<forall>pack. ip_type pack = PacketType_ClientAuthProof \<and> ip_data pack = take n auth \<longrightarrow>
       server_ProcessSystemMessage P env pack ts = Some ts)"
proof -
  have "length (GenerateClientProof P c) \<le> 65535" using proof_length(2) [of P c] by simp
  from read_AuthProof_payload [OF this, of h fresh "host P"] obtain auth where
    auth: "AuthProof_payload h fresh (GenerateClientProof P c) = Some auth"
    "\<forall>n < length auth. read_AuthProof (host P) (take n auth) = None" by blast
  from read_ClientHello_payload [OF lens(1,2), of h fresh "host P"] obtain hello where
    hello: "ClientHello_payload h fresh (Some c) = Some hello" "\<forall>n < length hello. read_ClientHello (host P) (take n hello) = None" by blast
  from read_ServerHello_payload [OF lens(3,4) server_proof_short, of P fresh "host P"] obtain reply where
    reply: "ServerHello_payload P fresh (Some s) = Some reply" "\<forall>n < length reply. read_ServerHello (host P) (take n reply) = None" by blast
  have types: "PacketType_ClientAuthProof \<noteq> PacketType_ClientHello" by (simp add: PacketType_defs)
  show ?thesis
    by (rule exI [of _ hello], rule exI [of _ reply], rule exI [of _ auth])
      (simp add: hello reply auth types server_ProcessSystemMessage_def client_ProcessSystemMessage_def server_ClientHello_def
        client_ServerHello_def server_ClientAuthProof_def split: option.split)
qed

theorem truncated_handshake_ignored_witness:
  "\<exists>hello. ClientHello_payload LittleEndian (\<lambda>_. 0) (own_crypto sample_client) = Some hello \<and>
    (\<forall>n < length hello. \<forall>pack. ip_type pack = PacketType_ClientHello \<and> ip_data pack = take n hello \<longrightarrow>
       server_ProcessSystemMessage sample_platform sample_call pack sample_server = Some sample_server)"
proof -
  let ?c = "snd (InitializeKeyExchange sample_platform (Some (replicate 32 1)) (Some (replicate 16 2)) new_context)"
  let ?s = "snd (InitializeKeyExchange sample_platform (Some (replicate 32 3)) (Some (replicate 16 4)) new_context)"
  have psk: "getenv sample_platform ''ZNET_PSK'' = Some (ascii ''0123456789abcdef'')" by (simp add: sample_platform_def)
  note start = key_exchange_started [OF sample_lawful(3) psk _ surjective_pairing surjective_pairing, simplified length_ascii]
  have "length (GetPublicKey ?c) \<le> 65535" "short (GetChallenge ?c)" "length (GetPublicKey ?s) \<le> 65535" "short (GetChallenge ?s)"
    using start(4,5) [of "replicate 32 1" "replicate 16 2"] start(4,5) [of "replicate 32 3" "replicate 16 4"]
    by (simp_all add: GetPublicKey_def GetChallenge_def short_def)
  from truncated_handshake_ignored [OF this, where h = LittleEndian and fresh = "\<lambda>_. 0" and P = sample_platform and ts = sample_server and env = sample_call] show ?thesis
    unfolding sample_endpoints(1,3) option.case by blast
qed

end
