(* ===== verification/File_Chunks.thy ===== *)
theory File_Chunks
  imports Checksum Wire_LE Packets "HOL-Library.Monad_Syntax"
begin

text \<open>
  The chunk format of \<^verbatim>\<open>src/znet/z_file_transporter.h\<close> and \<^verbatim>\<open>.cc\<close>: the path check
  (\<^verbatim>\<open>ContainsPathTraversal\<close>, \<^verbatim>\<open>ValidatePath\<close>), the number of chunks, and building and parsing a
  chunk.  Paths and names are lists of bytes.
\<close>

subsection \<open>Paths\<close>

definition is_separator :: "byte \<Rightarrow> bool" where
  "is_separator b \<longleftrightarrow> b = 0x2F \<or> b = 0x5C"

definition isalpha :: "byte \<Rightarrow> bool" where
  "isalpha b \<longleftrightarrow> (0x41 \<le> b \<and> b \<le> 0x5A) \<or> (0x61 \<le> b \<and> b \<le> 0x7A)"

definition dot :: byte where "dot = 0x2E"

definition traversal_at :: "byte list \<Rightarrow> nat \<Rightarrow> bool" where
  \<comment> \<open>the body of the loop\<close>
  "traversal_at path i \<longleftrightarrow>
     (path ! i = dot \<and> i + 1 < length path \<and> path ! (i + 1) = dot \<and>
      (i + 2 \<ge> length path \<or> is_separator (path ! (i + 2)))) \<or>
     (is_separator (path ! i) \<and> i + 1 < length path \<and> path ! (i + 1) = dot \<and>
      i + 2 < length path \<and> path ! (i + 2) = dot)"

definition drive_path :: "byte list \<Rightarrow> bool" where
  "drive_path path \<longleftrightarrow> length path \<ge> 2 \<and> isalpha (path ! 0) \<and> path ! 1 = 0x3A"

definition ContainsPathTraversal :: "byte list \<Rightarrow> bool" where
  "ContainsPathTraversal path =
     (if path = [] then True
      else if is_separator (path ! 0) then True
      else if drive_path path then True
      else list_ex (traversal_at path) [0..<length path])"

definition with_separator :: "byte list \<Rightarrow> byte list" where
  "with_separator dir = (if dir \<noteq> [] \<and> \<not> is_separator (last dir) then dir @ [0x2F] else dir)"

definition ValidatePath :: "byte list \<Rightarrow> byte list \<Rightarrow> bool" where
  "ValidatePath base_str file_str =
     (if ContainsPathTraversal file_str then False
      else if base_str = [] then True
      else
        let base_prefix = with_separator base_str in
        if length file_str < length base_prefix then False
        else take (length base_prefix) file_str = base_prefix)"

subsection \<open>Chunks\<close>

definition kWireMagic :: u32 where "kWireMagic = 0x5A465452"
definition kWireVersion :: u8 where "kWireVersion = 1"
definition kFlagHasFileName :: u8 where "kFlagHasFileName = 1"
definition kFlagLastChunk :: u8 where "kFlagLastChunk = 2"
definition kFixedHeaderSize :: nat where "kFixedHeaderSize = 48"

record TransferChunk =
  transfer_id :: u64
  file_size :: u64
  chunk_size :: u32
  chunk_index :: u32
  total_chunks :: u32
  chunk_checksum :: u32
  file_checksum :: u32
  has_file_name :: bool
  is_last_chunk :: bool
  file_name :: "byte list"
  chunk_data :: "byte list"

definition CalculateTotalChunks :: "u64 \<Rightarrow> u32 \<Rightarrow> u64" where
  "CalculateTotalChunks fsize csize =
     (if csize = 0 then 0 else if fsize = 0 then 1 else (fsize + ucast csize - 1) div ucast csize)"

definition chunk_start :: "TransferChunk \<Rightarrow> u64" where
  "chunk_start c = ucast (chunk_index c) * ucast (chunk_size c)"

definition expected_chunk_bytes :: "TransferChunk \<Rightarrow> u64" where
  "expected_chunk_bytes c = min (file_size c - chunk_start c) (ucast (chunk_size c))"

text \<open>The conditions building and parsing share.\<close>

definition header_ok :: "TransferChunk \<Rightarrow> bool" where
  "header_ok c \<longleftrightarrow>
     \<not> (transfer_id c = 0 \<or> chunk_size c = 0 \<or> total_chunks c = 0 \<or> chunk_index c \<ge> total_chunks c) \<and>
     has_file_name c = (chunk_index c = 0) \<and>
     \<not> (\<not> is_last_chunk c \<and> file_checksum c \<noteq> 0) \<and>
     \<not> (is_last_chunk c \<and> chunk_index c \<noteq> total_chunks c - 1) \<and>
     CalculateTotalChunks (file_size c) (chunk_size c) = ucast (total_chunks c)"

definition single_empty_chunk :: "TransferChunk \<Rightarrow> bool" where
  "single_empty_chunk c \<longleftrightarrow> file_size c = 0 \<and> chunk_index c = 0 \<and> total_chunks c = 1"

definition wire_flags :: "TransferChunk \<Rightarrow> u8" where
  "wire_flags c = (if has_file_name c then kFlagHasFileName else 0) OR (if is_last_chunk c then kFlagLastChunk else 0)"

definition chunk_header :: "endian \<Rightarrow> TransferChunk \<Rightarrow> nat \<Rightarrow> byte list" where
  "chunk_header h c name_size =
     (let payload = AppendU32 h [] kWireMagic;
          payload = payload @ [kWireVersion];
          payload = payload @ [wire_flags c];
          payload = AppendU64 h payload (transfer_id c);
          payload = AppendU64 h payload (file_size c);
          payload = AppendU32 h payload (chunk_size c);
          payload = AppendU32 h payload (chunk_index c);
          payload = AppendU32 h payload (total_chunks c);
          payload = AppendU32 h payload (of_nat (length (chunk_data c)));
          payload = AppendU32 h payload (chunk_checksum c);
          payload = AppendU32 h payload (file_checksum c)
      in AppendU16 h payload (of_nat name_size))"

definition BuildTransferChunkPayload :: "endian \<Rightarrow> TransferChunk \<Rightarrow> byte list option" where
  "BuildTransferChunkPayload h c =
     (if \<not> header_ok c then None
      else if length (chunk_data c) > unat (chunk_size c) then None
      else if has_file_name c \<and> file_name c = [] then None
      else if length (file_name c) > 65535 then None
      else if \<not> has_file_name c \<and> file_name c \<noteq> [] then None
      else if chunk_start c > file_size c then None
      else if (if single_empty_chunk c then chunk_data c \<noteq> []
               else length (chunk_data c) \<noteq> unat (expected_chunk_bytes c)) then None
      else Some (chunk_header h c (length (file_name c)) @ file_name c @ chunk_data c))"

text \<open>
  Parsing reads the fixed header, giving the chunk without name and data, the sizes of these and
  the cursor, and then checks it.
\<close>

definition read_chunk_header :: "endian \<Rightarrow> byte list \<Rightarrow> (TransferChunk \<times> u16 \<times> u32 \<times> nat) option" where
  "read_chunk_header h payload = do {
     (magic, cursor) \<leftarrow> ReadU32 h payload 0;
     if magic \<noteq> kWireMagic \<or> cursor \<ge> length payload then None else do {
     let version = payload ! cursor;
     let cursor = cursor + 1;
     if version \<noteq> kWireVersion \<or> cursor \<ge> length payload then None else do {
     let flags = payload ! cursor;
     let cursor = cursor + 1;
     if flags AND NOT (kFlagHasFileName OR kFlagLastChunk) \<noteq> 0 then None else do {
     (tid, cursor) \<leftarrow> ReadU64 h payload cursor;
     (fsize, cursor) \<leftarrow> ReadU64 h payload cursor;
     (csize, cursor) \<leftarrow> ReadU32 h payload cursor;
     (index, cursor) \<leftarrow> ReadU32 h payload cursor;
     (total, cursor) \<leftarrow> ReadU32 h payload cursor;
     (data_size, cursor) \<leftarrow> ReadU32 h payload cursor;
     (csum, cursor) \<leftarrow> ReadU32 h payload cursor;
     (fsum, cursor) \<leftarrow> ReadU32 h payload cursor;
     (name_size, cursor) \<leftarrow> ReadU16 h payload cursor;
     Some (\<lparr>transfer_id = tid, file_size = fsize, chunk_size = csize, chunk_index = index, total_chunks = total,
             chunk_checksum = csum, file_checksum = fsum,
             has_file_name = (flags AND kFlagHasFileName \<noteq> 0), is_last_chunk = (flags AND kFlagLastChunk \<noteq> 0),
             file_name = [], chunk_data = []\<rparr>, name_size, data_size, cursor)
     }}}}"

definition check_chunk :: "byte list \<Rightarrow> TransferChunk \<Rightarrow> u16 \<Rightarrow> u32 \<Rightarrow> nat \<Rightarrow> TransferChunk option" where
  "check_chunk payload c name_size data_size cursor =
     (if \<not> header_ok c then None
      else if \<not> has_file_name c \<and> name_size \<noteq> 0 then None
      else if has_file_name c \<and> name_size = 0 then None
      else if cursor + unat name_size > length payload then None
      else
        let c = c\<lparr>file_name := block_at cursor (unat name_size) payload\<rparr>;
            cursor = cursor + unat name_size
        in if has_file_name c \<and> ContainsPathTraversal (file_name c) then None
           else if cursor + unat data_size \<noteq> length payload then None
           else if data_size > chunk_size c then None
           else if chunk_start c > file_size c then None
           else if (if single_empty_chunk c then data_size \<noteq> 0 \<or> \<not> is_last_chunk c
                    else ucast data_size \<noteq> expected_chunk_bytes c) then None
           else if ComputeChecksum (block_at cursor (unat data_size) payload) \<noteq> chunk_checksum c then None
           else Some (c\<lparr>chunk_data := block_at cursor (unat data_size) payload\<rparr>))"

definition ParseTransferChunkPayload :: "endian \<Rightarrow> byte list \<Rightarrow> TransferChunk option" where
  "ParseTransferChunkPayload h payload =
     (if length payload < kFixedHeaderSize then None
      else do {
        (c, name_size, data_size, cursor) \<leftarrow> read_chunk_header h payload;
        check_chunk payload c name_size data_size cursor
      })"

definition ParseTransferChunkPacket :: "endian \<Rightarrow> IncomingPacket \<Rightarrow> TransferChunk option" where
  "ParseTransferChunkPacket h packet =
     (if ip_type packet \<noteq> PacketType_FileTransfer \<or> ip_channel packet \<noteq> Control then None
      else ParseTransferChunkPayload h (ip_data packet))"

subsection \<open>What the path check accepts\<close>

text \<open>The components of a path, separated by slashes or backslashes.\<close>

fun components :: "byte list \<Rightarrow> byte list list" where
  "components [] = [[]]"
| "components (b # bs) =
     (if is_separator b then [] # components bs
      else case components bs of c # cs \<Rightarrow> (b # c) # cs | [] \<Rightarrow> [[b]])"

definition ends_dots :: "byte list \<Rightarrow> bool" where
  "ends_dots c \<longleftrightarrow> length c \<ge> 2 \<and> drop (length c - 2) c = [dot, dot]"

definition starts_dots :: "byte list \<Rightarrow> bool" where
  "starts_dots c \<longleftrightarrow> take 2 c = [dot, dot]"

lemma components_ne: "components p \<noteq> []"
  by (cases p) (auto split: list.splits)

lemma dot_separator: "\<not> is_separator dot"
  by (simp add: is_separator_def dot_def)

lemma components_Cons:
  assumes "\<not> is_separator b"
  obtains c cs where "components bs = c # cs" "components (b # bs) = (b # c) # cs"
  using assms components_ne [of bs] by (cases "components bs") auto

lemma starts_dots_components: "starts_dots (hd (components p)) \<longleftrightarrow> (\<exists>r. p = dot # dot # r)"
proof (cases p)
  case (Cons a as)
  show ?thesis
  proof (cases "a = dot")
    case True
    then obtain c cs where c: "components as = c # cs" "components (a # as) = (a # c) # cs"
      using components_Cons dot_separator by metis
    show ?thesis
    proof (cases as)
      case (Cons b bs)
      then show ?thesis using c True \<open>p = a # as\<close> dot_separator
        by (cases "is_separator b") (auto simp: starts_dots_def split: list.splits)
    qed (use c True \<open>p = a # as\<close> in \<open>simp add: starts_dots_def\<close>)
  next
    case False
    then show ?thesis using \<open>p = a # as\<close> by (auto simp: starts_dots_def split: list.splits)
  qed
qed (simp add: starts_dots_def)

lemma single_dot_component:
  "hd (components p) = [dot] \<longleftrightarrow> (\<exists>r. p = dot # r \<and> (r = [] \<or> is_separator (hd r)))"
proof (cases p)
  case (Cons a as)
  show ?thesis
  proof (cases as)
    case Nil
    then show ?thesis using \<open>p = a # as\<close> by (auto simp: dot_separator)
  next
    case (Cons b bs)
    then show ?thesis using \<open>p = a # as\<close> components_ne [of bs] dot_separator
      by (auto split: list.splits)
  qed
qed simp

lemma ends_dots_Cons: "ends_dots (b # c) \<longleftrightarrow> ends_dots c \<or> (b = dot \<and> c = [dot])"
proof (cases "length c \<ge> 2")
  case True
  then have "length (b # c) - 2 = Suc (length c - 2)" by simp
  then have "drop (length (b # c) - 2) (b # c) = drop (length c - 2) c" by (simp only: drop_Suc_Cons)
  with True show ?thesis by (auto simp: ends_dots_def)
next
  case False
  then have "c = [] \<or> (\<exists>x. c = [x])" by (cases c; cases "tl c") auto
  then show ?thesis by (auto simp: ends_dots_def)
qed

lemma traversal_Cons:
  "(\<exists>i < length (b # bs). traversal_at (b # bs) i) \<longleftrightarrow> traversal_at (b # bs) 0 \<or> (\<exists>i < length bs. traversal_at bs i)"
proof -
  have "traversal_at (b # bs) (Suc i) = traversal_at bs i" for i by (simp add: traversal_at_def)
  then show ?thesis by (metis less_Suc_eq_0_disj length_Cons)
qed

lemma traversal_components:
  "(\<exists>i < length p. traversal_at p i) \<longleftrightarrow>
   list_ex ends_dots (components p) \<or> list_ex starts_dots (tl (components p))"
proof (induction p)
  case Nil
  show ?case by (simp add: ends_dots_def)
next
  case (Cons b bs)
  note step = traversal_Cons [of b bs] Cons.IH
  show ?case
  proof (cases "is_separator b")
    case True
    have "traversal_at (b # bs) 0 \<longleftrightarrow> starts_dots (hd (components bs))"
      using True dot_separator unfolding starts_dots_components
      by (cases bs; cases "tl bs") (auto simp: traversal_at_def)
    moreover have "list_ex starts_dots (components bs) \<longleftrightarrow>
        starts_dots (hd (components bs)) \<or> list_ex starts_dots (tl (components bs))"
      using components_ne [of bs] by (cases "components bs") auto
    ultimately show ?thesis using step True by (auto simp: ends_dots_def)
  next
    case False
    then obtain c cs where c: "components bs = c # cs" "components (b # bs) = (b # c) # cs" by (rule components_Cons)
    have "traversal_at (b # bs) 0 \<longleftrightarrow> b = dot \<and> hd (components bs) = [dot]"
      using False unfolding single_dot_component
      by (cases bs; cases "tl bs") (auto simp: traversal_at_def)
    with step c show ?thesis by (auto simp: ends_dots_Cons)
  qed
qed

lemma ContainsPathTraversal_iff:
  "ContainsPathTraversal p \<longleftrightarrow> p = [] \<or> is_separator (p ! 0) \<or> drive_path p \<or>
     list_ex ends_dots (components p) \<or> list_ex starts_dots (tl (components p))"
  using traversal_components [of p] by (auto simp: ContainsPathTraversal_def list_ex_iff)

subsection \<open>Building and parsing\<close>

lemma chunk_header_bytes:
  "chunk_header h c n = word_bytes kWireMagic @ [kWireVersion, wire_flags c] @ word_bytes (transfer_id c) @
     word_bytes (file_size c) @ word_bytes (chunk_size c) @ word_bytes (chunk_index c) @ word_bytes (total_chunks c) @
     word_bytes (of_nat (length (chunk_data c)) :: u32) @ word_bytes (chunk_checksum c) @ word_bytes (file_checksum c) @
     word_bytes (of_nat n :: u16)"
  by (simp add: chunk_header_def Let_def Append_eq)

lemma length_chunk_header: "length (chunk_header h c n) = kFixedHeaderSize"
  by (simp add: chunk_header_bytes kFixedHeaderSize_def)

lemma flags_back:
  "wire_flags c AND NOT (kFlagHasFileName OR kFlagLastChunk) = 0"
  "wire_flags c AND kFlagHasFileName \<noteq> 0 \<longleftrightarrow> has_file_name c"
  "wire_flags c AND kFlagLastChunk \<noteq> 0 \<longleftrightarrow> is_last_chunk c"
  by (cases "has_file_name c"; cases "is_last_chunk c";
      simp add: wire_flags_def kFlagHasFileName_def kFlagLastChunk_def)+

text \<open>The header at its fixed places.\<close>

definition header_chunk :: "endian \<Rightarrow> byte list \<Rightarrow> TransferChunk" where
  "header_chunk h payload =
     \<lparr>transfer_id = LoadU64 h payload 6, file_size = LoadU64 h payload 14, chunk_size = LoadU32 h payload 22,
      chunk_index = LoadU32 h payload 26, total_chunks = LoadU32 h payload 30, chunk_checksum = LoadU32 h payload 38,
      file_checksum = LoadU32 h payload 42, has_file_name = (payload ! 5 AND kFlagHasFileName \<noteq> 0),
      is_last_chunk = (payload ! 5 AND kFlagLastChunk \<noteq> 0), file_name = [], chunk_data = []\<rparr>"

definition header_valid :: "endian \<Rightarrow> byte list \<Rightarrow> bool" where
  "header_valid h payload \<longleftrightarrow> LoadU32 h payload 0 = kWireMagic \<and> payload ! 4 = kWireVersion \<and>
     payload ! 5 AND NOT (kFlagHasFileName OR kFlagLastChunk) = 0"

lemma read_chunk_header_eq:
  assumes "48 \<le> length payload"
  shows "read_chunk_header h payload =
    (if header_valid h payload then Some (header_chunk h payload, LoadU16 h payload 46, LoadU32 h payload 34, 48) else None)"
proof -
  have r: "ReadU32 h payload 0 = Some (LoadU32 h payload 0, 4)" "ReadU64 h payload 6 = Some (LoadU64 h payload 6, 14)"
    "ReadU64 h payload 14 = Some (LoadU64 h payload 14, 22)" "ReadU32 h payload 22 = Some (LoadU32 h payload 22, 26)"
    "ReadU32 h payload 26 = Some (LoadU32 h payload 26, 30)" "ReadU32 h payload 30 = Some (LoadU32 h payload 30, 34)"
    "ReadU32 h payload 34 = Some (LoadU32 h payload 34, 38)" "ReadU32 h payload 38 = Some (LoadU32 h payload 38, 42)"
    "ReadU32 h payload 42 = Some (LoadU32 h payload 42, 46)" "ReadU16 h payload 46 = Some (LoadU16 h payload 46, 48)"
    using assms by (simp_all add: ReadU16_def ReadU32_def ReadU64_def)
  have l: "\<not> length payload \<le> 4" "\<not> length payload \<le> 5" using assms by auto
  have n: "(4 :: nat) + 1 = 5" "(5 :: nat) + 1 = 6" by simp_all
  show ?thesis
    unfolding read_chunk_header_def Let_def r bind.bind_lunit prod.case n header_chunk_def header_valid_def
    using l by simp
qed

lemma chunk_updates [simp]:
  "header_ok (c\<lparr>file_name := n\<rparr>) = header_ok c" "header_ok (c\<lparr>chunk_data := d\<rparr>) = header_ok c"
  "chunk_start (c\<lparr>file_name := n\<rparr>) = chunk_start c" "chunk_start (c\<lparr>chunk_data := d\<rparr>) = chunk_start c"
  "expected_chunk_bytes (c\<lparr>file_name := n\<rparr>) = expected_chunk_bytes c"
  "expected_chunk_bytes (c\<lparr>chunk_data := d\<rparr>) = expected_chunk_bytes c"
  "single_empty_chunk (c\<lparr>file_name := n\<rparr>) = single_empty_chunk c"
  "single_empty_chunk (c\<lparr>chunk_data := d\<rparr>) = single_empty_chunk c"
  by (simp_all add: header_ok_def chunk_start_def expected_chunk_bytes_def single_empty_chunk_def)

lemma unat_ucast_32_64: "unat (ucast (x :: u32) :: u64) = unat x"
  by (simp add: unsigned_ucast_eq take_bit_nat_eq_self unat_bound [THEN less_le_trans])

lemma header_built:
  assumes payload: "payload = chunk_header h' c n @ rest"
  shows "header_valid h payload" and "header_chunk h payload = c\<lparr>file_name := [], chunk_data := []\<rparr>"
    and "LoadU16 h payload 46 = of_nat n" and "LoadU32 h payload 34 = of_nat (length (chunk_data c))"
proof -
  have len: "48 \<le> length payload" using length_chunk_header [of h' c n] by (simp add: payload kFixedHeaderSize_def)
  have loads: "LoadU32 h payload 0 = kWireMagic" "LoadU64 h payload 6 = transfer_id c" "LoadU64 h payload 14 = file_size c"
    "LoadU32 h payload 22 = chunk_size c" "LoadU32 h payload 26 = chunk_index c" "LoadU32 h payload 30 = total_chunks c"
    "LoadU32 h payload 34 = of_nat (length (chunk_data c))" "LoadU32 h payload 38 = chunk_checksum c"
    "LoadU32 h payload 42 = file_checksum c" "LoadU16 h payload 46 = of_nat n"
    using len by (simp_all add: Load_eq) (simp_all add: payload chunk_header_bytes layout_simps bytes_word_bytes)
  moreover have bytes: "payload ! 4 = kWireVersion" "payload ! 5 = wire_flags c"
    by (simp_all add: payload chunk_header_bytes layout_simps)
  ultimately show "header_valid h payload" "header_chunk h payload = c\<lparr>file_name := [], chunk_data := []\<rparr>"
    "LoadU16 h payload 46 = of_nat n" "LoadU32 h payload 34 = of_nat (length (chunk_data c))"
    using flags_back(1) [of c] by (simp_all add: header_valid_def header_chunk_def flags_back(2,3))
qed

text \<open>What is sent in a chunk that is received: the checksum is that of the data and the name is safe.\<close>

definition sendable :: "TransferChunk \<Rightarrow> bool" where
  "sendable c \<longleftrightarrow> chunk_checksum c = ComputeChecksum (chunk_data c) \<and>
     (has_file_name c \<longrightarrow> \<not> ContainsPathTraversal (file_name c)) \<and> (single_empty_chunk c \<longrightarrow> is_last_chunk c)"

lemma parse_built:
  assumes built: "BuildTransferChunkPayload h' c = Some payload" and ok: "sendable c"
  shows "ParseTransferChunkPayload h payload = Some c"
proof -
  from built have b: "header_ok c" "length (chunk_data c) \<le> unat (chunk_size c)" "has_file_name c \<longleftrightarrow> file_name c \<noteq> []"
    "length (file_name c) \<le> 65535" "\<not> chunk_start c > file_size c"
    "if single_empty_chunk c then chunk_data c = [] else length (chunk_data c) = unat (expected_chunk_bytes c)"
    and payload: "payload = chunk_header h' c (length (file_name c)) @ file_name c @ chunk_data c"
    by (auto simp: BuildTransferChunkPayload_def split: if_splits)
  note hdr = header_built [OF payload, of h]
  have len: "length payload = 48 + length (file_name c) + length (chunk_data c)"
    using length_chunk_header [of h' c "length (file_name c)"] by (simp add: payload kFixedHeaderSize_def)
  have name: "unat (of_nat (length (file_name c)) :: u16) = length (file_name c)" using b(4) by (simp add: unat_of_nat)
  have data: "unat (of_nat (length (chunk_data c)) :: u32) = length (chunk_data c)"
    using b(2) unat_bound [of "chunk_size c"] by (simp add: unat_of_nat)
  have blocks: "block_at 48 (length (file_name c)) payload = file_name c"
    "block_at (48 + length (file_name c)) (length (chunk_data c)) payload = chunk_data c"
    using length_chunk_header [of h' c "length (file_name c)"] by (simp_all add: payload kFixedHeaderSize_def block_at_def)
  let ?c = "c\<lparr>file_name := [], chunk_data := []\<rparr>" and ?n = "of_nat (length (file_name c)) :: u16"
    and ?d = "of_nat (length (chunk_data c)) :: u32"
  have n0: "?n = 0 \<longleftrightarrow> file_name c = []" using name by (metis length_0_conv unat_0 unat_eq_zero)
  have d0: "?d = 0 \<longleftrightarrow> chunk_data c = []" using data by (metis length_0_conv unat_0 unat_eq_zero)
  have size: "\<not> ?d > chunk_size c" using b(2) data by (simp add: word_less_nat_alt)
  have fit: "\<not> (if single_empty_chunk c then ?d \<noteq> 0 \<or> \<not> is_last_chunk c else ucast ?d \<noteq> expected_chunk_bytes c)"
    using b(6) ok d0 data by (auto simp: sendable_def word_unat_eq_iff unat_ucast_32_64)
  have restored: "?c\<lparr>file_name := file_name c\<rparr>\<lparr>chunk_data := chunk_data c\<rparr> = c" by (cases c) simp
  have upd: "header_ok ?c = header_ok c" "has_file_name ?c = has_file_name c" "has_file_name (?c\<lparr>file_name := f\<rparr>) = has_file_name c"
    "file_name (?c\<lparr>file_name := f\<rparr>) = f" "chunk_size (?c\<lparr>file_name := f\<rparr>) = chunk_size c" "file_size (?c\<lparr>file_name := f\<rparr>) = file_size c"
    "chunk_start (?c\<lparr>file_name := f\<rparr>) = chunk_start c" "single_empty_chunk (?c\<lparr>file_name := f\<rparr>) = single_empty_chunk c"
    "is_last_chunk (?c\<lparr>file_name := f\<rparr>) = is_last_chunk c" "chunk_checksum (?c\<lparr>file_name := f\<rparr>) = chunk_checksum c"
    "expected_chunk_bytes (?c\<lparr>file_name := f\<rparr>) = expected_chunk_bytes c" for f by simp_all
  have conds: "\<not> (\<not> has_file_name c \<and> ?n \<noteq> 0)" "\<not> (has_file_name c \<and> ?n = 0)"
    "\<not> (has_file_name c \<and> ContainsPathTraversal (file_name c))" "\<not> 48 + length (file_name c) > length payload"
    "\<not> 48 + length (file_name c) + length (chunk_data c) \<noteq> length payload" "\<not> ComputeChecksum (chunk_data c) \<noteq> chunk_checksum c"
    "\<not> \<not> header_ok c"
    using b(1,3) n0 ok len by (auto simp: sendable_def)
  have "check_chunk payload ?c ?n ?d 48 = Some c"
    unfolding check_chunk_def Let_def upd name data blocks
    by (simp only: conds size fit b(5) if_False restored)
  with hdr len show ?thesis
    by (simp add: ParseTransferChunkPayload_def kFixedHeaderSize_def read_chunk_header_eq)
qed

subsection \<open>What parsing guarantees\<close>

text \<open>A chunk whose header is consistent with its data, in numbers.\<close>

definition chunk_fits :: "TransferChunk \<Rightarrow> bool" where
  "chunk_fits c \<longleftrightarrow>
     (let fs = unat (file_size c); cs = unat (chunk_size c); i = unat (chunk_index c); n = unat (total_chunks c) in
      0 < cs \<and> i < n \<and> n = (if fs = 0 then 1 else (fs + cs - 1) div cs) \<and> unat (chunk_start c) = i * cs \<and>
      length (chunk_data c) = min cs (fs - i * cs) \<and> i * cs + length (chunk_data c) \<le> fs \<and>
      has_file_name c = (i = 0) \<and> (is_last_chunk c \<longrightarrow> Suc i = n) \<and> transfer_id c \<noteq> 0)"

lemma unat_chunk_start: "unat (chunk_start c) = unat (chunk_index c) * unat (chunk_size c)"
proof -
  have "unat (chunk_index c) * unat (chunk_size c) \<le> (2 ^ 32 - 1) * (2 ^ 32 - 1)"
    using unat_bound [of "chunk_index c"] unat_bound [of "chunk_size c"] by (intro mult_le_mono) simp_all
  then show ?thesis by (simp add: chunk_start_def unat_word_ariths unat_ucast_32_64)
qed

lemma CalculateTotalChunks_nat:
  assumes "CalculateTotalChunks fs cs = ucast (n :: u32)" and "cs \<noteq> 0" and "n \<noteq> 0"
  shows "unat n = (if fs = 0 then 1 else (unat fs + unat cs - 1) div unat cs)"
proof (cases "fs = 0")
  case True
  with assms have "ucast n = (1 :: u64)" by (simp add: CalculateTotalChunks_def)
  then have "unat (ucast n :: u64) = 1" by simp
  with True show ?thesis by (simp add: unat_ucast_32_64)
next
  case False
  have cs: "0 < unat cs" "unat cs < 2 ^ 32" using assms(2) unat_bound [of cs] by (simp_all add: unat_gt_0)
  have fs: "unat fs < 2 ^ 64" using unat_bound [of fs] by simp
  have sum: "unat (fs + ucast cs - 1) = (unat fs + unat cs - 1) mod 2 ^ 64"
  proof -
    have "fs + ucast cs - 1 = of_nat (unat fs + unat cs - 1)" using cs by (simp add: of_nat_diff)
    then show ?thesis by (simp only: unat_of_nat) simp
  qed
  have q: "unat n = (unat fs + unat cs - 1) mod 2 ^ 64 div unat cs"
    using assms False sum by (metis CalculateTotalChunks_def unat_div unat_ucast_32_64)
  have "unat fs + unat cs - 1 < 2 ^ 64"
  proof (rule ccontr)
    assume "\<not> unat fs + unat cs - 1 < 2 ^ 64"
    then have "(unat fs + unat cs - 1) mod 2 ^ 64 = unat fs + unat cs - 1 - 2 ^ 64"
      using cs fs by (simp add: mod_if)
    also have "\<dots> < unat cs" using cs fs by linarith
    finally have "unat n = 0" using q by simp
    with assms(3) show False by (simp add: unat_eq_zero)
  qed
  with q False show ?thesis by simp
qed

lemma header_ok_fits:
  assumes "header_ok c" and "\<not> chunk_start c > file_size c"
    and "length (chunk_data c) = (if single_empty_chunk c then 0 else unat (expected_chunk_bytes c))"
  shows "chunk_fits c"
proof -
  from assms(1) have h: "transfer_id c \<noteq> 0" "chunk_size c \<noteq> 0" "total_chunks c \<noteq> 0" "chunk_index c < total_chunks c"
    "has_file_name c = (chunk_index c = 0)" "is_last_chunk c \<Longrightarrow> chunk_index c = total_chunks c - 1"
    "CalculateTotalChunks (file_size c) (chunk_size c) = ucast (total_chunks c)"
    by (auto simp: header_ok_def not_le)
  have start: "unat (chunk_index c) * unat (chunk_size c) \<le> unat (file_size c)"
    using assms(2) unat_chunk_start [of c] by (simp add: not_less word_le_nat_alt)
  have "unat (expected_chunk_bytes c) = min (unat (file_size c) - unat (chunk_index c) * unat (chunk_size c)) (unat (chunk_size c))"
    using assms(2) unat_chunk_start [of c]
    by (simp add: expected_chunk_bytes_def min_def unat_ucast_32_64 word_le_nat_alt unat_sub not_less)
  moreover have "unat (file_size c) = 0" if "single_empty_chunk c" using that by (simp add: single_empty_chunk_def)
  ultimately have len: "length (chunk_data c) = min (unat (chunk_size c)) (unat (file_size c) - unat (chunk_index c) * unat (chunk_size c))"
    using assms(3) by (simp add: min.commute)
  have last: "Suc (unat (chunk_index c)) = unat (total_chunks c)" if "is_last_chunk c"
  proof -
    have "unat (total_chunks c - 1) = unat (total_chunks c) - 1" using h(3) by (simp add: unat_sub word_le_nat_alt Suc_le_eq unat_gt_0)
    with h(6) [OF that] h(3) show ?thesis by (simp add: unat_gt_0)
  qed
  have zero: "(chunk_index c = 0) = (unat (chunk_index c) = 0)" by (simp add: unat_eq_zero)
  have fs0: "(file_size c = 0) = (unat (file_size c) = 0)" by (simp add: unat_eq_zero)
  show ?thesis
    unfolding chunk_fits_def Let_def
    using h(1,2,5) CalculateTotalChunks_nat [OF h(7,2,3)] h(4) len start last unat_chunk_start [of c] zero fs0
    by (auto simp: unat_gt_0 word_less_nat_alt)
qed

lemma check_chunk_spec:
  assumes "check_chunk payload c0 n d k = Some c"
  shows "chunk_fits c \<and> sendable c"
proof -
  let ?c1 = "c0\<lparr>file_name := block_at k (unat n) payload\<rparr>"
  let ?data = "block_at (k + unat n) (unat d) payload"
  from assms have f: "header_ok c0" "\<not> (has_file_name ?c1 \<and> ContainsPathTraversal (file_name ?c1))"
    "k + unat n + unat d = length payload" "\<not> chunk_start c0 > file_size c0"
    "\<not> (if single_empty_chunk c0 then d \<noteq> 0 \<or> \<not> is_last_chunk c0 else ucast d \<noteq> expected_chunk_bytes c0)"
    "ComputeChecksum ?data = chunk_checksum c0" and c: "c = ?c1\<lparr>chunk_data := ?data\<rparr>"
    by (simp_all add: check_chunk_def Let_def split: if_splits)
  have "length ?data = unat d" using f(3) by simp
  moreover have "unat d = (if single_empty_chunk c0 then 0 else unat (expected_chunk_bytes c0))"
    using f(5) by (auto simp: unat_ucast_32_64 [symmetric] split: if_splits)
  ultimately have "chunk_fits c" using f(1,4) by (intro header_ok_fits) (simp_all add: c)
  moreover have "sendable c" using f(2,5,6) by (auto simp: c sendable_def split: if_splits)
  ultimately show ?thesis by blast
qed

lemma parsed_chunk_spec:
  assumes "ParseTransferChunkPayload h payload = Some c"
  shows "chunk_fits c \<and> sendable c"
  using assms by (auto simp: ParseTransferChunkPayload_def bind_eq_Some_conv dest: check_chunk_spec split: if_splits)

subsection \<open>Properties\<close>

text \<open>C31: a chunk that is built is parsed back as it was, on hosts of any byte order, if its checksum is
  that of its data and its file name passes the path check.\<close>

theorem chunk_roundtrip:
  assumes "BuildTransferChunkPayload h c = Some payload" and "sendable c"
  shows "ParseTransferChunkPayload h' payload = Some c"
  by (rule parse_built [OF assms])

definition sample_chunk :: TransferChunk where
  "sample_chunk = \<lparr>transfer_id = 1, file_size = 3, chunk_size = 2, chunk_index = 0, total_chunks = 2,
     chunk_checksum = ComputeChecksum [7, 8], file_checksum = 0, has_file_name = True, is_last_chunk = False,
     file_name = [0x61], chunk_data = [7, 8]\<rparr>"

theorem chunk_roundtrip_witness:
  "\<exists>payload. BuildTransferChunkPayload BigEndian sample_chunk = Some payload \<and>
    ParseTransferChunkPayload LittleEndian payload = Some sample_chunk"
proof -
  have "\<exists>payload. BuildTransferChunkPayload BigEndian sample_chunk = Some payload"
    by (simp add: BuildTransferChunkPayload_def sample_chunk_def header_ok_def CalculateTotalChunks_def chunk_start_def
        expected_chunk_bytes_def single_empty_chunk_def)
  moreover have "sendable sample_chunk"
    by (simp add: sendable_def sample_chunk_def single_empty_chunk_def ContainsPathTraversal_def is_separator_def
        drive_path_def traversal_at_def)
  ultimately show ?thesis using chunk_roundtrip by blast
qed

text \<open>The path check, characterised by the components of the path: what it accepts is a relative path,
  not starting with a drive letter, of which no component ends with two dots and none but the first
  starts with them.  In particular no component of an accepted path is the parent directory.\<close>

theorem path_check_characterised:
  "(ContainsPathTraversal p \<longleftrightarrow> p = [] \<or> is_separator (p ! 0) \<or> drive_path p \<or>
      list_ex ends_dots (components p) \<or> list_ex starts_dots (tl (components p))) \<and>
   ([dot, dot] \<in> set (components p) \<longrightarrow> ContainsPathTraversal p)"
proof -
  have "ends_dots [dot, dot]" by (simp add: ends_dots_def)
  then show ?thesis using ContainsPathTraversal_iff [of p] by (auto simp: list_ex_iff)
qed

theorem path_check_characterised_witness:
  "[dot, dot] \<in> set (components [0x61, 0x5C, dot, dot]) \<and> ContainsPathTraversal [0x61, 0x5C, dot, dot]"
  using path_check_characterised [of "[0x61, 0x5C, dot, dot]"] by (auto simp: is_separator_def dot_def)

text \<open>C30: whatever bytes arrive, a chunk that is parsed is in bounds: it is one of the chunks a file of that
  size has, also where the sizes are so large that the computation of their number wraps around,
  its data is exactly the part of the file it stands for and ends within the file, its checksum is
  right and its file name, if it has one, passes the path check.\<close>

theorem parsed_chunk_in_bounds:
  assumes "ParseTransferChunkPayload h payload = Some c"
  shows "0 < unat (chunk_size c) \<and> unat (chunk_index c) < unat (total_chunks c) \<and>
    unat (total_chunks c) = (if unat (file_size c) = 0 then 1 else (unat (file_size c) + unat (chunk_size c) - 1) div unat (chunk_size c)) \<and>
    length (chunk_data c) = min (unat (chunk_size c)) (unat (file_size c) - unat (chunk_index c) * unat (chunk_size c)) \<and>
    unat (chunk_start c) + length (chunk_data c) \<le> unat (file_size c) \<and>
    ComputeChecksum (chunk_data c) = chunk_checksum c \<and> (has_file_name c \<longrightarrow> \<not> ContainsPathTraversal (file_name c))"
  using parsed_chunk_spec [OF assms] by (auto simp: chunk_fits_def sendable_def Let_def)

theorem parsed_chunk_in_bounds_witness:
  "\<exists>payload. ParseTransferChunkPayload LittleEndian payload = Some sample_chunk \<and>
    unat (chunk_start sample_chunk) + length (chunk_data sample_chunk) \<le> unat (file_size sample_chunk)"
proof -
  have "\<exists>payload. BuildTransferChunkPayload LittleEndian sample_chunk = Some payload"
    by (simp add: BuildTransferChunkPayload_def sample_chunk_def header_ok_def CalculateTotalChunks_def chunk_start_def
        expected_chunk_bytes_def single_empty_chunk_def)
  moreover have "sendable sample_chunk"
    by (simp add: sendable_def sample_chunk_def single_empty_chunk_def ContainsPathTraversal_def is_separator_def
        drive_path_def traversal_at_def)
  ultimately obtain payload where "ParseTransferChunkPayload LittleEndian payload = Some sample_chunk"
    using parse_built by blast
  with parsed_chunk_in_bounds [OF this] show ?thesis by blast
qed

end
