(* ===== verification/File_Write.thy ===== *)
theory File_Write
  imports Platform
begin

text \<open>
  Files and the two ways of writing them: \<^verbatim>\<open>base::File\<close> of \<^verbatim>\<open>src/znet/z_stl_compat.h\<close>, the handle with
  positional writes of \<^verbatim>\<open>src/znet/z_file_write_interface.cc\<close> and the memory-mapped one of
  \<^verbatim>\<open>src/znet/z_file_write_mmap.cc\<close>.

  The disk maps paths to contents; what the operating system answers to a call (whether a file can be
  opened, how many bytes of a write reach it, whether it can be flushed, resized, mapped or renamed) is
  the argument \<open>file_calls\<close>.  A stream keeps its error state as \<^verbatim>\<open>std::fstream\<close> does: after a failure
  every further operation on it fails.  Contents are those a reader sees once the writer has closed
  the file, so buffering does not show.
\<close>

type_synonym path = "byte list"

record disk =
  contents :: "path \<rightharpoonup> byte list"
  descriptors :: "int set"

record file_calls =
  opens :: "path \<Rightarrow> bool"
  stored :: "path \<Rightarrow> nat \<Rightarrow> nat"
  flushes :: "path \<Rightarrow> bool"
  open_fd :: "path \<Rightarrow> int"
  truncates :: "path \<Rightarrow> bool"
  memory_maps :: "path \<Rightarrow> bool"
  syncs :: "path \<Rightarrow> bool"
  renames :: "path \<Rightarrow> path \<Rightarrow> bool"

definition set_contents :: "path \<Rightarrow> byte list \<Rightarrow> disk \<Rightarrow> disk" where
  "set_contents p c d = d\<lparr>contents := (contents d)(p \<mapsto> c)\<rparr>"

text \<open>A write at an offset, which may be beyond the end: the gap reads as zeros.\<close>

definition patch :: "nat \<Rightarrow> byte list \<Rightarrow> byte list \<Rightarrow> byte list" where
  "patch off data c =
     (if data = [] then c
      else memcpy_at off data (c @ replicate (off + length data - length c) 0))"

definition patch_file :: "path \<Rightarrow> nat \<Rightarrow> byte list \<Rightarrow> disk \<Rightarrow> disk" where
  "patch_file p off data d = (case contents d p of None \<Rightarrow> d | Some c \<Rightarrow> set_contents p (patch off data c) d)"

subsection \<open>base::File\<close>

definition FLAG_OPEN :: int where "FLAG_OPEN = 1"
definition FLAG_READ :: int where "FLAG_READ = 2"
definition FLAG_WRITE :: int where "FLAG_WRITE = 4"
definition FLAG_CREATE_ALWAYS :: int where "FLAG_CREATE_ALWAYS = 8"

record File =
  stream_path :: path
  stream_open :: bool
  stream_fail :: bool
  stream_in :: bool
  stream_out :: bool
  stream_pos :: nat

text \<open>
  The constructor: \<^verbatim>\<open>in\<close> alone opens a file that exists, \<^verbatim>\<open>in\<close> and \<^verbatim>\<open>out\<close> too, \<^verbatim>\<open>out\<close> with or without
  \<^verbatim>\<open>trunc\<close> creates or empties it, \<^verbatim>\<open>trunc\<close> without \<^verbatim>\<open>out\<close> is not a mode.
\<close>

definition File_open :: "file_calls \<Rightarrow> path \<Rightarrow> int \<Rightarrow> disk \<Rightarrow> File \<times> disk" where
  "File_open E p flags d =
     (let rd = flags AND FLAG_READ \<noteq> 0;
          wr = flags AND FLAG_WRITE \<noteq> 0;
          tr = flags AND FLAG_CREATE_ALWAYS \<noteq> 0;
          file = \<lparr>stream_path = p, stream_open = True, stream_fail = False, stream_in = rd, stream_out = wr,
                  stream_pos = 0\<rparr>;
          closed = file\<lparr>stream_open := False, stream_fail := True\<rparr>
      in if (\<not> rd \<and> \<not> wr) \<or> (tr \<and> \<not> wr) \<or> \<not> opens E p then (closed, d)
         else if rd \<and> \<not> tr then (if contents d p = None then closed else file, d)
         else (file, set_contents p [] d))"

definition IsValid :: "File \<Rightarrow> bool" where
  "IsValid f = stream_open f"

definition file_content :: "File \<Rightarrow> disk \<Rightarrow> byte list" where
  "file_content f d = (case contents d (stream_path f) of None \<Rightarrow> [] | Some c \<Rightarrow> c)"

definition GetLength :: "File \<Rightarrow> disk \<Rightarrow> int" where
  "GetLength f d = (if stream_fail f \<or> \<not> stream_open f then -1 else int (length (file_content f d)))"

text \<open>
  \<^verbatim>\<open>Read\<close> seeks and reads; the number it returns is the length of the bytes.  A read that does not deliver
  all it was asked for leaves the stream failed.
\<close>

definition File_Read :: "int \<Rightarrow> int \<Rightarrow> disk \<Rightarrow> File \<Rightarrow> byte list \<times> File" where
  "File_Read offset count d f =
     (if stream_fail f \<or> \<not> stream_open f \<or> \<not> stream_in f \<or> offset < 0 then ([], f\<lparr>stream_fail := True\<rparr>)
      else
        let bytes = block_at (nat offset) (nat count) (file_content f d)
        in (bytes, f\<lparr>stream_pos := nat offset + length bytes, stream_fail := (int (length bytes) \<noteq> count)\<rparr>))"

definition stream_write :: "file_calls \<Rightarrow> byte list \<Rightarrow> File \<Rightarrow> disk \<Rightarrow> bool \<times> File \<times> disk" where
  "stream_write E data f d =
     (if stream_fail f \<or> \<not> stream_open f \<or> \<not> stream_out f then (False, f\<lparr>stream_fail := True\<rparr>, d)
      else
        let n = min (length data) (stored E (stream_path f) (stream_pos f));
            d = patch_file (stream_path f) (stream_pos f) (take n data) d
        in if n < length data then (False, f\<lparr>stream_fail := True\<rparr>, d)
           else (True, f\<lparr>stream_pos := stream_pos f + n\<rparr>, d))"

definition File_Write :: "file_calls \<Rightarrow> int \<Rightarrow> byte list \<Rightarrow> File \<Rightarrow> disk \<Rightarrow> int \<times> File \<times> disk" where
  "File_Write E offset data f d =
     (if stream_fail f \<or> offset < 0 then (-1, f\<lparr>stream_fail := True\<rparr>, d)
      else case stream_write E data (f\<lparr>stream_pos := nat offset\<rparr>) d of
        (ok, f, d) \<Rightarrow> (if ok then as_int (length data) else -1, f, d))"

definition WriteAtCurrentPos :: "file_calls \<Rightarrow> byte list \<Rightarrow> int \<Rightarrow> File \<Rightarrow> disk \<Rightarrow> int \<times> File \<times> disk" where
  "WriteAtCurrentPos E data count f d =
     (if count < 0 then (-1, f\<lparr>stream_fail := True\<rparr>, d)
      else case stream_write E (take (nat count) data) f d of (ok, f, d) \<Rightarrow> (if ok then count else -1, f, d))"

definition Flush :: "file_calls \<Rightarrow> File \<Rightarrow> bool \<times> File" where
  "Flush E f = (if stream_fail f \<or> \<not> stream_open f \<or> \<not> flushes E (stream_path f) then (False, f\<lparr>stream_fail := True\<rparr>)
                else (True, f))"

subsection \<open>The handles\<close>

datatype IFileWriteHandle =
    PositionalFileWriteHandle (positional_file: "File option")
  | MMapFileWriteHandle (mmap_fd: int) (mmap_mapping: "path option") (mmap_mapped_size: u64)

text \<open>The loop of the positional \<^verbatim>\<open>WriteAt\<close>.\<close>

function write_loop :: "file_calls \<Rightarrow> u64 \<Rightarrow> byte list \<Rightarrow> nat \<Rightarrow> File \<Rightarrow> disk \<Rightarrow> bool \<times> File \<times> disk" where
  "write_loop E offset data written f d =
     (if written < length data then
        case File_Write E (sint (offset + of_nat written)) (drop written data) f d of
          (wrote, f, d) \<Rightarrow>
            if wrote \<le> 0 then (False, f, d) else write_loop E offset data (written + nat wrote) f d
      else (True, f, d))"
  by pat_completeness auto
termination
  by (relation "measure (\<lambda>(E, offset, data, written, f, d). length data - written)") auto

declare write_loop.simps [simp del]

definition positional_WriteAt ::
  "file_calls \<Rightarrow> u64 \<Rightarrow> byte list \<Rightarrow> File option \<Rightarrow> disk \<Rightarrow> bool \<times> File option \<times> disk" where
  "positional_WriteAt E offset data file d =
     (case file of None \<Rightarrow> (False, None, d)
      | Some f \<Rightarrow> (case write_loop E offset data 0 f d of (ok, f, d) \<Rightarrow> (ok, Some f, d)))"

definition positional_FlushAndClose :: "file_calls \<Rightarrow> File option \<Rightarrow> bool \<times> File option" where
  "positional_FlushAndClose E file = (case file of None \<Rightarrow> (True, None) | Some f \<Rightarrow> (fst (Flush E f), None))"

definition mmap_WriteAt :: "u64 \<Rightarrow> byte list \<Rightarrow> path option \<Rightarrow> u64 \<Rightarrow> disk \<Rightarrow> bool \<times> disk" where
  "mmap_WriteAt offset data mapping mapped_size d =
     (if data = [] then (True, d)
      else case mapping of None \<Rightarrow> (False, d)
      | Some p \<Rightarrow>
          if offset > mapped_size then (False, d)
          else
            let remaining = mapped_size - offset in
            if length data > unat remaining then (False, d)
            else (True, patch_file p (unat offset) data d))"

definition mmap_Close :: "int \<Rightarrow> path option \<Rightarrow> u64 \<Rightarrow> disk \<Rightarrow> int \<times> path option \<times> u64 \<times> disk" where
  "mmap_Close fd mapping mapped_size d =
     (let (mapping, mapped_size) = (if mapping \<noteq> None then (None, 0) else (mapping, mapped_size));
          (fd, d) = (if fd \<ge> 0 then (-1, d\<lparr>descriptors := descriptors d - {fd}\<rparr>) else (fd, d))
      in (fd, mapping, mapped_size, d))"

definition mmap_synced :: "file_calls \<Rightarrow> path option \<Rightarrow> u64 \<Rightarrow> bool" where
  "mmap_synced E mapping mapped_size =
     (case mapping of None \<Rightarrow> True | Some p \<Rightarrow> if mapped_size > 0 then syncs E p else True)"

fun WriteAt ::
  "file_calls \<Rightarrow> u64 \<Rightarrow> byte list \<Rightarrow> IFileWriteHandle \<Rightarrow> disk \<Rightarrow> bool \<times> IFileWriteHandle \<times> disk" where
  "WriteAt E offset data (PositionalFileWriteHandle file) d =
     (case positional_WriteAt E offset data file d of (ok, file, d) \<Rightarrow> (ok, PositionalFileWriteHandle file, d))"
| "WriteAt E offset data (MMapFileWriteHandle fd mapping mapped_size) d =
     (case mmap_WriteAt offset data mapping mapped_size d of
        (ok, d) \<Rightarrow> (ok, MMapFileWriteHandle fd mapping mapped_size, d))"

fun CloseHandle :: "IFileWriteHandle \<Rightarrow> disk \<Rightarrow> IFileWriteHandle \<times> disk" where
  "CloseHandle (PositionalFileWriteHandle file) d = (PositionalFileWriteHandle None, d)"
| "CloseHandle (MMapFileWriteHandle fd mapping mapped_size) d =
     (case mmap_Close fd mapping mapped_size d of
        (fd, mapping, mapped_size, d) \<Rightarrow> (MMapFileWriteHandle fd mapping mapped_size, d))"

fun FlushAndClose :: "file_calls \<Rightarrow> IFileWriteHandle \<Rightarrow> disk \<Rightarrow> bool \<times> IFileWriteHandle \<times> disk" where
  "FlushAndClose E (PositionalFileWriteHandle file) d =
     (case positional_FlushAndClose E file of (ok, file) \<Rightarrow> (ok, PositionalFileWriteHandle file, d))"
| "FlushAndClose E (MMapFileWriteHandle fd mapping mapped_size) d =
     (let ok = mmap_synced E mapping mapped_size in
      case CloseHandle (MMapFileWriteHandle fd mapping mapped_size) d of (h, d) \<Rightarrow> (ok, h, d))"

text \<open>The destructors: the positional handle's closes its stream, the mapped one's calls \<^verbatim>\<open>Close\<close>.\<close>

definition destroy_handle :: "IFileWriteHandle \<Rightarrow> disk \<Rightarrow> disk" where
  "destroy_handle h d = snd (CloseHandle h d)"

subsection \<open>The factories\<close>

datatype IFileWriteFactory = PositionalFileWriteFactory | MemoryMappedFileWriteFactory

definition positional_Open :: "file_calls \<Rightarrow> path \<Rightarrow> disk \<Rightarrow> IFileWriteHandle option \<times> disk" where
  "positional_Open E p d =
     (case File_open E p (FLAG_CREATE_ALWAYS OR FLAG_WRITE) d of
        (file, d) \<Rightarrow> if \<not> IsValid file then (None, d) else (Some (PositionalFileWriteHandle (Some file)), d))"

definition close_fd :: "int \<Rightarrow> disk \<Rightarrow> disk" where
  "close_fd fd d = d\<lparr>descriptors := descriptors d - {fd}\<rparr>"

definition off_t_max :: u64 where "off_t_max = 2 ^ 63 - 1"

definition mmap_Open :: "file_calls \<Rightarrow> path \<Rightarrow> u64 \<Rightarrow> disk \<Rightarrow> IFileWriteHandle option \<times> disk" where
  "mmap_Open E p expected_size d =
     (let fd = open_fd E p in
      if fd < 0 then (None, d)
      else
        let d = (set_contents p [] d)\<lparr>descriptors := insert fd (descriptors d)\<rparr> in
        if expected_size > off_t_max then (None, close_fd fd d)
        else if \<not> truncates E p then (None, close_fd fd d)
        else
          let d = set_contents p (replicate (unat expected_size) 0) d in
          if expected_size = 0 then (Some (MMapFileWriteHandle fd None 0), d)
          else if \<not> memory_maps E p then (None, close_fd fd d)
          else (Some (MMapFileWriteHandle fd (Some p) expected_size), d))"

fun Open :: "IFileWriteFactory \<Rightarrow> file_calls \<Rightarrow> path \<Rightarrow> u64 \<Rightarrow> disk \<Rightarrow> IFileWriteHandle option \<times> disk" where
  "Open PositionalFileWriteFactory E p expected_size d = positional_Open E p d"
| "Open MemoryMappedFileWriteFactory E p expected_size d = mmap_Open E p expected_size d"

definition GetDefaultFileWriteFactory :: IFileWriteFactory where
  "GetDefaultFileWriteFactory = PositionalFileWriteFactory"

definition GetMemoryMappedFileWriteFactory :: IFileWriteFactory where
  "GetMemoryMappedFileWriteFactory = MemoryMappedFileWriteFactory"

subsection \<open>Parts of a file\<close>

text \<open>Contents that agree with a file on some of its bytes and do not go beyond it.\<close>

definition has_part :: "byte list \<Rightarrow> byte list \<Rightarrow> nat set \<Rightarrow> bool" where
  "has_part F c S \<longleftrightarrow> length c \<le> length F \<and> (\<forall>i \<in> S. i < length c \<and> c ! i = F ! i)"

lemma length_patch:
  "length (patch off data c) = (if data = [] then length c else max (length c) (off + length data))"
  by (simp add: patch_def max_def)

lemma nth_patch:
  assumes "i < length (patch off data c)"
  shows "patch off data c ! i =
    (if off \<le> i \<and> i < off + length data then data ! (i - off) else if i < length c then c ! i else 0)"
proof (cases "data = []")
  case False
  then have "i < length (c @ replicate (off + length data - length c) 0)"
    using assms by (auto simp: length_patch max_def split: if_splits)
  with False show ?thesis by (auto simp: patch_def nth_memcpy_at nth_append)
qed (use assms in \<open>auto simp: patch_def\<close>)

lemma has_part_patch:
  assumes "has_part F c S" and "data = block_at off n F" and "off + n \<le> length F"
  shows "has_part F (patch off data c) (S \<union> {off..<off + n})"
proof -
  have len: "length data = n" using assms(2,3) by simp
  have nth: "data ! j = F ! (off + j)" if "j < n" for j
    using that assms(2,3) by (simp add: block_at_def)
  have "length (patch off data c) \<le> length F" using assms len by (simp add: length_patch has_part_def)
  moreover have "i < length (patch off data c) \<and> patch off data c ! i = F ! i" if "i \<in> S \<union> {off..<off + n}" for i
  proof -
    have i: "i < length (patch off data c)"
      using that assms(1) len by (auto simp: length_patch has_part_def less_max_iff_disj)
    show ?thesis
    proof (cases "off \<le> i \<and> i < off + n")
      case True
      then have "i - off < n" "off + (i - off) = i" by auto
      with nth [of "i - off"] have "data ! (i - off) = F ! i" by simp
      with True i len show ?thesis by (simp add: nth_patch)
    next
      case False
      with that assms(1) i len show ?thesis by (auto simp: nth_patch has_part_def)
    qed
  qed
  ultimately show ?thesis by (simp add: has_part_def)
qed

lemma has_part_empty: "length c \<le> length F \<Longrightarrow> has_part F c {}"
  by (simp add: has_part_def)

lemma has_part_all: "has_part F c {..<length F} \<Longrightarrow> c = F"
  by (metis has_part_def le_antisym lessThan_iff linorder_not_le nth_equalityI order.irrefl)

lemma has_part_subset: "has_part F c S \<Longrightarrow> T \<subseteq> S \<Longrightarrow> has_part F c T"
  by (auto simp: has_part_def)

subsection \<open>The interface\<close>

text \<open>Writing one piece after the other, until one fails.\<close>

fun write_each :: "(u64 \<Rightarrow> byte list \<Rightarrow> 'h \<Rightarrow> disk \<Rightarrow> bool \<times> 'h \<times> disk) \<Rightarrow> (u64 \<times> byte list) list \<Rightarrow> 'h \<Rightarrow> disk \<Rightarrow> bool \<times> 'h \<times> disk" where
  "write_each w [] h d = (True, h, d)"
| "write_each w ((off, data) # ps) h d =
     (case w off data h d of (ok, h, d) \<Rightarrow> if ok then write_each w ps h d else (False, h, d))"

definition piece_of :: "byte list \<Rightarrow> u64 \<times> byte list \<Rightarrow> bool" where
  "piece_of F = (\<lambda>(off, data). unat off + length data \<le> length F \<and> data = block_at (unat off) (length data) F \<and>
     length data < 2 ^ 31)"

definition covered :: "(u64 \<times> byte list) list \<Rightarrow> nat set" where
  "covered ps = (\<Union>(off, data) \<in> set ps. {unat off..<unat off + length data})"

lemma covered_Cons: "covered ((off, data) # ps) = {unat off..<unat off + length data} \<union> covered ps"
  by (simp add: covered_def)

text \<open>
  What a client of \<^verbatim>\<open>IFileWriteFactory\<close> and \<^verbatim>\<open>IFileWriteHandle\<close> relies on.  \<open>writes p s h\<close>: the handle is open
  on the path, without error, for a file of \<open>s\<close> bytes; \<open>on_path\<close>: it refers to no other path; \<open>owned\<close>: the
  descriptors it holds; \<open>room\<close>: the operating system accepts what is written to the path.
\<close>

locale file_writer =
  fixes open_file :: "file_calls \<Rightarrow> path \<Rightarrow> u64 \<Rightarrow> disk \<Rightarrow> 'h option \<times> disk"
    and write_at :: "file_calls \<Rightarrow> u64 \<Rightarrow> byte list \<Rightarrow> 'h \<Rightarrow> disk \<Rightarrow> bool \<times> 'h \<times> disk"
    and flush_close :: "file_calls \<Rightarrow> 'h \<Rightarrow> disk \<Rightarrow> bool \<times> 'h \<times> disk"
    and close_it :: "'h \<Rightarrow> disk \<Rightarrow> 'h \<times> disk"
    and writes :: "path \<Rightarrow> u64 \<Rightarrow> 'h \<Rightarrow> bool"
    and on_path :: "path \<Rightarrow> 'h \<Rightarrow> bool"
    and owned :: "'h \<Rightarrow> int set"
    and room :: "file_calls \<Rightarrow> path \<Rightarrow> bool"
  assumes open_ok: "open_file E p s d = (Some h, d') \<Longrightarrow>
      writes p s h \<and> (\<exists>c. length c \<le> unat s \<and> contents d' = (contents d)(p \<mapsto> c))"
    and open_frame: "open_file E p s d = (r, d') \<Longrightarrow> q \<noteq> p \<Longrightarrow> contents d' q = contents d q"
    and open_owned: "open_file E p s d = (r, d') \<Longrightarrow> open_fd E p \<notin> descriptors d \<Longrightarrow>
      descriptors d' = descriptors d \<union> (case r of None \<Rightarrow> {} | Some h \<Rightarrow> owned h) \<and>
      (\<forall>h. r = Some h \<longrightarrow> owned h \<inter> descriptors d = {})"
    and writes_on: "writes p s h \<Longrightarrow> on_path p h"
    and write_ok: "writes p s h \<Longrightarrow> contents d p = Some c \<Longrightarrow> unat off + length data \<le> unat s \<Longrightarrow>
      length data < 2 ^ 32 \<Longrightarrow> write_at E off data h d = (True, h', d') \<Longrightarrow>
      writes p s h' \<and> contents d' = (contents d)(p \<mapsto> patch (unat off) data c)"
    and write_serves: "writes p s h \<Longrightarrow> room E p \<Longrightarrow> unat s < 2 ^ 63 \<Longrightarrow> unat off + length data \<le> unat s \<Longrightarrow>
      length data < 2 ^ 31 \<Longrightarrow> fst (write_at E off data h d)"
    and write_frame: "on_path p h \<Longrightarrow> write_at E off data h d = (ok, h', d') \<Longrightarrow>
      on_path p h' \<and> owned h' = owned h \<and> descriptors d' = descriptors d \<and>
      (\<forall>q. q \<noteq> p \<longrightarrow> contents d' q = contents d q)"
    and flush_frame: "flush_close E h d = (ok, h', d') \<Longrightarrow>
      contents d' = contents d \<and> descriptors d' = descriptors d - owned h \<and> owned h' = {}"
    and flush_serves: "writes p s h \<Longrightarrow> room E p \<Longrightarrow> fst (flush_close E h d)"
    and close_frame: "close_it h d = (h', d') \<Longrightarrow>
      contents d' = contents d \<and> descriptors d' = descriptors d - owned h \<and> owned h' = {}"
begin

lemma write_piece:
  assumes "writes p s h" and "contents d p = Some c" and "has_part F c S" and "length F = unat s"
    and "piece_of F (off, data)" and "write_at E off data h d = (True, h', d')"
  shows "writes p s h' \<and> (\<exists>c'. contents d' = (contents d)(p \<mapsto> c') \<and> has_part F c' (S \<union> {unat off..<unat off + length data}))"
proof -
  from assms(5) have piece: "unat off + length data \<le> length F" "data = block_at (unat off) (length data) F" "length data < 2 ^ 31"
    by (simp_all add: piece_of_def)
  have "writes p s h' \<and> contents d' = (contents d)(p \<mapsto> patch (unat off) data c)"
    using write_ok [OF assms(1,2) _ _ assms(6)] piece assms(4) by simp
  with has_part_patch [OF assms(3) piece(2,1)] show ?thesis by blast
qed

lemma write_each_part:
  assumes "writes p s h" and "contents d p = Some c" and "has_part F c S" and "length F = unat s"
    and "list_all (piece_of F) ps" and "write_each (write_at E) ps h d = (True, h', d')"
  shows "writes p s h' \<and> descriptors d' = descriptors d \<and> owned h' = owned h \<and>
    (\<exists>c'. contents d' = (contents d)(p \<mapsto> c') \<and> has_part F c' (S \<union> covered ps))"
  using assms(1-3,5,6)
proof (induction ps arbitrary: h d c S)
  case Nil
  then have "contents d = (contents d)(p \<mapsto> c)" by (simp add: map_upd_triv)
  with Nil show ?case by (auto simp: covered_def simp del: fun_upd_apply)
next
  case (Cons a ps)
  obtain off data where a: "a = (off, data)" by (cases a)
  obtain ok h1 d1 where w: "write_at E off data h d = (ok, h1, d1)" by (cases "write_at E off data h d")
  with Cons.prems(5) a have ok: "ok" and rest: "write_each (write_at E) ps h1 d1 = (True, h', d')"
    by (auto split: if_splits)
  obtain c1 where step: "writes p s h1" "contents d1 = (contents d)(p \<mapsto> c1)"
      "has_part F c1 (S \<union> {unat off..<unat off + length data})"
    using write_piece [OF Cons.prems(1-3) assms(4), of off data E h1 d1] w ok a Cons.prems(4) by auto
  have keep: "descriptors d1 = descriptors d" "owned h1 = owned h"
    using write_frame [OF writes_on [OF Cons.prems(1)] w] by auto
  show ?case
    using Cons.IH [OF step(1) _ step(3) _ rest] step(2) keep Cons.prems(4)
    by (auto simp: a covered_Cons Un_assoc simp del: fun_upd_apply simp: fun_upd_same)
qed

lemma write_each_serves:
  assumes "writes p s h" and "contents d p = Some c" and "room E p" and "unat s < 2 ^ 63" and "length F = unat s"
    and "list_all (piece_of F) ps"
  shows "fst (write_each (write_at E) ps h d)"
  using assms(1,2,6)
proof (induction ps arbitrary: h d c)
  case (Cons a ps)
  obtain off data where a: "a = (off, data)" by (cases a)
  with Cons.prems(3) assms(5) have piece: "unat off + length data \<le> unat s" "length data < 2 ^ 31"
    by (auto simp: piece_of_def)
  obtain ok h1 d1 where w: "write_at E off data h d = (ok, h1, d1)" by (cases "write_at E off data h d")
  with write_serves [OF Cons.prems(1) assms(3,4) piece, of d] have ok: "ok" by simp
  have "writes p s h1 \<and> contents d1 = (contents d)(p \<mapsto> patch (unat off) data c)"
    using write_ok [OF Cons.prems(1,2) piece(1)] piece(2) w ok by simp
  then show ?case using Cons.IH Cons.prems(3) w ok by (simp add: a)
qed simp

lemma whole_file:
  assumes opened: "open_file E p s d = (Some h, d1)" and fresh: "open_fd E p \<notin> descriptors d" and len: "length F = unat s"
    and pieces: "list_all (piece_of F) ps" "{..<length F} \<subseteq> covered ps"
    and written: "write_each (write_at E) ps h d1 = (True, h2, d2)" and closed: "flush_close E h2 d2 = (ok, h3, d3)"
  shows "contents d3 = (contents d)(p \<mapsto> F) \<and> descriptors d3 = descriptors d"
proof -
  obtain c where o: "writes p s h" "length c \<le> length F" "contents d1 = (contents d)(p \<mapsto> c)"
    using open_ok [OF opened] len by auto
  obtain c' where w: "descriptors d2 = descriptors d1" "owned h2 = owned h"
      "contents d2 = (contents d1)(p \<mapsto> c')" "has_part F c' ({} \<union> covered ps)"
    using write_each_part [OF o(1) _ has_part_empty [OF o(2)] len pieces(1) written] o(3) by auto
  have "c' = F" using has_part_subset [OF w(4)] pieces(2) by (intro has_part_all) simp
  then show ?thesis
    using flush_frame [OF closed] open_owned [OF opened fresh] w o(3) by auto
qed

lemma whole_file_served:
  assumes "open_file E p s d = (Some h, d1)" and "room E p" and "unat s < 2 ^ 63" and "length F = unat s"
    and "list_all (piece_of F) ps"
  shows "\<exists>h2 d2 h3 d3. write_each (write_at E) ps h d1 = (True, h2, d2) \<and> flush_close E h2 d2 = (True, h3, d3)"
proof -
  obtain c where o: "writes p s h" "length c \<le> length F" "contents d1 p = Some c"
    using open_ok [OF assms(1)] assms(4) by auto
  obtain h2 d2 where w: "write_each (write_at E) ps h d1 = (True, h2, d2)"
    using write_each_serves [OF o(1,3) assms(2-5)] by (cases "write_each (write_at E) ps h d1") auto
  then have "writes p s h2" using write_each_part [OF o(1,3) has_part_empty [OF o(2)] assms(4,5)] by blast
  then have "fst (flush_close E h2 d2)" by (rule flush_serves [OF _ assms(2)])
  with w show ?thesis by (cases "flush_close E h2 d2") auto
qed

end

subsection \<open>The two implementations\<close>

definition positional_writes :: "path \<Rightarrow> u64 \<Rightarrow> IFileWriteHandle \<Rightarrow> bool" where
  "positional_writes p s h = (case h of
     PositionalFileWriteHandle (Some f) \<Rightarrow> stream_path f = p \<and> stream_open f \<and> stream_out f \<and> \<not> stream_fail f
   | _ \<Rightarrow> False)"

definition mmap_writes :: "path \<Rightarrow> u64 \<Rightarrow> IFileWriteHandle \<Rightarrow> bool" where
  "mmap_writes p s h = (case h of
     MMapFileWriteHandle fd m n \<Rightarrow> m = (if s = 0 then None else Some p) \<and> n = s
   | _ \<Rightarrow> False)"

definition handle_on :: "path \<Rightarrow> IFileWriteHandle \<Rightarrow> bool" where
  "handle_on p h = (case h of
     PositionalFileWriteHandle file \<Rightarrow> (\<forall>f. file = Some f \<longrightarrow> stream_path f = p)
   | MMapFileWriteHandle fd m n \<Rightarrow> (\<forall>q. m = Some q \<longrightarrow> q = p))"

definition handle_descriptors :: "IFileWriteHandle \<Rightarrow> int set" where
  "handle_descriptors h = (case h of
     PositionalFileWriteHandle file \<Rightarrow> {}
   | MMapFileWriteHandle fd m n \<Rightarrow> if fd \<ge> 0 then {fd} else {})"

definition accepts :: "file_calls \<Rightarrow> path \<Rightarrow> bool" where
  "accepts E p \<longleftrightarrow> (\<forall>off. 2 ^ 32 \<le> stored E p off) \<and> flushes E p \<and> syncs E p"

lemma patch_file_frame:
  "descriptors (patch_file p off data d) = descriptors d"
  "q \<noteq> p \<Longrightarrow> contents (patch_file p off data d) q = contents d q"
  "contents d p = Some c \<Longrightarrow> contents (patch_file p off data d) = (contents d)(p \<mapsto> patch off data c)"
  by (auto simp: patch_file_def set_contents_def split: option.split)

lemma sint_as_uint: "sint (w :: u64) = (if uint w < 2 ^ 63 then uint w else uint w - 2 ^ 64)"
proof -
  have "sint w = (uint w + 2 ^ 63) mod 2 ^ 64 - 2 ^ 63"
    using int_word_sint [where 'a = 64, of "uint w"] by simp
  also have "\<dots> = (if uint w < 2 ^ 63 then uint w else uint w - 2 ^ 64)"
  proof (cases "uint w < 2 ^ 63")
    case True
    then have "(uint w + 2 ^ 63) mod 2 ^ 64 = uint w + 2 ^ 63" by (intro mod_pos_pos_trivial) simp_all
    with True show ?thesis by simp
  next
    case False
    have "(uint w + 2 ^ 63) mod 2 ^ 64 = (uint w + 2 ^ 63 - 2 ^ 64) mod 2 ^ 64" by (rule minus_mod_self2 [symmetric])
    also have "\<dots> = uint w - 2 ^ 63"
      using False uint_lt2p [of w] by (subst mod_pos_pos_trivial) simp_all
    finally show ?thesis using False by simp
  qed
  finally show ?thesis .
qed

lemma nat_sint:
  assumes "0 \<le> sint (w :: u64)"
  shows "nat (sint w) = unat w"
proof -
  have "uint w < 2 ^ 64" using uint_lt2p [of w] by simp
  with assms have "uint w < 2 ^ 63" by (simp only: sint_as_uint split: if_splits)
  then have "sint w = uint w" by (simp only: sint_as_uint if_True)
  then show ?thesis by simp
qed

lemma sint_unat:
  assumes "unat (w :: u64) < 2 ^ 63"
  shows "sint w = uint w"
proof -
  have "int (unat w) < int (2 ^ 63)" using assms by (simp only: of_nat_less_iff)
  then have "uint w < 2 ^ 63" by simp
  then show ?thesis by (simp only: sint_as_uint if_True)
qed

lemma stream_write_frame:
  assumes "stream_write E data f d = (ok, f', d')"
  shows "stream_path f' = stream_path f \<and> stream_open f' = stream_open f \<and> stream_out f' = stream_out f \<and>
    descriptors d' = descriptors d \<and> (\<forall>q. q \<noteq> stream_path f \<longrightarrow> contents d' q = contents d q)"
  using assms by (auto simp: stream_write_def Let_def patch_file_frame split: if_splits)

lemma File_Write_frame:
  assumes "File_Write E off data f d = (n, f', d')"
  shows "stream_path f' = stream_path f \<and> stream_open f' = stream_open f \<and> stream_out f' = stream_out f \<and>
    descriptors d' = descriptors d \<and> (\<forall>q. q \<noteq> stream_path f \<longrightarrow> contents d' q = contents d q)"
  using assms by (fastforce simp: File_Write_def split: if_splits prod.splits dest: stream_write_frame)

lemma write_loop_frame:
  "write_loop E off data w f d = (ok, f', d') \<Longrightarrow>
   stream_path f' = stream_path f \<and> descriptors d' = descriptors d \<and>
   (\<forall>q. q \<noteq> stream_path f \<longrightarrow> contents d' q = contents d q)"
proof (induction E off data w f d arbitrary: ok f' d' rule: write_loop.induct)
  case (1 E off data w f d)
  obtain n f1 d1 where w: "File_Write E (sint (off + of_nat w)) (drop w data) f d = (n, f1, d1)"
    by (cases "File_Write E (sint (off + of_nat w)) (drop w data) f d")
  show ?case
    using "1.prems" "1.IH" [OF _ w [symmetric] refl] File_Write_frame [OF w] w
    by (subst (asm) write_loop.simps) (auto split: if_splits)
qed

text \<open>A write of less than \<open>2 ^ 31\<close> bytes is one turn of the loop; a longer one of less than \<open>2 ^ 32\<close> fails.\<close>

lemma as_int_large:
  assumes "2 ^ 31 \<le> n" and "n < 2 ^ 32"
  shows "as_int n < 0"
proof -
  have "as_int n = (int n + 2 ^ 31) mod 2 ^ 32 - 2 ^ 31"
    using int_word_sint [where 'a = 32, of "int n"] by (simp add: as_int_def)
  also have "(int n + 2 ^ 31) mod 2 ^ 32 = (int n + 2 ^ 31 - 2 ^ 32) mod 2 ^ 32" by (rule minus_mod_self2 [symmetric])
  also have "\<dots> = int n - 2 ^ 31" using assms by (subst mod_pos_pos_trivial) simp_all
  finally show ?thesis using assms by simp
qed

lemma write_loop_True:
  assumes ok: "write_loop E off data 0 f d = (True, f', d')" and len: "length data < 2 ^ 32"
    and f: "stream_open f" "stream_out f" "\<not> stream_fail f" and c: "contents d (stream_path f) = Some c"
    and fits: "unat off + length data < 2 ^ 64"
  shows "stream_path f' = stream_path f \<and> stream_open f' \<and> stream_out f' \<and> \<not> stream_fail f' \<and>
    contents d' = (contents d)(stream_path f \<mapsto> patch (unat off) data c)"
proof (cases "data = []")
  case True
  then show ?thesis using ok f c by (simp add: write_loop.simps patch_def map_upd_triv)
next
  case False
  obtain n f1 d1 where w: "File_Write E (sint off) data f d = (n, f1, d1)" by (cases "File_Write E (sint off) data f d")
  with ok False have n: "0 < n" by (subst (asm) write_loop.simps) (auto split: if_splits)
  with w f have pos: "0 \<le> sint off" and sw: "stream_write E data (f\<lparr>stream_pos := nat (sint off)\<rparr>) d = (True, f1, d1)"
      and size: "n = as_int (length data)"
    by (auto simp: File_Write_def split: if_splits prod.splits)
  have small: "length data < 2 ^ 31" using n size as_int_large [OF _ len] by (meson linorder_not_less not_less_iff_gr_or_eq)
  have turn: "write_loop E off data (0 + nat n) f1 d1 = (True, f1, d1)"
    using small size by (simp add: as_int_small write_loop.simps)
  have res: "f' = f1" "d' = d1"
    using ok w n False turn by (subst (asm) write_loop.simps, simp)+
  have "nat (sint off) = unat off" using pos by (rule nat_sint)
  then show ?thesis using sw f c res by (auto simp: stream_write_def Let_def patch_file_frame split: if_splits)
qed

lemma write_loop_serves:
  assumes "accepts E (stream_path f)" and "stream_open f" "stream_out f" "\<not> stream_fail f"
    and "unat off < 2 ^ 63" and "length data < 2 ^ 31"
  shows "fst (write_loop E off data 0 f d)"
proof (cases "data = []")
  case True
  then show ?thesis by (simp add: write_loop.simps)
next
  case False
  have pos: "sint off = uint off" using assms(5) by (rule sint_unat)
  have "2 ^ 32 \<le> stored E (stream_path f) (unat off)" using assms(1) by (simp add: accepts_def)
  then have n: "min (length data) (stored E (stream_path f) (unat off)) = length data" using assms(6) by simp
  obtain f1 d1 where w: "File_Write E (sint off) data f d = (int (length data), f1, d1)"
    using assms(2-4,6) pos n by (simp add: File_Write_def stream_write_def Let_def as_int_small)
  show ?thesis using False w by (subst write_loop.simps) (simp add: write_loop.simps)
qed

lemma handle_flush:
  assumes "FlushAndClose E h d = (ok, h', d')"
  shows "contents d' = contents d \<and> descriptors d' = descriptors d - handle_descriptors h \<and> handle_descriptors h' = {}"
  using assms by (cases h) (auto simp: handle_descriptors_def mmap_Close_def Let_def split: prod.splits if_splits)

lemma handle_close:
  assumes "CloseHandle h d = (h', d')"
  shows "contents d' = contents d \<and> descriptors d' = descriptors d - handle_descriptors h \<and> handle_descriptors h' = {}"
  using assms by (cases h) (auto simp: handle_descriptors_def mmap_Close_def Let_def split: prod.splits if_splits)

lemma handle_write_frame:
  assumes "handle_on p h" and "WriteAt E off data h d = (ok, h', d')"
  shows "handle_on p h' \<and> handle_descriptors h' = handle_descriptors h \<and> descriptors d' = descriptors d \<and>
    (\<forall>q. q \<noteq> p \<longrightarrow> contents d' q = contents d q)"
proof (cases h)
  case (PositionalFileWriteHandle x)
  then show ?thesis using assms
    by (auto simp: handle_on_def handle_descriptors_def positional_WriteAt_def dest!: write_loop_frame
        split: option.splits prod.splits)
next
  case (MMapFileWriteHandle fd m n)
  then show ?thesis using assms
    by (auto simp: handle_on_def handle_descriptors_def mmap_WriteAt_def Let_def patch_file_frame
        split: option.splits prod.splits if_splits)
qed

lemma positional_write:
  assumes "positional_writes p s h" and "contents d p = Some c" and "unat off + length data \<le> unat s"
    and "length data < 2 ^ 32" and "WriteAt E off data h d = (True, h', d')"
  shows "positional_writes p s h' \<and> contents d' = (contents d)(p \<mapsto> patch (unat off) data c)"
proof -
  obtain f where f: "h = PositionalFileWriteHandle (Some f)" "stream_path f = p" "stream_open f" "stream_out f" "\<not> stream_fail f"
    using assms(1) by (auto simp: positional_writes_def split: IFileWriteHandle.splits option.splits)
  obtain f' where w: "write_loop E off data 0 f d = (True, f', d')" "h' = PositionalFileWriteHandle (Some f')"
    using assms(5) f(1) by (auto simp: positional_WriteAt_def split: prod.splits)
  have "unat off + length data < 2 ^ 64" using assms(3) unat_bound [of s] by simp
  then show ?thesis
    using write_loop_True [OF w(1) assms(4) f(3-5)] f(2) assms(2) w(2) by (simp add: positional_writes_def)
qed

lemma mmap_write:
  assumes "mmap_writes p s h" and "unat off + length data \<le> unat s"
  shows "WriteAt E off data h d = (True, h, if data = [] then d else patch_file p (unat off) data d)"
proof -
  obtain fd m where h: "h = MMapFileWriteHandle fd m s" and m: "m = (if s = 0 then None else Some p)"
    using assms(1) by (auto simp: mmap_writes_def split: IFileWriteHandle.splits)
  show ?thesis
  proof (cases "data = []")
    case False
    then have s: "s \<noteq> 0" using assms(2) by auto
    have "off \<le> s" "unat (s - off) = unat s - unat off" using assms(2) by (simp_all add: word_le_nat_alt unat_sub)
    with s False assms(2) h m show ?thesis by (simp add: mmap_WriteAt_def Let_def not_less)
  qed (simp add: h mmap_WriteAt_def)
qed

interpretation positional: file_writer "Open PositionalFileWriteFactory" WriteAt FlushAndClose CloseHandle
  positional_writes handle_on handle_descriptors accepts
proof (unfold_locales, goal_cases)
  case (1 E p s d h d')
  then show ?case
    by (auto simp: positional_Open_def File_open_def Let_def IsValid_def positional_writes_def set_contents_def
        FLAG_CREATE_ALWAYS_def FLAG_WRITE_def FLAG_READ_def intro!: exI [of _ "[]"] split: if_splits)
next
  case (2 E p s d r d' q)
  then show ?case by (auto simp: positional_Open_def File_open_def Let_def set_contents_def split: if_splits)
next
  case (3 E p s d r d')
  then show ?case
    by (auto simp: positional_Open_def File_open_def Let_def set_contents_def handle_descriptors_def split: if_splits)
next
  case (4 p s h)
  then show ?case by (auto simp: positional_writes_def handle_on_def split: IFileWriteHandle.splits option.splits)
next
  case (5 p s h d c off data E h' d')
  then show ?case by (rule positional_write)
next
  case (6 p s h E off data d)
  then obtain f where f: "h = PositionalFileWriteHandle (Some f)" "stream_path f = p" "stream_open f" "stream_out f" "\<not> stream_fail f"
    by (auto simp: positional_writes_def split: IFileWriteHandle.splits option.splits)
  then have "fst (write_loop E off data 0 f d)" using 6 by (intro write_loop_serves) simp_all
  with f(1) show ?case by (auto simp: positional_WriteAt_def split: prod.splits)
next
  case (7 p h E off data d ok h' d')
  then show ?case by (rule handle_write_frame)
next
  case (8 E h d ok h' d')
  then show ?case by (rule handle_flush)
next
  case (9 p s h E d)
  then show ?case
    by (auto simp: positional_writes_def positional_FlushAndClose_def Flush_def accepts_def
        split: IFileWriteHandle.splits option.splits)
next
  case (10 h d h' d')
  then show ?case by (rule handle_close)
qed

interpretation mapped: file_writer "Open MemoryMappedFileWriteFactory" WriteAt FlushAndClose CloseHandle
  mmap_writes handle_on handle_descriptors accepts
proof (unfold_locales, goal_cases)
  case (1 E p s d h d')
  then show ?case
    by (auto simp: mmap_Open_def Let_def mmap_writes_def set_contents_def
        intro!: exI [of _ "replicate (unat s) 0"] split: if_splits)
next
  case (2 E p s d r d' q)
  then show ?case by (auto simp: mmap_Open_def Let_def set_contents_def close_fd_def split: if_splits)
next
  case (3 E p s d r d')
  then show ?case
    by (auto simp: mmap_Open_def Let_def set_contents_def close_fd_def handle_descriptors_def split: if_splits)
next
  case (4 p s h)
  then show ?case by (auto simp: mmap_writes_def handle_on_def split: IFileWriteHandle.splits if_splits)
next
  case (5 p s h d c off data E h' d')
  then show ?case using mmap_write [of p s h off data E d]
    by (auto simp: patch_file_frame patch_def map_upd_triv split: if_splits)
next
  case (6 p s h E off data d)
  then show ?case using mmap_write [of p s h off data E d] by simp
next
  case (7 p h E off data d ok h' d')
  then show ?case by (rule handle_write_frame)
next
  case (8 E h d ok h' d')
  then show ?case by (rule handle_flush)
next
  case (9 p s h E d)
  then show ?case
    by (auto simp: mmap_writes_def mmap_synced_def mmap_Close_def Let_def accepts_def
        split: IFileWriteHandle.splits option.splits if_splits)
next
  case (10 h d h' d')
  then show ?case by (rule handle_close)
qed

text \<open>Both laws at once, for whichever factory a client was given.\<close>

definition handle_writes :: "IFileWriteFactory \<Rightarrow> path \<Rightarrow> u64 \<Rightarrow> IFileWriteHandle \<Rightarrow> bool" where
  "handle_writes G = (case G of PositionalFileWriteFactory \<Rightarrow> positional_writes | MemoryMappedFileWriteFactory \<Rightarrow> mmap_writes)"

interpretation any_writer: file_writer "Open G" WriteAt FlushAndClose CloseHandle
  "handle_writes G" handle_on handle_descriptors accepts for G
proof (cases G)
  case PositionalFileWriteFactory
  then show "file_writer (Open G) WriteAt FlushAndClose CloseHandle (handle_writes G) handle_on handle_descriptors accepts"
    using positional.file_writer_axioms by (simp add: handle_writes_def)
next
  case MemoryMappedFileWriteFactory
  then show "file_writer (Open G) WriteAt FlushAndClose CloseHandle (handle_writes G) handle_on handle_descriptors accepts"
    using mapped.file_writer_axioms by (simp add: handle_writes_def)
qed

text \<open>A handle that holds nothing any more: the stream of the positional one is destroyed, the mapped one has neither
  descriptor nor mapping.\<close>

fun handle_empty :: "IFileWriteHandle \<Rightarrow> bool" where
  "handle_empty (PositionalFileWriteHandle file) \<longleftrightarrow> file = None"
| "handle_empty (MMapFileWriteHandle fd mapping mapped_size) \<longleftrightarrow> fd < 0 \<and> mapping = None"

lemma FlushAndClose_empty: "FlushAndClose E h d = (ok, h', d') \<Longrightarrow> handle_empty h'"
  by (cases h) (auto simp: positional_FlushAndClose_def mmap_Close_def Let_def split: option.splits if_splits prod.splits)

subsection \<open>Properties\<close>

text \<open>C5: with either factory, a file written piece by piece, in any order and with pieces that overlap or
  repeat, has once closed exactly the bytes it should have, no other file has changed and no
  descriptor is left open, nor a stream or a mapping in the handle.  While the operating system accepts the writes, all of them succeed.\<close>

theorem any_writer_stores_file:
  assumes opened: "Open G E p s d = (Some h, d1)" and fresh: "open_fd E p \<notin> descriptors d"
    and size: "length F = unat s" "unat s < 2 ^ 63" and ok: "accepts E p"
    and pieces: "list_all (piece_of F) ps" "{..<length F} \<subseteq> covered ps"
  shows "\<exists>h2 d2 h3 d3. write_each (WriteAt E) ps h d1 = (True, h2, d2) \<and> FlushAndClose E h2 d2 = (True, h3, d3) \<and>
    contents d3 = (contents d)(p \<mapsto> F) \<and> descriptors d3 = descriptors d \<and> handle_empty h3"
  using any_writer.whole_file_served [OF opened ok size(2,1) pieces(1)]
    any_writer.whole_file [OF opened fresh size(1) pieces] FlushAndClose_empty by blast

definition all_calls :: file_calls where
  "all_calls = \<lparr>opens = \<lambda>_. True, stored = \<lambda>_ _. 2 ^ 32, flushes = \<lambda>_. True, open_fd = \<lambda>_. 3, truncates = \<lambda>_. True,
     memory_maps = \<lambda>_. True, syncs = \<lambda>_. True, renames = \<lambda>_ _. True\<rparr>"

definition no_files :: disk where
  "no_files = \<lparr>contents = Map.empty, descriptors = {}\<rparr>"

theorem any_writer_stores_file_witness:
  "\<exists>h d1 h2 d2 h3 d3. Open MemoryMappedFileWriteFactory all_calls [0x61] 3 no_files = (Some h, d1) \<and>
    write_each (WriteAt all_calls) [(1, [8, 9]), (0, [7]), (1, [8])] h d1 = (True, h2, d2) \<and>
    FlushAndClose all_calls h2 d2 = (True, h3, d3) \<and> contents d3 [0x61] = Some [7, 8, 9] \<and> descriptors d3 = {}"
proof -
  obtain h d1 where o: "Open MemoryMappedFileWriteFactory all_calls [0x61] 3 no_files = (Some h, d1)"
    by (simp add: mmap_Open_def all_calls_def off_t_max_def)
  have "{..<length [7, 8, 9 :: byte]} \<subseteq> covered [(1, [8, 9]), (0, [7]), (1, [8])]"
    by (auto simp: covered_def)
  then show ?thesis
    using any_writer_stores_file [OF o, of "[7, 8, 9]" "[(1, [8, 9]), (0, [7]), (1, [8])]"] o
    by (auto simp: no_files_def accepts_def all_calls_def piece_of_def block_at_def)
qed

end
