(* ===== verification/Formatting.thy ===== *)
theory Formatting
  imports Platform
begin

text \<open>
  Text: \<^verbatim>\<open>std::to_string\<close> of unsigned numbers, and the formatting and logging of
  \<^verbatim>\<open>src/znet/z_stl_compat.h\<close>.  A C string is the bytes before its terminator.  The text that
  \<^verbatim>\<open>snprintf\<close> makes of a floating-point value is part of the value.  What the log handler does is outside
  the program: a call of it is recorded, as is a line written to the error stream.
\<close>

subsection \<open>Numbers\<close>

text \<open>\<^verbatim>\<open>std::to_string\<close>, and the conversion \<^verbatim>\<open>%llu\<close>.\<close>

fun decimal :: "nat \<Rightarrow> byte list" where
  "decimal n = (if n < 10 then [0x30 + of_nat n] else decimal (n div 10) @ [0x30 + of_nat (n mod 10)])"

declare decimal.simps [simp del]

definition is_digit :: "byte \<Rightarrow> bool" where
  "is_digit b \<longleftrightarrow> 0x30 \<le> b \<and> b \<le> 0x39"

lemma digit_value:
  assumes "n < 10"
  shows "is_digit (0x30 + of_nat n) \<and> unat ((0x30 :: byte) + of_nat n - 0x30) = n"
proof -
  have "n \<in> {0, 1, 2, 3, 4, 5, 6, 7, 8, 9}" using assms by auto
  then show ?thesis by (auto simp: is_digit_def)
qed

lemma decimal_digits: "list_all is_digit (decimal n)"
proof (induction n rule: decimal.induct)
  case (1 n)
  then show ?case using digit_value [of n] digit_value [of "n mod 10"] by (subst decimal.simps) simp
qed

lemma decimal_value: "foldl (\<lambda>a b. 10 * a + unat (b - 0x30)) 0 (decimal n) = n"
proof (induction n rule: decimal.induct)
  case (1 n)
  then show ?case using digit_value [of n] digit_value [of "n mod 10"] by (subst decimal.simps) simp
qed

lemma decimal_inj: "decimal m = decimal n \<Longrightarrow> m = n"
  by (metis decimal_value)

lemma decimal_nonempty [simp]: "decimal n \<noteq> []"
  by (subst decimal.simps) simp

lemma takeWhile_digits: "list_all P xs \<Longrightarrow> \<not> P y \<Longrightarrow> takeWhile P (xs @ y # ys) = xs"
  by (induction xs) auto

text \<open>The conversion \<^verbatim>\<open>%lld\<close>.\<close>

definition signed_decimal :: "int \<Rightarrow> byte list" where
  "signed_decimal i = (if i < 0 then ascii ''-'' @ decimal (nat (- i)) else decimal (nat i))"

subsection \<open>Formatting\<close>

datatype format_value = StringValue "byte list" | CharValue byte | SignedValue "64 word" | UnsignedValue u64 | FloatValue "byte list"

fun append_value :: "byte list \<Rightarrow> format_value \<Rightarrow> byte list" where
  "append_value out (StringValue text) = out @ text"
| "append_value out (CharValue c) = out @ [c]"
| "append_value out (SignedValue v) = out @ signed_decimal (sint v)"
| "append_value out (UnsignedValue v) = out @ decimal (unat v)"
| "append_value out (FloatValue text) = out @ text"

text \<open>The loop keeps the text so far in \<open>result\<close>; the recursive call starts a text of its own.\<close>

function format_one :: "byte list \<Rightarrow> format_value list \<Rightarrow> byte list"
  and format_loop :: "byte list \<Rightarrow> byte list \<Rightarrow> format_value \<Rightarrow> format_value list \<Rightarrow> byte list" where
  "format_one fmt [] = fmt"
| "format_one fmt (first # rest) = format_loop [] fmt first rest"
| "format_loop result [] first rest = result"
| "format_loop result (c # p) first rest =
     (if c = 0x7B \<and> p \<noteq> [] \<and> hd p = 0x7D then append_value result first @ format_one (tl p) rest
      else format_loop (result @ [c]) p first rest)"
  by pat_completeness auto
termination
  by (relation "measure (\<lambda>x. case x of Inl (fmt, args) \<Rightarrow> 2 * length fmt + 1 | Inr (result, p, first, rest) \<Rightarrow> 2 * length p)") auto

definition Format :: "byte list \<Rightarrow> format_value list \<Rightarrow> byte list" where
  "Format fmt args = format_one fmt args"

subsection \<open>Logging\<close>

definition LogLevel_kVerbose :: int where "LogLevel_kVerbose = 0"
definition LogLevel_kDebug :: int where "LogLevel_kDebug = 1"
definition LogLevel_kInfo :: int where "LogLevel_kInfo = 2"
definition LogLevel_kWarning :: int where "LogLevel_kWarning = 3"
definition LogLevel_kError :: int where "LogLevel_kError = 4"
definition LogLevel_kFatal :: int where "LogLevel_kFatal = 5"

lemmas log_levels = LogLevel_kVerbose_def LogLevel_kDebug_def LogLevel_kInfo_def LogLevel_kWarning_def
  LogLevel_kError_def LogLevel_kFatal_def

definition LogLevelToName :: "int \<Rightarrow> byte list" where
  "LogLevelToName level =
     (if level = LogLevel_kVerbose then ascii ''VERBOSE''
      else if level = LogLevel_kDebug then ascii ''DEBUG''
      else if level = LogLevel_kInfo then ascii ''INFO''
      else if level = LogLevel_kWarning then ascii ''WARNING''
      else if level = LogLevel_kError then ascii ''ERROR''
      else if level = LogLevel_kFatal then ascii ''FATAL''
      else ascii ''UNKNOWN'')"

text \<open>A handler and its user pointer are addresses.\<close>

datatype log_event = HandlerCall u64 u64 "byte list" int "byte list" | ErrorLine "byte list"

record log_state =
  g_log_handler :: "u64 option"
  g_log_user_pointer :: u64
  log_events :: "log_event list"

definition SetLogHandler :: "u64 option \<Rightarrow> u64 \<Rightarrow> log_state \<Rightarrow> log_state" where
  "SetLogHandler handler user_pointer s = s\<lparr>g_log_handler := handler, g_log_user_pointer := user_pointer\<rparr>"

definition c_str :: "byte list \<Rightarrow> byte list" where
  "c_str text = takeWhile (\<lambda>b. b \<noteq> 0) text"

definition LogMessage :: "byte list \<Rightarrow> int \<Rightarrow> byte list \<Rightarrow> log_state \<Rightarrow> log_state" where
  "LogMessage tag level msg s =
     s\<lparr>log_events := log_events s @
        [case g_log_handler s of
           Some handler \<Rightarrow> HandlerCall handler (g_log_user_pointer s) tag level (c_str msg)
         | None \<Rightarrow> ErrorLine (ascii ''['' @ tag @ ascii ''] '' @ LogLevelToName level @ ascii '': '' @ c_str msg @ [0x0A])]\<rparr>"

subsection \<open>What formatting does\<close>

text \<open>A format is pieces of plain text with placeholders between them.\<close>

fun plain :: "byte list \<Rightarrow> bool" where
  "plain (a # b # p) \<longleftrightarrow> \<not> (a = 0x7B \<and> b = 0x7D) \<and> plain (b # p)"
| "plain _ \<longleftrightarrow> True"

fun template :: "byte list list \<Rightarrow> byte list" where
  "template [] = []"
| "template [piece] = piece"
| "template (piece # pieces) = piece @ [0x7B, 0x7D] @ template pieces"

fun pieces_of :: "byte list \<Rightarrow> byte list list" where
  "pieces_of [] = [[]]"
| "pieces_of [a] = [[a]]"
| "pieces_of (a # b # p) =
     (if a = 0x7B \<and> b = 0x7D then [] # pieces_of p
      else (a # hd (pieces_of (b # p))) # tl (pieces_of (b # p)))"

text \<open>Values fill the placeholders in order; placeholders beyond them stay, values beyond these are dropped.\<close>

fun interleave :: "byte list list \<Rightarrow> format_value list \<Rightarrow> byte list" where
  "interleave [] values = []"
| "interleave [piece] values = piece"
| "interleave (piece # pieces) [] = piece @ [0x7B, 0x7D] @ interleave pieces []"
| "interleave (piece # pieces) (v # values) = piece @ append_value [] v @ interleave pieces values"

lemma append_value_eq: "append_value out v = out @ append_value [] v"
  by (cases v) simp_all

lemma pieces_nonempty [simp]: "pieces_of p \<noteq> []"
  by (induction p rule: pieces_of.induct) auto

lemma pieces_Cons: "pieces_of p = hd (pieces_of p) # tl (pieces_of p)"
  by simp

lemma template_cons: "template ((a # x) # xs) = a # template (x # xs)"
  by (cases xs) simp_all

lemma interleave_cons: "interleave ((a # x) # xs) vs = a # interleave (x # xs) vs"
  by (cases xs; cases vs) simp_all

lemma template_pieces: "template (pieces_of p) = p"
proof (induction p rule: pieces_of.induct)
  case (3 a b p)
  show ?case
  proof (cases "a = 0x7B \<and> b = 0x7D")
    case True
    then show ?thesis using 3 pieces_Cons [of p] by (cases "pieces_of p") auto
  next
    case False
    then show ?thesis using 3(2) pieces_Cons [of "b # p"] template_cons by (auto simp del: pieces_of.simps(3) simp: pieces_of.simps(3) [of a b p])
  qed
qed simp_all

lemma hd_pieces: "hd (pieces_of (b # p)) = [] \<or> hd (hd (pieces_of (b # p))) = b"
  by (cases p) (auto simp: Let_def)

lemma plain_Cons: "plain x \<Longrightarrow> x = [] \<or> \<not> (a = 0x7B \<and> hd x = 0x7D) \<Longrightarrow> plain (a # x)"
  by (cases x) auto

lemma pieces_plain: "list_all plain (pieces_of p)"
proof (induction p rule: pieces_of.induct)
  case (3 a b p)
  show ?case
  proof (cases "a = 0x7B \<and> b = 0x7D")
    case False
    then have "plain (hd (pieces_of (b # p)))" "list_all plain (tl (pieces_of (b # p)))"
      using 3(2) pieces_Cons [of "b # p"] by (metis list.pred_inject(2))+
    then show ?thesis using False hd_pieces [of b p] by (auto intro!: plain_Cons)
  qed (use 3 in simp)
qed simp_all

lemma format_pieces:
  "format_one p vs = interleave (pieces_of p) vs"
  "format_loop result p v vs = result @ interleave (pieces_of p) (v # vs)"
proof (induction p vs and result p v vs rule: format_one_format_loop.induct)
  case (1 fmt)
  have "interleave ps [] = template ps" for ps by (induction ps rule: template.induct) simp_all
  then show ?case by (simp add: template_pieces)
next
  case (2 fmt first rest)
  then show ?case by simp
next
  case (3 result first rest)
  then show ?case by simp
next
  case (4 result c p first rest)
  show ?case
  proof (cases "c = 0x7B \<and> p \<noteq> [] \<and> hd p = 0x7D")
    case True
    then obtain q where q: "p = 0x7D # q" by (cases p) auto
    have "interleave ([] # pieces_of q) (first # rest) = append_value [] first @ interleave (pieces_of q) rest"
      by (cases "pieces_of q") auto
    then show ?thesis using 4(1) True q append_value_eq [of result first] by simp
  next
    case False
    have "interleave (pieces_of (c # p)) (first # rest) = c # interleave (pieces_of p) (first # rest)"
    proof (cases p)
      case (Cons b q)
      then show ?thesis
        using False interleave_cons [of c "hd (pieces_of p)" "tl (pieces_of p)"] pieces_Cons [of p] by auto
    qed simp
    then show ?thesis using 4(2) False by (simp only: format_loop.simps if_False) simp
  qed
qed

subsection \<open>Properties\<close>

text \<open>C37: every format string is plain pieces of text with placeholders between them, and formatting fills
  the placeholders with the values in their order: placeholders for which there is no value stay as they
  are, values for which there is no placeholder are left out, and a value that itself looks like a placeholder
  is not formatted again.\<close>

theorem format_fills_placeholders:
  "fmt = template (pieces_of fmt) \<and> list_all plain (pieces_of fmt) \<and> Format fmt args = interleave (pieces_of fmt) args"
  by (simp add: template_pieces pieces_plain Format_def format_pieces)

end
