(* ===== verification/File_Receive.thy ===== *)
theory File_Receive
  imports File_Chunks File_Write Formatting
begin

text \<open>
  The receiving side of \<^verbatim>\<open>ZFileTransporter\<close> (\<^verbatim>\<open>src/znet/z_file_transporter.cc\<close>): streaming chunks into a
  temporary file, one session per transfer, finalizing and aborting, and assembling a file from chunks
  kept in memory.  An access beyond the bitmap of received chunks, which the code does not check, is
  the result \<open>None\<close>.
\<close>

subsection \<open>The transporter's state\<close>

record StreamReceiveSession =
  ss_transfer_id :: u64
  ss_file_size :: u64
  ss_chunk_size :: u32
  ss_total_chunks :: u32
  expected_file_checksum :: u32
  has_expected_file_checksum :: bool
  ss_temp_path :: path
  temp_file :: "IFileWriteHandle option"
  received_chunks :: "u8 list"
  received_chunk_count :: u32

record ZFileTransporter =
  file_write_factory :: "IFileWriteFactory option"
  active_streams :: "u64 \<rightharpoonup> StreamReceiveSession"

definition new_transporter :: "IFileWriteFactory option \<Rightarrow> ZFileTransporter" where
  "new_transporter factory =
     \<lparr>file_write_factory = (case factory of Some G \<Rightarrow> Some G | None \<Rightarrow> Some GetDefaultFileWriteFactory),
      active_streams = Map.empty\<rparr>"

definition SetFileWriteFactory :: "IFileWriteFactory option \<Rightarrow> ZFileTransporter \<Rightarrow> ZFileTransporter" where
  "SetFileWriteFactory factory t =
     t\<lparr>file_write_factory := (case factory of Some G \<Rightarrow> Some G | None \<Rightarrow> Some GetDefaultFileWriteFactory)\<rparr>"

definition set_session :: "u64 \<Rightarrow> StreamReceiveSession \<Rightarrow> ZFileTransporter \<Rightarrow> ZFileTransporter" where
  "set_session tid s t = t\<lparr>active_streams := (active_streams t)(tid \<mapsto> s)\<rparr>"

subsection \<open>Streaming chunks\<close>

definition temp_path_of :: "path \<Rightarrow> u64 \<Rightarrow> path" where
  "temp_path_of temp_directory tid =
     with_separator temp_directory @ ascii ''znet-transfer-'' @ decimal (unat tid) @ ascii ''.part''"

definition EnsureStreamSession ::
  "file_calls \<Rightarrow> TransferChunk \<Rightarrow> path \<Rightarrow> disk \<Rightarrow> ZFileTransporter \<Rightarrow> bool \<times> disk \<times> ZFileTransporter" where
  "EnsureStreamSession E chunk temp_directory d t =
     (case active_streams t (transfer_id chunk) of
        Some s \<Rightarrow>
          (\<not> (ss_file_size s \<noteq> file_size chunk \<or> ss_chunk_size s \<noteq> chunk_size chunk \<or>
              ss_total_chunks s \<noteq> total_chunks chunk), d, t)
      | None \<Rightarrow>
          if \<not> has_file_name chunk then (False, d, t)
          else
            let path = temp_path_of temp_directory (transfer_id chunk) in
            case file_write_factory t of
              None \<Rightarrow> (False, d, t)
            | Some G \<Rightarrow>
                (case Open G E path (file_size chunk) d of
                   (None, d) \<Rightarrow> (False, d, t)
                 | (Some h, d) \<Rightarrow>
                     (True, d, set_session (transfer_id chunk)
                        \<lparr>ss_transfer_id = transfer_id chunk, ss_file_size = file_size chunk,
                         ss_chunk_size = chunk_size chunk, ss_total_chunks = total_chunks chunk,
                         expected_file_checksum = 0, has_expected_file_checksum = False, ss_temp_path = path,
                         temp_file = Some h, received_chunks = replicate (unat (total_chunks chunk)) 0,
                         received_chunk_count = 0\<rparr> t)))"

definition completed :: "StreamReceiveSession \<Rightarrow> bool" where
  "completed s \<longleftrightarrow> received_chunk_count s = ss_total_chunks s \<and> has_expected_file_checksum s"

definition mark_received :: "TransferChunk \<Rightarrow> StreamReceiveSession \<Rightarrow> StreamReceiveSession" where
  "mark_received chunk s =
     (let s = s\<lparr>received_chunks := (received_chunks s)[unat (chunk_index chunk) := 1],
                received_chunk_count := received_chunk_count s + 1\<rparr>
      in if is_last_chunk chunk then s\<lparr>expected_file_checksum := file_checksum chunk, has_expected_file_checksum := True\<rparr>
         else s)"

text \<open>The results: what it returns, \<^verbatim>\<open>out_completed\<close>, and the new state.\<close>

definition StreamChunkToFile ::
  "file_calls \<Rightarrow> TransferChunk \<Rightarrow> path \<Rightarrow> disk \<Rightarrow> ZFileTransporter \<Rightarrow> (bool \<times> bool \<times> disk \<times> ZFileTransporter) option" where
  "StreamChunkToFile E chunk temp_directory d t =
     (case EnsureStreamSession E chunk temp_directory d t of
        (False, d, t) \<Rightarrow> Some (False, False, d, t)
      | (True, d, t) \<Rightarrow>
          let s = the (active_streams t (transfer_id chunk)); i = unat (chunk_index chunk) in
          case temp_file s of
            None \<Rightarrow> Some (False, False, d, t)
          | Some h \<Rightarrow>
              if i \<ge> length (received_chunks s) then None
              else if received_chunks s ! i \<noteq> 0 then Some (True, completed s, d, t)
              else
                case WriteAt E (chunk_start chunk) (chunk_data chunk) h d of
                  (ok, h, d) \<Rightarrow>
                    let s = s\<lparr>temp_file := Some h\<rparr> in
                    if \<not> ok then Some (False, False, d, set_session (transfer_id chunk) s t)
                    else
                      let s = mark_received chunk s in
                      Some (True, completed s, d, set_session (transfer_id chunk) s t))"

subsection \<open>Finalizing and aborting\<close>

text \<open>The loop of \<^verbatim>\<open>ComputeFileChecksum\<close>, which reads blocks of 64 KiB until one is empty.\<close>

definition block_size :: int where "block_size = 64 * 1024"

lemma File_Read_path: "stream_path (snd (File_Read off n d f)) = stream_path f"
  by (simp add: File_Read_def Let_def)

lemma File_Read_progress:
  fixes off :: u64
  assumes "File_Read (sint off) block_size d f = (bytes, f')" and "bytes \<noteq> []"
  shows "unat (off + of_nat (length bytes)) = unat off + length bytes \<and> unat off < length (file_content f d)"
proof -
  from assms have pos: "0 \<le> sint off" and bytes: "bytes = block_at (nat (sint off)) (nat block_size) (file_content f d)"
    by (auto simp: File_Read_def Let_def split: if_splits)
  have off: "nat (sint off) = unat off" by (rule nat_sint [OF pos])
  have "sint off < 2 ^ 63" using sint_lt [of off] by simp
  then have "nat (sint off) < 2 ^ 63" by (simp add: nat_less_iff)
  then have "unat off < 2 ^ 63" by (simp only: off)
  moreover have "length bytes \<le> 65536" by (simp add: bytes block_size_def)
  ultimately have "unat (off + of_nat (length bytes)) = unat off + length bytes"
    by (simp add: unat_word_ariths unat_of_nat)
  moreover have "unat off < length (file_content f d)" using assms(2) bytes off by (auto simp: block_at_def)
  ultimately show ?thesis by blast
qed

function checksum_blocks :: "disk \<Rightarrow> File \<Rightarrow> u64 \<Rightarrow> u32 \<Rightarrow> u32" where
  "checksum_blocks d f offset checksum =
     (case File_Read (sint offset) block_size d f of
        (bytes, f) \<Rightarrow>
          if bytes = [] then checksum
          else checksum_blocks d f (offset + of_nat (length bytes)) (UpdateChecksum bytes checksum))"
  by pat_completeness auto
termination
proof (relation "measure (\<lambda>(d, f, off, sum). length (file_content f d) - unat off)")
  fix d f checksum bytes f' and off :: u64
  assume "(bytes, f') = File_Read (sint off) block_size d f" and "bytes \<noteq> []"
  then have r: "File_Read (sint off) block_size d f = (bytes, f')" and "bytes \<noteq> []" by simp_all
  note p = File_Read_progress [OF this]
  have "stream_path f' = stream_path f" using File_Read_path [of "sint off" block_size d f] r by simp
  then have "file_content f' d = file_content f d" by (simp add: file_content_def)
  then show "((d, f', off + of_nat (length bytes), UpdateChecksum bytes checksum), d, f, off, checksum)
      \<in> measure (\<lambda>(d, f, off, sum). length (file_content f d) - unat off)"
    using p \<open>bytes \<noteq> []\<close> by (cases bytes) auto
qed simp

declare checksum_blocks.simps [simp del]

definition ComputeFileChecksum :: "file_calls \<Rightarrow> path \<Rightarrow> disk \<Rightarrow> u32 option" where
  "ComputeFileChecksum E p d =
     (case File_open E p (FLAG_OPEN OR FLAG_READ) d of
        (f, d) \<Rightarrow> if \<not> IsValid f then None else Some (checksum_blocks d f 0 kFnv1aOffset))"

text \<open>\<^verbatim>\<open>std::remove\<close>, whose result is ignored, and \<^verbatim>\<open>std::rename\<close>.\<close>

definition remove_file :: "path \<Rightarrow> disk \<Rightarrow> disk" where
  "remove_file p d = d\<lparr>contents := (contents d)(p := None)\<rparr>"

definition rename_file :: "file_calls \<Rightarrow> path \<Rightarrow> path \<Rightarrow> disk \<Rightarrow> bool \<times> disk" where
  "rename_file E old new d =
     (case contents d old of
        None \<Rightarrow> (False, d)
      | Some c \<Rightarrow> if renames E old new then (True, set_contents new c (remove_file old d)) else (False, d))"

definition FinalizeStreamedFile ::
  "file_calls \<Rightarrow> u64 \<Rightarrow> path \<Rightarrow> disk \<Rightarrow> ZFileTransporter \<Rightarrow> bool \<times> disk \<times> ZFileTransporter" where
  "FinalizeStreamedFile E tid output_path d t =
     (case active_streams t tid of
        None \<Rightarrow> (False, d, t)
      | Some s \<Rightarrow>
          if \<not> completed s then (False, d, t)
          else case temp_file s of
            None \<Rightarrow> (False, d, t)
          | Some h \<Rightarrow>
              (case FlushAndClose E h d of
                 (False, h, d) \<Rightarrow> (False, d, set_session tid (s\<lparr>temp_file := Some h\<rparr>) t)
               | (True, h, d) \<Rightarrow>
                   let d = destroy_handle h d; t = set_session tid (s\<lparr>temp_file := None\<rparr>) t in
                   if ComputeFileChecksum E (ss_temp_path s) d \<noteq> Some (expected_file_checksum s) then (False, d, t)
                   else
                     (case rename_file E (ss_temp_path s) output_path (remove_file output_path d) of
                        (False, d) \<Rightarrow> (False, d, t)
                      | (True, d) \<Rightarrow> (True, d, t\<lparr>active_streams := (active_streams t)(tid := None)\<rparr>))))"

definition AbortStreamedFile :: "u64 \<Rightarrow> disk \<Rightarrow> ZFileTransporter \<Rightarrow> disk \<times> ZFileTransporter" where
  "AbortStreamedFile tid d t =
     (case active_streams t tid of
        None \<Rightarrow> (d, t)
      | Some s \<Rightarrow>
          let d = (case temp_file s of
                     None \<Rightarrow> d
                   | Some h \<Rightarrow> (case CloseHandle h d of (h, d) \<Rightarrow> destroy_handle h d));
              d = (if ss_temp_path s \<noteq> [] then remove_file (ss_temp_path s) d else d)
          in (d, t\<lparr>active_streams := (active_streams t)(tid := None)\<rparr>))"

subsection \<open>Assembling a file from chunks\<close>

text \<open>The loop that writes one chunk, with the bytes written so far, and the loop over the chunks.\<close>

function assemble_chunk ::
  "file_calls \<Rightarrow> byte list \<Rightarrow> nat \<Rightarrow> u64 \<Rightarrow> File \<Rightarrow> disk \<Rightarrow> bool \<times> u64 \<times> File \<times> disk" where
  "assemble_chunk E data chunk_offset bytes_written f d =
     (if chunk_offset < length data then
        case WriteAtCurrentPos E (drop chunk_offset data) (as_int (length data - chunk_offset)) f d of
          (wrote, f, d) \<Rightarrow>
            if wrote \<le> 0 then (False, bytes_written, f, d)
            else assemble_chunk E data (chunk_offset + nat wrote) (bytes_written + of_int wrote) f d
      else (True, bytes_written, f, d))"
  by pat_completeness auto
termination
  by (relation "measure (\<lambda>(E, data, off, w, f, d). length data - off)") auto

declare assemble_chunk.simps [simp del]

fun assemble_chunks ::
  "file_calls \<Rightarrow> (u32 \<rightharpoonup> byte list) \<Rightarrow> u32 list \<Rightarrow> u64 \<Rightarrow> u32 \<Rightarrow> File \<Rightarrow> disk \<Rightarrow> (u64 \<times> u32) option \<times> disk" where
  "assemble_chunks E chunks [] bytes_written checksum f d = (Some (bytes_written, checksum), d)"
| "assemble_chunks E chunks (i # is) bytes_written checksum f d =
     (case chunks i of
        None \<Rightarrow> (None, d)
      | Some data \<Rightarrow>
          (case assemble_chunk E data 0 bytes_written f d of
             (False, _, f, d) \<Rightarrow> (None, d)
           | (True, bytes_written, f, d) \<Rightarrow>
               assemble_chunks E chunks is bytes_written (UpdateChecksum data checksum) f d))"

definition u64_max :: u64 where "u64_max = - 1"

definition AssembleFileFromChunks ::
  "file_calls \<Rightarrow> path \<Rightarrow> (u32 \<rightharpoonup> byte list) \<Rightarrow> u32 \<Rightarrow> u64 \<Rightarrow> u32 \<Rightarrow> disk \<Rightarrow> bool \<times> disk" where
  "AssembleFileFromChunks E output_path chunks count expected_file_size expected_checksum d =
     (if count = 0 then (False, d)
      else if ContainsPathTraversal output_path then (False, d)
      else case File_open E output_path (FLAG_CREATE_ALWAYS OR FLAG_WRITE) d of
        (f, d) \<Rightarrow>
          if \<not> IsValid f then (False, d)
          else case assemble_chunks E chunks (map of_nat [0..<unat count]) 0 kFnv1aOffset f d of
            (None, d) \<Rightarrow> (False, d)
          | (Some (bytes_written, checksum), d) \<Rightarrow>
              if expected_file_size \<noteq> u64_max \<and> bytes_written \<noteq> expected_file_size then (False, d)
              else if expected_checksum \<noteq> 0 \<and> checksum \<noteq> expected_checksum then (False, d)
              else (True, d))"

definition AssembleFile :: "file_calls \<Rightarrow> path \<Rightarrow> (u32 \<rightharpoonup> byte list) \<Rightarrow> u32 \<Rightarrow> disk \<Rightarrow> bool \<times> disk" where
  "AssembleFile E output_path chunks count d = AssembleFileFromChunks E output_path chunks count u64_max 0 d"

subsection \<open>Temporary files of different transfers are different\<close>

lemma temp_path_digits:
  "rev (takeWhile is_digit (drop 5 (rev (temp_path_of dir tid)))) = decimal (unat tid)"
proof -
  have "rev (temp_path_of dir tid) =
      rev (ascii ''.part'') @ rev (decimal (unat tid)) @ 0x2D # rev (with_separator dir @ ascii ''znet-transfer'')"
    by (simp add: temp_path_of_def ascii_def)
  then have "drop 5 (rev (temp_path_of dir tid)) =
      rev (decimal (unat tid)) @ 0x2D # rev (with_separator dir @ ascii ''znet-transfer'')"
    by (simp add: ascii_def)
  moreover have "\<not> is_digit 0x2D" by (simp add: is_digit_def)
  ultimately have "takeWhile is_digit (drop 5 (rev (temp_path_of dir tid))) = rev (decimal (unat tid))"
    using decimal_digits [of "unat tid"] by (simp add: takeWhile_digits)
  then show ?thesis by simp
qed

lemma temp_path_inj: "temp_path_of dir1 t1 = temp_path_of dir2 t2 \<Longrightarrow> t1 = t2"
  by (metis decimal_inj temp_path_digits word_unat_eq_iff)

lemma temp_path_ne: "temp_path_of dir tid \<noteq> []"
  by (simp add: temp_path_of_def ascii_def)

subsection \<open>The checksum of a file\<close>

lemma checksum_blocks_failed: "stream_fail f \<Longrightarrow> checksum_blocks d f off k = k"
  by (subst checksum_blocks.simps) (simp add: File_Read_def)

lemma checksum_blocks_eq:
  assumes "stream_open f" and "stream_in f" and "\<not> stream_fail f" and "length (file_content f d) < 2 ^ 63"
    and "unat off \<le> length (file_content f d)"
  shows "checksum_blocks d f off k = UpdateChecksum (drop (unat off) (file_content f d)) k"
  using assms
proof (induction d f off k rule: checksum_blocks.induct)
  case (1 d f off k)
  let ?c = "file_content f d" and ?bytes = "block_at (unat off) 65536 (file_content f d)"
  have off: "sint off = uint off" using "1.prems"(4,5) by (intro sint_unat) linarith
  then have nat: "nat (sint off) = unat off" by simp
  let ?f = "f\<lparr>stream_pos := unat off + length ?bytes, stream_fail := int (length ?bytes) \<noteq> 65536\<rparr>"
  have read: "File_Read (sint off) block_size d f = (?bytes, ?f)"
    using "1.prems" off nat by (simp add: File_Read_def Let_def block_size_def)
  have content: "file_content ?f d = ?c" by (simp add: file_content_def)
  show ?case
  proof (cases "?bytes = []")
    case True
    then have "drop (unat off) ?c = []" using "1.prems"(5) by (simp add: block_at_def)
    with True read show ?thesis by (subst checksum_blocks.simps) simp
  next
    case False
    have next_off: "unat (off + of_nat (length ?bytes)) = unat off + length ?bytes"
      using File_Read_progress [OF read False] by simp
    have "drop (unat off + length ?bytes) ?c = drop 65536 (drop (unat off) ?c)"
      by (cases "65536 \<le> length ?c - unat off") (simp_all add: min_def add.commute)
    then have split: "drop (unat off) ?c = ?bytes @ drop (unat off + length ?bytes) ?c"
      by (simp only: block_at_def append_take_drop_id)
    show ?thesis
    proof (cases "length ?bytes = 65536")
      case True
      then have "checksum_blocks d ?f (off + of_nat (length ?bytes)) (UpdateChecksum ?bytes k) =
          UpdateChecksum (drop (unat off + length ?bytes) ?c) (UpdateChecksum ?bytes k)"
        using "1.IH" [OF read [symmetric] False] "1.prems" next_off content by simp
      then show ?thesis using False read split by (subst checksum_blocks.simps) (simp add: UpdateChecksum_append)
    next
      case short: False
      then have "drop (unat off + length ?bytes) ?c = []" by (auto simp: min_def split: if_splits)
      moreover have "checksum_blocks d ?f x y = y" for x y
        using short by (intro checksum_blocks_failed) (simp del: length_block_at)
      ultimately show ?thesis using False read split by (subst checksum_blocks.simps) (simp add: UpdateChecksum_append)
    qed
  qed
qed

lemma ComputeFileChecksum_eq:
  assumes "contents d p = Some c" and "opens E p" and "length c < 2 ^ 63"
  shows "ComputeFileChecksum E p d = Some (ComputeChecksum c)"
proof -
  let ?f = "\<lparr>stream_path = p, stream_open = True, stream_fail = False, stream_in = True, stream_out = False, stream_pos = 0\<rparr>"
  have "File_open E p (FLAG_OPEN OR FLAG_READ) d = (?f, d)"
    using assms(1,2) by (simp add: File_open_def Let_def FLAG_OPEN_def FLAG_READ_def FLAG_WRITE_def FLAG_CREATE_ALWAYS_def)
  moreover have "file_content ?f d = c" using assms(1) by (simp add: file_content_def)
  ultimately show ?thesis
    using assms(3) checksum_blocks_eq [of ?f d 0 kFnv1aOffset]
    by (simp add: ComputeFileChecksum_def IsValid_def ComputeChecksum_def)
qed

subsection \<open>Sessions\<close>

text \<open>The chunks of a file and the bytes each stands for.\<close>

definition chunks_of :: "byte list \<Rightarrow> nat \<Rightarrow> nat" where
  "chunks_of F cs = (if length F = 0 then 1 else (length F + cs - 1) div cs)"

definition part_bytes :: "byte list \<Rightarrow> nat \<Rightarrow> nat \<Rightarrow> nat set" where
  "part_bytes F cs i = {i * cs..<i * cs + min cs (length F - i * cs)}"

definition file_chunk :: "byte list \<Rightarrow> u64 \<Rightarrow> u32 \<Rightarrow> TransferChunk \<Rightarrow> bool" where
  "file_chunk F tid cs c \<longleftrightarrow> chunk_fits c \<and> transfer_id c = tid \<and> unat (file_size c) = length F \<and> chunk_size c = cs \<and>
     chunk_data c = block_at (unat (chunk_start c)) (length (chunk_data c)) F \<and>
     is_last_chunk c = (Suc (unat (chunk_index c)) = unat (total_chunks c)) \<and>
     (is_last_chunk c \<longrightarrow> file_checksum c = ComputeChecksum F)"

lemma mem_part_bytes: "j \<in> part_bytes F cs i \<longleftrightarrow> i * cs \<le> j \<and> j < i * cs + cs \<and> j < length F"
proof -
  have "k \<le> j \<and> j < k + min cs (n - k) \<longleftrightarrow> k \<le> j \<and> j < k + cs \<and> j < n" for k n :: nat by auto
  then show ?thesis by (simp only: part_bytes_def atLeastLessThan_iff)
qed

lemma chunk_of_byte:
  assumes "0 < cs" and "j < length F"
  shows "j div cs < chunks_of F cs" and "j \<in> part_bytes F cs (j div cs)"
proof -
  have "length F + cs - 1 = (length F - 1) + cs" using assms(2) by linarith
  moreover have "cs \<noteq> 0" using assms(1) by simp
  then have "(n + cs) div cs = Suc (n div cs)" for n using div_add_self2 [of cs n] by (simp only: simp_thms Suc_eq_plus1)
  ultimately have "(length F + cs - 1) div cs = Suc ((length F - 1) div cs)" by (simp only:)
  moreover have "j div cs \<le> (length F - 1) div cs" using assms(2) by (intro div_le_mono) linarith
  ultimately have "j div cs < (length F + cs - 1) div cs" by (simp only: less_Suc_eq_le)
  moreover have "length F \<noteq> 0" using assms(2) by linarith
  ultimately show "j div cs < chunks_of F cs" by (simp only: chunks_of_def if_False)
  have "j < j div cs * cs + cs" using dividend_less_div_times [OF assms(1), of j] by (simp only: add.commute)
  then show "j \<in> part_bytes F cs (j div cs)"
    using assms(2) div_times_less_eq_dividend [of j cs] by (simp only: mem_part_bytes simp_thms)
qed

lemma chunks_cover:
  assumes "0 < cs"
  shows "(\<Union>i < chunks_of F cs. part_bytes F cs i) = {..<length F}"
proof (intro equalityI subsetI)
  fix j assume "j \<in> (\<Union>i < chunks_of F cs. part_bytes F cs i)"
  then obtain i where "j \<in> part_bytes F cs i" by blast
  then show "j \<in> {..<length F}" by (simp add: mem_part_bytes)
next
  fix j assume "j \<in> {..<length F}"
  then show "j \<in> (\<Union>i < chunks_of F cs. part_bytes F cs i)" using chunk_of_byte [OF assms, of j F] by blast
qed

lemma file_chunk_facts:
  assumes "file_chunk F tid cs c"
  shows "0 < unat cs" "unat (chunk_index c) < unat (total_chunks c)" "unat (total_chunks c) = chunks_of F (unat cs)"
    "{unat (chunk_start c)..<unat (chunk_start c) + length (chunk_data c)} = part_bytes F (unat cs) (unat (chunk_index c))"
    "length (chunk_data c) < 2 ^ 31 \<Longrightarrow> piece_of F (chunk_start c, chunk_data c)" "has_file_name c = (unat (chunk_index c) = 0)"
    "length (chunk_data c) \<le> unat cs"
  using assms by (auto simp: file_chunk_def chunk_fits_def Let_def chunks_of_def part_bytes_def piece_of_def)

text \<open>
  What holds of every session: its temporary file is named after its transfer and its handle writes
  nowhere else.
\<close>

definition sessions_ok :: "ZFileTransporter \<Rightarrow> bool" where
  "sessions_ok t \<longleftrightarrow> (\<forall>tid s. active_streams t tid = Some s \<longrightarrow>
     (\<exists>dir. ss_temp_path s = temp_path_of dir tid) \<and> (\<forall>h. temp_file s = Some h \<longrightarrow> handle_on (ss_temp_path s) h) \<and>
     length (received_chunks s) = unat (ss_total_chunks s))"

lemma sessions_okD:
  assumes "sessions_ok t" and "active_streams t tid = Some s"
  obtains dir where "ss_temp_path s = temp_path_of dir tid" "\<And>h. temp_file s = Some h \<Longrightarrow> handle_on (ss_temp_path s) h"
    "length (received_chunks s) = unat (ss_total_chunks s)"
  using assms unfolding sessions_ok_def by blast

lemma sessions_ok_set:
  assumes "sessions_ok t" and "ss_temp_path s = temp_path_of dir tid" and "\<And>h. temp_file s = Some h \<Longrightarrow> handle_on (ss_temp_path s) h"
    and "length (received_chunks s) = unat (ss_total_chunks s)"
  shows "sessions_ok (set_session tid s t)"
  using assms by (auto simp: sessions_ok_def set_session_def)

lemma set_session_simps [simp]:
  "active_streams (set_session tid s t) = (active_streams t)(tid \<mapsto> s)"
  "file_write_factory (set_session tid s t) = file_write_factory t"
  by (simp_all add: set_session_def)

lemma mark_received_simps [simp]:
  "ss_temp_path (mark_received c s) = ss_temp_path s" "temp_file (mark_received c s) = temp_file s"
  "ss_total_chunks (mark_received c s) = ss_total_chunks s" "ss_file_size (mark_received c s) = ss_file_size s"
  "ss_chunk_size (mark_received c s) = ss_chunk_size s"
  "received_chunks (mark_received c s) = (received_chunks s)[unat (chunk_index c) := 1]"
  "received_chunk_count (mark_received c s) = received_chunk_count s + 1"
  "has_expected_file_checksum (mark_received c s) = (is_last_chunk c \<or> has_expected_file_checksum s)"
  "expected_file_checksum (mark_received c s) = (if is_last_chunk c then file_checksum c else expected_file_checksum s)"
  by (simp_all add: mark_received_def Let_def)

text \<open>What a step leaves alone: the other sessions and every file that is not a temporary file of this transfer.\<close>

definition only_transfer :: "u64 \<Rightarrow> disk \<Rightarrow> ZFileTransporter \<Rightarrow> disk \<Rightarrow> ZFileTransporter \<Rightarrow> bool" where
  "only_transfer tid d t d' t' \<longleftrightarrow> file_write_factory t' = file_write_factory t \<and>
     (\<forall>x. x \<noteq> tid \<longrightarrow> active_streams t' x = active_streams t x) \<and>
     (\<forall>q. (\<forall>dir. q \<noteq> temp_path_of dir tid) \<longrightarrow> contents d' q = contents d q)"

lemma only_transfer_refl [simp]: "only_transfer tid d t d t"
  by (simp add: only_transfer_def)

lemma only_transfer_trans:
  "only_transfer tid d t d1 t1 \<Longrightarrow> only_transfer tid d1 t1 d2 t2 \<Longrightarrow> only_transfer tid d t d2 t2"
  by (simp add: only_transfer_def)

lemma EnsureStreamSession_spec:
  assumes ok: "sessions_ok t" and run: "EnsureStreamSession E c dir d t = (r, d', t')"
  shows "sessions_ok t' \<and> only_transfer (transfer_id c) d t d' t' \<and>
    (r \<longrightarrow> (\<exists>s. active_streams t' (transfer_id c) = Some s \<and> ss_total_chunks s = total_chunks c))"
proof (cases "active_streams t (transfer_id c)")
  case (Some s)
  with run ok show ?thesis by (auto simp: EnsureStreamSession_def)
next
  case None
  show ?thesis
  proof (cases "has_file_name c \<and> file_write_factory t \<noteq> None")
    case False
    with None run ok show ?thesis by (auto simp: EnsureStreamSession_def Let_def split: if_splits)
  next
    case True
    then obtain G where G: "file_write_factory t = Some G" by auto
    let ?p = "temp_path_of dir (transfer_id c)"
    obtain o1 d1 where o: "Open G E ?p (file_size c) d = (o1, d1)" by (cases "Open G E ?p (file_size c) d")
    have frame: "contents d1 q = contents d q" if "q \<noteq> ?p" for q using any_writer.open_frame [OF o that] .
    show ?thesis
    proof (cases o1)
      case None': None
      with None True G o run ok frame show ?thesis
        by (auto simp: EnsureStreamSession_def Let_def only_transfer_def)
    next
      case (Some h)
      then have "handle_on ?p h" using any_writer.open_ok o any_writer.writes_on by blast
      with Some None True G o run ok frame show ?thesis
        by (auto simp: EnsureStreamSession_def Let_def only_transfer_def intro!: sessions_ok_set)
    qed
  qed
qed

lemma StreamChunkToFile_spec:
  assumes ok: "sessions_ok t" and fits: "chunk_fits c"
  shows "\<exists>r b d' t'. StreamChunkToFile E c dir d t = Some (r, b, d', t') \<and> sessions_ok t' \<and>
    only_transfer (transfer_id c) d t d' t'"
proof -
  obtain r d1 t1 where e: "EnsureStreamSession E c dir d t = (r, d1, t1)" by (cases "EnsureStreamSession E c dir d t")
  note spec = EnsureStreamSession_spec [OF ok e]
  show ?thesis
  proof (cases r)
    case False
    with e spec show ?thesis by (auto simp: StreamChunkToFile_def)
  next
    case True
    then obtain s where s: "active_streams t1 (transfer_id c) = Some s" "ss_total_chunks s = total_chunks c" using spec by auto
    obtain dir' where sess: "ss_temp_path s = temp_path_of dir' (transfer_id c)"
        "\<And>h. temp_file s = Some h \<Longrightarrow> handle_on (ss_temp_path s) h" "length (received_chunks s) = unat (ss_total_chunks s)"
      by (rule sessions_okD [OF conjunct1 [OF spec] s(1)]) (rule that)
    have i: "\<not> length (received_chunks s) \<le> unat (chunk_index c)"
      using fits s(2) sess(3) by (auto simp: chunk_fits_def Let_def)
    show ?thesis
    proof (cases "temp_file s = None \<or> received_chunks s ! unat (chunk_index c) \<noteq> 0")
      case True': True
      with e True s i spec show ?thesis by (auto simp: StreamChunkToFile_def Let_def split: option.split)
    next
      case False
      then obtain h where h: "temp_file s = Some h" by auto
      obtain b h1 d2 where w: "WriteAt E (chunk_start c) (chunk_data c) h d1 = (b, h1, d2)"
        by (cases "WriteAt E (chunk_start c) (chunk_data c) h d1")
      note frame = any_writer.write_frame [OF sess(2) [OF h] w]
      let ?s = "if b then mark_received c (s\<lparr>temp_file := Some h1\<rparr>) else s\<lparr>temp_file := Some h1\<rparr>"
      have res: "StreamChunkToFile E c dir d t = Some (b, b \<and> completed ?s, d2, set_session (transfer_id c) ?s t1)"
        using e True s(1) h i False w by (simp add: StreamChunkToFile_def Let_def)
      have "sessions_ok (set_session (transfer_id c) ?s t1)"
        using spec sess frame by (intro sessions_ok_set) (auto split: if_splits)
      moreover have "only_transfer (transfer_id c) d1 t1 d2 (set_session (transfer_id c) ?s t1)"
        using frame sess(1) by (auto simp: only_transfer_def)
      ultimately show ?thesis using res spec only_transfer_trans by blast
    qed
  qed
qed

subsection \<open>One transfer\<close>

text \<open>
  The session of a transfer that has received the chunks in \<open>R\<close> of the file \<open>F\<close>: its handle is open on its
  temporary file, the file has the bytes of these chunks, and the session's bookkeeping is exact.
\<close>

definition session_has ::
  "IFileWriteFactory \<Rightarrow> byte list \<Rightarrow> u32 \<Rightarrow> path \<Rightarrow> nat set \<Rightarrow> disk \<Rightarrow> StreamReceiveSession \<Rightarrow> bool" where
  "session_has G F cs p R d s \<longleftrightarrow>
     ss_temp_path s = p \<and> unat (ss_file_size s) = length F \<and> ss_chunk_size s = cs \<and>
     unat (ss_total_chunks s) = chunks_of F (unat cs) \<and>
     (\<exists>h. temp_file s = Some h \<and> handle_writes G p (ss_file_size s) h) \<and>
     (\<exists>c. contents d p = Some c \<and> has_part F c (\<Union>i \<in> R. part_bytes F (unat cs) i)) \<and>
     R \<subseteq> {..<chunks_of F (unat cs)} \<and>
     received_chunks s = map (\<lambda>i. if i \<in> R then 1 else 0) [0..<chunks_of F (unat cs)] \<and>
     unat (received_chunk_count s) = card R \<and>
     has_expected_file_checksum s = (chunks_of F (unat cs) - 1 \<in> R) \<and>
     (has_expected_file_checksum s \<longrightarrow> expected_file_checksum s = ComputeChecksum F)"

definition transfer_has ::
  "IFileWriteFactory \<Rightarrow> byte list \<Rightarrow> u64 \<Rightarrow> u32 \<Rightarrow> path \<Rightarrow> nat set \<Rightarrow> disk \<Rightarrow> ZFileTransporter \<Rightarrow> bool" where
  "transfer_has G F tid cs p R d t \<longleftrightarrow> (\<exists>s. active_streams t tid = Some s \<and> session_has G F cs p R d s)"

text \<open>What the operating system has to do for a transfer: open the file and accept what is written.\<close>

definition willing :: "file_calls \<Rightarrow> path \<Rightarrow> bool" where
  "willing E p \<longleftrightarrow> opens E p \<and> 0 \<le> open_fd E p \<and> truncates E p \<and> memory_maps E p \<and> accepts E p"

lemma Open_willing:
  assumes "willing E p" and "unat s < 2 ^ 63"
  obtains h d' where "Open G E p s d = (Some h, d')"
proof -
  have "s \<le> off_t_max" using assms(2) by (simp add: word_le_nat_alt off_t_max_def)
  then have "\<exists>h d'. Open G E p s d = (Some h, d')"
    using assms(1) by (cases G)
      (simp_all add: willing_def positional_Open_def mmap_Open_def File_open_def Let_def IsValid_def
        FLAG_CREATE_ALWAYS_def FLAG_WRITE_def FLAG_READ_def not_less)
  then show ?thesis using that by blast
qed

lemma session_completed:
  assumes "session_has G F cs p R d s" and "0 < unat cs"
  shows "completed s \<longleftrightarrow> R = {..<chunks_of F (unat cs)}"
proof -
  let ?n = "chunks_of F (unat cs)"
  from assms(1) have h: "R \<subseteq> {..<?n}" "unat (received_chunk_count s) = card R" "unat (ss_total_chunks s) = ?n"
      "has_expected_file_checksum s = (?n - 1 \<in> R)"
    by (simp_all add: session_has_def)
  have "card R = ?n \<longleftrightarrow> R = {..<?n}"
    using h(1) card_subset_eq [of "{..<?n}" R] by auto
  moreover have "0 < ?n"
  proof (cases "length F = 0")
    case False
    then have "0 < length F" by linarith
    from chunk_of_byte(1) [OF assms(2) this] show ?thesis by (rule le_less_trans [OF le0])
  qed (simp add: chunks_of_def)
  ultimately show ?thesis using h by (auto simp: completed_def word_unat_eq_iff)
qed

lemma session_frame:
  assumes "session_has G F cs p R d s" and "contents d' p = contents d p"
  shows "session_has G F cs p R d' s"
  using assms by (simp add: session_has_def)

lemma start_transfer:
  assumes chunk: "file_chunk F tid cs c" "unat (chunk_index c) = 0" and new: "active_streams t tid = None"
    and G: "file_write_factory t = Some G" and p: "p = temp_path_of dir tid" and E: "willing E p" and size: "length F < 2 ^ 63"
  obtains s d1 where "EnsureStreamSession E c dir d t = (True, d1, set_session tid s t)" "session_has G F cs p {} d1 s"
proof -
  from chunk have c: "transfer_id c = tid" "unat (file_size c) = length F" "chunk_size c = cs" "has_file_name c"
      "unat (total_chunks c) = chunks_of F (unat cs)"
    using file_chunk_facts(3,6) [OF chunk(1)] by (simp_all add: file_chunk_def)
  obtain h d1 where o: "Open G E p (file_size c) d = (Some h, d1)"
    using Open_willing [OF E, of "file_size c" G d] c(2) size by auto
  obtain x where x: "handle_writes G p (file_size c) h" "length x \<le> length F" "contents d1 = (contents d)(p \<mapsto> x)"
    using any_writer.open_ok [OF o] c(2) by auto
  let ?s = "\<lparr>ss_transfer_id = tid, ss_file_size = file_size c, ss_chunk_size = chunk_size c, ss_total_chunks = total_chunks c,
      expected_file_checksum = 0, has_expected_file_checksum = False, ss_temp_path = p, temp_file = Some h,
      received_chunks = replicate (unat (total_chunks c)) 0, received_chunk_count = 0\<rparr>"
  have "EnsureStreamSession E c dir d t = (True, d1, set_session tid ?s t)"
    using new c(1,4) G o p by (simp add: EnsureStreamSession_def Let_def)
  moreover have "session_has G F cs p {} d1 ?s"
    using c x by (simp add: session_has_def has_part_empty map_replicate_const)
  ultimately show ?thesis by (rule that)
qed

lemma insert_part:
  assumes "has_part F x (\<Union>i \<in> R. part_bytes F k i)" and "file_chunk F tid cs c" and "length (chunk_data c) < 2 ^ 31" and "k = unat cs"
  shows "has_part F (patch (unat (chunk_start c)) (chunk_data c) x) (\<Union>i \<in> insert (unat (chunk_index c)) R. part_bytes F k i)"
proof -
  have piece: "unat (chunk_start c) + length (chunk_data c) \<le> length F"
      "chunk_data c = block_at (unat (chunk_start c)) (length (chunk_data c)) F"
    using file_chunk_facts(5) [OF assms(2,3)] by (simp_all add: piece_of_def)
  show ?thesis
    using has_part_patch [OF assms(1) piece(2,1)] file_chunk_facts(4) [OF assms(2)] assms(4) by (simp add: Un_commute)
qed

lemma mark_session:
  assumes has: "session_has G F cs p R d s" and chunk: "file_chunk F tid cs c" and fresh: "unat (chunk_index c) \<notin> R"
    and h: "handle_writes G p (ss_file_size s) h" and x: "contents d' p = Some x"
      "has_part F x (\<Union>i \<in> insert (unat (chunk_index c)) R. part_bytes F (unat cs) i)"
  shows "session_has G F cs p (insert (unat (chunk_index c)) R) d' (mark_received c (s\<lparr>temp_file := Some h\<rparr>))"
proof -
  let ?n = "chunks_of F (unat cs)" and ?i = "unat (chunk_index c)"
  from has have a: "R \<subseteq> {..<?n}" "unat (received_chunk_count s) = card R" "unat (ss_total_chunks s) = ?n"
      "received_chunks s = map (\<lambda>i. if i \<in> R then 1 else 0) [0..<?n]"
      "has_expected_file_checksum s = (?n - 1 \<in> R)" "has_expected_file_checksum s \<longrightarrow> expected_file_checksum s = ComputeChecksum F"
    by (simp_all add: session_has_def)
  have i: "?i < ?n" "is_last_chunk c = (Suc ?i = ?n)" "is_last_chunk c \<longrightarrow> file_checksum c = ComputeChecksum F"
    using file_chunk_facts(2,3) [OF chunk] chunk by (simp_all add: file_chunk_def)
  have fin: "finite R" using a(1) finite_subset by blast
  have "card (insert ?i R) \<le> ?n" using a(1) i(1) by (metis card_lessThan card_mono finite_lessThan insert_subset lessThan_iff)
  moreover have "?n < 2 ^ 32" using a(3) unat_bound [of "ss_total_chunks s"] by simp
  ultimately have count: "unat (received_chunk_count s + 1) = card (insert ?i R)"
    using a(2) fin fresh by (simp add: unat_word_ariths)
  have bits: "(received_chunks s)[?i := 1] = map (\<lambda>i. if i \<in> insert ?i R then 1 else 0) [0..<?n]"
    using a(4) i(1) by (intro nth_equalityI) (auto simp: nth_list_update)
  have last: "(is_last_chunk c \<or> has_expected_file_checksum s) = (?n - 1 \<in> insert ?i R)"
    using a(5) i(1,2) by auto
  show ?thesis
    using has h x a(1,6) i count bits last by (auto simp: session_has_def)
qed

lemma stream_in_session:
  assumes ens: "EnsureStreamSession E c dir d0 t0 = (True, d, t)" and s: "active_streams t tid = Some s"
    and has: "session_has G F cs p R d s" and chunk: "file_chunk F tid cs c" and E: "accepts E p"
    and size: "length F < 2 ^ 63" "unat cs < 2 ^ 31"
  obtains d' t' where "StreamChunkToFile E c dir d0 t0 =
      Some (True, insert (unat (chunk_index c)) R = {..<chunks_of F (unat cs)}, d', t')"
    "transfer_has G F tid cs p (insert (unat (chunk_index c)) R) d' t'"
proof -
  let ?i = "unat (chunk_index c)" and ?n = "chunks_of F (unat cs)"
  have tid: "transfer_id c = tid" using chunk by (simp add: file_chunk_def)
  have pos: "0 < unat cs" and i: "?i < ?n" using file_chunk_facts(1-3) [OF chunk] by simp_all
  obtain h where h: "temp_file s = Some h" "handle_writes G p (ss_file_size s) h" using has by (auto simp: session_has_def)
  have bits: "received_chunks s = map (\<lambda>i. if i \<in> R then 1 else 0) [0..<?n]" using has by (simp add: session_has_def)
  then have len: "\<not> length (received_chunks s) \<le> ?i" and bit: "received_chunks s ! ?i \<noteq> 0 \<longleftrightarrow> ?i \<in> R" using i by simp_all
  show ?thesis
  proof (cases "?i \<in> R")
    case True
    then have R: "insert ?i R = R" by blast
    have "StreamChunkToFile E c dir d0 t0 = Some (True, insert ?i R = {..<?n}, d, t)"
      using True ens s h(1) len bit tid session_completed [OF has pos] R by (simp add: StreamChunkToFile_def Let_def)
    moreover have "transfer_has G F tid cs p (insert ?i R) d t" using s has R by (auto simp: transfer_has_def)
    ultimately show ?thesis by (rule that)
  next
    case False
    have data: "length (chunk_data c) < 2 ^ 31" using file_chunk_facts(7) [OF chunk] size(2) by linarith
    have fs: "unat (ss_file_size s) = length F" using has by (simp add: session_has_def)
    have fits: "unat (chunk_start c) + length (chunk_data c) \<le> unat (ss_file_size s)"
      using file_chunk_facts(5) [OF chunk data] fs by (simp add: piece_of_def)
    obtain h1 d1 where w: "WriteAt E (chunk_start c) (chunk_data c) h d = (True, h1, d1)"
      using any_writer.write_serves [OF h(2) E _ fits data, of d] size(1) fs
      by (cases "WriteAt E (chunk_start c) (chunk_data c) h d") auto
    obtain x where x: "contents d p = Some x" "has_part F x (\<Union>i \<in> R. part_bytes F (unat cs) i)"
      using has by (auto simp: session_has_def)
    have h1: "handle_writes G p (ss_file_size s) h1"
      and d1: "contents d1 = (contents d)(p \<mapsto> patch (unat (chunk_start c)) (chunk_data c) x)"
      using any_writer.write_ok [OF h(2) x(1) fits _ w] data by simp_all
    let ?s = "mark_received c (s\<lparr>temp_file := Some h1\<rparr>)"
    have has': "session_has G F cs p (insert ?i R) d1 ?s"
      using mark_session [OF has chunk False h1, of d1] insert_part [OF x(2) chunk data refl] d1 by simp
    have "StreamChunkToFile E c dir d0 t0 = Some (True, insert ?i R = {..<?n}, d1, set_session tid ?s t)"
      using False ens s h(1) len bit tid session_completed [OF has' pos] w by (simp add: StreamChunkToFile_def Let_def)
    moreover have "transfer_has G F tid cs p (insert ?i R) d1 (set_session tid ?s t)" using has' by (simp add: transfer_has_def)
    ultimately show ?thesis by (rule that)
  qed
qed

lemma ensure_existing:
  assumes "active_streams t tid = Some s" and "session_has G F cs p R d s" and "file_chunk F tid cs c"
  shows "EnsureStreamSession E c dir d t = (True, d, t)"
proof -
  from assms(2,3) have "unat (ss_file_size s) = unat (file_size c)" "ss_chunk_size s = chunk_size c"
      "unat (ss_total_chunks s) = unat (total_chunks c)" "transfer_id c = tid"
    using file_chunk_facts(3) [OF assms(3)] by (simp_all add: session_has_def file_chunk_def)
  then have "ss_file_size s = file_size c" "ss_chunk_size s = chunk_size c" "ss_total_chunks s = total_chunks c" "transfer_id c = tid"
    by (simp_all add: word_unat_eq_iff)
  then show ?thesis using assms(1) by (simp add: EnsureStreamSession_def)
qed

subsection \<open>Several transfers\<close>

text \<open>The calls of an application that receives files: chunks as they arrive, each with the operating system's
  answers and the directory, and aborted transfers.\<close>

datatype receive_event = Chunk file_calls path TransferChunk | Abort u64

fun event_transfer :: "receive_event \<Rightarrow> u64" where
  "event_transfer (Chunk E dir c) = transfer_id c"
| "event_transfer (Abort tid) = tid"

fun receive_step :: "receive_event \<Rightarrow> disk \<times> ZFileTransporter \<Rightarrow> (disk \<times> ZFileTransporter) option" where
  "receive_step (Chunk E dir c) (d, t) = map_option (\<lambda>(_, _, d, t). (d, t)) (StreamChunkToFile E c dir d t)"
| "receive_step (Abort tid) (d, t) = Some (AbortStreamedFile tid d t)"

fun receive_run :: "receive_event list \<Rightarrow> disk \<times> ZFileTransporter \<Rightarrow> (disk \<times> ZFileTransporter) option" where
  "receive_run [] x = Some x"
| "receive_run (e # es) x = Option.bind (receive_step e x) (receive_run es)"

fun parsed_event :: "receive_event \<Rightarrow> bool" where
  "parsed_event (Chunk E dir c) = chunk_fits c"
| "parsed_event (Abort tid) = True"

lemma AbortStreamedFile_spec:
  assumes ok: "sessions_ok t" and run: "AbortStreamedFile tid d t = (d', t')"
  shows "sessions_ok t' \<and> only_transfer tid d t d' t'"
proof (cases "active_streams t tid")
  case None
  with run ok show ?thesis by (simp add: AbortStreamedFile_def)
next
  case (Some s)
  obtain dir where p: "ss_temp_path s = temp_path_of dir tid" by (rule sessions_okD [OF ok Some])
  let ?d = "case temp_file s of None \<Rightarrow> d | Some h \<Rightarrow> (case CloseHandle h d of (h, d) \<Rightarrow> destroy_handle h d)"
  have close: "contents (snd (CloseHandle h x)) = contents x" for h x
    using any_writer.close_frame [of h x "fst (CloseHandle h x)" "snd (CloseHandle h x)"] by simp
  have "contents ?d = contents d"
    by (auto simp: destroy_handle_def close split: option.split prod.split) (metis close snd_conv)
  moreover have "d' = remove_file (ss_temp_path s) ?d" "t' = t\<lparr>active_streams := (active_streams t)(tid := None)\<rparr>"
    using run Some p by (auto simp: AbortStreamedFile_def Let_def temp_path_ne)
  ultimately show ?thesis using ok p by (auto simp: only_transfer_def sessions_ok_def remove_file_def)
qed

lemma receive_step_spec:
  assumes "sessions_ok t" and "parsed_event e"
  shows "\<exists>d' t'. receive_step e (d, t) = Some (d', t') \<and> sessions_ok t' \<and> only_transfer (event_transfer e) d t d' t'"
proof (cases e)
  case (Chunk E dir c)
  then show ?thesis using StreamChunkToFile_spec [OF assms(1), of c E dir d] assms(2) by auto
next
  case (Abort tid)
  obtain d' t' where a: "AbortStreamedFile tid d t = (d', t')" by (cases "AbortStreamedFile tid d t")
  with Abort AbortStreamedFile_spec [OF assms(1) a] show ?thesis by simp
qed

text \<open>The state of one transfer among others: not begun, or with the chunks \<open>R\<close>.\<close>

definition transfer_at ::
  "IFileWriteFactory \<Rightarrow> byte list \<Rightarrow> u64 \<Rightarrow> u32 \<Rightarrow> path \<Rightarrow> nat set \<Rightarrow> disk \<Rightarrow> ZFileTransporter \<Rightarrow> bool" where
  "transfer_at G F tid cs p R d t \<longleftrightarrow> sessions_ok t \<and> file_write_factory t = Some G \<and>
     (if R = {} then active_streams t tid = None else transfer_has G F tid cs p R d t)"

fun good_event :: "byte list \<Rightarrow> u64 \<Rightarrow> u32 \<Rightarrow> path \<Rightarrow> receive_event \<Rightarrow> bool" where
  "good_event F tid cs dir (Chunk E dir' c) \<longleftrightarrow>
     (if transfer_id c = tid then file_chunk F tid cs c \<and> dir' = dir \<and> willing E (temp_path_of dir tid) else chunk_fits c)"
| "good_event F tid cs dir (Abort x) \<longleftrightarrow> x \<noteq> tid"

fun indices :: "u64 \<Rightarrow> receive_event list \<Rightarrow> nat list" where
  "indices tid [] = []"
| "indices tid (Chunk E dir c # es) = (if transfer_id c = tid then [unat (chunk_index c)] else []) @ indices tid es"
| "indices tid (Abort x # es) = indices tid es"

lemma other_event:
  assumes at: "transfer_at G F tid cs (temp_path_of dir tid) R d t" and e: "event_transfer e \<noteq> tid" "parsed_event e"
  shows "\<exists>d' t'. receive_step e (d, t) = Some (d', t') \<and> transfer_at G F tid cs (temp_path_of dir tid) R d' t'"
proof -
  from at have ok: "sessions_ok t" by (simp add: transfer_at_def)
  obtain d' t' where r: "receive_step e (d, t) = Some (d', t')" "sessions_ok t'" "only_transfer (event_transfer e) d t d' t'"
    using receive_step_spec [OF ok e(2)] by blast
  have "temp_path_of dir tid \<noteq> temp_path_of dir2 (event_transfer e)" for dir2 using temp_path_inj e(1) by metis
  then have "contents d' (temp_path_of dir tid) = contents d (temp_path_of dir tid)" "active_streams t' tid = active_streams t tid"
      "file_write_factory t' = file_write_factory t"
    using r(3) e(1) by (simp_all add: only_transfer_def)
  then have "transfer_at G F tid cs (temp_path_of dir tid) R d' t'"
    using at r(2) by (auto simp: transfer_at_def transfer_has_def intro: session_frame split: if_splits)
  with r(1) show ?thesis by blast
qed

lemma own_chunk:
  assumes at: "transfer_at G F tid cs (temp_path_of dir tid) R d t" and chunk: "file_chunk F tid cs c"
    and E: "willing E (temp_path_of dir tid)" and size: "length F < 2 ^ 63" "unat cs < 2 ^ 31"
    and first: "R = {} \<Longrightarrow> unat (chunk_index c) = 0"
  shows "\<exists>d' t'. StreamChunkToFile E c dir d t =
      Some (True, insert (unat (chunk_index c)) R = {..<chunks_of F (unat cs)}, d', t') \<and>
    transfer_at G F tid cs (temp_path_of dir tid) (insert (unat (chunk_index c)) R) d' t'"
proof -
  let ?p = "temp_path_of dir tid"
  from at have ok: "sessions_ok t" "file_write_factory t = Some G" by (simp_all add: transfer_at_def)
  have acc: "accepts E ?p" using E by (simp add: willing_def)
  obtain d' t' where run: "StreamChunkToFile E c dir d t =
        Some (True, insert (unat (chunk_index c)) R = {..<chunks_of F (unat cs)}, d', t')"
      "transfer_has G F tid cs ?p (insert (unat (chunk_index c)) R) d' t'"
  proof (cases "R = {}")
    case True
    then have "active_streams t tid = None" using at by (simp add: transfer_at_def)
    then obtain s d1 where "EnsureStreamSession E c dir d t = (True, d1, set_session tid s t)" "session_has G F cs ?p {} d1 s"
      using start_transfer [OF chunk first [OF True] _ ok(2) refl E size(1), of d] by blast
    then show ?thesis
      using stream_in_session [OF _ _ _ chunk acc size, of dir d t d1 "set_session tid s t" s G R] that True by auto
  next
    case False
    then obtain s where s: "active_streams t tid = Some s" "session_has G F cs ?p R d s"
      using at by (auto simp: transfer_at_def transfer_has_def)
    show ?thesis
      by (rule stream_in_session [OF ensure_existing [OF s chunk] s chunk acc size]) (rule that)
  qed
  have fits: "chunk_fits c" using chunk by (simp add: file_chunk_def)
  have "sessions_ok t'" "file_write_factory t' = Some G"
    using StreamChunkToFile_spec [OF ok(1) fits, of E dir d] run(1) ok(2) by (auto simp: only_transfer_def)
  with run show ?thesis by (auto simp: transfer_at_def)
qed

lemma receive_run_transfer:
  assumes "transfer_at G F tid cs (temp_path_of dir tid) R d t" and "list_all (good_event F tid cs dir) es"
    and "length F < 2 ^ 63" "unat cs < 2 ^ 31" and "R = {} \<Longrightarrow> indices tid es \<noteq> [] \<Longrightarrow> hd (indices tid es) = 0"
  shows "\<exists>d' t'. receive_run es (d, t) = Some (d', t') \<and>
    transfer_at G F tid cs (temp_path_of dir tid) (R \<union> set (indices tid es)) d' t'"
  using assms(1,2,5)
proof (induction es arbitrary: R d t)
  case Nil
  then show ?case by simp
next
  case (Cons e es)
  let ?at = "transfer_at G F tid cs (temp_path_of dir tid)"
  show ?case
  proof (cases "event_transfer e = tid")
    case False
    then have "parsed_event e" "indices tid (e # es) = indices tid es" using Cons.prems(2) by (cases e; simp split: if_splits)+
    then show ?thesis using other_event [OF Cons.prems(1) False] Cons.IH [of R] Cons.prems(2,3) by fastforce
  next
    case True
    then obtain E c where e: "e = Chunk E dir c" "transfer_id c = tid" "file_chunk F tid cs c" "willing E (temp_path_of dir tid)"
      using Cons.prems(2) by (cases e) auto
    then have ix: "indices tid (e # es) = unat (chunk_index c) # indices tid es" by simp
    obtain d1 t1 where "receive_step e (d, t) = Some (d1, t1)" "?at (insert (unat (chunk_index c)) R) d1 t1"
      using own_chunk [OF Cons.prems(1) e(3,4) assms(3,4)] Cons.prems(3) ix e(1) by fastforce
    then show ?thesis
      using Cons.IH [of "insert (unat (chunk_index c)) R" d1 t1] Cons.prems(2) ix by auto
  qed
qed

subsection \<open>The finished file\<close>

lemma FinalizeStreamedFile_complete:
  assumes has: "transfer_has G F tid cs p {..<chunks_of F (unat cs)} d t" and cs: "0 < unat cs" and size: "length F < 2 ^ 63"
    and E: "willing E p" and out: "renames E p output" "output \<noteq> p"
  obtains d' t' where "FinalizeStreamedFile E tid output d t = (True, d', t')" "contents d' output = Some F"
    "contents d' p = None" "\<And>q. q \<noteq> p \<Longrightarrow> q \<noteq> output \<Longrightarrow> contents d' q = contents d q"
    "active_streams t' = (active_streams t)(tid := None)"
proof -
  obtain s where s: "active_streams t tid = Some s" and h: "session_has G F cs p {..<chunks_of F (unat cs)} d s"
    using has by (auto simp: transfer_has_def)
  have complete: "completed s" using session_completed [OF h cs] by simp
  obtain w where w: "temp_file s = Some w" "handle_writes G p (ss_file_size s) w" and path: "ss_temp_path s = p"
    and sum: "expected_file_checksum s = ComputeChecksum F"
    using h complete by (auto simp: session_has_def completed_def)
  have "contents d p = Some F" using h chunks_cover [OF cs, of F] by (auto simp: session_has_def dest: has_part_all)
  moreover obtain w' d1 where f: "FlushAndClose E w d = (True, w', d1)"
    using any_writer.flush_serves [OF w(2), of E d] E by (cases "FlushAndClose E w d") (auto simp: willing_def)
  moreover let ?d = "destroy_handle w' d1"
  have "contents ?d = contents d1" "contents d1 = contents d"
    using any_writer.close_frame [of w' d1 "fst (CloseHandle w' d1)" ?d] any_writer.flush_frame [OF f]
    by (simp_all add: destroy_handle_def)
  ultimately have F: "contents ?d p = Some F" and frame: "contents ?d = contents d" by simp_all
  then have check: "ComputeFileChecksum E p ?d = Some (expected_file_checksum s)"
    using ComputeFileChecksum_eq [OF F _ size] E sum by (simp add: willing_def)
  let ?d2 = "set_contents output F (remove_file p (remove_file output ?d))"
  have "FinalizeStreamedFile E tid output d t =
      (True, ?d2, set_session tid (s\<lparr>temp_file := None\<rparr>) t\<lparr>active_streams := (active_streams t)(tid := None)\<rparr>)"
    using s complete w(1) f path check F out by (simp add: FinalizeStreamedFile_def Let_def rename_file_def remove_file_def)
  then show ?thesis
    using that frame out(2) by (simp add: set_contents_def remove_file_def)
qed

subsection \<open>Assembling\<close>

lemma assemble_chunk_small:
  assumes "accepts E p" and "stream_path f = p" "stream_open f" "stream_out f" "\<not> stream_fail f"
    and c: "contents d p = Some c" "length c = stream_pos f" and len: "length data < 2 ^ 31"
  obtains f' d' where "assemble_chunk E data 0 w f d = (True, w + of_nat (length data), f', d')"
    "contents d' = (contents d)(p \<mapsto> c @ data)" "stream_pos f' = stream_pos f + length data"
    "stream_path f' = p" "stream_open f'" "stream_out f'" "\<not> stream_fail f'"
proof (cases "data = []")
  case True
  show ?thesis
    by (rule that [of f d]) (use True assms in \<open>simp_all add: assemble_chunk.simps map_upd_triv\<close>)
next
  case False
  have "2 ^ 32 \<le> stored E p (stream_pos f)" using assms(1) by (simp add: accepts_def)
  then have room: "min (length data) (stored E p (stream_pos f)) = length data" using len by simp
  let ?f = "f\<lparr>stream_pos := stream_pos f + length data\<rparr>" and ?d = "patch_file p (stream_pos f) data d"
  have patch: "patch (stream_pos f) data c = c @ data" using False c(2) by (simp add: patch_def memcpy_at_def)
  have wr: "WriteAtCurrentPos E data (as_int (length data)) f d = (int (length data), ?f, ?d)"
    using assms(2-5) len room by (simp add: WriteAtCurrentPos_def stream_write_def Let_def)
  have "assemble_chunk E data 0 w f d = (True, w + of_nat (length data), ?f, ?d)"
    using False wr by (subst assemble_chunk.simps) (simp add: assemble_chunk.simps)
  then show ?thesis
    by (rule that) (use assms(2-5) patch_file_frame(3) [OF c(1)] patch in simp_all)
qed

lemma assemble_chunks_all:
  assumes "accepts E p" and "stream_path f = p" "stream_open f" "stream_out f" "\<not> stream_fail f"
    and "contents d p = Some c" "length c = stream_pos f"
    and "list_all2 (\<lambda>i data. chunks i = Some data \<and> length data < 2 ^ 31) is datas"
  shows "\<exists>d'. assemble_chunks E chunks is w k f d =
      (Some (w + of_nat (length (concat datas)), UpdateChecksum (concat datas) k), d') \<and>
    contents d' = (contents d)(p \<mapsto> c @ concat datas)"
  using assms(8,2-7)
proof (induction "is" datas arbitrary: w k f d c rule: list_all2_induct)
  case Nil
  then show ?case by (simp add: map_upd_triv)
next
  case (Cons i "is" data datas)
  from Cons.hyps(1) have i: "chunks i = Some data" "length data < 2 ^ 31" by simp_all
  obtain f' d' where step: "assemble_chunk E data 0 w f d = (True, w + of_nat (length data), f', d')"
      "contents d' = (contents d)(p \<mapsto> c @ data)" "stream_pos f' = stream_pos f + length data"
      "stream_path f' = p" "stream_open f'" "stream_out f'" "\<not> stream_fail f'"
    using assemble_chunk_small [OF assms(1) Cons.prems(1-6) i(2)] by metis
  have "length (c @ data) = stream_pos f'" using step(3) Cons.prems(6) by simp
  from Cons.IH [OF step(4-7) _ this, of d' "w + of_nat (length data)" "UpdateChecksum data k"]
  show ?case using step(1,2) i(1) by (auto simp: UpdateChecksum_append add.assoc fun_upd_same simp del: fun_upd_apply)
qed

subsection \<open>Properties\<close>

lemma transfer_completes:
  assumes ok: "sessions_ok t" "file_write_factory t = Some G" "active_streams t tid = None"
    and es: "list_all (good_event F tid cs dir) es" "hd (indices tid es) = 0" "set (indices tid es) = {..<chunks_of F (unat cs)}"
    and size: "length F < 2 ^ 63" "0 < unat cs" "unat cs < 2 ^ 31"
    and E: "willing E (temp_path_of dir tid)" "renames E (temp_path_of dir tid) output" "output \<noteq> temp_path_of dir tid"
  shows "\<exists>d1 t1 d2 t2. receive_run es (d, t) = Some (d1, t1) \<and> FinalizeStreamedFile E tid output d1 t1 = (True, d2, t2) \<and>
    contents d2 output = Some F \<and> contents d2 (temp_path_of dir tid) = None \<and>
    (\<forall>q. q \<noteq> output \<longrightarrow> q \<noteq> temp_path_of dir tid \<longrightarrow> contents d2 q = contents d1 q) \<and> active_streams t2 tid = None"
proof -
  let ?p = "temp_path_of dir tid"
  have "transfer_at G F tid cs ?p {} d t" using ok by (simp add: transfer_at_def)
  then obtain d1 t1 where run: "receive_run es (d, t) = Some (d1, t1)"
      "transfer_at G F tid cs ?p ({} \<union> set (indices tid es)) d1 t1"
    using receive_run_transfer [OF _ es(1) size(1,3), of G "{}" d t] es(2) by blast
  have "chunks_of F (unat cs) \<noteq> 0"
  proof (cases "length F = 0")
    case False
    then have "0 < length F" by linarith
    from chunk_of_byte(1) [OF size(2) this] show ?thesis by simp
  qed (simp add: chunks_of_def)
  then have "transfer_has G F tid cs ?p {..<chunks_of F (unat cs)} d1 t1"
    using run(2) es(3) by (simp add: transfer_at_def lessThan_empty_iff)
  then show ?thesis using FinalizeStreamedFile_complete [OF _ size(2,1) E] run(1) by (metis fun_upd_same)
qed

text \<open>A file that is streamed is reconstructed.  Its chunks may arrive in any order after the first, more
  than once, and mixed with the chunks of other transfers, which may be aborted, with either kind of
  file writer; when all have arrived, finalizing moves to the output path exactly the file that was
  sent, removes the temporary file and touches no other.\<close>

theorem streamed_file_reconstructed:
  assumes "sessions_ok t" "file_write_factory t = Some G" "active_streams t tid = None"
    and "list_all (good_event F tid cs dir) es" "hd (indices tid es) = 0" "set (indices tid es) = {..<chunks_of F (unat cs)}"
    and "length F < 2 ^ 63" "0 < unat cs" "unat cs < 2 ^ 31"
    and "willing E (temp_path_of dir tid)" "renames E (temp_path_of dir tid) output" "output \<noteq> temp_path_of dir tid"
  shows "\<exists>d1 t1 d2 t2. receive_run es (d, t) = Some (d1, t1) \<and> FinalizeStreamedFile E tid output d1 t1 = (True, d2, t2) \<and>
    contents d2 output = Some F \<and> contents d2 (temp_path_of dir tid) = None \<and>
    (\<forall>q. q \<noteq> output \<longrightarrow> q \<noteq> temp_path_of dir tid \<longrightarrow> contents d2 q = contents d1 q) \<and> active_streams t2 tid = None"
  using assms by (rule transfer_completes)

definition sample_part :: "u32 \<Rightarrow> TransferChunk" where
  "sample_part i = \<lparr>transfer_id = 7, file_size = 3, chunk_size = 2, chunk_index = i, total_chunks = 2,
     chunk_checksum = 0, file_checksum = (if i = 0 then 0 else ComputeChecksum [7, 8, 9]), has_file_name = (i = 0),
     is_last_chunk = (i = 1), file_name = (if i = 0 then [0x61] else []), chunk_data = (if i = 0 then [7, 8] else [9])\<rparr>"

lemma sample_part_chunks: "file_chunk [7, 8, 9] 7 2 (sample_part 0)" "file_chunk [7, 8, 9] 7 2 (sample_part 1)"
  by (simp_all add: file_chunk_def sample_part_def chunk_fits_def Let_def unat_chunk_start block_at_def)

lemma all_calls_willing: "willing all_calls p"
  by (simp add: willing_def all_calls_def accepts_def)

lemma sample_chunks_of: "chunks_of [7, 8, 9] (unat (2 :: u32)) = 2"
  by (simp add: chunks_of_def)

definition sample_events :: "receive_event list" where
  "sample_events = [Chunk all_calls [] (sample_part 0), Abort 9, Chunk all_calls [] (sample_part 1), Chunk all_calls [] (sample_part 0)]"

theorem streamed_file_reconstructed_witness:
  "\<exists>d1 t1 d2 t2. receive_run sample_events (no_files, new_transporter (Some MemoryMappedFileWriteFactory)) = Some (d1, t1) \<and>
    FinalizeStreamedFile all_calls 7 [0x62] d1 t1 = (True, d2, t2) \<and> contents d2 [0x62] = Some [7, 8, 9]"
proof -
  have "transfer_id (sample_part i) = 7" "chunk_index (sample_part i) = i" for i by (simp_all add: sample_part_def)
  then have "list_all (good_event [7, 8, 9] 7 2 []) sample_events" "hd (indices 7 sample_events) = 0"
      "set (indices 7 sample_events) = {..<chunks_of [7, 8, 9] (unat (2 :: u32))}"
    using sample_part_chunks sample_chunks_of by (auto simp: sample_events_def all_calls_willing)
  moreover have "length (temp_path_of [] 7) > 1" by (simp add: temp_path_of_def)
  then have "[0x62] \<noteq> temp_path_of [] 7" by (metis length_Cons list.size(3) One_nat_def less_irrefl)
  ultimately show ?thesis
    using streamed_file_reconstructed [of "new_transporter (Some MemoryMappedFileWriteFactory)" MemoryMappedFileWriteFactory 7
        "[7, 8, 9]" 2 "[]" sample_events all_calls "[0x62]" no_files]
    by (auto simp: new_transporter_def sessions_ok_def all_calls_willing) (auto simp: all_calls_def)
qed

text \<open>A chunk that overtakes the first one is lost.  Without a session, which only the chunk with the
  file name opens, it is refused and nothing remembers it; unless it arrives again (the reliability
  layer, which has acknowledged it, does not deliver it a second time) the transfer never completes:
  after all the other chunks, in any order and however often, finalizing is still refused.\<close>

theorem early_chunk_is_lost:
  assumes ok: "sessions_ok t" "file_write_factory t = Some G" "active_streams t tid = None"
    and early: "file_chunk F tid cs c" "unat (chunk_index c) \<noteq> 0"
    and es: "list_all (good_event F tid cs dir) es" "hd (indices tid es) = 0" "unat (chunk_index c) \<notin> set (indices tid es)"
    and size: "length F < 2 ^ 63" "unat cs < 2 ^ 31"
  shows "StreamChunkToFile E c dir d t = Some (False, False, d, t) \<and>
    (\<exists>d1 t1. receive_run (Chunk E dir c # es) (d, t) = Some (d1, t1) \<and> FinalizeStreamedFile E' tid output d1 t1 = (False, d1, t1))"
proof -
  let ?p = "temp_path_of dir tid" and ?R = "{} \<union> set (indices tid es)"
  have refused: "StreamChunkToFile E c dir d t = Some (False, False, d, t)"
    using ok(3) file_chunk_facts(6) [OF early(1)] early by (simp add: StreamChunkToFile_def EnsureStreamSession_def file_chunk_def)
  have "transfer_at G F tid cs ?p {} d t" using ok by (simp add: transfer_at_def)
  then obtain d1 t1 where run: "receive_run es (d, t) = Some (d1, t1)" "transfer_at G F tid cs ?p ?R d1 t1"
    using receive_run_transfer [OF _ es(1) size, of G "{}" d t] es(2) by blast
  have "unat (chunk_index c) < chunks_of F (unat cs)" using file_chunk_facts(2,3) [OF early(1)] by simp
  then have "?R \<noteq> {..<chunks_of F (unat cs)}" using es(3) by auto
  then have "FinalizeStreamedFile E' tid output d1 t1 = (False, d1, t1)"
    using run(2) session_completed [OF _ file_chunk_facts(1) [OF early(1)]]
    by (auto simp: transfer_at_def transfer_has_def FinalizeStreamedFile_def split: if_splits)
  with refused run(1) show ?thesis by simp
qed

theorem early_chunk_is_lost_witness:
  "\<exists>d1 t1. receive_run [Chunk all_calls [] (sample_part 1), Chunk all_calls [] (sample_part 0)]
      (no_files, new_transporter None) = Some (d1, t1) \<and>
    FinalizeStreamedFile all_calls 7 [0x62] d1 t1 = (False, d1, t1)"
proof -
  have f: "transfer_id (sample_part i) = 7" "chunk_index (sample_part i) = i" for i by (simp_all add: sample_part_def)
  have "list_all (good_event [7, 8, 9] 7 2 []) [Chunk all_calls [] (sample_part 0)]"
    using f sample_part_chunks by (simp add: all_calls_willing)
  then show ?thesis
    using early_chunk_is_lost [of "new_transporter None" PositionalFileWriteFactory 7 "[7, 8, 9]" 2 "sample_part 1" "[]"
        "[Chunk all_calls [] (sample_part 0)]" all_calls no_files all_calls "[0x62]"] sample_part_chunks(2)
    by (auto simp: new_transporter_def GetDefaultFileWriteFactory_def sessions_ok_def f)
qed

text \<open>C28: assembling from chunks in memory writes their concatenation in the order of their numbers and
  succeeds exactly if its size and checksum are the expected ones, where these are given.\<close>

theorem assembled_file_is_concatenation:
  assumes E: "opens E output" "accepts E output" and path: "\<not> ContainsPathTraversal output"
    and n: "count \<noteq> 0" "unat count = length datas"
    and chunks: "\<forall>i < length datas. chunks (of_nat i) = Some (datas ! i) \<and> length (datas ! i) < 2 ^ 31"
    and bound: "length (concat datas) < 2 ^ 64 - 1"
  shows "\<exists>d'. AssembleFileFromChunks E output chunks count expected_size checksum d =
      ((expected_size = u64_max \<or> length (concat datas) = unat expected_size) \<and>
       (checksum = 0 \<or> ComputeChecksum (concat datas) = checksum), d') \<and>
    contents d' = (contents d)(output \<mapsto> concat datas)"
proof -
  let ?f = "\<lparr>stream_path = output, stream_open = True, stream_fail = False, stream_in = False, stream_out = True, stream_pos = 0\<rparr>"
  let ?d = "set_contents output [] d"
  have o: "File_open E output (FLAG_CREATE_ALWAYS OR FLAG_WRITE) d = (?f, ?d)"
    using E(1) by (simp add: File_open_def Let_def FLAG_READ_def FLAG_WRITE_def FLAG_CREATE_ALWAYS_def)
  have l: "list_all2 (\<lambda>i data. chunks i = Some data \<and> length data < 2 ^ 31) (map of_nat [0..<unat count]) datas"
    using chunks n(2) by (simp add: list_all2_conv_all_nth)
  obtain d' where a: "assemble_chunks E chunks (map of_nat [0..<unat count]) 0 kFnv1aOffset ?f ?d =
        (Some (of_nat (length (concat datas)), ComputeChecksum (concat datas)), d')"
      "contents d' = (contents d)(output \<mapsto> concat datas)"
    using assemble_chunks_all [OF E(2) _ _ _ _ _ _ l, of ?f ?d "[]" 0 kFnv1aOffset]
    by (auto simp: set_contents_def ComputeChecksum_def)
  have size: "of_nat (length (concat datas)) = expected_size \<longleftrightarrow> length (concat datas) = unat expected_size"
    using bound by (auto simp: word_unat_eq_iff unat_of_nat)
  show ?thesis using n(1) path o a size by (auto simp: AssembleFileFromChunks_def IsValid_def)
qed

theorem assembled_file_is_concatenation_witness:
  "\<exists>d'. AssembleFileFromChunks all_calls [0x61] ([0 \<mapsto> [7, 8], 1 \<mapsto> [9]]) 2 3 0 no_files = (True, d') \<and>
    contents d' [0x61] = Some [7, 8, 9]"
proof -
  have "\<not> ContainsPathTraversal [0x61]"
    by (simp add: ContainsPathTraversal_def is_separator_def drive_path_def traversal_at_def)
  moreover let ?datas = "[[7, 8], [9]] :: byte list list" and ?m = "[0 \<mapsto> [7, 8], 1 \<mapsto> [9]] :: u32 \<rightharpoonup> byte list"
  have "\<forall>i < length ?datas. ?m (of_nat i) = Some (?datas ! i) \<and> length (?datas ! i) < 2 ^ 31"
    by (auto simp: less_Suc_eq)
  ultimately show ?thesis
    using assembled_file_is_concatenation [of all_calls "[0x61]" 2 ?datas ?m 3 0 no_files]
    by (auto simp: accepts_def all_calls_def)
qed

end
