(* ===== verification/File_Send.thy ===== *)
theory File_Send
  imports Transport Buffer_Pool File_Receive
begin

text \<open>
  The sending side of \<^verbatim>\<open>ZFileTransporter\<close> (\<^verbatim>\<open>src/znet/z_file_transporter.cc\<close>): waiting for room in the
  outgoing queues and \<^verbatim>\<open>SendFile\<close>, which reads the file chunk by chunk, builds the payload of each in
  place and hands it to the transport layer; and the whole way of a file, from \<^verbatim>\<open>SendFile\<close> to the
  receiver's \<^verbatim>\<open>FinalizeStreamedFile\<close>.

  Between two chunks other threads work: the argument \<open>send_world\<close> has, for each chunk, the contents of the
  disk when it is read (somebody may write to the file meanwhile), what the wait for the window
  observes, what the other threads have made of the transport by the time the packet is enqueued, the
  clock and the block the pool hands out.  The result \<open>None\<close> means that the wait still goes on.
\<close>

subsection \<open>Waiting for room\<close>

record TransferTuning =
  tuning_chunk_size :: u64
  max_inflight_chunks :: u64
  max_inflight_bytes :: u64
  allocator_min_cached_blocks :: nat
  backpressure_sleep_ms :: u32
  backpressure_timeout_ms :: u32

definition kDefaultChunkSize :: u64 where "kDefaultChunkSize = 1024"

definition default_tuning :: TransferTuning where
  "default_tuning = \<lparr>tuning_chunk_size = kDefaultChunkSize, max_inflight_chunks = 2048, max_inflight_bytes = 64 * 1024,
     allocator_min_cached_blocks = 128, backpressure_sleep_ms = 1, backpressure_timeout_ms = 120000\<rparr>"

definition window_open :: "TransferTuning \<Rightarrow> OutboundPressure \<Rightarrow> bool" where
  "window_open tuning pressure \<longleftrightarrow>
     (max_inflight_chunks tuning = 0 \<or> control_queued_packets pressure < max_inflight_chunks tuning) \<and>
     (max_inflight_bytes tuning = 0 \<or> control_queued_bytes pressure < max_inflight_bytes tuning)"

text \<open>Each turn of the loop sees the transport and, at its end, the clock; times are in nanoseconds.\<close>

fun wait_turns :: "TransferTuning \<Rightarrow> int \<Rightarrow> (ZAsyncTransportLayer \<times> int) list \<Rightarrow> bool option" where
  "wait_turns tuning start [] = None"
| "wait_turns tuning start ((t, now) # turns) =
     (if state t \<noteq> kConnected then Some False
      else if window_open tuning (GetOutboundPressure t) then Some True
      else if backpressure_timeout_ms tuning > 0 \<and> (now - start) div 1000000 \<ge> uint (backpressure_timeout_ms tuning)
        then Some False
      else wait_turns tuning start turns)"

definition WaitForSendWindow :: "TransferTuning \<Rightarrow> int \<Rightarrow> (ZAsyncTransportLayer \<times> int) list \<Rightarrow> bool option" where
  "WaitForSendWindow tuning start turns =
     (if max_inflight_chunks tuning = 0 \<and> max_inflight_bytes tuning = 0 then Some True
      else wait_turns tuning start turns)"

subsection \<open>Reading and building chunks\<close>

function safe_read :: "disk \<Rightarrow> u64 \<Rightarrow> nat \<Rightarrow> byte list \<Rightarrow> File \<Rightarrow> byte list \<times> File" where
  "safe_read d offset wanted buf f =
     (if length buf < wanted then
        case File_Read (sint (offset + of_nat (length buf))) (as_int (wanted - length buf)) d f of
          (bytes, f) \<Rightarrow> if bytes = [] then (buf, f) else safe_read d offset wanted (buf @ bytes) f
      else (buf, f))"
  by pat_completeness auto
termination
  by (relation "measure (\<lambda>(d, offset, n, buf, f). n - length buf)") (auto simp: neq_Nil_conv)

declare safe_read.simps [simp del]

definition SafeReadChunk :: "disk \<Rightarrow> u64 \<Rightarrow> u32 \<Rightarrow> File \<Rightarrow> byte list \<times> File" where
  "SafeReadChunk d offset wanted f = safe_read d offset (unat wanted) [] f"

text \<open>The counter behind \<^verbatim>\<open>GenerateTransferId\<close> starts at 1.\<close>

definition GenerateTransferId :: "u64 \<Rightarrow> u64 \<times> u64" where
  "GenerateTransferId counter = (counter, counter + 1)"

text \<open>\<^verbatim>\<open>base::Path::BaseName\<close>: what follows the last slash.\<close>

definition BaseName :: "path \<Rightarrow> path" where
  "BaseName p = rev (takeWhile (\<lambda>b. b \<noteq> 0x2F) (rev p))"

record transfer_info =
  ti_transfer_id :: u64
  ti_file_size :: u64
  ti_chunk_size :: u32
  ti_total_chunks :: u32
  ti_file_name :: "byte list"

definition send_payload :: "endian \<Rightarrow> transfer_info \<Rightarrow> u32 \<Rightarrow> byte list \<Rightarrow> u32 \<Rightarrow> byte list" where
  "send_payload h info index data checksum =
     (let last = (index = ti_total_chunks info - 1);
          payload = AppendU32 h [] kWireMagic;
          payload = payload @ [kWireVersion];
          flags = 0;
          flags = (if index = 0 then flags OR kFlagHasFileName else flags);
          flags = (if last then flags OR kFlagLastChunk else flags);
          payload = payload @ [flags];
          payload = AppendU64 h payload (ti_transfer_id info);
          payload = AppendU64 h payload (ti_file_size info);
          payload = AppendU32 h payload (ti_chunk_size info);
          payload = AppendU32 h payload index;
          payload = AppendU32 h payload (ti_total_chunks info);
          payload = AppendU32 h payload (of_nat (length data));
          payload = AppendU32 h payload (ComputeChecksum data);
          payload = AppendU32 h payload (if last then checksum else 0);
          payload = (if index = 0 then AppendU16 h payload (of_nat (length (ti_file_name info))) @ ti_file_name info
                     else AppendU16 h payload 0)
      in payload @ data)"

subsection \<open>Sending a file\<close>

record send_world =
  world_calls :: file_calls
  world_disk :: "nat \<Rightarrow> disk"
  world_start :: "nat \<Rightarrow> int"
  world_turns :: "nat \<Rightarrow> (ZAsyncTransportLayer \<times> int) list"
  world_threads :: "nat \<Rightarrow> ZAsyncTransportLayer \<Rightarrow> ZAsyncTransportLayer"
  world_time :: "nat \<Rightarrow> int"
  world_block :: "nat \<Rightarrow> u64"

definition transfer_flags :: "bool \<Rightarrow> PackageFlags" where
  "transfer_flags use_enc = \<lparr>reliable = True, encrypted = use_enc, compressed = False, priority = High,
     acknowledged = False, awaiting_ack = True, reserved = False\<rparr>"

definition chunk_packet :: "u64 \<Rightarrow> u32 \<Rightarrow> bool \<Rightarrow> byte list \<Rightarrow> OutgoingPacket" where
  "chunk_packet block destination use_enc payload =
     OutgoingPacket_with_data block destination PacketType_FileTransfer Control (transfer_flags use_enc) payload"

record send_state =
  file_offset :: u64
  running_checksum :: u32
  send_file :: File
  send_transport :: ZAsyncTransportLayer
  sent_packets :: "OutgoingPacket list"

text \<open>
  One turn of the loop: \<open>Inl\<close> is a return of \<^verbatim>\<open>false\<close>.  \<open>sent_packets\<close> records the packets handed to
  \<^verbatim>\<open>EnqueuePacket\<close>.
\<close>

definition send_chunk ::
  "endian \<Rightarrow> send_world \<Rightarrow> TransferTuning \<Rightarrow> u32 \<Rightarrow> transfer_info \<Rightarrow> nat \<Rightarrow> send_state \<Rightarrow> (send_state + send_state) option" where
  "send_chunk h W tuning destination info i st =
     (let remaining = (if ti_file_size info > file_offset st then ti_file_size info - file_offset st else 0);
          target_chunk_bytes = ucast (min remaining (ucast (ti_chunk_size info))) :: u32
      in case SafeReadChunk (world_disk W i) (file_offset st) target_chunk_bytes (send_file st) of
        (data, f) \<Rightarrow>
          let bytes_read = of_nat (length data) :: u32; st = st\<lparr>send_file := f\<rparr> in
          if target_chunk_bytes \<noteq> bytes_read \<and> file_offset st + ucast bytes_read < ti_file_size info then Some (Inl st)
          else
            let st = st\<lparr>file_offset := file_offset st + ucast bytes_read,
                        running_checksum := UpdateChecksum data (running_checksum st)\<rparr>;
                payload = send_payload h info (of_nat i) data (running_checksum st)
            in case WaitForSendWindow tuning (world_start W i) (world_turns W i) of
                 None \<Rightarrow> None
               | Some False \<Rightarrow> Some (Inl st)
               | Some True \<Rightarrow>
                   let t = world_threads W i (send_transport st);
                       packet = chunk_packet (world_block W i) destination (encryption_enabled t) payload
                   in case EnqueuePacket (world_time W i) packet t of
                        (ok, t) \<Rightarrow>
                          let st = st\<lparr>send_transport := t, sent_packets := sent_packets st @ [packet]\<rparr>
                          in Some (if ok then Inr st else Inl st))"

fun send_chunks ::
  "endian \<Rightarrow> send_world \<Rightarrow> TransferTuning \<Rightarrow> u32 \<Rightarrow> transfer_info \<Rightarrow> nat list \<Rightarrow> send_state \<Rightarrow> (send_state + send_state) option" where
  "send_chunks h W tuning destination info [] st = Some (Inr st)"
| "send_chunks h W tuning destination info (i # is) st =
     (case send_chunk h W tuning destination info i st of
        None \<Rightarrow> None
      | Some (Inl st) \<Rightarrow> Some (Inl st)
      | Some (Inr st) \<Rightarrow> send_chunks h W tuning destination info is st)"

text \<open>What \<^verbatim>\<open>SendFile\<close> changes: the counter of transfers, the buffer pool and the transport.\<close>

record sender =
  next_transfer_id :: u64
  sender_pool :: PacketBufferPool
  sender_transport :: ZAsyncTransportLayer

definition SendFile ::
  "endian \<Rightarrow> send_world \<Rightarrow> path \<Rightarrow> u32 \<Rightarrow> TransferTuning \<Rightarrow> disk \<Rightarrow> sender \<Rightarrow> (bool \<times> OutgoingPacket list \<times> sender) option" where
  "SendFile h W p destination tuning d s =
     (case File_open (world_calls W) p (FLAG_OPEN OR FLAG_READ) d of
        (f, d) \<Rightarrow>
          if \<not> IsValid f then Some (False, [], s)
          else
            let signed_file_size = GetLength f d in
            if signed_file_size < 0 then Some (False, [], s)
            else
              let size = of_int signed_file_size :: u64 in
              if tuning_chunk_size tuning = 0 \<or> tuning_chunk_size tuning > 0xFFFFFFFF then Some (False, [], s)
              else
                let csize = ucast (tuning_chunk_size tuning) :: u32;
                    total_64 = CalculateTotalChunks size csize
                in if total_64 = 0 \<or> total_64 > 0xFFFFFFFF then Some (False, [], s)
                   else
                     let name = BaseName p in
                     if name = [] \<or> length name > 65535 then Some (False, [], s)
                     else
                       let total = ucast total_64 :: u32;
                           (tid, counter) = GenerateTransferId (next_transfer_id s);
                           pool = BoostClassCacheForSize (kFixedHeaderSize + length name + unat csize)
                                    (allocator_min_cached_blocks tuning) (sender_pool s);
                           s = s\<lparr>next_transfer_id := counter, sender_pool := pool\<rparr>;
                           info = \<lparr>ti_transfer_id = tid, ti_file_size = size, ti_chunk_size = csize,
                                   ti_total_chunks = total, ti_file_name = name\<rparr>;
                           st = \<lparr>file_offset = 0, running_checksum = kFnv1aOffset, send_file = f,
                                 send_transport = sender_transport s, sent_packets = []\<rparr>
                       in case send_chunks h W tuning destination info [0..<unat total] st of
                            None \<Rightarrow> None
                          | Some (Inl st) \<Rightarrow> Some (False, sent_packets st, s\<lparr>sender_transport := send_transport st\<rparr>)
                          | Some (Inr st) \<Rightarrow>
                              Some (file_offset st = size, sent_packets st, s\<lparr>sender_transport := send_transport st\<rparr>))"

definition SendFile_to :: "endian \<Rightarrow> send_world \<Rightarrow> path \<Rightarrow> u32 \<Rightarrow> disk \<Rightarrow> sender \<Rightarrow> (bool \<times> OutgoingPacket list \<times> sender) option" where
  "SendFile_to h W p destination d s = SendFile h W p destination default_tuning d s"

definition SendFile_all :: "endian \<Rightarrow> send_world \<Rightarrow> path \<Rightarrow> disk \<Rightarrow> sender \<Rightarrow> (bool \<times> OutgoingPacket list \<times> sender) option" where
  "SendFile_all h W p d s = SendFile h W p to_all default_tuning d s"

subsection \<open>Reading\<close>

definition readable :: "path \<Rightarrow> File \<Rightarrow> bool" where
  "readable p f \<longleftrightarrow> stream_path f = p \<and> stream_open f \<and> stream_in f \<and> \<not> stream_fail f"

lemma nat_as_int_le: "n < 2 ^ 32 \<Longrightarrow> nat (as_int n) \<le> n"
  using as_int_large [of n] by (cases "n < 2 ^ 31") simp_all

lemma safe_read_le:
  "wanted < 2 ^ 32 \<Longrightarrow> length buf \<le> wanted \<Longrightarrow> length (fst (safe_read d offset wanted buf f)) \<le> wanted"
proof (induction d offset wanted buf f rule: safe_read.induct)
  case (1 d offset wanted buf f)
  obtain bytes f' where r: "File_Read (sint (offset + of_nat (length buf))) (as_int (wanted - length buf)) d f = (bytes, f')"
    by (cases "File_Read (sint (offset + of_nat (length buf))) (as_int (wanted - length buf)) d f")
  then have "length bytes \<le> nat (as_int (wanted - length buf))"
    by (auto simp: File_Read_def Let_def split: if_splits)
  also have "\<dots> \<le> wanted - length buf" using "1.prems"(1) by (intro nat_as_int_le) simp
  finally have "length (buf @ bytes) \<le> wanted" using "1.prems"(2) by simp
  then show ?case using "1.IH" [OF _ r [symmetric]] "1.prems" r by (subst safe_read.simps) simp
qed

lemma SafeReadChunk_le: "length (fst (SafeReadChunk d offset n f)) \<le> unat n"
  using unat_bound [of n] by (simp add: SafeReadChunk_def safe_read_le)

lemma SafeReadChunk_full:
  assumes f: "readable p f" "contents d p = Some F" and n: "unat off + unat n \<le> length F" "unat n < 2 ^ 31" and F: "length F < 2 ^ 63"
  obtains f' where "SafeReadChunk d off n f = (block_at (unat off) (unat n) F, f')" "readable p f'"
proof (cases "unat n = 0")
  case True
  show ?thesis by (rule that [of f]) (use True f(1) in \<open>simp_all add: SafeReadChunk_def safe_read.simps\<close>)
next
  case False
  let ?bytes = "block_at (unat off) (unat n) F"
  let ?f = "f\<lparr>stream_pos := unat off + unat n, stream_fail := False\<rparr>"
  have len: "length ?bytes = unat n" using n(1) by simp
  then have ne: "?bytes \<noteq> []" using False by (metis list.size(3))
  have "sint off = uint off" using n(1) F by (intro sint_unat) linarith
  then have "File_Read (sint off) (as_int (unat n)) d f = (?bytes, ?f)"
    using f n len by (simp add: File_Read_def Let_def readable_def file_content_def del: length_block_at)
  then have "SafeReadChunk d off n f = (?bytes, ?f)"
    using False ne len unfolding SafeReadChunk_def
    by (subst safe_read.simps) (simp add: safe_read.simps del: length_block_at)
  then show ?thesis by (rule that) (use f(1) in \<open>simp add: readable_def\<close>)
qed

subsection \<open>The payload in place is the one of \<^verbatim>\<open>BuildTransferChunkPayload\<close>\<close>

definition sent_chunk :: "transfer_info \<Rightarrow> u32 \<Rightarrow> byte list \<Rightarrow> u32 \<Rightarrow> TransferChunk" where
  "sent_chunk info index data checksum =
     \<lparr>transfer_id = ti_transfer_id info, file_size = ti_file_size info, chunk_size = ti_chunk_size info, chunk_index = index,
      total_chunks = ti_total_chunks info, chunk_checksum = ComputeChecksum data,
      file_checksum = (if index = ti_total_chunks info - 1 then checksum else 0), has_file_name = (index = 0),
      is_last_chunk = (index = ti_total_chunks info - 1), file_name = (if index = 0 then ti_file_name info else []),
      chunk_data = data\<rparr>"

lemma send_payload_bytes:
  "send_payload h info index data checksum =
     (let c = sent_chunk info index data checksum in chunk_header h c (length (file_name c)) @ file_name c @ chunk_data c)"
  by (simp add: send_payload_def sent_chunk_def chunk_header_def wire_flags_def Let_def Append_eq)

text \<open>The numbers of a transfer as \<^verbatim>\<open>SendFile\<close> computes them.\<close>

definition info_ok :: "transfer_info \<Rightarrow> bool" where
  "info_ok info \<longleftrightarrow> ti_transfer_id info \<noteq> 0 \<and> ti_chunk_size info \<noteq> 0 \<and> ti_total_chunks info \<noteq> 0 \<and>
     CalculateTotalChunks (ti_file_size info) (ti_chunk_size info) = ucast (ti_total_chunks info) \<and>
     ti_file_name info \<noteq> [] \<and> length (ti_file_name info) \<le> 65535"

lemma info_numbers:
  assumes "info_ok info"
  shows "unat (ti_total_chunks info) = (if unat (ti_file_size info) = 0 then 1
      else (unat (ti_file_size info) + unat (ti_chunk_size info) - 1) div unat (ti_chunk_size info))" (is "?n = _")
    and "unat (ti_file_size info) \<le> unat (ti_total_chunks info) * unat (ti_chunk_size info)"
    and "i < unat (ti_total_chunks info) \<Longrightarrow> i * unat (ti_chunk_size info) \<le> unat (ti_file_size info)"
proof -
  let ?fs = "unat (ti_file_size info)" and ?cs = "unat (ti_chunk_size info)"
  have cs: "0 < ?cs" using assms by (simp add: info_ok_def unat_gt_0)
  show n: "?n = (if ?fs = 0 then 1 else (?fs + ?cs - 1) div ?cs)"
    using CalculateTotalChunks_nat [of "ti_file_size info" "ti_chunk_size info" "ti_total_chunks info"] assms
    by (simp add: info_ok_def unat_eq_zero)
  show "?fs \<le> ?n * ?cs"
  proof (cases "?fs = 0")
    case False
    have "?fs + ?cs - 1 < (?fs + ?cs - 1) div ?cs * ?cs + ?cs"
      using dividend_less_div_times [OF cs, of "?fs + ?cs - 1"] by (simp only: add.commute)
    then show ?thesis using n False by simp
  qed simp
  show "i * ?cs \<le> ?fs" if "i < ?n"
  proof (cases "?fs = 0")
    case False
    have "Suc i \<le> (?fs + ?cs - 1) div ?cs" using that n False by simp
    then have "Suc i * ?cs \<le> (?fs + ?cs - 1) div ?cs * ?cs" by (rule mult_le_mono1)
    also have "\<dots> \<le> ?fs + ?cs - 1" by (rule div_times_less_eq_dividend)
    finally show ?thesis using cs by simp
  qed (use that n in simp)
qed

lemma send_payload_build:
  assumes ok: "info_ok info" and i: "i < unat (ti_total_chunks info)"
    and len: "length data = min (unat (ti_chunk_size info)) (unat (ti_file_size info) - i * unat (ti_chunk_size info))"
  shows "BuildTransferChunkPayload h (sent_chunk info (of_nat i) data checksum) = Some (send_payload h info (of_nat i) data checksum)"
proof -
  let ?c = "sent_chunk info (of_nat i) data checksum"
  have ui: "unat (of_nat i :: u32) = i" using i unat_bound [of "ti_total_chunks info"] by (simp add: unat_of_nat)
  have idx: "chunk_index ?c < total_chunks ?c" using i ui by (simp add: sent_chunk_def word_less_nat_alt)
  have hdr: "header_ok ?c" using ok idx by (auto simp: header_ok_def info_ok_def sent_chunk_def not_le)
  have start: "unat (chunk_start ?c) = i * unat (ti_chunk_size info)" using unat_chunk_start [of ?c] ui by (simp add: sent_chunk_def)
  then have le: "chunk_start ?c \<le> file_size ?c" using info_numbers(3) [OF ok i] by (simp add: word_le_nat_alt sent_chunk_def)
  have bytes: "unat (expected_chunk_bytes ?c) = length data"
    using le start len
    by (simp add: expected_chunk_bytes_def min_def unat_ucast_32_64 word_le_nat_alt unat_sub sent_chunk_def split: if_splits)
  have empty: "data = []" if "single_empty_chunk ?c" using that len by (simp add: single_empty_chunk_def sent_chunk_def)
  have le': "\<not> file_size ?c < chunk_start ?c" using le by simp
  have small: "\<not> unat (chunk_size ?c) < length (chunk_data ?c)" using len by (simp add: sent_chunk_def)
  have names: "\<not> (has_file_name ?c \<and> file_name ?c = [])" "\<not> 65535 < length (file_name ?c)"
      "\<not> (\<not> has_file_name ?c \<and> file_name ?c \<noteq> [])"
    using ok by (simp_all add: sent_chunk_def info_ok_def)
  have fit: "\<not> (if single_empty_chunk ?c then chunk_data ?c \<noteq> [] else length (chunk_data ?c) \<noteq> unat (expected_chunk_bytes ?c))"
    using empty bytes by (simp add: sent_chunk_def)
  show ?thesis
    unfolding BuildTransferChunkPayload_def
    by (simp only: hdr names le' fit small not_True_eq_False if_False send_payload_bytes Let_def)
qed

subsection \<open>The loop\<close>

lemma target_bytes:
  assumes "unat (file_offset st) = i * unat (ti_chunk_size info)" "i * unat (ti_chunk_size info) \<le> unat (ti_file_size info)"
  shows "unat (ucast (min (if ti_file_size info > file_offset st then ti_file_size info - file_offset st else 0)
      (ucast (ti_chunk_size info))) :: u32) = min (unat (ti_chunk_size info)) (unat (ti_file_size info) - i * unat (ti_chunk_size info))"
proof -
  let ?rem = "if ti_file_size info > file_offset st then ti_file_size info - file_offset st else 0"
  have "unat ?rem = unat (ti_file_size info) - i * unat (ti_chunk_size info)"
    using assms by (auto simp: word_less_nat_alt unat_sub word_le_nat_alt)
  then have "unat (min ?rem (ucast (ti_chunk_size info))) =
      min (unat (ti_file_size info) - i * unat (ti_chunk_size info)) (unat (ti_chunk_size info))"
    by (simp only: min_def word_le_nat_alt unat_ucast_32_64 if_distrib [of unat])
  moreover have "unat (ucast (w :: u64) :: u32) = unat w" if "unat w < 2 ^ 32" for w
    using that by (simp add: unsigned_ucast_eq take_bit_nat_eq_self)
  ultimately show ?thesis using unat_bound [of "ti_chunk_size info"] by (simp add: min.commute)
qed

lemma send_chunk_spec:
  assumes step: "send_chunk h W tuning dst info i st = Some (Inr st')"
    and off: "unat (file_offset st) = i * unat (ti_chunk_size info)" "i * unat (ti_chunk_size info) \<le> unat (ti_file_size info)"
  obtains data block enc where
    "length data = min (unat (ti_chunk_size info)) (unat (ti_file_size info) - i * unat (ti_chunk_size info))"
    "unat (file_offset st') = unat (file_offset st) + length data"
    "running_checksum st' = UpdateChecksum data (running_checksum st)"
    "sent_packets st' = sent_packets st @ [chunk_packet block dst enc (send_payload h info (of_nat i) data (running_checksum st'))]"
    "\<And>p F. readable p (send_file st) \<Longrightarrow> contents (world_disk W i) p = Some F \<Longrightarrow> length F = unat (ti_file_size info) \<Longrightarrow>
      length F < 2 ^ 63 \<Longrightarrow> unat (ti_chunk_size info) < 2 ^ 31 \<Longrightarrow>
      readable p (send_file st') \<and> data = block_at (unat (file_offset st)) (length data) F"
proof -
  let ?fs = "unat (ti_file_size info)" and ?cs = "unat (ti_chunk_size info)"
  let ?rem = "if ti_file_size info > file_offset st then ti_file_size info - file_offset st else 0"
  let ?target = "ucast (min ?rem (ucast (ti_chunk_size info))) :: u32"
  have target: "unat ?target = min ?cs (?fs - i * ?cs)" by (rule target_bytes [OF off])
  obtain data f where r: "SafeReadChunk (world_disk W i) (file_offset st) ?target (send_file st) = (data, f)"
    by (cases "SafeReadChunk (world_disk W i) (file_offset st) ?target (send_file st)")
  let ?n = "of_nat (length data) :: u32"
  have le: "length data \<le> unat ?target" using SafeReadChunk_le [of "world_disk W i" "file_offset st" ?target "send_file st"] r by simp
  then have n: "unat ?n = length data" using unat_bound [of ?target] by (simp add: unat_of_nat)
  have nofs: "unat (file_offset st + ucast ?n) = unat (file_offset st) + length data"
  proof -
    have "length data \<le> ?fs - i * ?cs" using le target by simp
    then have "unat (file_offset st) + length data \<le> ?fs" using off by linarith
    then have "unat (file_offset st) + unat (ucast ?n :: u64) < 2 ^ 64" using unat_bound [of "ti_file_size info"] n by (simp add: unat_ucast_32_64)
    then show ?thesis using n by (simp add: unat_word_ariths unat_ucast_32_64)
  qed
  have full: "?target = ?n"
  proof (rule ccontr)
    assume ne: "?target \<noteq> ?n"
    then have "length data < unat ?target" using le n by (metis le_neq_implies_less word_unat_eq_iff)
    then have "length data < ?fs - i * ?cs" using target by simp
    then have "unat (file_offset st + ucast ?n) < ?fs" using nofs off by linarith
    then have "file_offset st + ucast ?n < ti_file_size info" by (simp only: word_less_nat_alt)
    then show False using step r ne by (simp add: send_chunk_def Let_def)
  qed
  then have len: "length data = min ?cs (?fs - i * ?cs)" using target n by simp
  let ?k = "UpdateChecksum data (running_checksum st)"
  let ?t = "world_threads W i (send_transport st)"
  let ?packet = "chunk_packet (world_block W i) dst (encryption_enabled ?t) (send_payload h info (of_nat i) data ?k)"
  let ?st = "st\<lparr>send_file := f, file_offset := file_offset st + ucast ?n, running_checksum := ?k\<rparr>"
  let ?sent = "\<lambda>t. ?st\<lparr>send_transport := t, sent_packets := sent_packets st @ [?packet]\<rparr>"
  have eq: "send_chunk h W tuning dst info i st =
      (case WaitForSendWindow tuning (world_start W i) (world_turns W i) of None \<Rightarrow> None | Some False \<Rightarrow> Some (Inl ?st)
       | Some True \<Rightarrow> (case EnqueuePacket (world_time W i) ?packet ?t of (ok, t) \<Rightarrow> Some (if ok then Inr (?sent t) else Inl (?sent t))))"
    unfolding send_chunk_def Let_def r by (simp add: full split: option.split bool.split prod.split)
  obtain t where st': "st' = ?sent t"
    using step unfolding eq by (auto split: option.splits bool.splits prod.splits if_splits)
  show ?thesis
  proof (rule that [of data "world_block W i" "encryption_enabled ?t"])
    show "readable p (send_file st') \<and> data = block_at (unat (file_offset st)) (length data) F"
      if "readable p (send_file st)" "contents (world_disk W i) p = Some F" "length F = ?fs" "length F < 2 ^ 63" "?cs < 2 ^ 31" for p F
    proof -
      note hyps = that
      have "unat (file_offset st) + unat ?target \<le> length F" "unat ?target < 2 ^ 31" using that(3,5) target off by simp_all
      then obtain f' where "SafeReadChunk (world_disk W i) (file_offset st) ?target (send_file st) =
            (block_at (unat (file_offset st)) (unat ?target) F, f')" "readable p f'"
        by (rule SafeReadChunk_full [OF hyps(1,2) _ _ hyps(4)])
      moreover have "unat ?target = length data" using full n by simp
      ultimately show ?thesis using r st' by simp
    qed
  qed (use len nofs st' in simp_all)
qed

text \<open>
  The packets of the chunks from \<open>i\<close> on, for a file \<open>F\<close>: each carries its part of the file, the last one
  the checksum of the whole.
\<close>

definition packets_for :: "endian \<Rightarrow> transfer_info \<Rightarrow> byte list \<Rightarrow> u32 \<Rightarrow> nat \<Rightarrow> OutgoingPacket list \<Rightarrow> bool" where
  "packets_for h info F dst i ps \<longleftrightarrow> length ps = unat (ti_total_chunks info) - i \<and>
     (\<forall>j < length ps. \<exists>block enc k. ps ! j = chunk_packet block dst enc (send_payload h info (of_nat (i + j))
          (block_at ((i + j) * unat (ti_chunk_size info))
             (min (unat (ti_chunk_size info)) (length F - (i + j) * unat (ti_chunk_size info))) F) k) \<and>
        (Suc (i + j) = unat (ti_total_chunks info) \<longrightarrow> k = ComputeChecksum F))"

lemma packets_for_Cons:
  assumes "packets_for h info F dst (Suc i) ps" and "i < unat (ti_total_chunks info)"
    and "p = chunk_packet block dst enc (send_payload h info (of_nat i)
          (block_at (i * unat (ti_chunk_size info)) (min (unat (ti_chunk_size info)) (length F - i * unat (ti_chunk_size info))) F) k)"
    and "Suc i = unat (ti_total_chunks info) \<Longrightarrow> k = ComputeChecksum F"
  shows "packets_for h info F dst i (p # ps)"
  unfolding packets_for_def
proof (intro conjI allI impI)
  show "length (p # ps) = unat (ti_total_chunks info) - i" using assms(1,2) by (simp add: packets_for_def)
next
  fix j assume "j < length (p # ps)"
  then show "\<exists>block enc k. (p # ps) ! j = chunk_packet block dst enc (send_payload h info (of_nat (i + j))
          (block_at ((i + j) * unat (ti_chunk_size info))
             (min (unat (ti_chunk_size info)) (length F - (i + j) * unat (ti_chunk_size info))) F) k) \<and>
        (Suc (i + j) = unat (ti_total_chunks info) \<longrightarrow> k = ComputeChecksum F)"
    using assms by (cases j) (auto simp: packets_for_def)
qed

lemma send_chunks_spec:
  assumes ok: "info_ok info" and "i \<le> unat (ti_total_chunks info)"
    and "send_chunks h W tuning dst info [i..<unat (ti_total_chunks info)] st = Some (Inr st')"
    and "unat (file_offset st) = length D" "length D = min (i * unat (ti_chunk_size info)) (unat (ti_file_size info))"
    and "running_checksum st = ComputeChecksum D"
  shows "\<exists>F ps. length F = unat (ti_file_size info) \<and> take (length D) F = D \<and> unat (file_offset st') = length F \<and>
    sent_packets st' = sent_packets st @ ps \<and> packets_for h info F dst i ps \<and>
    (\<forall>p F'. readable p (send_file st) \<and> (\<forall>j. contents (world_disk W j) p = Some F') \<and> length F' = unat (ti_file_size info) \<and>
       length F' < 2 ^ 63 \<and> unat (ti_chunk_size info) < 2 ^ 31 \<and> D = take (length D) F' \<longrightarrow> F = F')"
  using assms(2-6)
proof (induction "unat (ti_total_chunks info) - i" arbitrary: i st D)
  case 0
  let ?fs = "unat (ti_file_size info)"
  from 0 have i: "i = unat (ti_total_chunks info)" by simp
  then have "length D = ?fs" using 0(5) info_numbers(2) [OF ok] by simp
  moreover have "st' = st" using 0(3) i by simp
  ultimately show ?case using 0(4) i by (intro exI [of _ D] exI [of _ "[]"]) (auto simp: packets_for_def)
next
  case (Suc k)
  let ?fs = "unat (ti_file_size info)" and ?cs = "unat (ti_chunk_size info)" and ?n = "unat (ti_total_chunks info)"
  have i: "i < ?n" using Suc.hyps(2) by linarith
  have start: "i * ?cs \<le> ?fs" by (rule info_numbers(3) [OF ok i])
  then have D: "length D = i * ?cs" "unat (file_offset st) = i * ?cs" using Suc.prems(3,4) by simp_all
  have "[i..<?n] = i # [Suc i..<?n]" using i by (rule upt_conv_Cons)
  then obtain st1 where step: "send_chunk h W tuning dst info i st = Some (Inr st1)"
      and rest: "send_chunks h W tuning dst info [Suc i..<?n] st1 = Some (Inr st')"
    using Suc.prems(2) by (auto split: option.splits sum.splits)
  obtain data block enc where s: "length data = min ?cs (?fs - i * ?cs)"
      "unat (file_offset st1) = unat (file_offset st) + length data" "running_checksum st1 = UpdateChecksum data (running_checksum st)"
      "sent_packets st1 = sent_packets st @ [chunk_packet block dst enc (send_payload h info (of_nat i) data (running_checksum st1))]"
      "\<And>p F. readable p (send_file st) \<Longrightarrow> contents (world_disk W i) p = Some F \<Longrightarrow> length F = ?fs \<Longrightarrow> length F < 2 ^ 63 \<Longrightarrow>
        ?cs < 2 ^ 31 \<Longrightarrow> readable p (send_file st1) \<and> data = block_at (unat (file_offset st)) (length data) F"
    by (rule send_chunk_spec [OF step D(2) start]) (rule that)
  let ?D = "D @ data"
  have "k + min c (f - k) = min (c + k) f" if "k \<le> f" for k c f :: nat using that by (simp add: min_def) linarith
  from this [OF start] have lenD: "length ?D = min (Suc i * ?cs) ?fs" using D(1) s(1) by simp
  have offD: "unat (file_offset st1) = length ?D" using s(2) D by simp
  have sum: "running_checksum st1 = ComputeChecksum ?D" using s(3) Suc.prems(5) by (simp add: ComputeChecksum_def UpdateChecksum_append)
  have k: "k = ?n - Suc i" and le: "Suc i \<le> ?n" using Suc.hyps(2) i by linarith+
  obtain F ps where IH: "length F = ?fs" "take (length ?D) F = ?D" "unat (file_offset st') = length F"
      "sent_packets st' = sent_packets st1 @ ps" "packets_for h info F dst (Suc i) ps"
      "\<forall>p F'. readable p (send_file st1) \<and> (\<forall>j. contents (world_disk W j) p = Some F') \<and> length F' = ?fs \<and>
         length F' < 2 ^ 63 \<and> ?cs < 2 ^ 31 \<and> ?D = take (length ?D) F' \<longrightarrow> F = F'"
    using Suc.hyps(1) [OF k le rest offD lenD sum] by blast
  have data: "block_at (i * ?cs) (min ?cs (length F - i * ?cs)) F = data"
  proof -
    have "take (length data) (drop (length D) F) = data" using IH(2) by (metis append_eq_conv_conj length_append take_drop add.commute drop_take diff_add_inverse)
    then show ?thesis using D(1) s(1) IH(1) by (simp add: block_at_def)
  qed
  have last: "running_checksum st1 = ComputeChecksum F" if "Suc i = ?n"
    using IH(1,2) info_numbers(2) [OF ok] that sum lenD by (metis le_refl min.absorb2 take_all)
  have "packets_for h info F dst i (chunk_packet block dst enc (send_payload h info (of_nat i) data (running_checksum st1)) # ps)"
    by (rule packets_for_Cons [OF IH(5) i _ last]) (simp only: data)
  moreover have "take (length D) F = D" using IH(2) by (metis append_eq_conv_conj length_append take_take min.absorb1 le_add1 append_take_drop_id take_append diff_self_eq_0 take_0 append_Nil2 take_all le_refl)
  moreover have "F = F'" if "readable p (send_file st)" "\<forall>j. contents (world_disk W j) p = Some F'" "length F' = ?fs"
      "length F' < 2 ^ 63" "?cs < 2 ^ 31" "D = take (length D) F'" for p F'
  proof -
    have "readable p (send_file st1)" and "data = block_at (i * ?cs) (length data) F'"
      using s(5) [OF that(1) _ that(3-5)] that(2) D(2) by simp_all
    then have "?D = take (length ?D) F'" using that(6) D(1) by (simp add: block_at_def take_add)
    then show ?thesis using IH(6) \<open>readable p (send_file st1)\<close> that(2-5) by blast
  qed
  ultimately show ?case using IH(1,3,4) s(4) by (intro exI [of _ F] exI [of _ "chunk_packet block dst enc (send_payload h info (of_nat i) data (running_checksum st1)) # ps"]) auto
qed

subsection \<open>What \<^verbatim>\<open>SendFile\<close> sends\<close>

definition packet_bytes :: "OutgoingPacket \<Rightarrow> byte list" where
  "packet_bytes p = (case op_payload p of HeapBlock addr data \<Rightarrow> data | Scalar v \<Rightarrow> [])"

definition sent_info :: "path \<Rightarrow> TransferTuning \<Rightarrow> nat \<Rightarrow> u64 \<Rightarrow> transfer_info" where
  "sent_info p tuning n tid =
     (let csize = ucast (tuning_chunk_size tuning); fsize = of_nat n in
      \<lparr>ti_transfer_id = tid, ti_file_size = fsize, ti_chunk_size = csize,
       ti_total_chunks = ucast (CalculateTotalChunks fsize csize), ti_file_name = BaseName p\<rparr>)"

lemma ucast_back: "w \<le> 0xFFFFFFFF \<Longrightarrow> ucast (ucast (w :: u64) :: u32) = w"
proof -
  assume "w \<le> 0xFFFFFFFF"
  then have "unat w < 2 ^ 32" by (simp add: word_le_nat_alt)
  then have "unat (ucast w :: u32) = unat w" by (simp add: unsigned_ucast_eq take_bit_nat_eq_self)
  then show ?thesis by (simp add: word_unat_eq_iff unat_ucast_32_64)
qed

lemma SendFile_spec:
  assumes sent: "SendFile h W p dst tuning d s = Some (True, ps, s')" and tid: "next_transfer_id s \<noteq> 0"
    and c: "contents d p = Some F0" "length F0 < 2 ^ 63"
  shows "info_ok (sent_info p tuning (length F0) (next_transfer_id s)) \<and>
    tuning_chunk_size tuning = ucast (ti_chunk_size (sent_info p tuning (length F0) (next_transfer_id s))) \<and>
    (\<exists>F. length F = length F0 \<and> packets_for h (sent_info p tuning (length F0) (next_transfer_id s)) F dst 0 ps \<and>
      ((\<forall>j. contents (world_disk W j) p = Some F0) \<and> tuning_chunk_size tuning < 2 ^ 31 \<longrightarrow> F = F0))"
proof -
  let ?info = "sent_info p tuning (length F0) (next_transfer_id s)"
  let ?cs = "ucast (tuning_chunk_size tuning) :: u32" and ?fs = "of_nat (length F0) :: u64"
  let ?f = "\<lparr>stream_path = p, stream_open = True, stream_fail = False, stream_in = True, stream_out = False, stream_pos = 0\<rparr>"
  have "opens (world_calls W) p" using sent by (auto simp: SendFile_def File_open_def Let_def IsValid_def split: if_splits)
  then have o: "File_open (world_calls W) p (FLAG_OPEN OR FLAG_READ) d = (?f, d)"
    using c(1) by (simp add: File_open_def Let_def FLAG_OPEN_def FLAG_READ_def FLAG_WRITE_def FLAG_CREATE_ALWAYS_def)
  have len: "GetLength ?f d = int (length F0)" using c(1) by (simp add: GetLength_def file_content_def)
  let ?st = "\<lparr>file_offset = 0, running_checksum = kFnv1aOffset, send_file = ?f, send_transport = sender_transport s, sent_packets = []\<rparr>"
  from sent o len obtain st' where g: "tuning_chunk_size tuning \<noteq> 0" "tuning_chunk_size tuning \<le> 0xFFFFFFFF"
      "CalculateTotalChunks ?fs ?cs \<noteq> 0" "CalculateTotalChunks ?fs ?cs \<le> 0xFFFFFFFF"
      "BaseName p \<noteq> []" "length (BaseName p) \<le> 65535"
      and loop: "send_chunks h W tuning dst ?info [0..<unat (ti_total_chunks ?info)] ?st = Some (Inr st')" and ps: "ps = sent_packets st'"
    by (auto simp: SendFile_def IsValid_def Let_def GenerateTransferId_def sent_info_def not_less
        split: if_splits option.splits sum.splits)
  have same_cs: "ucast ?cs = tuning_chunk_size tuning" by (rule ucast_back [OF g(2)])
  then have cs: "?cs \<noteq> 0" using g(1) by auto
  have "ucast (ti_total_chunks ?info) = CalculateTotalChunks ?fs ?cs" using ucast_back [OF g(4)] by (simp add: sent_info_def Let_def)
  then have ok: "info_ok ?info" using g tid cs by (auto simp: info_ok_def sent_info_def Let_def)
  have fs: "unat (ti_file_size ?info) = length F0" using c(2) by (simp add: sent_info_def Let_def unat_of_nat)
  have empty: "unat (file_offset ?st) = length ([] :: byte list)"
      "length ([] :: byte list) = min (0 * unat (ti_chunk_size ?info)) (unat (ti_file_size ?info))"
      "running_checksum ?st = ComputeChecksum []"
    by (simp_all add: ComputeChecksum_def)
  obtain F ps' where F: "length F = length F0" "sent_packets st' = sent_packets ?st @ ps'" "packets_for h ?info F dst 0 ps'"
      "\<forall>p F'. readable p (send_file ?st) \<and> (\<forall>j. contents (world_disk W j) p = Some F') \<and> length F' = unat (ti_file_size ?info) \<and>
         length F' < 2 ^ 63 \<and> unat (ti_chunk_size ?info) < 2 ^ 31 \<and> [] = take (length ([] :: byte list)) F' \<longrightarrow> F = F'"
    using send_chunks_spec [OF ok le0 loop empty] fs by metis
  have "F = F0" if "\<forall>j. contents (world_disk W j) p = Some F0" "tuning_chunk_size tuning < 2 ^ 31"
  proof -
    have "unat (ucast ?cs :: u64) < 2 ^ 31" using that(2) same_cs by (simp add: word_less_nat_alt)
    then have "unat (ti_chunk_size ?info) < 2 ^ 31" by (simp add: sent_info_def Let_def unat_ucast_32_64)
    moreover have "readable p (send_file ?st)" by (simp add: readable_def)
    ultimately show ?thesis using F(4) that(1) c(2) fs by simp
  qed
  then show ?thesis using ok same_cs F(1-3) ps by (auto simp: sent_info_def Let_def)
qed

lemma packet_parses:
  assumes ps: "packets_for h info F dst 0 ps" and ok: "info_ok info" and F: "length F = unat (ti_file_size info)"
    and name: "\<not> ContainsPathTraversal (ti_file_name info)" and cs: "unat (ti_chunk_size info) < 2 ^ 31" and j: "j < length ps"
  shows "\<exists>c. ParseTransferChunkPayload h' (packet_bytes (ps ! j)) = Some c \<and>
    file_chunk F (ti_transfer_id info) (ti_chunk_size info) c \<and> unat (chunk_index c) = j \<and>
    (j = 0 \<longrightarrow> file_name c = ti_file_name info)"
proof -
  let ?cs = "unat (ti_chunk_size info)" and ?n = "unat (ti_total_chunks info)"
  let ?data = "block_at (j * ?cs) (min ?cs (length F - j * ?cs)) F"
  from ps j obtain block enc k where p: "ps ! j = chunk_packet block dst enc (send_payload h info (of_nat j) ?data k)"
      and last: "Suc j = ?n \<Longrightarrow> k = ComputeChecksum F" and n: "j < ?n"
    by (auto simp: packets_for_def)
  let ?c = "sent_chunk info (of_nat j) ?data k"
  have uj: "unat (of_nat j :: u32) = j" using n unat_bound [of "ti_total_chunks info"] by (simp add: unat_of_nat)
  have len: "length ?data = min ?cs (unat (ti_file_size info) - j * ?cs)" using F by simp
  have built: "BuildTransferChunkPayload h ?c = Some (send_payload h info (of_nat j) ?data k)"
    by (rule send_payload_build [OF ok n len])
  have zero: "ti_total_chunks info \<noteq> 0" using ok by (simp add: info_ok_def)
  then have "unat (ti_total_chunks info - 1) = ?n - 1" by (simp add: unat_sub word_le_nat_alt Suc_le_eq unat_gt_0)
  then have final: "(of_nat j = ti_total_chunks info - 1) = (Suc j = ?n)" using uj n by (auto simp: word_unat_eq_iff)
  have send: "sendable ?c"
    using name final n by (auto simp: sendable_def sent_chunk_def single_empty_chunk_def word_unat_eq_iff)
  have parse: "ParseTransferChunkPayload h' (send_payload h info (of_nat j) ?data k) = Some ?c"
    by (rule parse_built [OF built send])
  have fits: "chunk_fits ?c" using parsed_chunk_spec [OF parse] by blast
  have fields: "transfer_id ?c = ti_transfer_id info" "unat (file_size ?c) = length F" "chunk_size ?c = ti_chunk_size info"
      "chunk_data ?c = ?data" "unat (chunk_index ?c) = j" "total_chunks ?c = ti_total_chunks info"
      "is_last_chunk ?c = (Suc j = ?n)" "is_last_chunk ?c \<longrightarrow> file_checksum ?c = ComputeChecksum F"
    using F uj final last by (auto simp: sent_chunk_def)
  have start: "unat (chunk_start ?c) = j * ?cs" using unat_chunk_start [of ?c] fields(3,5) by simp
  have same: "?data = block_at (j * ?cs) (length ?data) F"
    using info_numbers(3) [OF ok n] F by (simp add: block_at_def)
  have chunk: "file_chunk F (ti_transfer_id info) (ti_chunk_size info) ?c"
    unfolding file_chunk_def fields(1-7) start using fits fields(8) same by (simp only: fields(7) simp_thms)
  have bytes: "packet_bytes (ps ! j) = send_payload h info (of_nat j) ?data k"
  proof -
    let ?pl = "send_payload h info (of_nat j) ?data k"
    have "length ?pl = 48 + length (file_name ?c) + length ?data"
      using length_chunk_header [of h ?c "length (file_name ?c)"] fields(4) by (simp add: send_payload_bytes Let_def kFixedHeaderSize_def)
    moreover have "length (file_name ?c) \<le> 65535" using ok by (simp add: sent_chunk_def info_ok_def)
    moreover have "length ?data \<le> ?cs" by simp
    moreover have "?cs < 2147483648" using cs by simp
    ultimately have "0 < length ?pl" "length ?pl < 4294967296" by linarith+
    then have "(of_nat (length ?pl) :: u32) > 0" by (simp add: word_less_nat_alt unat_of_nat)
    then show ?thesis by (simp add: p packet_bytes_def chunk_packet_def OutgoingPacket_with_data_def)
  qed
  have "j = 0 \<longrightarrow> file_name ?c = ti_file_name info" by (simp add: sent_chunk_def)
  then show ?thesis using parse bytes chunk fields(5) by metis
qed

text \<open>Together: what \<^verbatim>\<open>SendFile\<close> enqueues for a file that does not change are the packets of its chunks.\<close>

lemma sent_packets_parse:
  assumes sent: "SendFile h W p dst tuning d0 s = Some (True, ps, s')"
    and src: "contents d0 p = Some F" "\<forall>j. contents (world_disk W j) p = Some F" "length F < 2 ^ 63"
    and tuning: "tuning_chunk_size tuning < 2 ^ 31" and tid: "next_transfer_id s \<noteq> 0"
    and name: "\<not> ContainsPathTraversal (BaseName p)"
  obtains cs :: u32 where "0 < unat cs" "unat cs < 2 ^ 31" "length ps = chunks_of F (unat cs)"
    "\<And>j h'. j < length ps \<Longrightarrow> \<exists>c. ParseTransferChunkPayload h' (packet_bytes (ps ! j)) = Some c \<and>
       file_chunk F (next_transfer_id s) cs c \<and> unat (chunk_index c) = j \<and> (j = 0 \<longrightarrow> file_name c = BaseName p)"
proof -
  let ?info = "sent_info p tuning (length F) (next_transfer_id s)"
  let ?cs = "ti_chunk_size ?info"
  have spec: "info_ok ?info" "tuning_chunk_size tuning = ucast ?cs" "packets_for h ?info F dst 0 ps"
    using SendFile_spec [OF sent tid src(1,3)] src(2) tuning by auto
  have "unat (ucast ?cs :: u64) < 2 ^ 31" using tuning spec(2) by (simp add: word_less_nat_alt)
  then have cs: "unat ?cs < 2 ^ 31" by (simp add: unat_ucast_32_64)
  have pos: "0 < unat ?cs" using spec(1) by (simp add: info_ok_def unat_gt_0)
  have fs: "length F = unat (ti_file_size ?info)" using src(3) by (simp add: sent_info_def Let_def unat_of_nat)
  have fields: "ti_transfer_id ?info = next_transfer_id s" "ti_file_name ?info = BaseName p" by (simp_all add: sent_info_def Let_def)
  have n: "length ps = chunks_of F (unat ?cs)"
    using spec(3) info_numbers(1) [OF spec(1)] fs by (simp add: packets_for_def chunks_of_def)
  show ?thesis
    by (rule that [OF pos cs n]) (use packet_parses [OF spec(3,1) fs _ cs] name fields in simp)
qed

subsection \<open>When \<^verbatim>\<open>SendFile\<close> succeeds\<close>

text \<open>The other threads leave the transport connected and the window opens for every chunk.\<close>

definition world_serves :: "send_world \<Rightarrow> TransferTuning \<Rightarrow> bool" where
  "world_serves W tuning \<longleftrightarrow> (\<forall>i t. state (world_threads W i t) = kConnected) \<and>
     (\<forall>i. WaitForSendWindow tuning (world_start W i) (world_turns W i) = Some True)"

lemma send_chunk_succeeds:
  assumes W: "world_serves W tuning" and f: "readable p (send_file st)" "contents (world_disk W i) p = Some F"
    and F: "length F = unat (ti_file_size info)" "length F < 2 ^ 63" and cs: "unat (ti_chunk_size info) < 2 ^ 31"
    and off: "unat (file_offset st) = i * unat (ti_chunk_size info)" "i * unat (ti_chunk_size info) \<le> unat (ti_file_size info)"
  shows "\<exists>st'. send_chunk h W tuning dst info i st = Some (Inr st')"
proof -
  let ?fs = "unat (ti_file_size info)" and ?cs = "unat (ti_chunk_size info)"
  let ?rem = "if ti_file_size info > file_offset st then ti_file_size info - file_offset st else 0"
  let ?target = "ucast (min ?rem (ucast (ti_chunk_size info))) :: u32"
  have target: "unat ?target = min ?cs (?fs - i * ?cs)"
    by (rule target_bytes [OF off])
  have "unat (file_offset st) + unat ?target \<le> length F" "unat ?target < 2 ^ 31" using F(1) target off cs by simp_all
  then obtain f' where r: "SafeReadChunk (world_disk W i) (file_offset st) ?target (send_file st) =
      (block_at (unat (file_offset st)) (unat ?target) F, f')"
    by (rule SafeReadChunk_full [OF f _ _ F(2)])
  have "length (block_at (unat (file_offset st)) (unat ?target) F) = unat ?target" using F(1) target off by simp
  then have full: "of_nat (length (block_at (unat (file_offset st)) (unat ?target) F)) = ?target"
    by (simp only: of_nat_unat ucast_id)
  show ?thesis
    unfolding send_chunk_def Let_def r using W full by (simp add: world_serves_def EnqueuePacket_def)
qed

lemma send_chunks_succeed:
  assumes ok: "info_ok info" and W: "world_serves W tuning" "\<forall>j. contents (world_disk W j) p = Some F"
    and F: "length F = unat (ti_file_size info)" "length F < 2 ^ 63" and cs: "unat (ti_chunk_size info) < 2 ^ 31"
    and "i \<le> unat (ti_total_chunks info)" "readable p (send_file st)"
      "unat (file_offset st) = min (i * unat (ti_chunk_size info)) (length F)"
  shows "\<exists>st'. send_chunks h W tuning dst info [i..<unat (ti_total_chunks info)] st = Some (Inr st')"
  using assms(7-9)
proof (induction "unat (ti_total_chunks info) - i" arbitrary: i st)
  case 0
  then show ?case by simp
next
  case (Suc k)
  let ?fs = "unat (ti_file_size info)" and ?cs = "unat (ti_chunk_size info)" and ?n = "unat (ti_total_chunks info)"
  have i: "i < ?n" using Suc.hyps(2) by linarith
  have start: "i * ?cs \<le> ?fs" by (rule info_numbers(3) [OF ok i])
  then have off: "unat (file_offset st) = i * ?cs" using Suc.prems(3) F(1) by simp
  obtain st1 where step: "send_chunk h W tuning dst info i st = Some (Inr st1)"
    using send_chunk_succeeds [OF W(1) Suc.prems(2) _ F cs off start] W(2) by blast
  have next_state: "unat (file_offset st1) = min (Suc i * ?cs) (length F) \<and> readable p (send_file st1)"
  proof -
    have "k + min c (f - k) = min (c + k) f" if "k \<le> f" for k c f :: nat using that by (simp add: min_def) linarith
    from this [OF start] show ?thesis
      using F(1) off Suc.prems(2) W(2) F cs by (auto intro: send_chunk_spec [OF step off start])
  qed
  have k: "k = ?n - Suc i" and le: "Suc i \<le> ?n" using Suc.hyps(2) i by linarith+
  from Suc.hyps(1) [OF k le] next_state have "\<exists>st'. send_chunks h W tuning dst info [Suc i..<?n] st1 = Some (Inr st')" by blast
  with step upt_conv_Cons [OF i] show ?case by simp
qed

lemma SendFile_succeeds:
  assumes W: "world_serves W tuning" "\<forall>j. contents (world_disk W j) p = Some F" "opens (world_calls W) p"
    and F: "contents d p = Some F" "length F < 2 ^ 63" and cs: "tuning_chunk_size tuning \<noteq> 0" "tuning_chunk_size tuning < 2 ^ 31"
    and n: "length F \<le> 2 ^ 31 * unat (tuning_chunk_size tuning)"
    and name: "BaseName p \<noteq> []" "length (BaseName p) \<le> 65535" and tid: "next_transfer_id s \<noteq> 0"
  shows "\<exists>ps s'. SendFile h W p dst tuning d s = Some (True, ps, s')"
proof -
  let ?info = "sent_info p tuning (length F) (next_transfer_id s)"
  let ?cs = "ucast (tuning_chunk_size tuning) :: u32" and ?fs = "of_nat (length F) :: u64"
  let ?f = "\<lparr>stream_path = p, stream_open = True, stream_fail = False, stream_in = True, stream_out = False, stream_pos = 0\<rparr>"
  let ?st = "\<lparr>file_offset = 0, running_checksum = kFnv1aOffset, send_file = ?f, send_transport = sender_transport s, sent_packets = []\<rparr>"
  have o: "File_open (world_calls W) p (FLAG_OPEN OR FLAG_READ) d = (?f, d)"
    using F(1) W(3) by (simp add: File_open_def Let_def FLAG_OPEN_def FLAG_READ_def FLAG_WRITE_def FLAG_CREATE_ALWAYS_def)
  have len: "GetLength ?f d = int (length F)" using F(1) by (simp add: GetLength_def file_content_def)
  have "tuning_chunk_size tuning \<le> 0xFFFFFFFF" using cs(2) by (simp add: word_le_nat_alt word_less_nat_alt)
  then have bk: "ucast ?cs = tuning_chunk_size tuning" by (rule ucast_back)
  then have ucs: "unat ?cs = unat (tuning_chunk_size tuning)" by (metis unat_ucast_32_64)
  have pos: "0 < unat ?cs" "unat ?cs < 2 ^ 31" using cs ucs by (simp_all add: unat_gt_0 word_less_nat_alt)
  have fs: "unat ?fs = length F" using F(2) by (simp add: unat_of_nat)
  let ?total = "CalculateTotalChunks ?fs ?cs"
  have total: "unat ?total = (if length F = 0 then 1 else (length F + unat ?cs - 1) div unat ?cs)"
  proof (cases "length F = 0")
    case False
    have "unat (?fs + ucast ?cs - 1) = length F + unat ?cs - 1"
    proof -
      have "?fs + ucast ?cs - 1 = of_nat (length F + unat ?cs - 1)" using pos by (simp add: of_nat_diff)
      then show ?thesis using F(2) pos by (simp only: unat_of_nat) simp
    qed
    moreover have "?fs \<noteq> 0" using fs False by (metis unat_0)
    moreover have "?cs \<noteq> 0" using pos(1) by auto
    ultimately show ?thesis using False by (simp add: CalculateTotalChunks_def unat_div unat_ucast_32_64)
  qed (use pos in \<open>auto simp: CalculateTotalChunks_def\<close>)
  have "(length F + unat ?cs - 1) div unat ?cs \<le> (2 ^ 31 * unat ?cs + unat ?cs) div unat ?cs"
    using n ucs by (intro div_le_mono) simp
  also have "\<dots> = 2 ^ 31 + 1" using pos(1) by (simp add: div_add_self2)
  finally have "?total \<le> 0xFFFFFFFF" using total by (simp add: word_le_nat_alt)
  moreover have nz: "?total \<noteq> 0"
  proof -
    have "0 < (length F + unat ?cs - 1) div unat ?cs" if "length F \<noteq> 0"
    proof -
      have "unat ?cs \<le> length F + unat ?cs - 1" using that by linarith
      then show ?thesis using pos(1) by (simp only: div_greater_zero_iff simp_thms)
    qed
    then show ?thesis using total by (metis unat_0 less_irrefl zero_neq_one)
  qed
  ultimately have g: "?total \<le> 0xFFFFFFFF" "ucast (ucast ?total :: u32) = ?total" using ucast_back by blast+
  have cs0: "?cs \<noteq> 0" using pos(1) by auto
  have ok: "info_ok ?info" using g(2) nz tid name cs0 by (auto simp: info_ok_def sent_info_def Let_def)
  have info: "unat (ti_file_size ?info) = length F" "ti_chunk_size ?info = ?cs" using fs by (simp_all add: sent_info_def Let_def)
  have read: "readable p (send_file ?st)" "unat (file_offset ?st) = min (0 * unat (ti_chunk_size ?info)) (length F)"
    by (simp_all add: readable_def)
  obtain st' where loop: "send_chunks h W tuning dst ?info [0..<unat (ti_total_chunks ?info)] ?st = Some (Inr st')"
    using send_chunks_succeed [OF ok W(1,2) info(1) [symmetric] F(2) _ le0 read] pos(2) info(2) by auto
  have empty: "unat (file_offset ?st) = length ([] :: byte list)"
      "length ([] :: byte list) = min (0 * unat (ti_chunk_size ?info)) (unat (ti_file_size ?info))"
      "running_checksum ?st = ComputeChecksum []"
    by (simp_all add: ComputeChecksum_def)
  have "unat (file_offset st') = length F" using send_chunks_spec [OF ok le0 loop empty] info(1) by metis
  then have fin: "file_offset st' = ?fs" using fs by (simp add: word_unat_eq_iff)
  have conds: "\<not> int (length F) < 0" "\<not> (tuning_chunk_size tuning = 0 \<or> 0xFFFFFFFF < tuning_chunk_size tuning)"
      "\<not> (?total = 0 \<or> 0xFFFFFFFF < ?total)" "\<not> (BaseName p = [] \<or> 65535 < length (BaseName p))"
    using cs(1) \<open>tuning_chunk_size tuning \<le> 0xFFFFFFFF\<close> nz g(1) name by auto
  have loop': "send_chunks h W tuning dst \<lparr>ti_transfer_id = next_transfer_id s, ti_file_size = ?fs, ti_chunk_size = ?cs,
        ti_total_chunks = ucast ?total, ti_file_name = BaseName p\<rparr> [0..<unat (ucast ?total :: u32)]
        ?st = Some (Inr st')"
    using loop by (simp add: sent_info_def Let_def)
  show ?thesis
    using loop' fin conds unfolding SendFile_def o len Let_def GenerateTransferId_def
    by (simp add: IsValid_def len)
qed

subsection \<open>Properties\<close>

text \<open>The code that builds the payload of a chunk twice builds the same bytes: what \<^verbatim>\<open>SendFile\<close> writes in
  place is what \<^verbatim>\<open>BuildTransferChunkPayload\<close> builds for the chunk, and it never refuses one of the
  chunks of a file.\<close>

theorem send_payload_equals_build:
  assumes "info_ok info" and "i < unat (ti_total_chunks info)"
    and "length data = min (unat (ti_chunk_size info)) (unat (ti_file_size info) - i * unat (ti_chunk_size info))"
  shows "BuildTransferChunkPayload h (sent_chunk info (of_nat i) data checksum) = Some (send_payload h info (of_nat i) data checksum)"
  using assms by (rule send_payload_build)

definition sample_info :: transfer_info where
  "sample_info = \<lparr>ti_transfer_id = 1, ti_file_size = 3, ti_chunk_size = 2, ti_total_chunks = 2, ti_file_name = [0x61]\<rparr>"

theorem send_payload_equals_build_witness:
  "BuildTransferChunkPayload BigEndian (sent_chunk sample_info (of_nat 1) [9] 5) =
    Some (send_payload BigEndian sample_info (of_nat 1) [9] 5)"
  using send_payload_equals_build [of sample_info 1 "[9]" BigEndian 5]
  by (simp add: sample_info_def info_ok_def CalculateTotalChunks_def)

text \<open>The receiver's events when the packets of one transfer arrive, in any order and however often, among others.\<close>

fun delivers :: "endian \<Rightarrow> OutgoingPacket list \<Rightarrow> u64 \<Rightarrow> path \<Rightarrow> receive_event \<Rightarrow> bool" where
  "delivers h ps tid dir (Chunk E dir' c) \<longleftrightarrow>
     (if transfer_id c = tid then dir' = dir \<and> willing E (temp_path_of dir tid) \<and>
        (\<exists>p \<in> set ps. ParseTransferChunkPayload h (packet_bytes p) = Some c)
      else chunk_fits c)"
| "delivers h ps tid dir (Abort x) \<longleftrightarrow> x \<noteq> tid"

lemma set_indices: "set (indices tid es) = {unat (chunk_index c) | E dir c. Chunk E dir c \<in> set es \<and> transfer_id c = tid}"
  by (induction es rule: indices.induct[where ?a0.0 = tid]) auto

text \<open>C4: a file travels from disk to disk.  If \<^verbatim>\<open>SendFile\<close> returns true for a file that does not change meanwhile,
  and the payloads it enqueued reach the receiver, the first chunk before the others and apart from
  that in any order, repeated, and mixed with other transfers, then parsing and streaming them and
  finalizing gives at the output path exactly the file, on hosts of any byte order and with either
  file writer.\<close>

theorem file_transfer_end_to_end:
  assumes sent: "SendFile h W p dst tuning d0 s = Some (True, ps, s')"
    and src: "contents d0 p = Some F" "\<forall>j. contents (world_disk W j) p = Some F" "length F < 2 ^ 63"
    and tuning: "tuning_chunk_size tuning < 2 ^ 31" and tid: "tid = next_transfer_id s" "tid \<noteq> 0"
    and name: "\<not> ContainsPathTraversal (BaseName p)"
    and receiver: "sessions_ok t" "file_write_factory t = Some G" "active_streams t tid = None"
    and arrive: "list_all (delivers h' ps tid dir) es" "hd (indices tid es) = 0"
      "\<forall>p \<in> set ps. \<exists>E c. Chunk E dir c \<in> set es \<and> ParseTransferChunkPayload h' (packet_bytes p) = Some c"
    and calls: "willing E (temp_path_of dir tid)" "renames E (temp_path_of dir tid) output" "output \<noteq> temp_path_of dir tid"
  shows "\<exists>d1 t1 d2 t2. receive_run es (d, t) = Some (d1, t1) \<and> FinalizeStreamedFile E tid output d1 t1 = (True, d2, t2) \<and>
    contents d2 output = Some F"
proof -
  have nz: "next_transfer_id s \<noteq> 0" using tid by simp
  obtain cs where pos: "0 < unat cs" and cs: "unat cs < 2 ^ 31" and n: "length ps = chunks_of F (unat cs)"
    and parsed: "\<And>j h'. j < length ps \<Longrightarrow> \<exists>c. ParseTransferChunkPayload h' (packet_bytes (ps ! j)) = Some c \<and>
       file_chunk F (next_transfer_id s) cs c \<and> unat (chunk_index c) = j \<and> (j = 0 \<longrightarrow> file_name c = BaseName p)"
    by (rule sent_packets_parse [OF sent src tuning nz name]) (rule that)
  have parse: "\<exists>c. ParseTransferChunkPayload h' (packet_bytes (ps ! j)) = Some c \<and> file_chunk F tid cs c \<and> unat (chunk_index c) = j"
    if "j < length ps" for j
    using parsed [OF that, of h'] tid(1) by blast
  have chunk: "file_chunk F tid cs c"
    if pk: "pk \<in> set ps" and pc: "ParseTransferChunkPayload h' (packet_bytes pk) = Some c" for pk c
  proof -
    obtain j where "j < length ps" "pk = ps ! j" using pk by (auto simp: in_set_conv_nth)
    with parse [of j] pc show ?thesis by auto
  qed
  have "good_event F tid cs dir e" if "delivers h' ps tid dir e" for e
    using that chunk by (cases e) (auto split: if_splits)
  then have good: "list_all (good_event F tid cs dir) es" using arrive(1) by (auto simp: list_all_iff)
  have "set (indices tid es) = {..<chunks_of F (unat cs)}"
  proof (intro equalityI subsetI)
    fix i assume "i \<in> set (indices tid es)"
    then obtain E dir' c where c: "Chunk E dir' c \<in> set es" "transfer_id c = tid" "i = unat (chunk_index c)" by (auto simp: set_indices)
    then have "file_chunk F tid cs c" using good by (auto simp: list_all_iff)
    then show "i \<in> {..<chunks_of F (unat cs)}" using file_chunk_facts(2,3) c(3) by simp
  next
    fix i assume "i \<in> {..<chunks_of F (unat cs)}"
    then have i: "i < length ps" using n by simp
    then obtain c where c: "ParseTransferChunkPayload h' (packet_bytes (ps ! i)) = Some c" "transfer_id c = tid" "unat (chunk_index c) = i"
      using parse by (auto simp: file_chunk_def)
    have "ps ! i \<in> set ps" using i by (rule nth_mem)
    then obtain E where "Chunk E dir c \<in> set es" using arrive(3) c(1) by force
    with c show "i \<in> set (indices tid es)" by (auto simp: set_indices)
  qed
  with transfer_completes [OF receiver good arrive(2) _ src(3) pos cs calls] show ?thesis by blast
qed

definition sample_disk :: disk where
  "sample_disk = \<lparr>contents = [[0x61] \<mapsto> [7, 8, 9]], descriptors = {}\<rparr>"

definition sample_world :: send_world where
  "sample_world = \<lparr>world_calls = all_calls, world_disk = \<lambda>_. sample_disk, world_start = \<lambda>_. 0, world_turns = \<lambda>_. [],
     world_threads = \<lambda>_ t. t\<lparr>state := kConnected\<rparr>, world_time = \<lambda>_. 0, world_block = \<lambda>_. 64\<rparr>"

definition sample_tuning :: TransferTuning where
  "sample_tuning = \<lparr>tuning_chunk_size = 2, max_inflight_chunks = 0, max_inflight_bytes = 0, allocator_min_cached_blocks = 0,
     backpressure_sleep_ms = 1, backpressure_timeout_ms = 0\<rparr>"

definition sample_sender :: sender where
  "sample_sender = \<lparr>next_transfer_id = 7, sender_pool = new_pool, sender_transport = (new_transport 0)\<lparr>state := kConnected\<rparr>\<rparr>"

lemma sample_send:
  obtains ps s' c0 c1 where
    "SendFile LittleEndian sample_world [0x61] 0 sample_tuning sample_disk sample_sender = Some (True, ps, s')"
    "length ps = 2" "ParseTransferChunkPayload BigEndian (packet_bytes (ps ! 0)) = Some c0"
    "ParseTransferChunkPayload BigEndian (packet_bytes (ps ! 1)) = Some c1"
    "transfer_id c0 = 7" "transfer_id c1 = 7" "unat (chunk_index c0) = 0" "unat (chunk_index c1) = 1"
proof -
  let ?F = "[7, 8, 9] :: byte list" and ?info = "sent_info [0x61] sample_tuning (length ([7, 8, 9] :: byte list)) 7"
  have W: "world_serves sample_world sample_tuning"
    by (simp add: world_serves_def sample_world_def sample_tuning_def WaitForSendWindow_def)
  have src: "contents sample_disk [0x61] = Some ?F" "\<forall>j. contents (world_disk sample_world j) [0x61] = Some ?F"
    by (simp_all add: sample_disk_def sample_world_def)
  have name: "BaseName [0x61] = [0x61]" by (simp add: BaseName_def)
  obtain ps s' where sent: "SendFile LittleEndian sample_world [0x61] 0 sample_tuning sample_disk sample_sender = Some (True, ps, s')"
    using SendFile_succeeds [OF W src(2) _ src(1)] name
    by (force simp: sample_world_def all_calls_def sample_tuning_def sample_sender_def)
  have spec: "info_ok ?info" "packets_for LittleEndian ?info ?F 0 0 ps"
    using SendFile_spec [OF sent _ src(1)] src(2) by (auto simp: sample_sender_def sample_tuning_def)
  have info: "?info = \<lparr>ti_transfer_id = 7, ti_file_size = 3, ti_chunk_size = 2, ti_total_chunks = 2, ti_file_name = [0x61]\<rparr>"
    by (simp add: sent_info_def name sample_tuning_def CalculateTotalChunks_def)
  note spec = spec [unfolded info]
  have len: "length ps = 2" using spec(2) by (simp add: packets_for_def)
  have safe: "\<not> ContainsPathTraversal [0x61]"
    by (simp add: ContainsPathTraversal_def is_separator_def drive_path_def traversal_at_def)
  have parse: "\<exists>c. ParseTransferChunkPayload BigEndian (packet_bytes (ps ! j)) = Some c \<and> file_chunk ?F 7 2 c \<and> unat (chunk_index c) = j"
    if "j < 2" for j
    using packet_parses [OF spec(2,1), of j BigEndian] that len safe by auto
  from parse [of 0] parse [of 1] show ?thesis using sent len that by (auto simp: file_chunk_def)
qed

theorem file_transfer_end_to_end_witness:
  "\<exists>ps s' c0 c1 d1 t1 d2 t2.
     SendFile LittleEndian sample_world [0x61] 0 sample_tuning sample_disk sample_sender = Some (True, ps, s') \<and>
     receive_run [Chunk all_calls [] c0, Chunk all_calls [] c1, Chunk all_calls [] c0] (no_files, new_transporter None) = Some (d1, t1) \<and>
     FinalizeStreamedFile all_calls 7 [0x62] d1 t1 = (True, d2, t2) \<and> contents d2 [0x62] = Some [7, 8, 9]"
proof -
  let ?F = "[7, 8, 9] :: byte list"
  obtain ps s' c0 c1 where sent: "SendFile LittleEndian sample_world [0x61] 0 sample_tuning sample_disk sample_sender = Some (True, ps, s')"
    and len: "length ps = 2" and c: "ParseTransferChunkPayload BigEndian (packet_bytes (ps ! 0)) = Some c0"
      "ParseTransferChunkPayload BigEndian (packet_bytes (ps ! 1)) = Some c1" "transfer_id c0 = 7" "transfer_id c1 = 7"
      "unat (chunk_index c0) = 0" "unat (chunk_index c1) = 1"
    by (rule sample_send)
  obtain p0 p1 where ps: "ps = [p0, p1]" using len by (auto simp: length_Suc_conv numeral_2_eq_2)
  let ?es = "[Chunk all_calls [] c0, Chunk all_calls [] c1, Chunk all_calls [] c0]"
  have src: "contents sample_disk [0x61] = Some ?F" "\<forall>j. contents (world_disk sample_world j) [0x61] = Some ?F"
    by (simp_all add: sample_disk_def sample_world_def)
  have "length (temp_path_of [] 7) > 1" by (simp add: temp_path_of_def)
  then have out: "[0x62] \<noteq> temp_path_of [] 7" by (metis length_Cons list.size(3) One_nat_def less_irrefl)
  have name: "\<not> ContainsPathTraversal (BaseName [0x61])"
    by (simp add: BaseName_def ContainsPathTraversal_def is_separator_def drive_path_def traversal_at_def)
  have es: "list_all (delivers BigEndian ps 7 []) ?es" "hd (indices 7 ?es) = 0"
      "\<forall>p \<in> set ps. \<exists>E c. Chunk E [] c \<in> set ?es \<and> ParseTransferChunkPayload BigEndian (packet_bytes p) = Some c"
    using c all_calls_willing by (auto simp: ps)
  have small: "length ?F < 2 ^ 63" "tuning_chunk_size sample_tuning < 2 ^ 31" "7 = next_transfer_id sample_sender" "(7 :: u64) \<noteq> 0"
    by (simp_all add: sample_tuning_def sample_sender_def)
  have receiver: "sessions_ok (new_transporter None)" "file_write_factory (new_transporter None) = Some PositionalFileWriteFactory"
      "active_streams (new_transporter None) 7 = None"
    by (simp_all add: new_transporter_def GetDefaultFileWriteFactory_def sessions_ok_def)
  have calls: "renames all_calls (temp_path_of [] 7) [0x62]" by (simp add: all_calls_def)
  from file_transfer_end_to_end [OF sent src small name receiver es all_calls_willing calls out, of no_files] sent
  show ?thesis by blast
qed

end
