(* ===== verification/P2P_Node.thy ===== *)
theory P2P_Node
  imports Transport "HOL-Library.Monad_Syntax"
begin

text \<open>
  \<^verbatim>\<open>src/znet/z_p2p_node.h\<close> and \<^verbatim>\<open>.cc\<close>: \<^verbatim>\<open>ZP2PNode\<close>, a transport that is the host of a session or one of its
  clients, with the control messages between them (joining, the roster of peers, the transition to
  another host, and the probes that open a way through address translation).  A call that waits inside
  \<^verbatim>\<open>Deinit\<close> is \<open>None\<close>.  What a call takes from outside, one reading of the clock, the blocks the pool
  hands out and what the queue's threads do while \<^verbatim>\<open>PromoteToHost\<close> sleeps, is the record \<open>node_env\<close>.
\<close>

subsection \<open>State\<close>

datatype node_kind = Host | Client

definition ControlKind_JoinHello :: u8 where "ControlKind_JoinHello = 1"
definition ControlKind_PeerRoster :: u8 where "ControlKind_PeerRoster = 2"
definition ControlKind_HostTransition :: u8 where "ControlKind_HostTransition = 3"
definition ControlKind_KeepAlive :: u8 where "ControlKind_KeepAlive = 4"
definition ControlKind_PunchProbe :: u8 where "ControlKind_PunchProbe = 5"
definition ControlKind_PunchAck :: u8 where "ControlKind_PunchAck = 6"
definition ControlKind_Welcome :: u8 where "ControlKind_Welcome = 7"

lemmas control_kinds = ControlKind_JoinHello_def ControlKind_PeerRoster_def ControlKind_HostTransition_def
  ControlKind_KeepAlive_def ControlKind_PunchProbe_def ControlKind_PunchAck_def ControlKind_Welcome_def

definition kControlMagic :: u32 where "kControlMagic = 0x5A503250"
definition kControlVersion :: u8 where "kControlVersion = 1"

text \<open>Intervals in nanoseconds.\<close>

definition kPunchProbeInterval :: int where "kPunchProbeInterval = 120 * 10 ^ 6"
definition kMaxPunchProbeAttempts :: u32 where "kMaxPunchProbeAttempts = 12"
definition kPeerKeepAliveInterval :: int where "kPeerKeepAliveInterval = 10 * 10 ^ 9"
definition kHostKeepAliveInterval :: int where "kHostKeepAliveInterval = 2 * 10 ^ 9"

record PunchPeerState =
  punch_address :: Address
  attempts_sent :: u32
  punch_acknowledged :: bool
  next_probe_time :: int
  last_keepalive_time :: int

record ZP2PNode = ZAsyncTransportLayer +
  node_type :: node_kind
  local_port :: u16
  advertised_ip :: "byte list"
  host_endpoint :: Address
  public_endpoint :: Address
  has_public_endpoint :: bool
  last_host_keepalive_time :: int
  punch_peers :: "PunchPeerState list"
  incoming_control :: "IncomingPacket list"
  incoming_data :: "IncomingPacket list"

record node_env =
  node_time :: int
  node_block :: "u32 \<Rightarrow> byte list \<Rightarrow> u64"
  node_sleep :: "ZP2PNode \<Rightarrow> ZP2PNode"

definition zero_address :: Address where
  "zero_address = \<lparr>ip = replicate 46 0, port = 0, address_family = 0\<rparr>"

definition new_node :: "int \<Rightarrow> ZP2PNode" where
  "new_node now = ZAsyncTransportLayer.extend (new_transport now)
     (ZP2PNode.fields Host 0 (ascii ''127.0.0.1'') empty_address empty_address False 0 [] [] [])"

definition is_host :: "ZP2PNode \<Rightarrow> bool" where
  "is_host n \<longleftrightarrow> node_type n = Host"

subsection \<open>Addresses on the wire\<close>

definition SerializeAddress :: "endian \<Rightarrow> byte list \<Rightarrow> Address \<Rightarrow> byte list option" where
  "SerializeAddress h buffer a =
     (let text = c_string (ip a) in
      if text = [] \<or> length text > 255 then None
      else Some (AppendU16 h (buffer @ [address_family a, of_nat (length text)] @ text) (port a)))"

definition DeserializeAddress :: "endian \<Rightarrow> byte list \<Rightarrow> nat \<Rightarrow> (Address \<times> nat) option" where
  "DeserializeAddress h data cur =
     (if cur \<ge> length data then None
      else
        let addr_family = data ! cur; cur = cur + 1 in
        if cur \<ge> length data then None
        else
          let ip_len = unat (data ! cur); cur = cur + 1 in
          if ip_len = 0 \<or> ip_len \<ge> 46 then None
          else if cur + ip_len + 2 > length data then None
          else
            let a = zero_address\<lparr>address_family := addr_family,
                      ip := memcpy_at 0 (block_at cur ip_len data) (ip zero_address)\<rparr>;
                cur = cur + ip_len
            in case ReadU16 h data cur of
                 None \<Rightarrow> None
               | Some (port_number, cur) \<Rightarrow> Some (a\<lparr>port := port_number\<rparr>, cur))"

definition IsSelfAddress :: "'a ZP2PNode_scheme \<Rightarrow> Address \<Rightarrow> bool" where
  "IsSelfAddress n a =
     (if has_public_endpoint n \<and> address_eq a (public_endpoint n) then True
      else if local_port n = 0 \<or> port a \<noteq> local_port n then False
      else c_string (ip a) = ascii ''127.0.0.1'' \<or> c_string (ip a) = ascii ''0.0.0.0'' \<or>
           c_string (ip a) = ascii ''::1'')"

subsection \<open>Sending control messages\<close>

definition control_flags :: "bool \<Rightarrow> PackageFlags" where
  "control_flags use_enc = \<lparr>reliable = True, encrypted = use_enc, compressed = False, priority = High,
     acknowledged = False, awaiting_ack = True, reserved = False\<rparr>"

definition PushControlPacket :: "node_env \<Rightarrow> u32 \<Rightarrow> byte list \<Rightarrow> ZP2PNode \<Rightarrow> ZP2PNode" where
  "PushControlPacket env dest payload n =
     (if state n \<noteq> kConnected then n
      else Push (node_time env)
             (OutgoingPacket_with_data (node_block env dest payload) dest PacketType_NetworkControl Control
                (control_flags (own_crypto n \<noteq> None)) payload) n)"

definition PushControlPacketToAddress :: "node_env \<Rightarrow> Address \<Rightarrow> byte list \<Rightarrow> ZP2PNode \<Rightarrow> ZP2PNode" where
  "PushControlPacketToAddress env dest payload n =
     (case GetOrCreatePeer dest (peers n) of
        (peer, m) \<Rightarrow>
          let n = n\<lparr>peers := m\<rparr> in
          case peer of None \<Rightarrow> n | Some x \<Rightarrow> PushControlPacket env (peer_identifier x) payload n)"

definition control_header :: "endian \<Rightarrow> u8 \<Rightarrow> byte list" where
  "control_header h kind = AppendU32 h [] kControlMagic @ [kControlVersion] @ [kind]"

definition SendJoinHello :: "endian \<Rightarrow> node_env \<Rightarrow> ZP2PNode \<Rightarrow> ZP2PNode" where
  "SendJoinHello h env n =
     PushControlPacket env to_server (AppendU16 h (control_header h ControlKind_JoinHello) (local_port n)) n"

definition known_peers :: "ZP2PNode \<Rightarrow> Address list" where
  "known_peers n = filter (\<lambda>a. \<not> IsSelfAddress n a) (map address (GetPeerList (peers n)))"

fun serialize_all :: "endian \<Rightarrow> byte list \<Rightarrow> Address list \<Rightarrow> byte list option" where
  "serialize_all h payload [] = Some payload"
| "serialize_all h payload (a # as) =
     (case SerializeAddress h payload a of None \<Rightarrow> None | Some payload \<Rightarrow> serialize_all h payload as)"

definition roster_payload :: "endian \<Rightarrow> Address list \<Rightarrow> byte list option" where
  "roster_payload h roster =
     serialize_all h (AppendU16 h (control_header h ControlKind_PeerRoster) (of_nat (length roster))) roster"

definition BroadcastPeerRoster :: "endian \<Rightarrow> node_env \<Rightarrow> ZP2PNode \<Rightarrow> ZP2PNode" where
  "BroadcastPeerRoster h env n =
     (if node_type n \<noteq> Host then n
      else
        let roster = known_peers n in
        if length roster > 0xFFFF then n
        else case roster_payload h roster of None \<Rightarrow> n | Some payload \<Rightarrow> PushControlPacket env to_all payload n)"

definition transition_payload :: "endian \<Rightarrow> Address \<Rightarrow> byte list option" where
  "transition_payload h endpoint = SerializeAddress h (control_header h ControlKind_HostTransition) endpoint"

definition BroadcastHostTransition :: "endian \<Rightarrow> node_env \<Rightarrow> Address \<Rightarrow> ZP2PNode \<Rightarrow> ZP2PNode" where
  "BroadcastHostTransition h env endpoint n =
     (case transition_payload h endpoint of None \<Rightarrow> n | Some payload \<Rightarrow> PushControlPacket env to_all payload n)"

definition SendWelcome :: "endian \<Rightarrow> node_env \<Rightarrow> ZPeer \<Rightarrow> ZP2PNode \<Rightarrow> ZP2PNode" where
  "SendWelcome h env peer n =
     (case SerializeAddress h (control_header h ControlKind_Welcome) (address peer) of
        None \<Rightarrow> n
      | Some payload \<Rightarrow> PushControlPacket env (peer_identifier peer) payload n)"

definition SendPunchProbe :: "endian \<Rightarrow> node_env \<Rightarrow> Address \<Rightarrow> ZP2PNode \<Rightarrow> ZP2PNode" where
  "SendPunchProbe h env endpoint n = PushControlPacketToAddress env endpoint (control_header h ControlKind_PunchProbe) n"

definition SendPunchAck :: "endian \<Rightarrow> node_env \<Rightarrow> Address \<Rightarrow> ZP2PNode \<Rightarrow> ZP2PNode" where
  "SendPunchAck h env endpoint n = PushControlPacketToAddress env endpoint (control_header h ControlKind_PunchAck) n"

definition SendKeepAlive :: "endian \<Rightarrow> node_env \<Rightarrow> Address \<Rightarrow> ZP2PNode \<Rightarrow> ZP2PNode" where
  "SendKeepAlive h env endpoint n = PushControlPacketToAddress env endpoint (control_header h ControlKind_KeepAlive) n"

subsection \<open>Opening a way through address translation\<close>

definition FindPunchPeerState :: "Address \<Rightarrow> PunchPeerState list \<Rightarrow> PunchPeerState option" where
  "FindPunchPeerState endpoint ps = find (\<lambda>s. address_eq (punch_address s) endpoint) ps"

definition new_punch_state :: "int \<Rightarrow> Address \<Rightarrow> PunchPeerState" where
  "new_punch_state now endpoint = \<lparr>punch_address = endpoint, attempts_sent = 0, punch_acknowledged = False,
     next_probe_time = now, last_keepalive_time = now\<rparr>"

definition GetOrCreatePunchPeerState :: "int \<Rightarrow> Address \<Rightarrow> PunchPeerState list \<Rightarrow> PunchPeerState list" where
  "GetOrCreatePunchPeerState now endpoint ps =
     (case FindPunchPeerState endpoint ps of Some _ \<Rightarrow> ps | None \<Rightarrow> ps @ [new_punch_state now endpoint])"

text \<open>Writing through the reference that \<^verbatim>\<open>GetOrCreatePunchPeerState\<close> returns: the first state of that address.\<close>

fun update_punch :: "Address \<Rightarrow> (PunchPeerState \<Rightarrow> PunchPeerState) \<Rightarrow> PunchPeerState list \<Rightarrow> PunchPeerState list" where
  "update_punch endpoint f [] = []"
| "update_punch endpoint f (s # ps) =
     (if address_eq (punch_address s) endpoint then f s # ps else s # update_punch endpoint f ps)"

definition with_punch_state ::
  "int \<Rightarrow> Address \<Rightarrow> (PunchPeerState \<Rightarrow> PunchPeerState) \<Rightarrow> ZP2PNode \<Rightarrow> ZP2PNode" where
  "with_punch_state now endpoint f n =
     n\<lparr>punch_peers := update_punch endpoint f (GetOrCreatePunchPeerState now endpoint (punch_peers n))\<rparr>"

definition arm :: "int \<Rightarrow> PunchPeerState \<Rightarrow> PunchPeerState" where
  "arm now s =
     (if punch_acknowledged s then s
      else
        let s = (if attempts_sent s \<ge> kMaxPunchProbeAttempts then s\<lparr>attempts_sent := 0\<rparr> else s)
        in s\<lparr>next_probe_time := now\<rparr>)"

definition ArmPunchProbe :: "int \<Rightarrow> Address \<Rightarrow> ZP2PNode \<Rightarrow> ZP2PNode" where
  "ArmPunchProbe now endpoint n =
     (if IsSelfAddress n endpoint then n
      else if node_type n = Client \<and> address_eq endpoint (host_endpoint n) then n
      else with_punch_state now endpoint (arm now) n)"

fun tick_peers :: "endian \<Rightarrow> node_env \<Rightarrow> PunchPeerState list \<Rightarrow> ZP2PNode \<Rightarrow> PunchPeerState list \<times> ZP2PNode" where
  "tick_peers h env [] n = ([], n)"
| "tick_peers h env (s # ps) n =
     (let now = node_time env;
          (s, n) =
            (if IsSelfAddress n (punch_address s) then (s, n)
             else if node_type n = Client \<and> address_eq (punch_address s) (host_endpoint n) then (s, n)
             else if \<not> punch_acknowledged s then
               if attempts_sent s < kMaxPunchProbeAttempts \<and> now \<ge> next_probe_time s then
                 (s\<lparr>attempts_sent := attempts_sent s + 1, next_probe_time := now + kPunchProbeInterval,
                    last_keepalive_time := now\<rparr>,
                  SendPunchProbe h env (punch_address s) n)
               else (s, n)
             else if last_keepalive_time s = 0 \<or> now - last_keepalive_time s \<ge> kPeerKeepAliveInterval then
               (s\<lparr>last_keepalive_time := now\<rparr>, SendKeepAlive h env (punch_address s) n)
             else (s, n));
          (ps, n) = tick_peers h env ps n
      in (s # ps, n))"

definition tick_host :: "endian \<Rightarrow> node_env \<Rightarrow> ZP2PNode \<Rightarrow> ZP2PNode" where
  "tick_host h env n =
     (if node_type n = Client \<and> \<not> IsSelfAddress n (host_endpoint n) then
        if last_host_keepalive_time n = 0 \<or> node_time env - last_host_keepalive_time n \<ge> kHostKeepAliveInterval then
          (SendKeepAlive h env (host_endpoint n) n)\<lparr>last_host_keepalive_time := node_time env\<rparr>
        else n
      else n)"

definition TickNatPunchthrough :: "endian \<Rightarrow> node_env \<Rightarrow> ZP2PNode \<Rightarrow> ZP2PNode" where
  "TickNatPunchthrough h env n =
     (if state n \<noteq> kConnected then n
      else
        let n = tick_host h env n in
        case tick_peers h env (punch_peers n) n of (ps, n) \<Rightarrow> n\<lparr>punch_peers := ps\<rparr>)"

subsection \<open>Becoming host or client\<close>

definition clear_node :: "ZP2PNode \<Rightarrow> ZP2PNode" where
  "clear_node n = n\<lparr>punch_peers := [], incoming_control := [], incoming_data := []\<rparr>"

definition node_options :: "byte list \<Rightarrow> u16 \<Rightarrow> u16 \<Rightarrow> ConnectionType \<Rightarrow> InitOptions" where
  "node_options ip_text port_number bind_port kind =
     \<lparr>opt_ip = ip_text, opt_port = port_number, opt_local_bind_port = bind_port, setup_type = kind,
      use_encryption = False, opt_use_compression = False, allow_ipv6 = False\<rparr>"

definition AddressFromString :: "net_calls \<Rightarrow> byte list \<Rightarrow> u16 \<Rightarrow> Address option" where
  "AddressFromString N ip_text port_number = ResolveAddress N ip_text port_number False"

type_synonym node_result = "(bool \<times> process_sockets \<times> ZP2PNode) option"

text \<open>The end of both initialisations: the endpoint is stored, or the transport is taken down again.\<close>

definition finish_init :: "node_env \<Rightarrow> node_kind \<Rightarrow> Address option \<Rightarrow> process_sockets \<Rightarrow> ZP2PNode \<Rightarrow> node_result" where
  "finish_init env kind endpoint p n =
     (case endpoint of
        None \<Rightarrow> map_option (\<lambda>(p, n). (False, p, n)) (Deinit False p n)
      | Some a \<Rightarrow> Some (True, p, n\<lparr>host_endpoint := a, node_type := kind, state := kConnected,
                                  last_host_keepalive_time := node_time env\<rparr>))"

definition InitAsHost ::
  "platform \<Rightarrow> net_calls \<Rightarrow> init_env \<Rightarrow> node_env \<Rightarrow> u16 \<Rightarrow> process_sockets \<Rightarrow> ZP2PNode \<Rightarrow> node_result" where
  "InitAsHost P N ienv env port_number p n =
     (case Deinit False p n of
        None \<Rightarrow> None
      | Some (p, n) \<Rightarrow>
          (case Init P N ienv (node_options (advertised_ip n) port_number 0 kServer) p (clear_node n) of
             (False, p, n) \<Rightarrow> Some (False, p, n)
           | (True, p, n) \<Rightarrow>
               finish_init env Host
                 (if has_public_endpoint n then Some (public_endpoint n)
                  else AddressFromString N (advertised_ip n) port_number) p n))"

definition InitAsClient ::
  "platform \<Rightarrow> net_calls \<Rightarrow> init_env \<Rightarrow> node_env \<Rightarrow> byte list \<Rightarrow> u16 \<Rightarrow> u16 \<Rightarrow> process_sockets \<Rightarrow> ZP2PNode \<Rightarrow> node_result" where
  "InitAsClient P N ienv env host_ip host_port bind_port p n =
     (case Deinit False p n of
        None \<Rightarrow> None
      | Some (p, n) \<Rightarrow>
          let n = (clear_node n)\<lparr>has_public_endpoint := False, public_endpoint := zero_address\<rparr> in
          (case Init P N ienv (node_options host_ip host_port bind_port kClient) p n of
             (False, p, n) \<Rightarrow> Some (False, p, n)
           | (True, p, n) \<Rightarrow> finish_init env Client (AddressFromString N host_ip host_port) p n))"

fun rearm :: "int \<Rightarrow> Address list \<Rightarrow> ZP2PNode \<Rightarrow> ZP2PNode" where
  "rearm now [] n = n"
| "rearm now (a # as) n =
     rearm now as
       (if IsSelfAddress n a then n else ArmPunchProbe now a (n\<lparr>peers := snd (GetOrCreatePeer a (peers n))\<rparr>))"

text \<open>The first half of \<^verbatim>\<open>PromoteToHost\<close>: the announcement and the sleep after it; \<open>None\<close> is an early return.\<close>

definition announce_host :: "platform \<Rightarrow> net_calls \<Rightarrow> node_env \<Rightarrow> bool \<Rightarrow> ZP2PNode \<Rightarrow> ZP2PNode option" where
  "announce_host P N env announce_transition n =
     (if announce_transition \<and> state n = kConnected then
        case (if has_public_endpoint n then Some (public_endpoint n)
              else AddressFromString N (advertised_ip n) (local_port n)) of
          None \<Rightarrow> None
        | Some new_host \<Rightarrow> Some (node_sleep env (BroadcastHostTransition (host P) env new_host n))
      else Some n)"

definition PromoteToHost ::
  "platform \<Rightarrow> net_calls \<Rightarrow> init_env \<Rightarrow> node_env \<Rightarrow> bool \<Rightarrow> process_sockets \<Rightarrow> ZP2PNode \<Rightarrow> node_result" where
  "PromoteToHost P N ienv env announce_transition p n =
     (if node_type n = Host \<and> state n = kConnected then Some (True, p, n)
      else if local_port n = 0 then Some (False, p, n)
      else
        let known = known_peers n in
        case announce_host P N env announce_transition n of
          None \<Rightarrow> Some (False, p, n)
        | Some n \<Rightarrow>
            (case InitAsHost P N ienv env (local_port n) p n of
               None \<Rightarrow> None
             | Some (False, p, n) \<Rightarrow> Some (False, p, n)
             | Some (True, p, n) \<Rightarrow>
                 Some (True, p, BroadcastPeerRoster (host P) env (rearm (node_time env) known n))))"

definition ReconnectToHost ::
  "platform \<Rightarrow> net_calls \<Rightarrow> init_env \<Rightarrow> node_env \<Rightarrow> Address \<Rightarrow> process_sockets \<Rightarrow> ZP2PNode \<Rightarrow> node_result" where
  "ReconnectToHost P N ienv env endpoint p n =
     (if IsSelfAddress n endpoint then PromoteToHost P N ienv env False p n
      else
        let known = known_peers n in
        case InitAsClient P N ienv env (c_string (ip endpoint)) (port endpoint) (local_port n) p n of
          None \<Rightarrow> None
        | Some (False, p, n) \<Rightarrow> Some (False, p, n)
        | Some (True, p, n) \<Rightarrow> Some (True, p, SendJoinHello (host P) env (rearm (node_time env) known n)))"

definition Node_Begin ::
  "platform \<Rightarrow> net_calls \<Rightarrow> init_env \<Rightarrow> node_env \<Rightarrow> u16 \<Rightarrow> process_sockets \<Rightarrow> ZP2PNode \<Rightarrow> node_result" where
  "Node_Begin P N ienv env port_number p n =
     (if port_number = 0 then Some (False, p, n)
      else InitAsHost P N ienv env port_number p
             (n\<lparr>local_port := port_number, has_public_endpoint := False, public_endpoint := zero_address\<rparr>))"

definition Node_Connect ::
  "platform \<Rightarrow> net_calls \<Rightarrow> init_env \<Rightarrow> node_env \<Rightarrow> byte list \<Rightarrow> u16 \<Rightarrow> u16 \<Rightarrow> process_sockets \<Rightarrow> ZP2PNode \<Rightarrow> node_result" where
  "Node_Connect P N ienv env host_ip host_port bind_port p n =
     (if host_port = 0 \<or> bind_port = 0 then Some (False, p, n)
      else
        case InitAsClient P N ienv env host_ip host_port bind_port p (n\<lparr>local_port := bind_port\<rparr>) of
          None \<Rightarrow> None
        | Some (False, p, n) \<Rightarrow> Some (False, p, n)
        | Some (True, p, n) \<Rightarrow> Some (True, p, SendJoinHello (host P) env n))"

definition BecomeHost ::
  "platform \<Rightarrow> net_calls \<Rightarrow> init_env \<Rightarrow> node_env \<Rightarrow> process_sockets \<Rightarrow> ZP2PNode \<Rightarrow> (process_sockets \<times> ZP2PNode) option" where
  "BecomeHost P N ienv env p n = map_option snd (PromoteToHost P N ienv env True p n)"

subsection \<open>Receiving control messages\<close>

text \<open>The kind of a control message and where its body begins.\<close>

definition read_control :: "endian \<Rightarrow> byte list \<Rightarrow> (u8 \<times> nat) option" where
  "read_control h data = do {
     (magic_number, cur) \<leftarrow> ReadU32 h data 0;
     if magic_number \<noteq> kControlMagic then None
     else if cur \<ge> length data then None
     else if data ! cur \<noteq> kControlVersion then None
     else if cur + 1 \<ge> length data then None
     else Some (data ! (cur + 1), cur + 2)
   }"

definition from_host :: "ZP2PNode \<Rightarrow> ZPeer option \<Rightarrow> bool" where
  "from_host n source_peer = (case source_peer of None \<Rightarrow> False | Some x \<Rightarrow> address_eq (address x) (host_endpoint n))"

definition process_JoinHello :: "endian \<Rightarrow> node_env \<Rightarrow> ZPeer option \<Rightarrow> ZP2PNode \<Rightarrow> ZP2PNode" where
  "process_JoinHello h env source_peer n =
     (case source_peer of
        None \<Rightarrow> n
      | Some x \<Rightarrow>
          if node_type n \<noteq> Host then n
          else
            let n = n\<lparr>peers := snd (GetOrCreatePeer (address x) (peers n))\<rparr>
            in BroadcastPeerRoster h env (SendWelcome h env x n))"

definition process_Welcome :: "endian \<Rightarrow> ZPeer option \<Rightarrow> byte list \<Rightarrow> nat \<Rightarrow> ZP2PNode \<Rightarrow> ZP2PNode" where
  "process_Welcome h source_peer data cur n =
     (if node_type n \<noteq> Client then n
      else if \<not> from_host n source_peer then n
      else case DeserializeAddress h data cur of
        None \<Rightarrow> n
      | Some (observed_endpoint, _) \<Rightarrow> n\<lparr>public_endpoint := observed_endpoint, has_public_endpoint := True\<rparr>)"

fun roster_loop :: "endian \<Rightarrow> int \<Rightarrow> byte list \<Rightarrow> nat \<Rightarrow> nat \<Rightarrow> ZP2PNode \<Rightarrow> ZP2PNode" where
  "roster_loop h now data 0 cur n = n"
| "roster_loop h now data (Suc k) cur n =
     (case DeserializeAddress h data cur of
        None \<Rightarrow> n
      | Some (peer_address, cur) \<Rightarrow>
          roster_loop h now data k cur
            (if IsSelfAddress n peer_address then n
             else
               let n = n\<lparr>peers := snd (GetOrCreatePeer peer_address (peers n))\<rparr> in
               if node_type n = Client \<and> \<not> address_eq peer_address (host_endpoint n)
               then ArmPunchProbe now peer_address n else n))"

definition process_PeerRoster :: "endian \<Rightarrow> int \<Rightarrow> ZPeer option \<Rightarrow> byte list \<Rightarrow> nat \<Rightarrow> ZP2PNode \<Rightarrow> ZP2PNode" where
  "process_PeerRoster h now source_peer data cur n =
     (if node_type n = Client \<and> \<not> from_host n source_peer then n
      else case ReadU16 h data cur of
        None \<Rightarrow> n
      | Some (peer_count, cur) \<Rightarrow> roster_loop h now data (unat peer_count) cur n)"

definition process_HostTransition ::
  "platform \<Rightarrow> net_calls \<Rightarrow> init_env \<Rightarrow> node_env \<Rightarrow> ZPeer option \<Rightarrow> byte list \<Rightarrow> nat \<Rightarrow> process_sockets \<Rightarrow> ZP2PNode \<Rightarrow>
   (process_sockets \<times> ZP2PNode) option" where
  "process_HostTransition P N ienv env source_peer data cur p n =
     (if node_type n = Client \<and> \<not> from_host n source_peer then Some (p, n)
      else case DeserializeAddress (host P) data cur of
        None \<Rightarrow> Some (p, n)
      | Some (next_host, _) \<Rightarrow>
          if IsSelfAddress n next_host then map_option snd (PromoteToHost P N ienv env False p n)
          else map_option snd (ReconnectToHost P N ienv env next_host p n))"

definition process_punch :: "endian \<Rightarrow> node_env \<Rightarrow> u8 \<Rightarrow> ZPeer option \<Rightarrow> ZP2PNode \<Rightarrow> ZP2PNode" where
  "process_punch h env kind source_peer n =
     (case source_peer of
        None \<Rightarrow> n
      | Some x \<Rightarrow>
          if IsSelfAddress n (address x) then n
          else if kind = ControlKind_KeepAlive then
            with_punch_state (node_time env) (address x) (\<lambda>s. s\<lparr>last_keepalive_time := node_time env\<rparr>) n
          else if kind = ControlKind_PunchProbe then
            SendPunchAck h env (address x) (ArmPunchProbe (node_time env) (address x)
              (with_punch_state (node_time env) (address x) (\<lambda>s. s\<lparr>last_keepalive_time := node_time env\<rparr>) n))
          else
            with_punch_state (node_time env) (address x)
              (\<lambda>s. s\<lparr>punch_acknowledged := True, last_keepalive_time := node_time env\<rparr>) n)"

definition ProcessControlPacket ::
  "platform \<Rightarrow> net_calls \<Rightarrow> init_env \<Rightarrow> node_env \<Rightarrow> IncomingPacket \<Rightarrow> process_sockets \<Rightarrow> ZP2PNode \<Rightarrow>
   (process_sockets \<times> ZP2PNode) option" where
  "ProcessControlPacket P N ienv env packet p n =
     (case read_control (host P) (ip_data packet) of
        None \<Rightarrow> Some (p, n)
      | Some (kind, cur) \<Rightarrow>
          let source_peer = GetPeer (source_peer_id packet) (peers n) in
          if kind = ControlKind_JoinHello then Some (p, process_JoinHello (host P) env source_peer n)
          else if kind = ControlKind_Welcome then Some (p, process_Welcome (host P) source_peer (ip_data packet) cur n)
          else if kind = ControlKind_PeerRoster then
            Some (p, process_PeerRoster (host P) (node_time env) source_peer (ip_data packet) cur n)
          else if kind = ControlKind_HostTransition then
            process_HostTransition P N ienv env source_peer (ip_data packet) cur p n
          else if kind = ControlKind_KeepAlive \<or> kind = ControlKind_PunchProbe \<or> kind = ControlKind_PunchAck then
            Some (p, process_punch (host P) env kind source_peer n)
          else Some (p, n))"

definition QueueIncoming :: "IncomingPacket \<Rightarrow> ZP2PNode \<Rightarrow> ZP2PNode" where
  "QueueIncoming packet n =
     (if ip_channel packet = Control then n\<lparr>incoming_control := incoming_control n @ [packet]\<rparr>
      else n\<lparr>incoming_data := incoming_data n @ [packet]\<rparr>)"

definition ProcessIncomingPacket ::
  "platform \<Rightarrow> net_calls \<Rightarrow> init_env \<Rightarrow> node_env \<Rightarrow> IncomingPacket \<Rightarrow> process_sockets \<Rightarrow> ZP2PNode \<Rightarrow>
   (process_sockets \<times> ZP2PNode) option" where
  "ProcessIncomingPacket P N ienv env packet p n =
     (if ip_channel packet = Control \<and> ip_type packet = PacketType_NetworkControl
      then ProcessControlPacket P N ienv env packet p n
      else Some (p, QueueIncoming packet n))"

text \<open>The two loops of \<^verbatim>\<open>Update\<close>, which poll queues that the receiving thread keeps filling.\<close>

partial_function (option) node_drain ::
  "platform \<Rightarrow> net_calls \<Rightarrow> init_env \<Rightarrow> node_env \<Rightarrow> PacketChannelType \<Rightarrow> process_sockets \<Rightarrow> ZP2PNode \<Rightarrow>
   (process_sockets \<times> ZP2PNode) option" where
  "node_drain P N ienv env channel p n =
     (case Pop channel n of
        (None, n) \<Rightarrow> Some (p, n)
      | (Some packet, n) \<Rightarrow>
          Option.bind (ProcessIncomingPacket P N ienv env packet p n) (\<lambda>(p, n). node_drain P N ienv env channel p n))"

definition Node_Update ::
  "platform \<Rightarrow> net_calls \<Rightarrow> init_env \<Rightarrow> node_env \<Rightarrow> process_sockets \<Rightarrow> ZP2PNode \<Rightarrow> node_result" where
  "Node_Update P N ienv env p n = do {
     (p, n) \<leftarrow> node_drain P N ienv env Control p n;
     (p, n) \<leftarrow> node_drain P N ienv env Data p n;
     let n = TickNatPunchthrough (host P) env n;
     Some (state n \<noteq> kDisconnected, p, n)
   }"

definition Node_Poll :: "PacketChannelType \<Rightarrow> ZP2PNode \<Rightarrow> IncomingPacket option \<times> ZP2PNode" where
  "Node_Poll channel n =
     (case (if channel = Control then incoming_control n else incoming_data n) of
        [] \<Rightarrow> (None, n)
      | packet # rest \<Rightarrow>
          (Some packet, if channel = Control then n\<lparr>incoming_control := rest\<rparr> else n\<lparr>incoming_data := rest\<rparr>))"

definition Node_SendMessage :: "node_env \<Rightarrow> u32 \<Rightarrow> byte list \<Rightarrow> ZP2PNode \<Rightarrow> ZP2PNode" where
  "Node_SendMessage env dest data n =
     (if state n \<noteq> kConnected then n
      else Push (node_time env)
             (OutgoingPacket_with_data (node_block env dest data) dest PacketType_Message Data
                \<lparr>reliable = True, encrypted = (own_crypto n \<noteq> None), compressed = compression_enabled n, priority = Medium,
                 acknowledged = False, awaiting_ack = True, reserved = False\<rparr> data) n)"

end
