(* ===== verification/P2P_Laws.thy ===== *)
theory P2P_Laws
  imports P2P_Node
begin

text \<open>
  Laws of the peer-to-peer node: addresses survive the wire, a client learns the peers of its host's
  roster, it takes instructions from its host only, the bookkeeping of probes stays bounded over any
  history; and what happens when a client makes itself host.
\<close>

subsection \<open>Addresses on the wire\<close>

definition clean_address :: "Address \<Rightarrow> bool" where
  "clean_address a \<longleftrightarrow> c_string (ip a) \<noteq> [] \<and> length (c_string (ip a)) < 46 \<and>
     ip a = c_string (ip a) @ replicate (46 - length (c_string (ip a))) 0"

definition address_bytes :: "Address \<Rightarrow> byte list" where
  "address_bytes a = [address_family a, of_nat (length (c_string (ip a)))] @ c_string (ip a) @ word_bytes (port a)"

lemma length_address_bytes: "length (address_bytes a) = length (c_string (ip a)) + 4"
  by (simp add: address_bytes_def)

lemma SerializeAddress_clean: "clean_address a \<Longrightarrow> SerializeAddress h buffer a = Some (buffer @ address_bytes a)"
  by (simp add: SerializeAddress_def clean_address_def address_bytes_def Append_eq Let_def)

lemma DeserializeAddress_bytes:
  assumes "clean_address a"
  shows "DeserializeAddress h (pre @ address_bytes a @ post) (length pre) = Some (a, length pre + length (address_bytes a))"
proof -
  let ?text = "c_string (ip a)" and ?data = "pre @ address_bytes a @ post"
  have str: "?text \<noteq> []" "length ?text < 46" "ip a = ?text @ replicate (46 - length ?text) 0"
    using assms by (simp_all add: clean_address_def)
  have len: "unat (of_nat (length ?text) :: byte) = length ?text" using str(2) by (simp add: unat_of_nat)
  have at: "?data ! length pre = address_family a" "?data ! (length pre + 1) = of_nat (length ?text)"
    "block_at (length pre + 2) (length ?text) ?data = ?text" "block_at (length pre + 2 + length ?text) 2 ?data = word_bytes (port a)"
    by (simp_all add: address_bytes_def block_at_def nth_append)
  have size: "length ?data = length pre + length ?text + 4 + length post" by (simp add: length_address_bytes)
  have read: "ReadU16 h ?data (length pre + 2 + length ?text) = Some (port a, length pre + 2 + length ?text + 2)"
    using size at(4) by (simp add: ReadU16_def Load_eq bytes_word_bytes)
  have copy: "memcpy_at 0 ?text (replicate 46 0) = ip a" using str(2,3) by (simp add: memcpy_at_def)
  have ne: "\<not> length ?data \<le> length pre" "\<not> length ?data \<le> length pre + 1" "\<not> (length ?text = 0 \<or> 46 \<le> length ?text)"
    "\<not> length ?data < length pre + 2 + length ?text + 2"
    using size str by auto
  have plus: "length pre + 1 + 1 = length pre + 2" by simp
  show ?thesis
    unfolding DeserializeAddress_def Let_def at(1) at(2) len plus at(3) read
    using ne copy by (simp only: if_False zero_address_def option.case prod.case)
      (simp add: length_address_bytes)
qed

text \<open>A message that ends within an address is noticed.\<close>

lemma DeserializeAddress_truncated:
  assumes "clean_address a" and "k < length (address_bytes a)"
  shows "DeserializeAddress h (pre @ take k (address_bytes a)) (length pre) = None"
proof -
  let ?text = "c_string (ip a)" and ?data = "pre @ take k (address_bytes a)"
  have str: "length ?text < 46" using assms(1) by (simp add: clean_address_def)
  have len: "unat (of_nat (length ?text) :: byte) = length ?text" using str by (simp add: unat_of_nat)
  have size: "length ?data = length pre + k" using assms(2) by simp
  show ?thesis
  proof (cases "k \<le> 1")
    case True
    then show ?thesis using size by (simp add: DeserializeAddress_def Let_def)
  next
    case False
    then have "?data ! (length pre + 1) = of_nat (length ?text)" by (simp add: address_bytes_def nth_append)
    then show ?thesis
      using size len assms(2) length_address_bytes [of a] by (simp add: DeserializeAddress_def Let_def)
  qed
qed

subsection \<open>The roster\<close>


lemma control_header_bytes: "control_header h kind = word_bytes kControlMagic @ [kControlVersion, kind]"
  by (simp add: control_header_def Append_eq)

lemma read_control_header: "read_control h (control_header h' kind @ body) = Some (kind, 6)"
  by (simp add: read_control_def control_header_bytes ReadU32_def Load_eq block_at_def bytes_word_bytes nth_append)

lemma length_control_header: "length (control_header h kind) = 6"
  by (simp add: control_header_bytes)

text \<open>What one entry of a roster does to a node.\<close>

definition learn :: "int \<Rightarrow> Address \<Rightarrow> ZP2PNode \<Rightarrow> ZP2PNode" where
  "learn now a n =
     (if IsSelfAddress n a then n
      else
        let n = n\<lparr>peers := snd (GetOrCreatePeer a (peers n))\<rparr> in
        if node_type n = Client \<and> \<not> address_eq a (host_endpoint n) then ArmPunchProbe now a n else n)"

lemma roster_loop_Suc:
  "roster_loop h now data (Suc k) cur n =
     (case DeserializeAddress h data cur of None \<Rightarrow> n | Some (a, cur) \<Rightarrow> roster_loop h now data k cur (learn now a n))"
  by (simp add: learn_def split: option.split prod.split)







lemma arm_address [simp]: "punch_address (arm now s) = punch_address s"
  by (simp add: arm_def Let_def)


text \<open>The way to an address is open, or a probe that has attempts left is due.\<close>

definition armed :: "int \<Rightarrow> Address \<Rightarrow> ZP2PNode \<Rightarrow> bool" where
  "armed now a n \<longleftrightarrow> (\<exists>s. FindPunchPeerState a (punch_peers n) = Some s \<and>
     (punch_acknowledged s \<or> attempts_sent s < kMaxPunchProbeAttempts \<and> next_probe_time s = now))"

lemma with_punch_fields [simp]:
  "node_type (with_punch_state now a f n) = node_type n" "host_endpoint (with_punch_state now a f n) = host_endpoint n"
  "IsSelfAddress (with_punch_state now a f n) = IsSelfAddress n" "peers (with_punch_state now a f n) = peers n"
  "state (with_punch_state now a f n) = state n" "zsocket (with_punch_state now a f n) = zsocket n"
  "public_endpoint (with_punch_state now a f n) = public_endpoint n"
  "has_public_endpoint (with_punch_state now a f n) = has_public_endpoint n"
  "local_port (with_punch_state now a f n) = local_port n"
  by (simp_all add: with_punch_state_def IsSelfAddress_def fun_eq_iff)

lemma ArmPunchProbe_fields [simp]:
  "node_type (ArmPunchProbe now a n) = node_type n" "host_endpoint (ArmPunchProbe now a n) = host_endpoint n"
  "IsSelfAddress (ArmPunchProbe now a n) = IsSelfAddress n" "peers (ArmPunchProbe now a n) = peers n"
  "state (ArmPunchProbe now a n) = state n" "zsocket (ArmPunchProbe now a n) = zsocket n"
  "public_endpoint (ArmPunchProbe now a n) = public_endpoint n"
  "has_public_endpoint (ArmPunchProbe now a n) = has_public_endpoint n" "local_port (ArmPunchProbe now a n) = local_port n"
  by (simp_all add: ArmPunchProbe_def)







lemma peers_update_fields [simp]:
  "IsSelfAddress (n\<lparr>peers := m\<rparr>) = IsSelfAddress (n :: ZP2PNode)" "armed now a (n\<lparr>peers := m\<rparr>) = armed now a n"
  by (simp_all add: IsSelfAddress_def armed_def fun_eq_iff)



subsection \<open>Probes that are sent\<close>
































subsection \<open>What a node takes from whom\<close>

lemma Push_node [simp]:
  "node_type (Push now x n) = node_type n" "host_endpoint (Push now x n) = host_endpoint n"
  "public_endpoint (Push now x n) = public_endpoint n" "has_public_endpoint (Push now x n) = has_public_endpoint n"
  "local_port (Push now x n) = local_port n" "punch_peers (Push now x n) = punch_peers n"
  "state (Push now x n) = state n" "zsocket (Push now x n) = zsocket n" "peers (Push now x n) = peers n"
  for n :: ZP2PNode
  by (simp_all add: Push_def CheckRateLimit_def rate_window_def Let_def)

text \<open>What decides whom a node follows and where it can be reached.\<close>

definition same_role :: "ZP2PNode \<Rightarrow> ZP2PNode \<Rightarrow> bool" where
  "same_role n n' \<longleftrightarrow> node_type n' = node_type n \<and> host_endpoint n' = host_endpoint n \<and> public_endpoint n' = public_endpoint n \<and>
     has_public_endpoint n' = has_public_endpoint n \<and> local_port n' = local_port n \<and> state n' = state n \<and> zsocket n' = zsocket n"

lemma same_role_refl [simp]: "same_role n n"
  by (simp add: same_role_def)

lemma same_role_trans: "same_role a b \<Longrightarrow> same_role b c \<Longrightarrow> same_role a c"
  by (simp add: same_role_def)

lemma PushControlPacket_role: "same_role n (PushControlPacket env dest payload n)"
  by (simp add: PushControlPacket_def same_role_def)

lemma PushControlPacketToAddress_role: "same_role n (PushControlPacketToAddress env a payload n)"
  using PushControlPacket_role [of "n\<lparr>peers := m\<rparr>" for m]
  by (auto simp: PushControlPacketToAddress_def same_role_def Let_def split: prod.split option.split)

lemma process_punch_role: "same_role n (process_punch h env kind source n)"
proof -
  have punch: "same_role n (with_punch_state now a f n)" for now a f by (simp add: same_role_def)
  have "same_role n (ArmPunchProbe now a (with_punch_state now' a f n))" for now now' a f by (simp add: same_role_def)
  then have "same_role n (SendPunchAck h env a (ArmPunchProbe now a (with_punch_state now' a f n)))" for now now' a f
    unfolding SendPunchAck_def by (rule same_role_trans [OF _ PushControlPacketToAddress_role])
  with punch show ?thesis
    unfolding process_punch_def by (simp split: option.split)
qed

lemma client_ignores_others:
  assumes "node_type n = Client" and "\<not> from_host n (GetPeer (source_peer_id packet) (peers n))"
  shows "\<exists>n'. ProcessControlPacket P N ienv env packet p n = Some (p, n') \<and> same_role n n' \<and>
    (\<forall>kind cur. read_control (host P) (ip_data packet) = Some (kind, cur) \<and>
       kind \<in> {ControlKind_Welcome, ControlKind_PeerRoster, ControlKind_HostTransition, ControlKind_JoinHello} \<longrightarrow> n' = n)"
proof (cases "read_control (host P) (ip_data packet)")
  case None
  then show ?thesis by (simp add: ProcessControlPacket_def)
next
  case (Some x)
  obtain kind cur where x: "x = (kind, cur)" by (cases x)
  let ?source = "GetPeer (source_peer_id packet) (peers n)"
  have "process_JoinHello (host P) env ?source n = n" "process_Welcome (host P) ?source (ip_data packet) cur n = n"
    "process_PeerRoster (host P) (node_time env) ?source (ip_data packet) cur n = n"
    "process_HostTransition P N ienv env ?source (ip_data packet) cur p n = Some (p, n)"
    using assms by (simp_all add: process_JoinHello_def process_Welcome_def process_PeerRoster_def process_HostTransition_def
        split: option.split)
  then show ?thesis using Some x process_punch_role [of n] by (auto simp: ProcessControlPacket_def Let_def control_kinds)
qed

subsection \<open>The states of the probes\<close>

definition punch_ok :: "PunchPeerState list \<Rightarrow> bool" where
  "punch_ok ps \<longleftrightarrow> distinct (map punch_address ps) \<and> (\<forall>s \<in> set ps. attempts_sent s \<le> kMaxPunchProbeAttempts)"

lemma punch_ok_Nil [simp]: "punch_ok []"
  by (simp add: punch_ok_def)

lemma update_punch_ok:
  assumes "punch_ok ps" and "\<And>s. punch_address (f s) = punch_address s"
    and "\<And>s. attempts_sent s \<le> kMaxPunchProbeAttempts \<Longrightarrow> attempts_sent (f s) \<le> kMaxPunchProbeAttempts"
  shows "punch_ok (update_punch a f ps)"
proof -
  have "map punch_address (update_punch a f ps) = map punch_address ps" using assms(2) by (induction ps) auto
  moreover have "\<forall>s \<in> set (update_punch a f ps). attempts_sent s \<le> kMaxPunchProbeAttempts"
    using assms(1,3) unfolding punch_ok_def by (induction ps) auto
  ultimately show ?thesis using assms(1) by (simp add: punch_ok_def)
qed

lemma GetOrCreatePunch_ok: "punch_ok ps \<Longrightarrow> punch_ok (GetOrCreatePunchPeerState now a ps)"
  by (auto simp: punch_ok_def GetOrCreatePunchPeerState_def FindPunchPeerState_def new_punch_state_def find_None_iff
      split: option.split)

lemma with_punch_state_ok:
  assumes "punch_ok (punch_peers n)" and "\<And>s. punch_address (f s) = punch_address s"
    and "\<And>s. attempts_sent s \<le> kMaxPunchProbeAttempts \<Longrightarrow> attempts_sent (f s) \<le> kMaxPunchProbeAttempts"
  shows "punch_ok (punch_peers (with_punch_state now a f n))"
  unfolding with_punch_state_def using update_punch_ok [OF GetOrCreatePunch_ok [OF assms(1)] assms(2,3)] by simp

lemma ArmPunchProbe_ok: "punch_ok (punch_peers n) \<Longrightarrow> punch_ok (punch_peers (ArmPunchProbe now a n))"
  unfolding ArmPunchProbe_def by (auto intro!: with_punch_state_ok simp: arm_def Let_def)

lemma rearm_ok: "punch_ok (punch_peers n) \<Longrightarrow> punch_ok (punch_peers (rearm now as n))"
  by (induction "as" arbitrary: n) (simp_all add: ArmPunchProbe_ok)

text \<open>Sending does not touch the states of the probes.\<close>

lemma PushControlPacket_punch [simp]: "punch_peers (PushControlPacket env dest payload n) = punch_peers n"
  by (simp add: PushControlPacket_def)

lemma PushControlPacketToAddress_punch [simp]: "punch_peers (PushControlPacketToAddress env a payload n) = punch_peers n"
  by (simp add: PushControlPacketToAddress_def Let_def split: prod.split option.split)

lemma senders_punch [simp]:
  "punch_peers (BroadcastPeerRoster h env n) = punch_peers n" "punch_peers (SendWelcome h env x n) = punch_peers n"
  "punch_peers (SendJoinHello h env n) = punch_peers n" "punch_peers (SendPunchAck h env a n) = punch_peers n"
  by (simp_all add: BroadcastPeerRoster_def SendWelcome_def SendJoinHello_def SendPunchAck_def Let_def split: option.split)

lemma tick_peers_ok:
  "tick_peers h env ps n = (ps', n') \<Longrightarrow> (\<forall>s \<in> set ps. attempts_sent s \<le> kMaxPunchProbeAttempts) \<Longrightarrow>
   map punch_address ps' = map punch_address ps \<and> (\<forall>s \<in> set ps'. attempts_sent s \<le> kMaxPunchProbeAttempts)"
proof (induction ps arbitrary: n ps' n')
  case (Cons s ps)
  have bump: "attempts_sent s < kMaxPunchProbeAttempts \<Longrightarrow> attempts_sent s + 1 \<le> kMaxPunchProbeAttempts"
    by (simp add: inc_le)
  from Cons.prems(1) obtain s1 n1 ps1 where step: "ps' = s1 # ps1" "tick_peers h env ps n1 = (ps1, n')"
    and s1: "punch_address s1 = punch_address s" "attempts_sent s1 = attempts_sent s \<or>
      attempts_sent s < kMaxPunchProbeAttempts \<and> attempts_sent s1 = attempts_sent s + 1"
    by (auto simp: Let_def split: if_splits prod.splits)
  have "attempts_sent s1 \<le> kMaxPunchProbeAttempts" using s1(2) bump Cons.prems(2) by auto
  then show ?case using Cons.IH [OF step(2)] Cons.prems(2) s1(1) step(1) by simp
qed simp

lemma Tick_ok: "punch_ok (punch_peers n) \<Longrightarrow> punch_ok (punch_peers (TickNatPunchthrough h env n))"
proof -
  assume ok: "punch_ok (punch_peers n)"
  have "punch_peers (tick_host h env n) = punch_peers n" by (simp add: tick_host_def SendKeepAlive_def)
  with ok tick_peers_ok [of h env "punch_peers n" "tick_host h env n"] show ?thesis
    by (auto simp: TickNatPunchthrough_def punch_ok_def Let_def split: prod.split)
qed

text \<open>Every initialisation forgets the probes.\<close>

lemma Deinit_punch: "Deinit b p n = Some (p', n') \<Longrightarrow> punch_peers n' = punch_peers n" for n :: ZP2PNode
  by (auto simp: Deinit_def StopThreads_def Let_def split: prod.splits if_splits)

lemma Init_punch: "Init P N ienv (node_options a b c d) p n = (r, p', n') \<Longrightarrow> punch_peers n' = punch_peers n" for n :: ZP2PNode
  by (auto simp: Init_def init_crypto_def node_options_def StartThreads_def EnsureDispatchExecutor_def
      ConfigureDispatchExecutor_def Let_def split: prod.splits if_splits bool.splits option.split)

lemma finish_init_punch: "finish_init env kind a p n = Some (r, p', n') \<Longrightarrow> punch_peers n' = punch_peers n"
  by (auto simp: finish_init_def dest!: Deinit_punch split: option.splits)

lemma InitAsHost_punch: "InitAsHost P N ienv env b p n = Some (r, p', n') \<Longrightarrow> punch_peers n' = []"
  by (auto simp: InitAsHost_def clear_node_def dest!: Init_punch finish_init_punch split: option.splits prod.splits bool.splits)

lemma InitAsClient_punch: "InitAsClient P N ienv env a b c p n = Some (r, p', n') \<Longrightarrow> punch_peers n' = []"
  by (auto simp: InitAsClient_def clear_node_def Let_def dest!: Init_punch finish_init_punch
      split: option.splits prod.splits bool.splits)

lemma PromoteToHost_ok:
  assumes "punch_ok (punch_peers n)" and "PromoteToHost P N ienv env b p n = Some (r, p', n')"
  shows "punch_ok (punch_peers n')"
  using assms by (auto simp: PromoteToHost_def Let_def intro!: rearm_ok dest!: InitAsHost_punch
      split: if_splits option.splits prod.splits bool.splits)

lemma ReconnectToHost_ok:
  assumes ok: "punch_ok (punch_peers n)" and result: "ReconnectToHost P N ienv env a p n = Some (r, p', n')"
  shows "punch_ok (punch_peers n')"
proof (cases "IsSelfAddress n a")
  case True
  with result show ?thesis by (intro PromoteToHost_ok [OF ok]) (simp add: ReconnectToHost_def)
next
  case False
  with result show ?thesis
    by (auto simp: ReconnectToHost_def Let_def intro!: rearm_ok dest!: InitAsClient_punch
        split: option.splits prod.splits bool.splits)
qed

lemma learn_ok: "punch_ok (punch_peers n) \<Longrightarrow> punch_ok (punch_peers (learn now a n))"
  by (simp add: learn_def Let_def ArmPunchProbe_ok)

lemma roster_loop_ok: "punch_ok (punch_peers n) \<Longrightarrow> punch_ok (punch_peers (roster_loop h now data k cur n))"
proof (induction k arbitrary: cur n)
  case (Suc k)
  then show ?case by (simp add: roster_loop_Suc learn_ok del: roster_loop.simps(2) split: option.split prod.split)
qed simp

lemma ProcessControlPacket_ok:
  assumes ok: "punch_ok (punch_peers n)" and result: "ProcessControlPacket P N ienv env packet p n = Some (p', n')"
  shows "punch_ok (punch_peers n')"
proof -
  let ?src = "GetPeer (source_peer_id packet) (peers n)"
  have "punch_ok (punch_peers (process_JoinHello h env src n))" "punch_ok (punch_peers (process_Welcome h src data cur n))"
    "punch_ok (punch_peers (process_PeerRoster h now src data cur n))" for h src data cur now
    using ok by (auto simp: process_JoinHello_def process_Welcome_def process_PeerRoster_def Let_def
        intro: roster_loop_ok split: option.split)
  moreover have "punch_ok (punch_peers (process_punch h env kind src n))" for h kind src
    using ok by (auto simp: process_punch_def intro!: ArmPunchProbe_ok with_punch_state_ok split: option.split)
  moreover have "process_HostTransition P N ienv env ?src data cur p n = Some (p', n') \<Longrightarrow> punch_ok (punch_peers n')" for data cur
    using ok by (auto simp: process_HostTransition_def intro: PromoteToHost_ok ReconnectToHost_ok
        split: option.splits if_splits)
  ultimately show ?thesis
    using ok result by (auto simp: ProcessControlPacket_def Let_def split: option.splits if_splits)
qed

lemma Pop_punch [simp]: "punch_peers (snd (Pop channel n)) = punch_peers n" for n :: ZP2PNode
  by (simp add: Pop_def Let_def split: prod.split)

lemma ProcessIncomingPacket_ok:
  assumes "punch_ok (punch_peers n)" and "ProcessIncomingPacket P N ienv env packet p n = Some (p', n')"
  shows "punch_ok (punch_peers n')"
  using assms by (auto simp: ProcessIncomingPacket_def QueueIncoming_def intro: ProcessControlPacket_ok split: if_splits)

lemma node_drain_ok:
  assumes ok: "punch_ok (punch_peers n)" and result: "node_drain P N ienv env channel p n = Some (p', n')"
  shows "punch_ok (punch_peers n')"
proof -
  let ?keeps = "\<lambda>(_, n) (_, n'). punch_ok (punch_peers n) \<longrightarrow> punch_ok (punch_peers n')"
  have "?keeps ((((((P, N), ienv), env), channel), p), n) (p', n')"
  proof (rule node_drain.raw_induct [OF _ result, where Pa = ?keeps])
    fix drain P N ienv env channel p and n :: ZP2PNode and r
    assume IH: "\<And>P N ienv env channel p n y. drain P N ienv env channel p n = Some y \<Longrightarrow> ?keeps ((((((P, N), ienv), env), channel), p), n) y"
      and body: "(case Pop channel n of (None, n) \<Rightarrow> Some (p, n)
        | (Some packet, n) \<Rightarrow> ProcessIncomingPacket P N ienv env packet p n \<bind> (\<lambda>(p, n). drain P N ienv env channel p n)) = Some r"
    obtain x n1 where pop: "Pop channel n = (x, n1)" by fastforce
    then have n1: "punch_peers n1 = punch_peers n" using Pop_punch [of channel n] by simp
    show "?keeps ((((((P, N), ienv), env), channel), p), n) r"
    proof (cases x)
      case None
      with body pop n1 show ?thesis by auto
    next
      case (Some packet)
      with body pop obtain p2 n2 where step: "ProcessIncomingPacket P N ienv env packet p n1 = Some (p2, n2)"
        "drain P N ienv env channel p2 n2 = Some r" by (auto simp: bind_eq_Some_conv)
      show ?thesis using IH [OF step(2)] ProcessIncomingPacket_ok [OF _ step(1)] n1 by auto
    qed
  qed
  with ok show ?thesis by simp
qed

lemma Node_Update_cases:
  assumes "Node_Update P N ienv env p n = Some (r, p', n')"
  obtains p1 n1 n2 where "node_drain P N ienv env Control p n = Some (p1, n1)"
    "node_drain P N ienv env Data p1 n1 = Some (p', n2)" "n' = TickNatPunchthrough (host P) env n2" "r = (state n' \<noteq> kDisconnected)"
proof -
  from assms obtain p1 n1 where d1: "node_drain P N ienv env Control p n = Some (p1, n1)"
    unfolding Node_Update_def by (cases "node_drain P N ienv env Control p n") auto
  with assms obtain p2 n2 where d2: "node_drain P N ienv env Data p1 n1 = Some (p2, n2)"
    unfolding Node_Update_def by (cases "node_drain P N ienv env Data p1 n1") auto
  from assms d1 d2 show thesis by (intro that [of p1 n1 n2]) (auto simp: Node_Update_def Let_def)
qed

lemma Node_Update_ok:
  assumes "punch_ok (punch_peers n)" and "Node_Update P N ienv env p n = Some (r, p', n')"
  shows "punch_ok (punch_peers n')"
proof -
  from Node_Update_cases [OF assms(2)] obtain p1 n1 n2 where
    "node_drain P N ienv env Control p n = Some (p1, n1)" "node_drain P N ienv env Data p1 n1 = Some (p', n2)"
    "n' = TickNatPunchthrough (host P) env n2" .
  then show ?thesis using node_drain_ok [OF node_drain_ok [OF assms(1)]] Tick_ok by blast
qed

text \<open>
  The calls of a program on its node.  Between them the threads of the queue change the queue, and
  nothing else: \<open>ThreadsRun\<close> is any such change.
\<close>

datatype node_op = BeginOp u16 | ConnectOp "byte list" u16 u16 | UpdateOp | BecomeHostOp | PollOp PacketChannelType
  | SendOp u32 "byte list" | ThreadsRun "ZPacketQueue \<Rightarrow> ZPacketQueue"

fun node_step ::
  "platform \<Rightarrow> net_calls \<Rightarrow> init_env \<times> node_env \<times> node_op \<Rightarrow> process_sockets \<Rightarrow> ZP2PNode \<Rightarrow>
   (process_sockets \<times> ZP2PNode) option" where
  "node_step P N (ienv, env, BeginOp a) p n = map_option snd (Node_Begin P N ienv env a p n)"
| "node_step P N (ienv, env, ConnectOp a b c) p n = map_option snd (Node_Connect P N ienv env a b c p n)"
| "node_step P N (ienv, env, UpdateOp) p n = map_option snd (Node_Update P N ienv env p n)"
| "node_step P N (ienv, env, BecomeHostOp) p n = BecomeHost P N ienv env p n"
| "node_step P N (ienv, env, PollOp c) p n = Some (p, snd (Node_Poll c n))"
| "node_step P N (ienv, env, SendOp dest data) p n = Some (p, Node_SendMessage env dest data n)"
| "node_step P N (ienv, env, ThreadsRun f) p n =
     Some (p, ZPacketQueue.extend (f (ZPacketQueue.truncate n)) (ZPacketQueue.more n))"

inductive node_reachable :: "platform \<Rightarrow> net_calls \<Rightarrow> process_sockets \<Rightarrow> ZP2PNode \<Rightarrow> bool" for P N where
  fresh: "node_reachable P N p (new_node now)"
| call: "node_reachable P N p n \<Longrightarrow> node_step P N op p n = Some (p', n') \<Longrightarrow> node_reachable P N p' n'"

lemma node_step_ok: "node_step P N op p n = Some (p', n') \<Longrightarrow> punch_ok (punch_peers n) \<Longrightarrow> punch_ok (punch_peers n')"
proof (induction P N op p n rule: node_step.induct)
  case (7 P N ienv env f p n)
  then show ?case by (cases n) (auto simp: ZPacketQueue.defs)
qed (auto simp: Node_Begin_def Node_Connect_def BecomeHost_def Node_Poll_def Node_SendMessage_def
    dest: InitAsHost_punch InitAsClient_punch Node_Update_ok PromoteToHost_ok
    split: if_splits option.splits list.splits prod.splits bool.splits)

lemma reachable_ok: "node_reachable P N p n \<Longrightarrow> punch_ok (punch_peers n)"
proof (induction rule: node_reachable.induct)
  case (fresh p now)
  show ?case by (simp add: new_node_def new_transport_def new_packet_queue_def ZAsyncTransportLayer.defs ZPacketQueue.defs
      ZP2PNode.defs PacketDispatcher.defs)
qed (rule node_step_ok)

subsection \<open>Update returns\<close>

text \<open>What the drained queues see of a step: the packets that wait, and the tasks that \<^verbatim>\<open>Deinit\<close> waits for.\<close>

definition calm :: "ZP2PNode \<Rightarrow> ZP2PNode \<Rightarrow> bool" where
  "calm n n' \<longleftrightarrow> channel_incoming_queues n' = channel_incoming_queues n \<and> pending_dispatch_tasks n' = pending_dispatch_tasks n"

lemma calm_refl [simp]: "calm n n"
  by (simp add: calm_def)

lemma calm_trans: "calm a b \<Longrightarrow> calm b c \<Longrightarrow> calm a c"
  by (simp add: calm_def)

lemma calm_updates [simp]:
  "calm a (b\<lparr>peers := m\<rparr>) = calm a b" "calm (b\<lparr>peers := m\<rparr>) a = calm b a"
  "calm a (with_punch_state now x f b) = calm a b" "calm a (ArmPunchProbe now x b) = calm a b"
  by (simp_all add: calm_def with_punch_state_def ArmPunchProbe_def)

lemma Push_calm [simp]: "calm a (Push now x b) = calm a b"
  by (simp add: calm_def Push_def CheckRateLimit_def rate_window_def Let_def)

lemma senders_calm [simp]:
  "calm a (PushControlPacket env dest payload b) = calm a b" "calm a (PushControlPacketToAddress env x payload b) = calm a b"
  by (simp_all add: PushControlPacket_def PushControlPacketToAddress_def Let_def split: prod.split option.split)

lemma control_calm [simp]:
  "calm a (BroadcastPeerRoster h env b) = calm a b" "calm a (SendWelcome h env y b) = calm a b"
  "calm a (SendJoinHello h env b) = calm a b" "calm a (SendPunchAck h env x b) = calm a b"
  by (simp_all add: BroadcastPeerRoster_def SendWelcome_def SendJoinHello_def SendPunchAck_def Let_def split: option.split)

lemma rearm_calm [simp]: "calm a (rearm now as b) = calm a b"
  by (induction "as" arbitrary: b) simp_all

lemma learn_calm [simp]: "calm a (learn now x b) = calm a b"
  by (simp add: learn_def Let_def)

lemma roster_loop_calm [simp]: "calm a (roster_loop h now data k cur b) = calm a b"
proof (induction k arbitrary: cur b)
  case (Suc k)
  then show ?case by (simp add: roster_loop_Suc del: roster_loop.simps(2) split: option.split prod.split)
qed simp

lemma Deinit_calm:
  fixes n :: ZP2PNode
  assumes "pending_dispatch_tasks n = 0"
  obtains p' n' where "Deinit b p n = Some (p', n')" "calm n n'"
proof -
  obtain z p' where d: "DestroySocket (zsocket n) p = (z, p')" by fastforce
  let ?n = "n\<lparr>zsocket := z, stop_threads := True\<rparr>"
  let ?n = "if b then ?n else ?n\<lparr>threads_running := False\<rparr>"
  show thesis
    by (rule that [of p' "?n\<lparr>state := kDisconnected\<rparr>"])
      (simp_all add: assms d Deinit_def StopThreads_def WaitForPendingDispatchTasks_def calm_def Let_def)
qed

lemma Init_calm: "Init P N ienv (node_options a b c d) p n = (r, p', n') \<Longrightarrow> calm n n'" for n :: ZP2PNode
  by (auto simp: Init_def init_crypto_def node_options_def StartThreads_def EnsureDispatchExecutor_def calm_def
      ConfigureDispatchExecutor_def Let_def split: prod.splits if_splits bool.splits option.split)

lemma finish_init_calm:
  assumes "pending_dispatch_tasks n = 0"
  obtains r p' n' where "finish_init env kind a p n = Some (r, p', n')" "calm n n'"
proof (cases a)
  case None
  from Deinit_calm [OF assms, of False p] obtain p' n' where "Deinit False p n = Some (p', n')" "calm n n'" .
  then show ?thesis by (intro that [of False p' n']) (simp_all add: finish_init_def None)
next
  case (Some x)
  let ?n = "n\<lparr>host_endpoint := x, node_type := kind, state := kConnected, last_host_keepalive_time := node_time env\<rparr>"
  show ?thesis by (rule that [of True p ?n]) (simp_all add: finish_init_def calm_def Some)
qed

definition returns_calm :: "ZP2PNode \<Rightarrow> node_result \<Rightarrow> bool" where
  "returns_calm n result \<longleftrightarrow> (\<exists>r p' n'. result = Some (r, p', n') \<and> calm n n')"

text \<open>Both initialisations: take down, bring up on the new socket, store the endpoint.\<close>

lemma reinit_calm:
  assumes idle: "pending_dispatch_tasks n = 0" and calm: "\<And>n. calm n (f n)"
    and result: "\<And>p' n'. Deinit False p n = Some (p', n') \<Longrightarrow> result =
      (case Init P N ienv (node_options (a n') b c d) p' (f n') of
         (False, p, n) \<Rightarrow> Some (False, p, n) | (True, p, n) \<Rightarrow> finish_init env kind (g n) p n)"
  shows "returns_calm n result"
proof -
  from Deinit_calm [OF idle, of False p] obtain p1 n1 where d: "Deinit False p n = Some (p1, n1)" "calm n n1" .
  obtain r p2 n2 where i: "Init P N ienv (node_options (a n1) b c d) p1 (f n1) = (r, p2, n2)" by (metis prod_cases3)
  have n2: "calm n n2" using d(2) calm [of n1] Init_calm [OF i] calm_trans by blast
  with idle have "pending_dispatch_tasks n2 = 0" by (simp add: calm_def)
  from finish_init_calm [OF this, of env kind "g n2" p2] obtain r' p3 n3 where
    "finish_init env kind (g n2) p2 n2 = Some (r', p3, n3)" "calm n2 n3" .
  with n2 result [OF d(1)] i show ?thesis
    by (cases r) (auto simp: returns_calm_def intro: calm_trans)
qed

lemma InitAsHost_calm: "pending_dispatch_tasks n = 0 \<Longrightarrow> returns_calm n (InitAsHost P N ienv env b p n)"
  by (rule reinit_calm [where f = clear_node and a = advertised_ip and g = "\<lambda>n. if has_public_endpoint n then
        Some (public_endpoint n) else AddressFromString N (advertised_ip n) b" and p = p and b = b and c = 0
        and d = kServer and P = P and N = N and ienv = ienv and env = env and kind = Host])
    (simp_all add: InitAsHost_def calm_def clear_node_def)

lemma InitAsClient_calm: "pending_dispatch_tasks n = 0 \<Longrightarrow> returns_calm n (InitAsClient P N ienv env a b c p n)"
  by (rule reinit_calm [where f = "\<lambda>n. (clear_node n)\<lparr>has_public_endpoint := False, public_endpoint := zero_address\<rparr>"
        and a = "\<lambda>_. a" and g = "\<lambda>_. AddressFromString N a b" and p = p and b = b and c = c
        and d = kClient and P = P and N = N and ienv = ienv and env = env and kind = Client])
    (simp_all add: InitAsClient_def calm_def clear_node_def)

lemma PromoteToHost_calm:
  assumes "pending_dispatch_tasks n = 0"
  shows "returns_calm n (PromoteToHost P N ienv env False p n)"
  using InitAsHost_calm [OF assms, of P N ienv env "local_port n" p] unfolding returns_calm_def
  by (auto simp: PromoteToHost_def announce_host_def Let_def split: bool.split)

lemma ReconnectToHost_calm:
  assumes "pending_dispatch_tasks n = 0"
  shows "returns_calm n (ReconnectToHost P N ienv env a p n)"
proof (cases "IsSelfAddress n a")
  case True
  then show ?thesis using PromoteToHost_calm [OF assms] by (simp add: ReconnectToHost_def)
next
  case False
  then show ?thesis
    using InitAsClient_calm [OF assms, of P N ienv env "c_string (ip a)" "port a" "local_port n" p] unfolding returns_calm_def
    by (auto simp: ReconnectToHost_def Let_def split: bool.split)
qed

lemma ProcessIncomingPacket_calm:
  assumes idle: "pending_dispatch_tasks n = 0"
  shows "\<exists>p' n'. ProcessIncomingPacket P N ienv env packet p n = Some (p', n') \<and> calm n n'"
proof -
  let ?src = "GetPeer (source_peer_id packet) (peers n)"
  have "calm n (process_JoinHello h env src n)" "calm n (process_Welcome h src data cur n)" "calm n (process_PeerRoster h now src data cur n)"
    "calm n (process_punch h env kind src n)" for h src data cur now kind
    by (auto simp: process_JoinHello_def process_Welcome_def process_PeerRoster_def process_punch_def Let_def calm_def [of n "n\<lparr>public_endpoint := _, has_public_endpoint := _\<rparr>"]
        split: option.split)
  moreover have "\<exists>p' n'. process_HostTransition P N ienv env ?src data cur p n = Some (p', n') \<and> calm n n'" for data cur
    using PromoteToHost_calm [OF idle, of P N ienv env p] ReconnectToHost_calm [OF idle, of P N ienv env _ p]
    by (fastforce simp: process_HostTransition_def returns_calm_def split: option.split)
  ultimately have "\<exists>p' n'. ProcessControlPacket P N ienv env packet p n = Some (p', n') \<and> calm n n'"
    by (auto simp: ProcessControlPacket_def Let_def split: option.split)
  then show ?thesis by (auto simp: ProcessIncomingPacket_def QueueIncoming_def calm_def)
qed

definition waiting_packets :: "PacketChannelType \<Rightarrow> ZP2PNode \<Rightarrow> nat" where
  "waiting_packets channel n = length (departures (lane (channel_incoming_queues n channel)))"

lemma Pop_waiting:
  assumes "\<forall>c. priority_ok (channel_incoming_queues n c)" and "Pop channel n = (r, n')"
  shows "(\<forall>c. priority_ok (channel_incoming_queues n' c)) \<and> pending_dispatch_tasks n' = pending_dispatch_tasks n \<and>
    (r \<noteq> None \<longrightarrow> waiting_packets channel n = Suc (waiting_packets channel n'))"
proof -
  let ?Q = "channel_incoming_queues n channel"
  note ok = assms(1) [THEN spec, of channel]
  obtain x Q where d: "priority_dequeue ?Q = (x, Q)" by fastforce
  have "priority_ok Q" using pq.deq_ok [OF ok] d by simp
  moreover have "x \<noteq> None \<longrightarrow> length (departures (lane ?Q)) = Suc (length (departures (lane Q)))"
    using pq.deq_departures [OF ok] d by (cases "departures (lane ?Q)") auto
  ultimately show ?thesis
    using assms d by (auto simp: Pop_def Let_def waiting_packets_def split: if_splits)
qed

lemma node_drain_returns:
  assumes "pending_dispatch_tasks n = 0" and "\<forall>c. priority_ok (channel_incoming_queues n c)"
  shows "\<exists>p' n'. node_drain P N ienv env channel p n = Some (p', n') \<and> pending_dispatch_tasks n' = 0 \<and>
    (\<forall>c. priority_ok (channel_incoming_queues n' c))"
  using assms
proof (induction "waiting_packets channel n" arbitrary: p n rule: less_induct)
  case less
  obtain r n1 where pop: "Pop channel n = (r, n1)" by fastforce
  note n1 = Pop_waiting [OF less.prems(2) pop]
  show ?case
  proof (cases r)
    case None
    with pop n1 less.prems show ?thesis by (simp add: node_drain.simps [of P N ienv env channel p n])
  next
    case (Some packet)
    from n1 less.prems(1) have "pending_dispatch_tasks n1 = 0" by simp
    from ProcessIncomingPacket_calm [OF this, of P N ienv env packet p] obtain p2 n2 where
      step: "ProcessIncomingPacket P N ienv env packet p n1 = Some (p2, n2)" and calm: "calm n1 n2" by blast
    have "waiting_packets channel n2 < waiting_packets channel n" "pending_dispatch_tasks n2 = 0"
      "\<forall>c. priority_ok (channel_incoming_queues n2 c)"
      using n1 Some less.prems(1) calm by (simp_all add: calm_def waiting_packets_def)
    from less.hyps [OF this, of p2] show ?thesis
      using pop Some step by (simp add: node_drain.simps [of P N ienv env channel p n])
  qed
qed

subsection \<open>A change of host\<close>

text \<open>A system whose socket calls succeed.\<close>

definition sockets_work :: "net_calls \<Rightarrow> bool" where
  "sockets_work N \<longleftrightarrow> (\<forall>fds family. open_socket N fds family \<noteq> None) \<and> (\<forall>fd sa. bind_socket N fd sa) \<and> (\<forall>fd. set_nonblocking N fd)"

lemma resolve_candidates_result: "fst (resolve_candidates N q cs out) = fst (resolve_candidates N q cs out')"
  by (induction cs arbitrary: out out') (auto simp: Let_def split: option.split)

lemma ResolveSockaddr_result: "fst (ResolveSockaddr N name q family out) = fst (ResolveSockaddr N name q family out')"
  using resolve_candidates_result [of N q _ out out'] by (simp add: ResolveSockaddr_def split: option.split)

lemma CreateClient_works:
  assumes "sockets_work N" and "ResolveAddress N name q False = Some a"
  shows "\<exists>s' p'. CreateClient N name q False bind_port s p = (True, s', p')"
proof -
  obtain sa where r: "ResolveSockaddr N name q AF_INET (server_sockaddr s) = (Some a, sa)"
    using assms(2) ResolveSockaddr_result [of N name q AF_INET "server_sockaddr s" zero_sockaddr]
    by (cases "ResolveSockaddr N name q AF_INET (server_sockaddr s)") (simp add: ResolveAddress_def)
  obtain fd where "open_socket N (open_fds p) (address_family a) = Some fd" using assms(1) unfolding sockets_work_def by blast
  then show ?thesis
    using assms(1) r by (simp add: CreateClient_def open_descriptor_def sockets_work_def Let_def)
qed

lemma InitAsClient_works:
  assumes net: "sockets_work N" "AddressFromString N name q = Some a" and idle: "pending_dispatch_tasks n = 0"
  shows "\<exists>p' n'. InitAsClient P N ienv env name q bind_port p n = Some (True, p', n') \<and> node_type n' = Client \<and>
    host_endpoint n' = a \<and> state n' = kConnected"
proof -
  from Deinit_calm [OF idle, of False p] obtain p1 n1 where d: "Deinit False p n = Some (p1, n1)" .
  let ?n = "(clear_node n1)\<lparr>has_public_endpoint := False, public_endpoint := zero_address\<rparr>"
  from CreateClient_works [OF net(1) net(2) [unfolded AddressFromString_def], of bind_port "zsocket ?n" p1]
  obtain z p2 where "create_socket N (node_options name q bind_port kClient) (zsocket ?n) p1 = (True, z, p2)"
    by (auto simp: create_socket_def node_options_def)
  then have "\<exists>n2. Init P N ienv (node_options name q bind_port kClient) p1 ?n = (True, p2, n2)"
    by (simp add: Init_def init_crypto_def node_options_def StartThreads_def Let_def)
  then obtain n2 where "Init P N ienv (node_options name q bind_port kClient) p1 ?n = (True, p2, n2)" by blast
  with d net(2) show ?thesis by (simp add: InitAsClient_def finish_init_def Let_def)
qed

lemma rearm_role: "same_role n (rearm now as n)"
proof (induction "as" arbitrary: n)
  case (Cons a "as")
  have "same_role n (if IsSelfAddress n a then n else ArmPunchProbe now a (n\<lparr>peers := snd (GetOrCreatePeer a (peers n))\<rparr>))"
    by (simp add: same_role_def)
  from same_role_trans [OF this Cons.IH] show ?case by simp
qed simp

lemma ReconnectToHost_works:
  assumes net: "sockets_work N" "AddressFromString N (c_string (ip a)) (port a) = Some a"
    and n: "pending_dispatch_tasks n = 0" "\<not> IsSelfAddress n a"
  shows "\<exists>p' n'. ReconnectToHost P N ienv env a p n = Some (True, p', n') \<and> node_type n' = Client \<and> host_endpoint n' = a \<and>
    state n' = kConnected"
proof -
  from InitAsClient_works [OF net n(1), of P ienv env "local_port n" p] obtain p1 n1 where
    i: "InitAsClient P N ienv env (c_string (ip a)) (port a) (local_port n) p n = Some (True, p1, n1)"
    and n1: "node_type n1 = Client" "host_endpoint n1 = a" "state n1 = kConnected" by blast
  have "same_role n1 (SendJoinHello (host P) env (rearm (node_time env) (known_peers n) n1))"
    unfolding SendJoinHello_def by (rule same_role_trans [OF rearm_role PushControlPacket_role])
  with i n1 n(2) show ?thesis by (simp add: ReconnectToHost_def Let_def same_role_def)
qed

lemma read_transition:
  assumes "clean_address a" and "transition_payload h a = Some payload"
  shows "read_control h' payload = Some (ControlKind_HostTransition, 6)"
    and "DeserializeAddress h' payload 6 = Some (a, 6 + length (address_bytes a))"
proof -
  have payload: "payload = control_header h ControlKind_HostTransition @ address_bytes a"
    using assms by (simp add: transition_payload_def SerializeAddress_clean)
  then show "read_control h' payload = Some (ControlKind_HostTransition, 6)" by (simp add: read_control_header)
  show "DeserializeAddress h' payload 6 = Some (a, 6 + length (address_bytes a))"
    using DeserializeAddress_bytes [OF assms(1), of h' "control_header h ControlKind_HostTransition" "[]"] payload
    by (simp add: length_control_header)
qed

lemma host_obeys_transition:
  assumes "sockets_work N" "AddressFromString N (c_string (ip a)) (port a) = Some a"
    and "clean_address a" "transition_payload h a = Some (ip_data packet)"
    and "node_type n = Host" "pending_dispatch_tasks n = 0" "\<not> IsSelfAddress n a"
  shows "\<exists>p' n'. ProcessControlPacket P N ienv env packet p n = Some (p', n') \<and> node_type n' = Client \<and> host_endpoint n' = a \<and>
    state n' = kConnected"
proof -
  from ReconnectToHost_works [OF assms(1,2,6,7), of P ienv env p] obtain p' n' where
    r: "ReconnectToHost P N ienv env a p n = Some (True, p', n')" "node_type n' = Client" "host_endpoint n' = a" "state n' = kConnected"
    by blast
  note m = read_transition [OF assms(3,4), of "host P"]
  have "ProcessControlPacket P N ienv env packet p n = Some (p', n')"
    using r(1) m assms(5,7) by (simp add: ProcessControlPacket_def process_HostTransition_def control_kinds Let_def)
  with r show ?thesis by blast
qed

subsection \<open>Properties\<close>

text \<open>An address a node writes into a control message is read back as the same address, at any place of the message
  and between hosts of different byte order; and a message that ends inside the address is noticed.\<close>

theorem address_roundtrip:
  assumes "clean_address a"
  shows "\<exists>bytes. SerializeAddress h buffer a = Some (buffer @ bytes) \<and>
    (\<forall>post. DeserializeAddress h' (buffer @ bytes @ post) (length buffer) = Some (a, length buffer + length bytes)) \<and>
    (\<forall>k < length bytes. DeserializeAddress h' (buffer @ take k bytes) (length buffer) = None)"
  using SerializeAddress_clean [OF assms] DeserializeAddress_bytes [OF assms] DeserializeAddress_truncated [OF assms] by blast

definition sample_address :: "u16 \<Rightarrow> Address" where
  "sample_address q = \<lparr>ip = 49 # replicate 45 0, port = q, address_family = AF_INET\<rparr>"

lemma c_string_sample [simp]: "c_string (ip (sample_address q)) = [49]"
  by (simp add: c_string_def sample_address_def)

lemma sample_clean [simp]: "clean_address (sample_address q)"
  by (simp add: clean_address_def sample_address_def c_string_def)

theorem address_roundtrip_witness:
  "\<exists>bytes. SerializeAddress LittleEndian [7] (sample_address 9) = Some ([7] @ bytes) \<and>
     DeserializeAddress BigEndian ([7] @ bytes @ [3]) 1 = Some (sample_address 9, 1 + length bytes)"
  using address_roundtrip [OF sample_clean, of LittleEndian "[7]" 9 BigEndian] by auto


text \<open>A host at port 1 with two peers; a client of it, which knows it as peer 1 and another client as peer 2.\<close>

definition sample_peers :: "ZPeer list \<Rightarrow> ZPeerMapping" where
  "sample_peers xs = \<lparr>peer_ids = 3, peer_list = xs\<rparr>"

definition sample_host :: ZP2PNode where
  "sample_host = (new_node 0)\<lparr>node_type := Host, peers := sample_peers
     [\<lparr>peer_identifier = 1, address = sample_address 2\<rparr>, \<lparr>peer_identifier = 2, address = sample_address 3\<rparr>]\<rparr>"

definition sample_client :: ZP2PNode where
  "sample_client = (new_node 0)\<lparr>node_type := Client, host_endpoint := sample_address 1, peers := sample_peers
     [\<lparr>peer_identifier = 1, address = sample_address 1\<rparr>, \<lparr>peer_identifier = 2, address = sample_address 2\<rparr>]\<rparr>"

definition sample_control :: "u32 \<Rightarrow> byte list \<Rightarrow> IncomingPacket" where
  "sample_control source data = \<lparr>ip_channel = Control, ip_flags = control_flags False, ip_type = PacketType_NetworkControl,
     source_peer_id = source, acknowledgement_number = 0, sequence_number = 1, ip_data = data\<rparr>"

definition sample_node_env :: node_env where
  "sample_node_env = \<lparr>node_time = 5, node_block = (\<lambda>_ _. 0), node_sleep = id\<rparr>"

definition sample_init_env :: init_env where
  "sample_init_env = \<lparr>init_time = 5, init_nonce = None, init_challenge = None\<rparr>"

lemmas new_node_defs = new_node_def new_transport_def new_packet_queue_def new_dispatcher_def ZAsyncTransportLayer.defs
  ZPacketQueue.defs ZP2PNode.defs PacketDispatcher.defs

lemma sample_nodes:
  "node_type sample_host = Host" "peers sample_host = sample_peers
     [\<lparr>peer_identifier = 1, address = sample_address 2\<rparr>, \<lparr>peer_identifier = 2, address = sample_address 3\<rparr>]"
  "node_type sample_client = Client" "host_endpoint sample_client = sample_address 1" "peers sample_client = sample_peers
     [\<lparr>peer_identifier = 1, address = sample_address 1\<rparr>, \<lparr>peer_identifier = 2, address = sample_address 2\<rparr>]"
  "\<not> IsSelfAddress sample_host b" "\<not> IsSelfAddress sample_client b" "pending_dispatch_tasks sample_host = 0"
  by (simp_all add: sample_host_def sample_client_def IsSelfAddress_def new_node_defs)

lemma sample_sources:
  "from_host sample_client (GetPeer (source_peer_id (sample_control 1 data)) (peers sample_client))"
  "\<not> from_host sample_client (GetPeer (source_peer_id (sample_control 2 data)) (peers sample_client))"
  by (simp_all add: from_host_def GetPeer_def sample_nodes sample_peers_def sample_control_def sample_address_def)



text \<open>C23: a client takes instructions from its host alone: a control message from any other source, known or not, leaves
  whom it follows and where it can be reached as they were; and one that welcomes, announces a roster
  or another host changes nothing at all.\<close>

theorem client_trusts_only_host:
  assumes "node_type n = Client" and "\<not> from_host n (GetPeer (source_peer_id packet) (peers n))"
  shows "\<exists>n'. ProcessControlPacket P N ienv env packet p n = Some (p, n') \<and> same_role n n' \<and>
    (\<forall>kind cur. read_control (host P) (ip_data packet) = Some (kind, cur) \<and>
       kind \<in> {ControlKind_Welcome, ControlKind_PeerRoster, ControlKind_HostTransition, ControlKind_JoinHello} \<longrightarrow> n' = n)"
  using assms by (rule client_ignores_others)

theorem client_trusts_only_host_witness:
  "\<exists>data. read_control LittleEndian data = Some (ControlKind_HostTransition, 6) \<and>
     ProcessControlPacket sample_platform sample_net sample_init_env sample_node_env (sample_control 2 data)
       \<lparr>open_fds = []\<rparr> sample_client = Some (\<lparr>open_fds = []\<rparr>, sample_client)"
proof -
  let ?data = "control_header LittleEndian ControlKind_HostTransition"
  have kind: "read_control LittleEndian ?data = Some (ControlKind_HostTransition, 6)"
    using read_control_header [of LittleEndian LittleEndian _ "[]"] by simp
  then have "read_control (host sample_platform) (ip_data (sample_control 2 ?data)) = Some (ControlKind_HostTransition, 6)"
    by (simp add: sample_platform_def sample_control_def)
  with client_trusts_only_host [OF sample_nodes(3) sample_sources(2), of sample_platform sample_net sample_init_env
      sample_node_env ?data "\<lparr>open_fds = []\<rparr>"]
  have "ProcessControlPacket sample_platform sample_net sample_init_env sample_node_env (sample_control 2 ?data)
       \<lparr>open_fds = []\<rparr> sample_client = Some (\<lparr>open_fds = []\<rparr>, sample_client)" by auto
  with kind show ?thesis by blast
qed

text \<open>A client that makes itself host splits the session.  The transition it announces is obeyed by the old host, which
  does not ask who sent it and becomes a client of the new host, and is ignored by every other client,
  since it does not come from the host they follow.\<close>

theorem transition_splits_session:
  assumes "sockets_work N" "AddressFromString N (c_string (ip a)) (port a) = Some a"
    and "clean_address a" "transition_payload h a = Some (ip_data packet)"
    and "node_type old_host = Host" "pending_dispatch_tasks old_host = 0" "\<not> IsSelfAddress old_host a"
    and "node_type other = Client" "\<not> from_host other (GetPeer (source_peer_id packet) (peers other))"
  shows "(\<exists>p' n'. ProcessControlPacket P N ienv env packet p old_host = Some (p', n') \<and> node_type n' = Client \<and>
      host_endpoint n' = a \<and> state n' = kConnected) \<and>
    ProcessControlPacket P' N' ienv' env' packet p other = Some (p, other)"
proof -
  note m = read_transition(1) [OF assms(3,4), of "host P'"]
  from client_ignores_others [OF assms(8,9), of P' N' ienv' env' p] m
  have "ProcessControlPacket P' N' ienv' env' packet p other = Some (p, other)" by auto
  with host_obeys_transition [OF assms(1-7), of P ienv env p] show ?thesis by blast
qed

theorem transition_splits_session_witness:
  "\<exists>data a. (\<exists>p' n'. ProcessControlPacket sample_platform sample_net sample_init_env sample_node_env (sample_control 2 data)
       \<lparr>open_fds = []\<rparr> sample_host = Some (p', n') \<and> node_type n' = Client \<and> host_endpoint n' = a \<and> state n' = kConnected) \<and>
     ProcessControlPacket sample_platform sample_net sample_init_env sample_node_env (sample_control 2 data)
       \<lparr>open_fds = []\<rparr> sample_client = Some (\<lparr>open_fds = []\<rparr>, sample_client)"
proof -
  let ?a = "sample_address 9"
  have fill: "0 # replicate 44 0 = replicate 45 (0 :: byte)" by (simp flip: replicate_Suc)
  have net: "sockets_work sample_net" "AddressFromString sample_net (c_string (ip ?a)) (port ?a) = Some ?a"
    by (simp_all add: sockets_work_def sample_net_def AddressFromString_def ResolveAddress_def ResolveSockaddr_def
        sizeof_sockaddr_storage_def SetSockaddrPort_def AddressFromSockaddr_def sample_address_def c_string_def inet_ntop_def
        memcpy_at_def fill)
  obtain data where data: "transition_payload LittleEndian ?a = Some data"
    by (simp add: transition_payload_def SerializeAddress_clean)
  then have "transition_payload LittleEndian ?a = Some (ip_data (sample_control 2 data))" by (simp add: sample_control_def)
  from transition_splits_session [OF net sample_clean this sample_nodes(1,8,6,3) sample_sources(2), of sample_platform
      sample_init_env sample_node_env "\<lparr>open_fds = []\<rparr>" sample_platform sample_net sample_init_env sample_node_env]
  show ?thesis by blast
qed

text \<open>C25: whatever a program calls on its node and whatever arrives, the node keeps one probe state per address, and counts
  at most twelve probes in it.\<close>

theorem punch_states_well_formed:
  assumes "node_reachable P N p n"
  shows "distinct (map punch_address (punch_peers n)) \<and> (\<forall>s \<in> set (punch_peers n). attempts_sent s \<le> kMaxPunchProbeAttempts)"
  using reachable_ok [OF assms] by (simp add: punch_ok_def)

theorem punch_states_well_formed_witness:
  "\<exists>p n. node_reachable sample_platform sample_net p n \<and> state n = kConnected \<and> node_type n = Host \<and>
     distinct (map punch_address (punch_peers n))"
proof -
  have "\<exists>p' n'. node_step sample_platform sample_net (sample_init_env, sample_node_env, BeginOp 4000) \<lparr>open_fds = []\<rparr> (new_node 0) =
      Some (p', n') \<and> state n' = kConnected \<and> node_type n' = Host"
    by (simp add: Node_Begin_def InitAsHost_def Deinit_def DestroySocket_def StopThreads_def WaitForPendingDispatchTasks_def
        Init_def create_socket_def node_options_def CreateServer_def open_descriptor_def sample_net_def init_crypto_def
        StartThreads_def finish_init_def AddressFromString_def ResolveAddress_def ResolveSockaddr_def clear_node_def
        sizeof_sockaddr_storage_def SetSockaddrPort_def AddressFromSockaddr_def new_node_defs new_socket_def Let_def
        EnsureDispatchExecutor_def ConfigureDispatchExecutor_def AF_INET_def AF_INET6_def ascii_def)
  then obtain p' n' where s: "node_step sample_platform sample_net (sample_init_env, sample_node_env, BeginOp 4000)
      \<lparr>open_fds = []\<rparr> (new_node 0) = Some (p', n')" and n': "state n' = kConnected" "node_type n' = Host" by blast
  have "node_reachable sample_platform sample_net p' n'"
    by (rule node_reachable.call [OF node_reachable.fresh s])
  with punch_states_well_formed [OF this] n' show ?thesis by blast
qed

text \<open>An update of a node that is not connected and has nothing to receive.\<close>

lemma Pop_empty: "priority_empty (channel_incoming_queues n channel) \<Longrightarrow> Pop channel n = (None, n)"
  by (simp add: Pop_def)

lemma Update_nothing:
  assumes "\<And>channel. priority_empty (channel_incoming_queues n channel)" and "state n \<noteq> kConnected"
  shows "Node_Update P N ienv env p n = Some (state n \<noteq> kDisconnected, p, n)"
  using assms by (simp add: Node_Update_def node_drain.simps Pop_empty TickNatPunchthrough_def)

text \<open>C26: \<^verbatim>\<open>Update\<close> returns: when no task of the executor is pending, the two loops that drain the incoming channels end,
  whatever the packets hold, even if a message makes the node change its role on the way.\<close>

theorem node_update_returns:
  assumes "pending_dispatch_tasks n = 0" and "\<forall>c. priority_ok (channel_incoming_queues n c)"
  shows "\<exists>r p' n'. Node_Update P N ienv env p n = Some (r, p', n')"
proof -
  from node_drain_returns [OF assms, of P N ienv env Control p] obtain p1 n1 where
    d: "node_drain P N ienv env Control p n = Some (p1, n1)" "pending_dispatch_tasks n1 = 0" "\<forall>c. priority_ok (channel_incoming_queues n1 c)"
    by blast
  from node_drain_returns [OF d(2,3), of P N ienv env Data p1] obtain p2 n2 where
    "node_drain P N ienv env Data p1 n1 = Some (p2, n2)" by blast
  with d(1) show ?thesis by (simp add: Node_Update_def Let_def)
qed

theorem node_update_returns_witness:
  "\<exists>r p' n'. Node_Update sample_platform sample_net sample_init_env sample_node_env \<lparr>open_fds = []\<rparr> sample_host = Some (r, p', n')"
proof -
  have "\<forall>c. priority_ok (channel_incoming_queues sample_host c)" by (simp add: sample_host_def new_node_defs)
  then show ?thesis using node_update_returns [OF sample_nodes(8)] by blast
qed

end
