(* ===== verification/Public_Api.thy ===== *)
theory Public_Api
  imports Buffer_Pool Formatting
begin

text \<open>
  \<^verbatim>\<open>src/znet/z_public_api.h\<close> and \<^verbatim>\<open>.cc\<close>, with what they
  use of \<^verbatim>\<open>src/znet/z_network_allocator.h\<close>: \<^verbatim>\<open>GetClassStats\<close>, the destructor of the pool, and the two
  adaptors \<^verbatim>\<open>PacketAllocator\<close> and \<^verbatim>\<open>PacketDeleter\<close>.  The floating-point demand average of a class is
  carried through as an argument \<open>demand\<close>; the quotient and the printing of floating-point numbers are
  arguments of the function that prints the statistics.
\<close>

record 'd ClassStats =
  stat_block_size :: nat
  stat_request_count :: nat
  stat_hit_count :: nat
  stat_target_cached_blocks :: nat
  stat_cached_free_blocks :: nat
  stat_ewma_demand :: 'd

record 'd ZPacketAllocatorStats =
  stats_total_requests :: nat
  stats_pool_hits :: nat
  stats_fallback_allocations :: nat
  stats_class_count :: nat
  stats_classes :: "'d ClassStats list"

definition GetClassStats :: "(nat \<Rightarrow> 'd) \<Rightarrow> PacketBufferPool \<Rightarrow> 'd ClassStats list" where
  "GetClassStats demand p =
     map (\<lambda>i. let bucket = pool_classes p ! i in
            \<lparr>stat_block_size = block_size bucket, stat_request_count = total_requests bucket,
             stat_hit_count = total_hits bucket, stat_target_cached_blocks = target_cached_blocks bucket,
             stat_cached_free_blocks = length (free_list bucket), stat_ewma_demand = demand i\<rparr>)
       [0..<kClassCount]"

text \<open>The caller's structure; \<open>None\<close> is a null pointer.\<close>

definition ZGetPacketAllocatorStats ::
  "(nat \<Rightarrow> 'd) \<Rightarrow> PacketBufferPool \<Rightarrow> 'd ZPacketAllocatorStats option \<Rightarrow> bool \<times> 'd ZPacketAllocatorStats option" where
  "ZGetPacketAllocatorStats demand p out_stats =
     (case out_stats of
        None \<Rightarrow> (False, None)
      | Some _ \<Rightarrow>
          (case GetStats p of
             (request_total, hit_total, fallback) \<Rightarrow>
               (True, Some \<lparr>stats_total_requests = request_total, stats_pool_hits = hit_total,
                  stats_fallback_allocations = fallback, stats_class_count = kClassCount,
                  stats_classes = GetClassStats demand p\<rparr>)))"

definition ZResetPacketAllocatorStats :: "PacketBufferPool \<Rightarrow> PacketBufferPool" where
  "ZResetPacketAllocatorStats p = ResetStats p"

text \<open>\<open>zero\<close>, \<open>percent hits requests\<close> and \<open>two_digits\<close> stand for the arithmetic and the conversion \<^verbatim>\<open>%.2f\<close> of doubles.\<close>

definition zero_stats :: "'d ZPacketAllocatorStats" where
  "zero_stats = \<lparr>stats_total_requests = 0, stats_pool_hits = 0, stats_fallback_allocations = 0, stats_class_count = 0,
     stats_classes = []\<rparr>"

definition summary_line :: "'d \<Rightarrow> (nat \<Rightarrow> nat \<Rightarrow> 'd) \<Rightarrow> ('d \<Rightarrow> byte list) \<Rightarrow> 'd ZPacketAllocatorStats \<Rightarrow> byte list" where
  "summary_line zero percent two_digits s =
     (let hit_rate = (if stats_total_requests s = 0 then zero else percent (stats_pool_hits s) (stats_total_requests s)) in
      ascii ''PacketAllocator total='' @ decimal (stats_total_requests s) @ ascii '' hits='' @ decimal (stats_pool_hits s) @
      ascii '' hit_rate='' @ two_digits hit_rate @ ascii ''% fallback='' @ decimal (stats_fallback_allocations s) @ [0x0A])"

definition class_line :: "('d \<Rightarrow> byte list) \<Rightarrow> nat \<Rightarrow> 'd ClassStats \<Rightarrow> byte list" where
  "class_line two_digits i c =
     ascii ''  class['' @ decimal i @ ascii ''] block='' @ decimal (stat_block_size c) @
     ascii '' req='' @ decimal (stat_request_count c) @ ascii '' hit='' @ decimal (stat_hit_count c) @
     ascii '' target='' @ decimal (stat_target_cached_blocks c) @ ascii '' free='' @ decimal (stat_cached_free_blocks c) @
     ascii '' ewma='' @ two_digits (stat_ewma_demand c) @ [0x0A]"

fun class_lines :: "('d \<Rightarrow> byte list) \<Rightarrow> nat \<Rightarrow> 'd ClassStats list \<Rightarrow> log_event list" where
  "class_lines two_digits i [] = []"
| "class_lines two_digits i (c # cs) =
     (if stat_request_count c = 0 \<and> stat_cached_free_blocks c = 0 then class_lines two_digits (i + 1) cs
      else ErrorLine (class_line two_digits i c) # class_lines two_digits (i + 1) cs)"

definition ZDumpPacketAllocatorStats ::
  "'d \<Rightarrow> (nat \<Rightarrow> nat \<Rightarrow> 'd) \<Rightarrow> ('d \<Rightarrow> byte list) \<Rightarrow> (nat \<Rightarrow> 'd) \<Rightarrow> PacketBufferPool \<Rightarrow> log_state \<Rightarrow> log_state" where
  "ZDumpPacketAllocatorStats zero percent two_digits demand p s =
     (case ZGetPacketAllocatorStats demand p (Some zero_stats) of
        (True, Some stats) \<Rightarrow>
          s\<lparr>log_events := log_events s @ ErrorLine (summary_line zero percent two_digits stats) #
             class_lines two_digits 0 (stats_classes stats)\<rparr>
      | _ \<Rightarrow> s\<lparr>log_events := log_events s @ [ErrorLine (ascii ''Allocator stats unavailable'' @ [0x0A])]\<rparr>)"

text \<open>The context pointer is always null.\<close>

definition ZCreateContext :: "u64 option" where
  "ZCreateContext = None"

definition SetBaseLogHandlerFwd :: "u64 \<Rightarrow> u64 option \<Rightarrow> log_state \<Rightarrow> log_state" where
  "SetBaseLogHandlerFwd user_pointer callback s = SetLogHandler callback user_pointer s"

text \<open>The destructor deletes what the free lists hold, class by class.\<close>

fun destroy_classes :: "ClassBucket list \<Rightarrow> PacketBufferPool \<Rightarrow> PacketBufferPool option" where
  "destroy_classes [] p = Some p"
| "destroy_classes (bucket # rest) p =
     (case delete_blocks (free_list bucket) p of None \<Rightarrow> None | Some p \<Rightarrow> destroy_classes rest p)"

definition destroy_pool :: "PacketBufferPool \<Rightarrow> PacketBufferPool option" where
  "destroy_pool p =
     map_option (\<lambda>p. p\<lparr>pool_classes := map (\<lambda>b. b\<lparr>free_list := []\<rparr>) (pool_classes p)\<rparr>)
       (destroy_classes (pool_classes p) p)"

definition PacketAllocator_Allocate :: "u64 \<Rightarrow> nat \<Rightarrow> PacketBufferPool \<Rightarrow> (u64 \<times> PacketBufferPool) option" where
  "PacketAllocator_Allocate addr allocator_block_size p = Allocate addr allocator_block_size p"

definition PacketAllocator_Deallocate ::
  "bool \<Rightarrow> nat list option \<Rightarrow> u64 \<Rightarrow> PacketBufferPool \<Rightarrow> PacketBufferPool option" where
  "PacketAllocator_Deallocate try_lock computed block p =
     (if block = 0 then Some p else Release try_lock computed block p)"

definition PacketDeleter_call ::
  "bool \<Rightarrow> bool \<Rightarrow> nat list option \<Rightarrow> u64 \<Rightarrow> PacketBufferPool \<Rightarrow> PacketBufferPool option" where
  "PacketDeleter_call has_allocator try_lock computed block p =
     (if block = 0 then Some p
      else if has_allocator then PacketAllocator_Deallocate try_lock computed block p
      else Release try_lock computed block p)"

subsection \<open>Histories of the pool\<close>

text \<open>
  The states the pool reaches when its users retain and release blocks they hold a reference to.
  The adaptors and the calls of the public interface are among the steps.
\<close>

inductive pool_reachable :: "PacketBufferPool \<Rightarrow> bool" where
  created: "pool_reachable new_pool"
| allocated: "pool_reachable p \<Longrightarrow> fresh_block addr p \<Longrightarrow> PacketAllocator_Allocate addr n p = Some (d, p') \<Longrightarrow> pool_reachable p'"
| retained: "pool_reachable p \<Longrightarrow> live_refs p d > 0 \<Longrightarrow> live_refs p d + 1 < 2 ^ 32 \<Longrightarrow> Retain d p = Some p' \<Longrightarrow> pool_reachable p'"
| released: "pool_reachable p \<Longrightarrow> live_refs p d > 0 \<Longrightarrow> PacketDeleter_call b try_lock computed d p = Some p' \<Longrightarrow> pool_reachable p'"
| boosted: "pool_reachable p \<Longrightarrow> pool_reachable (BoostClassCacheForSize n k p)"
| stats_reset: "pool_reachable p \<Longrightarrow> pool_reachable (ZResetPacketAllocatorStats p)"

lemma PacketDeleter_eq: "PacketDeleter_call b try_lock computed d p = Release try_lock computed d p"
  by (simp add: PacketDeleter_call_def PacketAllocator_Deallocate_def Release_def)

lemma reachable_inv: "pool_reachable p \<Longrightarrow> pool_inv p"
proof (induction rule: pool_reachable.induct)
  case created
  show ?case by (rule pool_inv_new)
next
  case (allocated p addr n d p')
  show ?case
  proof (cases "n = 0")
    case True
    then show ?thesis using allocated by (simp add: PacketAllocator_Allocate_def Allocate_def)
  next
    case False
    then show ?thesis
      using Allocate_spec [of p addr n] allocated by (auto simp: PacketAllocator_Allocate_def allocated_fresh_def)
  qed
next
  case (retained p d p')
  then show ?case using Retain_spec [of p d] by auto
next
  case (released p d b try_lock computed p')
  then show ?case using Release_spec [of p d try_lock computed] by (auto simp: PacketDeleter_eq)
next
  case (boosted p n k)
  then show ?case using BoostClassCacheForSize_spec [of p n k] by (auto simp: cache_step_def)
next
  case (stats_reset p)
  then show ?case using ResetStats_spec [of p] by (auto simp: cache_step_def ZResetPacketAllocatorStats_def)
qed

subsection \<open>The counters\<close>

text \<open>The counters of the whole pool are the sums of the counters of its classes.\<close>

definition stats_ok :: "PacketBufferPool \<Rightarrow> bool" where
  "stats_ok p \<longleftrightarrow> pool_requests p = sum_list (map total_requests (pool_classes p)) + fallback_allocations p \<and>
     pool_hits p = sum_list (map total_hits (pool_classes p)) \<and>
     list_all (\<lambda>b. total_hits b \<le> total_requests b) (pool_classes p)"

definition same_counters :: "PacketBufferPool \<Rightarrow> PacketBufferPool \<Rightarrow> bool" where
  "same_counters p p' \<longleftrightarrow> pool_requests p' = pool_requests p \<and> pool_hits p' = pool_hits p \<and>
     fallback_allocations p' = fallback_allocations p \<and>
     map total_requests (pool_classes p') = map total_requests (pool_classes p) \<and>
     map total_hits (pool_classes p') = map total_hits (pool_classes p)"

lemma same_counters_refl [simp]: "same_counters p p"
  by (simp add: same_counters_def)

lemma same_counters_trans: "same_counters p q \<Longrightarrow> same_counters q r \<Longrightarrow> same_counters p r"
  by (simp add: same_counters_def)

lemma same_counters_heap [simp]: "same_counters p (q\<lparr>heap_blocks := h\<rparr>) = same_counters p q"
  by (simp add: same_counters_def)

lemma same_counters_class:
  assumes "total_requests b = total_requests (pool_classes p ! i)" and "total_hits b = total_hits (pool_classes p ! i)"
  shows "same_counters p (p\<lparr>pool_classes := (pool_classes p)[i := b]\<rparr>)"
  using assms by (simp add: same_counters_def map_update) (metis list_update_id map_update)

lemma same_counters_stats:
  assumes "same_counters p p'" and "stats_ok p"
  shows "stats_ok p'"
proof -
  have len: "length (pool_classes p') = length (pool_classes p)"
    using assms(1) unfolding same_counters_def by (metis length_map)
  have eq: "total_requests (pool_classes p' ! i) = total_requests (pool_classes p ! i)"
    "total_hits (pool_classes p' ! i) = total_hits (pool_classes p ! i)" if "i < length (pool_classes p)" for i
    using assms(1) that len unfolding same_counters_def by (metis nth_map)+
  show ?thesis
    using assms len eq by (auto simp: stats_ok_def same_counters_def list_all_length)
qed

lemma delete_blocks_counters: "delete_blocks out p = Some p' \<Longrightarrow> same_counters p p'"
  by (induction out arbitrary: p) (auto simp: delete_block_def same_counters_def split: option.splits)

lemma Trim_counters: "TrimClassCache i t p = Some p' \<Longrightarrow> same_counters p p'"
  using same_counters_class [of "(pool_classes p ! i)\<lparr>free_list := _\<rparr>" p i]
  by (auto simp: TrimClassCache_def Let_def split: if_splits
      intro: same_counters_trans dest!: delete_blocks_counters)

lemma retune_loop_counters: "retune_loop ts i p = Some p' \<Longrightarrow> same_counters p p'"
proof (induction ts arbitrary: i p)
  case (Cons t ts)
  let ?t = "if t < kMinTargetPerClass then kMinTargetPerClass else t"
  let ?p = "p\<lparr>pool_classes := (pool_classes p)[i := (pool_classes p ! i)\<lparr>target_cached_blocks := ?t\<rparr>]\<rparr>"
  from Cons.prems obtain q where q: "TrimClassCache i ?t ?p = Some q" "retune_loop ts (i + 1) q = Some p'"
    by (auto simp: Let_def split: option.splits)
  have "same_counters p ?p" by (rule same_counters_class) simp_all
  then show ?case using Trim_counters [OF q(1)] Cons.IH [OF q(2)] same_counters_trans by blast
qed simp

lemma Retune_counters: "RetuneTargets computed p = Some p' \<Longrightarrow> same_counters p p'"
proof -
  assume r: "RetuneTargets computed p = Some p'"
  let ?p = "p\<lparr>pool_classes := map (\<lambda>b. b\<lparr>requests := 0\<rparr>) (pool_classes p)\<rparr>"
  have "same_counters p ?p" by (simp add: same_counters_def comp_def)
  then show ?thesis
    using r by (auto simp: RetuneTargets_def Let_def split: option.splits intro: same_counters_trans dest: retune_loop_counters)
qed

lemma Release_counters:
  assumes "Release try_lock computed d p = Some p'"
  shows "same_counters p p'"
proof -
  have free: "same_counters p (p\<lparr>heap_blocks := m, pool_classes := (pool_classes p)[i := (pool_classes p ! i)\<lparr>free_list := xs\<rparr>]\<rparr>)" for m i xs
    using same_counters_class [of "(pool_classes p ! i)\<lparr>free_list := xs\<rparr>" p i] by (simp add: same_counters_def)
  have retune: "MaybeRetune try_lock computed q = Some p' \<Longrightarrow> same_counters q p'" for q
    by (auto simp: MaybeRetune_def split: if_splits dest: Retune_counters)
  from assms show ?thesis
    by (auto simp: Release_def delete_block_def Let_def split: if_splits option.splits dest!: retune
        intro: same_counters_trans [OF free] same_counters_trans [of p "p\<lparr>heap_blocks := _\<rparr>"])
qed

lemma sum_list_bump:
  assumes "i < length xs" and "f y = f (xs ! i) + k"
  shows "sum_list (map f (xs[i := y])) = sum_list (map f xs) + (k :: nat)"
proof -
  have "sum_list (map f (xs[i := y])) = sum_list (map f xs) + f y - f (xs ! i)"
    using assms(1) by (simp add: map_update sum_list_update)
  then show ?thesis using assms(2) by simp
qed

lemma Allocate_stats:
  assumes "stats_ok p" and "length (pool_classes p) = 11" and "Allocate addr n p = Some (d, p')"
  shows "stats_ok p'"
proof -
  let ?i = "SizeToClassIndex n"
  let ?b = "pool_classes p ! ?i"
  consider "n = 0" | "n \<noteq> 0" "?i = kInvalidClassIndex" | "n \<noteq> 0" "?i \<noteq> kInvalidClassIndex" "?i < length (pool_classes p)"
    using SizeToClassIndex_spec [OF refl, of n] assms(2) by (auto split: if_splits)
  then show ?thesis
  proof cases
    case 1
    then show ?thesis using assms by (simp add: Allocate_def)
  next
    case 2
    then show ?thesis using assms by (auto simp: Allocate_def AllocateNewBlock_def stats_ok_def Let_def)
  next
    case 3
    have upd: "list_all (\<lambda>b. total_hits b \<le> total_requests b) ((pool_classes p)[?i := b])"
      if "total_hits b \<le> total_requests b" for b
      using assms(1) that 3(3) by (simp add: stats_ok_def list_all_length nth_list_update)
    have old: "total_hits ?b \<le> total_requests ?b" using assms(1) 3(3) by (simp add: stats_ok_def list_all_length)
    show ?thesis
    proof (cases "free_list ?b = []")
      case True
      with 3 assms old upd show ?thesis
        by (auto simp: Allocate_def AllocateNewBlock_def stats_ok_def Let_def sum_list_bump [where k = 1] sum_list_bump [where k = 0])
    next
      case False
      with 3 assms old upd show ?thesis
        by (auto simp: Allocate_def stats_ok_def Let_def sum_list_bump [where k = 1] split: option.splits)
    qed
  qed
qed

lemma reachable_stats: "pool_reachable p \<Longrightarrow> stats_ok p"
proof (induction rule: pool_reachable.induct)
  case created
  show ?case by (simp add: stats_ok_def new_pool_def list_all_iff comp_def sum_list_triv)
next
  case (allocated p addr n d p')
  then show ?case
    using Allocate_stats pool_invD(1) [OF reachable_inv] by (simp add: PacketAllocator_Allocate_def)
next
  case (retained p d p')
  then have "same_counters p p'" by (auto simp: Retain_def split: if_splits option.splits)
  then show ?case using retained by (blast intro: same_counters_stats)
next
  case (released p d b try_lock computed p')
  then show ?case by (auto simp: PacketDeleter_eq intro: same_counters_stats dest!: Release_counters)
next
  case (boosted p n k)
  have "same_counters p (BoostClassCacheForSize n k p)"
    by (auto simp: BoostClassCacheForSize_def Let_def intro: same_counters_class)
  then show ?case using boosted by (blast intro: same_counters_stats)
next
  case (stats_reset p)
  show ?case
    by (simp add: ZResetPacketAllocatorStats_def ResetStats_def stats_ok_def list_all_iff comp_def sum_list_triv)
qed

subsection \<open>Destruction\<close>

lemma delete_blocks_distinct:
  "distinct out \<Longrightarrow> \<forall>a \<in> set out. heap_blocks p a \<noteq> None \<Longrightarrow>
   delete_blocks out p = Some (p\<lparr>heap_blocks := heap_blocks p |` (- set out)\<rparr>)"
proof (induction out arbitrary: p)
  case Nil
  show ?case by (simp add: restrict_map_def)
next
  case (Cons a out)
  then obtain h where h: "heap_blocks p a = Some h" by auto
  let ?p = "p\<lparr>heap_blocks := (heap_blocks p)(a := None)\<rparr>"
  have "delete_blocks out ?p = Some (?p\<lparr>heap_blocks := heap_blocks ?p |` (- set out)\<rparr>)" using Cons by (intro Cons.IH) auto
  moreover have "heap_blocks ?p |` (- set out) = heap_blocks p |` (- set (a # out))" by (auto simp: restrict_map_def)
  ultimately show ?case using h by (simp add: delete_block_def)
qed

lemma delete_blocks_append:
  "delete_blocks (xs @ ys) p = (case delete_blocks xs p of None \<Rightarrow> None | Some p \<Rightarrow> delete_blocks ys p)"
  by (induction xs arbitrary: p) (auto split: option.split)

lemma destroy_classes_eq: "destroy_classes bs p = delete_blocks (concat (map free_list bs)) p"
  by (induction bs arbitrary: p) (auto simp: delete_blocks_append split: option.split)

definition cached :: "PacketBufferPool \<Rightarrow> u64 list" where
  "cached p = concat (map free_list (pool_classes p))"

lemma map_nth_upt: "map (\<lambda>i. f (xs ! i)) [0..<length xs] = map f xs"
  by (rule nth_equalityI) simp_all

lemma distinct_concat_upt:
  "(\<And>i. i < k \<Longrightarrow> distinct (f i)) \<Longrightarrow> (\<And>i j. i < k \<Longrightarrow> j < k \<Longrightarrow> i \<noteq> j \<Longrightarrow> set (f i) \<inter> set (f j) = {}) \<Longrightarrow>
   distinct (concat (map f [0..<k]))"
proof (induction k)
  case (Suc k)
  have "distinct (concat (map f [0..<k]))" using Suc.prems by (intro Suc.IH) simp_all
  moreover have "set (f i) \<inter> set (f k) = {}" if "i < k" for i using Suc.prems(2) [of i k] that by simp
  then have "set (concat (map f [0..<k])) \<inter> set (f k) = {}" by fastforce
  ultimately show ?case using Suc.prems(1) [of k] by simp
qed simp

lemma cached_distinct:
  assumes inv: "pool_inv p"
  shows "distinct (cached p)"
proof -
  note facts = pool_invD [OF inv]
  have "distinct (free_list (pool_classes p ! i))" if "i < 11" for i using facts(2) [OF that] by (simp add: class_ok_def)
  moreover have "set (free_list (pool_classes p ! i)) \<inter> set (free_list (pool_classes p ! j)) = {}" if "i < 11" "j < 11" "i \<noteq> j" for i j
    using facts(6) [OF that(1)] facts(6) [OF that(2)] that(3) by auto
  ultimately have "distinct (concat (map (\<lambda>i. free_list (pool_classes p ! i)) [0..<11]))" by (rule distinct_concat_upt)
  then show ?thesis using map_nth_upt [of free_list "pool_classes p"] facts(1) by (simp only: cached_def)
qed

lemma cached_set:
  assumes inv: "pool_inv p"
  shows "set (cached p) = {a. heap_blocks p a \<noteq> None \<and> live_refs p (BlockData a) = 0}"
proof -
  note facts = pool_invD [OF inv]
  have "set (cached p) = (\<Union>i<11. set (free_list (pool_classes p ! i)))"
    unfolding cached_def using facts(1) by (auto simp: in_set_conv_nth [of _ "pool_classes p"]) force+
  also have "\<dots> = {a. \<exists>h. heap_blocks p a = Some h \<and> ref_count h = 0}"
    using facts(4,5,6) by (fastforce simp: header_ok_def)
  also have "\<dots> = {a. heap_blocks p a \<noteq> None \<and> live_refs p (BlockData a) = 0}"
    by (auto simp: live_refs_def unat_eq_0)
  finally show ?thesis .
qed

lemma destroy_pool_spec:
  assumes inv: "pool_inv p"
  shows "\<exists>p'. destroy_pool p = Some p' \<and> heap_blocks p' = heap_blocks p |` {a. live_refs p (BlockData a) > 0}"
proof -
  have "destroy_classes (pool_classes p) p = Some (p\<lparr>heap_blocks := heap_blocks p |` (- set (cached p))\<rparr>)"
    unfolding destroy_classes_eq cached_def [symmetric]
    by (rule delete_blocks_distinct) (use cached_distinct [OF inv] cached_set [OF inv] in auto)
  moreover have "heap_blocks p |` (- set (cached p)) = heap_blocks p |` {a. live_refs p (BlockData a) > 0}"
    unfolding cached_set [OF inv] by (auto simp: restrict_map_def)
  ultimately show ?thesis by (simp add: destroy_pool_def)
qed

lemma class_lines_eq:
  "class_lines two_digits i cs =
     map (\<lambda>(k, c). ErrorLine (class_line two_digits (i + k) c))
       (filter (\<lambda>(k, c). stat_request_count c \<noteq> 0 \<or> stat_cached_free_blocks c \<noteq> 0) (enumerate 0 cs))"
proof (induction cs arbitrary: i)
  case (Cons c cs)
  have shift: "enumerate (Suc 0) cs = map (\<lambda>(k, c). (k + 1, c)) (enumerate 0 cs)"
    by (rule nth_equalityI) (simp_all add: nth_enumerate_eq)
  show ?case
    by (auto simp: Cons.IH shift filter_map comp_def case_prod_unfold)
qed simp

text \<open>
  Printing the statistics writes the summary and one line for each class that was asked for a block or
  keeps one; with an empty pool it writes the summary only.
\<close>

lemma ZDumpPacketAllocatorStats_lines:
  "log_events (ZDumpPacketAllocatorStats zero percent two_digits demand p s) =
     log_events s @ ErrorLine (summary_line zero percent two_digits (the (snd (ZGetPacketAllocatorStats demand p (Some zero_stats))))) #
       map (\<lambda>(k, c). ErrorLine (class_line two_digits k c))
         (filter (\<lambda>(k, c). stat_request_count c \<noteq> 0 \<or> stat_cached_free_blocks c \<noteq> 0) (enumerate 0 (GetClassStats demand p)))"
  by (simp add: ZDumpPacketAllocatorStats_def ZGetPacketAllocatorStats_def GetStats_def class_lines_eq)

subsection \<open>Properties\<close>

text \<open>C27: the allocator accounts for its blocks.  Over any history in which blocks are retained and released by those who
  hold them, the statistics the public interface reports agree with each other: the requests are those
  of the classes and the fallbacks, the hits are those of the classes, and the cached blocks are exactly
  the allocated blocks nobody refers to.  Destroying the pool frees exactly these; once every reference is
  released, no block is left.\<close>

theorem allocator_accounts_for_blocks:
  assumes "pool_reachable p"
  shows "\<exists>s p'. ZGetPacketAllocatorStats demand p (Some out) = (True, Some s) \<and>
    stats_total_requests s = sum_list (map stat_request_count (stats_classes s)) + stats_fallback_allocations s \<and>
    stats_pool_hits s = sum_list (map stat_hit_count (stats_classes s)) \<and> stats_pool_hits s \<le> stats_total_requests s \<and>
    sum_list (map stat_cached_free_blocks (stats_classes s)) = card {a. heap_blocks p a \<noteq> None \<and> live_refs p (BlockData a) = 0} \<and>
    destroy_pool p = Some p' \<and> heap_blocks p' = heap_blocks p |` {a. live_refs p (BlockData a) > 0}"
proof -
  have inv: "pool_inv p" and ok: "stats_ok p" using assms by (rule reachable_inv, rule reachable_stats)
  have classes: "map (\<lambda>i. f (pool_classes p ! i)) [0..<kClassCount] = map f (pool_classes p)" for f :: "ClassBucket \<Rightarrow> nat"
    using map_nth_upt [of f "pool_classes p"] pool_invD(1) [OF inv] by (simp only: kClassCount_def)
  let ?s = "the (snd (ZGetPacketAllocatorStats demand p (Some out)))"
  have s: "ZGetPacketAllocatorStats demand p (Some out) = (True, Some ?s)"
    by (simp add: ZGetPacketAllocatorStats_def GetStats_def)
  have sums: "map stat_request_count (stats_classes ?s) = map total_requests (pool_classes p)"
    "map stat_hit_count (stats_classes ?s) = map total_hits (pool_classes p)"
    "map stat_cached_free_blocks (stats_classes ?s) = map (length \<circ> free_list) (pool_classes p)"
    "stats_total_requests ?s = pool_requests p" "stats_pool_hits ?s = pool_hits p" "stats_fallback_allocations ?s = fallback_allocations p"
    using classes [of total_requests] classes [of total_hits] classes [of "length \<circ> free_list"]
    by (simp_all add: ZGetPacketAllocatorStats_def GetStats_def GetClassStats_def Let_def comp_def)
  have "length (cached p) = card {a. heap_blocks p a \<noteq> None \<and> live_refs p (BlockData a) = 0}"
    using distinct_card [OF cached_distinct [OF inv]] cached_set [OF inv] by simp
  then have free: "sum_list (map (length \<circ> free_list) (pool_classes p)) = card {a. heap_blocks p a \<noteq> None \<and> live_refs p (BlockData a) = 0}"
    by (simp add: cached_def length_concat comp_def)
  have "sum_list (map total_hits (pool_classes p)) \<le> sum_list (map total_requests (pool_classes p))"
    using ok by (intro sum_list_mono) (auto simp: stats_ok_def list_all_iff)
  then have "pool_hits p \<le> pool_requests p" using ok by (simp add: stats_ok_def)
  with s sums free ok destroy_pool_spec [OF inv] show ?thesis by (auto simp: stats_ok_def)
qed

definition sample_stats :: "unit ZPacketAllocatorStats" where
  "sample_stats = zero_stats"

theorem allocator_accounts_for_blocks_witness:
  "\<exists>p d s p'. pool_reachable p \<and> live_refs p d = 1 \<and> ZGetPacketAllocatorStats (\<lambda>_. ()) p (Some sample_stats) = (True, Some s) \<and>
     stats_total_requests s = sum_list (map stat_request_count (stats_classes s)) + stats_fallback_allocations s \<and>
     destroy_pool p = Some p' \<and> heap_blocks p' (HeaderFromData d) \<noteq> None"
proof -
  have fresh: "fresh_block 64 new_pool" by (simp add: fresh_block_def new_pool_def BlockData_def header_bytes_def)
  from Allocate_spec [OF pool_inv_new(1) this, of 100] obtain d p where
    a: "Allocate 64 100 new_pool = Some (d, p)" "allocated_fresh 100 d new_pool p" by auto
  have p: "pool_reachable p"
    by (rule pool_reachable.allocated [OF pool_reachable.created fresh, of 100 d]) (simp add: PacketAllocator_Allocate_def a(1))
  have live: "live_refs p d = 1" using a(2) by (simp add: allocated_fresh_def)
  then have "heap_blocks p (HeaderFromData d) \<noteq> None" by (auto simp: live_refs_def split: option.splits)
  moreover from allocator_accounts_for_blocks [OF p, of "\<lambda>_. ()" sample_stats] obtain s p' where
    "ZGetPacketAllocatorStats (\<lambda>_. ()) p (Some sample_stats) = (True, Some s)"
    "stats_total_requests s = sum_list (map stat_request_count (stats_classes s)) + stats_fallback_allocations s"
    "destroy_pool p = Some p'" "heap_blocks p' = heap_blocks p |` {a. live_refs p (BlockData a) > 0}" by blast
  moreover from this live have "heap_blocks p' (HeaderFromData d) = heap_blocks p (HeaderFromData d)" by simp
  ultimately show ?thesis using p live by metis
qed

end
