(* ===== verification/Socket_Platforms.thy ===== *)
theory Socket_Platforms
  imports Queue_Laws Socket Formatting
begin

text \<open>
  What the two operating systems make of a socket: the error codes and their names
  (\<^verbatim>\<open>src/znet/z_socket.h\<close>, \<^verbatim>\<open>src/znet/z_socket.cc\<close>), the Windows side of \<^verbatim>\<open>ZSocket\<close>
  (\<^verbatim>\<open>src/znet/z_socket_win.cc\<close>) and its use in \<^verbatim>\<open>src/znet/z_socket.cc\<close>, and how the receiving thread ends.
  WinSock counts how often a process started it; its calls fail while the count is zero.
\<close>

subsection \<open>Error names\<close>

text \<open>The number of an enumerator; the conversion of an \<^verbatim>\<open>Error\<close> to an integer.\<close>

fun error_index :: "socket_error \<Rightarrow> int" where
  "error_index NoError = 0"
| "error_index AccessDenied = 1"
| "error_index AddressInUse = 2"
| "error_index AddressNotSupported = 3"
| "error_index ConnectionRefused = 4"
| "error_index ConnectionReset = 5"
| "error_index HostUnreachable = 6"
| "error_index NetworkUnreachable = 7"
| "error_index NotConnected = 8"
| "error_index OperationInProgress = 9"
| "error_index ConnectionTimedOut = 10"
| "error_index ConnectionAborted = 11"
| "error_index UnknownError = 12"

definition ErrorCount :: int where "ErrorCount = 13"

definition ErrorStrings :: "byte list list" where
  "ErrorStrings = map ascii [''Success'', ''AccessDenied'', ''AddressInUse'', ''AddressNotSupported'',
     ''ConnectionRefused'', ''ConnectionReset'', ''HostUnreachable'', ''NetworkUnreachable'', ''NotConnected'',
     ''OperationInProgress'', ''ConnectionTimedOut'', ''ConnectionAborted'', ''UnknownError'']"

definition GetErrorString :: "int \<Rightarrow> byte list" where
  "GetErrorString index =
     (if index \<ge> 0 \<and> index < ErrorCount then ErrorStrings ! nat index else ascii ''InvalidError'')"

definition GetLastErrorString :: "errno \<Rightarrow> byte list" where
  "GetLastErrorString e = GetErrorString (error_index (GetLastError e))"

subsection \<open>Windows\<close>

text \<open>The values of the Windows headers.\<close>

definition WSAEACCES :: int where "WSAEACCES = 10013"
definition WSAEWOULDBLOCK :: int where "WSAEWOULDBLOCK = 10035"
definition WSAEINPROGRESS :: int where "WSAEINPROGRESS = 10036"
definition WSAENOTSOCK :: int where "WSAENOTSOCK = 10038"
definition WSAEAFNOSUPPORT :: int where "WSAEAFNOSUPPORT = 10047"
definition WSAEADDRINUSE :: int where "WSAEADDRINUSE = 10048"
definition WSAENETUNREACH :: int where "WSAENETUNREACH = 10051"
definition WSAECONNABORTED :: int where "WSAECONNABORTED = 10053"
definition WSAECONNRESET :: int where "WSAECONNRESET = 10054"
definition WSAENOTCONN :: int where "WSAENOTCONN = 10057"
definition WSAETIMEDOUT :: int where "WSAETIMEDOUT = 10060"
definition WSAECONNREFUSED :: int where "WSAECONNREFUSED = 10061"
definition WSAEHOSTUNREACH :: int where "WSAEHOSTUNREACH = 10065"

lemmas wsa_codes = WSAEACCES_def WSAEWOULDBLOCK_def WSAEINPROGRESS_def WSAENOTSOCK_def WSAEAFNOSUPPORT_def
  WSAEADDRINUSE_def WSAENETUNREACH_def WSAECONNABORTED_def WSAECONNRESET_def WSAENOTCONN_def WSAETIMEDOUT_def
  WSAECONNREFUSED_def WSAEHOSTUNREACH_def

definition win_GetLastError :: "int \<Rightarrow> socket_error" where
  "win_GetLastError error =
     (if error = WSAEACCES then AccessDenied
      else if error = WSAEADDRINUSE then AddressInUse
      else if error = WSAEAFNOSUPPORT then AddressNotSupported
      else if error = WSAECONNREFUSED then ConnectionRefused
      else if error = WSAECONNRESET then ConnectionReset
      else if error = WSAEHOSTUNREACH then HostUnreachable
      else if error = WSAENETUNREACH then NetworkUnreachable
      else if error = WSAENOTCONN then NotConnected
      else if error = WSAEINPROGRESS then OperationInProgress
      else if error = WSAETIMEDOUT then ConnectionTimedOut
      else if error = WSAECONNABORTED then ConnectionAborted
      else UnknownError)"

text \<open>\<^verbatim>\<open>HandleReceiveError\<close> of the receiver, compiled for Windows.\<close>

definition win_HandleReceiveError :: "int \<Rightarrow> int \<Rightarrow> ReceiveResult" where
  "win_HandleReceiveError result e =
     (if result = 0 then Goodbye
      else let error = win_GetLastError e in
        if error = ConnectionReset then Goodbye
        else if error = NotConnected then Goodbye
        else if error = NoError then Timeout
        else Error)"

text \<open>The object with its flag, and the process with its count; \<open>wsa_startup\<close> is the outcome of \<^verbatim>\<open>WSAStartup\<close>.\<close>

record win_socket =
  win_base :: ZSocket
  wsa_initialized :: bool

record win_process =
  win_fds :: process_sockets
  wsa_references :: nat

definition new_win_socket :: win_socket where
  "new_win_socket = \<lparr>win_base = new_socket, wsa_initialized = False\<rparr>"

definition WSACleanup :: "win_process \<Rightarrow> win_process" where
  "WSACleanup p = p\<lparr>wsa_references := wsa_references p - 1\<rparr>"

definition InitSocket :: "(nat \<Rightarrow> bool) \<Rightarrow> win_socket \<Rightarrow> win_process \<Rightarrow> bool \<times> win_socket \<times> win_process" where
  "InitSocket wsa_startup s p =
     (if \<not> wsa_startup (wsa_references p) then (False, s, p)
      else (True, s\<lparr>wsa_initialized := True\<rparr>, p\<lparr>wsa_references := wsa_references p + 1\<rparr>))"

definition win_DestroySocket :: "win_socket \<Rightarrow> win_process \<Rightarrow> win_socket \<times> win_process" where
  "win_DestroySocket s p =
     (case DestroySocket (win_base s) (win_fds p) of
        (b, fds) \<Rightarrow>
          let s = s\<lparr>win_base := b\<rparr>; p = p\<lparr>win_fds := fds\<rparr> in
          if wsa_initialized s then (s\<lparr>wsa_initialized := False\<rparr>, WSACleanup p) else (s, p))"

text \<open>The calls while WinSock has been started \<open>k\<close> times.\<close>

definition wsa_net :: "net_calls \<Rightarrow> nat \<Rightarrow> net_calls" where
  "wsa_net N k =
     (if k = 0 then N\<lparr>getaddrinfo := \<lambda>_ _. None, open_socket := \<lambda>_ _. None\<rparr> else N)"

definition win_ResolveSockaddr ::
  "net_calls \<Rightarrow> (nat \<Rightarrow> bool) \<Rightarrow> byte list \<Rightarrow> u16 \<Rightarrow> u8 \<Rightarrow> sockaddr \<Rightarrow> win_process \<Rightarrow>
   (Address option \<times> sockaddr) \<times> win_process" where
  "win_ResolveSockaddr N wsa_startup host_name port_number family out p =
     (if host_name = [] then ((None, out), p)
      else if \<not> wsa_startup (wsa_references p) then ((None, out), p)
      else
        let p = p\<lparr>wsa_references := wsa_references p + 1\<rparr> in
        case getaddrinfo (wsa_net N (wsa_references p)) host_name family of
          None \<Rightarrow> ((None, out), WSACleanup p)
        | Some results \<Rightarrow> (resolve_candidates N port_number results out, WSACleanup p))"

text \<open>
  \<^verbatim>\<open>CreateServer\<close> and \<^verbatim>\<open>CreateClient\<close> start WinSock first.  Every failure after that ends with
  \<^verbatim>\<open>DestroySocket\<close>, whose first half, closing the descriptor, the functions of \<open>Socket\<close> have done.
\<close>

definition win_finish :: "bool \<times> ZSocket \<times> process_sockets \<Rightarrow> win_socket \<Rightarrow> win_process \<Rightarrow> bool \<times> win_socket \<times> win_process" where
  "win_finish result s p =
     (case result of
        (r, b, fds) \<Rightarrow>
          let s = s\<lparr>win_base := b\<rparr>; p = p\<lparr>win_fds := fds\<rparr> in
          if r then (True, s, p) else (False, win_DestroySocket s p))"

definition win_CreateServer ::
  "net_calls \<Rightarrow> (nat \<Rightarrow> bool) \<Rightarrow> u16 \<Rightarrow> bool \<Rightarrow> win_socket \<Rightarrow> win_process \<Rightarrow> bool \<times> win_socket \<times> win_process" where
  "win_CreateServer N wsa_startup port_number ipv6 s p =
     (case InitSocket wsa_startup s p of
        (False, s, p) \<Rightarrow> (False, s, p)
      | (True, s, p) \<Rightarrow>
          win_finish (CreateServer (wsa_net N (wsa_references p)) port_number ipv6 (win_base s) (win_fds p)) s p)"

definition resolver_of :: "net_calls \<Rightarrow> (nat \<Rightarrow> bool) \<Rightarrow> nat \<Rightarrow> net_calls" where
  "resolver_of N wsa_startup k = (if wsa_startup k then wsa_net N (k + 1) else N\<lparr>getaddrinfo := \<lambda>_ _. None\<rparr>)"

definition win_CreateClient ::
  "net_calls \<Rightarrow> (nat \<Rightarrow> bool) \<Rightarrow> byte list \<Rightarrow> u16 \<Rightarrow> bool \<Rightarrow> u16 \<Rightarrow> win_socket \<Rightarrow> win_process \<Rightarrow>
   bool \<times> win_socket \<times> win_process" where
  "win_CreateClient N wsa_startup host_name port_number ipv6 local_bind_port s p =
     (case InitSocket wsa_startup s p of
        (False, s, p) \<Rightarrow> (False, s, p)
      | (True, s, p) \<Rightarrow>
          win_finish
            (CreateClient ((wsa_net N (wsa_references p))
               \<lparr>getaddrinfo := getaddrinfo (resolver_of N wsa_startup (wsa_references p))\<rparr>)
               host_name port_number ipv6 local_bind_port (win_base s) (win_fds p)) s p)"

text \<open>Resolving starts WinSock once more and leaves the count as it was, so that inside \<^verbatim>\<open>CreateClient\<close> it
  is resolving with the resolver of that count.\<close>

lemma resolve_candidates_cong:
  assumes "net_host N = net_host N'" and "inet_ntop_text N = inet_ntop_text N'"
  shows "resolve_candidates N port_number cs out = resolve_candidates N' port_number cs out"
proof (induction cs arbitrary: out)
  case (Cons c cs)
  have "AddressFromSockaddr N sock = AddressFromSockaddr N' sock" for sock
    unfolding AddressFromSockaddr_def assms ..
  then show ?case by (auto simp: Cons.IH assms Let_def split: option.split)
qed simp

lemma win_ResolveSockaddr_eq:
  "win_ResolveSockaddr N wsa_startup host_name port_number family out p =
     (ResolveSockaddr (resolver_of N wsa_startup (wsa_references p)) host_name port_number family out, p)"
proof -
  have "resolve_candidates (resolver_of N wsa_startup k) port_number cs out = resolve_candidates N port_number cs out" for k cs
    by (rule resolve_candidates_cong) (simp_all add: resolver_of_def wsa_net_def)
  then show ?thesis
    by (simp add: win_ResolveSockaddr_def ResolveSockaddr_def resolver_of_def wsa_net_def WSACleanup_def Let_def
        split: option.split)
qed

subsection \<open>Errors on both systems\<close>

lemma GetErrorString_names: "GetErrorString (error_index e) \<in> set ErrorStrings"
  by (cases e) (simp_all add: GetErrorString_def ErrorCount_def ErrorStrings_def)

lemma GetErrorString_inj: "GetErrorString (error_index e) = GetErrorString (error_index e') \<Longrightarrow> e = e'"
proof -
  have "distinct ErrorStrings \<and> length ErrorStrings = 13" by code_simp
  moreover have "0 \<le> error_index x \<and> error_index x < 13" for x by (cases x) simp_all
  moreover have "error_index e = error_index e' \<Longrightarrow> e = e'" by (cases e; cases e') simp_all
  moreover assume "GetErrorString (error_index e) = GetErrorString (error_index e')"
  ultimately show ?thesis
    by (simp add: GetErrorString_def ErrorCount_def) (metis nat_eq_iff2 nat_less_iff nth_eq_iff_index_eq of_nat_numeral)
qed

text \<open>
  A socket with nothing to receive: the POSIX receiver reports a time-out, as the comment in
  \<^verbatim>\<open>HandleReceiveError\<close> intends for both systems, the Windows receiver an error.  A descriptor that was
  closed ends the POSIX receiver and not the Windows one.
\<close>

lemma idle_socket: "HandleReceiveError (-1) EAGAIN = Timeout" "win_HandleReceiveError (-1) WSAEWOULDBLOCK = Error"
  by (simp_all add: HandleReceiveError_def GetLastError_def win_HandleReceiveError_def win_GetLastError_def wsa_codes)

lemma closed_socket: "HandleReceiveError (-1) ENOTSOCK = Goodbye" "win_HandleReceiveError (-1) WSAENOTSOCK = Error"
  by (simp_all add: HandleReceiveError_def GetLastError_def win_HandleReceiveError_def win_GetLastError_def wsa_codes)

lemma windows_never_times_out: "win_HandleReceiveError result e \<noteq> Timeout"
  by (simp add: win_HandleReceiveError_def win_GetLastError_def)

subsection \<open>The end of the receiving thread\<close>

lemma HandleReceiveError_cases:
  "HandleReceiveError result e = Goodbye \<longleftrightarrow> result = 0 \<or> e \<in> {ECONNRESET, ENOTCONN, EBADF, ENOTSOCK}"
  "HandleReceiveError result e \<in> {Goodbye, Timeout, Error}"
  by (cases e; simp add: HandleReceiveError_def GetLastError_def)+

definition recv_result :: "recv_event \<Rightarrow> int" where
  "recv_result ev = (if socket_valid ev then result_code (recv_source ev) else -1)"

lemma ReceivePackets_goodbye:
  "fst (ReceivePackets P ev crypto ps r) = Goodbye \<longleftrightarrow>
     recv_result ev = 0 \<or> recv_result ev < 0 \<and> recv_errno ev \<in> {ECONNRESET, ENOTCONN, EBADF, ENOTSOCK}"
proof -
  obtain addr where rc: "Receive (socket_valid ev) (recv_source ev) (receive_address r) = (recv_result ev, addr)"
    by (cases "Receive (socket_valid ev) (recv_source ev) (receive_address r)")
      (auto simp: Receive_def recv_result_def split: if_splits)
  show ?thesis
  proof (cases "recv_result ev \<le> 0")
    case True
    then show ?thesis using HandleReceiveError_cases(1) [of "recv_result ev" "recv_errno ev"]
      by (auto simp: ReceivePackets_def rc Let_def)
  next
    case False
    then show ?thesis by (auto simp: ReceivePackets_def rc Let_def split: prod.splits option.splits)
  qed
qed

lemma acknowledge_stop:
  fixes q :: "'a ZPacketQueue_scheme"
  shows "acknowledge env peer_id seq q = Some q' \<Longrightarrow> stop_threads q' = stop_threads q"
  by (auto simp: acknowledge_def Let_def split: option.splits if_splits)

lemma handle_success_stop:
  "handle_success P env block pack q = Some (r, q') \<Longrightarrow> stop_threads q' = stop_threads q"
  by (auto simp: handle_success_def AddAwaitingAckPacket_def deliver_def Let_def
      split: option.splits if_splits dest!: acknowledge_stop)

lemma receive_tick_stop:
  assumes "\<not> stop_threads q" and "receive_tick P env block ev q = Some (r, q')"
  shows "stop_threads q' \<longleftrightarrow> fst (ReceivePackets P ev (crypto_context q) (peers q) (packet_receiver q)) = Goodbye"
  using assms by (auto simp: receive_tick_def Let_def split: prod.splits ReceiveResult.splits if_splits
      dest!: acknowledge_stop handle_success_stop)

subsection \<open>Properties\<close>

text \<open>C17: the receiving thread of a node that runs stops after a call to the system exactly if the call returned
  zero bytes, or failed with one of the errors that say that the socket or the connection is gone, and then it
  receives nothing any more.  A UDP datagram without content is such a call: whoever can send one to the
  node ends its threads, with no key and from any address.\<close>

theorem empty_datagram_stops_receiver:
  assumes "queue_inv (std_hash env) q" and "recv_lawful ev" and "\<not> stop_threads q"
  shows "\<exists>r q'. receive_tick P env block ev q = Some (r, q') \<and>
    (stop_threads q' \<longleftrightarrow> recv_result ev = 0 \<or> recv_result ev < 0 \<and> recv_errno ev \<in> {ECONNRESET, ENOTCONN, EBADF, ENOTSOCK}) \<and>
    (stop_threads q' \<longrightarrow> (\<forall>block' ev'. receive_tick P env block' ev' q' = Some (None, q')))"
proof -
  from receive_tick_inv [OF assms(1,2)] obtain r q' where tick: "receive_tick P env block ev q = Some (r, q')" by blast
  moreover have "stop_threads q' \<Longrightarrow> receive_tick P env block' ev' q' = Some (None, q')" for block' ev'
    by (simp add: receive_tick_def)
  ultimately show ?thesis using receive_tick_stop [OF assms(3) tick] ReceivePackets_goodbye by blast
qed

definition empty_datagram :: recv_event where
  "empty_datagram = \<lparr>socket_valid = True,
     recv_source = \<lparr>result_code = 0, source_family = AF_INET, source_port = 4000, source_text = ascii ''10.0.0.1''\<rparr>,
     recv_data = [], recv_errno = EAGAIN\<rparr>"

theorem empty_datagram_stops_receiver_witness:
  "\<exists>r q'. receive_tick sample_platform sample_env 64 empty_datagram (new_packet_queue 0) = Some (r, q') \<and> stop_threads q'"
proof -
  have "queue_inv (std_hash sample_env) (new_packet_queue 0)" by (rule queue_inv_new)
  moreover have "recv_lawful empty_datagram" by (simp add: recv_lawful_def empty_datagram_def)
  moreover have "\<not> stop_threads (new_packet_queue 0)"
    by (simp add: new_packet_queue_def PacketDispatcher.defs ZPacketQueue.defs new_dispatcher_def)
  moreover have "recv_result empty_datagram = 0" by (simp add: recv_result_def empty_datagram_def)
  ultimately show ?thesis using empty_datagram_stops_receiver by blast
qed

text \<open>What an object holds of the process: the descriptor, and one start of WinSock, which it holds
  whenever it holds a descriptor.\<close>

definition win_owns :: "nat list \<Rightarrow> nat \<Rightarrow> win_socket \<Rightarrow> win_process \<Rightarrow> bool" where
  "win_owns fds k s p \<longleftrightarrow> owns fds (win_base s) (win_fds p) \<and>
     wsa_references p = k + (if wsa_initialized s then 1 else 0) \<and>
     (socket_fd (win_base s) \<noteq> None \<longrightarrow> wsa_initialized s)"

definition win_created :: "nat list \<Rightarrow> nat \<Rightarrow> bool \<times> win_socket \<times> win_process \<Rightarrow> bool" where
  "win_created fds k result = (case result of (r, s, p) \<Rightarrow>
     win_owns fds k s p \<and> (r \<longleftrightarrow> socket_fd (win_base s) \<noteq> None) \<and> (r \<longleftrightarrow> wsa_initialized s))"

lemma win_DestroySocket_owns:
  assumes "owns fds (win_base s) (win_fds p)" and "win_DestroySocket s p = (s', p')"
  shows "socket_fd (win_base s') = None" "open_fds (win_fds p') = fds" "\<not> wsa_initialized s'"
    "wsa_references p' = wsa_references p - (if wsa_initialized s then 1 else 0)"
proof -
  obtain b f where d: "DestroySocket (win_base s) (win_fds p) = (b, f)" by fastforce
  from DestroySocket_owns [OF assms(1) d] assms(2) d
  show "socket_fd (win_base s') = None" "open_fds (win_fds p') = fds" "\<not> wsa_initialized s'"
    "wsa_references p' = wsa_references p - (if wsa_initialized s then 1 else 0)"
    by (auto simp: win_DestroySocket_def WSACleanup_def Let_def split: if_splits)
qed

lemma win_finish_created:
  assumes "created fds result" and "wsa_initialized s" and "wsa_references p = k + 1"
  shows "win_created fds k (win_finish result s p)"
proof -
  obtain r b f where result: "result = (r, b, f)" by (cases result) auto
  let ?s = "s\<lparr>win_base := b\<rparr>" and ?p = "p\<lparr>win_fds := f\<rparr>"
  have own: "owns fds (win_base ?s) (win_fds ?p)" and r: "r \<longleftrightarrow> socket_fd b \<noteq> None"
    using assms(1) by (simp_all add: result created_def)
  show ?thesis
  proof (cases r)
    case True
    then show ?thesis using own r assms(2,3) by (simp add: win_finish_def win_created_def win_owns_def result)
  next
    case False
    obtain s' p' where d: "win_DestroySocket ?s ?p = (s', p')" by fastforce
    from win_DestroySocket_owns [OF own d] show ?thesis using False assms(2,3)
      by (simp add: win_finish_def win_created_def win_owns_def result owns_def d)
  qed
qed

lemma win_Create_created:
  assumes "owns fds (win_base s) (win_fds p)" and "\<not> wsa_initialized s" and "socket_fd (win_base s) = None"
    and "wsa_references p = k"
  shows "win_created fds k (win_CreateServer N wsa_startup port_number ipv6 s p)"
    and "win_created fds k (win_CreateClient N wsa_startup host_name port_number ipv6 local_bind_port s p)"
proof -
  have "open_fds (win_fds p) = fds" using assms(1,3) by (simp add: owns_def)
  with assms show "win_created fds k (win_CreateServer N wsa_startup port_number ipv6 s p)"
    "win_created fds k (win_CreateClient N wsa_startup host_name port_number ipv6 local_bind_port s p)"
    by (auto simp: win_CreateServer_def win_CreateClient_def InitSocket_def win_created_def [of _ _ "(False, _)"] win_owns_def
        intro!: win_finish_created CreateServer_created CreateClient_created)
qed

text \<open>On Windows a socket object starts WinSock when it is created and gives the start back when creation
  fails at any later step and when it is destroyed; while it has a descriptor, WinSock is started, and
  resolving a name leaves the count of starts as it was.  An object that is created again before it was
  destroyed keeps a start of WinSock for ever.\<close>

theorem winsock_starts_accounted:
  assumes "win_owns fds k s p"
  shows "(\<forall>s' p'. win_DestroySocket s p = (s', p') \<longrightarrow>
      open_fds (win_fds p') = fds \<and> wsa_references p' = k \<and> socket_fd (win_base s') = None \<and> \<not> wsa_initialized s') \<and>
    (\<not> wsa_initialized s \<longrightarrow> win_created fds k (win_CreateServer N wsa_startup port_number ipv6 s p) \<and>
      win_created fds k (win_CreateClient N wsa_startup host_name port_number ipv6 local_bind_port s p)) \<and>
    snd (win_ResolveSockaddr N wsa_startup host_name port_number family out p) = p \<and>
    (\<forall>s' p' s'' p''. wsa_initialized s \<and> win_CreateServer N wsa_startup port_number ipv6 s p = (True, s', p') \<and>
      win_DestroySocket s' p' = (s'', p'') \<longrightarrow> wsa_references p'' = k + 1 \<and> \<not> wsa_initialized s'')"
proof (intro conjI allI impI)
  note own = assms [unfolded win_owns_def]
  fix s' p' assume d: "win_DestroySocket s p = (s', p')"
  from win_DestroySocket_owns [OF _ d] own
  show "open_fds (win_fds p') = fds" "wsa_references p' = k" "socket_fd (win_base s') = None" "\<not> wsa_initialized s'" by auto
next
  assume "\<not> wsa_initialized s"
  with assms have "owns fds (win_base s) (win_fds p)" "\<not> wsa_initialized s" "socket_fd (win_base s) = None" "wsa_references p = k"
    by (auto simp: win_owns_def)
  from win_Create_created [OF this]
  show "win_created fds k (win_CreateServer N wsa_startup port_number ipv6 s p)"
    "win_created fds k (win_CreateClient N wsa_startup host_name port_number ipv6 local_bind_port s p)" .
next
  show "snd (win_ResolveSockaddr N wsa_startup host_name port_number family out p) = p" by (simp add: win_ResolveSockaddr_eq)
next
  fix s' p' s'' p''
  assume a: "wsa_initialized s \<and> win_CreateServer N wsa_startup port_number ipv6 s p = (True, s', p') \<and>
    win_DestroySocket s' p' = (s'', p'')"
  then have "wsa_initialized s' \<and> wsa_references p' = k + 2" using assms
    by (auto simp: win_CreateServer_def InitSocket_def win_finish_def win_owns_def Let_def split: if_splits prod.splits)
  with a show "wsa_references p'' = k + 1" "\<not> wsa_initialized s''"
    by (auto simp: win_DestroySocket_def WSACleanup_def Let_def split: prod.splits)
qed

theorem winsock_starts_accounted_witness:
  "win_owns [] 0 new_win_socket \<lparr>win_fds = \<lparr>open_fds = []\<rparr>, wsa_references = 0\<rparr> \<and>
   fst (win_CreateServer sample_net (\<lambda>_. True) 80 False new_win_socket \<lparr>win_fds = \<lparr>open_fds = []\<rparr>, wsa_references = 0\<rparr>) \<and>
   win_created [] 0 (win_CreateServer sample_net (\<lambda>_. True) 80 False new_win_socket \<lparr>win_fds = \<lparr>open_fds = []\<rparr>, wsa_references = 0\<rparr>)"
proof -
  have own: "win_owns [] 0 new_win_socket \<lparr>win_fds = \<lparr>open_fds = []\<rparr>, wsa_references = 0\<rparr>"
    by (simp add: win_owns_def owns_def new_win_socket_def new_socket_def)
  moreover have "fst (win_CreateServer sample_net (\<lambda>_. True) 80 False new_win_socket \<lparr>win_fds = \<lparr>open_fds = []\<rparr>, wsa_references = 0\<rparr>)"
    by (simp add: win_CreateServer_def InitSocket_def wsa_net_def win_finish_def new_win_socket_def CreateServer_def
        open_descriptor_def sample_net_def Let_def)
  ultimately show ?thesis
    using winsock_starts_accounted [OF own, of sample_net "\<lambda>_. True" 80 False] by (simp add: new_win_socket_def)
qed

end
