(* ===== verification/Sample_Options.thy ===== *)
theory Sample_Options
  imports Formatting
begin

text \<open>
  The command lines of the programs under \<^verbatim>\<open>src/samples\<close>: \<^verbatim>\<open>ParseInt\<close>, the functions \<^verbatim>\<open>ParseArgs\<close> and the
  log handlers.  \<^verbatim>\<open>strtol\<close> is the one of a system whose \<^verbatim>\<open>long\<close> has 64 bits, \<^verbatim>\<open>int\<close> has 32 bits.  The
  arguments are those after the program's name, each without its terminator.  Usage texts and messages about
  bad arguments are not modelled.
\<close>

subsection \<open>Numbers\<close>

definition is_space :: "byte \<Rightarrow> bool" where
  "is_space b \<longleftrightarrow> b = 0x20 \<or> 0x09 \<le> b \<and> b \<le> 0x0D"

definition clamp_long :: "int \<Rightarrow> int" where
  "clamp_long v = max (- (2 ^ 63)) (min (2 ^ 63 - 1) v)"

definition digits_value :: "byte list \<Rightarrow> nat" where
  "digits_value ds = foldl (\<lambda>a b. 10 * a + unat (b - 0x30)) 0 ds"

text \<open>The value and what is left of the text; without a digit that is the whole text.\<close>

definition strtol :: "byte list \<Rightarrow> int \<times> byte list" where
  "strtol text =
     (let t = dropWhile is_space text;
          negative = (t \<noteq> [] \<and> hd t = 0x2D);
          t = (if t \<noteq> [] \<and> (hd t = 0x2D \<or> hd t = 0x2B) then tl t else t);
          ds = takeWhile is_digit t
      in if ds = [] then (0, text)
         else (clamp_long (if negative then - int (digits_value ds) else int (digits_value ds)), dropWhile is_digit t))"

definition int_of_long :: "int \<Rightarrow> int" where
  "int_of_long v = sint (word_of_int v :: 32 word)"

definition ParseInt :: "byte list \<Rightarrow> int option" where
  "ParseInt text =
     (if text = [] then None
      else case strtol text of
             (v, rest) \<Rightarrow> if rest \<noteq> [] then None else Some (int_of_long v))"

definition atoi :: "byte list \<Rightarrow> int" where
  "atoi text = int_of_long (fst (strtol text))"

subsection \<open>The loop over the arguments\<close>

text \<open>
  An argument is looked up with the one after it, if there is one, and else alone.  \<open>Bad\<close> is an early return
  with false, \<open>Stop\<close> one with true.
\<close>

datatype 'o arg_result = Unknown | Bad | Stop 'o | Next 'o

fun scan_args ::
  "(byte list \<Rightarrow> byte list \<Rightarrow> 'o \<Rightarrow> 'o arg_result) \<Rightarrow> (byte list \<Rightarrow> 'o \<Rightarrow> 'o arg_result) \<Rightarrow> byte list list \<Rightarrow> 'o \<Rightarrow> 'o arg_result" where
  "scan_args valued flag [] o1 = Next o1"
| "scan_args valued flag [arg] o1 = flag arg o1"
| "scan_args valued flag (arg # v # rest) o1 =
     (case valued arg v o1 of
        Next o2 \<Rightarrow> scan_args valued flag rest o2
      | Unknown \<Rightarrow>
          (case flag arg o1 of
             Next o2 \<Rightarrow> scan_args valued flag (v # rest) o2
           | result \<Rightarrow> result)
      | result \<Rightarrow> result)"

definition set_number :: "byte list \<Rightarrow> (int \<Rightarrow> 'o) \<Rightarrow> 'o arg_result" where
  "set_number v f = (case ParseInt v of None \<Rightarrow> Bad | Some n \<Rightarrow> Next (f n))"

subsection \<open>The file transfer demo\<close>

datatype Mode = Mode_Receiver | Mode_Sender

record file_options =
  fo_mode :: Mode
  fo_host_ip :: "byte list"
  fo_host_port :: int
  fo_local_port :: int
  fo_file_path :: "byte list"
  fo_output_dir :: "byte list"
  fo_output_file :: "byte list"
  fo_temp_dir :: "byte list"
  fo_warmup_ms :: int
  fo_timeout_seconds :: int
  fo_tick_sleep_ms :: int
  fo_chunk_size :: int
  fo_verbose_logs :: bool
  fo_usage_requested :: bool

definition default_file_options :: file_options where
  "default_file_options =
     \<lparr>fo_mode = Mode_Receiver, fo_host_ip = ascii ''127.0.0.1'', fo_host_port = 14700, fo_local_port = 14701, fo_file_path = [],
      fo_output_dir = ascii ''.'', fo_output_file = [], fo_temp_dir = ascii ''.'', fo_warmup_ms = 1200,
      fo_timeout_seconds = 60, fo_tick_sleep_ms = 2, fo_chunk_size = 4 * 1024, fo_verbose_logs = False,
      fo_usage_requested = False\<rparr>"

definition file_valued :: "byte list \<Rightarrow> byte list \<Rightarrow> file_options \<Rightarrow> file_options arg_result" where
  "file_valued arg v o1 =
     (if arg = ascii ''--mode'' then 
        (if v = ascii ''receiver'' then Next (o1\<lparr>fo_mode := Mode_Receiver\<rparr>)
         else if v = ascii ''sender'' then Next (o1\<lparr>fo_mode := Mode_Sender\<rparr>)
         else Bad)
      else if arg = ascii ''--host-ip'' then Next (o1\<lparr>fo_host_ip := v\<rparr>)
      else if arg = ascii ''--host-port'' then set_number v (\<lambda>n. o1\<lparr>fo_host_port := n\<rparr>)
      else if arg = ascii ''--local-port'' then set_number v (\<lambda>n. o1\<lparr>fo_local_port := n\<rparr>)
      else if arg = ascii ''--file'' then Next (o1\<lparr>fo_file_path := v\<rparr>)
      else if arg = ascii ''--output-dir'' then Next (o1\<lparr>fo_output_dir := v\<rparr>)
      else if arg = ascii ''--output-file'' then Next (o1\<lparr>fo_output_file := v\<rparr>)
      else if arg = ascii ''--temp-dir'' then Next (o1\<lparr>fo_temp_dir := v\<rparr>)
      else if arg = ascii ''--warmup-ms'' then set_number v (\<lambda>n. o1\<lparr>fo_warmup_ms := n\<rparr>)
      else if arg = ascii ''--chunk-size'' then set_number v (\<lambda>n. o1\<lparr>fo_chunk_size := n\<rparr>)
      else if arg = ascii ''--timeout-seconds'' then set_number v (\<lambda>n. o1\<lparr>fo_timeout_seconds := n\<rparr>)
      else if arg = ascii ''--tick-sleep-ms'' then set_number v (\<lambda>n. o1\<lparr>fo_tick_sleep_ms := n\<rparr>)
      else Unknown)"

definition file_flag :: "byte list \<Rightarrow> file_options \<Rightarrow> file_options arg_result" where
  "file_flag arg o1 =
     (if arg = ascii ''--help'' then Stop (o1\<lparr>fo_usage_requested := True\<rparr>)
      else if arg = ascii ''--verbose-logs'' then Next (o1\<lparr>fo_verbose_logs := True\<rparr>)
      else Unknown)"

definition file_options_ok :: "file_options \<Rightarrow> bool" where
  "file_options_ok o1 \<longleftrightarrow>
     \<not> (fo_host_port o1 \<le> 0 \<or> fo_host_port o1 > 65535) \<and>
     \<not> (fo_local_port o1 \<le> 0 \<or> fo_local_port o1 > 65535) \<and>
     \<not> fo_timeout_seconds o1 \<le> 0 \<and> \<not> fo_warmup_ms o1 < 0 \<and> \<not> fo_tick_sleep_ms o1 < 0 \<and>
     \<not> fo_chunk_size o1 \<le> 0 \<and> \<not> fo_chunk_size o1 > 32768 \<and>
     \<not> (fo_mode o1 = Mode_Sender \<and> fo_file_path o1 = [])"

definition file_ParseArgs :: "byte list list \<Rightarrow> file_options \<Rightarrow> file_options option" where
  "file_ParseArgs args o1 =
     (case scan_args file_valued file_flag args o1 of
        Stop o2 \<Rightarrow> Some o2
      | Next o2 \<Rightarrow> if file_options_ok o2 then Some o2 else None
      | _ \<Rightarrow> None)"

text \<open>The lines the handlers write; the user pointer is not used.\<close>

definition VerboseLogHandler :: "byte list \<Rightarrow> int \<Rightarrow> byte list \<Rightarrow> log_event list" where
  "VerboseLogHandler channel_name level msg =
     [ErrorLine (ascii ''['' @ channel_name @ ascii ''] '' @ LogLevelToName level @ ascii '': '' @ msg @ [0x0A])]"

definition QuietLogHandler :: "byte list \<Rightarrow> int \<Rightarrow> byte list \<Rightarrow> log_event list" where
  "QuietLogHandler channel_name level msg =
     (if level \<le> LogLevel_kInfo then []
      else [ErrorLine (ascii ''['' @ channel_name @ ascii ''] '' @ LogLevelToName level @ ascii '': '' @ msg @ [0x0A])])"

subsection \<open>The peer-to-peer demo\<close>

datatype Role = Role_Host | Role_Client

record p2p_options =
  po_role :: Role
  po_name :: "byte list"
  po_host_ip :: "byte list"
  po_host_port :: int
  po_local_port :: int
  po_duration_seconds :: int
  po_send_every_ms :: int
  po_tick_sleep_ms :: int
  po_become_host_after_seconds :: int
  po_send_to_all :: bool
  po_verbose_logs :: bool
  po_show_duplicates :: bool
  po_usage_requested :: bool

definition default_p2p_options :: p2p_options where
  "default_p2p_options =
     \<lparr>po_role = Role_Host, po_name = [], po_host_ip = ascii ''127.0.0.1'', po_host_port = 14600, po_local_port = 14601,
      po_duration_seconds = 20, po_send_every_ms = 1000, po_tick_sleep_ms = 5, po_become_host_after_seconds = -1,
      po_send_to_all = True, po_verbose_logs = False, po_show_duplicates = False, po_usage_requested = False\<rparr>"

definition p2p_valued :: "byte list \<Rightarrow> byte list \<Rightarrow> p2p_options \<Rightarrow> p2p_options arg_result" where
  "p2p_valued arg v o1 =
     (if arg = ascii ''--mode'' then 
        (if v = ascii ''host'' then Next (o1\<lparr>po_role := Role_Host\<rparr>)
         else if v = ascii ''client'' then Next (o1\<lparr>po_role := Role_Client\<rparr>)
         else Bad)
      else if arg = ascii ''--name'' then Next (o1\<lparr>po_name := v\<rparr>)
      else if arg = ascii ''--host-ip'' then Next (o1\<lparr>po_host_ip := v\<rparr>)
      else if arg = ascii ''--host-port'' then set_number v (\<lambda>n. o1\<lparr>po_host_port := n\<rparr>)
      else if arg = ascii ''--local-port'' then set_number v (\<lambda>n. o1\<lparr>po_local_port := n\<rparr>)
      else if arg = ascii ''--duration-seconds'' then set_number v (\<lambda>n. o1\<lparr>po_duration_seconds := n\<rparr>)
      else if arg = ascii ''--send-every-ms'' then set_number v (\<lambda>n. o1\<lparr>po_send_every_ms := n\<rparr>)
      else if arg = ascii ''--tick-sleep-ms'' then set_number v (\<lambda>n. o1\<lparr>po_tick_sleep_ms := n\<rparr>)
      else if arg = ascii ''--become-host-after-seconds'' then set_number v (\<lambda>n. o1\<lparr>po_become_host_after_seconds := n\<rparr>)
      else if arg = ascii ''--send-target'' then 
        (if v = ascii ''all'' then Next (o1\<lparr>po_send_to_all := True\<rparr>)
         else if v = ascii ''server'' then Next (o1\<lparr>po_send_to_all := False\<rparr>)
         else Bad)
      else Unknown)"

definition p2p_flag :: "byte list \<Rightarrow> p2p_options \<Rightarrow> p2p_options arg_result" where
  "p2p_flag arg o1 =
     (if arg = ascii ''--help'' then Stop (o1\<lparr>po_usage_requested := True\<rparr>)
      else if arg = ascii ''--verbose-logs'' then Next (o1\<lparr>po_verbose_logs := True\<rparr>)
      else if arg = ascii ''--show-duplicates'' then Next (o1\<lparr>po_show_duplicates := True\<rparr>)
      else Unknown)"

definition p2p_options_ok :: "p2p_options \<Rightarrow> bool" where
  "p2p_options_ok o1 \<longleftrightarrow>
     \<not> (po_host_port o1 \<le> 0 \<or> po_host_port o1 > 65535) \<and>
     \<not> (po_local_port o1 \<le> 0 \<or> po_local_port o1 > 65535) \<and>
     \<not> po_duration_seconds o1 \<le> 0 \<and> \<not> po_send_every_ms o1 \<le> 0 \<and> \<not> po_tick_sleep_ms o1 < 0"

definition p2p_complete :: "p2p_options \<Rightarrow> p2p_options" where
  "p2p_complete o1 =
     (let o1 = (if po_name o1 = [] then o1\<lparr>po_name := (if po_role o1 = Role_Host then ascii ''host'' else ascii ''client'')\<rparr> else o1)
      in if po_role o1 = Role_Host then o1\<lparr>po_local_port := po_host_port o1\<rparr> else o1)"

definition p2p_ParseArgs :: "byte list list \<Rightarrow> p2p_options \<Rightarrow> p2p_options option" where
  "p2p_ParseArgs args o1 =
     (case scan_args p2p_valued p2p_flag args o1 of
        Stop o2 \<Rightarrow> Some o2
      | Next o2 \<Rightarrow> if p2p_options_ok o2 then Some (p2p_complete o2) else None
      | _ \<Rightarrow> None)"

subsection \<open>The simple client\<close>

record client_options =
  co_messages :: int
  co_payload_bytes :: int
  co_pre_updates :: int
  co_post_updates :: int
  co_sleep_ms :: int
  co_game_mode :: bool
  co_duration_seconds :: int
  co_tick_hz :: int
  co_snapshot_bytes :: int
  co_state_bytes :: int
  co_state_every_ticks :: int
  co_event_bytes :: int
  co_event_every_ticks :: int
  co_burst_size :: int
  co_burst_every_ticks :: int
  co_client_id :: int

definition default_client_options :: client_options where
  "default_client_options =
     \<lparr>co_messages = 1, co_payload_bytes = 18, co_pre_updates = 50, co_post_updates = 30, co_sleep_ms = 100,
      co_game_mode = False, co_duration_seconds = 12, co_tick_hz = 60, co_snapshot_bytes = 48, co_state_bytes = 220,
      co_state_every_ticks = 3, co_event_bytes = 900, co_event_every_ticks = 60, co_burst_size = 4,
      co_burst_every_ticks = 120, co_client_id = 0\<rparr>"

definition client_valued :: "byte list \<Rightarrow> byte list \<Rightarrow> client_options \<Rightarrow> client_options arg_result" where
  "client_valued arg v o1 =
     (if arg = ascii ''--messages'' then Next (o1\<lparr>co_messages := atoi v\<rparr>)
      else if arg = ascii ''--payload-bytes'' then Next (o1\<lparr>co_payload_bytes := atoi v\<rparr>)
      else if arg = ascii ''--pre-updates'' then Next (o1\<lparr>co_pre_updates := atoi v\<rparr>)
      else if arg = ascii ''--post-updates'' then Next (o1\<lparr>co_post_updates := atoi v\<rparr>)
      else if arg = ascii ''--sleep-ms'' then Next (o1\<lparr>co_sleep_ms := atoi v\<rparr>)
      else if arg = ascii ''--duration-seconds'' then Next (o1\<lparr>co_duration_seconds := atoi v, co_game_mode := True\<rparr>)
      else if arg = ascii ''--tick-hz'' then Next (o1\<lparr>co_tick_hz := atoi v\<rparr>)
      else if arg = ascii ''--snapshot-bytes'' then Next (o1\<lparr>co_snapshot_bytes := atoi v\<rparr>)
      else if arg = ascii ''--state-bytes'' then Next (o1\<lparr>co_state_bytes := atoi v\<rparr>)
      else if arg = ascii ''--state-every-ticks'' then Next (o1\<lparr>co_state_every_ticks := atoi v\<rparr>)
      else if arg = ascii ''--event-bytes'' then Next (o1\<lparr>co_event_bytes := atoi v\<rparr>)
      else if arg = ascii ''--event-every-ticks'' then Next (o1\<lparr>co_event_every_ticks := atoi v\<rparr>)
      else if arg = ascii ''--burst-size'' then Next (o1\<lparr>co_burst_size := atoi v\<rparr>)
      else if arg = ascii ''--burst-every-ticks'' then Next (o1\<lparr>co_burst_every_ticks := atoi v\<rparr>)
      else if arg = ascii ''--client-id'' then Next (o1\<lparr>co_client_id := atoi v\<rparr>)
      else Unknown)"

text \<open>Arguments it does not know are skipped.\<close>

definition client_flag :: "byte list \<Rightarrow> client_options \<Rightarrow> client_options arg_result" where
  "client_flag arg o1 = Next (if arg = ascii ''--game-mode'' then o1\<lparr>co_game_mode := True\<rparr> else o1)"

definition client_clamp :: "client_options \<Rightarrow> client_options" where
  "client_clamp o1 =
     o1\<lparr>co_messages := max 1 (co_messages o1), co_payload_bytes := max 1 (co_payload_bytes o1),
        co_pre_updates := max 0 (co_pre_updates o1), co_post_updates := max 0 (co_post_updates o1),
        co_sleep_ms := max 0 (co_sleep_ms o1), co_duration_seconds := max 1 (co_duration_seconds o1),
        co_tick_hz := max 1 (co_tick_hz o1), co_snapshot_bytes := max 1 (co_snapshot_bytes o1),
        co_state_bytes := max 1 (co_state_bytes o1), co_state_every_ticks := max 1 (co_state_every_ticks o1),
        co_event_bytes := max 1 (co_event_bytes o1), co_event_every_ticks := max 1 (co_event_every_ticks o1),
        co_burst_size := max 0 (co_burst_size o1), co_burst_every_ticks := max 1 (co_burst_every_ticks o1)\<rparr>"

definition client_ParseArgs :: "byte list list \<Rightarrow> client_options" where
  "client_ParseArgs args =
     client_clamp (case scan_args client_valued client_flag args default_client_options of
        Next o2 \<Rightarrow> o2 | _ \<Rightarrow> default_client_options)"

subsection \<open>The simple server\<close>

record server_options =
  so_duration_seconds :: int
  so_dump_interval_seconds :: int
  so_summary_interval_seconds :: int
  so_quiet_data :: bool
  so_rebroadcast_every_packets :: int
  so_rebroadcast_bytes :: int
  so_use_inline_dispatch_executor :: bool
  so_dispatch_workers :: int
  so_dispatch_max_queued :: int

definition default_server_options :: server_options where
  "default_server_options =
     \<lparr>so_duration_seconds = 0, so_dump_interval_seconds = 0, so_summary_interval_seconds = 2, so_quiet_data = True,
      so_rebroadcast_every_packets = 0, so_rebroadcast_bytes = 64, so_use_inline_dispatch_executor = False,
      so_dispatch_workers = 0, so_dispatch_max_queued = 0\<rparr>"

definition server_valued :: "byte list \<Rightarrow> byte list \<Rightarrow> server_options \<Rightarrow> server_options arg_result" where
  "server_valued arg v o1 =
     (if arg = ascii ''--duration-seconds'' then Next (o1\<lparr>so_duration_seconds := atoi v\<rparr>)
      else if arg = ascii ''--dump-every-seconds'' then Next (o1\<lparr>so_dump_interval_seconds := atoi v\<rparr>)
      else if arg = ascii ''--summary-every-seconds'' then Next (o1\<lparr>so_summary_interval_seconds := atoi v\<rparr>)
      else if arg = ascii ''--rebroadcast-every-packets'' then Next (o1\<lparr>so_rebroadcast_every_packets := atoi v\<rparr>)
      else if arg = ascii ''--rebroadcast-bytes'' then Next (o1\<lparr>so_rebroadcast_bytes := atoi v\<rparr>)
      else if arg = ascii ''--dispatch-executor'' then Next (o1\<lparr>so_use_inline_dispatch_executor := (v = ascii ''inline'')\<rparr>)
      else if arg = ascii ''--dispatch-workers'' then Next (o1\<lparr>so_dispatch_workers := atoi v\<rparr>)
      else if arg = ascii ''--dispatch-max-queued'' then Next (o1\<lparr>so_dispatch_max_queued := atoi v\<rparr>)
      else Unknown)"

definition server_flag :: "byte list \<Rightarrow> server_options \<Rightarrow> server_options arg_result" where
  "server_flag arg o1 =
     Next (if arg = ascii ''--quiet-data'' then o1\<lparr>so_quiet_data := True\<rparr>
           else if arg = ascii ''--verbose-data'' then o1\<lparr>so_quiet_data := False\<rparr>
           else o1)"

definition server_clamp :: "server_options \<Rightarrow> server_options" where
  "server_clamp o1 =
     o1\<lparr>so_summary_interval_seconds := max 0 (so_summary_interval_seconds o1),
        so_duration_seconds := max 0 (so_duration_seconds o1),
        so_dump_interval_seconds := max 0 (so_dump_interval_seconds o1),
        so_rebroadcast_every_packets := max 0 (so_rebroadcast_every_packets o1),
        so_rebroadcast_bytes := max 1 (so_rebroadcast_bytes o1),
        so_dispatch_workers := max 0 (so_dispatch_workers o1),
        so_dispatch_max_queued := max 0 (so_dispatch_max_queued o1)\<rparr>"

definition server_ParseArgs :: "byte list list \<Rightarrow> server_options" where
  "server_ParseArgs args =
     server_clamp (case scan_args server_valued server_flag args default_server_options of
        Next o2 \<Rightarrow> o2 | _ \<Rightarrow> default_server_options)"

subsection \<open>Numbers are read back\<close>

lemma digit_not_space: "is_digit b \<Longrightarrow> \<not> is_space b \<and> b \<noteq> 0x2D \<and> b \<noteq> 0x2B"
  by (auto simp: is_digit_def is_space_def word_le_nat_alt word_less_nat_alt)

lemma strtol_digits:
  assumes "list_all is_digit ds" and "ds \<noteq> []"
  shows "strtol ds = (clamp_long (int (digits_value ds)), [])"
    and "strtol (0x2D # ds) = (clamp_long (- int (digits_value ds)), [])"
proof -
  obtain d ds' where ds: "ds = d # ds'" using assms(2) by (cases ds) auto
  have take: "takeWhile is_digit ds = ds" and drop: "dropWhile is_digit ds = []"
    using assms(1) by (auto simp: list_all_iff takeWhile_eq_all_conv dropWhile_eq_Nil_conv)
  have "is_digit d" using assms(1) ds by simp
  note d = digit_not_space [OF this]
  have "dropWhile is_space ds = ds" "hd ds \<noteq> 0x2D" "hd ds \<noteq> 0x2B" using d ds by simp_all
  with assms(2) show "strtol ds = (clamp_long (int (digits_value ds)), [])" by (simp add: strtol_def Let_def take drop)
  have "\<not> is_space 0x2D" by (simp add: is_space_def)
  with assms(2) show "strtol (0x2D # ds) = (clamp_long (- int (digits_value ds)), [])" by (simp add: strtol_def Let_def take drop)
qed

lemma digits_value_decimal [simp]: "digits_value (decimal n) = n"
  unfolding digits_value_def by (rule decimal_value)

lemma ParseInt_decimal: "ParseInt (decimal n) = Some (int_of_long (clamp_long (int n)))"
  by (simp add: ParseInt_def strtol_digits decimal_digits)

definition is_int :: "int \<Rightarrow> bool" where
  "is_int i \<longleftrightarrow> - (2 ^ 31) \<le> i \<and> i < 2 ^ 31"

lemma int_of_long_id: "is_int i \<Longrightarrow> int_of_long i = i"
  unfolding int_of_long_def is_int_def by (simp add: sint_sbintrunc' signed_take_bit_int_eq_self)

lemma clamp_id: "is_int i \<Longrightarrow> clamp_long i = i"
  by (simp add: clamp_long_def is_int_def)

lemma ParseInt_signed_decimal: "is_int i \<Longrightarrow> ParseInt (signed_decimal i) = Some i"
  using ParseInt_decimal [of "nat i"] strtol_digits(2) [of "decimal (nat (- i))"] decimal_digits [of "nat (- i)"]
  by (auto simp: signed_decimal_def ParseInt_def ascii_def clamp_id int_of_long_id)

text \<open>Beyond 32 bits the number is reduced without notice.\<close>

lemma ParseInt_wraps: "is_int (int n) \<Longrightarrow> ParseInt (decimal (2 ^ 32 + n)) = Some (int n)"
proof -
  assume n: "is_int (int n)"
  then have "clamp_long (int (2 ^ 32 + n)) = int (2 ^ 32 + n)" by (simp add: clamp_long_def is_int_def)
  moreover have "(word_of_int (int (2 ^ 32 + n)) :: 32 word) = word_of_int (int n)"
    by (simp add: word_of_int_eq_iff take_bit_eq_mod)
  ultimately show ?thesis using int_of_long_id [OF n] unfolding ParseInt_decimal int_of_long_def by metis
qed

subsection \<open>Options are read back\<close>

text \<open>A command line that gives every option of a program.\<close>

definition file_command_line :: "file_options \<Rightarrow> byte list list" where
  "file_command_line o1 =
     [ascii ''--mode'', if fo_mode o1 = Mode_Receiver then ascii ''receiver'' else ascii ''sender'',
      ascii ''--host-ip'', fo_host_ip o1, ascii ''--host-port'', signed_decimal (fo_host_port o1),
      ascii ''--local-port'', signed_decimal (fo_local_port o1), ascii ''--file'', fo_file_path o1,
      ascii ''--output-dir'', fo_output_dir o1, ascii ''--output-file'', fo_output_file o1,
      ascii ''--temp-dir'', fo_temp_dir o1, ascii ''--warmup-ms'', signed_decimal (fo_warmup_ms o1),
      ascii ''--timeout-seconds'', signed_decimal (fo_timeout_seconds o1),
      ascii ''--tick-sleep-ms'', signed_decimal (fo_tick_sleep_ms o1),
      ascii ''--chunk-size'', signed_decimal (fo_chunk_size o1)] @
     (if fo_verbose_logs o1 then [ascii ''--verbose-logs''] else [])"

definition p2p_command_line :: "p2p_options \<Rightarrow> byte list list" where
  "p2p_command_line o1 =
     [ascii ''--mode'', if po_role o1 = Role_Host then ascii ''host'' else ascii ''client'',
      ascii ''--name'', po_name o1, ascii ''--host-ip'', po_host_ip o1,
      ascii ''--host-port'', signed_decimal (po_host_port o1), ascii ''--local-port'', signed_decimal (po_local_port o1),
      ascii ''--duration-seconds'', signed_decimal (po_duration_seconds o1),
      ascii ''--send-every-ms'', signed_decimal (po_send_every_ms o1),
      ascii ''--tick-sleep-ms'', signed_decimal (po_tick_sleep_ms o1),
      ascii ''--become-host-after-seconds'', signed_decimal (po_become_host_after_seconds o1),
      ascii ''--send-target'', if po_send_to_all o1 then ascii ''all'' else ascii ''server''] @
     (if po_verbose_logs o1 then [ascii ''--verbose-logs''] else []) @
     (if po_show_duplicates o1 then [ascii ''--show-duplicates''] else [])"

lemma byte_of_char_inj: "inj (of_char :: char \<Rightarrow> byte)"
proof (rule injI)
  fix c d :: char assume "(of_char c :: byte) = of_char d"
  then have "(of_nat (of_char c) :: byte) = of_nat (of_char d)" by (simp only: of_nat_of_char)
  then have "(of_char c :: nat) mod 256 = of_char d mod 256"
    by (simp only: word_of_nat_eq_iff take_bit_eq_mod) simp
  then show "c = d" by simp
qed

lemma ascii_inj [simp]: "ascii s = ascii t \<longleftrightarrow> s = t"
  by (simp add: ascii_def inj_map_eq_map [OF byte_of_char_inj])

lemma set_number_decimal: "is_int i \<Longrightarrow> set_number (signed_decimal i) f = Next (f i)"
  by (simp add: set_number_def ParseInt_signed_decimal)

lemma file_scan:
  assumes "is_int (fo_host_port o1)" "is_int (fo_local_port o1)" "is_int (fo_warmup_ms o1)" "is_int (fo_timeout_seconds o1)"
    "is_int (fo_tick_sleep_ms o1)" "is_int (fo_chunk_size o1)" "\<not> fo_usage_requested o1"
  shows "scan_args file_valued file_flag (file_command_line o1) default_file_options = Next o1"
  using assms by (cases o1; cases "fo_mode o1")
    (simp_all add: file_command_line_def file_valued_def file_flag_def set_number_decimal default_file_options_def)

lemma p2p_scan:
  assumes "is_int (po_host_port o1)" "is_int (po_local_port o1)" "is_int (po_duration_seconds o1)" "is_int (po_send_every_ms o1)"
    "is_int (po_tick_sleep_ms o1)" "is_int (po_become_host_after_seconds o1)" "\<not> po_usage_requested o1"
  shows "scan_args p2p_valued p2p_flag (p2p_command_line o1) default_p2p_options = Next o1"
  using assms by (cases o1; cases "po_role o1")
    (simp_all add: p2p_command_line_def p2p_valued_def p2p_flag_def set_number_decimal default_p2p_options_def)

lemma port_is_int: "\<not> (p \<le> 0 \<or> p > 65535) \<Longrightarrow> is_int p"
  by (simp add: is_int_def)

lemma port_cast: "\<not> (p \<le> 0 \<or> p > 65535) \<Longrightarrow> uint (word_of_int p :: u16) = p"
  by (simp add: uint_word_of_int_eq take_bit_int_eq_self)

lemma scan_args_skips:
  assumes "\<And>arg v o1. \<exists>o2. valued arg v o1 \<in> {Next o2, Unknown}" and "\<And>arg o1. \<exists>o2. flag arg o1 = Next o2"
  shows "\<exists>o2. scan_args valued flag args o1 = Next o2"
proof (induction "length args" arbitrary: args o1 rule: less_induct)
  case less
  show ?case
  proof (cases "(valued, flag, args, o1)" rule: scan_args.cases)
    case (3 valued' flag' arg v rest o1')
    then have args: "args = arg # v # rest" by simp
    from assms(1) obtain o2 where "valued arg v o1 \<in> {Next o2, Unknown}" by blast
    moreover from assms(2) obtain o3 where "flag arg o1 = Next o3" by blast
    moreover obtain o4 where "scan_args valued flag rest o2 = Next o4" using less [of rest o2] args by auto
    moreover obtain o5 where "scan_args valued flag (v # rest) o3 = Next o5" using less [of "v # rest" o3] args by auto
    ultimately show ?thesis by (auto simp: args)
  qed (use assms in auto)
qed

lemma client_scan: "\<exists>o2. scan_args client_valued client_flag args o1 = Next o2"
  by (rule scan_args_skips) (auto simp: client_valued_def client_flag_def)

lemma server_scan: "\<exists>o2. scan_args server_valued server_flag args o1 = Next o2"
  by (rule scan_args_skips) (auto simp: server_valued_def server_flag_def)

text \<open>Only \<^verbatim>\<open>--help\<close> ends the loop early, and it asks for the usage text.\<close>

lemma scan_args_stop:
  assumes "\<And>arg v o1 o2. valued arg v o1 \<noteq> Stop o2" and "\<And>arg o1 o2. flag arg o1 = Stop o2 \<Longrightarrow> Q o2"
  shows "scan_args valued flag args o1 = Stop o2 \<Longrightarrow> Q o2"
proof (induction "length args" arbitrary: args o1 rule: less_induct)
  case less
  show ?case
  proof (cases "(valued, flag, args, o1)" rule: scan_args.cases)
    case (3 valued' flag' arg v rest o1')
    then have args: "args = arg # v # rest" by simp
    show ?thesis
      using less.prems less.hyps [of rest] less.hyps [of "v # rest"] assms(1) [of arg v o1] assms(2) [of arg o1]
      by (auto simp: args split: arg_result.splits)
  qed (use less.prems assms(2) in auto)
qed

lemma file_accepted:
  "\<forall>args fo'. file_ParseArgs args default_file_options = Some fo' \<and> \<not> fo_usage_requested fo' \<longrightarrow>
     uint (word_of_int (fo_host_port fo') :: u16) = fo_host_port fo' \<and> uint (word_of_int (fo_local_port fo') :: u16) = fo_local_port fo' \<and>
     0 < fo_chunk_size fo' \<and> fo_chunk_size fo' \<le> 32768 \<and>
       1 \<le> fo_host_port fo' \<and> fo_host_port fo' \<le> 65535 \<and> 1 \<le> fo_local_port fo' \<and> fo_local_port fo' \<le> 65535 \<and>
       0 < fo_timeout_seconds fo' \<and> 0 \<le> fo_warmup_ms fo' \<and> 0 \<le> fo_tick_sleep_ms fo' \<and>
       (fo_mode fo' = Mode_Sender \<longrightarrow> fo_file_path fo' \<noteq> [])"
proof (intro allI impI, elim conjE)
  fix args fo' assume a: "file_ParseArgs args default_file_options = Some fo'" "\<not> fo_usage_requested fo'"
  have "file_valued arg v o1 \<noteq> Stop o2" for arg v o1 o2
    by (simp add: file_valued_def set_number_def split: option.split)
  moreover have "file_flag arg o1 = Stop o2 \<Longrightarrow> fo_usage_requested o2" for arg o1 o2
    by (auto simp: file_flag_def split: if_splits)
  ultimately have "scan_args file_valued file_flag args default_file_options \<noteq> Stop fo'"
    using a(2) scan_args_stop [of file_valued file_flag] by blast
  with a(1) have "file_options_ok fo'" by (auto simp: file_ParseArgs_def split: arg_result.splits if_splits)
  then show "uint (word_of_int (fo_host_port fo') :: u16) = fo_host_port fo' \<and>
     uint (word_of_int (fo_local_port fo') :: u16) = fo_local_port fo' \<and> 0 < fo_chunk_size fo' \<and> fo_chunk_size fo' \<le> 32768 \<and>
       1 \<le> fo_host_port fo' \<and> fo_host_port fo' \<le> 65535 \<and> 1 \<le> fo_local_port fo' \<and> fo_local_port fo' \<le> 65535 \<and>
       0 < fo_timeout_seconds fo' \<and> 0 \<le> fo_warmup_ms fo' \<and> 0 \<le> fo_tick_sleep_ms fo' \<and>
       (fo_mode fo' = Mode_Sender \<longrightarrow> fo_file_path fo' \<noteq> [])"
    using port_cast [of "fo_host_port fo'"] port_cast [of "fo_local_port fo'"] by (simp add: file_options_ok_def)
qed

lemma p2p_accepted:
  "\<forall>args po'. p2p_ParseArgs args default_p2p_options = Some po' \<and> \<not> po_usage_requested po' \<longrightarrow>
     uint (word_of_int (po_host_port po') :: u16) = po_host_port po' \<and> uint (word_of_int (po_local_port po') :: u16) = po_local_port po' \<and>
       1 \<le> po_host_port po' \<and> po_host_port po' \<le> 65535 \<and> 1 \<le> po_local_port po' \<and> po_local_port po' \<le> 65535 \<and>
       0 < po_duration_seconds po' \<and> 0 < po_send_every_ms po' \<and> 0 \<le> po_tick_sleep_ms po' \<and>
       po_name po' \<noteq> [] \<and> (po_role po' = Role_Host \<longrightarrow> po_local_port po' = po_host_port po')"
proof (intro allI impI, elim conjE)
  fix args po' assume a: "p2p_ParseArgs args default_p2p_options = Some po'" "\<not> po_usage_requested po'"
  have "p2p_valued arg v o1 \<noteq> Stop o2" for arg v o1 o2
    by (simp add: p2p_valued_def set_number_def split: option.split)
  moreover have "p2p_flag arg o1 = Stop o2 \<Longrightarrow> po_usage_requested o2" for arg o1 o2
    by (auto simp: p2p_flag_def split: if_splits)
  ultimately have "scan_args p2p_valued p2p_flag args default_p2p_options \<noteq> Stop po'"
    using a(2) scan_args_stop [of p2p_valued p2p_flag] by blast
  with a(1) obtain o2 where o2: "p2p_options_ok o2" "po' = p2p_complete o2"
    by (auto simp: p2p_ParseArgs_def split: arg_result.splits if_splits)
  then show "uint (word_of_int (po_host_port po') :: u16) = po_host_port po' \<and> uint (word_of_int (po_local_port po') :: u16) = po_local_port po' \<and>
       1 \<le> po_host_port po' \<and> po_host_port po' \<le> 65535 \<and> 1 \<le> po_local_port po' \<and> po_local_port po' \<le> 65535 \<and>
       0 < po_duration_seconds po' \<and> 0 < po_send_every_ms po' \<and> 0 \<le> po_tick_sleep_ms po' \<and>
       po_name po' \<noteq> [] \<and> (po_role po' = Role_Host \<longrightarrow> po_local_port po' = po_host_port po')"
    using port_cast [of "po_host_port o2"] port_cast [of "po_local_port o2"] by (simp add: p2p_options_ok_def p2p_complete_def Let_def ascii_def)
qed

subsection \<open>Properties\<close>

text \<open>C40: every setting of the file transfer demo and of the peer-to-peer demo that the programs accept can be given on the
  command line: the line that gives all options is read back as exactly these options, whatever the texts among
  them are.  What the programs accept, when they are to run and not to show their usage, is in range: ports from 1 to 65535, which
  survive the cast to 16 bits; chunks of 1 to 32768 bytes, a positive timeout, no negative warmup or sleep, and a file to send for a sender;
  a positive duration and interval between messages, and a name that is not empty; a host's local port is its host port.\<close>

theorem command_line_roundtrip:
  assumes fo: "file_options_ok fo" "\<not> fo_usage_requested fo"
      "is_int (fo_warmup_ms fo)" "is_int (fo_timeout_seconds fo)" "is_int (fo_tick_sleep_ms fo)"
    and po: "p2p_options_ok po" "\<not> po_usage_requested po"
      "is_int (po_duration_seconds po)" "is_int (po_send_every_ms po)" "is_int (po_tick_sleep_ms po)"
      "is_int (po_become_host_after_seconds po)"
  shows "file_ParseArgs (file_command_line fo) default_file_options = Some fo \<and>
    p2p_ParseArgs (p2p_command_line po) default_p2p_options = Some (p2p_complete po) \<and>
    (\<forall>args fo'. file_ParseArgs args default_file_options = Some fo' \<and> \<not> fo_usage_requested fo' \<longrightarrow>
       uint (word_of_int (fo_host_port fo') :: u16) = fo_host_port fo' \<and> uint (word_of_int (fo_local_port fo') :: u16) = fo_local_port fo' \<and>
       0 < fo_chunk_size fo' \<and> fo_chunk_size fo' \<le> 32768 \<and>
       1 \<le> fo_host_port fo' \<and> fo_host_port fo' \<le> 65535 \<and> 1 \<le> fo_local_port fo' \<and> fo_local_port fo' \<le> 65535 \<and>
       0 < fo_timeout_seconds fo' \<and> 0 \<le> fo_warmup_ms fo' \<and> 0 \<le> fo_tick_sleep_ms fo' \<and>
       (fo_mode fo' = Mode_Sender \<longrightarrow> fo_file_path fo' \<noteq> [])) \<and>
    (\<forall>args po'. p2p_ParseArgs args default_p2p_options = Some po' \<and> \<not> po_usage_requested po' \<longrightarrow>
       uint (word_of_int (po_host_port po') :: u16) = po_host_port po' \<and> uint (word_of_int (po_local_port po') :: u16) = po_local_port po' \<and>
       1 \<le> po_host_port po' \<and> po_host_port po' \<le> 65535 \<and> 1 \<le> po_local_port po' \<and> po_local_port po' \<le> 65535 \<and>
       0 < po_duration_seconds po' \<and> 0 < po_send_every_ms po' \<and> 0 \<le> po_tick_sleep_ms po' \<and>
       po_name po' \<noteq> [] \<and> (po_role po' = Role_Host \<longrightarrow> po_local_port po' = po_host_port po'))"
proof (intro conjI)
  have "is_int (fo_host_port fo)" "is_int (fo_local_port fo)" "is_int (fo_chunk_size fo)"
    using fo(1) by (auto simp: file_options_ok_def is_int_def)
  then show "file_ParseArgs (file_command_line fo) default_file_options = Some fo"
    using fo file_scan by (simp add: file_ParseArgs_def)
  have "is_int (po_host_port po)" "is_int (po_local_port po)"
    using po(1) by (auto simp: p2p_options_ok_def is_int_def)
  then show "p2p_ParseArgs (p2p_command_line po) default_p2p_options = Some (p2p_complete po)"
    using po p2p_scan by (simp add: p2p_ParseArgs_def)
qed (rule file_accepted p2p_accepted)+

definition sample_p2p_options :: p2p_options where
  "sample_p2p_options = default_p2p_options\<lparr>po_role := Role_Client, po_name := ascii ''bob'', po_local_port := 14602,
     po_become_host_after_seconds := 8\<rparr>"

theorem command_line_roundtrip_witness:
  "file_ParseArgs (file_command_line (default_file_options\<lparr>fo_host_port := 65535, fo_file_path := ascii ''--help''\<rparr>)) default_file_options =
     Some (default_file_options\<lparr>fo_host_port := 65535, fo_file_path := ascii ''--help''\<rparr>) \<and>
   p2p_ParseArgs (p2p_command_line sample_p2p_options) default_p2p_options = Some sample_p2p_options"
proof -
  have "p2p_complete sample_p2p_options = sample_p2p_options" by (simp add: p2p_complete_def sample_p2p_options_def ascii_def)
  with command_line_roundtrip [of "default_file_options\<lparr>fo_host_port := 65535, fo_file_path := ascii ''--help''\<rparr>" sample_p2p_options]
  show ?thesis
    by (simp add: file_options_ok_def p2p_options_ok_def default_file_options_def default_p2p_options_def sample_p2p_options_def is_int_def)
qed

end
