(* ===== verification/File_Demo.thy ===== *)
theory File_Demo
  imports Sample_Options File_Send P2P_Laws
begin

text \<open>
  The program \<^verbatim>\<open>src/samples/file_transfer_demo/main.cc\<close>: a receiver that stores one file, and a sender.
  Each turn of a loop sees the clock and the operating system's answers, and what the threads of the node
  have made of it since the turn before (\<open>demo_turn\<close>); a list of turns that ends before the loop does
  gives \<open>None\<close>.  Console output is left out.
\<close>

subsection \<open>Paths\<close>

text \<open>The POSIX meaning of \<^verbatim>\<open>operator/\<close> and \<^verbatim>\<open>parent_path\<close> of \<^verbatim>\<open>std::filesystem::path\<close>.\<close>

definition slash :: byte where "slash = 0x2F"

definition path_append :: "path \<Rightarrow> path \<Rightarrow> path" where
  "path_append dir name =
     (if name \<noteq> [] \<and> hd name = slash then name
      else if dir \<noteq> [] \<and> last dir \<noteq> slash then dir @ [slash] @ name
      else dir @ name)"

definition parent_path :: "path \<Rightarrow> path" where
  "parent_path p =
     (let dir = rev (dropWhile (\<lambda>b. b \<noteq> slash) (rev p));
          stripped = rev (dropWhile (\<lambda>b. b = slash) (rev dir))
      in if dir \<noteq> [] \<and> stripped = [] then [slash] else stripped)"

definition ChooseOutputPath :: "file_options \<Rightarrow> path \<Rightarrow> u64 \<Rightarrow> path" where
  "ChooseOutputPath o1 name tid =
     (if fo_output_file o1 \<noteq> [] then fo_output_file o1
      else
        let name = (if name = [] then ascii ''transfer-'' @ decimal (unat tid) @ ascii ''.bin'' else name)
        in path_append (fo_output_dir o1) name)"

subsection \<open>The receiver\<close>

record ReceiveProgress =
  rp_active :: bool
  rp_transfer_id :: u64
  rp_total_chunks :: u32
  rp_file_name :: path
  rp_seen_chunks :: "u32 set"

definition new_progress :: ReceiveProgress where
  "new_progress = \<lparr>rp_active = False, rp_transfer_id = 0, rp_total_chunks = 0, rp_file_name = [], rp_seen_chunks = {}\<rparr>"

record receiver_state =
  rs_progress :: ReceiveProgress
  rs_disk :: disk
  rs_transporter :: ZFileTransporter

definition start_progress :: "TransferChunk \<Rightarrow> ReceiveProgress \<Rightarrow> ReceiveProgress" where
  "start_progress chunk pr =
     pr\<lparr>rp_active := True, rp_transfer_id := transfer_id chunk, rp_total_chunks := total_chunks chunk,
        rp_file_name := file_name chunk\<rparr>"

text \<open>The body of the loop over control packets: the value the program returns, if it returns here.\<close>

definition receive_packet ::
  "endian \<Rightarrow> file_options \<Rightarrow> file_calls \<Rightarrow> IncomingPacket \<Rightarrow> receiver_state \<Rightarrow> (int option \<times> receiver_state) option" where
  "receive_packet h o1 E packet st =
     (if ip_type packet \<noteq> PacketType_FileTransfer then Some (None, st)
      else case ParseTransferChunkPacket h packet of
        None \<Rightarrow> Some (None, st)
      | Some chunk \<Rightarrow>
          if \<not> rp_active (rs_progress st) \<and> \<not> has_file_name chunk then Some (None, st)
          else
            let pr = (if rp_active (rs_progress st) then rs_progress st else start_progress chunk (rs_progress st));
                st = st\<lparr>rs_progress := pr\<rparr>
            in if transfer_id chunk \<noteq> rp_transfer_id pr then Some (None, st)
               else case StreamChunkToFile E chunk (fo_temp_dir o1) (rs_disk st) (rs_transporter st) of
                 None \<Rightarrow> None
               | Some (ok, complete, d, t) \<Rightarrow>
                   let st = st\<lparr>rs_disk := d, rs_transporter := t\<rparr> in
                   if \<not> ok then Some (Some 6, st)
                   else
                     let st = st\<lparr>rs_progress := pr\<lparr>rp_seen_chunks := insert (chunk_index chunk) (rp_seen_chunks pr)\<rparr>\<rparr> in
                     if \<not> complete then Some (None, st)
                     else
                       (case FinalizeStreamedFile E (rp_transfer_id pr)
                               (ChooseOutputPath o1 (rp_file_name pr) (rp_transfer_id pr)) d t of
                          (ok, d, t) \<Rightarrow> Some (Some (if ok then 0 else 7), st\<lparr>rs_disk := d, rs_transporter := t\<rparr>)))"

function poll_control ::
  "endian \<Rightarrow> file_options \<Rightarrow> file_calls \<Rightarrow> ZP2PNode \<Rightarrow> receiver_state \<Rightarrow> (int option \<times> ZP2PNode \<times> receiver_state) option" where
  "poll_control h o1 E n st =
     (case Node_Poll Control n of
        (None, n) \<Rightarrow> Some (None, n, st)
      | (Some packet, n) \<Rightarrow>
          (case receive_packet h o1 E packet st of
             None \<Rightarrow> None
           | Some (Some rc, st) \<Rightarrow> Some (Some rc, n, st)
           | Some (None, st) \<Rightarrow> poll_control h o1 E n st))"
  by pat_completeness auto
termination
  by (relation "measure (\<lambda>(h, o1, E, n, st). length (incoming_control n))")
    (auto simp: Node_Poll_def split: list.splits)

declare poll_control.simps [simp del]

text \<open>The loops that poll and forget.\<close>

function discard :: "PacketChannelType \<Rightarrow> ZP2PNode \<Rightarrow> ZP2PNode" where
  "discard channel n = (case Node_Poll channel n of (None, n) \<Rightarrow> n | (Some _, n) \<Rightarrow> discard channel n)"
  by pat_completeness auto
termination
  by (relation "measure (\<lambda>(channel, n). length (if channel = Control then incoming_control n else incoming_data n))")
    (auto simp: Node_Poll_def split: list.splits if_splits)

declare discard.simps [simp del]

record demo_turn =
  turn_clock :: int
  turn_threads :: "ZP2PNode \<Rightarrow> ZP2PNode"
  turn_init :: init_env
  turn_env :: node_env
  turn_calls :: file_calls

fun receiver_loop ::
  "platform \<Rightarrow> net_calls \<Rightarrow> file_options \<Rightarrow> int \<Rightarrow> demo_turn list \<Rightarrow> process_sockets \<Rightarrow> ZP2PNode \<Rightarrow> receiver_state \<Rightarrow>
   (int \<times> receiver_state) option" where
  "receiver_loop P N o1 deadline [] p n st = None"
| "receiver_loop P N o1 deadline (turn # turns) p n st =
     (if \<not> turn_clock turn < deadline then Some (8, st)
      else case Node_Update P N (turn_init turn) (turn_env turn) p (turn_threads turn n) of
        None \<Rightarrow> None
      | Some (_, p, n) \<Rightarrow>
          (case poll_control (host P) o1 (turn_calls turn) n st of
             None \<Rightarrow> None
           | Some (Some rc, n, st) \<Rightarrow> Some (rc, st)
           | Some (None, n, st) \<Rightarrow> receiver_loop P N o1 deadline turns p (discard Data n) st))"

text \<open>
  \<^verbatim>\<open>RunReceiver\<close>: \<open>creates\<close> is the outcome of \<^verbatim>\<open>create_directories\<close>, \<open>now\<close> the clock before the loop; the
  node is destroyed when the function returns.
\<close>

definition second :: int where "second = 10 ^ 9"
definition millisecond :: int where "millisecond = 10 ^ 6"

definition RunReceiver ::
  "platform \<Rightarrow> net_calls \<Rightarrow> (path \<Rightarrow> bool) \<Rightarrow> init_env \<Rightarrow> node_env \<Rightarrow> int \<Rightarrow> demo_turn list \<Rightarrow> file_options \<Rightarrow>
   process_sockets \<Rightarrow> disk \<Rightarrow> (int \<times> disk) option" where
  "RunReceiver P N creates ienv env now turns o1 p d =
     (if \<not> creates (fo_output_dir o1) then Some (2, d)
      else if \<not> creates (fo_temp_dir o1) then Some (3, d)
      else if fo_output_file o1 \<noteq> [] \<and> parent_path (fo_output_file o1) \<noteq> [] \<and> \<not> creates (parent_path (fo_output_file o1))
        then Some (4, d)
      else case Node_Begin P N ienv env (word_of_int (fo_host_port o1)) p (new_node now) of
        None \<Rightarrow> None
      | Some (False, p, n) \<Rightarrow> Some (5, d)
      | Some (True, p, n) \<Rightarrow>
          map_option (\<lambda>(rc, st). (rc, rs_disk st))
            (receiver_loop P N o1 (now + fo_timeout_seconds o1 * second) turns p n
               \<lparr>rs_progress = new_progress, rs_disk = d,
                rs_transporter = new_transporter (Some GetMemoryMappedFileWriteFactory)\<rparr>))"

subsection \<open>The sender\<close>

text \<open>A turn that updates the node and forgets what came in.\<close>

definition idle_turn :: "platform \<Rightarrow> net_calls \<Rightarrow> demo_turn \<Rightarrow> process_sockets \<Rightarrow> ZP2PNode \<Rightarrow> (process_sockets \<times> ZP2PNode) option" where
  "idle_turn P N turn p n =
     map_option (\<lambda>(_, p, n). (p, discard Data (discard Control n)))
       (Node_Update P N (turn_init turn) (turn_env turn) p (turn_threads turn n))"

fun warm_up ::
  "platform \<Rightarrow> net_calls \<Rightarrow> int \<Rightarrow> demo_turn list \<Rightarrow> process_sockets \<Rightarrow> ZP2PNode \<Rightarrow>
   (demo_turn list \<times> process_sockets \<times> ZP2PNode) option" where
  "warm_up P N warmup_end [] p n = None"
| "warm_up P N warmup_end (turn # turns) p n =
     (if \<not> turn_clock turn < warmup_end then Some (turns, p, n)
      else case idle_turn P N turn p n of
        None \<Rightarrow> None
      | Some (p, n) \<Rightarrow> warm_up P N warmup_end turns p n)"

definition no_pressure :: "OutboundPressure \<Rightarrow> bool" where
  "no_pressure pressure \<longleftrightarrow> control_queued_packets pressure = 0 \<and> control_queued_bytes pressure = 0 \<and>
     pressure_awaiting_ack_packets pressure = 0 \<and> pressure_awaiting_ack_bytes pressure = 0"

text \<open>The loop that waits for the queues, with the number of idle turns in a row.\<close>

fun drain_loop ::
  "platform \<Rightarrow> net_calls \<Rightarrow> int \<Rightarrow> nat \<Rightarrow> demo_turn list \<Rightarrow> process_sockets \<Rightarrow> ZP2PNode \<Rightarrow> (process_sockets \<times> ZP2PNode) option" where
  "drain_loop P N deadline idle_ticks [] p n = None"
| "drain_loop P N deadline idle_ticks (turn # turns) p n =
     (if \<not> turn_clock turn < deadline then Some (p, n)
      else case idle_turn P N turn p n of
        None \<Rightarrow> None
      | Some (p, n) \<Rightarrow>
          let ticks = (if no_pressure (GetOutboundPressure n) then idle_ticks + 1 else 0) in
          if ticks \<ge> 50 then Some (p, n) else drain_loop P N deadline ticks turns p n)"

text \<open>
  \<^verbatim>\<open>SendFile\<close> on the transport layer of the node.  The size of the file is asked for before that, and a file that
  does not exist ends the program with an exception nobody catches.
\<close>

datatype demo_exit = Returned int | Terminated

definition node_SendFile ::
  "endian \<Rightarrow> send_world \<Rightarrow> path \<Rightarrow> u32 \<Rightarrow> TransferTuning \<Rightarrow> disk \<Rightarrow> u64 \<Rightarrow> PacketBufferPool \<Rightarrow> ZP2PNode \<Rightarrow>
   (bool \<times> OutgoingPacket list \<times> ZP2PNode) option" where
  "node_SendFile h W path destination tuning d counter pool n =
     map_option (\<lambda>(ok, ps, s). (ok, ps, ZAsyncTransportLayer.extend (sender_transport s) (ZAsyncTransportLayer.more n)))
       (SendFile h W path destination tuning d
          \<lparr>next_transfer_id = counter, sender_pool = pool, sender_transport = ZAsyncTransportLayer.truncate n\<rparr>)"

definition demo_tuning :: "file_options \<Rightarrow> TransferTuning" where
  "demo_tuning o1 = default_tuning\<lparr>tuning_chunk_size := word_of_int (fo_chunk_size o1)\<rparr>"

text \<open>
  \<^verbatim>\<open>RunSender\<close>: \<open>drain_start\<close> is the clock after \<^verbatim>\<open>SendFile\<close>, \<open>d\<close> the disk it finds.  The result has the packets that
  were enqueued.
\<close>

definition RunSender ::
  "platform \<Rightarrow> net_calls \<Rightarrow> init_env \<Rightarrow> node_env \<Rightarrow> int \<Rightarrow> demo_turn list \<Rightarrow> int \<Rightarrow> send_world \<Rightarrow> disk \<Rightarrow> u64 \<Rightarrow>
   PacketBufferPool \<Rightarrow> file_options \<Rightarrow> process_sockets \<Rightarrow> (demo_exit \<times> OutgoingPacket list) option" where
  "RunSender P N ienv env now turns drain_start W d counter pool o1 p =
     (case Node_Connect P N ienv env (fo_host_ip o1) (word_of_int (fo_host_port o1)) (word_of_int (fo_local_port o1)) p (new_node now) of
        None \<Rightarrow> None
      | Some (False, p, n) \<Rightarrow> Some (Returned 2, [])
      | Some (True, p, n) \<Rightarrow>
          (case warm_up P N (now + fo_warmup_ms o1 * millisecond) turns p n of
             None \<Rightarrow> None
           | Some (turns, p, n) \<Rightarrow>
               if contents d (fo_file_path o1) = None then Some (Terminated, [])
               else case node_SendFile (host P) W (fo_file_path o1) to_server (demo_tuning o1) d counter pool n of
                 None \<Rightarrow> None
               | Some (False, ps, n) \<Rightarrow> Some (Returned 3, ps)
               | Some (True, ps, n) \<Rightarrow>
                   map_option (\<lambda>_. (Returned 0, ps))
                     (drain_loop P N (drain_start + fo_timeout_seconds o1 * second) 0 turns p n)))"

text \<open>The handlers behind the two function pointers the program installs, and \<^verbatim>\<open>main\<close> up to the runs.\<close>

definition demo_log_handler :: "file_options \<Rightarrow> byte list \<Rightarrow> int \<Rightarrow> byte list \<Rightarrow> log_event list" where
  "demo_log_handler o1 = (if fo_verbose_logs o1 then VerboseLogHandler else QuietLogHandler)"

definition demo_main ::
  "(file_options \<Rightarrow> demo_exit option) \<Rightarrow> (file_options \<Rightarrow> demo_exit option) \<Rightarrow> byte list list \<Rightarrow> demo_exit option" where
  "demo_main run_receiver run_sender args =
     (case file_ParseArgs args default_file_options of
        None \<Rightarrow> Some (Returned 1)
      | Some o1 \<Rightarrow>
          if fo_usage_requested o1 then Some (Returned 0)
          else if fo_mode o1 = Mode_Receiver then run_receiver o1 else run_sender o1)"

subsection \<open>The packets the receiver sees\<close>

fun receive_packets ::
  "endian \<Rightarrow> file_options \<Rightarrow> (file_calls \<times> IncomingPacket) list \<Rightarrow> receiver_state \<Rightarrow> (int option \<times> receiver_state) option" where
  "receive_packets h o1 [] st = Some (None, st)"
| "receive_packets h o1 ((E, packet) # hs) st =
     (case receive_packet h o1 E packet st of
        None \<Rightarrow> None
      | Some (Some rc, st) \<Rightarrow> Some (Some rc, st)
      | Some (None, st) \<Rightarrow> receive_packets h o1 hs st)"

lemma receive_packets_append:
  "receive_packets h o1 (xs @ ys) st =
     (case receive_packets h o1 xs st of
        Some (None, st) \<Rightarrow> receive_packets h o1 ys st
      | result \<Rightarrow> result)"
  by (induction h o1 xs st rule: receive_packets.induct) (auto split: option.split)

lemma poll_control_eq:
  "(case receive_packets h o1 (map (Pair E) (incoming_control n)) st of
      None \<Rightarrow> poll_control h o1 E n st = None
    | Some (None, st') \<Rightarrow> poll_control h o1 E n st = Some (None, n\<lparr>incoming_control := []\<rparr>, st')
    | Some (Some rc, st') \<Rightarrow> \<exists>n'. poll_control h o1 E n st = Some (Some rc, n', st'))"
proof (induction "incoming_control n" arbitrary: n st)
  case Nil
  then have "n\<lparr>incoming_control := []\<rparr> = n" by simp
  with Nil show ?case by (simp add: poll_control.simps Node_Poll_def flip: Nil)
next
  case (Cons packet rest)
  then have n: "incoming_control n = packet # rest" by simp
  let ?n = "n\<lparr>incoming_control := rest\<rparr>"
  have poll: "Node_Poll Control n = (Some packet, ?n)" using n by (simp add: Node_Poll_def)
  show ?case
  proof (cases "receive_packet h o1 E packet st")
    case None
    then show ?thesis using n poll by (simp add: poll_control.simps)
  next
    case (Some result)
    obtain rc st1 where r: "receive_packet h o1 E packet st = Some (rc, st1)" using Some by (cases result) simp
    show ?thesis
    proof (cases rc)
      case None
      with r poll have "poll_control h o1 E n st = poll_control h o1 E ?n st1" by (subst poll_control.simps) simp
      then show ?thesis using Cons.hyps(1) [of ?n st1] r None by (auto simp: n split: option.splits)
    next
      case (Some c)
      with r poll have "poll_control h o1 E n st = Some (Some c, ?n, st1)" by (subst poll_control.simps) simp
      then show ?thesis using r Some by (simp add: n)
    qed
  qed
qed

text \<open>The packets that the turns hand to the receiver as long as it does not return, with the answers of the
  operating system in their turn.\<close>

fun handed ::
  "platform \<Rightarrow> net_calls \<Rightarrow> int \<Rightarrow> demo_turn list \<Rightarrow> process_sockets \<Rightarrow> ZP2PNode \<Rightarrow> (file_calls \<times> IncomingPacket) list" where
  "handed P N deadline [] p n = []"
| "handed P N deadline (turn # turns) p n =
     (if \<not> turn_clock turn < deadline then []
      else case Node_Update P N (turn_init turn) (turn_env turn) p (turn_threads turn n) of
        None \<Rightarrow> []
      | Some (_, p, n) \<Rightarrow>
          map (Pair (turn_calls turn)) (incoming_control n) @
          handed P N deadline turns p (discard Data (n\<lparr>incoming_control := []\<rparr>)))"

lemma receiver_loop_handed:
  "receive_packets (host P) o1 (handed P N deadline turns p n) st = Some (Some rc, st') \<Longrightarrow>
   receiver_loop P N o1 deadline turns p n st = Some (rc, st')"
proof (induction turns arbitrary: p n st)
  case (Cons turn turns)
  then have clock: "turn_clock turn < deadline" by (auto split: if_splits)
  show ?case
  proof (cases "Node_Update P N (turn_init turn) (turn_env turn) p (turn_threads turn n)")
    case None
    with Cons.prems clock show ?thesis by simp
  next
    case (Some u)
    then obtain r p1 n1 where u: "Node_Update P N (turn_init turn) (turn_env turn) p (turn_threads turn n) = Some (r, p1, n1)"
      by (cases u) simp
    let ?hs = "map (Pair (turn_calls turn)) (incoming_control n1)"
    note poll = poll_control_eq [of "host P" o1 "turn_calls turn" n1 st]
    from Cons.prems u clock have run: "receive_packets (host P) o1
        (?hs @ handed P N deadline turns p1 (discard Data (n1\<lparr>incoming_control := []\<rparr>))) st = Some (Some rc, st')" by simp
    then consider "receive_packets (host P) o1 ?hs st = Some (Some rc, st')"
      | st1 where "receive_packets (host P) o1 ?hs st = Some (None, st1)"
          "receive_packets (host P) o1 (handed P N deadline turns p1 (discard Data (n1\<lparr>incoming_control := []\<rparr>))) st1 = Some (Some rc, st')"
      by (auto simp: receive_packets_append split: option.splits)
    then show ?thesis
    proof cases
      case 1
      then show ?thesis using poll clock u by auto
    next
      case 2
      then show ?thesis using poll clock u Cons.IH [OF 2(2)] by simp
    qed
  qed
qed simp

subsection \<open>One file arrives\<close>

text \<open>A packet of the transfer \<open>tid\<close>, and the receiver while it collects the chunks \<open>R\<close> of it.\<close>

definition chunk_of_packet :: "endian \<Rightarrow> IncomingPacket \<Rightarrow> TransferChunk option" where
  "chunk_of_packet h packet = (if ip_type packet \<noteq> PacketType_FileTransfer then None else ParseTransferChunkPacket h packet)"

definition collecting :: "byte list \<Rightarrow> u64 \<Rightarrow> u32 \<Rightarrow> path \<Rightarrow> path \<Rightarrow> nat set \<Rightarrow> receiver_state \<Rightarrow> bool" where
  "collecting F tid cs dir name R st \<longleftrightarrow> rp_active (rs_progress st) \<and> rp_transfer_id (rs_progress st) = tid \<and>
     rp_file_name (rs_progress st) = name \<and>
     transfer_at MemoryMappedFileWriteFactory F tid cs (temp_path_of dir tid) R (rs_disk st) (rs_transporter st)"

lemma receive_packet_other:
  assumes "rp_active (rs_progress st)" and "\<And>c. chunk_of_packet h packet = Some c \<Longrightarrow> transfer_id c \<noteq> rp_transfer_id (rs_progress st)"
  shows "receive_packet h o1 E packet st = Some (None, st)"
  using assms by (auto simp: receive_packet_def chunk_of_packet_def split: option.split)

lemma receive_packet_waiting:
  assumes "\<not> rp_active (rs_progress st)" and "\<And>c. chunk_of_packet h packet = Some c \<Longrightarrow> \<not> has_file_name c"
  shows "receive_packet h o1 E packet st = Some (None, st)"
  using assms by (auto simp: receive_packet_def chunk_of_packet_def split: option.split)

lemma receive_packets_waiting:
  assumes "\<not> rp_active (rs_progress st)" and "\<forall>(E, packet) \<in> set hs. \<forall>c. chunk_of_packet h packet = Some c \<longrightarrow> \<not> has_file_name c"
  shows "receive_packets h o1 hs st = Some (None, st)"
  using assms(2)
proof (induction hs)
  case (Cons e hs)
  obtain E packet where e: "e = (E, packet)" by fastforce
  have "receive_packet h o1 E packet st = Some (None, st)"
    using Cons.prems e by (intro receive_packet_waiting [OF assms(1)]) auto
  then show ?case using Cons e by simp
qed simp

text \<open>A chunk of the transfer: the program goes on, or this was the last chunk and the file is there.\<close>

lemma receive_packet_chunk:
  assumes chunk: "chunk_of_packet h packet = Some c" "file_chunk F tid cs c"
    and before: "if R = {} then \<not> rp_active (rs_progress st) \<and> unat (chunk_index c) = 0 \<and> file_name c = name \<and>
        transfer_at MemoryMappedFileWriteFactory F tid cs (temp_path_of (fo_temp_dir o1) tid) {} (rs_disk st) (rs_transporter st)
      else collecting F tid cs (fo_temp_dir o1) name R st"
    and size: "length F < 2 ^ 63" "0 < unat cs" "unat cs < 2 ^ 31"
    and E: "willing E (temp_path_of (fo_temp_dir o1) tid)" "renames E (temp_path_of (fo_temp_dir o1) tid) (ChooseOutputPath o1 name tid)"
    and out: "ChooseOutputPath o1 name tid \<noteq> temp_path_of (fo_temp_dir o1) tid"
  shows "\<exists>rc st'. receive_packet h o1 E packet st = Some (rc, st') \<and>
    (if insert (unat (chunk_index c)) R = {..<chunks_of F (unat cs)}
     then rc = Some 0 \<and> contents (rs_disk st') (ChooseOutputPath o1 name tid) = Some F
     else rc = None \<and> collecting F tid cs (fo_temp_dir o1) name (insert (unat (chunk_index c)) R) st')"
proof -
  let ?p = "temp_path_of (fo_temp_dir o1) tid" and ?R = "insert (unat (chunk_index c)) R" and ?G = MemoryMappedFileWriteFactory
  have tid: "transfer_id c = tid" using chunk(2) by (simp add: file_chunk_def)
  have parse: "ip_type packet = PacketType_FileTransfer" "ParseTransferChunkPacket h packet = Some c"
    using chunk(1) by (auto simp: chunk_of_packet_def split: if_splits)
  have at: "transfer_at ?G F tid cs ?p R (rs_disk st) (rs_transporter st)" and first: "R = {} \<Longrightarrow> unat (chunk_index c) = 0"
    using before by (auto simp: collecting_def split: if_splits)
  from own_chunk [OF at chunk(2) E(1) size(1,3) first] obtain d' t' where
    run: "StreamChunkToFile E c (fo_temp_dir o1) (rs_disk st) (rs_transporter st) =
      Some (True, ?R = {..<chunks_of F (unat cs)}, d', t')" and at': "transfer_at ?G F tid cs ?p ?R d' t'" by auto
  let ?pr = "if rp_active (rs_progress st) then rs_progress st else start_progress c (rs_progress st)"
  have named: "\<not> (\<not> rp_active (rs_progress st) \<and> \<not> has_file_name c)"
    using before file_chunk_facts(6) [OF chunk(2)] by (auto simp: collecting_def split: if_splits)
  have pr: "rp_transfer_id ?pr = tid" "rp_file_name ?pr = name" "rp_active ?pr"
    using before tid by (auto simp: collecting_def start_progress_def split: if_splits)
  let ?st = "st\<lparr>rs_progress := ?pr\<lparr>rp_seen_chunks := insert (chunk_index c) (rp_seen_chunks ?pr)\<rparr>, rs_disk := d', rs_transporter := t'\<rparr>"
  have step: "receive_packet h o1 E packet st =
      (if ?R = {..<chunks_of F (unat cs)} then
         (case FinalizeStreamedFile E tid (ChooseOutputPath o1 name tid) d' t' of
            (ok, d, t) \<Rightarrow> Some (Some (if ok then 0 else 7), ?st\<lparr>rs_disk := d, rs_transporter := t\<rparr>))
       else Some (None, ?st))"
    using parse named run pr tid by (cases "rp_active (rs_progress st)") (simp_all add: receive_packet_def Let_def)
  show ?thesis
  proof (cases "?R = {..<chunks_of F (unat cs)}")
    case True
    moreover from this have "{..<chunks_of F (unat cs)} \<noteq> {}" by blast
    ultimately have "transfer_has ?G F tid cs ?p {..<chunks_of F (unat cs)} d' t'" using at' by (simp add: transfer_at_def)
    then obtain d'' t'' where "FinalizeStreamedFile E tid (ChooseOutputPath o1 name tid) d' t' = (True, d'', t'')"
      "contents d'' (ChooseOutputPath o1 name tid) = Some F"
      using FinalizeStreamedFile_complete [OF _ size(2,1) E out] by metis
    then show ?thesis using step True by simp
  next
    case False
    then show ?thesis using step at' pr by (simp add: collecting_def)
  qed
qed

text \<open>What arrives: packets of the transfer are the sender's.\<close>

definition genuine ::
  "endian \<Rightarrow> file_options \<Rightarrow> byte list \<Rightarrow> u64 \<Rightarrow> u32 \<Rightarrow> path \<Rightarrow> file_calls \<times> IncomingPacket \<Rightarrow> bool" where
  "genuine h o1 F tid cs name e \<longleftrightarrow> (case e of (E, packet) \<Rightarrow>
     \<forall>c. chunk_of_packet h packet = Some c \<and> transfer_id c = tid \<longrightarrow>
       file_chunk F tid cs c \<and> willing E (temp_path_of (fo_temp_dir o1) tid) \<and>
       renames E (temp_path_of (fo_temp_dir o1) tid) (ChooseOutputPath o1 name tid))"

definition arrived :: "endian \<Rightarrow> u64 \<Rightarrow> (file_calls \<times> IncomingPacket) list \<Rightarrow> nat set" where
  "arrived h tid hs = {unat (chunk_index c) | E packet c. (E, packet) \<in> set hs \<and> chunk_of_packet h packet = Some c \<and> transfer_id c = tid}"

lemma arrived_Cons:
  "arrived h tid ((E, packet) # hs) =
     (case chunk_of_packet h packet of
        Some c \<Rightarrow> if transfer_id c = tid then insert (unat (chunk_index c)) (arrived h tid hs) else arrived h tid hs
      | None \<Rightarrow> arrived h tid hs)"
  by (auto simp: arrived_def split: option.split)

lemma receive_packets_collect:
  assumes "list_all (genuine h o1 F tid cs name) hs" and "collecting F tid cs (fo_temp_dir o1) name R st" "R \<noteq> {}"
    and "R \<union> arrived h tid hs = {..<chunks_of F (unat cs)}" "R \<noteq> {..<chunks_of F (unat cs)}"
    and size: "length F < 2 ^ 63" "0 < unat cs" "unat cs < 2 ^ 31"
    and out: "ChooseOutputPath o1 name tid \<noteq> temp_path_of (fo_temp_dir o1) tid"
  shows "\<exists>st'. receive_packets h o1 hs st = Some (Some 0, st') \<and> contents (rs_disk st') (ChooseOutputPath o1 name tid) = Some F"
  using assms(1-5)
proof (induction hs arbitrary: R st)
  case Nil
  then show ?case by (simp add: arrived_def)
next
  case (Cons e hs)
  obtain E packet where e: "e = (E, packet)" by fastforce
  have active: "rp_active (rs_progress st)" "rp_transfer_id (rs_progress st) = tid" using Cons.prems(2) by (simp_all add: collecting_def)
  show ?case
  proof (cases "\<exists>c. chunk_of_packet h packet = Some c \<and> transfer_id c = tid")
    case False
    then have "receive_packet h o1 E packet st = Some (None, st)" using active by (intro receive_packet_other) auto
    moreover have "arrived h tid (e # hs) = arrived h tid hs" using False by (auto simp: e arrived_Cons split: option.split)
    ultimately show ?thesis using Cons.IH [of R st] Cons.prems e by simp
  next
    case True
    then obtain c where c: "chunk_of_packet h packet = Some c" "transfer_id c = tid" by blast
    let ?R = "insert (unat (chunk_index c)) R"
    have g: "file_chunk F tid cs c" "willing E (temp_path_of (fo_temp_dir o1) tid)"
      "renames E (temp_path_of (fo_temp_dir o1) tid) (ChooseOutputPath o1 name tid)"
      using Cons.prems(1) c by (auto simp: e genuine_def)
    obtain rc st1 where step: "receive_packet h o1 E packet st = Some (rc, st1)"
      "if ?R = {..<chunks_of F (unat cs)}
       then rc = Some 0 \<and> contents (rs_disk st1) (ChooseOutputPath o1 name tid) = Some F
       else rc = None \<and> collecting F tid cs (fo_temp_dir o1) name ?R st1"
      using receive_packet_chunk [OF c(1) g(1) _ size g(2,3) out, of R st] Cons.prems(2,3) by auto
    have rest: "?R \<union> arrived h tid hs = {..<chunks_of F (unat cs)}" using Cons.prems(4) c by (auto simp: e arrived_Cons)
    show ?thesis
    proof (cases "?R = {..<chunks_of F (unat cs)}")
      case True
      then show ?thesis using step by (simp add: e)
    next
      case False
      then show ?thesis using step Cons.IH [of ?R st1] Cons.prems(1) rest by (simp add: e)
    qed
  qed
qed

lemma receive_file:
  assumes early: "\<forall>(E, packet) \<in> set early. \<forall>c. chunk_of_packet h packet = Some c \<longrightarrow> \<not> has_file_name c"
    and all: "list_all (genuine h o1 F tid cs name) (e # hs)" "arrived h tid (e # hs) = {..<chunks_of F (unat cs)}"
    and c: "chunk_of_packet h (snd e) = Some c" "file_chunk F tid cs c" "unat (chunk_index c) = 0" "file_name c = name"
    and st: "\<not> rp_active (rs_progress st)"
      "transfer_at MemoryMappedFileWriteFactory F tid cs (temp_path_of (fo_temp_dir o1) tid) {} (rs_disk st) (rs_transporter st)"
    and size: "length F < 2 ^ 63" "0 < unat cs" "unat cs < 2 ^ 31"
    and out: "ChooseOutputPath o1 name tid \<noteq> temp_path_of (fo_temp_dir o1) tid"
  shows "\<exists>st'. receive_packets h o1 (early @ e # hs) st = Some (Some 0, st') \<and>
    contents (rs_disk st') (ChooseOutputPath o1 name tid) = Some F"
proof -
  obtain E packet where e: "e = (E, packet)" by fastforce
  have tid: "transfer_id c = tid" using c(2) by (simp add: file_chunk_def)
  have g: "willing E (temp_path_of (fo_temp_dir o1) tid)"
    "renames E (temp_path_of (fo_temp_dir o1) tid) (ChooseOutputPath o1 name tid)"
    using all(1) c(1) tid by (auto simp: e genuine_def)
  obtain rc st1 where step: "receive_packet h o1 E packet st = Some (rc, st1)"
    "if {unat (chunk_index c)} = {..<chunks_of F (unat cs)}
     then rc = Some 0 \<and> contents (rs_disk st1) (ChooseOutputPath o1 name tid) = Some F
     else rc = None \<and> collecting F tid cs (fo_temp_dir o1) name {unat (chunk_index c)} st1"
    using receive_packet_chunk [OF _ c(2) _ size g out, of h packet "{}" st] c st by (auto simp: e)
  have rest: "{unat (chunk_index c)} \<union> arrived h tid hs = {..<chunks_of F (unat cs)}"
    using all(2) c(1) tid by (simp add: e arrived_Cons)
  have "\<exists>st'. receive_packets h o1 (e # hs) st = Some (Some 0, st') \<and>
    contents (rs_disk st') (ChooseOutputPath o1 name tid) = Some F"
  proof (cases "{unat (chunk_index c)} = {..<chunks_of F (unat cs)}")
    case True
    then show ?thesis using step by (simp add: e)
  next
    case False
    then show ?thesis
      using step receive_packets_collect [of h o1 F tid cs name hs "{unat (chunk_index c)}" st1] all(1) rest size out by (simp add: e)
  qed
  then show ?thesis using receive_packets_waiting [OF st(1) early] by (simp add: receive_packets_append)
qed

subsection \<open>The sender's packets\<close>

lemma RunSender_sent:
  assumes "RunSender P N ienv env now turns drain_start W d counter pool o1 p = Some (Returned 0, ps)"
  obtains n s' where "SendFile (host P) W (fo_file_path o1) to_server (demo_tuning o1) d
    \<lparr>next_transfer_id = counter, sender_pool = pool, sender_transport = n\<rparr> = Some (True, ps, s')"
  using assms that
  by (force simp: RunSender_def node_SendFile_def split: option.splits prod.splits if_splits bool.splits)

lemma demo_chunk_size:
  assumes "file_options_ok o1"
  shows "tuning_chunk_size (demo_tuning o1) < 2 ^ 31"
proof -
  have "0 \<le> fo_chunk_size o1" "fo_chunk_size o1 \<le> 32768" using assms by (simp_all add: file_options_ok_def)
  then have "uint (word_of_int (fo_chunk_size o1) :: u64) \<le> 32768" by (simp add: uint_word_of_int_eq take_bit_int_eq_self)
  then show ?thesis by (simp add: demo_tuning_def word_less_def)
qed

text \<open>The packets that reach the receiver's application.\<close>

definition carries :: "IncomingPacket \<Rightarrow> OutgoingPacket \<Rightarrow> bool" where
  "carries packet sent \<longleftrightarrow> ip_type packet = PacketType_FileTransfer \<and> ip_channel packet = Control \<and> ip_data packet = packet_bytes sent"

lemma chunk_of_carried: "carries packet sent \<Longrightarrow> chunk_of_packet h packet = ParseTransferChunkPayload h (packet_bytes sent)"
  by (simp add: carries_def chunk_of_packet_def ParseTransferChunkPacket_def)

lemma chunks_of_pos:
  assumes "0 < cs"
  shows "0 < chunks_of F cs"
proof (cases "length F = 0")
  case False
  then have "0 < length F" by linarith
  from chunk_of_byte(1) [OF assms this] show ?thesis by simp
qed (simp add: chunks_of_def)

lemma arrived_all:
  assumes "list_all (genuine h o1 F tid cs name) hs" and "\<forall>sent \<in> set ps. \<exists>(E, packet) \<in> set hs. carries packet sent"
    and "length ps = chunks_of F (unat cs)"
    and parsed: "\<And>j. j < length ps \<Longrightarrow> \<exists>c. ParseTransferChunkPayload h (packet_bytes (ps ! j)) = Some c \<and>
      file_chunk F tid cs c \<and> unat (chunk_index c) = j"
  shows "arrived h tid hs = {..<chunks_of F (unat cs)}"
proof (intro equalityI subsetI)
  fix i assume "i \<in> arrived h tid hs"
  then obtain E packet c where "(E, packet) \<in> set hs" "chunk_of_packet h packet = Some c" "transfer_id c = tid"
    and i: "i = unat (chunk_index c)" unfolding arrived_def by blast
  moreover from this assms(1) have "genuine h o1 F tid cs name (E, packet)" unfolding list_all_iff by blast
  ultimately have "file_chunk F tid cs c" by (simp add: genuine_def)
  from file_chunk_facts(2,3) [OF this] show "i \<in> {..<chunks_of F (unat cs)}" by (simp add: i)
next
  fix i assume "i \<in> {..<chunks_of F (unat cs)}"
  then have i: "i < length ps" using assms(3) by simp
  from parsed [OF i] obtain c where c: "ParseTransferChunkPayload h (packet_bytes (ps ! i)) = Some c" "transfer_id c = tid"
    "unat (chunk_index c) = i" by (auto simp: file_chunk_def)
  obtain E packet where "(E, packet) \<in> set hs" "carries packet (ps ! i)" using assms(2) nth_mem [OF i] by blast
  moreover from this(2) have "chunk_of_packet h packet = Some c" using c(1) by (simp add: chunk_of_carried)
  ultimately show "i \<in> arrived h tid hs" unfolding arrived_def using c(2,3) by blast
qed

subsection \<open>What the receiver writes\<close>

text \<open>Sessions whose temporary files are all in one directory, and a step that writes to no file but the temporary
  file of its transfer there.\<close>

definition sessions_in :: "path \<Rightarrow> ZFileTransporter \<Rightarrow> bool" where
  "sessions_in dir t \<longleftrightarrow> sessions_ok t \<and> (\<forall>tid s. active_streams t tid = Some s \<longrightarrow> ss_temp_path s = temp_path_of dir tid)"

lemma EnsureStreamSession_in:
  assumes "sessions_in dir t" and run: "EnsureStreamSession E c dir d t = (r, d', t')"
  shows "sessions_in dir t' \<and> (\<forall>q. q \<noteq> temp_path_of dir (transfer_id c) \<longrightarrow> contents d' q = contents d q)"
proof -
  have ok: "sessions_ok t'" using EnsureStreamSession_spec [OF _ run] assms(1) by (simp add: sessions_in_def)
  have frame: "contents d1 q = contents d q"
    if "Open G E (temp_path_of dir (transfer_id c)) (file_size c) d = (o1, d1)" "q \<noteq> temp_path_of dir (transfer_id c)" for G o1 d1 q
    using any_writer.open_frame [OF that] .
  show ?thesis using run ok assms(1) frame
    by (auto simp: EnsureStreamSession_def sessions_in_def Let_def split: option.splits prod.splits if_splits)
qed

lemma StreamChunkToFile_in:
  assumes t: "sessions_in dir t" and fits: "chunk_fits c"
  shows "\<exists>r b d' t'. StreamChunkToFile E c dir d t = Some (r, b, d', t') \<and> sessions_in dir t' \<and>
    (\<forall>q. q \<noteq> temp_path_of dir (transfer_id c) \<longrightarrow> contents d' q = contents d q)"
proof -
  have "sessions_ok t" using t by (simp add: sessions_in_def)
  from StreamChunkToFile_spec [OF this fits] obtain r b d' t' where
    run: "StreamChunkToFile E c dir d t = Some (r, b, d', t')" and ok: "sessions_ok t'" by blast
  obtain r1 d1 t1 where e: "EnsureStreamSession E c dir d t = (r1, d1, t1)" by (cases "EnsureStreamSession E c dir d t")
  note in1 = EnsureStreamSession_in [OF t e]
  show ?thesis
  proof (cases "r1 \<and> (\<exists>s h. active_streams t1 (transfer_id c) = Some s \<and> temp_file s = Some h)")
    case False
    then have "d' = d1 \<and> t' = t1"
      using run e EnsureStreamSession_spec [OF \<open>sessions_ok t\<close> e]
      by (cases r1) (auto simp: StreamChunkToFile_def Let_def split: option.splits)
    with run in1 show ?thesis by blast
  next
    case True
    then obtain s h where s: "r1" "active_streams t1 (transfer_id c) = Some s" "temp_file s = Some h" by blast
    have path: "ss_temp_path s = temp_path_of dir (transfer_id c)" "handle_on (ss_temp_path s) h"
      using in1 s by (auto simp: sessions_in_def sessions_ok_def)
    obtain ok2 h2 d2 where w: "WriteAt E (chunk_start c) (chunk_data c) h d1 = (ok2, h2, d2)"
      by (cases "WriteAt E (chunk_start c) (chunk_data c) h d1")
    note frame = any_writer.write_frame [OF path(2) w]
    let ?s = "s\<lparr>temp_file := Some h2\<rparr>"
    have "(d' = d1 \<or> d' = d2) \<and>
      (t' = t1 \<or> t' = set_session (transfer_id c) ?s t1 \<or> t' = set_session (transfer_id c) (mark_received c ?s) t1)"
      using run e s w by (auto simp: StreamChunkToFile_def Let_def split: if_splits)
    then show ?thesis using run ok in1 frame path(1) by (auto simp: sessions_in_def split: if_splits)
  qed
qed

lemma FinalizeStreamedFile_in:
  assumes t: "sessions_in dir t" and run: "FinalizeStreamedFile E tid output_path d t = (r, d', t')"
    and q: "q \<noteq> temp_path_of dir tid" "q \<noteq> output_path"
  shows "contents d' q = contents d q"
proof (cases "active_streams t tid")
  case None
  with run show ?thesis by (simp add: FinalizeStreamedFile_def)
next
  case (Some s)
  have path: "ss_temp_path s = temp_path_of dir tid" using t Some by (simp add: sessions_in_def)
  have close: "contents (destroy_handle h x) = contents x" for h x
    using any_writer.close_frame [of h x "fst (CloseHandle h x)" "snd (CloseHandle h x)"] by (simp add: destroy_handle_def)
  have flush: "contents x = contents d" if "FlushAndClose E h d = (b, h', x)" for h b h' x
    using any_writer.flush_frame [OF that] by simp
  show ?thesis using run Some path q
    by (auto simp: FinalizeStreamedFile_def Let_def rename_file_def remove_file_def set_contents_def close flush
        split: if_splits option.splits prod.splits bool.splits)
qed

definition receiver_ok_in :: "file_options \<Rightarrow> receiver_state \<Rightarrow> bool" where
  "receiver_ok_in o1 st \<longleftrightarrow> sessions_in (fo_temp_dir o1) (rs_transporter st) \<and>
     (rp_active (rs_progress st) \<longrightarrow> \<not> ContainsPathTraversal (rp_file_name (rs_progress st)))"

definition written :: "path set \<Rightarrow> file_options \<Rightarrow> receiver_state \<Rightarrow> receiver_state \<Rightarrow> bool" where
  "written outs o1 st st' \<longleftrightarrow> (\<forall>q. contents (rs_disk st') q \<noteq> contents (rs_disk st) q \<longrightarrow>
     q \<in> outs \<or> (\<exists>tid. q = temp_path_of (fo_temp_dir o1) tid))"

definition checked_outputs :: "file_options \<Rightarrow> path set" where
  "checked_outputs o1 = (if fo_output_file o1 \<noteq> [] then {fo_output_file o1}
     else {path_append (fo_output_dir o1) name | name. \<not> ContainsPathTraversal name})"

lemma ChooseOutputPath_checked: "\<not> ContainsPathTraversal name \<Longrightarrow> ChooseOutputPath o1 name tid \<in> checked_outputs o1"
proof -
  assume name: "\<not> ContainsPathTraversal name"
  then have "name \<noteq> []" by (auto simp: ContainsPathTraversal_def)
  with name show ?thesis by (auto simp: ChooseOutputPath_def checked_outputs_def)
qed

lemma written_refl [simp]: "written outs o1 st (st\<lparr>rs_progress := pr\<rparr>)" "written outs o1 st st"
  by (simp_all add: written_def)

lemma written_trans: "written {} o1 st st1 \<Longrightarrow> written outs o1 st1 st2 \<Longrightarrow> written outs o1 st st2"
  unfolding written_def by (metis empty_iff)

lemma receive_packet_in:
  assumes st: "receiver_ok_in o1 st"
  shows "\<exists>rc st'. receive_packet h o1 E packet st = Some (rc, st') \<and>
    (if rc = None then receiver_ok_in o1 st' \<and> written {} o1 st st'
     else \<exists>out \<in> checked_outputs o1. written {out} o1 st st')"
proof -
  have ignored: "receive_packet h o1 E packet st = Some (None, st)"
    if "\<nexists>c. ip_type packet = PacketType_FileTransfer \<and> ParseTransferChunkPacket h packet = Some c \<and>
      (rp_active (rs_progress st) \<or> has_file_name c)"
    using that by (auto simp: receive_packet_def split: option.split)
  consider "receive_packet h o1 E packet st = Some (None, st)"
    | c where "ip_type packet = PacketType_FileTransfer" "ParseTransferChunkPacket h packet = Some c" "rp_active (rs_progress st) \<or> has_file_name c"
    using ignored by blast
  then show ?thesis
  proof cases
    case 1
    then show ?thesis using st by simp
  next
    case (2 c)
    define pr where "pr = (if rp_active (rs_progress st) then rs_progress st else start_progress c (rs_progress st))"
    have c: "chunk_fits c" "has_file_name c \<Longrightarrow> \<not> ContainsPathTraversal (file_name c)"
      using 2(2) parsed_chunk_spec by (auto simp: ParseTransferChunkPacket_def sendable_def split: if_splits)
    have pr: "\<not> ContainsPathTraversal (rp_file_name pr)" using st c(2) 2(3) by (auto simp: pr_def receiver_ok_in_def start_progress_def)
    have t: "sessions_in (fo_temp_dir o1) (rs_transporter st)" using st by (simp add: receiver_ok_in_def)
    from StreamChunkToFile_in [OF t c(1), of E "rs_disk st"] obtain r b d' t' where
      run: "StreamChunkToFile E c (fo_temp_dir o1) (rs_disk st) (rs_transporter st) = Some (r, b, d', t')" "sessions_in (fo_temp_dir o1) t'"
        "\<forall>q. q \<noteq> temp_path_of (fo_temp_dir o1) (transfer_id c) \<longrightarrow> contents d' q = contents (rs_disk st) q" by blast
    define out where "out = ChooseOutputPath o1 (rp_file_name pr) (rp_transfer_id pr)"
    obtain ok d2 t2 where f: "FinalizeStreamedFile E (rp_transfer_id pr) out d' t' = (ok, d2, t2)" by (metis prod_cases3)
    have out: "out \<in> checked_outputs o1" unfolding out_def by (rule ChooseOutputPath_checked [OF pr])
    have frame: "contents d2 q = contents (rs_disk st) q" if "q \<noteq> out" "\<nexists>tid. q = temp_path_of (fo_temp_dir o1) tid" for q
      using FinalizeStreamedFile_in [OF run(2) f, of q] run(3) that by simp
    have step: "receive_packet h o1 E packet st =
      (if transfer_id c \<noteq> rp_transfer_id pr then Some (None, st\<lparr>rs_progress := pr\<rparr>)
       else if \<not> r then Some (Some 6, st\<lparr>rs_progress := pr, rs_disk := d', rs_transporter := t'\<rparr>)
       else
         let st = st\<lparr>rs_progress := pr\<lparr>rp_seen_chunks := insert (chunk_index c) (rp_seen_chunks pr)\<rparr>, rs_disk := d', rs_transporter := t'\<rparr> in
         if \<not> b then Some (None, st) else Some (Some (if ok then 0 else 7), st\<lparr>rs_disk := d2, rs_transporter := t2\<rparr>))"
      using 2 run(1) f by (auto simp: receive_packet_def Let_def pr_def [symmetric] out_def [symmetric])
    have parts: "receiver_ok_in o1 (st\<lparr>rs_progress := pr\<rparr>)"
      "receiver_ok_in o1 (st\<lparr>rs_progress := pr\<lparr>rp_seen_chunks := X\<rparr>, rs_disk := d', rs_transporter := t'\<rparr>)"
      "written outs o1 st (st\<lparr>rs_progress := x, rs_disk := d', rs_transporter := t'\<rparr>)" for X outs x
      using t pr run(2,3) by (auto simp: receiver_ok_in_def written_def)
    moreover have "written {out} o1 st (st\<lparr>rs_progress := x, rs_disk := d2, rs_transporter := t2\<rparr>)" for x
      unfolding written_def
    proof (intro allI impI)
      fix q assume "contents (rs_disk (st\<lparr>rs_progress := x, rs_disk := d2, rs_transporter := t2\<rparr>)) q \<noteq> contents (rs_disk st) q"
      then have "contents d2 q \<noteq> contents (rs_disk st) q" by simp
      then show "q \<in> {out} \<or> (\<exists>tid. q = temp_path_of (fo_temp_dir o1) tid)" using frame [of q] by blast
    qed
    ultimately show ?thesis unfolding step Let_def using out by (auto intro: bexI [of _ out])
  qed
qed

lemma receive_packets_in:
  "receiver_ok_in o1 st \<Longrightarrow> \<exists>rc st'. receive_packets h o1 hs st = Some (rc, st') \<and> (\<exists>outs. (outs = {} \<or> (\<exists>out \<in> checked_outputs o1. outs = {out})) \<and> written outs o1 st st')"
proof (induction hs arbitrary: st)
  case Nil
  show ?case by auto
next
  case (Cons e hs)
  obtain E packet where e: "e = (E, packet)" by fastforce
  from receive_packet_in [OF Cons.prems, of h E packet] obtain rc st1 where
    step: "receive_packet h o1 E packet st = Some (rc, st1)"
      "if rc = None then receiver_ok_in o1 st1 \<and> written {} o1 st st1 else \<exists>out \<in> checked_outputs o1. written {out} o1 st st1" by blast
  show ?case
  proof (cases rc)
    case None
    with step Cons.IH [of st1] obtain rc' st' outs where "receive_packets h o1 hs st1 = Some (rc', st')"
      "outs = {} \<or> (\<exists>out \<in> checked_outputs o1. outs = {out})" "written outs o1 st1 st'" by auto
    then show ?thesis using step None written_trans [of o1 st st1] by (simp add: e) blast
  next
    case (Some x)
    then show ?thesis using step by (auto simp: e)
  qed
qed

subsection \<open>Properties\<close>

text \<open>C6: the two programs of the demo transfer a file.  The sender was started with a file that does not change while it
  is sent, and returned 0; the receiver could create its directories and its node.  If the packets of the
  transfer reach the receiver's node, the first one before any other chunk that carries a file name and all
  others after it, in any order, repeated, and mixed with whatever else arrives, then the receiver returns 0 and
  the file is at the path it chose: under the output directory with the name the file had.\<close>

theorem demo_transfers_file:
  assumes sent: "RunSender P N ienv env now turns drain_start W d0 tid pool so p0 = Some (Returned 0, ps)"
    and src: "contents d0 (fo_file_path so) = Some F" "\<forall>j. contents (world_disk W j) (fo_file_path so) = Some F" "length F < 2 ^ 63"
    and so: "file_options_ok so" "tid \<noteq> 0" "\<not> ContainsPathTraversal (BaseName (fo_file_path so))"
    and start: "\<forall>dir. creates dir" "Node_Begin P' N' ienv' env' (word_of_int (fo_host_port ro)) p (new_node now') = Some (True, p1, n1)"
    and out: "output_path = ChooseOutputPath ro (BaseName (fo_file_path so)) tid" "temp = temp_path_of (fo_temp_dir ro) tid" "output_path \<noteq> temp"
    and arrive: "handed P' N' (now' + fo_timeout_seconds ro * second) turns' p1 n1 = early @ first_packet # hs"
      "\<forall>(E, packet) \<in> set early. \<forall>c. chunk_of_packet (host P') packet = Some c \<longrightarrow> \<not> has_file_name c"
      "carries (snd first_packet) (hd ps)"
      "\<forall>(E, packet) \<in> set (first_packet # hs). \<forall>c. chunk_of_packet (host P') packet = Some c \<and> transfer_id c = tid \<longrightarrow>
         (\<exists>sent \<in> set ps. carries packet sent) \<and> willing E temp \<and> renames E temp output_path"
      "\<forall>sent \<in> set ps. \<exists>(E, packet) \<in> set (first_packet # hs). carries packet sent"
  shows "\<exists>d'. RunReceiver P' N' creates ienv' env' now' turns' ro p d = Some (0, d') \<and> contents d' output_path = Some F"
proof -
  let ?h = "host P'" and ?all = "first_packet # hs" and ?name = "BaseName (fo_file_path so)"
  obtain n s' where send: "SendFile (host P) W (fo_file_path so) to_server (demo_tuning so) d0
    \<lparr>next_transfer_id = tid, sender_pool = pool, sender_transport = n\<rparr> = Some (True, ps, s')"
    by (rule RunSender_sent [OF sent])
  have nz: "next_transfer_id \<lparr>next_transfer_id = tid, sender_pool = pool, sender_transport = n\<rparr> \<noteq> 0" using so(2) by simp
  obtain cs where cs: "0 < unat cs" "unat cs < 2 ^ 31" "length ps = chunks_of F (unat cs)"
    and parsed: "\<And>j h'. j < length ps \<Longrightarrow> \<exists>c. ParseTransferChunkPayload h' (packet_bytes (ps ! j)) = Some c \<and>
       file_chunk F tid cs c \<and> unat (chunk_index c) = j \<and> (j = 0 \<longrightarrow> file_name c = ?name)"
    by (rule sent_packets_parse [OF send src demo_chunk_size [OF so(1)] nz so(3)]) (simp add: that)
  let ?st = "\<lparr>rs_progress = new_progress, rs_disk = d, rs_transporter = new_transporter (Some GetMemoryMappedFileWriteFactory)\<rparr>"
  have "genuine ?h ro F tid cs ?name e" if "e \<in> set ?all" for e
  proof -
    obtain E packet where e: "e = (E, packet)" by fastforce
    show ?thesis unfolding genuine_def e prod.case
    proof (intro allI impI)
      fix c assume c: "chunk_of_packet ?h packet = Some c \<and> transfer_id c = tid"
      with arrive(4) that e obtain s where s: "s \<in> set ps" "carries packet s" "willing E temp" "renames E temp output_path" by fastforce
      then obtain j where j: "j < length ps" "s = ps ! j" by (auto simp: in_set_conv_nth)
      have "file_chunk F tid cs c" using parsed [OF j(1), of ?h] chunk_of_carried [OF s(2), of ?h] c j(2) by auto
      then show "file_chunk F tid cs c \<and> willing E (temp_path_of (fo_temp_dir ro) tid) \<and>
          renames E (temp_path_of (fo_temp_dir ro) tid) (ChooseOutputPath ro ?name tid)" using s(3,4) out by simp
    qed
  qed
  then have genuine: "list_all (genuine ?h ro F tid cs ?name) ?all" by (simp add: list_all_iff)
  have some: "0 < length ps" using cs(3) by (simp add: chunks_of_pos [OF cs(1)])
  then obtain c where c: "chunk_of_packet ?h (snd first_packet) = Some c" "file_chunk F tid cs c" "unat (chunk_index c) = 0" "file_name c = ?name"
    using parsed [of 0 ?h] chunk_of_carried [OF arrive(3)] by (cases ps) auto
  have arrived: "arrived ?h tid ?all = {..<chunks_of F (unat cs)}"
    by (rule arrived_all [OF genuine arrive(5)]) (use parsed cs(3) in auto)
  have st: "\<not> rp_active (rs_progress ?st)"
      "transfer_at MemoryMappedFileWriteFactory F tid cs (temp_path_of (fo_temp_dir ro) tid) {} (rs_disk ?st) (rs_transporter ?st)"
    by (simp_all add: new_progress_def transfer_at_def new_transporter_def sessions_ok_def GetMemoryMappedFileWriteFactory_def)
  from receive_file [OF arrive(2) genuine arrived c st src(3) cs(1,2)] out obtain st' where
    "receive_packets ?h ro (early @ ?all) ?st = Some (Some 0, st')" "contents (rs_disk st') output_path = Some F" by auto
  then show ?thesis
    using receiver_loop_handed [of P' ro N' _ turns' p1 n1 ?st 0 st'] arrive(1) start by (simp add: RunReceiver_def)
qed

text \<open>C36: whatever packets arrive, well formed or not, the receiver of the demo never accesses a chunk beyond its
  bookkeeping, and changes no files but temporary files in the temporary directory and at most one output file: the
  one it was told, or, below the output directory, one with a name that has passed the path check, so that it is
  relative and no component of it is the parent directory.\<close>

theorem demo_receiver_confined:
  assumes "receiver_ok_in o1 st"
  shows "\<exists>rc st' output_path. receive_packets h o1 hs st = Some (rc, st') \<and>
    (\<forall>q. contents (rs_disk st') q \<noteq> contents (rs_disk st) q \<longrightarrow>
       Some q = output_path \<or> (\<exists>tid. q = temp_path_of (fo_temp_dir o1) tid)) \<and>
    (\<forall>q. output_path = Some q \<longrightarrow>
       (if fo_output_file o1 \<noteq> [] then q = fo_output_file o1
        else \<exists>name. q = path_append (fo_output_dir o1) name \<and> name \<noteq> [] \<and> \<not> is_separator (name ! 0) \<and>
          [dot, dot] \<notin> set (components name)))"
proof -
  from receive_packets_in [OF assms, of h hs] obtain rc st' outs where run: "receive_packets h o1 hs st = Some (rc, st')"
    "outs = {} \<or> (\<exists>out \<in> checked_outputs o1. outs = {out})" "written outs o1 st st'" by blast
  have safe: "name \<noteq> [] \<and> \<not> is_separator (name ! 0) \<and> [dot, dot] \<notin> set (components name)" if "\<not> ContainsPathTraversal name" for name
    using that ContainsPathTraversal_iff [of name] by (auto simp: list_ex_iff ends_dots_def)
  from run(2) show ?thesis
  proof
    assume "outs = {}"
    then show ?thesis using run(1,3) by (intro exI [of _ rc] exI [of _ st'] exI [of _ None]) (simp add: written_def)
  next
    assume "\<exists>out \<in> checked_outputs o1. outs = {out}"
    then obtain out where out: "out \<in> checked_outputs o1" "outs = {out}" by blast
    have "if fo_output_file o1 \<noteq> [] then out = fo_output_file o1
        else \<exists>name. out = path_append (fo_output_dir o1) name \<and> name \<noteq> [] \<and> \<not> is_separator (name ! 0) \<and> [dot, dot] \<notin> set (components name)"
      using out(1) safe by (auto simp: checked_outputs_def split: if_splits)
    then show ?thesis using run(1,3) out(2) by (intro exI [of _ rc] exI [of _ st'] exI [of _ "Some out"]) (simp add: written_def)
  qed
qed

theorem demo_receiver_confined_witness:
  "\<exists>rc st' output_path. receive_packets LittleEndian default_file_options
     [(all_calls, \<lparr>ip_channel = Control, ip_flags = transfer_flags False, ip_type = PacketType_FileTransfer, source_peer_id = 1,
       acknowledgement_number = 0, sequence_number = 0, ip_data = [1, 2, 3]\<rparr>)]
     \<lparr>rs_progress = new_progress, rs_disk = no_files, rs_transporter = new_transporter None\<rparr> = Some (rc, st') \<and>
     (\<forall>q. contents (rs_disk st') q \<noteq> contents no_files q \<longrightarrow>
       Some q = output_path \<or> (\<exists>tid. q = temp_path_of (fo_temp_dir default_file_options) tid))"
proof -
  have "receiver_ok_in default_file_options
    \<lparr>rs_progress = new_progress, rs_disk = no_files, rs_transporter = new_transporter None\<rparr>"
    by (simp add: receiver_ok_in_def sessions_in_def sessions_ok_def new_transporter_def new_progress_def)
  from demo_receiver_confined [OF this, of LittleEndian "[(all_calls, \<lparr>ip_channel = Control, ip_flags = transfer_flags False,
      ip_type = PacketType_FileTransfer, source_peer_id = 1, acknowledgement_number = 0, sequence_number = 0, ip_data = [1, 2, 3]\<rparr>)]"]
  show ?thesis by (elim exE conjE) (intro exI conjI, assumption, simp)
qed

text \<open>A file of three bytes, sent in one chunk.\<close>

lemmas start_simps = InitAsHost_def InitAsClient_def Deinit_def DestroySocket_def StopThreads_def WaitForPendingDispatchTasks_def
  Init_def create_socket_def node_options_def CreateServer_def CreateClient_def open_descriptor_def sample_net_def init_crypto_def
  StartThreads_def finish_init_def AddressFromString_def ResolveAddress_def ResolveSockaddr_def clear_node_def
  sizeof_sockaddr_storage_def SetSockaddrPort_def AddressFromSockaddr_def new_node_defs new_socket_def Let_def
  EnsureDispatchExecutor_def ConfigureDispatchExecutor_def AF_INET_def AF_INET6_def ascii_def

definition sample_sender_options :: file_options where
  "sample_sender_options = default_file_options\<lparr>fo_mode := Mode_Sender, fo_file_path := [0x61], fo_warmup_ms := 0\<rparr>"

definition sample_late :: demo_turn where
  "sample_late = \<lparr>turn_clock = 10 ^ 12, turn_threads = id, turn_init = sample_init_env, turn_env = sample_node_env, turn_calls = all_calls\<rparr>"

definition sample_send_world :: send_world where
  "sample_send_world = sample_world\<lparr>world_turns := \<lambda>_. [((new_transport 0)\<lparr>state := kConnected\<rparr>, 0)]\<rparr>"

lemma sample_demo_nodes:
  "\<exists>p n. Node_Connect sample_platform sample_net sample_init_env sample_node_env (ascii ''127.0.0.1'') 14700 14701
     \<lparr>open_fds = []\<rparr> (new_node 0) = Some (True, p, n)"
  "\<exists>p n. Node_Begin sample_platform sample_net sample_init_env sample_node_env 14700 \<lparr>open_fds = []\<rparr> (new_node 0) = Some (True, p, n)"
  by (simp_all add: Node_Begin_def Node_Connect_def start_simps)

lemma sample_demo_send:
  "\<exists>ps. RunSender sample_platform sample_net sample_init_env sample_node_env 0 [sample_late, sample_late] 0 sample_send_world sample_disk
     7 new_pool sample_sender_options \<lparr>open_fds = []\<rparr> = Some (Returned 0, ps) \<and> length ps = 1"
proof -
  obtain p n where n: "Node_Connect sample_platform sample_net sample_init_env sample_node_env (ascii ''127.0.0.1'') 14700 14701
     \<lparr>open_fds = []\<rparr> (new_node 0) = Some (True, p, n)" using sample_demo_nodes(1) by blast
  let ?t = "demo_tuning sample_sender_options"
  let ?s = "\<lparr>next_transfer_id = 7, sender_pool = new_pool, sender_transport = ZAsyncTransportLayer.truncate n\<rparr>"
  have t: "tuning_chunk_size ?t = 4096"
    by (simp add: demo_tuning_def sample_sender_options_def default_file_options_def)
  have W: "world_serves sample_send_world ?t"
    by (simp add: world_serves_def sample_send_world_def sample_world_def WaitForSendWindow_def demo_tuning_def default_tuning_def
        window_open_def GetOutboundPressure_def GetApproxOutgoingPacketCount_def GetApproxOutgoingBytes_def new_node_defs
        priority_size_approx_def new_priority_queue_def size_approx_def new_queue_def)
  have src: "contents sample_disk [0x61] = Some [7, 8, 9]" "\<forall>j. contents (world_disk sample_send_world j) [0x61] = Some [7, 8, 9]"
    "opens (world_calls sample_send_world) [0x61]"
    by (simp_all add: sample_disk_def sample_send_world_def sample_world_def all_calls_def)
  obtain ps s' where sent: "SendFile (host sample_platform) sample_send_world [0x61] to_server ?t sample_disk ?s = Some (True, ps, s')"
    using SendFile_succeeds [OF W src(2,3,1), of ?s "host sample_platform" to_server] t by (auto simp: BaseName_def)
  have "length ps = 1"
    using SendFile_spec [OF sent _ src(1)] by (auto simp: packets_for_def sent_info_def t CalculateTotalChunks_def)
  then show ?thesis using sent n src(1)
    by (simp add: RunSender_def node_SendFile_def sample_sender_options_def default_file_options_def sample_late_def millisecond_def
        second_def)
qed

definition sample_delivery :: "byte list \<Rightarrow> demo_turn" where
  "sample_delivery data = sample_late\<lparr>turn_clock := 0, turn_threads := \<lambda>_. (new_node 0)\<lparr>incoming_control :=
     [\<lparr>ip_channel = Control, ip_flags = transfer_flags False, ip_type = PacketType_FileTransfer, source_peer_id = 1,
       acknowledgement_number = 0, sequence_number = 0, ip_data = data\<rparr>]\<rparr>\<rparr>"

lemma sample_handed:
  "handed sample_platform sample_net (60 * second) [sample_delivery data] p n =
    [(all_calls, \<lparr>ip_channel = Control, ip_flags = transfer_flags False, ip_type = PacketType_FileTransfer, source_peer_id = 1,
       acknowledgement_number = 0, sequence_number = 0, ip_data = data\<rparr>)]"
proof -
  have "priority_empty new_priority_queue" by (simp add: priority_empty_def new_priority_queue_def queue_empty_def new_queue_def)
  then have "Node_Update sample_platform sample_net ienv env p ((new_node 0)\<lparr>incoming_control := ps\<rparr>) =
      Some (state (new_node 0) \<noteq> kDisconnected, p, (new_node 0)\<lparr>incoming_control := ps\<rparr>)" for ienv env p ps
    by (subst Update_nothing) (simp_all add: new_node_defs)
  then show ?thesis by (simp add: second_def sample_delivery_def sample_late_def)
qed

theorem demo_transfers_file_witness:
  "\<exists>ps d'. RunSender sample_platform sample_net sample_init_env sample_node_env 0 [sample_late, sample_late] 0 sample_send_world
       sample_disk 7 new_pool sample_sender_options \<lparr>open_fds = []\<rparr> = Some (Returned 0, ps) \<and>
     RunReceiver sample_platform sample_net (\<lambda>_. True) sample_init_env sample_node_env 0 [sample_delivery (packet_bytes (hd ps))]
       default_file_options \<lparr>open_fds = []\<rparr> no_files = Some (0, d') \<and> contents d' (ascii ''./a'') = Some [7, 8, 9]"
proof -
  let ?ro = default_file_options and ?t = "temp_path_of (ascii ''.'') 7"
  obtain ps where sent: "RunSender sample_platform sample_net sample_init_env sample_node_env 0 [sample_late, sample_late] 0
     sample_send_world sample_disk 7 new_pool sample_sender_options \<lparr>open_fds = []\<rparr> = Some (Returned 0, ps)" and "length ps = 1"
    using sample_demo_send by blast
  then obtain p1 where one: "ps = [p1]" by (cases ps) auto
  obtain p n where node: "Node_Begin sample_platform sample_net sample_init_env sample_node_env (word_of_int (fo_host_port ?ro))
      \<lparr>open_fds = []\<rparr> (new_node 0) = Some (True, p, n)"
    using sample_demo_nodes(2) by (auto simp: default_file_options_def)
  have src: "contents sample_disk (fo_file_path sample_sender_options) = Some [7, 8, 9]"
    "\<forall>j. contents (world_disk sample_send_world j) (fo_file_path sample_sender_options) = Some [7, 8, 9]" "length ([7, 8, 9] :: byte list) < 2 ^ 63"
    by (simp_all add: sample_disk_def sample_send_world_def sample_world_def sample_sender_options_def)
  have name: "\<not> ContainsPathTraversal (BaseName (fo_file_path sample_sender_options))" "BaseName (fo_file_path sample_sender_options) = [0x61]"
    by (simp_all add: BaseName_def ContainsPathTraversal_def is_separator_def drive_path_def traversal_at_def sample_sender_options_def)
  have ok: "file_options_ok sample_sender_options"
    by (simp add: file_options_ok_def sample_sender_options_def default_file_options_def)
  have path: "ascii ''./a'' = ChooseOutputPath ?ro (BaseName (fo_file_path sample_sender_options)) 7" "?t = temp_path_of (fo_temp_dir ?ro) 7"
    by (simp_all add: name(2) ChooseOutputPath_def path_append_def slash_def default_file_options_def ascii_def)
  have "length ?t > 3" by (simp add: temp_path_of_def)
  moreover have "length (ascii ''./a'') = 3" by simp
  ultimately have ne: "ascii ''./a'' \<noteq> ?t" by (metis less_irrefl)
  let ?e = "(all_calls, \<lparr>ip_channel = Control, ip_flags = transfer_flags False, ip_type = PacketType_FileTransfer, source_peer_id = 1,
       acknowledgement_number = 0, sequence_number = 0, ip_data = packet_bytes (hd ps)\<rparr>)"
  have handed: "handed sample_platform sample_net (0 + fo_timeout_seconds ?ro * second) [sample_delivery (packet_bytes (hd ps))] p n = [] @ [?e]"
    using sample_handed [of "packet_bytes (hd ps)" p n] by (simp add: default_file_options_def)
  have carry: "carries (snd ?e) (hd ps)" by (simp add: carries_def)
  have "\<exists>d'. RunReceiver sample_platform sample_net (\<lambda>_. True) sample_init_env sample_node_env 0 [sample_delivery (packet_bytes (hd ps))]
       ?ro \<lparr>open_fds = []\<rparr> no_files = Some (0, d') \<and> contents d' (ascii ''./a'') = Some [7, 8, 9]"
    by (rule demo_transfers_file [OF sent src ok _ name(1) _ node path ne handed _ carry])
      (use one carry all_calls_willing in \<open>simp_all add: all_calls_def\<close>)
  then show ?thesis using sent by blast
qed

end
