(* ===== verification/P2P_Demo.thy ===== *)
theory P2P_Demo
  imports Sample_Options P2P_Laws
begin

text \<open>
  The program \<^verbatim>\<open>src/samples/p2p_demo/main.cc\<close>: a node that prints the messages it receives and sends one from
  time to time, and a client that may become the host.  Each turn of the loop sees two readings of the clock and what
  the node's threads have made of the node since the turn before.  What is printed is recorded.  The counters of the
  program have type \<^verbatim>\<open>int\<close>, whose overflow is undefined; here they do not overflow.
\<close>

subsection \<open>The program\<close>

record RuntimeStats =
  sent_messages :: int
  received_data_packets :: int
  received_control_packets :: int
  received_data_bytes :: int
  suppressed_duplicate_packets :: int

definition new_stats :: RuntimeStats where
  "new_stats = \<lparr>sent_messages = 0, received_data_packets = 0, received_control_packets = 0, received_data_bytes = 0,
     suppressed_duplicate_packets = 0\<rparr>"

datatype demo_line = ControlLine u32 PacketType nat | DataLine u32 nat "byte list" | SendLine "byte list"

record demo_state =
  demo_node :: ZP2PNode
  demo_stats :: RuntimeStats
  seen_messages :: "byte list set"
  did_promote :: bool
  send_sequence :: int
  next_send_time :: int
  demo_lines :: "demo_line list"

definition message_key :: "IncomingPacket \<Rightarrow> byte list" where
  "message_key packet = decimal (unat (source_peer_id packet)) @ [0x7C] @ ip_data packet"

definition drain_control :: "IncomingPacket \<Rightarrow> demo_state \<Rightarrow> demo_state" where
  "drain_control packet s =
     s\<lparr>demo_stats := (demo_stats s)\<lparr>received_control_packets := received_control_packets (demo_stats s) + 1\<rparr>,
       demo_lines := demo_lines s @ [ControlLine (source_peer_id packet) (ip_type packet) (length (ip_data packet))]\<rparr>"

definition drain_data :: "bool \<Rightarrow> IncomingPacket \<Rightarrow> demo_state \<Rightarrow> demo_state" where
  "drain_data show_duplicates packet s =
     (let stats = (demo_stats s)\<lparr>received_data_packets := received_data_packets (demo_stats s) + 1,
                    received_data_bytes := received_data_bytes (demo_stats s) + int (length (ip_data packet))\<rparr>;
          s = s\<lparr>demo_stats := stats\<rparr>;
          line = DataLine (source_peer_id packet) (length (ip_data packet)) (c_string (ip_data packet))
      in if \<not> show_duplicates then
           if message_key packet \<in> seen_messages s then
             s\<lparr>demo_stats := stats\<lparr>suppressed_duplicate_packets := suppressed_duplicate_packets stats + 1\<rparr>\<rparr>
           else s\<lparr>seen_messages := insert (message_key packet) (seen_messages s), demo_lines := demo_lines s @ [line]\<rparr>
         else s\<lparr>demo_lines := demo_lines s @ [line]\<rparr>)"

function poll_with :: "PacketChannelType \<Rightarrow> (IncomingPacket \<Rightarrow> demo_state \<Rightarrow> demo_state) \<Rightarrow> ZP2PNode \<Rightarrow> demo_state \<Rightarrow> ZP2PNode \<times> demo_state" where
  "poll_with channel body n s =
     (case Node_Poll channel n of (None, n) \<Rightarrow> (n, s) | (Some packet, n) \<Rightarrow> poll_with channel body n (body packet s))"
  by pat_completeness auto
termination
  by (relation "measure (\<lambda>(channel, body, n, s). length (if channel = Control then incoming_control n else incoming_data n))")
    (auto simp: Node_Poll_def split: list.splits if_splits)

declare poll_with.simps [simp del]

definition DrainIncoming :: "bool \<Rightarrow> demo_state \<Rightarrow> demo_state" where
  "DrainIncoming show_duplicates s =
     (case poll_with Control drain_control (demo_node s) s of
        (n, s) \<Rightarrow>
          (case poll_with Data (drain_data show_duplicates) n s of
             (n, s) \<Rightarrow> s\<lparr>demo_node := n\<rparr>))"

record p2p_turn =
  p2p_clock :: int
  p2p_threads :: "ZP2PNode \<Rightarrow> ZP2PNode"
  p2p_init :: init_env
  p2p_env :: node_env
  p2p_now :: int

definition nanoseconds_per_second :: int where "nanoseconds_per_second = 10 ^ 9"
definition nanoseconds_per_millisecond :: int where "nanoseconds_per_millisecond = 10 ^ 6"

text \<open>\<^verbatim>\<open>snprintf\<close> into a buffer of 256 bytes.\<close>

definition demo_message :: "p2p_options \<Rightarrow> int \<Rightarrow> int \<Rightarrow> ZP2PNode \<Rightarrow> byte list" where
  "demo_message o1 sequence elapsed_ms n =
     take 255 (ascii ''['' @ po_name o1 @ ascii ''] seq='' @ signed_decimal sequence @ ascii '' elapsed_ms='' @
       signed_decimal elapsed_ms @ ascii '' role='' @ (if is_host n then ascii ''host'' else ascii ''client''))"

definition wants_promotion :: "p2p_options \<Rightarrow> int \<Rightarrow> int \<Rightarrow> demo_state \<Rightarrow> bool" where
  "wants_promotion o1 start_time now s \<longleftrightarrow> po_role o1 = Role_Client \<and> \<not> did_promote s \<and> po_become_host_after_seconds o1 \<ge> 0 \<and>
     (now - start_time) div nanoseconds_per_second \<ge> po_become_host_after_seconds o1"

definition demo_send :: "p2p_options \<Rightarrow> int \<Rightarrow> p2p_turn \<Rightarrow> demo_state \<Rightarrow> demo_state" where
  "demo_send o1 start_time turn s =
     (if p2p_now turn \<ge> next_send_time s then
        let sequence = send_sequence s + 1;
            msg = demo_message o1 sequence ((p2p_now turn - start_time) div nanoseconds_per_millisecond) (demo_node s)
        in s\<lparr>send_sequence := sequence,
             demo_node := Node_SendMessage (p2p_env turn) (if po_send_to_all o1 then to_all else to_server) msg (demo_node s),
             demo_stats := (demo_stats s)\<lparr>sent_messages := sent_messages (demo_stats s) + 1\<rparr>,
             demo_lines := demo_lines s @ [SendLine msg],
             next_send_time := p2p_now turn + po_send_every_ms o1 * nanoseconds_per_millisecond\<rparr>
      else s)"

definition p2p_turn_step ::
  "platform \<Rightarrow> net_calls \<Rightarrow> p2p_options \<Rightarrow> int \<Rightarrow> p2p_turn \<Rightarrow> process_sockets \<Rightarrow> demo_state \<Rightarrow> (process_sockets \<times> demo_state) option" where
  "p2p_turn_step P N o1 start_time turn p s = do {
     (_, p, n) \<leftarrow> Node_Update P N (p2p_init turn) (p2p_env turn) p (p2p_threads turn (demo_node s));
     let s = DrainIncoming (po_show_duplicates o1) (s\<lparr>demo_node := n\<rparr>);
     (p, s) \<leftarrow> (if wants_promotion o1 start_time (p2p_now turn) s then
                  map_option (\<lambda>(p, n). (p, s\<lparr>demo_node := n, did_promote := True\<rparr>))
                    (BecomeHost P N (p2p_init turn) (p2p_env turn) p (demo_node s))
                else Some (p, s));
     Some (p, demo_send o1 start_time turn s)
   }"

fun p2p_loop ::
  "platform \<Rightarrow> net_calls \<Rightarrow> p2p_options \<Rightarrow> int \<Rightarrow> p2p_turn list \<Rightarrow> process_sockets \<Rightarrow> demo_state \<Rightarrow> demo_state option" where
  "p2p_loop P N o1 start_time [] p s = None"
| "p2p_loop P N o1 start_time (turn # turns) p s =
     (if \<not> p2p_clock turn < start_time + po_duration_seconds o1 * nanoseconds_per_second then Some s
      else case p2p_turn_step P N o1 start_time turn p s of
        None \<Rightarrow> None
      | Some (p, s) \<Rightarrow> p2p_loop P N o1 start_time turns p s)"

definition p2p_initial :: "int \<Rightarrow> ZP2PNode \<Rightarrow> demo_state" where
  "p2p_initial start_time n =
     \<lparr>demo_node = n, demo_stats = new_stats, seen_messages = {}, did_promote = False, send_sequence = 0,
      next_send_time = start_time + 500 * nanoseconds_per_millisecond, demo_lines = []\<rparr>"

text \<open>\<^verbatim>\<open>main\<close>: what it returns, and the state at the summary.\<close>

definition p2p_main ::
  "platform \<Rightarrow> net_calls \<Rightarrow> init_env \<Rightarrow> node_env \<Rightarrow> int \<Rightarrow> int \<Rightarrow> p2p_turn list \<Rightarrow> byte list list \<Rightarrow> process_sockets \<Rightarrow>
   (int \<times> demo_state option) option" where
  "p2p_main P N ienv env created_time start_time turns args p =
     (case p2p_ParseArgs args default_p2p_options of
        None \<Rightarrow> Some (1, None)
      | Some o1 \<Rightarrow>
          if po_usage_requested o1 then Some (0, None)
          else
            case (if po_role o1 = Role_Host
                  then Node_Begin P N ienv env (word_of_int (po_host_port o1)) p (new_node created_time)
                  else Node_Connect P N ienv env (po_host_ip o1) (word_of_int (po_host_port o1)) (word_of_int (po_local_port o1)) p
                         (new_node created_time)) of
              None \<Rightarrow> None
            | Some (False, p, n) \<Rightarrow> Some (2, None)
            | Some (True, p, n) \<Rightarrow>
                map_option (\<lambda>s. (0, Some s)) (p2p_loop P N o1 start_time turns p (p2p_initial start_time n)))"

subsection \<open>What is printed\<close>

text \<open>The lines of data packets, of control packets, and of messages sent.\<close>

fun data_lines :: "demo_line list \<Rightarrow> (u32 \<times> nat \<times> byte list) list" where
  "data_lines [] = []"
| "data_lines (DataLine source n text # ls) = (source, n, text) # data_lines ls"
| "data_lines (_ # ls) = data_lines ls"

lemma data_lines_append [simp]: "data_lines (xs @ ys) = data_lines xs @ data_lines ys"
  by (induction xs rule: data_lines.induct) simp_all

fun control_lines :: "demo_line list \<Rightarrow> (u32 \<times> PacketType \<times> nat) list" where
  "control_lines [] = []"
| "control_lines (ControlLine source kind n # ls) = (source, kind, n) # control_lines ls"
| "control_lines (_ # ls) = control_lines ls"

fun send_lines :: "demo_line list \<Rightarrow> byte list list" where
  "send_lines [] = []"
| "send_lines (SendLine text # ls) = text # send_lines ls"
| "send_lines (_ # ls) = send_lines ls"

lemma control_lines_append [simp]: "control_lines (xs @ ys) = control_lines xs @ control_lines ys"
  by (induction xs rule: control_lines.induct) simp_all

lemma send_lines_append [simp]: "send_lines (xs @ ys) = send_lines xs @ send_lines ys"
  by (induction xs rule: send_lines.induct) simp_all

lemma poll_with_eq:
  "poll_with channel body n s =
     (if channel = Control then n\<lparr>incoming_control := []\<rparr> else n\<lparr>incoming_data := []\<rparr>,
      fold body (if channel = Control then incoming_control n else incoming_data n) s)"
proof (induction channel body n s rule: poll_with.induct)
  case (1 channel body n s)
  show ?case
  proof (cases "if channel = Control then incoming_control n else incoming_data n")
    case Nil
    then show ?thesis by (subst poll_with.simps) (auto simp: Node_Poll_def)
  next
    case (Cons packet rest)
    then show ?thesis using 1 by (subst poll_with.simps) (auto simp: Node_Poll_def)
  qed
qed

definition message_of :: "IncomingPacket \<Rightarrow> u32 \<times> byte list" where
  "message_of packet = (source_peer_id packet, ip_data packet)"

lemma message_key_eq: "message_key a = message_key b \<longleftrightarrow> message_of a = message_of b"
proof
  assume eq: "message_key a = message_key b"
  have digits: "takeWhile is_digit (message_key x) = decimal (unat (source_peer_id x))" for x
    using takeWhile_digits [OF decimal_digits, of "0x7C" "unat (source_peer_id x)" "ip_data x"]
    by (simp add: message_key_def is_digit_def)
  then have "decimal (unat (source_peer_id a)) = decimal (unat (source_peer_id b))" using eq by metis
  moreover from this have "unat (source_peer_id a) = unat (source_peer_id b)" by (rule decimal_inj)
  ultimately show "message_of a = message_of b" using eq by (simp add: message_key_def message_of_def word_unat_eq_iff)
qed (simp add: message_key_def message_of_def)

text \<open>The messages that are shown: all, or each pair of a source and a text when it comes first.\<close>

definition shown :: "bool \<Rightarrow> IncomingPacket list \<Rightarrow> (u32 \<times> byte list) list" where
  "shown show_duplicates ds = (if show_duplicates then map message_of ds else rev (remdups (rev (map message_of ds))))"

lemma shown_snoc:
  "shown show_duplicates (ds @ [d]) =
     shown show_duplicates ds @ (if show_duplicates \<or> message_of d \<notin> message_of ` set ds then [message_of d] else [])"
  by (simp add: shown_def)

definition line_of :: "u32 \<times> byte list \<Rightarrow> u32 \<times> nat \<times> byte list" where
  "line_of m = (fst m, length (snd m), c_string (snd m))"

definition control_line :: "IncomingPacket \<Rightarrow> u32 \<times> PacketType \<times> nat" where
  "control_line packet = (source_peer_id packet, ip_type packet, length (ip_data packet))"

text \<open>The state after the control packets \<open>cs\<close> and the data packets \<open>ds\<close> were drained.\<close>

definition counted :: "p2p_options \<Rightarrow> IncomingPacket list \<Rightarrow> IncomingPacket list \<Rightarrow> demo_state \<Rightarrow> bool" where
  "counted o1 cs ds s \<longleftrightarrow>
     received_control_packets (demo_stats s) = int (length cs) \<and> control_lines (demo_lines s) = map control_line cs \<and>
     received_data_packets (demo_stats s) = int (length ds) \<and>
     received_data_bytes (demo_stats s) = int (sum_list (map (length \<circ> ip_data) ds)) \<and>
     data_lines (demo_lines s) = map line_of (shown (po_show_duplicates o1) ds) \<and>
     suppressed_duplicate_packets (demo_stats s) = int (length ds) - int (length (shown (po_show_duplicates o1) ds)) \<and>
     (\<not> po_show_duplicates o1 \<longrightarrow> seen_messages s = message_key ` set ds) \<and>
     sent_messages (demo_stats s) = int (length (send_lines (demo_lines s))) \<and> send_sequence s = sent_messages (demo_stats s) \<and>
     (\<forall>i < length (send_lines (demo_lines s)). \<exists>elapsed_ms m. send_lines (demo_lines s) ! i = demo_message o1 (int i + 1) elapsed_ms m)"

lemma drain_data_counted:
  assumes "counted o1 cs ds s"
  shows "counted o1 cs (ds @ [d]) (drain_data (po_show_duplicates o1) d s)"
proof -
  have mem: "message_key d \<in> message_key ` set ds \<longleftrightarrow> message_of d \<in> message_of ` set ds" by (auto simp: image_iff message_key_eq)
  show ?thesis using assms mem
    by (auto simp: counted_def drain_data_def Let_def shown_snoc line_of_def message_of_def)
qed

lemma fold_data_counted:
  "counted o1 cs ds s \<Longrightarrow> counted o1 cs (ds @ es) (fold (drain_data (po_show_duplicates o1)) es s)"
proof (induction es arbitrary: ds s)
  case (Cons e es)
  from Cons.IH [OF drain_data_counted [OF Cons.prems, of e]] show ?case by simp
qed simp

lemma fold_control_counted: "counted o1 cs ds s \<Longrightarrow> counted o1 (cs @ es) ds (fold drain_control es s)"
proof (induction es arbitrary: cs s)
  case (Cons e es)
  have "counted o1 (cs @ [e]) ds (drain_control e s)"
    using Cons.prems unfolding counted_def by (simp add: drain_control_def control_line_def)
  from Cons.IH [OF this] show ?case by simp
qed simp

lemma node_independent [simp]: "counted o1 cs ds (s\<lparr>demo_node := n\<rparr>) = counted o1 cs ds s"
  by (simp add: counted_def)

lemma DrainIncoming_counted:
  "counted o1 cs ds s \<Longrightarrow>
   counted o1 (cs @ incoming_control (demo_node s)) (ds @ incoming_data (demo_node s)) (DrainIncoming (po_show_duplicates o1) s)"
  by (simp add: DrainIncoming_def poll_with_eq fold_data_counted fold_control_counted)

lemma demo_send_counted:
  assumes "counted o1 cs ds s"
  shows "counted o1 cs ds (demo_send o1 start_time turn s)"
proof (cases "p2p_now turn \<ge> next_send_time s")
  case True
  let ?msg = "demo_message o1 (send_sequence s + 1) ((p2p_now turn - start_time) div nanoseconds_per_millisecond) (demo_node s)"
  let ?s = "demo_send o1 start_time turn s"
  have lines: "send_lines (demo_lines ?s) = send_lines (demo_lines s) @ [?msg]" "data_lines (demo_lines ?s) = data_lines (demo_lines s)"
    "control_lines (demo_lines ?s) = control_lines (demo_lines s)" using True by (simp_all add: demo_send_def Let_def)
  have seq: "send_sequence s = int (length (send_lines (demo_lines s)))" using assms by (simp add: counted_def)
  have "\<exists>elapsed_ms m. (send_lines (demo_lines s) @ [?msg]) ! i = demo_message o1 (int i + 1) elapsed_ms m"
    if "i < Suc (length (send_lines (demo_lines s)))" for i
  proof (cases "i = length (send_lines (demo_lines s))")
    case True
    then show ?thesis using seq by auto
  next
    case False
    then show ?thesis using assms that by (simp add: counted_def nth_append)
  qed
  then show ?thesis using assms True unfolding counted_def lines by (simp add: demo_send_def Let_def)
qed (use assms in \<open>simp add: demo_send_def\<close>)

lemma p2p_turn_counted:
  assumes "counted o1 cs ds s" and "p2p_turn_step P N o1 start_time turn p s = Some (p', s')"
    and "Node_Update P N (p2p_init turn) (p2p_env turn) p (p2p_threads turn (demo_node s)) = Some (r, p1, n)"
  shows "counted o1 (cs @ incoming_control n) (ds @ incoming_data n) s'"
proof -
  let ?s = "DrainIncoming (po_show_duplicates o1) (s\<lparr>demo_node := n\<rparr>)"
  have "counted o1 (cs @ incoming_control n) (ds @ incoming_data n) ?s"
    using DrainIncoming_counted [of o1 cs ds "s\<lparr>demo_node := n\<rparr>"] assms(1) by simp
  moreover from this have "counted o1 (cs @ incoming_control n) (ds @ incoming_data n) (?s\<lparr>demo_node := x, did_promote := True\<rparr>)" for x
    by (simp add: counted_def)
  ultimately show ?thesis using assms(2,3)
    by (auto simp: p2p_turn_step_def bind_eq_Some_conv Let_def split: if_splits intro: demo_send_counted)
qed

text \<open>The node as each turn of the loop finds it after \<^verbatim>\<open>Update\<close>: what waits in its two queues is what the turn drains.\<close>

fun p2p_updated :: "platform \<Rightarrow> net_calls \<Rightarrow> p2p_options \<Rightarrow> int \<Rightarrow> p2p_turn list \<Rightarrow> process_sockets \<Rightarrow> demo_state \<Rightarrow> ZP2PNode list" where
  "p2p_updated P N o1 start_time [] p s = []"
| "p2p_updated P N o1 start_time (turn # turns) p s =
     (if \<not> p2p_clock turn < start_time + po_duration_seconds o1 * nanoseconds_per_second then []
      else case Node_Update P N (p2p_init turn) (p2p_env turn) p (p2p_threads turn (demo_node s)) of
        None \<Rightarrow> []
      | Some (_, _, n) \<Rightarrow> n #
          (case p2p_turn_step P N o1 start_time turn p s of
             None \<Rightarrow> []
           | Some (p, s) \<Rightarrow> p2p_updated P N o1 start_time turns p s))"

lemma p2p_loop_counted:
  "counted o1 cs ds s \<Longrightarrow> p2p_loop P N o1 start_time turns p s = Some s' \<Longrightarrow>
   counted o1 (cs @ concat (map incoming_control (p2p_updated P N o1 start_time turns p s)))
     (ds @ concat (map incoming_data (p2p_updated P N o1 start_time turns p s))) s'"
proof (induction turns arbitrary: cs ds p s)
  case (Cons turn turns)
  show ?case
  proof (cases "p2p_clock turn < start_time + po_duration_seconds o1 * nanoseconds_per_second")
    case False
    with Cons.prems show ?thesis by simp
  next
    case True
    with Cons.prems(2) obtain p1 s1 where step: "p2p_turn_step P N o1 start_time turn p s = Some (p1, s1)"
      and rest: "p2p_loop P N o1 start_time turns p1 s1 = Some s'" by (auto split: option.splits)
    then obtain r q n where u: "Node_Update P N (p2p_init turn) (p2p_env turn) p (p2p_threads turn (demo_node s)) = Some (r, q, n)"
      by (auto simp: p2p_turn_step_def bind_eq_Some_conv)
    from Cons.IH [OF p2p_turn_counted [OF Cons.prems(1) step u] rest] show ?thesis using True step u by simp
  qed
qed simp

subsection \<open>Properties\<close>

text \<open>C38: at the end of a run of the peer-to-peer demo its summary is exact.  The control packets, data packets and data
  bytes it counts are those that waited in the node's two queues after each \<^verbatim>\<open>Update\<close>, and there is one line for each control packet.
  Without the option for duplicates each message of each source is printed once, when it comes
  first, and in that order, and the suppressed packets are the rest; the text under which a message is remembered
  does not confuse two sources.  The messages sent are as many as their lines, numbered from 1 without a gap; each
  call that prints such a line hands exactly that text to the node, for the destination the options name.\<close>

theorem p2p_demo_prints_once:
  assumes "p2p_loop P N o1 start_time turns p (p2p_initial start_time n) = Some s"
  shows "(let ns = p2p_updated P N o1 start_time turns p (p2p_initial start_time n);
        cs = concat (map incoming_control ns); ds = concat (map incoming_data ns); sent = send_lines (demo_lines s) in
      received_control_packets (demo_stats s) = int (length cs) \<and>
      control_lines (demo_lines s) = map (\<lambda>x. (source_peer_id x, ip_type x, length (ip_data x))) cs \<and>
      received_data_packets (demo_stats s) = int (length ds) \<and>
      received_data_bytes (demo_stats s) = int (sum_list (map (length \<circ> ip_data) ds)) \<and>
      data_lines (demo_lines s) =
        map line_of (if po_show_duplicates o1 then map message_of ds else rev (remdups (rev (map message_of ds)))) \<and>
      suppressed_duplicate_packets (demo_stats s) = int (length ds) - int (length (data_lines (demo_lines s))) \<and>
      sent_messages (demo_stats s) = int (length sent) \<and>
      (\<forall>i < length sent. \<exists>elapsed_ms m. sent ! i = demo_message o1 (int i + 1) elapsed_ms m)) \<and>
    (\<forall>turn s0. demo_send o1 start_time turn s0 = s0 \<or>
      (\<exists>msg. demo_lines (demo_send o1 start_time turn s0) = demo_lines s0 @ [SendLine msg] \<and>
         demo_node (demo_send o1 start_time turn s0) =
           Node_SendMessage (p2p_env turn) (if po_send_to_all o1 then to_all else to_server) msg (demo_node s0)))"
proof -
  have "counted o1 [] [] (p2p_initial start_time n)"
    by (simp add: counted_def p2p_initial_def new_stats_def shown_def)
  note fin = p2p_loop_counted [OF this assms, unfolded counted_def control_line_def [abs_def] shown_def append_Nil]
  have "demo_send o1 start_time turn s0 = s0 \<or>
      (\<exists>msg. demo_lines (demo_send o1 start_time turn s0) = demo_lines s0 @ [SendLine msg] \<and>
         demo_node (demo_send o1 start_time turn s0) =
           Node_SendMessage (p2p_env turn) (if po_send_to_all o1 then to_all else to_server) msg (demo_node s0))" for turn s0
    by (simp add: demo_send_def Let_def)
  with fin show ?thesis unfolding Let_def by (simp add: comp_def)
qed

definition sample_text :: "u32 \<Rightarrow> byte list \<Rightarrow> IncomingPacket" where
  "sample_text source data = (sample_control source data)\<lparr>ip_channel := Data, ip_type := PacketType_Message\<rparr>"

definition sample_turns :: "p2p_turn list" where
  "sample_turns =
     [\<lparr>p2p_clock = 0, p2p_threads = \<lambda>n. n\<lparr>incoming_control := [sample_control 1 [6]], incoming_data := [sample_text 1 [65], sample_text 1 [65], sample_text 2 [65]]\<rparr>,
       p2p_init = sample_init_env, p2p_env = sample_node_env, p2p_now = 0\<rparr>,
      \<lparr>p2p_clock = 10 ^ 12, p2p_threads = id, p2p_init = sample_init_env, p2p_env = sample_node_env, p2p_now = 0\<rparr>]"

theorem p2p_demo_prints_once_witness:
  "\<exists>s. p2p_loop sample_platform sample_net default_p2p_options 0 sample_turns \<lparr>open_fds = []\<rparr> (p2p_initial 0 (new_node 0)) = Some s \<and>
     received_control_packets (demo_stats s) = 1 \<and> control_lines (demo_lines s) = [(1, PacketType_NetworkControl, 1)] \<and>
     received_data_packets (demo_stats s) = 3 \<and> suppressed_duplicate_packets (demo_stats s) = 1 \<and>
     data_lines (demo_lines s) = [(1, 1, [65]), (2, 1, [65])]"
proof -
  let ?ds = "[sample_text 1 [65], sample_text 1 [65], sample_text 2 [65]]"
  have "priority_empty new_priority_queue" by (simp add: priority_empty_def new_priority_queue_def queue_empty_def new_queue_def)
  then have u: "Node_Update sample_platform sample_net ienv env p ((new_node 0)\<lparr>incoming_control := [sample_control 1 [6]], incoming_data := ?ds\<rparr>) =
      Some (state (new_node 0) \<noteq> kDisconnected, p, (new_node 0)\<lparr>incoming_control := [sample_control 1 [6]], incoming_data := ?ds\<rparr>)" for ienv env p
    by (subst Update_nothing) (simp_all add: new_node_defs)
  have u': "Node_Update sample_platform sample_net sample_init_env sample_node_env \<lparr>open_fds = []\<rparr>
      ((demo_node (p2p_initial 0 (new_node 0)))\<lparr>incoming_control := [sample_control 1 [6]], incoming_data := ?ds\<rparr>) =
      Some (state (new_node 0) \<noteq> kDisconnected, \<lparr>open_fds = []\<rparr>, (new_node 0)\<lparr>incoming_control := [sample_control 1 [6]], incoming_data := ?ds\<rparr>)"
    using u by (simp add: p2p_initial_def)
  have run: "\<exists>s. p2p_loop sample_platform sample_net default_p2p_options 0 sample_turns \<lparr>open_fds = []\<rparr> (p2p_initial 0 (new_node 0)) = Some s"
    using u' by (simp add: sample_turns_def p2p_turn_step_def wants_promotion_def default_p2p_options_def nanoseconds_per_second_def)
  have drained: "p2p_updated sample_platform sample_net default_p2p_options 0 sample_turns \<lparr>open_fds = []\<rparr> (p2p_initial 0 (new_node 0)) =
      [(new_node 0)\<lparr>incoming_control := [sample_control 1 [6]], incoming_data := ?ds\<rparr>]"
    using u' by (simp add: sample_turns_def default_p2p_options_def nanoseconds_per_second_def split: option.split)
  from run obtain s where s: "p2p_loop sample_platform sample_net default_p2p_options 0 sample_turns \<lparr>open_fds = []\<rparr>
      (p2p_initial 0 (new_node 0)) = Some s" by blast
  have "po_show_duplicates default_p2p_options = False" by (simp add: default_p2p_options_def)
  with p2p_demo_prints_once [OF s, unfolded drained Let_def] s show ?thesis
    by (simp add: message_of_def sample_text_def sample_control_def line_of_def c_string_def)
qed

end
