(* ===== verification/Simple_Demo.thy ===== *)
theory Simple_Demo
  imports Sample_Options Handshake
begin

text \<open>
  The programs \<^verbatim>\<open>src/samples/simple_client/main.cc\<close> and \<^verbatim>\<open>src/samples/simple_server/main.cc\<close>: the game mode of
  the client, which sends snapshots, states, events and bursts by its ticks, its message mode, and the loop of
  the server, which counts packets and answers every so many of them.  Each turn of a loop sees the clock and what the
  threads of the transport have done since the turn before.  The packets that are pushed, and those that the server
  polls, are recorded; the allocator's report and the console output are left out.
\<close>

subsection \<open>The client\<close>

text \<open>\<^verbatim>\<open>snprintf\<close> into a buffer of 96 bytes, copied over the start of the payload.\<close>

definition BuildPayload :: "nat \<Rightarrow> byte list \<Rightarrow> int \<Rightarrow> nat \<Rightarrow> byte list" where
  "BuildPayload bytes tag client_id tick =
     (let payload = replicate bytes 0x78;
          header = take 95 (tag @ ascii '' cid='' @ signed_decimal client_id @ ascii '' tick='' @ decimal tick);
          copy_len = min (length payload) (length header)
      in memcpy_at 0 (take copy_len header) payload)"

record push_env =
  push_time :: "nat \<Rightarrow> int"
  push_block :: "nat \<Rightarrow> u64"

record game_state =
  game_client :: ZAsyncTransportLayer
  ticks :: nat
  snapshots_sent :: nat
  states_sent :: nat
  events_sent :: nat
  bursts_sent :: nat
  bytes_sent :: nat
  incoming_packets :: nat
  next_tick :: int
  pushed :: "OutgoingPacket list"

definition client_packet :: "u64 \<Rightarrow> byte list \<Rightarrow> bool \<Rightarrow> PacketPriority \<Rightarrow> OutgoingPacket" where
  "client_packet block payload rel prio =
     OutgoingPacket_with_data block to_server PacketType_Message Data
       \<lparr>reliable = rel, encrypted = False, compressed = False, priority = prio, acknowledged = False,
        awaiting_ack = rel, reserved = False\<rparr> payload"

text \<open>\<^verbatim>\<open>SendPacket\<close>, and the bytes it counts.\<close>

definition SendPacket :: "push_env \<Rightarrow> byte list \<Rightarrow> bool \<Rightarrow> PacketPriority \<Rightarrow> game_state \<Rightarrow> game_state" where
  "SendPacket env payload rel prio s =
     (let i = length (pushed s); packet = client_packet (push_block env i) payload rel prio
      in s\<lparr>game_client := Push (push_time env i) packet (game_client s), pushed := pushed s @ [packet],
           bytes_sent := bytes_sent s + length payload\<rparr>)"

fun send_bursts :: "client_options \<Rightarrow> push_env \<Rightarrow> nat \<Rightarrow> game_state \<Rightarrow> game_state" where
  "send_bursts o1 env 0 s = s"
| "send_bursts o1 env (Suc k) s =
     send_bursts o1 env k
       (let s = SendPacket env (BuildPayload (nat (co_snapshot_bytes o1)) (ascii ''BURST'') (co_client_id o1) (ticks s)) False Low s
        in s\<lparr>bursts_sent := bursts_sent s + 1\<rparr>)"

definition tick_interval :: "client_options \<Rightarrow> int" where
  "tick_interval o1 = (1000000 div co_tick_hz o1) * 1000"

text \<open>The four blocks of a tick.\<close>

definition tick_snapshot :: "client_options \<Rightarrow> push_env \<Rightarrow> game_state \<Rightarrow> game_state" where
  "tick_snapshot o1 env s =
     (let s = SendPacket env (BuildPayload (nat (co_snapshot_bytes o1)) (ascii ''SNAP'') (co_client_id o1) (ticks s)) False Low s
      in s\<lparr>snapshots_sent := snapshots_sent s + 1\<rparr>)"

definition tick_state :: "client_options \<Rightarrow> push_env \<Rightarrow> game_state \<Rightarrow> game_state" where
  "tick_state o1 env s =
     (if ticks s mod nat (co_state_every_ticks o1) = 0 then
        let s = SendPacket env (BuildPayload (nat (co_state_bytes o1)) (ascii ''STATE'') (co_client_id o1) (ticks s)) True Medium s
        in s\<lparr>states_sent := states_sent s + 1\<rparr>
      else s)"

definition tick_event :: "client_options \<Rightarrow> push_env \<Rightarrow> game_state \<Rightarrow> game_state" where
  "tick_event o1 env s =
     (if ticks s mod nat (co_event_every_ticks o1) = 0 then
        let s = SendPacket env (BuildPayload (nat (co_event_bytes o1)) (ascii ''EVENT'') (co_client_id o1) (ticks s)) True High s
        in s\<lparr>events_sent := events_sent s + 1\<rparr>
      else s)"

definition tick_burst :: "client_options \<Rightarrow> push_env \<Rightarrow> game_state \<Rightarrow> game_state" where
  "tick_burst o1 env s =
     (if co_burst_size o1 > 0 \<and> ticks s mod nat (co_burst_every_ticks o1) = 0
      then send_bursts o1 env (nat (co_burst_size o1)) s else s)"

definition game_tick :: "client_options \<Rightarrow> push_env \<Rightarrow> game_state \<Rightarrow> game_state" where
  "game_tick o1 env s =
     (let s = s\<lparr>ticks := ticks s + 1, next_tick := next_tick s + tick_interval o1\<rparr>;
          s = tick_snapshot o1 env s;
          s = tick_state o1 env s;
          s = tick_event o1 env s
      in tick_burst o1 env s)"

text \<open>\<^verbatim>\<open>DrainIncoming\<close>, which polls the data channel only.\<close>

partial_function (option) client_DrainIncoming ::
  "platform \<Rightarrow> call_env \<Rightarrow> nat \<Rightarrow> process_sockets \<Rightarrow> ZAsyncTransportLayer \<Rightarrow> (nat \<times> process_sockets \<times> ZAsyncTransportLayer) option" where
  "client_DrainIncoming P env drained p t =
     Option.bind (client_Poll P env Data p t)
       (\<lambda>(packet, p, t). if packet = None then Some (drained, p, t) else client_DrainIncoming P env (drained + 1) p t)"

record game_turn =
  turn_check :: int
  turn_transport :: "ZAsyncTransportLayer \<Rightarrow> ZAsyncTransportLayer"
  turn_call :: call_env
  turn_now :: int

definition game_drain :: "platform \<Rightarrow> game_turn \<Rightarrow> process_sockets \<Rightarrow> game_state \<Rightarrow> (process_sockets \<times> game_state) option" where
  "game_drain P turn p s =
     map_option (\<lambda>(k, p, t). (p, s\<lparr>game_client := t, incoming_packets := incoming_packets s + k\<rparr>))
       (client_DrainIncoming P (turn_call turn) 0 p (turn_transport turn (game_client s)))"

fun game_loop ::
  "platform \<Rightarrow> client_options \<Rightarrow> push_env \<Rightarrow> int \<Rightarrow> game_turn list \<Rightarrow> process_sockets \<Rightarrow> game_state \<Rightarrow>
   (game_turn list \<times> process_sockets \<times> game_state) option" where
  "game_loop P o1 env end_time [] p s = None"
| "game_loop P o1 env end_time (turn # turns) p s =
     (if \<not> turn_check turn < end_time then Some (turns, p, s)
      else case game_drain P turn p s of
        None \<Rightarrow> None
      | Some (p, s) \<Rightarrow>
          if turn_now turn < next_tick s then game_loop P o1 env end_time turns p s
          else game_loop P o1 env end_time turns p (game_tick o1 env s))"

text \<open>The loops that only drain: one turn each.\<close>

fun drain_turns :: "platform \<Rightarrow> nat \<Rightarrow> game_turn list \<Rightarrow> process_sockets \<Rightarrow> game_state \<Rightarrow> (game_turn list \<times> process_sockets \<times> game_state) option" where
  "drain_turns P 0 turns p s = Some (turns, p, s)"
| "drain_turns P (Suc k) [] p s = None"
| "drain_turns P (Suc k) (turn # turns) p s =
     (case game_drain P turn p s of None \<Rightarrow> None | Some (p, s) \<Rightarrow> drain_turns P k turns p s)"

definition new_game :: "int \<Rightarrow> ZAsyncTransportLayer \<Rightarrow> game_state" where
  "new_game start_time t =
     \<lparr>game_client = t, ticks = 0, snapshots_sent = 0, states_sent = 0, events_sent = 0, bursts_sent = 0, bytes_sent = 0,
      incoming_packets = 0, next_tick = start_time, pushed = []\<rparr>"

definition game_mode :: "platform \<Rightarrow> client_options \<Rightarrow> push_env \<Rightarrow> int \<Rightarrow> game_turn list \<Rightarrow> process_sockets \<Rightarrow> ZAsyncTransportLayer \<Rightarrow>
   (process_sockets \<times> game_state) option" where
  "game_mode P o1 env start_time turns p t =
     (case game_loop P o1 env (start_time + co_duration_seconds o1 * 10 ^ 9) turns p (new_game start_time t) of
        None \<Rightarrow> None
      | Some (turns, p, s) \<Rightarrow> map_option snd (drain_turns P 50 turns p s))"

fun send_messages :: "(nat \<Rightarrow> call_env) \<Rightarrow> byte list \<Rightarrow> nat \<Rightarrow> ZAsyncTransportLayer \<Rightarrow> ZAsyncTransportLayer" where
  "send_messages env payload 0 t = t"
| "send_messages env payload (Suc k) t = send_messages env payload k (client_SendMessage (env k) to_server payload t)"

definition message_mode :: "platform \<Rightarrow> client_options \<Rightarrow> (nat \<Rightarrow> call_env) \<Rightarrow> game_turn list \<Rightarrow> process_sockets \<Rightarrow>
   ZAsyncTransportLayer \<Rightarrow> (process_sockets \<times> game_state) option" where
  "message_mode P o1 env turns p t =
     (case drain_turns P (nat (co_pre_updates o1)) turns p (new_game 0 t) of
        None \<Rightarrow> None
      | Some (turns, p, s) \<Rightarrow>
          let s = s\<lparr>game_client := send_messages env (replicate (nat (co_payload_bytes o1)) 0x63) (nat (co_messages o1)) (game_client s)\<rparr>
          in map_option snd (drain_turns P (nat (co_post_updates o1)) turns p s))"

definition client_main ::
  "platform \<Rightarrow> net_calls \<Rightarrow> init_env \<Rightarrow> call_env \<Rightarrow> int \<Rightarrow> int \<Rightarrow> push_env \<Rightarrow> (nat \<Rightarrow> call_env) \<Rightarrow> game_turn list \<Rightarrow>
   byte list list \<Rightarrow> process_sockets \<Rightarrow> (int \<times> process_sockets) option" where
  "client_main P N ienv env created_time start_time penv menv turns args p =
     (let o1 = client_ParseArgs args in
      case Connect P N ienv env (ascii ''127.0.0.1'') 1337 p (new_transport created_time) of
        None \<Rightarrow> None
      | Some (False, p, t) \<Rightarrow> Some (1, p)
      | Some (True, p, t) \<Rightarrow>
          (case (if \<not> co_game_mode o1 then message_mode P o1 menv turns p t else game_mode P o1 penv start_time turns p t) of
             None \<Rightarrow> None
           | Some (p, s) \<Rightarrow> map_option (\<lambda>(p, _). (0, p)) (Disconnect p (game_client s))))"

subsection \<open>The server\<close>

record server_state =
  total_data_packets :: nat
  total_data_bytes :: nat
  total_system_packets :: nat
  total_rebroadcast_packets :: nat
  total_rebroadcast_bytes :: nat
  window_packets :: nat
  window_bytes :: nat
  reported_windows :: "(nat \<times> nat) list"
  rebroadcasts :: "OutgoingPacket list"
  polled :: "IncomingPacket list"

definition new_server_state :: server_state where
  "new_server_state = \<lparr>total_data_packets = 0, total_data_bytes = 0, total_system_packets = 0, total_rebroadcast_packets = 0,
     total_rebroadcast_bytes = 0, window_packets = 0, window_bytes = 0, reported_windows = [], rebroadcasts = [], polled = []\<rparr>"

definition rebroadcast_packet :: "u64 \<Rightarrow> nat \<Rightarrow> OutgoingPacket" where
  "rebroadcast_packet block payload_len =
     OutgoingPacket_with_data block to_all PacketType_Message Data
       \<lparr>reliable = False, encrypted = False, compressed = False, priority = Low, acknowledged = False, awaiting_ack = False,
        reserved = False\<rparr> (replicate payload_len 0x73)"

definition serve_packet :: "server_options \<Rightarrow> push_env \<Rightarrow> IncomingPacket \<Rightarrow> server_state \<times> ZServer \<Rightarrow> server_state \<times> ZServer" where
  "serve_packet o1 env packet st =
     (case st of (s, t) \<Rightarrow>
        if IsSystemMessage (ip_type packet) then (s\<lparr>total_system_packets := total_system_packets s + 1\<rparr>, t)
        else
          let n = length (ip_data packet);
              s = s\<lparr>total_data_packets := total_data_packets s + 1, total_data_bytes := total_data_bytes s + n,
                    window_packets := window_packets s + 1, window_bytes := window_bytes s + n\<rparr>
          in if so_rebroadcast_every_packets o1 > 0 \<and> total_data_packets s mod nat (so_rebroadcast_every_packets o1) = 0 then
               let i = length (rebroadcasts s);
                   payload_len = nat (so_rebroadcast_bytes o1);
                   out = rebroadcast_packet (push_block env i) payload_len
               in (s\<lparr>total_rebroadcast_packets := total_rebroadcast_packets s + 1,
                     total_rebroadcast_bytes := total_rebroadcast_bytes s + payload_len, rebroadcasts := rebroadcasts s @ [out]\<rparr>,
                   server_Push (push_time env i) out t)
             else (s, t))"

partial_function (option) serve_packets ::
  "platform \<Rightarrow> call_env \<Rightarrow> server_options \<Rightarrow> push_env \<Rightarrow> server_state \<Rightarrow> ZServer \<Rightarrow> (server_state \<times> ZServer) option" where
  "serve_packets P env o1 penv s t =
     Option.bind (server_Poll P env Data t)
       (\<lambda>(packet, t). case packet of
          None \<Rightarrow> Some (s, t)
        | Some packet \<Rightarrow>
            (case serve_packet o1 penv packet (s\<lparr>polled := polled s @ [packet]\<rparr>, t) of (s, t) \<Rightarrow> serve_packets P env o1 penv s t))"

record server_turn =
  serve_threads :: "ZServer \<Rightarrow> ZServer"
  serve_call :: call_env
  serve_now :: int

definition report_window :: "server_options \<Rightarrow> int \<Rightarrow> server_state \<times> int \<Rightarrow> server_state \<times> int" where
  "report_window o1 now x =
     (case x of (s, next_summary) \<Rightarrow>
        if so_summary_interval_seconds o1 > 0 \<and> now \<ge> next_summary then
          (s\<lparr>reported_windows := reported_windows s @ [(window_packets s, window_bytes s)], window_packets := 0, window_bytes := 0\<rparr>,
           now + so_summary_interval_seconds o1 * 10 ^ 9)
        else (s, next_summary))"

text \<open>The loop without end runs until the duration is over, if there is one.\<close>

fun server_loop ::
  "platform \<Rightarrow> server_options \<Rightarrow> push_env \<Rightarrow> int \<Rightarrow> server_turn list \<Rightarrow> int \<Rightarrow> server_state \<Rightarrow> ZServer \<Rightarrow> (server_state \<times> ZServer) option" where
  "server_loop P o1 penv start_time [] next_summary s t = None"
| "server_loop P o1 penv start_time (turn # turns) next_summary s t =
     (case serve_packets P (serve_call turn) o1 penv s (serve_threads turn t) of
        None \<Rightarrow> None
      | Some (s, t) \<Rightarrow>
          (case report_window o1 (serve_now turn) (s, next_summary) of
             (s, next_summary) \<Rightarrow>
               if so_duration_seconds o1 > 0 \<and> (serve_now turn - start_time) div 10 ^ 9 \<ge> so_duration_seconds o1 then Some (s, t)
               else server_loop P o1 penv start_time turns next_summary s t))"

definition server_main ::
  "platform \<Rightarrow> net_calls \<Rightarrow> init_env \<Rightarrow> int \<Rightarrow> push_env \<Rightarrow> server_turn list \<Rightarrow> byte list list \<Rightarrow> executor option \<Rightarrow>
   process_sockets \<Rightarrow> ZServer \<Rightarrow> (int \<times> process_sockets) option" where
  "server_main P N ienv start_time penv turns args inline_executor p t =
     (let o1 = server_ParseArgs args;
          t = (if so_use_inline_dispatch_executor o1 then SetTaskExecutor inline_executor t
               else SetBuiltInTaskExecutorConfig (nat (so_dispatch_workers o1)) (nat (so_dispatch_max_queued o1)) t)
      in case Begin P N ienv 1337 p t of
           (False, p, t) \<Rightarrow> Some (-1, p)
         | (True, p, t) \<Rightarrow>
             (case server_loop P o1 penv start_time turns start_time new_server_state t of
                None \<Rightarrow> None
              | Some (s, t) \<Rightarrow> map_option (\<lambda>(p, t). (0, p)) (Deinit False p t)))"

subsection \<open>The traffic of the game mode\<close>

lemma length_overlay: "length (memcpy_at 0 (take (min (length p) (length h)) h) p) = length p"
  by (simp add: memcpy_at_def)

lemma length_BuildPayload [simp]: "length (BuildPayload n tag client_id tick) = n"
  unfolding BuildPayload_def Let_def length_overlay by simp

definition reliable_count :: "OutgoingPacket list \<Rightarrow> nat" where
  "reliable_count ps = length (filter (\<lambda>p. reliable (op_flags p)) ps)"

definition game_ok :: "client_options \<Rightarrow> game_state \<Rightarrow> bool" where
  "game_ok o1 s \<longleftrightarrow> snapshots_sent s = ticks s \<and> states_sent s = ticks s div nat (co_state_every_ticks o1) \<and>
     events_sent s = ticks s div nat (co_event_every_ticks o1) \<and>
     bursts_sent s = nat (co_burst_size o1) * (ticks s div nat (co_burst_every_ticks o1)) \<and>
     length (pushed s) = snapshots_sent s + states_sent s + events_sent s + bursts_sent s \<and>
     reliable_count (pushed s) = states_sent s + events_sent s \<and>
     bytes_sent s = nat (co_snapshot_bytes o1) * (snapshots_sent s + bursts_sent s) + nat (co_state_bytes o1) * states_sent s +
       nat (co_event_bytes o1) * events_sent s"

lemma SendPacket_simps [simp]:
  "ticks (SendPacket env payload rel prio s) = ticks s" "snapshots_sent (SendPacket env payload rel prio s) = snapshots_sent s"
  "states_sent (SendPacket env payload rel prio s) = states_sent s" "events_sent (SendPacket env payload rel prio s) = events_sent s"
  "bursts_sent (SendPacket env payload rel prio s) = bursts_sent s" "length (pushed (SendPacket env payload rel prio s)) = length (pushed s) + 1"
  "bytes_sent (SendPacket env payload rel prio s) = bytes_sent s + length payload"
  "reliable_count (pushed (SendPacket env payload rel prio s)) = reliable_count (pushed s) + (if rel then 1 else 0)"
  by (simp_all add: SendPacket_def Let_def reliable_count_def client_packet_def OutgoingPacket_with_data_def)

lemma send_bursts_simps:
  "ticks (send_bursts o1 env k s) = ticks s \<and> snapshots_sent (send_bursts o1 env k s) = snapshots_sent s \<and>
   states_sent (send_bursts o1 env k s) = states_sent s \<and> events_sent (send_bursts o1 env k s) = events_sent s \<and>
   bursts_sent (send_bursts o1 env k s) = bursts_sent s + k \<and> length (pushed (send_bursts o1 env k s)) = length (pushed s) + k \<and>
   bytes_sent (send_bursts o1 env k s) = bytes_sent s + nat (co_snapshot_bytes o1) * k \<and>
   reliable_count (pushed (send_bursts o1 env k s)) = reliable_count (pushed s)"
  by (induction k arbitrary: s) (simp_all add: Let_def)

text \<open>What a block adds: snapshots, states, events, bursts; the packets, the reliable ones among them and the bytes follow.\<close>

definition adds :: "client_options \<Rightarrow> nat \<Rightarrow> nat \<Rightarrow> nat \<Rightarrow> nat \<Rightarrow> game_state \<Rightarrow> game_state \<Rightarrow> bool" where
  "adds o1 a b c d s s' \<longleftrightarrow> ticks s' = ticks s \<and> snapshots_sent s' = snapshots_sent s + a \<and> states_sent s' = states_sent s + b \<and>
     events_sent s' = events_sent s + c \<and> bursts_sent s' = bursts_sent s + d \<and>
     length (pushed s') = length (pushed s) + a + b + c + d \<and> reliable_count (pushed s') = reliable_count (pushed s) + b + c \<and>
     bytes_sent s' = bytes_sent s + nat (co_snapshot_bytes o1) * (a + d) + nat (co_state_bytes o1) * b + nat (co_event_bytes o1) * c"

lemma adds_trans:
  "adds o1 a b c d s s1 \<Longrightarrow> adds o1 a' b' c' d' s1 s2 \<Longrightarrow> adds o1 (a + a') (b + b') (c + c') (d + d') s s2"
  by (simp add: adds_def algebra_simps)

definition due :: "nat \<Rightarrow> int \<Rightarrow> nat" where
  "due k every = (if k mod nat every = 0 then 1 else 0)"

lemma due_div: "Suc k div nat every = k div nat every + due (Suc k) every"
  by (simp add: div_Suc due_def)

lemma blocks_add:
  "adds o1 1 0 0 0 s (tick_snapshot o1 env s)" "adds o1 0 (due (ticks s) (co_state_every_ticks o1)) 0 0 s (tick_state o1 env s)"
  "adds o1 0 0 (due (ticks s) (co_event_every_ticks o1)) 0 s (tick_event o1 env s)"
  "adds o1 0 0 0 (nat (co_burst_size o1) * due (ticks s) (co_burst_every_ticks o1)) s (tick_burst o1 env s)"
  by (simp_all add: adds_def tick_snapshot_def tick_state_def tick_event_def tick_burst_def Let_def send_bursts_simps due_def)

lemma game_tick_adds:
  fixes s o1
  defines "k \<equiv> Suc (ticks s)"
  shows "adds o1 1 (due k (co_state_every_ticks o1)) (due k (co_event_every_ticks o1)) (nat (co_burst_size o1) * due k (co_burst_every_ticks o1))
     (s\<lparr>ticks := k, next_tick := next_tick s + tick_interval o1\<rparr>) (game_tick o1 env s)"
proof -
  let ?s0 = "s\<lparr>ticks := k, next_tick := next_tick s + tick_interval o1\<rparr>"
  let ?s1 = "tick_snapshot o1 env ?s0"
  let ?s2 = "tick_state o1 env ?s1"
  let ?s3 = "tick_event o1 env ?s2"
  have same: "ticks ?s1 = k" "ticks ?s2 = k" "ticks ?s3 = k"
    using blocks_add(1) [of o1 ?s0 env] blocks_add(2) [of o1 ?s1 env] blocks_add(3) [of o1 ?s2 env] by (simp_all add: adds_def)
  have tick: "game_tick o1 env s = tick_burst o1 env ?s3" by (simp add: game_tick_def Let_def k_def)
  note add = adds_trans [OF adds_trans [OF adds_trans [OF blocks_add(1) [of o1 ?s0 env] blocks_add(2) [of o1 ?s1 env]]
    blocks_add(3) [of o1 ?s2 env]] blocks_add(4) [of o1 ?s3 env]]
  show ?thesis using add unfolding tick same by simp
qed

lemma game_tick_ok: "game_ok o1 s \<Longrightarrow> game_ok o1 (game_tick o1 env s)"
  using game_tick_adds [of o1 s env] by (simp add: game_ok_def adds_def due_div algebra_simps)

text \<open>What the options ask a tick to send: payloads with their reliability and priority, in order.  A payload is its
  header, at most 95 bytes of it, filled up with \<open>x\<close> and cut at its size.\<close>

type_synonym planned = "byte list \<times> bool \<times> PacketPriority"

definition payload_text :: "int \<Rightarrow> byte list \<Rightarrow> int \<Rightarrow> nat \<Rightarrow> byte list" where
  "payload_text bytes tag client_id tick =
     take (nat bytes) (take 95 (tag @ ascii '' cid='' @ signed_decimal client_id @ ascii '' tick='' @ decimal tick) @
       replicate (nat bytes) 0x78)"

lemma overlay_fill: "memcpy_at 0 (take (min (length (replicate n x)) (length h)) h) (replicate n x) = take n (h @ replicate n x)"
  by (cases "n \<le> length h") (simp_all add: memcpy_at_def)

lemma BuildPayload_text: "BuildPayload (nat bytes) tag client_id tick = payload_text bytes tag client_id tick"
  unfolding BuildPayload_def payload_text_def Let_def by (rule overlay_fill)

definition tick_plan :: "client_options \<Rightarrow> nat \<Rightarrow> planned list" where
  "tick_plan o1 k =
     [(payload_text (co_snapshot_bytes o1) (ascii ''SNAP'') (co_client_id o1) k, False, Low)] @
     (if k mod nat (co_state_every_ticks o1) = 0
      then [(payload_text (co_state_bytes o1) (ascii ''STATE'') (co_client_id o1) k, True, Medium)] else []) @
     (if k mod nat (co_event_every_ticks o1) = 0
      then [(payload_text (co_event_bytes o1) (ascii ''EVENT'') (co_client_id o1) k, True, High)] else []) @
     (if k mod nat (co_burst_every_ticks o1) = 0
      then replicate (nat (co_burst_size o1)) (payload_text (co_snapshot_bytes o1) (ascii ''BURST'') (co_client_id o1) k, False, Low)
      else [])"

fun packets_from :: "push_env \<Rightarrow> nat \<Rightarrow> planned list \<Rightarrow> OutgoingPacket list" where
  "packets_from env i [] = []"
| "packets_from env i ((payload, rel, prio) # plan) = client_packet (push_block env i) payload rel prio # packets_from env (Suc i) plan"

fun push_from :: "push_env \<Rightarrow> nat \<Rightarrow> OutgoingPacket list \<Rightarrow> ZAsyncTransportLayer \<Rightarrow> ZAsyncTransportLayer" where
  "push_from env i [] t = t"
| "push_from env i (packet # ps) t = push_from env (Suc i) ps (Push (push_time env i) packet t)"

lemma length_packets_from [simp]: "length (packets_from env i plan) = length plan"
  by (induction env i plan rule: packets_from.induct) simp_all

lemma packets_from_append: "packets_from env i (xs @ ys) = packets_from env i xs @ packets_from env (i + length xs) ys"
  by (induction env i xs rule: packets_from.induct) simp_all

lemma push_from_append: "push_from env i (xs @ ys) t = push_from env (i + length xs) ys (push_from env i xs t)"
  by (induction env i xs t rule: push_from.induct) simp_all

definition sends :: "push_env \<Rightarrow> planned list \<Rightarrow> game_state \<Rightarrow> game_state \<Rightarrow> bool" where
  "sends env plan s s' \<longleftrightarrow> pushed s' = pushed s @ packets_from env (length (pushed s)) plan \<and>
     game_client s' = push_from env (length (pushed s)) (packets_from env (length (pushed s)) plan) (game_client s)"

lemma sends_Nil: "sends env [] s s"
  by (simp add: sends_def)

lemma sends_trans: "sends env xs s s1 \<Longrightarrow> sends env ys s1 s2 \<Longrightarrow> sends env (xs @ ys) s s2"
  by (simp add: sends_def packets_from_append push_from_append)

lemma SendPacket_sends: "sends env [(payload, rel, prio)] s (SendPacket env payload rel prio s)"
  by (simp add: sends_def SendPacket_def Let_def)

lemma sends_counters [simp]:
  "sends env xs s (s'\<lparr>snapshots_sent := a\<rparr>) = sends env xs s s'" "sends env xs s (s'\<lparr>states_sent := a\<rparr>) = sends env xs s s'"
  "sends env xs s (s'\<lparr>events_sent := a\<rparr>) = sends env xs s s'" "sends env xs s (s'\<lparr>bursts_sent := a\<rparr>) = sends env xs s s'"
  "sends env xs (s\<lparr>ticks := a, next_tick := b\<rparr>) s' = sends env xs s s'"
  by (simp_all add: sends_def)

lemma send_bursts_sends:
  "sends env (replicate k (payload_text (co_snapshot_bytes o1) (ascii ''BURST'') (co_client_id o1) (ticks s), False, Low)) s (send_bursts o1 env k s)"
proof (induction k arbitrary: s)
  case (Suc k)
  let ?pl = "BuildPayload (nat (co_snapshot_bytes o1)) (ascii ''BURST'') (co_client_id o1) (ticks s)"
  let ?s = "(SendPacket env ?pl False Low s)\<lparr>bursts_sent := bursts_sent (SendPacket env ?pl False Low s) + 1\<rparr>"
  have "sends env [(?pl, False, Low)] s ?s" using SendPacket_sends by simp
  from sends_trans [OF this Suc.IH [of ?s]] show ?case by (simp add: BuildPayload_text Let_def)
qed (simp add: sends_Nil)

lemma blocks_send:
  "sends env [(payload_text (co_snapshot_bytes o1) (ascii ''SNAP'') (co_client_id o1) (ticks s), False, Low)] s (tick_snapshot o1 env s)"
  "sends env (if ticks s mod nat (co_state_every_ticks o1) = 0
      then [(payload_text (co_state_bytes o1) (ascii ''STATE'') (co_client_id o1) (ticks s), True, Medium)] else []) s (tick_state o1 env s)"
  "sends env (if ticks s mod nat (co_event_every_ticks o1) = 0
      then [(payload_text (co_event_bytes o1) (ascii ''EVENT'') (co_client_id o1) (ticks s), True, High)] else []) s (tick_event o1 env s)"
  "sends env (if ticks s mod nat (co_burst_every_ticks o1) = 0
      then replicate (nat (co_burst_size o1)) (payload_text (co_snapshot_bytes o1) (ascii ''BURST'') (co_client_id o1) (ticks s), False, Low)
      else []) s (tick_burst o1 env s)"
  using send_bursts_sends [of env "nat (co_burst_size o1)" o1 s]
  by (simp_all add: tick_snapshot_def tick_state_def tick_event_def tick_burst_def Let_def SendPacket_sends sends_Nil BuildPayload_text)

lemma game_tick_sends: "sends env (tick_plan o1 (Suc (ticks s))) s (game_tick o1 env s)"
proof -
  let ?s0 = "s\<lparr>ticks := Suc (ticks s), next_tick := next_tick s + tick_interval o1\<rparr>"
  let ?s1 = "tick_snapshot o1 env ?s0"
  let ?s2 = "tick_state o1 env ?s1"
  let ?s3 = "tick_event o1 env ?s2"
  have same: "ticks ?s1 = Suc (ticks s)" "ticks ?s2 = Suc (ticks s)" "ticks ?s3 = Suc (ticks s)"
    using blocks_add(1) [of o1 ?s0 env] blocks_add(2) [of o1 ?s1 env] blocks_add(3) [of o1 ?s2 env] by (simp_all add: adds_def)
  have tick: "game_tick o1 env s = tick_burst o1 env ?s3" by (simp add: game_tick_def Let_def)
  note send = sends_trans [OF blocks_send(1) [of env o1 ?s0] sends_trans [OF blocks_send(2) [of env ?s1 o1]
    sends_trans [OF blocks_send(3) [of env ?s2 o1] blocks_send(4) [of env ?s3 o1]]]]
  show ?thesis using send unfolding tick same tick_plan_def by simp
qed

definition game_traced :: "client_options \<Rightarrow> push_env \<Rightarrow> game_state \<Rightarrow> bool" where
  "game_traced o1 env s \<longleftrightarrow> pushed s = packets_from env 0 (concat (map (tick_plan o1) [1..<Suc (ticks s)]))"

lemma game_tick_traced: "game_traced o1 env s \<Longrightarrow> game_traced o1 env (game_tick o1 env s)"
  using game_tick_sends [of env o1 s] game_tick_adds [of o1 s env] by (simp add: game_traced_def sends_def adds_def packets_from_append)

text \<open>What a packet of the client says, once its block was allocated.\<close>

definition carries :: "OutgoingPacket \<Rightarrow> planned \<Rightarrow> bool" where
  "carries packet x \<longleftrightarrow> (case x of (payload, rel, prio) \<Rightarrow>
     payload_source packet = Some payload \<and> destination_peer_id packet = to_server \<and> op_type packet = PacketType_Message \<and>
     op_channel packet = Data \<and> reliable (op_flags packet) = rel \<and> awaiting_ack (op_flags packet) = rel \<and>
     priority (op_flags packet) = prio \<and> \<not> encrypted (op_flags packet))"

lemma packets_carry:
  "\<forall>i. push_block env i \<noteq> 0 \<Longrightarrow> \<forall>x \<in> set plan. length (fst x) < 2 ^ 32 \<Longrightarrow> list_all2 carries (packets_from env i plan) plan"
proof (induction env i plan rule: packets_from.induct)
  case (2 env i payload rel prio plan)
  have "payload_source (client_packet (push_block env i) payload rel prio) = Some payload"
    using OutgoingPacket_with_data_fields(1) 2 unfolding client_packet_def by simp
  then have "carries (client_packet (push_block env i) payload rel prio) (payload, rel, prio)"
    by (simp add: carries_def client_packet_def OutgoingPacket_with_data_def)
  with 2 show ?case by simp
qed simp

lemma plan_lengths:
  assumes "co_snapshot_bytes o1 < 2 ^ 32" "co_state_bytes o1 < 2 ^ 32" "co_event_bytes o1 < 2 ^ 32" "x \<in> set (tick_plan o1 k)"
  shows "length (fst x) < 2 ^ 32"
proof -
  have "length (payload_text bytes tag client_id k) < 2 ^ 32" if "bytes < 2 ^ 32" for bytes tag client_id
  proof -
    have "length (payload_text bytes tag client_id k) \<le> nat bytes" unfolding payload_text_def length_take by (rule min.cobounded2)
    also have "nat bytes < 2 ^ 32" using that by simp
    finally show ?thesis .
  qed
  then show ?thesis using assms by (auto simp: tick_plan_def split: if_splits)
qed

text \<open>The loop: draining changes nothing that is counted here, and a tick comes only when it is due.\<close>

definition game_paced :: "client_options \<Rightarrow> int \<Rightarrow> int \<Rightarrow> game_state \<Rightarrow> bool" where
  "game_paced o1 start_time latest s \<longleftrightarrow> next_tick s = start_time + int (ticks s) * tick_interval o1 \<and>
     (ticks s = 0 \<or> start_time + int (ticks s - 1) * tick_interval o1 \<le> latest)"

lemma game_drain_keeps:
  assumes "game_drain P turn p s = Some (p', s')"
  shows "game_ok o1 s' = game_ok o1 s" "game_paced o1 start_time latest s' = game_paced o1 start_time latest s" "next_tick s' = next_tick s"
    "game_traced o1 env s' = game_traced o1 env s"
  using assms by (auto simp: game_drain_def game_ok_def game_paced_def game_traced_def)

lemma game_tick_next: "next_tick (game_tick o1 env s) = next_tick s + tick_interval o1" "ticks (game_tick o1 env s) = Suc (ticks s)"
proof -
  have send: "next_tick (SendPacket env payload rel prio s) = next_tick s" for payload rel prio s by (simp add: SendPacket_def Let_def)
  have "next_tick (send_bursts o1 env k s) = next_tick s" for k s by (induction k arbitrary: s) (simp_all add: Let_def send)
  then show "next_tick (game_tick o1 env s) = next_tick s + tick_interval o1"
    by (simp add: game_tick_def tick_snapshot_def tick_state_def tick_event_def tick_burst_def Let_def send)
  show "ticks (game_tick o1 env s) = Suc (ticks s)" using game_tick_adds [of o1 s env] by (simp add: adds_def)
qed

lemma game_loop_keeps:
  "game_loop P o1 env end_time turns p s = Some (turns', p', s') \<Longrightarrow> game_ok o1 s \<and> game_traced o1 env s \<Longrightarrow> game_paced o1 start_time latest s \<Longrightarrow>
   \<forall>turn \<in> set turns. turn_now turn \<le> latest \<Longrightarrow> game_ok o1 s' \<and> game_traced o1 env s' \<and> game_paced o1 start_time latest s'"
proof (induction turns arbitrary: p s)
  case (Cons turn turns)
  show ?case
  proof (cases "turn_check turn < end_time")
    case False
    with Cons.prems show ?thesis by simp
  next
    case True
    with Cons.prems(1) obtain p1 s1 where d: "game_drain P turn p s = Some (p1, s1)" by (auto split: option.splits)
    note keep = game_drain_keeps [OF d]
    show ?thesis
    proof (cases "turn_now turn < next_tick s1")
      case True': True
      with Cons True d keep show ?thesis by simp
    next
      case False
      have ok: "game_ok o1 (game_tick o1 env s1) \<and> game_traced o1 env (game_tick o1 env s1)"
        using Cons.prems(2) keep(1,4) game_tick_ok game_tick_traced by simp
      have paced: "game_paced o1 start_time latest s1" using Cons.prems(3) keep(2) by blast
      then have "start_time + int (ticks s1) * tick_interval o1 \<le> latest" using False Cons.prems(4) by (simp add: game_paced_def)
      then have "game_paced o1 start_time latest (game_tick o1 env s1)"
        using paced by (simp add: game_paced_def game_tick_next algebra_simps)
      with Cons.IH [OF _ ok] Cons.prems(1,4) True d False show ?thesis by simp
    qed
  qed
qed simp

lemma drain_turns_keeps:
  "drain_turns P k turns p s = Some (turns', p', s') \<Longrightarrow> game_ok o1 s' = game_ok o1 s \<and> game_traced o1 env s' = game_traced o1 env s \<and>
   game_paced o1 start_time latest s' = game_paced o1 start_time latest s"
proof (induction P k turns p s rule: drain_turns.induct)
  case (3 P k turn turns p s)
  then show ?case using game_drain_keeps by (auto split: option.splits)
qed auto

subsection \<open>Draining the data channel\<close>

text \<open>Packets that wait on a channel leave it in the order of \<open>departures\<close>; when none of them is a system message, draining
  returns with their number and touches nothing else, the control channel, on which the messages of the handshake
  come, included.\<close>

definition waiting_on :: "PacketChannelType \<Rightarrow> 'a ZPacketQueue_scheme \<Rightarrow> IncomingPacket list" where
  "waiting_on channel t = departures (lane (channel_incoming_queues t channel))"

lemma Pop_cases:
  assumes ok: "priority_ok (channel_incoming_queues t channel)"
  obtains (empty) "waiting_on channel t = []" "Pop channel t = (None, t)"
    | (packet) x xs q where "waiting_on channel t = x # xs" "departures (lane q) = xs" "priority_ok q"
        "Pop channel t = (Some x, t\<lparr>channel_incoming_queues := (channel_incoming_queues t)(channel := q)\<rparr>)"
proof (cases "waiting_on channel t")
  case Nil
  then have "priority_empty (channel_incoming_queues t channel)" by (simp add: waiting_on_def priority_empty_iff)
  then have "Pop channel t = (None, t)" by (simp add: Pop_def)
  with Nil show ?thesis by (rule empty)
next
  case (Cons x xs)
  let ?q = "channel_incoming_queues t channel"
  have dep: "departures (lane ?q) = x # xs" using Cons by (simp add: waiting_on_def)
  obtain r q where deq: "priority_dequeue ?q = (r, q)" by fastforce
  have "r = Some x" "departures (lane q) = xs" "priority_ok q"
    using pq.deq_departures [OF ok] pq.deq_ok [OF ok] unfolding deq dep by simp_all
  moreover have "\<not> priority_empty ?q" using dep by (simp add: priority_empty_iff)
  ultimately show ?thesis using deq Cons by (intro packet [of x xs q]) (simp_all add: Pop_def)
qed

definition data_only :: "'a ZPacketQueue_scheme \<Rightarrow> bool" where
  "data_only t \<longleftrightarrow> (\<forall>packet \<in> set (waiting_on Data t). \<not> IsSystemMessage (ip_type packet))"

lemma client_DrainIncoming_plain:
  assumes "priority_ok (channel_incoming_queues t Data)" and "data_only t"
  shows "\<exists>q. client_DrainIncoming P env k p t =
      Some (k + length (waiting_on Data t), p, t\<lparr>channel_incoming_queues := (channel_incoming_queues t)(Data := q)\<rparr>) \<and>
    departures (lane q) = []"
  using assms
proof (induction "length (waiting_on Data t)" arbitrary: t k)
  case 0
  from 0 have none: "waiting_on Data t = []" by simp
  then have "Pop Data t = (None, t)" by (cases rule: Pop_cases [OF \<open>priority_ok (channel_incoming_queues t Data)\<close>]) simp_all
  then have "client_DrainIncoming P env k p t = Some (k, p, t)" by (simp add: client_DrainIncoming.simps [of P env k] client_Poll_def)
  moreover have "t\<lparr>channel_incoming_queues := (channel_incoming_queues t)(Data := channel_incoming_queues t Data)\<rparr> = t" by simp
  ultimately show ?case using none unfolding waiting_on_def by (metis add.right_neutral list.size(3))
next
  case (Suc n)
  from Suc.prems(1) show ?case
  proof (cases rule: Pop_cases)
    case empty
    with Suc.hyps(2) show ?thesis by simp
  next
    case (packet x xs q)
    let ?t = "t\<lparr>channel_incoming_queues := (channel_incoming_queues t)(Data := q)\<rparr>"
    have w: "waiting_on Data ?t = xs" using packet(2) by (simp add: waiting_on_def)
    have plain: "\<not> IsSystemMessage (ip_type x)" "data_only ?t" using Suc.prems(2) packet(1) w by (simp_all add: data_only_def)
    have step: "client_DrainIncoming P env k p t = client_DrainIncoming P env (k + 1) p ?t"
      using packet(4) plain(1) by (simp add: client_DrainIncoming.simps [of P env k] client_Poll_def)
    have "n = length (waiting_on Data ?t)" "priority_ok (channel_incoming_queues ?t Data)"
      using Suc.hyps(2) packet(1,3) w by simp_all
    from Suc.hyps(1) [OF this plain(2), of "k + 1"] show ?thesis using step w packet(1) by simp
  qed
qed

subsection \<open>The server's counters\<close>

definition plain :: "IncomingPacket list \<Rightarrow> IncomingPacket list" where
  "plain = filter (\<lambda>packet. \<not> IsSystemMessage (ip_type packet))"

definition server_ok :: "server_options \<Rightarrow> push_env \<Rightarrow> server_state \<Rightarrow> bool" where
  "server_ok o1 penv s \<longleftrightarrow>
     total_data_packets s = length (plain (polled s)) \<and>
     total_data_bytes s = sum_list (map (length \<circ> ip_data) (plain (polled s))) \<and>
     total_system_packets s + total_data_packets s = length (polled s) \<and>
     total_rebroadcast_packets s =
       (if so_rebroadcast_every_packets o1 > 0 then total_data_packets s div nat (so_rebroadcast_every_packets o1) else 0) \<and>
     total_rebroadcast_bytes s = total_rebroadcast_packets s * nat (so_rebroadcast_bytes o1) \<and>
     rebroadcasts s = map (\<lambda>i. rebroadcast_packet (push_block penv i) (nat (so_rebroadcast_bytes o1))) [0..<total_rebroadcast_packets s] \<and>
     total_data_packets s = sum_list (map fst (reported_windows s)) + window_packets s \<and>
     total_data_bytes s = sum_list (map snd (reported_windows s)) + window_bytes s"

lemma serve_packet_ok:
  assumes "server_ok o1 penv s" and "serve_packet o1 penv packet (s\<lparr>polled := polled s @ [packet]\<rparr>, t) = (s', t')"
  shows "server_ok o1 penv s'"
  using assms by (auto simp: server_ok_def serve_packet_def plain_def Let_def div_Suc split: if_splits)

lemma serve_packets_ok:
  assumes ok: "server_ok o1 penv s" and result: "serve_packets P env o1 penv s t = Some (s', t')"
  shows "server_ok o1 penv s'"
proof -
  let ?keeps = "\<lambda>(((((_, _), o1), penv), s), _) (s', _). server_ok o1 penv s \<longrightarrow> server_ok o1 penv s'"
  have "?keeps (((((P, env), o1), penv), s), t) (s', t')"
  proof (rule serve_packets.raw_induct [OF _ result, where Pa = ?keeps])
    fix serve P env o1 penv s and t :: ZServer and r
    assume IH: "\<And>P env o1 penv s t y. serve P env o1 penv s t = Some y \<Longrightarrow> ?keeps (((((P, env), o1), penv), s), t) y"
      and body: "server_Poll P env Data t \<bind> (\<lambda>(packet, t). case packet of None \<Rightarrow> Some (s, t)
        | Some packet \<Rightarrow> (case serve_packet o1 penv packet (s\<lparr>polled := polled s @ [packet]\<rparr>, t) of (s, t) \<Rightarrow> serve P env o1 penv s t)) = Some r"
    obtain x t1 where poll: "server_Poll P env Data t = Some (x, t1)" using body by (auto simp: bind_eq_Some_conv)
    show "?keeps (((((P, env), o1), penv), s), t) r"
    proof (cases x)
      case None
      with body poll show ?thesis by auto
    next
      case (Some packet)
      obtain s2 t2 where step: "serve_packet o1 penv packet (s\<lparr>polled := polled s @ [packet]\<rparr>, t1) = (s2, t2)" by fastforce
      with body poll Some have "serve P env o1 penv s2 t2 = Some r" by simp
      from IH [OF this] show ?thesis using serve_packet_ok [OF _ step] by auto
    qed
  qed
  with ok show ?thesis by simp
qed

lemma report_window_ok: "server_ok o1 penv s \<Longrightarrow> report_window o1 now (s, next_summary) = (s', n') \<Longrightarrow> server_ok o1 penv s'"
  by (auto simp: server_ok_def report_window_def split: if_splits)

lemma server_loop_ok:
  "server_loop P o1 penv start_time turns next_summary s t = Some (s', t') \<Longrightarrow> server_ok o1 penv s \<Longrightarrow> server_ok o1 penv s'"
proof (induction turns arbitrary: next_summary s t)
  case (Cons turn turns)
  from Cons.prems(1) obtain s1 t1 where s1: "serve_packets P (serve_call turn) o1 penv s (serve_threads turn t) = Some (s1, t1)"
    by (auto split: option.splits)
  obtain s2 n2 where s2: "report_window o1 (serve_now turn) (s1, next_summary) = (s2, n2)" by fastforce
  have "server_ok o1 penv s2" using report_window_ok [OF serve_packets_ok [OF Cons.prems(2) s1] s2] .
  then show ?case using Cons.prems(1) Cons.IH s1 s2 by (auto split: if_splits)
qed simp

text \<open>A packet is either left unanswered, or answered by one packet that is handed to the server.\<close>

lemma serve_packet_answers:
  "serve_packet o1 penv packet (s, t) = (s', t') \<Longrightarrow>
   rebroadcasts s' = rebroadcasts s \<and> t' = t \<or>
   (\<exists>out. rebroadcasts s' = rebroadcasts s @ [out] \<and> t' = server_Push (push_time penv (length (rebroadcasts s))) out t)"
  by (auto simp: serve_packet_def Let_def split: if_splits)

lemma rebroadcast_carries:
  assumes "\<forall>i. push_block penv i \<noteq> 0" and "so_rebroadcast_bytes o1 < 2 ^ 32" and "server_ok o1 penv s" and "packet \<in> set (rebroadcasts s)"
  shows "payload_source packet = Some (replicate (nat (so_rebroadcast_bytes o1)) 0x73) \<and> destination_peer_id packet = to_all \<and>
    op_type packet = PacketType_Message \<and> op_channel packet = Data \<and> \<not> reliable (op_flags packet)"
proof -
  obtain i where packet: "packet = rebroadcast_packet (push_block penv i) (nat (so_rebroadcast_bytes o1))"
    using assms(3,4) by (auto simp: server_ok_def)
  have "nat (so_rebroadcast_bytes o1) < 2 ^ 32" using assms(2) by simp
  then have "payload_source packet = Some (replicate (nat (so_rebroadcast_bytes o1)) 0x73)"
    using OutgoingPacket_with_data_fields(1) assms(1) unfolding packet rebroadcast_packet_def by simp
  then show ?thesis by (simp add: packet rebroadcast_packet_def OutgoingPacket_with_data_def)
qed

subsection \<open>Properties\<close>

text \<open>C39: in game mode the simple client sends exactly the traffic its options ask for.  The packets it pushed are, in this
  order, those of the plan of its ticks: a snapshot every tick, a state and an event every so many ticks, bursts of the given
  size, each with the text and size asked for, to the server, and only states and events reliable; each tick hands them to its transport.
  Its counters count them and their bytes, and it never ticks ahead of its rate.  The server counts each packet that it polled once:
  system messages as such, the others with their bytes, in its totals and in one window; it answers one in every so many with
  one packet of the given size to all, which it hands to its transport.  Blocks are allocated and sizes fit 32 bits.\<close>

theorem sample_traffic_exact:
  assumes "game_mode P o1 env start_time turns p t = Some (p', s)" and "\<forall>turn \<in> set turns. turn_now turn \<le> latest"
    and "server_loop P' o2 penv begin_time turns' next_summary new_server_state t2 = Some (r, t3)"
    and "\<forall>i. push_block env i \<noteq> 0 \<and> push_block penv i \<noteq> 0"
    and "co_snapshot_bytes o1 < 2 ^ 32" "co_state_bytes o1 < 2 ^ 32" "co_event_bytes o1 < 2 ^ 32" "so_rebroadcast_bytes o2 < 2 ^ 32"
  shows "snapshots_sent s = ticks s \<and> states_sent s = ticks s div nat (co_state_every_ticks o1) \<and>
    events_sent s = ticks s div nat (co_event_every_ticks o1) \<and>
    bursts_sent s = nat (co_burst_size o1) * (ticks s div nat (co_burst_every_ticks o1)) \<and>
    length (pushed s) = snapshots_sent s + states_sent s + events_sent s + bursts_sent s \<and>
    length (filter (\<lambda>packet. reliable (op_flags packet)) (pushed s)) = states_sent s + events_sent s \<and>
    bytes_sent s = nat (co_snapshot_bytes o1) * (snapshots_sent s + bursts_sent s) + nat (co_state_bytes o1) * states_sent s +
      nat (co_event_bytes o1) * events_sent s \<and>
    list_all2 carries (pushed s) (concat (map (tick_plan o1) [1..<Suc (ticks s)])) \<and>
    (\<forall>s0. game_client (game_tick o1 env s0) =
       push_from env (length (pushed s0)) (drop (length (pushed s0)) (pushed (game_tick o1 env s0))) (game_client s0)) \<and>
    (ticks s = 0 \<or> start_time + int (ticks s - 1) * tick_interval o1 \<le> latest) \<and>
    total_data_packets r = length (plain (polled r)) \<and>
    total_data_bytes r = sum_list (map (length \<circ> ip_data) (plain (polled r))) \<and>
    total_system_packets r = length (polled r) - length (plain (polled r)) \<and>
    total_data_packets r = sum_list (map fst (reported_windows r)) + window_packets r \<and>
    total_data_bytes r = sum_list (map snd (reported_windows r)) + window_bytes r \<and>
    length (rebroadcasts r) =
      (if so_rebroadcast_every_packets o2 > 0 then total_data_packets r div nat (so_rebroadcast_every_packets o2) else 0) \<and>
    total_rebroadcast_packets r = length (rebroadcasts r) \<and>
    total_rebroadcast_bytes r = length (rebroadcasts r) * nat (so_rebroadcast_bytes o2) \<and>
    (\<forall>packet \<in> set (rebroadcasts r). payload_source packet = Some (replicate (nat (so_rebroadcast_bytes o2)) 0x73) \<and>
       destination_peer_id packet = to_all \<and> op_type packet = PacketType_Message \<and> op_channel packet = Data \<and> \<not> reliable (op_flags packet)) \<and>
    (\<forall>packet s0 t0 s1 t1. serve_packet o2 penv packet (s0, t0) = (s1, t1) \<longrightarrow>
       rebroadcasts s1 = rebroadcasts s0 \<and> t1 = t0 \<or>
       (\<exists>out. rebroadcasts s1 = rebroadcasts s0 @ [out] \<and> t1 = server_Push (push_time penv (length (rebroadcasts s0))) out t0))"
proof -
  obtain turns1 p1 s1 where loop: "game_loop P o1 env (start_time + co_duration_seconds o1 * 10 ^ 9) turns p (new_game start_time t) =
      Some (turns1, p1, s1)" using assms(1) by (auto simp: game_mode_def split: option.splits)
  with assms(1) obtain turns2 where drain: "drain_turns P 50 turns1 p1 s1 = Some (turns2, p', s)" by (auto simp: game_mode_def)
  have start: "game_ok o1 (new_game start_time t) \<and> game_traced o1 env (new_game start_time t)" "game_paced o1 start_time latest (new_game start_time t)"
    by (simp_all add: game_ok_def game_traced_def game_paced_def new_game_def reliable_count_def)
  have run: "game_ok o1 s" "game_traced o1 env s" "game_paced o1 start_time latest s"
    using game_loop_keeps [OF loop start assms(2)] drain_turns_keeps [OF drain] by blast+
  have carried: "list_all2 carries (pushed s) (concat (map (tick_plan o1) [1..<Suc (ticks s)]))"
    unfolding run(2) [unfolded game_traced_def] by (rule packets_carry) (use assms(4) plan_lengths [OF assms(5-7)] in auto)
  have tick: "game_client (game_tick o1 env s0) =
       push_from env (length (pushed s0)) (drop (length (pushed s0)) (pushed (game_tick o1 env s0))) (game_client s0)" for s0
    using game_tick_sends [of env o1 s0] by (simp add: sends_def)
  have "server_ok o2 penv new_server_state" by (simp add: server_ok_def new_server_state_def plain_def)
  from server_loop_ok [OF assms(3) this] have server: "server_ok o2 penv r" .
  have answers: "payload_source packet = Some (replicate (nat (so_rebroadcast_bytes o2)) 0x73) \<and> destination_peer_id packet = to_all \<and>
      op_type packet = PacketType_Message \<and> op_channel packet = Data \<and> \<not> reliable (op_flags packet)" if "packet \<in> set (rebroadcasts r)" for packet
    using rebroadcast_carries [OF _ assms(8) server that] assms(4) by blast
  have answered: "serve_packet o2 penv packet (s0, t0) = (s1, t1) \<longrightarrow>
      rebroadcasts s1 = rebroadcasts s0 \<and> t1 = t0 \<or>
      (\<exists>out. rebroadcasts s1 = rebroadcasts s0 @ [out] \<and> t1 = server_Push (push_time penv (length (rebroadcasts s0))) out t0)" for packet s0 t0 s1 t1
    using serve_packet_answers by blast
  note counts = server [unfolded server_ok_def]
  have sent: "length (rebroadcasts r) = total_rebroadcast_packets r" using counts by (metis length_map length_upt minus_nat.diff_0)
  have sys: "total_system_packets r = length (polled r) - length (plain (polled r))" using counts by linarith
  have rest: "length (rebroadcasts r) =
      (if so_rebroadcast_every_packets o2 > 0 then total_data_packets r div nat (so_rebroadcast_every_packets o2) else 0)"
    "total_rebroadcast_packets r = length (rebroadcasts r)"
    "total_rebroadcast_bytes r = length (rebroadcasts r) * nat (so_rebroadcast_bytes o2)" unfolding sent using counts by blast+
  have pace: "ticks s = 0 \<or> start_time + int (ticks s - 1) * tick_interval o1 \<le> latest" using run(3) by (simp add: game_paced_def)
  note game = run(1) [unfolded game_ok_def reliable_count_def]
  from tick answers answered counts sys rest pace game carried show ?thesis by (elim conjE, intro conjI allI ballI) (assumption | blast)+
qed

definition quiet_turn :: "int \<Rightarrow> game_turn" where
  "quiet_turn check = \<lparr>turn_check = check, turn_transport = \<lambda>_. new_transport 0,
     turn_call = \<lparr>call_time = 0, call_block = 0, call_fresh = \<lambda>_. 0\<rparr>, turn_now = 0\<rparr>"

lemma quiet_drain: "\<exists>x. game_drain P (quiet_turn check) p s = Some (p, s\<lparr>game_client := x\<rparr>)"
proof -
  have "priority_ok (channel_incoming_queues (new_transport 0) Data)" "waiting_on Data (new_transport 0) = []"
    by (simp_all add: new_transport_def ZAsyncTransportLayer.defs new_packet_queue_def new_dispatcher_def ZPacketQueue.defs
        PacketDispatcher.defs waiting_on_def departures_def)
  then obtain x where "client_DrainIncoming P (turn_call (quiet_turn check)) 0 p (new_transport 0) = Some (0, p, x)"
    using client_DrainIncoming_plain [of "new_transport 0" P "turn_call (quiet_turn check)" 0 p] by (auto simp: data_only_def)
  then show ?thesis by (intro exI [of _ x]) (simp add: game_drain_def quiet_turn_def)
qed

lemma quiet_drains: "\<exists>x. drain_turns P k (replicate k (quiet_turn check)) p s = Some ([], p, s\<lparr>game_client := x\<rparr>)"
proof (induction k arbitrary: s)
  case 0
  show ?case by (intro exI [of _ "game_client s"]) simp
next
  case (Suc k)
  from quiet_drain obtain x where "game_drain P (quiet_turn check) p s = Some (p, s\<lparr>game_client := x\<rparr>)" by blast
  with Suc.IH [of "s\<lparr>game_client := x\<rparr>"] show ?case by simp
qed

definition sample_push_env :: push_env where
  "sample_push_env = \<lparr>push_time = \<lambda>_. 0, push_block = \<lambda>_. 64\<rparr>"

definition sample_server :: ZServer where
  "sample_server = ZAsyncTransportLayer.extend (new_transport 0) (ZServer.fields {})"

definition sample_server_turn :: server_turn where
  "sample_server_turn = \<lparr>serve_threads = \<lambda>_. sample_server, serve_call = \<lparr>call_time = 0, call_block = 0, call_fresh = \<lambda>_. 0\<rparr>,
     serve_now = 10 ^ 10\<rparr>"

theorem sample_traffic_exact_witness:
  "\<exists>s p' r t3. game_mode sample_platform default_client_options sample_push_env 0
       ([quiet_turn 0, quiet_turn (10 ^ 12)] @ replicate 50 (quiet_turn 0)) \<lparr>open_fds = []\<rparr> (new_transport 0) = Some (p', s) \<and>
     server_loop sample_platform (default_server_options\<lparr>so_duration_seconds := 1\<rparr>) sample_push_env 0 [sample_server_turn] 0
       new_server_state sample_server = Some (r, t3) \<and> ticks s = 1 \<and> length (pushed s) = 1 \<and> length (rebroadcasts r) = 0"
proof -
  let ?p = "\<lparr>open_fds = []\<rparr>" and ?turns = "[quiet_turn 0, quiet_turn (10 ^ 12)] @ replicate 50 (quiet_turn 0)"
  obtain x where d: "game_drain sample_platform (quiet_turn 0) ?p (new_game 0 (new_transport 0)) =
      Some (?p, (new_game 0 (new_transport 0))\<lparr>game_client := x\<rparr>)" using quiet_drain by blast
  let ?s = "game_tick default_client_options sample_push_env ((new_game 0 (new_transport 0))\<lparr>game_client := x\<rparr>)"
  obtain y where "drain_turns sample_platform 50 (replicate 50 (quiet_turn 0)) ?p ?s = Some ([], ?p, ?s\<lparr>game_client := y\<rparr>)"
    using quiet_drains by blast
  then have game: "game_mode sample_platform default_client_options sample_push_env 0 ?turns ?p (new_transport 0) = Some (?p, ?s\<lparr>game_client := y\<rparr>)"
    using d by (simp add: game_mode_def default_client_options_def quiet_turn_def new_game_def)
  have ticks: "ticks (?s\<lparr>game_client := y\<rparr>) = 1" by (simp add: game_tick_next new_game_def)
  have "server_Poll sample_platform env Data sample_server = Some (None, sample_server)" for env
    by (simp add: server_Poll_def Pop_def sample_server_def new_transport_def ZAsyncTransportLayer.defs new_packet_queue_def new_dispatcher_def
        ZPacketQueue.defs PacketDispatcher.defs ZServer.defs priority_empty_iff departures_def)
  then have "serve_packets sample_platform env o2 sample_push_env s sample_server = Some (s, sample_server)" for env o2 s
    by (simp add: serve_packets.simps [of sample_platform env])
  then obtain r where server: "server_loop sample_platform (default_server_options\<lparr>so_duration_seconds := 1\<rparr>) sample_push_env 0
      [sample_server_turn] 0 new_server_state sample_server = Some (r, sample_server)"
    by (auto simp: sample_server_turn_def default_server_options_def report_window_def)
  have now: "\<forall>turn \<in> set ?turns. turn_now turn \<le> 0" by (simp add: quiet_turn_def)
  from sample_traffic_exact [OF game now server] ticks game server show ?thesis
    by (simp add: default_client_options_def default_server_options_def sample_push_env_def)
qed

end
