(* ===== verification/Spec2Isabelle.thy ===== *)
theory Spec2Isabelle
  imports Packet_Integrity Packet_Ownership Peers Hash_Map_Laws Priority_Queue Dispatcher Receiver
    Rate_Limit Reliability Task_Executor Shutdown Handshake File_Send P2P_Laws Public_Api Socket_Platforms
    File_Demo P2P_Demo Simple_Demo
begin

text \<open>
  Zetanet is a C++ library for game networking over UDP.  A program owns a \<^verbatim>\<open>ZClient\<close>, a \<^verbatim>\<open>ZServer\<close> or a
  \<^verbatim>\<open>ZP2PNode\<close>; each is a \<^verbatim>\<open>ZAsyncTransportLayer\<close> with a \<^verbatim>\<open>ZSocket\<close>, a \<^verbatim>\<open>ZPeerMapping\<close> and a
  \<^verbatim>\<open>ZPacketQueue\<close>.  Pushed packets wait in priority queues, one per channel.  The sending thread hands
  them as tasks to an executor, whose tasks build, number, encrypt and send datagrams through the
  \<^verbatim>\<open>PacketDispatcher\<close> and record reliable packets in a \<^verbatim>\<open>LockFreeOrderedHashMap\<close>; the same thread scans
  that map and retransmits.  The receiving thread unpacks datagrams, drops duplicates, acknowledges
  and fills the incoming queues, which the program polls.  \<^verbatim>\<open>ZFileTransporter\<close> sends files as chunks
  over a transport and stores received chunks through a file writer.  Four programs under \<^verbatim>\<open>src/samples\<close> use the library.

  The theories, each with the files under \<^verbatim>\<open>src/znet\<close> it models:

  \<^item> \<open>Znet_Prelude\<close>: machine integers, memory blocks as byte lists, generic lemmas and the collections
    of simplification rules; \<open>Platform\<close>: what the sources call and do not contain (AES-GCM, SHA-256, HMAC,
    LZ4, the environment, the byte order) as a record of parameters with named laws.
  \<^item> \<open>Wire_LE\<close> (\<^verbatim>\<open>z_wire_le.h\<close>), \<open>Compression\<close> (\<^verbatim>\<open>z_compression_wrapper.h\<close>), \<open>Crypto\<close> (\<^verbatim>\<open>z_crypto_wrapper\<close>),
    \<open>Checksum\<close>: the codecs.  Reading undoes writing on hosts of any byte order; a changed byte
    changes the checksum; both ends of a key exchange derive the same keys.
  \<^item> \<open>Packets\<close> (\<^verbatim>\<open>z_packets.h\<close>, \<^verbatim>\<open>z_packet_bin_fmt.h\<close>), \<open>Packet_Serdes\<close> and \<open>Packet_Integrity\<close>
    (\<^verbatim>\<open>z_packet_serdes\<close>): the packet format.  What is built is unpacked, what is unpacked is well
    formed, which changes are noticed and which are not.
  \<^item> \<open>Buffer_Pool\<close> (\<^verbatim>\<open>z_network_allocator.h\<close>) and \<open>Packet_Ownership\<close> (the special members of
    \<^verbatim>\<open>OutgoingPacket\<close>): reference-counted blocks with size classes and caches, and programs over
    packets, which never touch a block that is not allocated; \<open>Public_Api\<close> (\<^verbatim>\<open>z_public_api\<close>): the pool's
    statistics agree, and destroying it frees what nobody refers to.
  \<^item> \<open>Formatting\<close> (\<^verbatim>\<open>Format\<close> and the log handler of \<^verbatim>\<open>z_stl_compat.h\<close>): a format string is pieces of text with
    placeholders between them, which are filled in order.
  \<^item> \<open>Peers\<close> (\<^verbatim>\<open>z_peer.h\<close>, \<^verbatim>\<open>z_peer_mapping.h\<close>), \<open>Ordered_Hash_Map\<close> and \<open>Hash_Map_Laws\<close>
    (\<^verbatim>\<open>fancy_queue.h\<close>), \<open>Priority_Queue\<close> (\<^verbatim>\<open>z_packet_priority_queue.h\<close>, \<^verbatim>\<open>MPSCQueue\<close>): the containers.  The
    map, on an explicit heap, refines an association list in insertion order; the queue refines
    a list from which the highest priority leaves first.
  \<^item> \<open>Dispatcher\<close> (\<^verbatim>\<open>z_packet_dispatcher.h\<close>), \<open>Receiver\<close> (\<^verbatim>\<open>z_packet_receiver.h\<close>), \<open>Packet_Queues\<close>
    (\<^verbatim>\<open>z_packet_queues\<close>) with \<open>Queue_Laws\<close>, \<open>Rate_Limit\<close> and \<open>Reliability\<close>: the heart.  Each iteration of a
    thread, each task and each call is one function on the record of the queue; a history is a list of
    such events in any interleaving.  Counters are exact, a reliable packet is popped at most once,
    an acknowledgement settles its packet, the rate limit bounds every window.
  \<^item> \<open>Task_Executor\<close> (\<^verbatim>\<open>z_task_executor\<close>): the thread pool as a step relation; no task is lost or
    run twice, and it drains.
  \<^item> \<open>Socket\<close> (\<^verbatim>\<open>z_socket\<close>, POSIX branch), \<open>Transport\<close> (\<^verbatim>\<open>z_transport\<close>): name resolution, descriptors,
    start and stop, outbound pressure; the system calls are the record \<open>net_calls\<close>.  \<open>Socket_Platforms\<close>
    (\<^verbatim>\<open>z_socket_win.cc\<close>, the Windows branch of \<^verbatim>\<open>z_socket.cc\<close>): error names, the reference counted start of WinSock,
    and which outcomes of a receive call end the receiving thread on either system.  \<open>Shutdown\<close> (\<^verbatim>\<open>Deinit\<close> and
    \<^verbatim>\<open>WaitForPendingDispatchTasks\<close>): the wait on the condition variable in small steps beside the executor's threads; when
    \<^verbatim>\<open>Deinit\<close> returns everything is settled, and it returns unless the last wake-up is lost, which can happen.
  \<^item> \<open>System_Command\<close> (\<^verbatim>\<open>z_system_command.h\<close>), \<open>Handshake\<close> (\<^verbatim>\<open>z_client\<close>, \<^verbatim>\<open>z_server\<close>): messages field by
    field, and the handshake of client and server end to end, through the handlers and what they push.
  \<^item> \<open>File_Chunks\<close>, \<open>File_Receive\<close>, \<open>File_Send\<close> (\<^verbatim>\<open>z_file_transporter\<close>), \<open>File_Write\<close>
    (\<^verbatim>\<open>z_file_write_interface\<close>, \<^verbatim>\<open>z_file_write_mmap.cc\<close>, \<^verbatim>\<open>base::File\<close>): a file that was sent and whose chunks
    arrived is the file that is stored, with either file writer.
  \<^item> \<open>P2P_Node\<close>, \<open>P2P_Laws\<close> (\<^verbatim>\<open>z_p2p_node\<close>): hosts and clients of a session, their control messages,
    rosters, probes and host transitions.
  \<^item> \<open>Sample_Options\<close>, \<open>File_Demo\<close>, \<open>P2P_Demo\<close>, \<open>Simple_Demo\<close> (the programs under \<^verbatim>\<open>src/samples\<close>): the command
    lines and the main loops, composed of the operations above.  A command line is read back as it was written;
    the file demo transfers a file from program to program and writes nowhere else; the peer-to-peer demo prints a
    message once and its summary is exact; the simple client sends exactly the packets it was asked for, and the simple server
    counts every packet it polls.

  The interfaces are locales, interpreted on the model's definitions: \<open>wire_codec\<close> (integers of three
  widths), \<open>field_codec\<close> (fields of a message), \<open>handle_pool\<close> (the buffer pool under the packets),
  \<open>id_source\<close> (identifiers under the peer mapping), \<open>ordered_map\<close> (the hash map under the queue), \<open>fifo\<close> and
  \<open>priority_fifo\<close> (queues), \<open>task_executor\<close> (inline executor and thread pool), \<open>file_writer\<close> (both
  write handles).

  Conventions.  A class is a record, and derivation extends it.  Sizes and cursors of objects in memory are
  natural numbers; values from the wire, counters and identifiers are words and wrap as in the code.
  Strings and paths are byte lists.  A null pointer, a failed call and an early return are \<open>None\<close>,
  \<open>False\<close> or \<open>[]\<close> as the code has them; a fault (use of a freed block or node) is \<open>None\<close> where blocks live
  on an explicit heap, and so is a call that still waits.  What comes from outside a call (clock readings,
  random bytes, fresh addresses, results of system calls, what other threads do while a call sleeps) is an
  argument.  Times are integers in nanoseconds.

  Bounds and fuel.  Walks along the chains of the hash map have as fuel one more than the number of nodes the map
  has made, which is enough since the chains of the invariant are distinct; the theorems show that the
  fuel does not run out.  The polling loops of the peer-to-peer node are partial functions, and it is proved
  that they return.  Other loops are structural, or end by a measure.

  Not modelled.  Memory orders weaker than sequential consistency: every atomic operation is a step of its
  own in the hash map, the thread pool and the end of a transport, whole operations elsewhere: \<^verbatim>\<open>Push\<close> counts a packet in the step in which it
  enqueues it, \<^verbatim>\<open>AddReceiptIfNeeded\<close> records and counts in one step, \<^verbatim>\<open>Deinit\<close> of \<open>Transport\<close> is one step once no task is pending, and the
  polling loops of a node see no packet that arrives while they run.  The statistics of the buffer pool are natural numbers and do
  not wrap around.  The writer of system commands keeps its bytes in a list beside its capacity.  The stream of a positional file
  handle is there or not; the descriptor below it, which belongs to the standard library, is not modelled.  The selection of the cryptographic library
  (macros), the aliases and thin wrappers of standard containers, spans and smart pointers in \<^verbatim>\<open>z_stl_compat.h\<close>, declarations
  in headers that add nothing to the functions they declare, the memory-mapped file writer as compiled for Windows.  Of the samples
  the usage texts, the console output but for what the peer-to-peer demo prints of messages, and the teardown of the process.  The floating-point demand
  average of the buffer pool is an argument: what is proved holds for any targets computed from it.
  \<^verbatim>\<open>ResizeBufferIfNeeded\<close> of the receiver is never called.
\<close>

end
